(* ===== verification/Prelude_JS.thy ===== *)
theory Prelude_JS
  imports Complex_Main "HOL-Library.AList" "HOL-Library.Multiset" "HOL-Library.Sublist"
begin

section \<open>Shared vocabulary: JavaScript strings, maps and sets\<close>

text \<open>
  What every component below uses of the language: the string methods \<open>trim\<close>,
  \<open>toLowerCase\<close>, \<open>startsWith\<close>, \<open>includes\<close>, \<open>indexOf\<close>, \<open>split\<close> and \<open>join\<close>, and the
  insertion-ordered \<open>Map\<close> and \<open>Set\<close> of JavaScript.

  A JavaScript string is modelled as a list of \<^typ>\<open>char\<close>, i.e. the model covers strings
  over the code units U+0000 to U+00FF; white space and case conversion are those of
  ECMAScript on that range. Times and counters are \<^typ>\<open>int\<close> and \<^typ>\<open>nat\<close>
  (JavaScript numbers are exact on integers up to 2^53). A \<open>Map\<close> is an association list
  in insertion order: \<open>AList.update\<close> replaces in place or appends, exactly as
  \<open>Map.prototype.set\<close> does, and \<open>AList.delete\<close> removes the key. A \<open>Set\<close> whose order
  or size matters is a duplicate-free list.
\<close>

named_theorems js_defs "definitions of the JavaScript string functions"
named_theorems js_inv "invariant preservation facts"

subsection \<open>Characters\<close>

text \<open>\<open>\s\<close> and the white space that \<open>trim\<close> removes, on U+0000 to U+00FF.\<close>

definition is_ws :: "char \<Rightarrow> bool" where
  "is_ws c \<longleftrightarrow> c = CHR 0x09 \<or> c = CHR 0x0A \<or> c = CHR 0x0B \<or> c = CHR 0x0C \<or> c = CHR 0x0D
     \<or> c = CHR 0x20 \<or> c = CHR 0xA0"

text \<open>\<open>toLowerCase\<close>: ASCII letters and the Latin-1 capitals (0xD7, the multiplication sign,
  is not a letter).\<close>

definition lower_char :: "char \<Rightarrow> char" where
  "lower_char c = (let n = (of_char c :: nat) in
     if (65 \<le> n \<and> n \<le> 90) \<or> (192 \<le> n \<and> n \<le> 222 \<and> n \<noteq> 215) then char_of (n + 32) else c)"

abbreviation NL :: char where "NL \<equiv> CHR 0x0A"
abbreviation CR :: char where "CR \<equiv> CHR 0x0D"
abbreviation TAB :: char where "TAB \<equiv> CHR 0x09"
abbreviation SPACE :: char where "SPACE \<equiv> CHR 0x20"
abbreviation SQ :: char where "SQ \<equiv> CHR 0x27"
abbreviation DQ :: char where "DQ \<equiv> CHR 0x22"
abbreviation BSL :: char where "BSL \<equiv> CHR 0x5C"
abbreviation BTICK :: char where "BTICK \<equiv> CHR 0x60"

subsection \<open>Strings\<close>

definition trim :: "string \<Rightarrow> string" where
  "trim s = rev (dropWhile is_ws (rev (dropWhile is_ws s)))"

definition to_lower :: "string \<Rightarrow> string" where
  "to_lower s = map lower_char s"

definition starts_with :: "string \<Rightarrow> string \<Rightarrow> bool" where
  "starts_with s p \<longleftrightarrow> take (length p) s = p"

fun str_includes :: "string \<Rightarrow> string \<Rightarrow> bool" where
  "str_includes [] p = (p = [])"
| "str_includes (c # s) p = (starts_with (c # s) p \<or> str_includes s p)"

text \<open>\<open>s.indexOf(c)\<close> for a one-character needle; \<open>None\<close> is JavaScript's -1.\<close>

fun index_of :: "char \<Rightarrow> string \<Rightarrow> nat option" where
  "index_of x [] = None"
| "index_of x (c # s) = (if c = x then Some 0 else map_option Suc (index_of x s))"

text \<open>\<open>s.split(sep)\<close> for a one-character separator.\<close>

fun split_on :: "char \<Rightarrow> string \<Rightarrow> string list" where
  "split_on x [] = [[]]"
| "split_on x (c # s) =
     (if c = x then [] # split_on x s
      else (case split_on x s of [] \<Rightarrow> [[c]] | w # ws \<Rightarrow> (c # w) # ws))"

fun join :: "string \<Rightarrow> string list \<Rightarrow> string" where
  "join sep [] = []"
| "join sep [w] = w"
| "join sep (w # v # ws) = w @ sep @ join sep (v # ws)"

text \<open>JavaScript's \<open>a ?? b\<close> and \<open>a || b\<close> on optional strings.\<close>

definition nullish :: "'a option \<Rightarrow> 'a \<Rightarrow> 'a" where
  "nullish a b = (case a of None \<Rightarrow> b | Some x \<Rightarrow> x)"

definition or_string :: "string \<Rightarrow> string \<Rightarrow> string" where
  "or_string a b = (if a = [] then b else a)"

text \<open>The first alternative of \<open>a ?? b\<close> when both sides may be \<open>undefined\<close>.\<close>

fun orelse :: "'a option \<Rightarrow> 'a option \<Rightarrow> 'a option" where
  "orelse None b = b"
| "orelse (Some a) b = Some a"

text \<open>An optional string used as a condition: \<open>undefined\<close> and the empty string are false.\<close>

definition truthy :: "string option \<Rightarrow> string option" where
  "truthy a = (case a of None \<Rightarrow> None | Some s \<Rightarrow> if s = [] then None else Some s)"

text \<open>\<open>s.replace(re, r)\<close> for one match without groups: the \<open>$\<close> patterns of the replacement text,
  where \<open>m\<close> is the match, \<open>pre\<close> what precedes it and \<open>post\<close> what follows.\<close>

fun expand_replacement :: "string \<Rightarrow> string \<Rightarrow> string \<Rightarrow> string \<Rightarrow> string" where
  "expand_replacement pre m post (c # d # r) =
     (if c = CHR ''$'' \<and> d = CHR ''$'' then CHR ''$'' # expand_replacement pre m post r
      else if c = CHR ''$'' \<and> d = CHR ''&'' then m @ expand_replacement pre m post r
      else if c = CHR ''$'' \<and> d = BTICK then pre @ expand_replacement pre m post r
      else if c = CHR ''$'' \<and> d = SQ then post @ expand_replacement pre m post r
      else c # expand_replacement pre m post (d # r))"
| "expand_replacement pre m post r = r"

text \<open>\<open>new Set(xs)\<close> spread back into an array: first occurrences, in order.\<close>

definition set_add :: "'a \<Rightarrow> 'a list \<Rightarrow> 'a list" where
  "set_add x xs = (if x \<in> set xs then xs else xs @ [x])"

definition set_of_list :: "'a list \<Rightarrow> 'a list" where
  "set_of_list xs = fold set_add xs []"

subsection \<open>Facts about strings\<close>

lemma nullish_simps [simp]: "nullish None b = b" "nullish (Some x) b = x"
  by (simp_all add: nullish_def)

lemma orelse_None [simp]: "orelse a None = a"
  by (cases a) auto

lemma truthy_Some_iff: "truthy a = Some s \<longleftrightarrow> a = Some s \<and> s \<noteq> []"
  by (auto simp: truthy_def split: option.splits)

lemma expand_replacement_plain: "CHR ''$'' \<notin> set r \<Longrightarrow> expand_replacement pre m post r = r"
  by (induction pre m post r rule: expand_replacement.induct) auto

lemma trim_eq_self:
  assumes "s \<noteq> []" "\<not> is_ws (hd s)" "\<not> is_ws (last s)"
  shows "trim s = s"
proof -
  have "dropWhile is_ws s = s" using assms by (cases s) auto
  moreover have "dropWhile is_ws (rev s) = rev s"
    using assms by (cases s rule: rev_cases) auto
  ultimately show ?thesis by (simp add: trim_def)
qed

lemma trim_Nil [simp]: "trim [] = []"
  by (simp add: trim_def)

lemma trim_nonempty_ends:
  assumes "trim s \<noteq> []"
  shows "\<not> is_ws (hd (trim s))" and "\<not> is_ws (last (trim s))"
proof -
  define d where "d = dropWhile is_ws s"
  define r where "r = dropWhile is_ws (rev d)"
  have t: "trim s = rev r" by (simp add: trim_def d_def r_def)
  with assms have r: "r \<noteq> []" by simp
  then show "\<not> is_ws (last (trim s))"
    using hd_dropWhile [of is_ws "rev d"] by (simp add: t last_rev r_def)
  obtain ws where "rev d = ws @ r" unfolding r_def by (metis takeWhile_dropWhile_id)
  then have d: "d = rev r @ rev ws" by (metis rev_append rev_rev_ident)
  then have "hd d = hd (rev r)" using r by simp
  moreover have "d \<noteq> []" using d r by simp
  ultimately show "\<not> is_ws (hd (trim s))"
    using hd_dropWhile [of is_ws s] by (simp add: t d_def)
qed

lemma trim_idem [simp]: "trim (trim s) = trim s"
  using trim_eq_self [of "trim s"] trim_nonempty_ends [of s] by (cases "trim s = []") auto

lemma set_trim_subset: "set (trim s) \<subseteq> set s"
  unfolding trim_def by (metis set_dropWhileD set_rev subsetI)

lemma split_on_not_Nil [simp]: "split_on x s \<noteq> []"
  by (induction s) (auto split: list.splits)

lemma split_on_no_sep: "w \<in> set (split_on x s) \<Longrightarrow> x \<notin> set w"
proof (induction s arbitrary: w)
  case (Cons c s)
  then show ?case by (cases "split_on x s") (auto split: if_splits)
qed simp

lemma join_split_on: "join [x] (split_on x s) = s"
proof (induction s)
  case (Cons c s)
  obtain w ws where w: "split_on x s = w # ws" by (cases "split_on x s") auto
  with Cons show ?case by (cases ws) auto
qed simp

lemma split_on_word: "x \<notin> set w \<Longrightarrow> split_on x w = [w]"
  by (induction w) auto

lemma split_on_step: "x \<notin> set w \<Longrightarrow> split_on x (w @ x # s) = w # split_on x s"
  by (induction w) auto

lemma sep_split: "x \<notin> set a \<Longrightarrow> x \<notin> set b \<Longrightarrow> a @ x # s = b @ x # t \<Longrightarrow> a = b \<and> s = t"
proof (induction a arbitrary: b)
  case Nil
  then show ?case by (cases b) auto
next
  case (Cons c a)
  then show ?case by (cases b) auto
qed

text \<open>Characters by their codes.\<close>

lemma char_code_eq: "c = d \<longleftrightarrow> (of_char c :: nat) = of_char d"
  by simp

lemma is_ws_code: "is_ws c \<longleftrightarrow> (of_char c :: nat) \<in> {9, 10, 11, 12, 13, 32, 160}"
  unfolding is_ws_def char_code_eq [of c] by simp

lemma lower_code: "(of_char (lower_char c) :: nat) = (let n = of_char c in
    if (65 \<le> n \<and> n \<le> 90) \<or> (192 \<le> n \<and> n \<le> 222 \<and> n \<noteq> 215) then n + 32 else n)"
  by (auto simp: lower_char_def Let_def)

lemma to_lower_idem [simp]: "to_lower (to_lower s) = to_lower s"
proof -
  have "lower_char (lower_char c) = lower_char c" for c
    by (subst char_code_eq) (auto simp: lower_code Let_def)
  then show ?thesis by (simp add: to_lower_def)
qed

lemma is_ws_lower [simp]: "is_ws (lower_char c) = is_ws c"
  unfolding is_ws_code lower_code by (auto simp: Let_def)

lemma starts_with_append [simp]: "starts_with (p @ s) p"
  by (simp add: starts_with_def)

lemma starts_with_iff: "starts_with s p \<longleftrightarrow> (\<exists>t. s = p @ t)"
  unfolding starts_with_def by (metis append_take_drop_id append_eq_conv_conj)

subsection \<open>Facts about duplicate-free lists and ordered maps\<close>

lemma set_set_add [simp]: "set (set_add x xs) = insert x (set xs)"
  by (auto simp: set_add_def)

lemma distinct_set_add [simp]: "distinct xs \<Longrightarrow> distinct (set_add x xs)"
  by (auto simp: set_add_def)

lemma set_fold_set_add [simp]: "set (fold set_add ys xs) = set ys \<union> set xs"
  by (induction ys arbitrary: xs) auto

lemma distinct_fold_set_add: "distinct xs \<Longrightarrow> distinct (fold set_add ys xs)"
  by (induction ys arbitrary: xs) auto

lemma set_set_of_list [simp]: "set (set_of_list xs) = set xs"
  by (simp add: set_of_list_def)

lemma distinct_set_of_list [simp]: "distinct (set_of_list xs)"
  by (simp add: set_of_list_def distinct_fold_set_add)

abbreviation keys :: "('k \<times> 'v) list \<Rightarrow> 'k list" where
  "keys m \<equiv> map fst m"

declare map_of_eq_Some_iff [simp del] Some_eq_map_of_iff [simp del]

lemma map_of_update_eq [simp]:
  "map_of (AList.update k v m) x = (if x = k then Some v else map_of m x)"
  by (simp add: update_conv')

lemma map_of_delete_eq [simp]:
  "map_of (AList.delete k m) x = (if x = k then None else map_of m x)"
  by (simp add: delete_conv')

lemma update_fresh: "k \<notin> set (keys m) \<Longrightarrow> AList.update k v m = m @ [(k, v)]"
  by (induction m) auto

lemma update_in_place:
  assumes "distinct (keys m)" "(k, v') \<in> set m"
  shows "set (AList.update k v m) = insert (k, v) (set m - {(k, v')})"
  using assms
proof (induction m)
  case (Cons p m)
  then show ?case by (cases p) (auto simp: image_iff rev_image_eqI)
qed simp

lemma map_filter_snd_keys: "distinct (keys m) \<Longrightarrow> distinct (keys (filter P m))"
  by (simp add: distinct_map_filter)


text \<open>Sums over the values of a map, and what an update or a deletion does to them.\<close>

lemma sum_list_update:
  fixes f :: "'v \<Rightarrow> 'b::comm_monoid_add"
  shows "(\<Sum>p \<leftarrow> AList.update k v' m. f (snd p)) + (case map_of m k of None \<Rightarrow> 0 | Some v \<Rightarrow> f v)
    = (\<Sum>p \<leftarrow> m. f (snd p)) + f v'"
proof (induction m)
  case (Cons p m)
  then show ?case by (cases p) (auto simp: ac_simps split: option.splits)
qed simp

lemma sum_list_delete:
  fixes f :: "'v \<Rightarrow> 'b::comm_monoid_add"
  assumes "distinct (keys m)" "map_of m k = Some v"
  shows "(\<Sum>p \<leftarrow> AList.delete k m. f (snd p)) + f v = (\<Sum>p \<leftarrow> m. f (snd p))"
  using assms
proof (induction m)
  case (Cons p m)
  show ?case
  proof (cases "fst p = k")
    case True
    with Cons.prems have "AList.delete k m = m" by auto
    with True Cons.prems show ?thesis by (cases p) (auto simp: ac_simps)
  next
    case False
    with Cons show ?thesis by (cases p) (auto simp: ac_simps)
  qed
qed simp


lemma sum_list_singleton_mset: "(\<Sum>p \<leftarrow> xs. {#f p#}) = mset (map f xs)"
  by (induction xs) auto

end
