(* ===== verification/Promise_Ledger.thy ===== *)
theory Promise_Ledger
  imports Prelude_JS
begin

section \<open>Event-loop runs and the promise ledger\<close>

text \<open>
  The stateful components are JavaScript objects driven by the event loop: each turn runs one
  handler to completion, changes the state and settles some promises. A component is a function
  \<open>exec :: 'op \<Rightarrow> 's \<Rightarrow> 's \<times> 'ev list\<close>; \<open>run_ops\<close> is the sequence of turns.

  The locale \<open>promise_ledger\<close> is the contract shared by the command queue, the bridge client
  and the approval manager: a promise is created unsettled and every handler either keeps it in
  its tables or settles it, once. The lemmas proved in the locale turn this per-handler balance
  into the statement about whole runs.
\<close>

fun run_ops :: "('op \<Rightarrow> 's \<Rightarrow> 's \<times> 'ev list) \<Rightarrow> 'op list \<Rightarrow> 's \<Rightarrow> 's \<times> 'ev list" where
  "run_ops exec [] s = (s, [])"
| "run_ops exec (x # xs) s =
     (let (s1, e1) = exec x s; (s2, e2) = run_ops exec xs s1 in (s2, e1 @ e2))"

lemma run_ops_append:
  "run_ops exec (xs @ ys) s =
     (let (s1, e1) = run_ops exec xs s; (s2, e2) = run_ops exec ys s1 in (s2, e1 @ e2))"
  by (induction xs arbitrary: s) (auto simp: Let_def split: prod.splits)

text \<open>An invariant of every handler is an invariant of every run.\<close>

lemma run_ops_inv:
  assumes step: "\<And>x s s' evs. P s \<Longrightarrow> x \<in> set xs \<Longrightarrow> exec x s = (s', evs) \<Longrightarrow> P s'"
    and "P s" and "run_ops exec xs s = (s', evs)"
  shows "P s'"
  using assms
proof (induction xs arbitrary: s evs)
  case (Cons x xs)
  obtain s1 e1 where 1: "exec x s = (s1, e1)" by fastforce
  obtain e2 where 2: "run_ops exec xs s1 = (s', e2)"
    using Cons.prems(3) 1 by (auto split: prod.splits)
  have "P s1" using Cons.prems(1) [OF Cons.prems(2) _ 1] by simp
  then show ?case using Cons.IH [OF _ _ 2] Cons.prems(1) by (meson list.set_intros(2))
qed simp

text \<open>
  The contract of a component that keeps an account of its past: a relation between what has happened so far and the
  state, kept by every operation that may be issued. An invariant of the state alone is the case in which the past does not matter.
\<close>

locale history_invariant =
  fixes exec :: "'op \<Rightarrow> 's \<Rightarrow> 's \<times> 'ev list"
    and holds :: "'ev list \<Rightarrow> 's \<Rightarrow> bool"
    and issued :: "'op \<Rightarrow> bool"
  assumes step: "holds past s \<Longrightarrow> issued x \<Longrightarrow> holds (past @ snd (exec x s)) (fst (exec x s))"
begin

lemma run_holds:
  "list_all issued xs \<Longrightarrow> holds past s \<Longrightarrow> holds (past @ snd (run_ops exec xs s)) (fst (run_ops exec xs s))"
proof (induction xs arbitrary: past s)
  case (Cons x xs)
  then have "holds (past @ snd (exec x s)) (fst (exec x s))" using step by simp
  from Cons.IH [OF _ this] Cons.prems(1) show ?case by (simp add: Let_def case_prod_beta)
qed simp

end

locale step_invariant =
  fixes exec :: "'op \<Rightarrow> 's \<Rightarrow> 's \<times> 'ev list"
    and inv :: "'s \<Rightarrow> bool"
    and issued :: "'op \<Rightarrow> bool"
  assumes step_inv: "inv s \<Longrightarrow> issued x \<Longrightarrow> inv (fst (exec x s))"

sublocale step_invariant \<subseteq> timeless: history_invariant exec "\<lambda>_. inv" issued
  by unfold_locales (rule step_inv)

context step_invariant begin

lemma run_inv: "list_all issued xs \<Longrightarrow> inv s \<Longrightarrow> inv (fst (run_ops exec xs s))"
  by (rule timeless.run_holds)

end

locale promise_ledger =
  fixes exec :: "'op \<Rightarrow> 's \<Rightarrow> 's \<times> 'ev list"
    and open_promises :: "'s \<Rightarrow> nat multiset"
    and next_promise :: "'s \<Rightarrow> nat"
    and settled :: "'ev list \<Rightarrow> nat list"
    and inv :: "'s \<Rightarrow> bool"
  assumes inv_exec: "inv s \<Longrightarrow> exec x s = (s', evs) \<Longrightarrow> inv s'"
    and next_mono: "inv s \<Longrightarrow> exec x s = (s', evs) \<Longrightarrow> next_promise s \<le> next_promise s'"
    and balance: "inv s \<Longrightarrow> exec x s = (s', evs) \<Longrightarrow>
      open_promises s' + mset (settled evs) =
        open_promises s + mset [next_promise s..<next_promise s']"
    and settled_Nil: "settled [] = []"
    and settled_append: "settled (xs @ ys) = settled xs @ settled ys"
begin

lemma run_inv: "inv s \<Longrightarrow> run_ops exec xs s = (s', evs) \<Longrightarrow> inv s'"
  using run_ops_inv [of inv xs exec s s' evs] inv_exec by blast

lemma run_balance:
  assumes "inv s" "run_ops exec xs s = (s', evs)"
  shows "next_promise s \<le> next_promise s' \<and>
    open_promises s' + mset (settled evs) =
      open_promises s + mset [next_promise s..<next_promise s']"
  using assms
proof (induction xs arbitrary: s evs)
  case Nil
  then show ?case by (simp add: settled_Nil)
next
  case (Cons x xs)
  obtain s1 e1 where 1: "exec x s = (s1, e1)" by fastforce
  obtain e2 where 2: "run_ops exec xs s1 = (s', e2)" and e: "evs = e1 @ e2"
    using Cons.prems(2) 1 by (auto split: prod.splits)
  have inv1: "inv s1" and n1: "next_promise s \<le> next_promise s1"
    and b1: "open_promises s1 + mset (settled e1) =
      open_promises s + mset [next_promise s..<next_promise s1]"
    using inv_exec [OF Cons.prems(1) 1] next_mono [OF Cons.prems(1) 1]
      balance [OF Cons.prems(1) 1] by simp_all
  have IH: "next_promise s1 \<le> next_promise s'"
    "open_promises s' + mset (settled e2) =
      open_promises s1 + mset [next_promise s1..<next_promise s']"
    using Cons.IH [OF inv1 2] by simp_all
  have cat: "mset [next_promise s..<next_promise s'] =
      mset [next_promise s..<next_promise s1] + mset [next_promise s1..<next_promise s']"
    using n1 IH(1) by (metis le_add_diff_inverse mset_append upt_add_eq_append)
  have "open_promises s' + mset (settled evs) =
      (open_promises s1 + mset (settled e1)) + mset [next_promise s1..<next_promise s']"
    using IH(2) by (simp add: e settled_append ac_simps)
  also have "\<dots> = open_promises s + mset [next_promise s..<next_promise s']"
    by (simp only: b1 cat ac_simps)
  finally show ?case using n1 IH(1) by simp
qed

text \<open>From a state with no open promise, the promises issued by the run are exactly the settled
  ones and the open ones, and no promise is settled twice.\<close>

lemma run_settles_once:
  assumes "inv s" "open_promises s = {#}" "run_ops exec xs s = (s', evs)"
  shows "distinct (settled evs)"
    and "set_mset (open_promises s') \<inter> set (settled evs) = {}"
    and "set_mset (open_promises s') \<union> set (settled evs) = {next_promise s..<next_promise s'}"
proof -
  have b: "open_promises s' + mset (settled evs) = mset [next_promise s..<next_promise s']"
    using run_balance [OF assms(1,3)] assms(2) by simp
  have c: "count (open_promises s') p + count (mset (settled evs)) p \<le> 1" for p
    using b by (metis count_union distinct_count_atmost_1 distinct_upt le_numeral_extra(4) zero_le_one)
  show "distinct (settled evs)"
    unfolding distinct_count_atmost_1 using c
    by (metis (no_types, lifting) One_nat_def add_leE count_greater_zero_iff le_SucE
        le_zero_eq not_gr_zero set_mset_mset)
  show "set_mset (open_promises s') \<inter> set (settled evs) = {}"
  proof (rule ccontr)
    assume "\<not> ?thesis"
    then obtain p where "p \<in># open_promises s'" "p \<in># mset (settled evs)" by auto
    then have "2 \<le> count (open_promises s') p + count (mset (settled evs)) p"
      by (metis Suc_leI add_mono count_greater_zero_iff one_add_one One_nat_def)
    with c [of p] show False by simp
  qed
  have "set_mset (open_promises s' + mset (settled evs)) = {next_promise s..<next_promise s'}"
    unfolding b by simp
  then show "set_mset (open_promises s') \<union> set (settled evs) = {next_promise s..<next_promise s'}"
    by simp
qed

end

end
