(* ===== verification/Command_Queue.thy ===== *)
theory Command_Queue
  imports Promise_Ledger
begin

section \<open>The command queue (process/command-queue.ts, process/lanes.ts)\<close>

text \<open>
  Commands are serialised through named lanes. \<open>lane_state\<close> is \<open>LaneState\<close>, \<open>queue_entry\<close>
  is \<open>QueueEntry\<close>; the pair of \<open>resolve\<close>/\<open>reject\<close> closures of an entry is the identity of
  the promise it settles (\<open>qe_promise\<close>). The module state is the \<open>lanes\<close> map and the counter
  \<open>nextTaskId\<close>, plus what the event loop holds for it: the suspended async closures that
  \<open>pump\<close> started (\<open>running\<close>, keyed by task id) and the supply of fresh promises.

  Time is the argument \<open>now\<close> of each turn. A task that enqueues more work while it is being
  started behaves as if the call came at the end of the turn. Logging is not modelled, the
  \<open>onWait\<close> callback is the event \<open>OnWait\<close> and the error log of a failed task is the event
  \<open>TaskErrorLogged\<close>.
\<close>

subsection \<open>State\<close>

record 't queue_entry =
  qe_promise :: nat
  qe_task :: 't
  enqueuedAt :: int
  warnAfterMs :: int
  hasOnWait :: bool

record 't lane_state =
  ls_lane :: string
  ls_queue :: "'t queue_entry list"
  activeTaskIds :: "nat list"
  maxConcurrent :: int
  draining :: bool
  generation :: nat

record 't task_closure =
  tc_lane :: string
  tc_generation :: nat
  tc_entry :: "'t queue_entry"

record 't queue_state =
  lanes :: "(string \<times> 't lane_state) list"
  nextTaskId :: nat
  nextPromise :: nat
  running :: "(nat \<times> 't task_closure) list"

datatype reject_reason = CommandLaneClearedError string | TaskError

datatype queue_event =
    Enqueued string nat
  | OnWait nat int nat
  | TaskStart string nat nat \<comment> \<open>lane, task id, promise\<close>
  | TaskErrorLogged string nat
  | Resolved nat
  | Rejected nat reject_reason

definition queue_init :: "'t queue_state" where
  "queue_init = \<lparr>lanes = [], nextTaskId = 1, nextPromise = 0, running = []\<rparr>"

subsection \<open>Lanes\<close>

definition lane_Main :: string where "lane_Main = ''main''"

definition clean_lane :: "string \<Rightarrow> string" where
  "clean_lane lane = or_string (trim lane) lane_Main"

definition new_lane :: "string \<Rightarrow> 't lane_state" where
  "new_lane lane = \<lparr>ls_lane = lane, ls_queue = [], activeTaskIds = [], maxConcurrent = 1,
     draining = False, generation = 0\<rparr>"

definition getLaneState :: "string \<Rightarrow> 't queue_state \<Rightarrow> 't lane_state" where
  "getLaneState lane s = (case map_of (lanes s) lane of Some st \<Rightarrow> st | None \<Rightarrow> new_lane lane)"

definition putLane :: "string \<Rightarrow> 't lane_state \<Rightarrow> 't queue_state \<Rightarrow> 't queue_state" where
  "putLane lane st s = s\<lparr>lanes := AList.update lane st (lanes s)\<rparr>"

definition completeTask :: "'t lane_state \<Rightarrow> nat \<Rightarrow> nat \<Rightarrow> bool \<times> 't lane_state" where
  "completeTask st taskId taskGeneration =
     (if taskGeneration \<noteq> generation st then (False, st)
      else (True, st\<lparr>activeTaskIds := removeAll taskId (activeTaskIds st)\<rparr>))"

text \<open>The \<open>while\<close> loop of \<open>pump\<close>: each iteration takes the head of the queue, so the length of
  the queue decreases.\<close>

function pump :: "int \<Rightarrow> 't lane_state \<Rightarrow> nat \<Rightarrow>
    't lane_state \<times> nat \<times> (nat \<times> 't task_closure) list \<times> queue_event list" where
  "pump now st n =
     (case ls_queue st of
        [] \<Rightarrow> (st\<lparr>draining := False\<rparr>, n, [], [])
      | e # q \<Rightarrow>
          if int (length (activeTaskIds st)) < maxConcurrent st then
            (let waited = now - enqueuedAt e;
                 st1 = st\<lparr>ls_queue := q, activeTaskIds := activeTaskIds st @ [n]\<rparr>;
                 (st2, n2, rs, evs) = pump now st1 (Suc n)
             in (st2, n2,
                 (n, \<lparr>tc_lane = ls_lane st, tc_generation = generation st, tc_entry = e\<rparr>) # rs,
                 (if warnAfterMs e \<le> waited \<and> hasOnWait e
                  then [OnWait (qe_promise e) waited (length q)] else [])
                 @ TaskStart (ls_lane st) n (qe_promise e) # evs))
          else (st\<lparr>draining := False\<rparr>, n, [], []))"
  by pat_completeness auto
termination
  by (relation "measure (\<lambda>(now, st, n). length (ls_queue st))") auto

declare pump.simps [simp del]

definition pumpLane :: "int \<Rightarrow> string \<Rightarrow> 't lane_state \<Rightarrow> 't queue_state \<Rightarrow>
    't queue_state \<times> queue_event list" where
  "pumpLane now lane st s =
     (let (st', n, rs, evs) = pump now st (nextTaskId s)
      in (putLane lane st' (s\<lparr>nextTaskId := n, running := running s @ rs\<rparr>), evs))"

definition drainLane :: "int \<Rightarrow> string \<Rightarrow> 't queue_state \<Rightarrow> 't queue_state \<times> queue_event list" where
  "drainLane now lane s =
     (let st = getLaneState lane s in
      if draining st then (putLane lane st s, [])
      else pumpLane now lane (st\<lparr>draining := True\<rparr>) s)"

text \<open>What the async closure does when its task settles: bookkeeping, then the next tasks are
  pumped, then the promise of the entry is settled.\<close>

definition isProbeLane :: "string \<Rightarrow> bool" where
  "isProbeLane lane \<longleftrightarrow> starts_with lane ''auth-probe:'' \<or> starts_with lane ''session:probe-''"

definition taskSettled :: "int \<Rightarrow> nat \<Rightarrow> bool \<Rightarrow> 't queue_state \<Rightarrow>
    't queue_state \<times> queue_event list" where
  "taskSettled now taskId ok s =
     (case map_of (running s) taskId of
        None \<Rightarrow> (s, [])
      | Some tc \<Rightarrow>
          (let lane = tc_lane tc;
               s1 = s\<lparr>running := AList.delete taskId (running s)\<rparr>;
               (current, st) = completeTask (getLaneState lane s) taskId (tc_generation tc);
               (s2, evs) = (if current then pumpLane now lane st s1 else (s1, []))
           in (s2,
               (if ok then evs @ [Resolved (qe_promise (tc_entry tc))]
                else (if isProbeLane lane then [] else [TaskErrorLogged lane taskId])
                  @ evs @ [Rejected (qe_promise (tc_entry tc)) TaskError]))))"

subsection \<open>The exported operations\<close>

definition setCommandLaneConcurrency :: "int \<Rightarrow> string \<Rightarrow> rat \<Rightarrow> 't queue_state \<Rightarrow>
    't queue_state \<times> queue_event list" where
  "setCommandLaneConcurrency now lane n s =
     (let cleaned = clean_lane lane;
          st = getLaneState cleaned s
      in drainLane now cleaned (putLane cleaned (st\<lparr>maxConcurrent := max 1 \<lfloor>n\<rfloor>\<rparr>) s))"

definition enqueueCommandInLane :: "int \<Rightarrow> string \<Rightarrow> 't \<Rightarrow> int option \<Rightarrow> bool \<Rightarrow> 't queue_state \<Rightarrow>
    't queue_state \<times> queue_event list" where
  "enqueueCommandInLane now lane task warnAfter onWait s =
     (let cleaned = clean_lane lane;
          st = getLaneState cleaned s;
          p = nextPromise s;
          e = \<lparr>qe_promise = p, qe_task = task, enqueuedAt = now,
               warnAfterMs = nullish warnAfter 2000, hasOnWait = onWait\<rparr>;
          (s', evs) = drainLane now cleaned
             (putLane cleaned (st\<lparr>ls_queue := ls_queue st @ [e]\<rparr>) (s\<lparr>nextPromise := Suc p\<rparr>))
      in (s', Enqueued cleaned p # evs))"

definition enqueueCommand :: "int \<Rightarrow> 't \<Rightarrow> int option \<Rightarrow> bool \<Rightarrow> 't queue_state \<Rightarrow>
    't queue_state \<times> queue_event list" where
  "enqueueCommand now = enqueueCommandInLane now lane_Main"

definition getQueueSize :: "string \<Rightarrow> 't queue_state \<Rightarrow> nat" where
  "getQueueSize lane s =
     (case map_of (lanes s) (clean_lane lane) of
        None \<Rightarrow> 0
      | Some st \<Rightarrow> length (ls_queue st) + length (activeTaskIds st))"

definition getTotalQueueSize :: "'t queue_state \<Rightarrow> nat" where
  "getTotalQueueSize s =
     (\<Sum>(k, st) \<leftarrow> lanes s. length (ls_queue st) + length (activeTaskIds st))"

definition getActiveTaskCount :: "'t queue_state \<Rightarrow> nat" where
  "getActiveTaskCount s = (\<Sum>(k, st) \<leftarrow> lanes s. length (activeTaskIds st))"

definition clearCommandLane :: "string \<Rightarrow> 't queue_state \<Rightarrow> 't queue_state \<times> queue_event list \<times> nat" where
  "clearCommandLane lane s =
     (let cleaned = clean_lane lane in
      case map_of (lanes s) cleaned of
        None \<Rightarrow> (s, [], 0)
      | Some st \<Rightarrow>
          (putLane cleaned (st\<lparr>ls_queue := []\<rparr>) s,
           map (\<lambda>e. Rejected (qe_promise e) (CommandLaneClearedError cleaned)) (ls_queue st),
           length (ls_queue st)))"

fun drainAll :: "int \<Rightarrow> string list \<Rightarrow> 't queue_state \<Rightarrow> 't queue_state \<times> queue_event list" where
  "drainAll now [] s = (s, [])"
| "drainAll now (l # ls) s =
     (let (s1, e1) = drainLane now l s; (s2, e2) = drainAll now ls s1 in (s2, e1 @ e2))"

definition resetLane :: "'t lane_state \<Rightarrow> 't lane_state" where
  "resetLane st = st\<lparr>generation := Suc (generation st), activeTaskIds := [], draining := False\<rparr>"

definition resetAllLanes :: "int \<Rightarrow> 't queue_state \<Rightarrow> 't queue_state \<times> queue_event list" where
  "resetAllLanes now s =
     (let s1 = s\<lparr>lanes := map (\<lambda>(k, st). (k, resetLane st)) (lanes s)\<rparr>;
          lanesToDrain = map (\<lambda>(k, st). ls_lane st) (filter (\<lambda>(k, st). ls_queue st \<noteq> []) (lanes s1))
      in drainAll now lanesToDrain s1)"

text \<open>\<open>waitForActiveTasks\<close>: the ids active when it is called, and one turn of its polling
  closure. \<open>Some b\<close> is the settled answer \<open>{ drained: b }\<close>, \<open>None\<close> re-arms the timer.\<close>

definition activeAtStart :: "'t queue_state \<Rightarrow> nat list" where
  "activeAtStart s = set_of_list (concat (map (\<lambda>(k, st). activeTaskIds st) (lanes s)))"

definition waitCheck :: "nat list \<Rightarrow> int \<Rightarrow> int \<Rightarrow> 't queue_state \<Rightarrow> bool option" where
  "waitCheck start deadline now s =
     (if start = [] then Some True
      else if \<not> (\<exists>(k, st) \<in> set (lanes s). \<exists>t \<in> set (activeTaskIds st). t \<in> set start) then Some True
      else if deadline \<le> now then Some False
      else None)"

subsection \<open>Turns of the event loop\<close>

datatype 't queue_op =
    EnqueueOp string 't "int option" bool
  | SettleOp nat bool
  | SetConcurrencyOp string rat
  | ClearOp string
  | ResetOp

fun queue_exec :: "int \<times> 't queue_op \<Rightarrow> 't queue_state \<Rightarrow> 't queue_state \<times> queue_event list" where
  "queue_exec (now, EnqueueOp lane t w f) s = enqueueCommandInLane now lane t w f s"
| "queue_exec (now, SettleOp i ok) s = taskSettled now i ok s"
| "queue_exec (now, SetConcurrencyOp lane n) s = setCommandLaneConcurrency now lane n s"
| "queue_exec (now, ClearOp lane) s = (let (s', evs, n) = clearCommandLane lane s in (s', evs))"
| "queue_exec (now, ResetOp) s = resetAllLanes now s"


subsection \<open>Reading the event log\<close>

fun settle_of :: "queue_event \<Rightarrow> nat list" where
  "settle_of (Resolved p) = [p]"
| "settle_of (Rejected p r) = [p]"
| "settle_of _ = []"

fun start_of :: "string \<Rightarrow> queue_event \<Rightarrow> nat list" where
  "start_of lane (TaskStart l i p) = (if l = lane then [p] else [])"
| "start_of lane _ = []"

fun enq_of :: "string \<Rightarrow> queue_event \<Rightarrow> nat list" where
  "enq_of lane (Enqueued l p) = (if l = lane then [p] else [])"
| "enq_of lane _ = []"

definition queue_settled :: "queue_event list \<Rightarrow> nat list" where
  "queue_settled evs = concat (map settle_of evs)"

definition starts_in :: "string \<Rightarrow> queue_event list \<Rightarrow> nat list" where
  "starts_in lane evs = concat (map (start_of lane) evs)"

definition enqs_in :: "string \<Rightarrow> queue_event list \<Rightarrow> nat list" where
  "enqs_in lane evs = concat (map (enq_of lane) evs)"

lemmas event_log_defs = queue_settled_def starts_in_def enqs_in_def

lemma event_log_Nil [simp]:
  "queue_settled [] = []" "starts_in lane [] = []" "enqs_in lane [] = []"
  by (simp_all add: event_log_defs)

lemma event_log_Cons [simp]:
  "queue_settled (e # evs) = settle_of e @ queue_settled evs"
  "starts_in lane (e # evs) = start_of lane e @ starts_in lane evs"
  "enqs_in lane (e # evs) = enq_of lane e @ enqs_in lane evs"
  by (simp_all add: event_log_defs)

lemma event_log_append [simp]:
  "queue_settled (xs @ ys) = queue_settled xs @ queue_settled ys"
  "starts_in lane (xs @ ys) = starts_in lane xs @ starts_in lane ys"
  "enqs_in lane (xs @ ys) = enqs_in lane xs @ enqs_in lane ys"
  by (simp_all add: event_log_defs)

lemma event_log_clear [simp]:
  "queue_settled (map (\<lambda>e. Rejected (qe_promise e) r) q) = map qe_promise q"
  "starts_in lane (map (\<lambda>e. Rejected (qe_promise e) r) q) = []"
  "enqs_in lane (map (\<lambda>e. Rejected (qe_promise e) r) q) = []"
  by (induction q) auto

subsection \<open>What one pump does\<close>

text \<open>\<open>pump\<close> starts some number \<open>k\<close> of queued entries: exactly a prefix of the queue, under
  consecutive fresh task ids, and it stops only when the queue is empty or the lane is full.\<close>

definition pump_post :: "nat \<Rightarrow> 't lane_state \<Rightarrow> nat \<Rightarrow> 't lane_state \<Rightarrow> nat \<Rightarrow>
    (nat \<times> 't task_closure) list \<Rightarrow> queue_event list \<Rightarrow> bool" where
  "pump_post k st n st' n' rs evs \<longleftrightarrow>
     k \<le> length (ls_queue st) \<and> n' = n + k
     \<and> st' = st\<lparr>ls_queue := drop k (ls_queue st),
         activeTaskIds := activeTaskIds st @ [n..<n + k], draining := False\<rparr>
     \<and> map fst rs = [n..<n + k]
     \<and> map snd rs = map (\<lambda>e. \<lparr>tc_lane = ls_lane st, tc_generation = generation st, tc_entry = e\<rparr>)
         (take k (ls_queue st))
     \<and> (\<forall>lane. starts_in lane evs =
         (if lane = ls_lane st then map qe_promise (take k (ls_queue st)) else []))
     \<and> queue_settled evs = [] \<and> (\<forall>lane. enqs_in lane evs = [])
     \<and> (k < length (ls_queue st) \<longrightarrow> maxConcurrent st \<le> int (length (activeTaskIds st) + k))
     \<and> (0 < k \<longrightarrow> int (length (activeTaskIds st) + k) \<le> maxConcurrent st)"

lemma pump_stop:
  "ls_queue st = [] \<or> maxConcurrent st \<le> int (length (activeTaskIds st)) \<Longrightarrow>
   pump now st n = (st\<lparr>draining := False\<rparr>, n, [], [])"
  by (subst pump.simps) (auto split: list.splits)

lemma pump_go:
  assumes "ls_queue st = e # q" "int (length (activeTaskIds st)) < maxConcurrent st"
  shows "\<exists>st2 n2 rs evs w.
    pump now (st\<lparr>ls_queue := q, activeTaskIds := activeTaskIds st @ [n]\<rparr>) (Suc n) = (st2, n2, rs, evs)
    \<and> pump now st n =
        (st2, n2, (n, \<lparr>tc_lane = ls_lane st, tc_generation = generation st, tc_entry = e\<rparr>) # rs,
         w @ TaskStart (ls_lane st) n (qe_promise e) # evs)
    \<and> (\<forall>l. starts_in l w = [] \<and> enqs_in l w = []) \<and> queue_settled w = []"
proof -
  obtain st2 n2 rs evs where rec:
    "pump now (st\<lparr>ls_queue := q, activeTaskIds := activeTaskIds st @ [n]\<rparr>) (Suc n) = (st2, n2, rs, evs)"
    by (cases "pump now (st\<lparr>ls_queue := q, activeTaskIds := activeTaskIds st @ [n]\<rparr>) (Suc n)") auto
  have "pump now st n =
      (st2, n2, (n, \<lparr>tc_lane = ls_lane st, tc_generation = generation st, tc_entry = e\<rparr>) # rs,
       (if warnAfterMs e \<le> now - enqueuedAt e \<and> hasOnWait e
        then [OnWait (qe_promise e) (now - enqueuedAt e) (length q)] else [])
       @ TaskStart (ls_lane st) n (qe_promise e) # evs)"
    by (subst pump.simps) (simp add: assms rec Let_def)
  then show ?thesis using rec by (intro exI conjI) auto
qed

lemma pump_spec: "pump now st n = (st', n', rs, evs) \<Longrightarrow> \<exists>k. pump_post k st n st' n' rs evs"
proof (induction now st n arbitrary: st' n' rs evs rule: pump.induct)
  case (1 now st n)
  show ?case
  proof (cases "ls_queue st = [] \<or> maxConcurrent st \<le> int (length (activeTaskIds st))")
    case True
    with "1.prems" show ?thesis
      by (intro exI [of _ 0]) (auto simp: pump_post_def pump_stop)
  next
    case False
    then obtain e q where q: "ls_queue st = e # q"
      and lt: "int (length (activeTaskIds st)) < maxConcurrent st"
      by (cases "ls_queue st") auto
    define st1 where "st1 = st\<lparr>ls_queue := q, activeTaskIds := activeTaskIds st @ [n]\<rparr>"
    obtain rs2 evs2 w where rec: "pump now st1 (Suc n) = (st', n', rs2, evs2)"
      and rs: "rs = (n, \<lparr>tc_lane = ls_lane st, tc_generation = generation st, tc_entry = e\<rparr>) # rs2"
      and evs: "evs = w @ TaskStart (ls_lane st) n (qe_promise e) # evs2"
      and w: "\<forall>l. starts_in l w = [] \<and> enqs_in l w = []" "queue_settled w = []"
      using pump_go [OF q lt, of now n] "1.prems" by (auto simp: st1_def)
    obtain k where k: "pump_post k st1 (Suc n) st' n' rs2 evs2"
      using "1.IH" [OF q lt refl st1_def rec] by blast
    have "[n..<n + Suc k] = n # [Suc n..<Suc n + k]" by (simp add: upt_conv_Cons del: upt_Suc)
    then have "pump_post (Suc k) st n st' n' rs evs"
      using k rs evs w q lt by (auto simp: pump_post_def st1_def simp del: upt_Suc)
    then show ?thesis by blast
  qed
qed


subsection \<open>The invariant\<close>

text \<open>Between turns: the active ids of a lane are exactly the suspended closures of its current
  generation, no lane is draining, and no lane has queued work while it has a free slot.\<close>

definition lane_wf :: "(nat \<times> 't task_closure) list \<Rightarrow> string \<Rightarrow> 't lane_state \<Rightarrow> bool" where
  "lane_wf rn k st \<longleftrightarrow> ls_lane st = k \<and> 1 \<le> maxConcurrent st \<and> distinct (activeTaskIds st)
     \<and> set (activeTaskIds st) =
         {i. \<exists>tc. map_of rn i = Some tc \<and> tc_lane tc = k \<and> tc_generation tc = generation st}"

definition lane_idle :: "'t lane_state \<Rightarrow> bool" where
  "lane_idle st \<longleftrightarrow> (ls_queue st \<noteq> [] \<longrightarrow> maxConcurrent st \<le> int (length (activeTaskIds st)))"

definition closures_wf :: "'t queue_state \<Rightarrow> bool" where
  "closures_wf s \<longleftrightarrow> distinct (keys (lanes s)) \<and> distinct (keys (running s))
     \<and> (\<forall>i tc. map_of (running s) i = Some tc \<longrightarrow> i < nextTaskId s
         \<and> (\<exists>st. map_of (lanes s) (tc_lane tc) = Some st \<and> tc_generation tc \<le> generation st))"

definition queue_inv_upto :: "string set \<Rightarrow> 't queue_state \<Rightarrow> bool" where
  "queue_inv_upto T s \<longleftrightarrow> closures_wf s
     \<and> (\<forall>k st. map_of (lanes s) k = Some st \<longrightarrow>
          lane_wf (running s) k st \<and> \<not> draining st \<and> (k \<notin> T \<longrightarrow> lane_idle st))"

definition queue_inv :: "'t queue_state \<Rightarrow> bool" where
  "queue_inv s = queue_inv_upto {} s"

lemmas queue_inv_defs = queue_inv_upto_def closures_wf_def lane_wf_def lane_idle_def

definition open_promises :: "'t queue_state \<Rightarrow> nat multiset" where
  "open_promises s = (\<Sum>p \<leftarrow> lanes s. mset (map qe_promise (ls_queue (snd p))))
     + (\<Sum>p \<leftarrow> running s. {#qe_promise (tc_entry (snd p))#})"

lemma putLane_simps [simp]:
  "map_of (lanes (putLane k st s)) x = (if x = k then Some st else map_of (lanes s) x)"
  "running (putLane k st s) = running s" "nextTaskId (putLane k st s) = nextTaskId s"
  "nextPromise (putLane k st s) = nextPromise s"
  "putLane k st (putLane k st' s) = putLane k st s"
  by (simp_all add: putLane_def)

lemma distinct_putLane [simp]: "distinct (keys (lanes s)) \<Longrightarrow> distinct (keys (lanes (putLane k st s)))"
  by (simp add: putLane_def distinct_update)

lemma getLaneState_putLane [simp]: "getLaneState k (putLane k st s) = st"
  by (simp add: getLaneState_def)

lemma queue_inv_init: "queue_inv queue_init"
  by (simp add: queue_inv_def queue_init_def queue_inv_defs)

lemma queue_inv_upto_mono: "queue_inv_upto T s \<Longrightarrow> T \<subseteq> U \<Longrightarrow> queue_inv_upto U s"
  unfolding queue_inv_upto_def by blast

text \<open>A lane that does not exist yet is as well-formed as one that does.\<close>

lemma getLane_wf:
  assumes "queue_inv_upto T s"
  shows "lane_wf (running s) k (getLaneState k s)" "\<not> draining (getLaneState k s)"
    "k \<notin> T \<Longrightarrow> lane_idle (getLaneState k s)"
    "map_of (running s) i = Some tc \<Longrightarrow> tc_lane tc = k \<Longrightarrow>
       tc_generation tc \<le> generation (getLaneState k s)"
proof -
  have none: "map_of (lanes s) k = None \<Longrightarrow> map_of (running s) i = Some tc \<Longrightarrow> tc_lane tc \<noteq> k" for i tc
    using assms by (fastforce simp: queue_inv_upto_def closures_wf_def)
  show "lane_wf (running s) k (getLaneState k s)" "\<not> draining (getLaneState k s)"
    "k \<notin> T \<Longrightarrow> lane_idle (getLaneState k s)"
    using assms none
    by (cases "map_of (lanes s) k";
        auto simp: queue_inv_upto_def getLaneState_def new_lane_def lane_wf_def lane_idle_def)+
  show "map_of (running s) i = Some tc \<Longrightarrow> tc_lane tc = k \<Longrightarrow>
       tc_generation tc \<le> generation (getLaneState k s)"
    using assms by (fastforce simp: queue_inv_upto_def closures_wf_def getLaneState_def)
qed

text \<open>Storing a lane state with the same active ids and generation keeps everything but the
  idleness of that lane.\<close>

lemma putLane_inv:
  assumes "queue_inv_upto T s" "activeTaskIds st = activeTaskIds (getLaneState k s)"
    "generation st = generation (getLaneState k s)" "ls_lane st = k" "1 \<le> maxConcurrent st"
    "\<not> draining st"
  shows "queue_inv_upto (insert k T) (putLane k st s)"
  using assms getLane_wf(1) [OF assms(1), of k] getLane_wf(4) [OF assms(1), where k = k]
  by (auto simp: queue_inv_upto_def closures_wf_def lane_wf_def)

lemma lane_wf_append:
  assumes "lane_wf rn k st" "map fst rs = [n..<n + m]"
    "map snd rs = map (\<lambda>e. \<lparr>tc_lane = l, tc_generation = g, tc_entry = e\<rparr>) es"
    "\<And>i tc. map_of rn i = Some tc \<Longrightarrow> i < n" "k \<noteq> l"
  shows "lane_wf (rn @ rs) k st"
proof -
  have "tc_lane tc = l" if "map_of rs i = Some tc" for i tc
    using map_of_SomeD [OF that] assms(3) by (metis (no_types, lifting) ex_map_conv
        image_eqI image_set snd_conv task_closure.select_convs(1))
  with assms(1,5) show ?thesis
    by (auto simp: lane_wf_def map_add_def split: option.splits)
qed


lemma pumpLane_post:
  assumes "pumpLane now lane st s = (s', evs)"
  obtains k rs st' where "pump_post k st (nextTaskId s) st' (nextTaskId s + k) rs evs"
    "s' = putLane lane st' (s\<lparr>nextTaskId := nextTaskId s + k, running := running s @ rs\<rparr>)"
proof -
  obtain st' n rs where p: "pump now st (nextTaskId s) = (st', n, rs, evs)"
    and s': "s' = putLane lane st' (s\<lparr>nextTaskId := n, running := running s @ rs\<rparr>)"
    using assms by (auto simp: pumpLane_def split: prod.splits)
  from pump_spec [OF p] obtain k where k: "pump_post k st (nextTaskId s) st' n rs evs" ..
  then have "n = nextTaskId s + k" by (simp add: pump_post_def)
  with k s' that show thesis by blast
qed

lemma map_of_started:
  assumes "map fst rs = [n..<n + m]" "map snd rs = map f es" "map_of rs i = Some tc"
  shows "n \<le> i \<and> i < n + m \<and> tc \<in> f ` set es"
proof -
  have "(i, tc) \<in> set rs" using assms(3) by (rule map_of_SomeD)
  then have "i \<in> set (map fst rs)" "tc \<in> set (map snd rs)" by force+
  then show ?thesis by (simp only: assms(1,2)) auto
qed

lemma map_of_started_iff:
  assumes "map fst rs = [n..<n + m]"
  shows "(\<exists>tc. map_of rs i = Some tc) \<longleftrightarrow> n \<le> i \<and> i < n + m"
proof -
  have "(\<exists>tc. map_of rs i = Some tc) \<longleftrightarrow> i \<in> set (map fst rs)"
    by (metis map_of_eq_None_iff not_Some_eq set_map)
  then show ?thesis by (simp only: assms) auto
qed

lemma pumpLane_inv:
  fixes st :: "'t lane_state"
  assumes inv: "queue_inv_upto (insert lane T) (putLane lane (st\<lparr>draining := False\<rparr>) s)"
    and run: "pumpLane now lane st s = (s', evs)"
  shows "queue_inv_upto T s'"
proof -
  obtain k rs st' where post: "pump_post k st (nextTaskId s) st' (nextTaskId s + k) rs evs"
    and s': "s' = putLane lane st' (s\<lparr>nextTaskId := nextTaskId s + k, running := running s @ rs\<rparr>)"
    using run by (rule pumpLane_post)
  define f where "f = (\<lambda>e :: 't queue_entry. \<lparr>tc_lane = ls_lane st, tc_generation = generation st, tc_entry = e\<rparr>)"
  have wf: "lane_wf (running s) lane (st\<lparr>draining := False\<rparr>)"
    and old: "map_of (running s) i = Some tc \<Longrightarrow> i < nextTaskId s" for i tc
    using inv by (auto simp: queue_inv_upto_def closures_wf_def)
  have lane: "ls_lane st = lane" using wf by (simp add: lane_wf_def)
  have st': "st' = st\<lparr>ls_queue := drop k (ls_queue st),
      activeTaskIds := activeTaskIds st @ [nextTaskId s..<nextTaskId s + k], draining := False\<rparr>"
    and fst: "map fst rs = [nextTaskId s..<nextTaskId s + k]"
    and snd: "map snd rs = map f (take k (ls_queue st))"
    and full: "k < length (ls_queue st) \<Longrightarrow> maxConcurrent st \<le> int (length (activeTaskIds st) + k)"
    using post by (auto simp: pump_post_def f_def)
  have new: "map_of rs i = Some tc \<Longrightarrow>
      nextTaskId s \<le> i \<and> i < nextTaskId s + k \<and> tc_lane tc = lane \<and> tc_generation tc = generation st"
    for i tc using map_of_started [OF fst snd, of i tc] lane by (auto simp: f_def)
  have split: "map_of (running s @ rs) i = Some tc \<longleftrightarrow>
      map_of (running s) i = Some tc \<or> map_of rs i = Some tc" for i tc
    using old new by (fastforce simp: map_add_def split: option.splits)
  have act: "set (activeTaskIds st) = {i. \<exists>tc. map_of (running s) i = Some tc \<and> tc_lane tc = lane
      \<and> tc_generation tc = generation st}"
    using wf by (simp add: lane_wf_def)
  have started: "{i. \<exists>tc. map_of rs i = Some tc \<and> tc_lane tc = lane \<and> tc_generation tc = generation st}
      = {nextTaskId s..<nextTaskId s + k}"
    using map_of_started_iff [OF fst] new by (simp add: set_eq_iff) meson
  have "set (activeTaskIds st') = {i. \<exists>tc. map_of (running s @ rs) i = Some tc \<and> tc_lane tc = lane
      \<and> tc_generation tc = generation st}"
    unfolding split using act started by (auto simp: st' set_eq_iff)
  moreover have "distinct (activeTaskIds st')"
    using wf act old by (fastforce simp: st' lane_wf_def)
  ultimately have lw: "lane_wf (running s @ rs) lane st'"
    using wf by (simp add: lane_wf_def st')
  have li: "lane_idle st'" using full by (auto simp: lane_idle_def st')
  have others: "lane_wf (running s @ rs) l st2"
    if "l \<noteq> lane" "lane_wf (running s) l st2" for l st2
    using lane_wf_append [OF that(2) fst] snd that(1) old lane by (auto simp: f_def)
  have "distinct (keys (running s @ rs))"
  proof -
    have "set (keys (running s)) \<inter> set (keys rs) = {}"
      using old unfolding fst by (auto simp: image_iff) (metis leD map_of_eq_None_iff not_Some_eq
          image_eqI fst_conv)
    then show ?thesis using inv fst by (simp add: queue_inv_upto_def closures_wf_def)
  qed
  moreover have "\<exists>st. map_of (lanes s') (tc_lane tc) = Some st \<and> tc_generation tc \<le> generation st"
    if "map_of (running s @ rs) i = Some tc" for i tc
  proof (cases "map_of rs i = Some tc")
    case True
    with new show ?thesis by (auto simp: s' st')
  next
    case False
    with that split have "map_of (running s) i = Some tc" by blast
    then obtain st2 where
      "map_of (lanes (putLane lane (st\<lparr>draining := False\<rparr>) s)) (tc_lane tc) = Some st2"
      "tc_generation tc \<le> generation st2"
      using inv unfolding queue_inv_upto_def closures_wf_def putLane_simps(2) by blast
    then show ?thesis by (cases "tc_lane tc = lane") (auto simp: s' st' simp del: putLane_simps(5))
  qed
  moreover have "i < nextTaskId s + k" if "map_of (running s @ rs) i = Some tc" for i tc
    using that old [of i tc] new [of i tc] unfolding split by auto
  moreover have "distinct (keys (lanes s'))"
    unfolding s' by (rule distinct_putLane)
      (use inv in \<open>simp add: queue_inv_upto_def closures_wf_def putLane_def distinct_update
        update_keys split: if_splits\<close>)
  ultimately have "closures_wf s'"
    by (simp add: closures_wf_def s')
  then show ?thesis
    using inv lw li others by (auto simp: queue_inv_upto_def s' st' split: if_splits)
qed


lemma drainLane_inv:
  assumes "queue_inv_upto (insert lane T) s" "drainLane now lane s = (s', evs)"
  shows "queue_inv_upto T s'"
proof -
  let ?st = "getLaneState lane s"
  have wf: "lane_wf (running s) lane ?st" "\<not> draining ?st"
    using getLane_wf(1,2) [OF assms(1)] by simp_all
  then have "queue_inv_upto (insert lane T) (putLane lane (?st\<lparr>draining := False\<rparr>) s)"
    using putLane_inv [OF assms(1), of "?st\<lparr>draining := False\<rparr>" lane]
    by (simp add: lane_wf_def)
  moreover have "pumpLane now lane (?st\<lparr>draining := True\<rparr>) s = (s', evs)"
    using assms(2) wf(2) by (simp add: drainLane_def)
  ultimately show ?thesis
    using pumpLane_inv [of lane T "?st\<lparr>draining := True\<rparr>" s now s' evs] by simp
qed

lemma drainAll_inv:
  "queue_inv_upto (set ls) s \<Longrightarrow> drainAll now ls s = (s', evs) \<Longrightarrow> queue_inv s'"
proof (induction ls arbitrary: s evs)
  case (Cons l ls)
  obtain s1 e1 where 1: "drainLane now l s = (s1, e1)" by fastforce
  then have "queue_inv_upto (set ls) s1"
    using Cons.prems(1) drainLane_inv [of l "set ls"] by simp
  then show ?case using Cons 1 by (auto split: prod.splits)
qed (simp add: queue_inv_def)

lemma enqueue_inv:
  assumes "queue_inv s" "enqueueCommandInLane now lane t w f s = (s', evs)"
  shows "queue_inv s'"
proof -
  define l where "l = clean_lane lane"
  define s0 where "s0 = s\<lparr>nextPromise := Suc (nextPromise s)\<rparr>"
  have inv0: "queue_inv_upto {} s0"
    using assms(1) by (simp add: queue_inv_def queue_inv_upto_def closures_wf_def s0_def)
  have same: "getLaneState l s0 = getLaneState l s" by (simp add: getLaneState_def s0_def)
  obtain q e2 where d: "drainLane now l (putLane l ((getLaneState l s)\<lparr>ls_queue := q\<rparr>) s0) = (s', e2)"
    using assms(2) by (auto simp: enqueueCommandInLane_def Let_def l_def s0_def split: prod.splits)
  have "queue_inv_upto {l} (putLane l ((getLaneState l s)\<lparr>ls_queue := q\<rparr>) s0)"
    using putLane_inv [OF inv0, of "(getLaneState l s)\<lparr>ls_queue := q\<rparr>" l] getLane_wf(1,2) [OF inv0, of l]
    by (simp add: lane_wf_def same)
  then show ?thesis using drainLane_inv [OF _ d] by (simp add: queue_inv_def)
qed

lemma setConcurrency_inv:
  assumes "queue_inv s" "setCommandLaneConcurrency now lane n s = (s', evs)"
  shows "queue_inv s'"
proof -
  define l where "l = clean_lane lane"
  have inv0: "queue_inv_upto {} s" using assms(1) by (simp add: queue_inv_def)
  have "queue_inv_upto {l} (putLane l ((getLaneState l s)\<lparr>maxConcurrent := max 1 \<lfloor>n\<rfloor>\<rparr>) s)"
    using putLane_inv [OF inv0, of "(getLaneState l s)\<lparr>maxConcurrent := max 1 \<lfloor>n\<rfloor>\<rparr>" l]
      getLane_wf(1,2) [OF inv0, of l] by (simp add: lane_wf_def)
  then show ?thesis
    using assms(2) drainLane_inv [of l "{}"]
    by (auto simp: setCommandLaneConcurrency_def l_def Let_def queue_inv_def)
qed

lemma clear_inv:
  assumes "queue_inv s" "clearCommandLane lane s = (s', evs, n)"
  shows "queue_inv s'"
  using assms
  by (fastforce simp: clearCommandLane_def queue_inv_def queue_inv_defs putLane_def distinct_update
      Let_def split: option.splits if_splits)

lemma reset_inv:
  assumes "queue_inv s" "resetAllLanes now s = (s', evs)"
  shows "queue_inv s'"
proof -
  define s1 where "s1 = s\<lparr>lanes := map (\<lambda>(k, st). (k, resetLane st)) (lanes s)\<rparr>"
  define ls where "ls = map (\<lambda>(k, st). ls_lane st) (filter (\<lambda>(k, st). ls_queue st \<noteq> []) (lanes s1))"
  have m: "map_of (lanes s1) k = map_option resetLane (map_of (lanes s) k)" for k
    by (simp add: s1_def map_of_map)
  have k: "keys (lanes s1) = keys (lanes s)" by (simp add: s1_def case_prod_beta comp_def)
  have idle: "lane_idle st" if "map_of (lanes s1) k = Some st" "k \<notin> set ls" for k st
  proof -
    have "ls_lane st = k"
      using that(1) assms(1) by (auto simp: m queue_inv_def queue_inv_defs resetLane_def)
    moreover have "(k, st) \<in> set (lanes s1)" using that(1) by (rule map_of_SomeD)
    ultimately show ?thesis using that(2) by (force simp: ls_def lane_idle_def)
  qed
  have gen: "\<exists>st. map_of (lanes s) (tc_lane tc) = Some st \<and> tc_generation tc \<le> generation st"
    if "map_of (running s) i = Some tc" for i tc
    using assms(1) that unfolding queue_inv_def queue_inv_upto_def closures_wf_def by blast
  have wf: "lane_wf (running s) k (resetLane st)" if "map_of (lanes s) k = Some st" for k st
  proof -
    have "tc_generation tc \<noteq> Suc (generation st)"
      if "map_of (running s) i = Some tc" "tc_lane tc = k" for i tc
      using gen [OF that(1)] that(2) \<open>map_of (lanes s) k = Some st\<close> by auto
    then show ?thesis
      using assms(1) that by (auto simp: queue_inv_def queue_inv_upto_def lane_wf_def resetLane_def)
  qed
  have "closures_wf s1"
    using assms(1) gen unfolding closures_wf_def k m
    by (fastforce simp: queue_inv_def queue_inv_upto_def closures_wf_def s1_def resetLane_def)
  moreover have "running s1 = running s" by (simp add: s1_def)
  ultimately have "queue_inv_upto (set ls) s1"
    using idle wf unfolding queue_inv_upto_def m by (auto simp: resetLane_def)
  then show ?thesis
    using assms(2) drainAll_inv by (fastforce simp: resetAllLanes_def s1_def ls_def Let_def)
qed


lemma settled_current_inv:
  assumes inv: "queue_inv s" and tc: "map_of (running s) i = Some tc"
    and cur: "tc_generation tc = generation (getLaneState (tc_lane tc) s)"
  shows "queue_inv_upto {tc_lane tc} (putLane (tc_lane tc)
      ((getLaneState (tc_lane tc) s)\<lparr>activeTaskIds :=
         removeAll i (activeTaskIds (getLaneState (tc_lane tc) s)), draining := False\<rparr>)
      (s\<lparr>running := AList.delete i (running s)\<rparr>))"
proof -
  let ?l = "tc_lane tc"
  let ?st = "getLaneState ?l s"
  have inv0: "queue_inv_upto {} s" using inv by (simp add: queue_inv_def)
  have wf: "lane_wf (running s) ?l ?st" and gen: "\<And>i tc'. map_of (running s) i = Some tc' \<Longrightarrow>
      tc_lane tc' = ?l \<Longrightarrow> tc_generation tc' \<le> generation ?st"
    using getLane_wf(1,4) [OF inv0] by blast+
  have wf': "lane_wf (AList.delete i (running s)) ?l
      (?st\<lparr>activeTaskIds := removeAll i (activeTaskIds ?st), draining := False\<rparr>)"
    using wf by (auto simp: lane_wf_def distinct_removeAll)
  have other: "lane_wf (AList.delete i (running s)) k st"
    if "k \<noteq> ?l" "lane_wf (running s) k st" for k st
    using that tc by (fastforce simp: lane_wf_def)
  have "closures_wf (s\<lparr>running := AList.delete i (running s)\<rparr>)"
    using inv0 by (auto simp: queue_inv_upto_def closures_wf_def distinct_delete split: if_splits)
  then show ?thesis
    using inv0 wf' other gen
    by (auto simp: queue_inv_upto_def closures_wf_def split: if_splits)
qed

lemma settled_stale_inv:
  assumes inv: "queue_inv s" and tc: "map_of (running s) i = Some tc"
    and stale: "tc_generation tc \<noteq> generation (getLaneState (tc_lane tc) s)"
  shows "queue_inv (s\<lparr>running := AList.delete i (running s)\<rparr>)"
proof -
  have wf: "lane_wf (AList.delete i (running s)) k st"
    if m: "map_of (lanes s) k = Some st" and "lane_wf (running s) k st" for k st
  proof -
    have "tc_generation tc \<noteq> generation st" if "k = tc_lane tc"
      using stale m that by (simp add: getLaneState_def)
    then show ?thesis using that(2) tc by (fastforce simp: lane_wf_def)
  qed
  have "closures_wf (s\<lparr>running := AList.delete i (running s)\<rparr>)"
    using inv by (auto simp: queue_inv_def queue_inv_upto_def closures_wf_def distinct_delete split: if_splits)
  with inv wf show ?thesis by (simp add: queue_inv_def queue_inv_upto_def)
qed

lemma taskSettled_cases:
  assumes "taskSettled now i ok s = (s', evs)"
  obtains "map_of (running s) i = None" "s' = s" "evs = []"
  | tc w where "map_of (running s) i = Some tc"
      "tc_generation tc \<noteq> generation (getLaneState (tc_lane tc) s)"
      "s' = s\<lparr>running := AList.delete i (running s)\<rparr>"
      "evs = w @ [if ok then Resolved (qe_promise (tc_entry tc))
                  else Rejected (qe_promise (tc_entry tc)) TaskError]"
      "queue_settled w = []" "\<And>l. starts_in l w = [] \<and> enqs_in l w = []"
  | tc w e2 where "map_of (running s) i = Some tc"
      "tc_generation tc = generation (getLaneState (tc_lane tc) s)"
      "pumpLane now (tc_lane tc) ((getLaneState (tc_lane tc) s)\<lparr>activeTaskIds :=
         removeAll i (activeTaskIds (getLaneState (tc_lane tc) s))\<rparr>)
         (s\<lparr>running := AList.delete i (running s)\<rparr>) = (s', e2)"
      "evs = w @ e2 @ [if ok then Resolved (qe_promise (tc_entry tc))
                  else Rejected (qe_promise (tc_entry tc)) TaskError]"
      "queue_settled w = []" "\<And>l. starts_in l w = [] \<and> enqs_in l w = []"
proof (cases "map_of (running s) i")
  case None
  then have "s' = s" "evs = []" using assms by (simp_all add: taskSettled_def)
  with None show thesis by (rule that(1))
next
  case (Some tc)
  let ?w = "if ok \<or> isProbeLane (tc_lane tc) then [] else [TaskErrorLogged (tc_lane tc) i]"
  have w: "queue_settled ?w = []" "\<And>l. starts_in l ?w = [] \<and> enqs_in l ?w = []" by auto
  show thesis
  proof (cases "tc_generation tc = generation (getLaneState (tc_lane tc) s)")
    case True
    obtain e2 where "pumpLane now (tc_lane tc) ((getLaneState (tc_lane tc) s)\<lparr>activeTaskIds :=
         removeAll i (activeTaskIds (getLaneState (tc_lane tc) s))\<rparr>)
         (s\<lparr>running := AList.delete i (running s)\<rparr>) = (s', e2)"
      and "evs = ?w @ e2 @ [if ok then Resolved (qe_promise (tc_entry tc))
                  else Rejected (qe_promise (tc_entry tc)) TaskError]"
      using assms Some True
      by (cases ok; cases "isProbeLane (tc_lane tc)";
          simp add: taskSettled_def completeTask_def Let_def case_prod_beta prod_eq_iff)
    with that(3) [OF Some True] w show thesis by blast
  next
    case False
    have "s' = s\<lparr>running := AList.delete i (running s)\<rparr>"
      "evs = ?w @ [if ok then Resolved (qe_promise (tc_entry tc))
                  else Rejected (qe_promise (tc_entry tc)) TaskError]"
      using assms Some False
      by (cases ok; cases "isProbeLane (tc_lane tc)"; simp add: taskSettled_def completeTask_def Let_def)+
    with that(2) [OF Some False] w show thesis by blast
  qed
qed

lemma taskSettled_inv:
  assumes "queue_inv s" "taskSettled now i ok s = (s', evs)"
  shows "queue_inv s'"
  using assms(2)
proof (cases rule: taskSettled_cases)
  case 1
  with assms(1) show ?thesis by simp
next
  case (2 tc w)
  with assms(1) settled_stale_inv show ?thesis by blast
next
  case (3 tc w e2)
  show ?thesis
    unfolding queue_inv_def
    by (rule pumpLane_inv [OF _ 3(3)]) (use settled_current_inv [OF assms(1) 3(1,2)] in simp)
qed

lemma queue_exec_inv:
  assumes "queue_inv s" "queue_exec x s = (s', evs)"
  shows "queue_inv s'"
  using assms
proof (cases "(x, s)" rule: queue_exec.cases)
qed (auto split: prod.splits
  intro: enqueue_inv taskSettled_inv setConcurrency_inv clear_inv reset_inv)


subsection \<open>Every promise is settled exactly once\<close>

lemma open_promises_putLane:
  "open_promises (putLane k st s) + mset (map qe_promise (ls_queue (getLaneState k s)))
   = open_promises s + mset (map qe_promise (ls_queue st))"
proof -
  have "(case map_of (lanes s) k of None \<Rightarrow> 0 | Some v \<Rightarrow> mset (map qe_promise (ls_queue v)))
      = mset (map qe_promise (ls_queue (getLaneState k s)))"
    by (simp add: getLaneState_def new_lane_def split: option.splits)
  then show ?thesis
    using sum_list_update [of "\<lambda>st. mset (map qe_promise (ls_queue st))" k st "lanes s"]
    by (simp add: open_promises_def putLane_def ac_simps)
qed

lemma pumpLane_open:
  assumes "pumpLane now lane st s = (s', evs)"
  shows "open_promises s' = open_promises (putLane lane st s)" "queue_settled evs = []"
    "nextPromise s' = nextPromise s" "enqs_in l evs = []"
proof -
  obtain k rs st' where post: "pump_post k st (nextTaskId s) st' (nextTaskId s + k) rs evs"
    and s': "s' = putLane lane st' (s\<lparr>nextTaskId := nextTaskId s + k, running := running s @ rs\<rparr>)"
    using assms by (rule pumpLane_post)
  show "queue_settled evs = []" "nextPromise s' = nextPromise s" "enqs_in l evs = []"
    using post by (simp_all add: pump_post_def s')
  have "map (\<lambda>tc. qe_promise (tc_entry tc)) (map snd rs) = map qe_promise (take k (ls_queue st))"
  proof -
    have snd: "map snd rs = map (\<lambda>e. \<lparr>tc_lane = ls_lane st, tc_generation = generation st, tc_entry = e\<rparr>)
        (take k (ls_queue st))"
      using post by (simp add: pump_post_def)
    show ?thesis unfolding snd by (simp add: comp_def)
  qed
  then have rs: "(\<Sum>p \<leftarrow> rs. {#qe_promise (tc_entry (snd p))#})
      = mset (map qe_promise (take k (ls_queue st)))"
    unfolding sum_list_singleton_mset by (simp add: comp_def del: mset_map)
  have q: "mset (map qe_promise (ls_queue st))
      = mset (map qe_promise (take k (ls_queue st))) + mset (map qe_promise (drop k (ls_queue st)))"
    by (metis append_take_drop_id map_append mset_append)
  define m where "m = s\<lparr>nextTaskId := nextTaskId s + k, running := running s @ rs\<rparr>"
  have g: "getLaneState lane m = getLaneState lane s" by (simp add: getLaneState_def m_def)
  have m: "open_promises m = open_promises s + mset (map qe_promise (take k (ls_queue st)))"
    using rs by (simp add: open_promises_def m_def ac_simps)
  have "ls_queue st' = drop k (ls_queue st)" using post by (simp add: pump_post_def)
  then have "open_promises s' + mset (map qe_promise (ls_queue (getLaneState lane s)))
      = open_promises (putLane lane st s) + mset (map qe_promise (ls_queue (getLaneState lane s)))"
    using open_promises_putLane [of lane st' m] open_promises_putLane [of lane st s]
    unfolding s' m_def [symmetric] by (simp only: g m q ac_simps)
  then show "open_promises s' = open_promises (putLane lane st s)" by simp
qed

lemma drainLane_open:
  assumes "drainLane now lane s = (s', evs)"
  shows "open_promises s' = open_promises s" "queue_settled evs = []" "nextPromise s' = nextPromise s"
    "enqs_in l evs = []"
proof -
  have put: "open_promises (putLane lane ((getLaneState lane s)\<lparr>draining := b\<rparr>) s) = open_promises s" for b
    using open_promises_putLane [of lane "(getLaneState lane s)\<lparr>draining := b\<rparr>" s] by simp
  show "open_promises s' = open_promises s" "queue_settled evs = []" "nextPromise s' = nextPromise s"
    "enqs_in l evs = []"
    using assms put [of True] open_promises_putLane [of lane "getLaneState lane s" s]
      pumpLane_open [of now lane "(getLaneState lane s)\<lparr>draining := True\<rparr>" s s' evs]
    by (auto simp: drainLane_def Let_def split: if_splits)
qed

lemma drainAll_open:
  "drainAll now ls s = (s', evs) \<Longrightarrow> open_promises s' = open_promises s \<and> queue_settled evs = []
    \<and> nextPromise s' = nextPromise s \<and> enqs_in l evs = []"
proof (induction ls arbitrary: s evs)
  case (Cons a ls)
  obtain s1 e1 where 1: "drainLane now a s = (s1, e1)" by fastforce
  with Cons drainLane_open [OF 1] show ?case by (auto split: prod.splits)
qed simp

lemma taskSettled_open:
  assumes "queue_inv s" "taskSettled now i ok s = (s', evs)"
  shows "open_promises s' + mset (queue_settled evs) = open_promises s
    \<and> nextPromise s' = nextPromise s \<and> enqs_in l evs = []"
proof -
  have d: "distinct (keys (running s))"
    using assms(1) by (simp add: queue_inv_def queue_inv_upto_def closures_wf_def)
  have del: "open_promises (s\<lparr>running := AList.delete i (running s)\<rparr>) + {#qe_promise (tc_entry tc)#}
      = open_promises s" if "map_of (running s) i = Some tc" for tc
    using sum_list_delete [OF d that, of "\<lambda>tc. {#qe_promise (tc_entry tc)#}"]
    by (simp add: open_promises_def ac_simps)
  show ?thesis
    using assms(2)
  proof (cases rule: taskSettled_cases)
    case (3 tc w e2)
    let ?st = "(getLaneState (tc_lane tc) s)\<lparr>activeTaskIds :=
         removeAll i (activeTaskIds (getLaneState (tc_lane tc) s))\<rparr>"
    let ?s = "s\<lparr>running := AList.delete i (running s)\<rparr>"
    have "open_promises (putLane (tc_lane tc) ?st ?s) = open_promises ?s"
      using open_promises_putLane [of "tc_lane tc" ?st ?s] by (simp add: getLaneState_def)
    with 3 del pumpLane_open [OF 3(3)] show ?thesis by auto
  qed (use del in auto)
qed


lemma enqueue_open:
  assumes "enqueueCommandInLane now lane t w f s = (s', evs)"
  shows "open_promises s' = add_mset (nextPromise s) (open_promises s)"
    "queue_settled evs = []" "nextPromise s' = Suc (nextPromise s)"
    "enqs_in l evs = (if l = clean_lane lane then [nextPromise s] else [])"
proof -
  define c where "c = clean_lane lane"
  define e where "e = \<lparr>qe_promise = nextPromise s, qe_task = t, enqueuedAt = now,
    warnAfterMs = nullish w 2000, hasOnWait = f\<rparr>"
  define st where "st = (getLaneState c s)\<lparr>ls_queue := ls_queue (getLaneState c s) @ [e]\<rparr>"
  define s0 where "s0 = s\<lparr>nextPromise := Suc (nextPromise s)\<rparr>"
  obtain e2 where d: "drainLane now c (putLane c st s0) = (s', e2)" and evs: "evs = Enqueued c (nextPromise s) # e2"
    using assms by (auto simp: enqueueCommandInLane_def Let_def c_def e_def st_def s0_def split: prod.splits)
  have "open_promises s0 = open_promises s" "getLaneState c s0 = getLaneState c s"
    by (simp_all add: s0_def open_promises_def getLaneState_def)
  then have "open_promises (putLane c st s0) = add_mset (nextPromise s) (open_promises s)"
    using open_promises_putLane [of c st s0] by (simp add: st_def e_def)
  with drainLane_open [OF d] evs
  show "open_promises s' = add_mset (nextPromise s) (open_promises s)"
    "queue_settled evs = []" "nextPromise s' = Suc (nextPromise s)"
    "enqs_in l evs = (if l = clean_lane lane then [nextPromise s] else [])"
    by (auto simp: s0_def c_def)
qed

lemma setConcurrency_open:
  assumes "setCommandLaneConcurrency now lane n s = (s', evs)"
  shows "open_promises s' = open_promises s" "queue_settled evs = []" "nextPromise s' = nextPromise s"
    "enqs_in l evs = []"
proof -
  let ?st = "(getLaneState (clean_lane lane) s)\<lparr>maxConcurrent := max 1 \<lfloor>n\<rfloor>\<rparr>"
  have d: "drainLane now (clean_lane lane) (putLane (clean_lane lane) ?st s) = (s', evs)"
    using assms by (simp add: setCommandLaneConcurrency_def Let_def)
  have "open_promises (putLane (clean_lane lane) ?st s) = open_promises s"
    using open_promises_putLane [of "clean_lane lane" ?st s] by simp
  with drainLane_open [OF d]
  show "open_promises s' = open_promises s" "queue_settled evs = []" "nextPromise s' = nextPromise s"
    "enqs_in l evs = []" by simp_all
qed

lemma clear_open:
  assumes "clearCommandLane lane s = (s', evs, n)"
  shows "open_promises s' + mset (queue_settled evs) = open_promises s" "nextPromise s' = nextPromise s"
    "enqs_in l evs = []"
proof -
  let ?c = "clean_lane lane"
  show "open_promises s' + mset (queue_settled evs) = open_promises s"
    using assms open_promises_putLane [of ?c "(getLaneState ?c s)\<lparr>ls_queue := []\<rparr>" s]
    by (auto simp: clearCommandLane_def Let_def getLaneState_def split: option.splits)
  show "nextPromise s' = nextPromise s" "enqs_in l evs = []"
    using assms by (auto simp: clearCommandLane_def Let_def split: option.splits)
qed

lemma reset_open:
  assumes "resetAllLanes now s = (s', evs)"
  shows "open_promises s' = open_promises s \<and> queue_settled evs = [] \<and> nextPromise s' = nextPromise s
    \<and> enqs_in l evs = []"
proof -
  have "open_promises (s\<lparr>lanes := map (\<lambda>(k, st). (k, resetLane st)) (lanes s)\<rparr>) = open_promises s"
    by (simp add: open_promises_def comp_def case_prod_beta resetLane_def)
  then show ?thesis
    using assms drainAll_open by (fastforce simp: resetAllLanes_def Let_def)
qed

lemma queue_exec_balance:
  assumes "queue_inv s" "queue_exec x s = (s', evs)"
  shows "nextPromise s \<le> nextPromise s' \<and>
    open_promises s' + mset (queue_settled evs) =
      open_promises s + mset [nextPromise s..<nextPromise s']"
proof (cases "(x, s)" rule: queue_exec.cases)
  case (1 now lane t w f s)
  with assms enqueue_open [of now lane t w f s s' evs] show ?thesis by simp
next
  case (2 now i ok s)
  with assms taskSettled_open [of s now i ok s' evs] show ?thesis by simp
next
  case (3 now lane n s)
  with assms setConcurrency_open [of now lane n s s' evs] show ?thesis by simp
next
  case (4 now lane s)
  with assms clear_open [of lane s s' evs] show ?thesis by (auto split: prod.splits)
next
  case (5 now s)
  with assms reset_open [of now s s' evs] show ?thesis by simp
qed

interpretation cq: promise_ledger queue_exec open_promises nextPromise queue_settled queue_inv
proof (unfold_locales, goal_cases)
  case 1 then show ?case by (rule queue_exec_inv)
next
  case 2 then show ?case using queue_exec_balance by blast
next
  case 3 then show ?case using queue_exec_balance by blast
qed simp_all


subsection \<open>Order, bounds and progress of a lane\<close>

definition lane_queue :: "string \<Rightarrow> 't queue_state \<Rightarrow> nat list" where
  "lane_queue l s = map qe_promise (ls_queue (getLaneState l s))"

definition lane_active :: "string \<Rightarrow> 't queue_state \<Rightarrow> nat list" where
  "lane_active l s = activeTaskIds (getLaneState l s)"

definition lane_limit :: "string \<Rightarrow> 't queue_state \<Rightarrow> int" where
  "lane_limit l s = maxConcurrent (getLaneState l s)"

lemmas lane_view_defs = lane_queue_def lane_active_def lane_limit_def

definition lanes_named :: "'t queue_state \<Rightarrow> bool" where
  "lanes_named s \<longleftrightarrow> (\<forall>k st. map_of (lanes s) k = Some st \<longrightarrow> ls_lane st = k)"

text \<open>What draining some lanes does to lane \<open>l\<close>: it starts a prefix of its queue, each start takes
  a slot, and it never starts a task beyond the limit.\<close>

definition drains :: "string \<Rightarrow> 't queue_state \<Rightarrow> 't queue_state \<Rightarrow> queue_event list \<Rightarrow> bool" where
  "drains l s s' evs \<longleftrightarrow> lanes_named s'
     \<and> starts_in l evs @ lane_queue l s' = lane_queue l s
     \<and> length (lane_active l s') = length (lane_active l s) + length (starts_in l evs)
     \<and> lane_limit l s' = lane_limit l s
     \<and> (starts_in l evs \<noteq> [] \<longrightarrow> int (length (lane_active l s')) \<le> lane_limit l s)"

lemma queue_inv_named: "queue_inv_upto T s \<Longrightarrow> lanes_named s"
  by (auto simp: queue_inv_upto_def lanes_named_def lane_wf_def)

lemma lanes_named_get: "lanes_named s \<Longrightarrow> ls_lane (getLaneState k s) = k"
  by (auto simp: lanes_named_def getLaneState_def new_lane_def split: option.splits)

lemma lanes_named_put: "lanes_named s \<Longrightarrow> ls_lane st = k \<Longrightarrow> lanes_named (putLane k st s)"
  by (auto simp: lanes_named_def)

lemma getLaneState_put: "getLaneState l (putLane k st s) = (if l = k then st else getLaneState l s)"
  by (simp add: getLaneState_def)

lemma drains_refl: "lanes_named s \<Longrightarrow> drains l s s []"
  by (simp add: drains_def)

lemma drains_trans: "drains l s s1 e1 \<Longrightarrow> drains l s1 s2 e2 \<Longrightarrow> drains l s s2 (e1 @ e2)"
  by (auto simp: drains_def)

lemma pumpLane_drains:
  assumes "pumpLane now lane st s = (s', evs)" "ls_lane st = lane" "lanes_named s"
  shows "drains l (putLane lane st s) s' evs"
proof -
  obtain k rs st' where post: "pump_post k st (nextTaskId s) st' (nextTaskId s + k) rs evs"
    and s': "s' = putLane lane st' (s\<lparr>nextTaskId := nextTaskId s + k, running := running s @ rs\<rparr>)"
    using assms(1) by (rule pumpLane_post)
  have get: "getLaneState l s' = (if l = lane then st' else getLaneState l s)"
    by (simp add: s' getLaneState_put) (simp add: getLaneState_def)
  have st': "st' = st\<lparr>ls_queue := drop k (ls_queue st),
      activeTaskIds := activeTaskIds st @ [nextTaskId s..<nextTaskId s + k], draining := False\<rparr>"
    and k: "k \<le> length (ls_queue st)"
    and st: "starts_in l evs = (if l = lane then map qe_promise (take k (ls_queue st)) else [])"
    and bound: "0 < k \<Longrightarrow> int (length (activeTaskIds st) + k) \<le> maxConcurrent st"
    using post assms(2) by (auto simp: pump_post_def)
  have "lanes_named s'"
    using assms(2,3) by (auto simp: s' st' lanes_named_def)
  then show ?thesis
    using k bound st unfolding drains_def lane_view_defs get getLaneState_put
    by (auto simp: st' min_def simp flip: map_append)
qed

lemma drainLane_drains:
  assumes "drainLane now lane s = (s', evs)" "lanes_named s"
  shows "drains l s s' evs"
proof -
  let ?st = "getLaneState lane s"
  have n: "ls_lane ?st = lane" using assms(2) by (rule lanes_named_get)
  show ?thesis
  proof (cases "draining ?st")
    case True
    then have "s' = putLane lane ?st s" "evs = []" using assms(1) by (auto simp: drainLane_def)
    then show ?thesis
      using lanes_named_put [OF assms(2) n] by (simp add: drains_def lane_view_defs getLaneState_put)
  next
    case False
    then have "pumpLane now lane (?st\<lparr>draining := True\<rparr>) s = (s', evs)"
      using assms(1) by (simp add: drainLane_def)
    from pumpLane_drains [OF this, of l] n assms(2) show ?thesis
      by (auto simp: drains_def lane_view_defs getLaneState_put split: if_splits)
  qed
qed

lemma drainAll_drains:
  "drainAll now ls s = (s', evs) \<Longrightarrow> lanes_named s \<Longrightarrow> drains l s s' evs"
proof (induction ls arbitrary: s evs)
  case Nil
  then show ?case by (simp add: drains_refl)
next
  case (Cons a ls)
  obtain s1 e1 where 1: "drainLane now a s = (s1, e1)" by fastforce
  obtain e2 where 2: "drainAll now ls s1 = (s', e2)" "evs = e1 @ e2"
    using Cons.prems(1) 1 by (auto split: prod.splits)
  have d: "drains l s s1 e1" using 1 Cons.prems(2) by (rule drainLane_drains)
  then have "lanes_named s1" by (simp add: drains_def)
  with Cons.IH 2(1) have "drains l s1 s' e2" by blast
  with d show ?case unfolding 2(2) by (rule drains_trans)
qed

text \<open>The effect of one turn on lane \<open>l\<close>: the turn first brings the lane to some \<open>s0\<close> whose
  queue has the newly enqueued promises at its end, which has no more active tasks than before
  and, when \<open>keep\<close>, the same limit; then lanes are drained.\<close>

definition lane_turn :: "string \<Rightarrow> bool \<Rightarrow> 't queue_state \<Rightarrow> 't queue_state \<Rightarrow> queue_event list \<Rightarrow> bool" where
  "lane_turn l keep s s' evs \<longleftrightarrow> (\<exists>s0 e0. drains l s0 s' e0 \<and> starts_in l evs = starts_in l e0
     \<and> lane_queue l s0 = lane_queue l s @ enqs_in l evs
     \<and> length (lane_active l s0) \<le> length (lane_active l s)
     \<and> (keep \<longrightarrow> lane_limit l s0 = lane_limit l s))"

lemma lane_turn_same:
  assumes "getLaneState l s' = getLaneState l s" "lanes_named s'" "starts_in l evs = []" "enqs_in l evs = []"
  shows "lane_turn l keep s s' evs"
  unfolding lane_turn_def
  by (rule exI [of _ s'], rule exI [of _ "[]"]) (use assms in \<open>simp add: drains_refl lane_view_defs\<close>)

lemma enqueue_turn:
  assumes "lanes_named s" "enqueueCommandInLane now lane t w f s = (s', evs)"
  shows "lane_turn l keep s s' evs"
proof -
  define c where "c = clean_lane lane"
  define e where "e = \<lparr>qe_promise = nextPromise s, qe_task = t, enqueuedAt = now,
    warnAfterMs = nullish w 2000, hasOnWait = f\<rparr>"
  define st where "st = (getLaneState c s)\<lparr>ls_queue := ls_queue (getLaneState c s) @ [e]\<rparr>"
  define s1 where "s1 = s\<lparr>nextPromise := Suc (nextPromise s)\<rparr>"
  define s0 where "s0 = putLane c st s1"
  obtain e2 where d: "drainLane now c s0 = (s', e2)" and evs: "evs = Enqueued c (nextPromise s) # e2"
    using assms(2)
    by (auto simp: enqueueCommandInLane_def Let_def c_def e_def st_def s1_def s0_def split: prod.splits)
  have get: "getLaneState l s0 = (if l = c then st else getLaneState l s)"
    by (simp add: getLaneState_put s0_def) (simp add: getLaneState_def s1_def)
  have "lanes_named s0"
    using assms(1) lanes_named_get [OF assms(1), of c] by (auto simp: lanes_named_def st_def s1_def s0_def)
  with d have "drains l s0 s' e2" by (rule drainLane_drains)
  then show ?thesis
    unfolding lane_turn_def using drainLane_open(4) [OF d, of l]
    by (intro exI [of _ s0] exI [of _ e2])
      (simp add: lane_view_defs get evs st_def e_def)
qed

lemma settle_turn:
  assumes "lanes_named s" "taskSettled now i ok s = (s', evs)"
  shows "lane_turn l keep s s' evs"
  using assms(2)
proof (cases rule: taskSettled_cases)
  case 1
  with assms(1) show ?thesis by (intro lane_turn_same) auto
next
  case (2 tc w)
  with assms(1) show ?thesis
    by (intro lane_turn_same) (auto simp: getLaneState_def lanes_named_def)
next
  case (3 tc w e2)
  define c where "c = tc_lane tc"
  define st where "st = (getLaneState c s)\<lparr>activeTaskIds := removeAll i (activeTaskIds (getLaneState c s))\<rparr>"
  define s0 where "s0 = putLane c st (s\<lparr>running := AList.delete i (running s)\<rparr>)"
  have get: "getLaneState l s0 = (if l = c then st else getLaneState l s)"
    by (simp add: getLaneState_put s0_def) (simp add: getLaneState_def)
  have "drains l s0 s' e2"
    unfolding s0_def c_def st_def
    by (rule pumpLane_drains [OF 3(3)])
      (use assms(1) lanes_named_get [OF assms(1)] in \<open>auto simp: lanes_named_def\<close>)
  then show ?thesis
    unfolding lane_turn_def using 3(4-6) pumpLane_open(4) [OF 3(3), of l]
    by (intro exI [of _ s0] exI [of _ e2])
      (simp add: lane_view_defs get st_def length_removeAll_less_eq)
qed

lemma setConcurrency_turn:
  assumes "lanes_named s" "setCommandLaneConcurrency now lane n s = (s', evs)"
  shows "lane_turn l (clean_lane lane \<noteq> l) s s' evs"
proof -
  define c where "c = clean_lane lane"
  define s0 where "s0 = putLane c ((getLaneState c s)\<lparr>maxConcurrent := max 1 \<lfloor>n\<rfloor>\<rparr>) s"
  have d: "drainLane now c s0 = (s', evs)"
    using assms(2) by (simp add: setCommandLaneConcurrency_def c_def s0_def Let_def)
  have "lanes_named s0"
    unfolding s0_def using assms(1) lanes_named_get [OF assms(1)] by (auto intro!: lanes_named_put)
  with d have "drains l s0 s' evs" by (rule drainLane_drains)
  then show ?thesis
    unfolding lane_turn_def using drainLane_open(4) [OF d, of l]
    by (intro exI [of _ s0] exI [of _ evs])
      (auto simp: lane_view_defs s0_def getLaneState_put c_def)
qed

lemma reset_turn:
  assumes "lanes_named s" "resetAllLanes now s = (s', evs)"
  shows "lane_turn l keep s s' evs"
proof -
  define s0 where "s0 = s\<lparr>lanes := map (\<lambda>(k, st). (k, resetLane st)) (lanes s)\<rparr>"
  have m: "map_of (lanes s0) k = map_option resetLane (map_of (lanes s) k)" for k
    by (simp add: s0_def map_of_map)
  obtain ls where d: "drainAll now ls s0 = (s', evs)"
    using assms(2) by (auto simp: resetAllLanes_def s0_def Let_def)
  have "lanes_named s0" using assms(1) by (auto simp: lanes_named_def m resetLane_def)
  with d have "drains l s0 s' evs" by (rule drainAll_drains)
  then show ?thesis
    unfolding lane_turn_def using drainAll_open [OF d, of l]
    by (intro exI [of _ s0] exI [of _ evs])
      (auto simp: lane_view_defs getLaneState_def m resetLane_def split: option.splits)
qed

lemma clear_turn:
  assumes "lanes_named s" "clearCommandLane lane s = (s', evs, n)" "clean_lane lane \<noteq> l"
  shows "lane_turn l keep s s' evs"
  using assms clear_open(3) [OF assms(2)]
  by (intro lane_turn_same)
    (auto simp: clearCommandLane_def Let_def getLaneState_put lanes_named_def split: option.splits if_splits)

lemma exec_turn:
  assumes "queue_inv s" "queue_exec x s = (s', evs)" "\<And>now lane. x = (now, ClearOp lane) \<Longrightarrow> clean_lane lane \<noteq> l"
  shows "lane_turn l (\<forall>now lane n. x = (now, SetConcurrencyOp lane n) \<longrightarrow> clean_lane lane \<noteq> l) s s' evs"
proof -
  have named: "lanes_named s" using assms(1) by (auto simp: queue_inv_def dest: queue_inv_named)
  show ?thesis
    using assms(2,3)
    by (cases "(x, s)" rule: queue_exec.cases)
      (use named in \<open>auto intro: enqueue_turn settle_turn setConcurrency_turn clear_turn reset_turn
        split: prod.splits\<close>)
qed


definition clears :: "string \<Rightarrow> int \<times> 't queue_op \<Rightarrow> bool" where
  "clears l x = (case snd x of ClearOp lane \<Rightarrow> clean_lane lane = l | _ \<Rightarrow> False)"

definition limits :: "string \<Rightarrow> int \<times> 't queue_op \<Rightarrow> bool" where
  "limits l x = (case snd x of SetConcurrencyOp lane n \<Rightarrow> clean_lane lane = l | _ \<Rightarrow> False)"

lemma exec_turn':
  assumes "queue_inv s" "queue_exec x s = (s', evs)" "\<not> clears l x"
  shows "lane_turn l (\<not> limits l x) s s' evs"
proof -
  have "(\<forall>now lane n. x = (now, SetConcurrencyOp lane n) \<longrightarrow> clean_lane lane \<noteq> l) \<longleftrightarrow> \<not> limits l x"
    by (cases x) (auto simp: limits_def split: queue_op.splits)
  moreover have "\<And>now lane. x = (now, ClearOp lane) \<Longrightarrow> clean_lane lane \<noteq> l"
    using assms(3) by (auto simp: clears_def)
  ultimately show ?thesis using exec_turn [OF assms(1,2), of l] by simp
qed

lemma run_fifo:
  assumes "queue_inv s" "\<forall>x \<in> set xs. \<not> clears l x" "run_ops queue_exec xs s = (s', evs)"
  shows "starts_in l evs @ lane_queue l s' = lane_queue l s @ enqs_in l evs"
  using assms
proof (induction xs arbitrary: s evs)
  case (Cons x xs)
  obtain s1 e1 where 1: "queue_exec x s = (s1, e1)" by fastforce
  obtain e2 where 2: "run_ops queue_exec xs s1 = (s', e2)" "evs = e1 @ e2"
    using Cons.prems(3) 1 by (auto split: prod.splits)
  have "lane_turn l (\<not> limits l x) s s1 e1" using exec_turn' [OF Cons.prems(1) 1] Cons.prems(2) by simp
  then have "starts_in l e1 @ lane_queue l s1 = lane_queue l s @ enqs_in l e1"
    unfolding lane_turn_def drains_def by metis
  moreover have "starts_in l e2 @ lane_queue l s' = lane_queue l s1 @ enqs_in l e2"
    using Cons.IH [OF queue_exec_inv [OF Cons.prems(1) 1] _ 2(1)] Cons.prems(2) by simp
  ultimately show ?case by (simp add: 2(2))
qed simp

lemma exec_serial:
  assumes "queue_inv s" "queue_exec x s = (s', evs)" "\<not> limits l x"
    "lane_limit l s = 1" "length (lane_active l s) \<le> 1"
  shows "lane_limit l s' = 1 \<and> length (lane_active l s') \<le> 1"
proof (cases "clears l x")
  case True
  then obtain now lane where x: "x = (now, ClearOp lane)" "clean_lane lane = l"
    by (cases x) (auto simp: clears_def split: queue_op.splits)
  with assms(2,4,5) show ?thesis
    by (auto simp: clearCommandLane_def lane_view_defs getLaneState_put getLaneState_def Let_def
        split: option.splits)
next
  case False
  from exec_turn' [OF assms(1,2) this] assms(3) obtain s0 e0 where
    d: "drains l s0 s' e0" "length (lane_active l s0) \<le> length (lane_active l s)"
      "lane_limit l s0 = lane_limit l s"
    unfolding lane_turn_def by blast
  then show ?thesis using assms(4,5) by (cases "starts_in l e0 = []") (auto simp: drains_def)
qed

lemma run_serial:
  assumes "queue_inv s" "\<forall>x \<in> set xs. \<not> limits l x" "lane_limit l s = 1" "length (lane_active l s) \<le> 1"
    "run_ops queue_exec xs s = (s', evs)"
  shows "lane_limit l s' = 1 \<and> length (lane_active l s') \<le> 1"
proof -
  have "queue_inv s' \<and> lane_limit l s' = 1 \<and> length (lane_active l s') \<le> 1"
    by (rule run_ops_inv [where P = "\<lambda>s. queue_inv s \<and> lane_limit l s = 1 \<and> length (lane_active l s) \<le> 1",
          OF _ _ assms(5)])
      (use assms queue_exec_inv exec_serial in blast)+
  then show ?thesis by simp
qed

lemma queue_init_views [simp]:
  "lane_queue l queue_init = []" "lane_active l queue_init = []" "lane_limit l queue_init = 1"
  "open_promises queue_init = {#}" "nextPromise queue_init = 0"
  by (simp_all add: lane_view_defs queue_init_def getLaneState_def new_lane_def open_promises_def)

lemma active_closures:
  assumes "queue_inv s"
  shows "set (lane_active l s) = {i. \<exists>tc. map_of (running s) i = Some tc \<and> tc_lane tc = l
      \<and> tc_generation tc = generation (getLaneState l s)}"
  using getLane_wf(1) [of "{}" s l] assms by (simp add: lane_wf_def queue_inv_def lane_active_def)

subsection \<open>Properties of the command queue\<close>

text \<open>(C21) Every promise handed out by the queue is settled at most once, and after any sequence of
  enqueues, task completions, concurrency changes, lane clears and resets the promises ever issued
  are exactly the settled ones and the ones still queued or running: no caller is forgotten.\<close>

theorem queue_settles_once:
  "case run_ops queue_exec ops (queue_init :: 't queue_state) of (s, evs) \<Rightarrow>
     distinct (queue_settled evs)
     \<and> set_mset (open_promises s) \<inter> set (queue_settled evs) = {}
     \<and> set_mset (open_promises s) \<union> set (queue_settled evs) = {0..<nextPromise s}"
proof -
  obtain s evs where r: "run_ops queue_exec ops (queue_init :: 't queue_state) = (s, evs)" by fastforce
  from cq.run_settles_once [OF queue_inv_init queue_init_views(4) r] show ?thesis by (simp add: r)
qed

text \<open>(C27) Lanes are first-in first-out: in a run that does not clear lane \<open>l\<close>, the promises of the
  tasks started in \<open>l\<close>, in start order, followed by those still queued, are exactly the promises
  enqueued in \<open>l\<close>, in enqueue order.\<close>

theorem lane_is_fifo:
  assumes "\<forall>x \<in> set ops. \<not> clears l x" and "run_ops queue_exec ops queue_init = (s, evs)"
  shows "starts_in l evs @ lane_queue l s = enqs_in l evs"
  using run_fifo [OF queue_inv_init assms] by simp

theorem lane_is_fifo_witness:
  "starts_in ''main'' (snd (run_ops queue_exec
      [(0, EnqueueOp ''main'' (7::nat) None False), (1, EnqueueOp '' '' 8 None False),
       (5, SettleOp 1 True)] queue_init)) = [0, 1]
   \<and> starts_in ''main'' (snd (run_ops queue_exec
      [(0, EnqueueOp ''main'' (7::nat) None False), (1, EnqueueOp '' '' 8 None False),
       (5, SettleOp 1 True)] queue_init))
     @ lane_queue ''main'' (fst (run_ops queue_exec
      [(0, EnqueueOp ''main'' (7::nat) None False), (1, EnqueueOp '' '' 8 None False),
       (5, SettleOp 1 True)] queue_init))
     = enqs_in ''main'' (snd (run_ops queue_exec
      [(0, EnqueueOp ''main'' (7::nat) None False), (1, EnqueueOp '' '' 8 None False),
       (5, SettleOp 1 True)] queue_init))"
  (is "starts_in _ (snd ?r) = _ \<and> _")
proof
  show "starts_in ''main'' (snd ?r) = [0, 1]" by code_simp
  have "\<forall>x \<in> set [(0, EnqueueOp ''main'' (7::nat) None False), (1, EnqueueOp '' '' 8 None False),
       (5, SettleOp 1 True)]. \<not> clears ''main'' x" by (simp add: clears_def)
  from lane_is_fifo [OF this, of "fst ?r" "snd ?r"]
  show "starts_in ''main'' (snd ?r) @ lane_queue ''main'' (fst ?r) = enqs_in ''main'' (snd ?r)" by simp
qed

text \<open>A lane whose concurrency was never configured is serialised: at every point of a run at
  most one task of its current generation is running.\<close>

theorem default_lane_serial:
  assumes "\<forall>x \<in> set ops. \<not> limits l x" and "run_ops queue_exec ops queue_init = (s, evs)"
  shows "length (lane_active l s) \<le> 1 \<and>
    set (lane_active l s) = {i. \<exists>tc. map_of (running s) i = Some tc \<and> tc_lane tc = l
      \<and> tc_generation tc = generation (getLaneState l s)}"
  using run_serial [OF queue_inv_init assms(1) _ _ assms(2)]
    active_closures [OF cq.run_inv [OF queue_inv_init assms(2)]] by simp

theorem default_lane_serial_witness:
  "lane_active ''cron'' (fst (run_ops queue_exec
      [(0, EnqueueOp ''cron'' (7::nat) None False), (1, EnqueueOp ''cron'' 8 None False)] queue_init)) = [1]
   \<and> length (lane_active ''cron'' (fst (run_ops queue_exec
      [(0, EnqueueOp ''cron'' (7::nat) None False), (1, EnqueueOp ''cron'' 8 None False)] queue_init))) \<le> 1"
  (is "lane_active _ (fst ?r) = _ \<and> _")
proof
  show "lane_active ''cron'' (fst ?r) = [1]" by code_simp
  have "\<forall>x \<in> set [(0, EnqueueOp ''cron'' (7::nat) None False), (1, EnqueueOp ''cron'' 8 None False)].
      \<not> limits ''cron'' x" by (simp add: limits_def)
  from default_lane_serial [OF this, of "fst ?r" "snd ?r"]
  show "length (lane_active ''cron'' (fst ?r)) \<le> 1" by simp
qed

text \<open>(C28) Lanes are work-conserving: after any run, a lane with queued entries has all its slots
  taken (and no lane is left in the draining state), so queued work never waits beside a free slot.\<close>

theorem lane_work_conserving:
  "case run_ops queue_exec ops (queue_init :: 't queue_state) of (s, evs) \<Rightarrow>
     list_all (\<lambda>(k, st). \<not> draining st \<and> distinct (activeTaskIds st) \<and>
       (ls_queue st = [] \<or> maxConcurrent st \<le> int (length (activeTaskIds st)))) (lanes s)"
proof -
  obtain s evs where r: "run_ops queue_exec ops (queue_init :: 't queue_state) = (s, evs)" by fastforce
  have inv: "queue_inv s" using cq.run_inv [OF queue_inv_init r] .
  have "map_of (lanes s) k = Some st" if "(k, st) \<in> set (lanes s)" for k st
    using inv that by (simp add: queue_inv_def queue_inv_upto_def closures_wf_def map_of_is_SomeI)
  with inv show ?thesis
    by (fastforce simp: r list_all_iff queue_inv_def queue_inv_upto_def lane_wf_def lane_idle_def)
qed

text \<open>After an in-process restart (\<open>resetAllLanes\<close>) every lane resumes its preserved work at
  once: it starts the first \<open>min (queue length) maxConcurrent\<close> queued entries, in order.\<close>

theorem reset_restarts_queued:
  assumes "queue_inv s" and "resetAllLanes now s = (s', evs)"
  shows "starts_in l evs = take (nat (lane_limit l s)) (lane_queue l s)"
proof -
  have named: "lanes_named s" using assms(1) by (auto simp: queue_inv_def dest: queue_inv_named)
  define s0 where "s0 = s\<lparr>lanes := map (\<lambda>(k, st). (k, resetLane st)) (lanes s)\<rparr>"
  have m: "map_of (lanes s0) k = map_option resetLane (map_of (lanes s) k)" for k
    by (simp add: s0_def map_of_map)
  obtain ls where "drainAll now ls s0 = (s', evs)"
    using assms(2) by (auto simp: resetAllLanes_def s0_def Let_def)
  then have d: "drains l s0 s' evs"
    by (rule drainAll_drains) (use named in \<open>auto simp: lanes_named_def m resetLane_def\<close>)
  have v: "lane_queue l s0 = lane_queue l s" "lane_limit l s0 = lane_limit l s" "lane_active l s0 = []"
    by (auto simp: lane_view_defs getLaneState_def m resetLane_def new_lane_def split: option.splits)
  have inv': "queue_inv_upto {} s'" using reset_inv [OF assms] by (simp add: queue_inv_def)
  have "lane_idle (getLaneState l s')" "1 \<le> lane_limit l s'"
    using getLane_wf(1,3) [OF inv', of l] by (auto simp: lane_wf_def lane_limit_def)
  then have full: "lane_queue l s' \<noteq> [] \<Longrightarrow> lane_limit l s' \<le> int (length (lane_active l s'))"
    by (simp add: lane_idle_def lane_view_defs)
  have len: "int (length (starts_in l evs)) \<le> lane_limit l s"
    "lane_queue l s' \<noteq> [] \<Longrightarrow> lane_limit l s \<le> int (length (starts_in l evs))"
    using d full v \<open>1 \<le> lane_limit l s'\<close> by (cases "starts_in l evs = []"; simp add: drains_def)+
  have "lane_queue l s = starts_in l evs @ lane_queue l s'" using d v by (simp add: drains_def)
  with len show ?thesis by (cases "lane_queue l s' = []") auto
qed

theorem reset_restarts_queued_witness:
  "starts_in ''main'' (snd (resetAllLanes 9 (fst (run_ops queue_exec
      [(0, EnqueueOp ''main'' (7::nat) None False), (1, EnqueueOp ''main'' 8 None False)] queue_init)))) = [1]"
  (is "starts_in _ (snd (resetAllLanes 9 ?s)) = _")
proof -
  have "queue_inv ?s"
    by (rule cq.run_inv [OF queue_inv_init, of _ _ "snd (run_ops queue_exec
      [(0, EnqueueOp ''main'' (7::nat) None False), (1, EnqueueOp ''main'' 8 None False)] queue_init)"])
      (simp del: run_ops.simps)
  from reset_restarts_queued [OF this, of 9 "fst (resetAllLanes 9 ?s)" "snd (resetAllLanes 9 ?s)" "''main''"]
  have "starts_in ''main'' (snd (resetAllLanes 9 ?s)) = take (nat (lane_limit ''main'' ?s)) (lane_queue ''main'' ?s)"
    by simp
  also have "\<dots> = [1]" by code_simp
  finally show ?thesis .
qed

end
