(* ===== verification/Rate_Limit.thy ===== *)
theory Rate_Limit
  imports Prelude_JS
begin

section \<open>Rate limiters (gateway/auth-rate-limit.ts, gateway/control-plane-rate-limit.ts,
  infra/fixed-window-rate-limit.ts)\<close>

text \<open>
  The sliding-window limiter with lockout that guards gateway authentication, and the two
  fixed-window counters (per-instance and per-client). The closure variables of
  \<open>createAuthRateLimiter\<close> are the record \<open>rl_config\<close>, its \<open>entries\<close> map is the state; the
  periodic \<open>prune\<close> timer is the operation \<open>prune\<close>, callable at any time. Timestamps are
  integers in milliseconds.
\<close>

subsection \<open>Loopback addresses (gateway/net.ts)\<close>

definition isLoopbackAddress :: "string option \<Rightarrow> bool" where
  "isLoopbackAddress ip = (case ip of
     None \<Rightarrow> False
   | Some a \<Rightarrow>
       if a = [] then False
       else if a = ''127.0.0.1'' then True
       else if starts_with a ''127.'' then True
       else if a = ''::1'' then True
       else if starts_with a ''::ffff:127.'' then True
       else False)"

subsection \<open>The authentication limiter\<close>

record rl_config =
  maxAttempts :: int
  windowMs :: int
  lockoutMs :: int
  exemptLoopback :: bool

definition DEFAULT_MAX_ATTEMPTS :: int where "DEFAULT_MAX_ATTEMPTS = 10"
definition DEFAULT_WINDOW_MS :: int where "DEFAULT_WINDOW_MS = 60000"
definition DEFAULT_LOCKOUT_MS :: int where "DEFAULT_LOCKOUT_MS = 300000"

text \<open>The optional fields of \<open>RateLimitConfig\<close> and their defaults.\<close>

definition resolveRateLimitConfig ::
    "int option \<Rightarrow> int option \<Rightarrow> int option \<Rightarrow> bool option \<Rightarrow> rl_config" where
  "resolveRateLimitConfig m w l e =
     \<lparr>maxAttempts = nullish m DEFAULT_MAX_ATTEMPTS, windowMs = nullish w DEFAULT_WINDOW_MS,
      lockoutMs = nullish l DEFAULT_LOCKOUT_MS, exemptLoopback = nullish e True\<rparr>"

record rl_entry =
  attempts :: "int list"
  lockedUntil :: "int option"

record rl_result =
  rl_allowed :: bool
  remaining :: int
  retryAfterMs :: int

type_synonym rl_state = "(string \<times> rl_entry) list"

definition normalizeScope :: "string option \<Rightarrow> string" where
  "normalizeScope scope = or_string (trim (nullish scope ''default'')) ''default''"

definition normalizeIpKey :: "string option \<Rightarrow> string" where
  "normalizeIpKey ip = or_string (trim (nullish ip [])) ''unknown''"

definition resolveKey :: "string option \<Rightarrow> string option \<Rightarrow> string \<times> string" where
  "resolveKey rawIp rawScope =
     (let ip = normalizeIpKey rawIp; scope = normalizeScope rawScope
      in (scope @ '':'' @ ip, ip))"

definition isExempt :: "rl_config \<Rightarrow> string \<Rightarrow> bool" where
  "isExempt cfg ip \<longleftrightarrow> exemptLoopback cfg \<and> isLoopbackAddress (Some ip)"

definition slideWindow :: "rl_config \<Rightarrow> rl_entry \<Rightarrow> int \<Rightarrow> rl_entry" where
  "slideWindow cfg e now = e\<lparr>attempts := filter (\<lambda>ts. now - windowMs cfg < ts) (attempts e)\<rparr>"

text \<open>\<open>entry.lockedUntil && now < entry.lockedUntil\<close>: an absent or zero instant is falsy.\<close>

definition lockSet :: "rl_entry \<Rightarrow> bool" where
  "lockSet e = (case lockedUntil e of None \<Rightarrow> False | Some u \<Rightarrow> u \<noteq> 0)"

definition lockedAt :: "rl_entry \<Rightarrow> int \<Rightarrow> bool" where
  "lockedAt e now = (case lockedUntil e of None \<Rightarrow> False | Some u \<Rightarrow> u \<noteq> 0 \<and> now < u)"

definition rl_check :: "rl_config \<Rightarrow> int \<Rightarrow> string option \<Rightarrow> string option \<Rightarrow> rl_state \<Rightarrow>
    rl_result \<times> rl_state" where
  "rl_check cfg now rawIp rawScope s =
     (let (key, ip) = resolveKey rawIp rawScope in
      if isExempt cfg ip
      then (\<lparr>rl_allowed = True, remaining = maxAttempts cfg, retryAfterMs = 0\<rparr>, s)
      else case map_of s key of
        None \<Rightarrow> (\<lparr>rl_allowed = True, remaining = maxAttempts cfg, retryAfterMs = 0\<rparr>, s)
      | Some e \<Rightarrow>
          if lockedAt e now
          then (\<lparr>rl_allowed = False, remaining = 0, retryAfterMs = the (lockedUntil e) - now\<rparr>, s)
          else
            (let e1 = (if lockSet e then e\<lparr>lockedUntil := None, attempts := []\<rparr> else e);
                 e2 = slideWindow cfg e1 now;
                 rem = max 0 (maxAttempts cfg - int (length (attempts e2)))
             in (\<lparr>rl_allowed = rem > 0, remaining = rem, retryAfterMs = 0\<rparr>,
                 AList.update key e2 s)))"

definition recordFailure :: "rl_config \<Rightarrow> int \<Rightarrow> string option \<Rightarrow> string option \<Rightarrow> rl_state \<Rightarrow>
    rl_state" where
  "recordFailure cfg now rawIp rawScope s =
     (let (key, ip) = resolveKey rawIp rawScope in
      if isExempt cfg ip then s
      else
        (let (e, s1) = (case map_of s key of
               None \<Rightarrow> (let e = \<lparr>attempts = [], lockedUntil = None\<rparr> in (e, AList.update key e s))
             | Some e \<Rightarrow> (e, s))
         in if lockedAt e now then s1
            else
              (let e1 = slideWindow cfg e now;
                   e2 = e1\<lparr>attempts := attempts e1 @ [now]\<rparr>;
                   e3 = (if maxAttempts cfg \<le> int (length (attempts e2))
                         then e2\<lparr>lockedUntil := Some (now + lockoutMs cfg)\<rparr> else e2)
               in AList.update key e3 s1)))"

definition rl_reset :: "string option \<Rightarrow> string option \<Rightarrow> rl_state \<Rightarrow> rl_state" where
  "rl_reset rawIp rawScope s = AList.delete (fst (resolveKey rawIp rawScope)) s"

definition prune :: "rl_config \<Rightarrow> int \<Rightarrow> rl_state \<Rightarrow> rl_state" where
  "prune cfg now s = concat (map (\<lambda>(key, e).
     if lockedAt e now then [(key, e)]
     else (let e1 = slideWindow cfg e now in if attempts e1 = [] then [] else [(key, e1)])) s)"

definition rl_size :: "rl_state \<Rightarrow> nat" where
  "rl_size s = length s"

definition dispose :: "rl_state \<Rightarrow> rl_state" where
  "dispose s = []"

subsection \<open>Fixed-window counters\<close>

record fw_state =
  fw_count :: int
  fw_windowStartMs :: int

record fw_result =
  fw_allowed :: bool
  fw_retryAfterMs :: int
  fw_remaining :: int

definition fw_init :: fw_state where
  "fw_init = \<lparr>fw_count = 0, fw_windowStartMs = 0\<rparr>"

text \<open>\<open>consume\<close> of \<open>createFixedWindowRateLimiter\<close>, with its clamped parameters.\<close>

definition fw_consume :: "rat \<Rightarrow> rat \<Rightarrow> int \<Rightarrow> fw_state \<Rightarrow> fw_result \<times> fw_state" where
  "fw_consume maxReq win nowMs s =
     (let maxRequests = max 1 \<lfloor>maxReq\<rfloor>;
          windowMs = max 1 \<lfloor>win\<rfloor>;
          s1 = (if windowMs \<le> nowMs - fw_windowStartMs s
                then \<lparr>fw_count = 0, fw_windowStartMs = nowMs\<rparr> else s)
      in if maxRequests \<le> fw_count s1
         then (\<lparr>fw_allowed = False,
                fw_retryAfterMs = max 0 (fw_windowStartMs s1 + windowMs - nowMs),
                fw_remaining = 0\<rparr>, s1)
         else (let s2 = s1\<lparr>fw_count := fw_count s1 + 1\<rparr>
               in (\<lparr>fw_allowed = True, fw_retryAfterMs = 0,
                    fw_remaining = max 0 (maxRequests - fw_count s2)\<rparr>, s2)))"

definition fw_reset :: "fw_state \<Rightarrow> fw_state" where
  "fw_reset s = fw_init"

text \<open>The control-plane budget: one bucket per device and client address.\<close>

definition CONTROL_PLANE_MAX :: int where "CONTROL_PLANE_MAX = 3"
definition CONTROL_PLANE_WINDOW :: int where "CONTROL_PLANE_WINDOW = 60000"

text \<open>\<open>GatewayClient | null\<close>, reduced to the two fields the key reads (\<open>None\<close>: not a string).\<close>

record gw_client =
  gc_deviceId :: "string option"
  gc_clientIp :: "string option"

definition normalizePart :: "string option \<Rightarrow> string \<Rightarrow> string" where
  "normalizePart v fallback = (case v of None \<Rightarrow> fallback
     | Some x \<Rightarrow> (let n = trim x in if n \<noteq> [] then n else fallback))"

definition resolveControlPlaneRateLimitKey :: "gw_client option \<Rightarrow> string" where
  "resolveControlPlaneRateLimitKey client =
     normalizePart (Option.bind client gc_deviceId) ''unknown-device'' @ ''|'' @
     normalizePart (Option.bind client gc_clientIp) ''unknown-ip''"

type_synonym cp_state = "(string \<times> fw_state) list"

definition consumeControlPlaneWriteBudget :: "int \<Rightarrow> gw_client option \<Rightarrow> cp_state \<Rightarrow>
    fw_result \<times> string \<times> cp_state" where
  "consumeControlPlaneWriteBudget nowMs client s =
     (let key = resolveControlPlaneRateLimitKey client in
      case map_of s key of
        None \<Rightarrow>
          (\<lparr>fw_allowed = True, fw_retryAfterMs = 0, fw_remaining = CONTROL_PLANE_MAX - 1\<rparr>, key,
           AList.update key \<lparr>fw_count = 1, fw_windowStartMs = nowMs\<rparr> s)
      | Some b \<Rightarrow>
          if CONTROL_PLANE_WINDOW \<le> nowMs - fw_windowStartMs b then
            (\<lparr>fw_allowed = True, fw_retryAfterMs = 0, fw_remaining = CONTROL_PLANE_MAX - 1\<rparr>, key,
             AList.update key \<lparr>fw_count = 1, fw_windowStartMs = nowMs\<rparr> s)
          else if CONTROL_PLANE_MAX \<le> fw_count b then
            (\<lparr>fw_allowed = False,
              fw_retryAfterMs = max 0 (fw_windowStartMs b + CONTROL_PLANE_WINDOW - nowMs),
              fw_remaining = 0\<rparr>, key, s)
          else
            (let b' = b\<lparr>fw_count := fw_count b + 1\<rparr>
             in (\<lparr>fw_allowed = True, fw_retryAfterMs = 0,
                  fw_remaining = max 0 (CONTROL_PLANE_MAX - fw_count b')\<rparr>, key,
                 AList.update key b' s)))"


subsection \<open>The limiter as a state machine\<close>

datatype rl_op =
    CheckOp "string option" "string option"
  | FailOp "string option" "string option"
  | ResetKeyOp "string option" "string option"
  | PruneOp

fun rl_exec :: "rl_config \<Rightarrow> int \<times> rl_op \<Rightarrow> rl_state \<Rightarrow> rl_state" where
  "rl_exec cfg (now, CheckOp ip sc) s = snd (rl_check cfg now ip sc s)"
| "rl_exec cfg (now, FailOp ip sc) s = recordFailure cfg now ip sc s"
| "rl_exec cfg (now, ResetKeyOp ip sc) s = rl_reset ip sc s"
| "rl_exec cfg (now, PruneOp) s = prune cfg now s"

definition rl_run :: "rl_config \<Rightarrow> (int \<times> rl_op) list \<Rightarrow> rl_state \<Rightarrow> rl_state" where
  "rl_run cfg xs s = fold (rl_exec cfg) xs s"

subsection \<open>Effects on one key\<close>

lemmas entry_defs = slideWindow_def lockSet_def lockedAt_def

lemma lockedAt_Some: "lockedAt e now \<Longrightarrow> \<exists>u. lockedUntil e = Some u \<and> u \<noteq> 0 \<and> now < u"
  by (auto simp: lockedAt_def split: option.splits)

lemma map_of_check_other:
  "k \<noteq> fst (resolveKey ip sc) \<Longrightarrow> map_of (snd (rl_check cfg now ip sc s)) k = map_of s k"
  by (auto simp: rl_check_def Let_def split: prod.splits option.splits)

lemma map_of_fail_other:
  "k \<noteq> fst (resolveKey ip sc) \<Longrightarrow> map_of (recordFailure cfg now ip sc s) k = map_of s k"
  by (auto simp: recordFailure_def Let_def split: prod.splits option.splits)

lemma map_of_reset: "map_of (rl_reset ip sc s) k = (if k = fst (resolveKey ip sc) then None else map_of s k)"
  by (simp add: rl_reset_def)

lemma keys_prune_subset: "set (keys (prune cfg now s)) \<subseteq> set (keys s)"
  by (force simp: prune_def Let_def split: if_splits)

lemma prune_Cons:
  "prune cfg now ((key, e) # s) = (if lockedAt e now then [(key, e)]
      else (let e1 = slideWindow cfg e now in if attempts e1 = [] then [] else [(key, e1)])) @ prune cfg now s"
  by (simp add: prune_def)

lemma map_of_prune:
  "distinct (keys s) \<Longrightarrow> map_of (prune cfg now s) k =
     (case map_of s k of None \<Rightarrow> None
      | Some e \<Rightarrow> if lockedAt e now then Some e
          else if attempts (slideWindow cfg e now) = [] then None else Some (slideWindow cfg e now))"
proof (induction s)
  case Nil
  then show ?case by (simp add: prune_def)
next
  case (Cons p s)
  obtain key e where p: "p = (key, e)" by fastforce
  have "map_of (prune cfg now s) key = None"
    using Cons.prems keys_prune_subset [of cfg now s] by (auto simp: p map_of_eq_None_iff image_iff)
  then show ?case using Cons by (auto simp: p Let_def prune_Cons)
qed

lemma distinct_prune: "distinct (keys s) \<Longrightarrow> distinct (keys (prune cfg now s))"
proof (induction s)
  case (Cons p s)
  then have "fst p \<notin> set (keys (prune cfg now s))"
    using keys_prune_subset [of cfg now s] by auto
  then show ?case using Cons by (cases p) (auto simp: prune_Cons Let_def)
qed (simp add: prune_def)

lemma distinct_rl_exec: "distinct (keys s) \<Longrightarrow> distinct (keys (rl_exec cfg x s))"
  by (cases "(cfg, x, s)" rule: rl_exec.cases)
    (auto simp: rl_check_def recordFailure_def rl_reset_def distinct_prune Let_def distinct_update
      distinct_delete split: prod.splits option.splits)

text \<open>A locked entry is left alone by every operation before its expiry but its own reset.\<close>

lemma rl_exec_locked:
  assumes "distinct (keys s)" "map_of s k = Some e" "lockedAt e (fst x)"
    and "\<And>ip sc. snd x = ResetKeyOp ip sc \<Longrightarrow> fst (resolveKey ip sc) \<noteq> k"
  shows "map_of (rl_exec cfg x s) k = Some e"
proof (cases "(cfg, x, s)" rule: rl_exec.cases)
  case (1 cfg' now ip sc s')
  with assms show ?thesis
  proof (cases "k = fst (resolveKey ip sc)")
    case True
    with 1 assms show ?thesis by (auto simp: rl_check_def Let_def split: prod.splits)
  qed (simp add: map_of_check_other)
next
  case (2 cfg' now ip sc s')
  with assms show ?thesis
  proof (cases "k = fst (resolveKey ip sc)")
    case True
    with 2 assms show ?thesis by (auto simp: recordFailure_def Let_def split: prod.splits)
  qed (simp add: map_of_fail_other)
next
  case (3 cfg' now ip sc s')
  with assms show ?thesis by (auto simp: map_of_reset)
next
  case (4 cfg' now s')
  with assms show ?thesis by (simp add: map_of_prune)
qed

lemma rl_run_locked:
  assumes "distinct (keys s)" "map_of s k = Some e" "\<forall>x \<in> set xs. lockedAt e (fst x)"
    and "\<forall>x \<in> set xs. \<forall>ip sc. snd x = ResetKeyOp ip sc \<longrightarrow> fst (resolveKey ip sc) \<noteq> k"
  shows "map_of (rl_run cfg xs s) k = Some e"
  using assms
proof (induction xs arbitrary: s)
  case (Cons x xs)
  have "map_of (rl_exec cfg x s) k = Some e"
    using Cons.prems by (intro rl_exec_locked) auto
  then have "map_of (rl_run cfg xs (rl_exec cfg x s)) k = Some e"
    using Cons.prems distinct_rl_exec by (intro Cons.IH) auto
  then show ?case by (simp add: rl_run_def)
qed (simp add: rl_run_def)

lemma scope_key_split:
  "CHR '':'' \<notin> set a \<Longrightarrow> CHR '':'' \<notin> set c \<Longrightarrow> a @ '':'' @ b = c @ '':'' @ d \<Longrightarrow> a = c \<and> b = d"
proof (induction a arbitrary: c)
  case Nil
  then show ?case by (cases c) auto
next
  case (Cons x a)
  then show ?case by (cases c) auto
qed

subsection \<open>Properties of the authentication limiter\<close>

text \<open>Counters of different callers are separate: for scopes without a colon (all scopes the
  gateway uses) two requests share a limiter entry only if both their normalised scope and their
  normalised address agree.\<close>

theorem resolveKey_injective:
  assumes "CHR '':'' \<notin> set (normalizeScope sc1)" "CHR '':'' \<notin> set (normalizeScope sc2)"
    and "fst (resolveKey ip1 sc1) = fst (resolveKey ip2 sc2)"
  shows "normalizeScope sc1 = normalizeScope sc2 \<and> normalizeIpKey ip1 = normalizeIpKey ip2"
  using scope_key_split [OF assms(1,2)] assms(3) by (simp add: resolveKey_def Let_def)

theorem resolveKey_injective_witness:
  "normalizeScope None = normalizeScope (Some '' default'') \<and> normalizeIpKey (Some ''::1'') = normalizeIpKey (Some '' ::1'')"
  by (rule resolveKey_injective) code_simp+

text \<open>(C23) A lockout holds: once an entry is locked until \<open>u\<close>, whatever checks, failures, prunes and
  resets of other keys happen before \<open>u\<close>, the caller is refused at every instant before \<open>u\<close> and is
  told to wait exactly until \<open>u\<close>.\<close>

theorem lockout_holds:
  assumes "distinct (keys s)" and "map_of s (fst (resolveKey ip sc)) = Some e" and "lockedUntil e = Some u" "u \<noteq> 0"
    and "\<not> isExempt cfg (snd (resolveKey ip sc))"
    and "\<forall>x \<in> set xs. fst x < u"
    and "\<forall>x \<in> set xs. \<forall>ip' sc'. snd x = ResetKeyOp ip' sc' \<longrightarrow> fst (resolveKey ip' sc') \<noteq> fst (resolveKey ip sc)"
    and "now < u"
  shows "fst (rl_check cfg now ip sc (rl_run cfg xs s)) =
    \<lparr>rl_allowed = False, remaining = 0, retryAfterMs = u - now\<rparr>"
proof -
  have "map_of (rl_run cfg xs s) (fst (resolveKey ip sc)) = Some e"
    by (rule rl_run_locked) (use assms in \<open>auto simp: lockedAt_def\<close>)
  with assms show ?thesis
    by (auto simp: rl_check_def Let_def lockedAt_def split: prod.splits)
qed

definition demo_rl :: rl_config where
  "demo_rl = resolveRateLimitConfig (Some 2) None None None"

theorem lockout_holds_witness:
  "fst (rl_check demo_rl 5000 (Some ''10.0.0.9'') None
     (rl_run demo_rl [(2000, FailOp (Some ''10.0.0.9'') None), (3000, PruneOp),
        (4000, ResetKeyOp (Some ''10.0.0.8'') None)]
       (recordFailure demo_rl 1000 (Some ''10.0.0.9'') None
         (recordFailure demo_rl 0 (Some ''10.0.0.9'') None []))))
   = \<lparr>rl_allowed = False, remaining = 0, retryAfterMs = 301000 - 5000\<rparr>"
proof (rule lockout_holds)
  let ?s = "recordFailure demo_rl 1000 (Some ''10.0.0.9'') None
         (recordFailure demo_rl 0 (Some ''10.0.0.9'') None [])"
  show "distinct (keys ?s)" by code_simp
  show "map_of ?s (fst (resolveKey (Some ''10.0.0.9'') None)) =
      Some \<lparr>attempts = [0, 1000], lockedUntil = Some 301000\<rparr>" by code_simp
  show "\<not> isExempt demo_rl (snd (resolveKey (Some ''10.0.0.9'') None))" by code_simp
  have "fst (resolveKey (Some ''10.0.0.8'') None) \<noteq> fst (resolveKey (Some ''10.0.0.9'') None)" by code_simp
  then show "\<forall>x \<in> set [(2000, FailOp (Some ''10.0.0.9'') None), (3000, PruneOp),
        (4000, ResetKeyOp (Some ''10.0.0.8'') None)]. \<forall>ip' sc'. snd x = ResetKeyOp ip' sc' \<longrightarrow>
        fst (resolveKey ip' sc') \<noteq> fst (resolveKey (Some ''10.0.0.9'') None)" by auto
qed simp_all

text \<open>Pruning is invisible: for a positive attempt limit, a check at any later time gives the
  same answer whether or not the periodic cleanup ran before it.\<close>

theorem prune_transparent:
  assumes "distinct (keys s)" and "0 < maxAttempts cfg" and "now \<le> now'"
  shows "fst (rl_check cfg now' ip sc (prune cfg now s)) = fst (rl_check cfg now' ip sc s)"
proof -
  obtain key a where k: "resolveKey ip sc = (key, a)" by fastforce
  have sub: "filter (\<lambda>ts. now' - windowMs cfg < ts) (filter (\<lambda>ts. now - windowMs cfg < ts) xs)
      = filter (\<lambda>ts. now' - windowMs cfg < ts) xs" for xs
    using assms(3) by (auto intro!: filter_cong)
  have none: "filter (\<lambda>ts. now' - windowMs cfg < ts) xs = []"
    if "filter (\<lambda>ts. now - windowMs cfg < ts) xs = []" for xs
    using sub [of xs] that by simp
  show ?thesis
  proof (cases "map_of s key")
    case None
    then show ?thesis using assms(1) by (simp add: rl_check_def k map_of_prune)
  next
    case (Some e)
    show ?thesis
    proof (cases "lockedAt e now")
      case True
      with Some assms(1) show ?thesis by (simp add: rl_check_def k map_of_prune Let_def)
    next
      case False
      then have "\<not> lockedAt e now'" using assms(3) by (auto simp: lockedAt_def split: option.splits)
      moreover have "lockedAt (slideWindow cfg e now) t = lockedAt e t"
        "lockSet (slideWindow cfg e now) = lockSet e" for t by (simp_all add: entry_defs)
      ultimately show ?thesis
        using Some False assms(1,2) none [of "attempts e"] sub [of "attempts e"]
        by (auto simp: rl_check_def k map_of_prune Let_def slideWindow_def)
    qed
  qed
qed

theorem prune_transparent_witness:
  "fst (rl_check demo_rl 62000 (Some ''10.0.0.9'') None (prune demo_rl 61000
      (recordFailure demo_rl 500 (Some ''10.0.0.9'') None [])))
   = fst (rl_check demo_rl 62000 (Some ''10.0.0.9'') None
      (recordFailure demo_rl 500 (Some ''10.0.0.9'') None []))"
  by (rule prune_transparent) code_simp+


subsection \<open>The fixed-window contract\<close>

text \<open>The number of requests granted when a limiter is asked at the given times.\<close>

fun grants :: "(int \<Rightarrow> 's \<Rightarrow> bool \<times> 's) \<Rightarrow> int list \<Rightarrow> 's \<Rightarrow> nat" where
  "grants consume [] s = 0"
| "grants consume (t # ts) s =
     (let (ok, s') = consume t s in (if ok then 1 else 0) + grants consume ts s')"

text \<open>Both counters open a window at the first request after the old one has run out, count up to
  the limit inside it and refuse the rest. \<open>window s\<close> is the start and the count of the current
  window, if any. The lemmas bound the grants of any schedule of requests.\<close>

locale window_counter =
  fixes consume :: "int \<Rightarrow> 's \<Rightarrow> bool \<times> 's"
    and window :: "'s \<Rightarrow> (int \<times> int) option"
    and mx :: int and win :: int
  assumes mx_pos: "1 \<le> mx" and win_pos: "1 \<le> win"
    and opens: "(\<And>st c. window s = Some (st, c) \<Longrightarrow> win \<le> now - st) \<Longrightarrow>
      fst (consume now s) \<and> window (snd (consume now s)) = Some (now, 1)"
    and counts: "window s = Some (st, c) \<Longrightarrow> now - st < win \<Longrightarrow> c < mx \<Longrightarrow>
      fst (consume now s) \<and> window (snd (consume now s)) = Some (st, c + 1)"
    and refuses: "window s = Some (st, c) \<Longrightarrow> now - st < win \<Longrightarrow> mx \<le> c \<Longrightarrow>
      \<not> fst (consume now s) \<and> window (snd (consume now s)) = window s"
begin

lemma grants_Cons:
  "grants consume (t # ts) s =
     (if fst (consume t s) then 1 else 0) + grants consume ts (snd (consume t s))"
  by (simp add: case_prod_beta)

text \<open>Inside one window exactly the remaining budget is granted.\<close>

lemma grants_in_window:
  assumes "window s = Some (st, c)" "c \<le> mx" "\<forall>t \<in> set ts. t < st + win"
  shows "int (grants consume ts s) = min (int (length ts)) (mx - c)"
  using assms
proof (induction ts arbitrary: s c)
  case (Cons t ts)
  have t: "t - st < win" using Cons.prems(3) by auto
  show ?case
  proof (cases "c < mx")
    case True
    have "int (grants consume ts (snd (consume t s))) = min (int (length ts)) (mx - (c + 1))"
      using counts [OF Cons.prems(1) t True] Cons.prems True by (intro Cons.IH) auto
    with counts [OF Cons.prems(1) t True] True show ?thesis
      unfolding grants_Cons by (auto simp: min_def)
  next
    case False
    have "int (grants consume ts (snd (consume t s))) = min (int (length ts)) (mx - c)"
      using refuses [OF Cons.prems(1) t] False Cons.prems by (intro Cons.IH) auto
    with refuses [OF Cons.prems(1) t] False Cons.prems(2) show ?thesis
      unfolding grants_Cons by auto
  qed
qed simp

lemma grants_new_window:
  assumes "\<And>st c. window s = Some (st, c) \<Longrightarrow> win \<le> t - st" "\<forall>u \<in> set ts. u < t + win"
  shows "int (grants consume (t # ts) s) = min (int (length (t # ts))) mx"
proof -
  have o: "fst (consume t s) \<and> window (snd (consume t s)) = Some (t, 1)"
    using assms(1) by (rule opens)
  then have "int (grants consume ts (snd (consume t s))) = min (int (length ts)) (mx - 1)"
    using grants_in_window [of "snd (consume t s)" t 1 ts] assms(2) mx_pos by simp
  with o show ?thesis unfolding grants_Cons by (auto simp: min_def)
qed

text \<open>Any interval shorter than a window sees at most two windows.\<close>

lemma grants_any_interval:
  assumes "\<And>st c. window s = Some (st, c) \<Longrightarrow> 0 \<le> c \<and> c \<le> mx"
    "sorted ts" "\<forall>u \<in> set ts. a \<le> u \<and> u < a + win"
  shows "int (grants consume ts s) \<le> 2 * mx"
proof (cases "window s")
  case None
  then show ?thesis
  proof (cases ts)
    case (Cons t us)
    have "int (grants consume ts s) \<le> mx"
      using grants_new_window [of s t us] None Cons assms(2,3) by fastforce
    then show ?thesis using mx_pos by simp
  qed (use mx_pos in simp)
next
  case (Some p)
  obtain st c where p: "window s = Some (st, c)" using Some by (cases p) auto
  have c: "0 \<le> c" "c \<le> mx" using assms(1) p by auto
  have split: "int (grants consume ts s) \<le> (mx - c) + mx" using p c(2) assms(2,3)
  proof (induction ts arbitrary: s c)
    case Nil
    then show ?case using mx_pos by simp
  next
    case (Cons t ts)
    show ?case
    proof (cases "t - st < win")
      case True
      show ?thesis
      proof (cases "c < mx")
        case lt: True
        have "int (grants consume ts (snd (consume t s))) \<le> (mx - (c + 1)) + mx"
          using counts [OF Cons.prems(1) True lt] Cons.prems lt by (intro Cons.IH) auto
        with counts [OF Cons.prems(1) True lt] show ?thesis unfolding grants_Cons by simp
      next
        case ge: False
        have "int (grants consume ts (snd (consume t s))) \<le> (mx - c) + mx"
          using refuses [OF Cons.prems(1) True] ge Cons.prems by (intro Cons.IH) auto
        with refuses [OF Cons.prems(1) True] ge show ?thesis unfolding grants_Cons by simp
      qed
    next
      case False
      have "\<forall>u \<in> set ts. u < t + win" using Cons.prems(4) by fastforce
      then have "int (grants consume (t # ts) s) \<le> mx"
        using grants_new_window [of s t ts] Cons.prems(1) False by auto
      then show ?thesis using Cons.prems(2) by simp
    qed
  qed
  then show ?thesis using c by simp
qed

lemma retry_granted: "window s = Some (st, c) \<Longrightarrow> fst (consume (st + win) s)"
  using opens [of s "st + win"] by simp

end

subsection \<open>Both counters meet the contract\<close>

definition fw_allow :: "rat \<Rightarrow> rat \<Rightarrow> int \<Rightarrow> fw_state \<Rightarrow> bool \<times> fw_state" where
  "fw_allow m w now s = (let (r, s') = fw_consume m w now s in (fw_allowed r, s'))"

definition fw_window :: "fw_state \<Rightarrow> (int \<times> int) option" where
  "fw_window s = Some (fw_windowStartMs s, fw_count s)"

interpretation fw: window_counter "fw_allow m w" fw_window "max 1 \<lfloor>m\<rfloor>" "max 1 \<lfloor>w\<rfloor>" for m w :: rat
  by unfold_locales (auto simp: fw_allow_def fw_consume_def fw_window_def Let_def)

definition cp_allow :: "gw_client option \<Rightarrow> int \<Rightarrow> cp_state \<Rightarrow> bool \<times> cp_state" where
  "cp_allow client now s =
     (let (r, key, s') = consumeControlPlaneWriteBudget now client s in (fw_allowed r, s'))"

definition cp_window :: "gw_client option \<Rightarrow> cp_state \<Rightarrow> (int \<times> int) option" where
  "cp_window client s =
     map_option (\<lambda>b. (fw_windowStartMs b, fw_count b)) (map_of s (resolveControlPlaneRateLimitKey client))"

interpretation cp: window_counter "cp_allow client" "cp_window client" CONTROL_PLANE_MAX CONTROL_PLANE_WINDOW
  for client
proof unfold_locales
  show "1 \<le> CONTROL_PLANE_MAX" "1 \<le> CONTROL_PLANE_WINDOW"
    by (simp_all add: CONTROL_PLANE_MAX_def CONTROL_PLANE_WINDOW_def)
qed (auto simp: cp_allow_def cp_window_def consumeControlPlaneWriteBudget_def Let_def split: option.splits)

text \<open>The control-plane budget: starting from no bucket for the client, requests within one
  window of the first are granted until three have been and refused after that.\<close>

theorem control_plane_budget:
  assumes "map_of s (resolveControlPlaneRateLimitKey client) = None" and "\<forall>u \<in> set ts. u < t + 60000"
  shows "grants (cp_allow client) (t # ts) s = min (length (t # ts)) 3"
proof -
  have "int (grants (cp_allow client) (t # ts) s) = min (int (length (t # ts))) CONTROL_PLANE_MAX"
    by (rule cp.grants_new_window)
      (use assms in \<open>simp_all add: cp_window_def CONTROL_PLANE_WINDOW_def\<close>)
  then show ?thesis by (simp add: CONTROL_PLANE_MAX_def del: grants.simps)
qed

theorem control_plane_budget_witness:
  "grants (cp_allow (Some \<lparr>gc_deviceId = Some ''d1'', gc_clientIp = None\<rparr>)) [5, 6, 7, 8, 59000] [] = 3"
  using control_plane_budget [of "[]" "Some \<lparr>gc_deviceId = Some ''d1'', gc_clientIp = None\<rparr>" "[6, 7, 8, 59000]" 5]
  by (simp del: grants.simps)

text \<open>The fixed-window limiter grants at most twice its limit in any interval shorter than its
  window, whatever the request times and wherever the windows fall, and a refused caller that waits
  as long as it is told to is granted.\<close>

theorem fixed_window_bound:
  assumes "0 \<le> fw_count s" "fw_count s \<le> max 1 \<lfloor>m\<rfloor>"
    and "sorted ts" and "\<forall>u \<in> set ts. a \<le> u \<and> u < a + max 1 \<lfloor>w\<rfloor>"
  shows "int (grants (fw_allow m w) ts s) \<le> 2 * max 1 \<lfloor>m\<rfloor>
    \<and> (fst (fw_consume m w now s) = \<lparr>fw_allowed = False, fw_retryAfterMs = r, fw_remaining = 0\<rparr> \<longrightarrow>
        fst (fw_allow m w (now + r) s))"
proof
  show "int (grants (fw_allow m w) ts s) \<le> 2 * max 1 \<lfloor>m\<rfloor>"
    by (rule fw.grants_any_interval [OF _ assms(3,4)]) (use assms(1,2) in \<open>simp add: fw_window_def\<close>)
  show "fst (fw_consume m w now s) = \<lparr>fw_allowed = False, fw_retryAfterMs = r, fw_remaining = 0\<rparr> \<longrightarrow>
        fst (fw_allow m w (now + r) s)"
    using fw.retry_granted [of s "fw_windowStartMs s" "fw_count s" m w]
    by (auto simp: fw_window_def fw_consume_def Let_def split: if_splits)
qed

theorem fixed_window_bound_witness:
  "int (grants (fw_allow 2 10) [3, 4, 10, 11, 12] fw_init) \<le> 2 * max 1 \<lfloor>2::rat\<rfloor>
   \<and> (fst (fw_consume 2 10 5 \<lparr>fw_count = 2, fw_windowStartMs = 0\<rparr>) =
        \<lparr>fw_allowed = False, fw_retryAfterMs = 5, fw_remaining = 0\<rparr>
      \<and> fst (fw_allow 2 10 10 \<lparr>fw_count = 2, fw_windowStartMs = 0\<rparr>))"
proof
  show "int (grants (fw_allow 2 10) [3, 4, 10, 11, 12] fw_init) \<le> 2 * max 1 \<lfloor>2::rat\<rfloor>"
    using fixed_window_bound [of fw_init 2 "[3, 4, 10, 11, 12]" 3 10 0 0]
    by (simp add: fw_init_def del: grants.simps)
  have "fst (fw_consume 2 10 5 \<lparr>fw_count = 2, fw_windowStartMs = 0\<rparr>) =
        \<lparr>fw_allowed = False, fw_retryAfterMs = 5, fw_remaining = 0\<rparr>"
    by (simp add: fw_consume_def Let_def)
  then show "fst (fw_consume 2 10 5 \<lparr>fw_count = 2, fw_windowStartMs = 0\<rparr>) =
        \<lparr>fw_allowed = False, fw_retryAfterMs = 5, fw_remaining = 0\<rparr>
      \<and> fst (fw_allow 2 10 10 \<lparr>fw_count = 2, fw_windowStartMs = 0\<rparr>)"
    using fixed_window_bound [of "\<lparr>fw_count = 2, fw_windowStartMs = 0\<rparr>" 2 "[]" 0 10 5 5] by simp
qed

end
