(* ===== verification/Shell_Args.thy ===== *)
theory Shell_Args
  imports Prelude_JS
begin

section \<open>Shell words: splitting and quoting\<close>

text \<open>
  \<open>splitShellArgs\<close> (\<open>utils/shell-argv.ts\<close>) turns one pipeline segment into an argument vector and
  is the parser every execution decision rests on; \<open>shellEscapeSingleArg\<close> and \<open>renderQuotedArgv\<close>
  (\<open>infra/exec-approvals-analysis.ts\<close>) print an argument vector back. The loop over the input is a
  recursion on the remaining characters, with the loop's five variables as a record. The property
  of this theory is the round trip between the two.
\<close>

definition DOUBLE_QUOTE_ESCAPES :: "char list" where
  "DOUBLE_QUOTE_ESCAPES = [BSL, DQ, CHR ''$'', BTICK, NL, CR]"

definition isDoubleQuoteEscape :: "char option \<Rightarrow> bool" where
  "isDoubleQuoteEscape next = (case next of None \<Rightarrow> False | Some c \<Rightarrow> c \<in> set DOUBLE_QUOTE_ESCAPES)"

record sa_state =
  sa_tokens :: "string list"
  sa_buf :: string
  sa_inSingle :: bool
  sa_inDouble :: bool
  sa_escaped :: bool

definition sa_init :: sa_state where
  "sa_init = \<lparr>sa_tokens = [], sa_buf = [], sa_inSingle = False, sa_inDouble = False, sa_escaped = False\<rparr>"

definition sa_pushToken :: "sa_state \<Rightarrow> sa_state" where
  "sa_pushToken st = (if sa_buf st \<noteq> [] then st\<lparr>sa_tokens := sa_tokens st @ [sa_buf st], sa_buf := []\<rparr> else st)"

definition sa_add :: "char \<Rightarrow> sa_state \<Rightarrow> sa_state" where
  "sa_add c st = st\<lparr>sa_buf := sa_buf st @ [c]\<rparr>"

definition peek :: "string \<Rightarrow> char option" where
  "peek s = (case s of [] \<Rightarrow> None | c # _ \<Rightarrow> Some c)"

function (sequential) sa_loop :: "string \<Rightarrow> sa_state \<Rightarrow> sa_state" where
  "sa_loop [] st = st"
| "sa_loop (ch # rest) st =
    (if sa_escaped st then sa_loop rest ((sa_add ch st)\<lparr>sa_escaped := False\<rparr>)
     else if \<not> sa_inSingle st \<and> \<not> sa_inDouble st \<and> ch = BSL then sa_loop rest (st\<lparr>sa_escaped := True\<rparr>)
     else if sa_inSingle st then
       (if ch = SQ then sa_loop rest (st\<lparr>sa_inSingle := False\<rparr>) else sa_loop rest (sa_add ch st))
     else if sa_inDouble st then
       (if ch = BSL \<and> isDoubleQuoteEscape (peek rest) then sa_loop (tl rest) (sa_add (hd rest) st)
        else if ch = DQ then sa_loop rest (st\<lparr>sa_inDouble := False\<rparr>)
        else sa_loop rest (sa_add ch st))
     else if ch = SQ then sa_loop rest (st\<lparr>sa_inSingle := True\<rparr>)
     else if ch = DQ then sa_loop rest (st\<lparr>sa_inDouble := True\<rparr>)
     else if is_ws ch then sa_loop rest (sa_pushToken st)
     else sa_loop rest (sa_add ch st))"
  by pat_completeness auto
termination by (relation "measure (\<lambda>(s, _). length s)") auto

definition splitShellArgs :: "string \<Rightarrow> string list option" where
  "splitShellArgs raw = (let st = sa_loop raw sa_init in
     if sa_escaped st \<or> sa_inSingle st \<or> sa_inDouble st then None
     else Some (sa_tokens (sa_pushToken st)))"

text \<open>\<open>value.replace(/'/g, singleQuoteEscape)\<close> inside single quotes.\<close>

definition singleQuoteEscape :: string where
  "singleQuoteEscape = [SQ, DQ, SQ, DQ, SQ]"

definition replaceQuotes :: "string \<Rightarrow> string" where
  "replaceQuotes v = concat (map (\<lambda>c. if c = SQ then singleQuoteEscape else [c]) v)"

definition shellEscapeSingleArg :: "string \<Rightarrow> string" where
  "shellEscapeSingleArg v = [SQ] @ replaceQuotes v @ [SQ]"

definition renderQuotedArgv :: "string list \<Rightarrow> string" where
  "renderQuotedArgv argv = join '' '' (map shellEscapeSingleArg argv)"


subsection \<open>Quoting then splitting\<close>

lemmas sa_defs = sa_add_def sa_pushToken_def sa_init_def singleQuoteEscape_def

lemma ws_quote_chars [simp]:
  "is_ws SPACE" "\<not> is_ws SQ" "\<not> is_ws DQ" "\<not> is_ws BSL"
  by (simp_all add: is_ws_def)

lemma sa_loop_quoted_body:
  "sa_inSingle st \<Longrightarrow> \<not> sa_inDouble st \<Longrightarrow> \<not> sa_escaped st \<Longrightarrow>
   sa_loop (replaceQuotes v @ SQ # rest) st
     = sa_loop rest (st\<lparr>sa_buf := sa_buf st @ v, sa_inSingle := False\<rparr>)"
proof (induction v arbitrary: st)
  case Nil
  then show ?case by (simp add: replaceQuotes_def)
next
  case (Cons c v)
  have "sa_loop (replaceQuotes (c # v) @ SQ # rest) st = sa_loop (replaceQuotes v @ SQ # rest) (sa_add c st)"
    using Cons.prems
    by (cases st) (simp add: replaceQuotes_def singleQuoteEscape_def sa_add_def isDoubleQuoteEscape_def peek_def)
  with Cons.IH [of "sa_add c st"] Cons.prems show ?case by (simp add: sa_add_def)
qed

lemma sa_loop_quoted_arg:
  assumes "\<not> sa_inSingle st" "\<not> sa_inDouble st" "\<not> sa_escaped st"
  shows "sa_loop (shellEscapeSingleArg v @ rest) st = sa_loop rest (st\<lparr>sa_buf := sa_buf st @ v\<rparr>)"
  using assms by (cases st) (simp add: shellEscapeSingleArg_def sa_loop_quoted_body)

definition sa_idle :: "string list \<Rightarrow> sa_state" where
  "sa_idle ts = sa_init\<lparr>sa_tokens := ts\<rparr>"

lemma sa_loop_rendered:
  "sa_pushToken (sa_loop (renderQuotedArgv argv) (sa_idle ts)) = sa_idle (ts @ filter (\<lambda>t. t \<noteq> []) argv)"
proof (induction argv arbitrary: ts rule: induct_list012)
  case 1
  then show ?case by (simp add: renderQuotedArgv_def sa_idle_def sa_defs)
next
  case (2 x)
  then show ?case
    using sa_loop_quoted_arg [of "sa_idle ts" x "[]"]
    by (simp add: renderQuotedArgv_def sa_idle_def sa_defs)
next
  case (3 x y zs)
  have "sa_loop (renderQuotedArgv (x # y # zs)) (sa_idle ts) = sa_loop (renderQuotedArgv (y # zs))
     (sa_idle (ts @ filter (\<lambda>t. t \<noteq> []) [x]))"
    by (simp add: renderQuotedArgv_def sa_loop_quoted_arg sa_idle_def sa_defs)
  with "3.IH"(2) [of "ts @ filter (\<lambda>t. t \<noteq> []) [x]"] show ?case by simp
qed

lemma pushToken_modes [simp]:
  "sa_escaped (sa_pushToken st) = sa_escaped st" "sa_inSingle (sa_pushToken st) = sa_inSingle st"
  "sa_inDouble (sa_pushToken st) = sa_inDouble st"
  by (simp_all add: sa_pushToken_def)

lemma splitShellArgs_quoted:
  "splitShellArgs (renderQuotedArgv argv) = Some (filter (\<lambda>t. t \<noteq> []) argv)"
proof -
  let ?st = "sa_loop (renderQuotedArgv argv) sa_init"
  have p: "sa_pushToken ?st = sa_idle (filter (\<lambda>t. t \<noteq> []) argv)"
    using sa_loop_rendered [of argv "[]"] by (simp add: sa_idle_def sa_init_def)
  have "sa_escaped ?st = False" "sa_inSingle ?st = False" "sa_inDouble ?st = False"
    using arg_cong [OF p, of sa_escaped] arg_cong [OF p, of sa_inSingle] arg_cong [OF p, of sa_inDouble]
    by (simp_all add: sa_idle_def sa_init_def)
  with p show ?thesis by (simp add: splitShellArgs_def Let_def sa_idle_def sa_init_def)
qed

text \<open>Quoting is exact: splitting a rendered argument vector gives back every argument,
  byte for byte, whatever quotes, spaces, backslashes or substitutions it contains; only empty
  arguments are lost, since the splitter drops empty tokens.\<close>

theorem splitShellArgs_renderQuotedArgv:
  "splitShellArgs (renderQuotedArgv argv) = Some (filter (\<lambda>t. t \<noteq> []) argv)"
  by (rule splitShellArgs_quoted)

lemma splitShellArgs_nonempty_tokens:
  assumes "splitShellArgs raw = Some ts" shows "[] \<notin> set ts"
proof -
  have "[] \<notin> set (sa_tokens st) \<Longrightarrow> [] \<notin> set (sa_tokens (sa_loop s st))" for s st
    by (induction s st rule: sa_loop.induct) (auto simp: sa_add_def sa_pushToken_def Let_def)
  from this [of sa_init raw] assms show ?thesis
    by (auto simp: splitShellArgs_def Let_def sa_init_def sa_pushToken_def split: if_splits)
qed

end
