(* ===== verification/Shell_Pipeline.thy ===== *)
theory Shell_Pipeline
  imports Shell_Args
begin

section \<open>Splitting a shell command into chains and pipelines\<close>

text \<open>
  The two scanners of \<open>infra/exec-approvals-analysis.ts\<close>: \<open>splitShellPipeline\<close> (quotes, escapes,
  here-documents, pipes, and the tokens it refuses) and \<open>splitCommandChainWithOperators\<close> (\<open>&&\<close>,
  \<open>||\<close> and \<open>;\<close>). Each loop over an index is a recursion on the text that is left; the loop body is
  a step function that returns the error of an early \<open>return\<close> or the new loop variables with the
  text left after it, so that look-ahead (\<open>i += 1\<close>) is a shorter rest.
\<close>

subsection \<open>Here-document delimiters\<close>

record heredoc_spec =
  hd_delimiter :: string
  hd_stripTabs :: bool

text \<open>The quoted form: the delimiter, the consumed text and the rest, or \<open>null\<close>.\<close>

fun heredoc_quoted :: "char \<Rightarrow> string \<Rightarrow> string \<Rightarrow> string \<Rightarrow> (string \<times> string \<times> string) option" where
  "heredoc_quoted q [] d used = None"
| "heredoc_quoted q [ch] d used =
     (if ch = NL \<or> ch = CR then None else if ch = q then Some (d, used @ [ch], []) else None)"
| "heredoc_quoted q (ch # c # r) d used =
     (if ch = NL \<or> ch = CR then None
      else if q = DQ \<and> ch = BSL then heredoc_quoted q r (d @ [c]) (used @ [ch, c])
      else if ch = q then Some (d, used @ [ch], c # r)
      else heredoc_quoted q (c # r) (d @ [ch]) (used @ [ch]))"

definition heredocStop :: "char \<Rightarrow> bool" where
  "heredocStop ch \<longleftrightarrow> is_ws ch \<or> ch = CHR ''|'' \<or> ch = CHR ''&'' \<or> ch = CHR '';'' \<or> ch = CHR ''<'' \<or> ch = CHR ''>''"

definition parseHeredocDelimiter :: "string \<Rightarrow> (string \<times> string \<times> string) option" where
  "parseHeredocDelimiter source =
     (let blank = (\<lambda>c. c = SPACE \<or> c = TAB); pre = takeWhile blank source; s = dropWhile blank source in
      case s of [] \<Rightarrow> None
      | first # r \<Rightarrow>
          if first = SQ \<or> first = DQ then heredoc_quoted first r [] (pre @ [first])
          else let d = takeWhile (\<lambda>c. \<not> heredocStop c) s in
            if d = [] then None else Some (d, pre @ d, dropWhile (\<lambda>c. \<not> heredocStop c) s))"

subsection \<open>Pipelines\<close>

record sp_state =
  sp_segments :: "string list"
  sp_buf :: string
  sp_inSingle :: bool
  sp_inDouble :: bool
  sp_escaped :: bool
  sp_emptySegment :: bool
  sp_pendingHeredocs :: "heredoc_spec list"
  sp_inHeredocBody :: bool
  sp_heredocLine :: string

definition sp_init :: sp_state where
  "sp_init = \<lparr>sp_segments = [], sp_buf = [], sp_inSingle = False, sp_inDouble = False,
     sp_escaped = False, sp_emptySegment = False, sp_pendingHeredocs = [],
     sp_inHeredocBody = False, sp_heredocLine = []\<rparr>"

type_synonym sp_result = "string + sp_state \<times> string"

definition DISALLOWED_PIPELINE_TOKENS :: "char list" where
  "DISALLOWED_PIPELINE_TOKENS = [CHR ''>'', CHR ''<'', BTICK, NL, CR, CHR ''('', CHR '')'']"

definition sp_pushPart :: "sp_state \<Rightarrow> sp_state" where
  "sp_pushPart st = (let trimmed = trim (sp_buf st) in
     (if trimmed \<noteq> [] then st\<lparr>sp_segments := sp_segments st @ [trimmed]\<rparr> else st)\<lparr>sp_buf := []\<rparr>)"

text \<open>\<open>buf += s; emptySegment = false\<close>.\<close>

definition sp_emit :: "string \<Rightarrow> sp_state \<Rightarrow> sp_state" where
  "sp_emit s st = st\<lparr>sp_buf := sp_buf st @ s, sp_emptySegment := False\<rparr>"

definition sp_closeHeredocLine :: "sp_state \<Rightarrow> sp_state" where
  "sp_closeHeredocLine st =
     (case sp_pendingHeredocs st of [] \<Rightarrow> st
      | current # others \<Rightarrow>
          let line = (if hd_stripTabs current then dropWhile (\<lambda>c. c = TAB) (sp_heredocLine st) else sp_heredocLine st) in
          if line = hd_delimiter current then st\<lparr>sp_pendingHeredocs := others\<rparr> else st)"

text \<open>\<open>if (ch === "\r" && next === "\n") i += 1\<close>.\<close>

definition skip_crlf :: "char \<Rightarrow> string \<Rightarrow> string" where
  "skip_crlf ch rest = (if ch = CR \<and> peek rest = Some NL then tl rest else rest)"

definition sp_heredocBody :: "char \<Rightarrow> string \<Rightarrow> sp_state \<Rightarrow> sp_state \<times> string" where
  "sp_heredocBody ch rest st =
     (if ch = NL \<or> ch = CR then
        let st1 = (sp_closeHeredocLine st)\<lparr>sp_heredocLine := []\<rparr>;
            st2 = (if sp_pendingHeredocs st1 = [] then st1\<lparr>sp_inHeredocBody := False\<rparr> else st1)
        in (st2, skip_crlf ch rest)
      else (st\<lparr>sp_heredocLine := sp_heredocLine st @ [ch]\<rparr>, rest))"

text \<open>Escapes and quotes; \<open>None\<close> when the character is plain and the operator branches decide.\<close>

definition sp_quoting :: "char \<Rightarrow> string \<Rightarrow> sp_state \<Rightarrow> sp_result option" where
  "sp_quoting ch rest st =
     (if sp_escaped st then Some (Inr ((sp_emit [ch] st)\<lparr>sp_escaped := False\<rparr>, rest))
      else if \<not> sp_inSingle st \<and> \<not> sp_inDouble st \<and> ch = BSL then
        Some (Inr ((sp_emit [ch] st)\<lparr>sp_escaped := True\<rparr>, rest))
      else if sp_inSingle st then
        Some (Inr (sp_emit [ch] (if ch = SQ then st\<lparr>sp_inSingle := False\<rparr> else st), rest))
      else if sp_inDouble st then
        (if ch = BSL \<and> isDoubleQuoteEscape (peek rest) then Some (Inr (sp_emit [ch, hd rest] st, tl rest))
         else if ch = CHR ''$'' \<and> peek rest = Some (CHR ''('') then Some (Inl ''unsupported shell token: $()'')
         else if ch = BTICK then Some (Inl (''unsupported shell token: '' @ [BTICK]))
         else if ch = NL \<or> ch = CR then Some (Inl ''unsupported shell token: newline'')
         else Some (Inr (sp_emit [ch] (if ch = DQ then st\<lparr>sp_inDouble := False\<rparr> else st), rest)))
      else if ch = SQ then Some (Inr (sp_emit [ch] (st\<lparr>sp_inSingle := True\<rparr>), rest))
      else if ch = DQ then Some (Inr (sp_emit [ch] (st\<lparr>sp_inDouble := True\<rparr>), rest))
      else None)"

text \<open>\<open><<\<close>: \<open>rest\<close> starts with the second \<open><\<close>. When no delimiter can be read the scan goes on right
  after \<open><<\<close>, so that the dash of \<open><<-\<close> is read again.\<close>

definition sp_heredocStart :: "string \<Rightarrow> sp_state \<Rightarrow> sp_state \<times> string" where
  "sp_heredocStart rest st =
     (let after = tl rest; strip = (peek after = Some (CHR ''-''));
          st1 = sp_emit (if strip then ''<<-'' else ''<<'') st;
          scan = (if strip then tl after else after) in
      case parseHeredocDelimiter scan of
        None \<Rightarrow> (st1, after)
      | Some (d, used, r) \<Rightarrow>
          (st1\<lparr>sp_pendingHeredocs := sp_pendingHeredocs st1 @ [\<lparr>hd_delimiter = d, hd_stripTabs = strip\<rparr>],
               sp_buf := sp_buf st1 @ used\<rparr>, r))"

definition sp_operator :: "char \<Rightarrow> string \<Rightarrow> sp_state \<Rightarrow> sp_result" where
  "sp_operator ch rest st =
     (if (ch = NL \<or> ch = CR) \<and> sp_pendingHeredocs st \<noteq> [] then
        Inr (st\<lparr>sp_inHeredocBody := True, sp_heredocLine := []\<rparr>, skip_crlf ch rest)
      else if ch = CHR ''|'' \<and> peek rest = Some (CHR ''|'') then Inl ''unsupported shell token: ||''
      else if ch = CHR ''|'' \<and> peek rest = Some (CHR ''&'') then Inl ''unsupported shell token: |&''
      else if ch = CHR ''|'' then Inr (sp_pushPart (st\<lparr>sp_emptySegment := True\<rparr>), rest)
      else if ch = CHR ''&'' \<or> ch = CHR '';'' then Inl (''unsupported shell token: '' @ [ch])
      else if ch = CHR ''<'' \<and> peek rest = Some (CHR ''<'') then Inr (sp_heredocStart rest st)
      else if ch \<in> set DISALLOWED_PIPELINE_TOKENS then Inl (''unsupported shell token: '' @ [ch])
      else if ch = CHR ''$'' \<and> peek rest = Some (CHR ''('') then Inl ''unsupported shell token: $()''
      else Inr (sp_emit [ch] st, rest))"

definition sp_step :: "char \<Rightarrow> string \<Rightarrow> sp_state \<Rightarrow> sp_result" where
  "sp_step ch rest st =
     (if sp_inHeredocBody st then Inr (sp_heredocBody ch rest st)
      else case sp_quoting ch rest st of Some r \<Rightarrow> r | None \<Rightarrow> sp_operator ch rest st)"

lemma heredoc_quoted_rest: "heredoc_quoted q s d u = Some (d', u', r) \<Longrightarrow> length r \<le> length s"
  by (induction q s d u rule: heredoc_quoted.induct) (auto split: if_splits)

lemma parseHeredocDelimiter_rest: "parseHeredocDelimiter s = Some (d, u, r) \<Longrightarrow> length r \<le> length s"
  using length_dropWhile_le [of "\<lambda>c. c = SPACE \<or> c = TAB" s]
    length_dropWhile_le [of "\<lambda>c. \<not> heredocStop c" "dropWhile (\<lambda>c. c = SPACE \<or> c = TAB) s"]
  by (auto simp: parseHeredocDelimiter_def Let_def split: list.splits if_splits dest: heredoc_quoted_rest)

lemma sp_step_rest: "sp_step ch rest st = Inr (st', r) \<Longrightarrow> length r \<le> length rest"
proof -
  have h: "length (snd (sp_heredocStart rest st)) \<le> length rest" for st
    by (auto simp: sp_heredocStart_def Let_def split: option.splits dest!: parseHeredocDelimiter_rest)
  show "sp_step ch rest st = Inr (st', r) \<Longrightarrow> length r \<le> length rest"
    using h [of st]
    by (auto simp: sp_step_def sp_quoting_def sp_operator_def sp_heredocBody_def skip_crlf_def Let_def
        split: if_splits)
qed

function (sequential) sp_loop :: "string \<Rightarrow> sp_state \<Rightarrow> string + sp_state" where
  "sp_loop [] st = Inr st"
| "sp_loop (ch # rest) st =
     (case sp_step ch rest st of Inl e \<Rightarrow> Inl e | Inr (st', r) \<Rightarrow> sp_loop r st')"
  by pat_completeness auto
termination
  by (relation "measure (\<lambda>(s, _). length s)") (auto dest: sp_step_rest)

definition sp_finish :: "sp_state \<Rightarrow> string + string list" where
  "sp_finish st0 =
     (let st = (if sp_inHeredocBody st0 then sp_closeHeredocLine st0 else st0) in
      if sp_escaped st \<or> sp_inSingle st \<or> sp_inDouble st then Inl ''unterminated shell quote/escape''
      else let st1 = sp_pushPart st in
        if sp_emptySegment st1 \<or> sp_segments st1 = [] then
          Inl (if sp_segments st1 = [] then ''empty command'' else ''empty pipeline segment'')
        else Inr (sp_segments st1))"

definition splitShellPipeline :: "string \<Rightarrow> string + string list" where
  "splitShellPipeline command = (case sp_loop command sp_init of Inl e \<Rightarrow> Inl e | Inr st \<Rightarrow> sp_finish st)"

subsection \<open>Command chains\<close>

datatype ShellChainOperator = AndAnd | OrOr | Semi

definition show_op :: "ShellChainOperator \<Rightarrow> string" where
  "show_op op = (case op of AndAnd \<Rightarrow> ''&&'' | OrOr \<Rightarrow> ''||'' | Semi \<Rightarrow> '';'')"

type_synonym ShellChainPart = "string \<times> ShellChainOperator option"

record sc_state =
  sc_parts :: "ShellChainPart list"
  sc_buf :: string
  sc_inSingle :: bool
  sc_inDouble :: bool
  sc_escaped :: bool
  sc_foundChain :: bool
  sc_invalidChain :: bool

definition sc_init :: sc_state where
  "sc_init = \<lparr>sc_parts = [], sc_buf = [], sc_inSingle = False, sc_inDouble = False,
     sc_escaped = False, sc_foundChain = False, sc_invalidChain = False\<rparr>"

definition sc_emit :: "string \<Rightarrow> sc_state \<Rightarrow> sc_state" where
  "sc_emit s st = st\<lparr>sc_buf := sc_buf st @ s\<rparr>"

text \<open>\<open>pushPart(op)\<close>, the \<open>invalidChain\<close> flag of a failed push, and \<open>foundChain\<close>.\<close>

definition sc_pushPart :: "ShellChainOperator \<Rightarrow> sc_state \<Rightarrow> sc_state" where
  "sc_pushPart op st = (let trimmed = trim (sc_buf st); st1 = st\<lparr>sc_buf := [], sc_foundChain := True\<rparr> in
     if trimmed = [] then st1\<lparr>sc_invalidChain := True\<rparr>
     else st1\<lparr>sc_parts := sc_parts st @ [(trimmed, Some op)]\<rparr>)"

definition sc_step :: "char \<Rightarrow> string \<Rightarrow> sc_state \<Rightarrow> sc_state \<times> string" where
  "sc_step ch rest st =
     (if sc_escaped st then ((sc_emit [ch] st)\<lparr>sc_escaped := False\<rparr>, rest)
      else if \<not> sc_inSingle st \<and> \<not> sc_inDouble st \<and> ch = BSL then ((sc_emit [ch] st)\<lparr>sc_escaped := True\<rparr>, rest)
      else if sc_inSingle st then (sc_emit [ch] (if ch = SQ then st\<lparr>sc_inSingle := False\<rparr> else st), rest)
      else if sc_inDouble st then
        (if ch = BSL \<and> isDoubleQuoteEscape (peek rest) then (sc_emit [ch, hd rest] st, tl rest)
         else (sc_emit [ch] (if ch = DQ then st\<lparr>sc_inDouble := False\<rparr> else st), rest))
      else if ch = SQ then (sc_emit [ch] (st\<lparr>sc_inSingle := True\<rparr>), rest)
      else if ch = DQ then (sc_emit [ch] (st\<lparr>sc_inDouble := True\<rparr>), rest)
      else if ch = CHR ''&'' \<and> peek rest = Some (CHR ''&'') then (sc_pushPart AndAnd st, tl rest)
      else if ch = CHR ''|'' \<and> peek rest = Some (CHR ''|'') then (sc_pushPart OrOr st, tl rest)
      else if ch = CHR '';'' then (sc_pushPart Semi st, rest)
      else (sc_emit [ch] st, rest))"

lemma sc_step_rest: "sc_step ch rest st = (st', r) \<Longrightarrow> length r \<le> length rest"
  by (auto simp: sc_step_def split: if_splits)

function (sequential) sc_loop :: "string \<Rightarrow> sc_state \<Rightarrow> sc_state" where
  "sc_loop [] st = st"
| "sc_loop (ch # rest) st = (case sc_step ch rest st of (st', r) \<Rightarrow> sc_loop r st')"
  by pat_completeness auto
termination
  by (relation "measure (\<lambda>(s, _). length s)") (auto dest: sc_step_rest [OF sym])

definition splitCommandChainWithOperators :: "string \<Rightarrow> ShellChainPart list option" where
  "splitCommandChainWithOperators command =
     (let st = sc_loop command sc_init in
      if \<not> sc_foundChain st then None
      else let trimmed = trim (sc_buf st) in
        if trimmed = [] then None
        else let parts = sc_parts st @ [(trimmed, None)] in
          if sc_invalidChain st \<or> parts = [] then None else Some parts)"

definition splitCommandChain :: "string \<Rightarrow> string list option" where
  "splitCommandChain command = map_option (map fst) (splitCommandChainWithOperators command)"


section \<open>What an accepted pipeline contains\<close>

text \<open>
  A reference reading of the command text by the shell's quoting rules, independent of the scanner:
  every character is bare (subject to the shell's operators), inside double quotes (subject to
  substitution) or literal.
\<close>

datatype qmode = Plain | Single | Double
datatype mark_kind = Bare | InDouble | Lit

fun marks :: "qmode \<Rightarrow> string \<Rightarrow> (char \<times> mark_kind) list" where
  "marks m [] = []"
| "marks Plain [c] = [(c, if c = BSL \<or> c = SQ \<or> c = DQ then Lit else Bare)]"
| "marks Plain (c # d # r) =
     (if c = BSL then (c, Lit) # (d, Lit) # marks Plain r
      else if c = SQ then (c, Lit) # marks Single (d # r)
      else if c = DQ then (c, Lit) # marks Double (d # r)
      else (c, Bare) # marks Plain (d # r))"
| "marks Single (c # r) = (c, Lit) # marks (if c = SQ then Plain else Single) r"
| "marks Double [c] = [(c, if c = BSL \<or> c = DQ then Lit else InDouble)]"
| "marks Double (c # d # r) =
     (if c = BSL \<and> d \<in> set DOUBLE_QUOTE_ESCAPES then (c, Lit) # (d, Lit) # marks Double r
      else if c = DQ then (c, Lit) # marks Plain (d # r)
      else (c, if c = BSL then Lit else InDouble) # marks Double (d # r))"

text \<open>No operator except the pipe is bare, and nothing inside double quotes starts a command
  substitution.\<close>

definition control_chars :: "char list" where
  "control_chars = [CHR ''&'', CHR '';'', CHR ''<'', CHR ''>'', CHR ''('', CHR '')'', BTICK, NL, CR]"

fun no_hidden_command :: "(char \<times> mark_kind) list \<Rightarrow> bool" where
  "no_hidden_command [] = True"
| "no_hidden_command ((c, k) # ms) \<longleftrightarrow>
     (k = Bare \<longrightarrow> c \<notin> set control_chars) \<and>
     (k = InDouble \<longrightarrow> c \<noteq> BTICK \<and> c \<noteq> NL \<and> c \<noteq> CR \<and>
        \<not> (c = CHR ''$'' \<and> ms \<noteq> [] \<and> hd ms = (CHR ''('', InDouble))) \<and>
     no_hidden_command ms"

text \<open>The pieces between bare pipes.\<close>

fun pieces :: "(char \<times> mark_kind) list \<Rightarrow> string list" where
  "pieces [] = [[]]"
| "pieces ((c, k) # ms) =
     (if c = CHR ''|'' \<and> k = Bare then [] # pieces ms
      else (case pieces ms of [] \<Rightarrow> [[c]] | p # ps \<Rightarrow> (c # p) # ps))"

definition nonblank :: "string list \<Rightarrow> string list" where
  "nonblank ps = filter (\<lambda>p. p \<noteq> []) (map trim ps)"

lemma pieces_not_Nil [simp]: "pieces ms \<noteq> []"
  by (induction ms rule: pieces.induct) (auto split: list.splits)

definition prepend :: "string \<Rightarrow> string list \<Rightarrow> string list" where
  "prepend b ps = (case ps of [] \<Rightarrow> [b] | p # qs \<Rightarrow> (b @ p) # qs)"

lemma prepend_pieces_step:
  "\<not> (c = CHR ''|'' \<and> k = Bare) \<Longrightarrow> prepend b (pieces ((c, k) # ms)) = prepend (b @ [c]) (pieces ms)"
  by (cases "pieces ms") (auto simp: prepend_def)

lemma pieces_pipe: "prepend b (pieces ((CHR ''|'', Bare) # ms)) = b # prepend [] (pieces ms)"
  by (cases "pieces ms") (auto simp: prepend_def)

lemma marks_Plain_simps:
  "c \<noteq> BSL \<Longrightarrow> c \<noteq> SQ \<Longrightarrow> c \<noteq> DQ \<Longrightarrow> marks Plain (c # r) = (c, Bare) # marks Plain r"
  "marks Plain (SQ # r) = (SQ, Lit) # marks Single r"
  "marks Plain (DQ # r) = (DQ, Lit) # marks Double r"
  by (cases r; simp)+

lemma marks_Double_simps:
  "c \<noteq> DQ \<Longrightarrow> \<not> (c = BSL \<and> isDoubleQuoteEscape (peek r)) \<Longrightarrow>
     marks Double (c # r) = (c, if c = BSL then Lit else InDouble) # marks Double r"
  "marks Double (DQ # r) = (DQ, Lit) # marks Plain r"
proof -
  show "marks Double (DQ # r) = (DQ, Lit) # marks Plain r" by (cases r) simp_all
  assume a: "c \<noteq> DQ" "\<not> (c = BSL \<and> isDoubleQuoteEscape (peek r))"
  show "marks Double (c # r) = (c, if c = BSL then Lit else InDouble) # marks Double r"
  proof (cases r)
    case (Cons d t)
    then have "\<not> (c = BSL \<and> d \<in> set DOUBLE_QUOTE_ESCAPES)"
      using a(2) unfolding isDoubleQuoteEscape_def peek_def by simp
    with Cons a(1) show ?thesis by (cases "c = BSL") simp_all
  qed (use a in simp)
qed

lemma marks_Double_hd:
  assumes "marks Double s \<noteq> []" "hd (marks Double s) = (CHR ''('', InDouble)"
  shows "peek s = Some (CHR ''('')"
proof (cases s)
  case (Cons c r)
  then have "fst (hd (marks Double s)) = c" by (cases r) simp_all
  with Cons assms(2) show ?thesis by (simp add: peek_def)
qed (use assms in simp)

text \<open>The reading of the text left from a scanner state.\<close>

definition marks_from :: "sp_state \<Rightarrow> string \<Rightarrow> (char \<times> mark_kind) list" where
  "marks_from st s =
     (if sp_escaped st then (case s of [] \<Rightarrow> [] | c # r \<Rightarrow> (c, Lit) # marks Plain r)
      else marks (if sp_inSingle st then Single else if sp_inDouble st then Double else Plain) s)"

definition sp_plain :: "sp_state \<Rightarrow> bool" where
  "sp_plain st \<longleftrightarrow> sp_pendingHeredocs st = [] \<and> \<not> sp_inHeredocBody st \<and>
     (sp_escaped st \<longrightarrow> \<not> sp_inSingle st \<and> \<not> sp_inDouble st) \<and> \<not> (sp_inSingle st \<and> sp_inDouble st)"

text \<open>One step of the scanner consumes a few marks; this is what it does with them.\<close>

definition consumes :: "sp_state \<Rightarrow> sp_state \<Rightarrow> (char \<times> mark_kind) list \<Rightarrow> (char \<times> mark_kind) list \<Rightarrow> bool" where
  "consumes st st' ms ms' \<longleftrightarrow>
     (no_hidden_command ms' \<longrightarrow> no_hidden_command ms) \<and>
     sp_segments st @ nonblank (prepend (sp_buf st) (pieces ms))
       = sp_segments st' @ nonblank (prepend (sp_buf st') (pieces ms'))"

lemma consumes_emit:
  assumes "sp_segments st' = sp_segments st" "sp_buf st' = sp_buf st @ [c]"
    and "\<not> (c = CHR ''|'' \<and> k = Bare)" and "no_hidden_command ms' \<Longrightarrow> no_hidden_command ((c, k) # ms')"
  shows "consumes st st' ((c, k) # ms') ms'"
  using assms by (simp add: consumes_def prepend_pieces_step del: pieces.simps no_hidden_command.simps)

lemma consumes_emit2:
  assumes "sp_segments st' = sp_segments st" "sp_buf st' = sp_buf st @ [c, d]"
  shows "consumes st st' ((c, Lit) # (d, Lit) # ms') ms'"
  using assms by (simp add: consumes_def prepend_pieces_step del: pieces.simps)

lemma consumes_pipe:
  assumes "sp_buf st' = []" "sp_segments st' = sp_segments st @ nonblank [sp_buf st]"
  shows "consumes st st' ((CHR ''|'', Bare) # ms') ms'"
  using assms by (simp add: consumes_def pieces_pipe nonblank_def control_chars_def del: pieces.simps)

lemma nonblank_pushPart: "sp_segments (sp_pushPart st) = sp_segments st @ nonblank [sp_buf st]"
  "sp_buf (sp_pushPart st) = []"
  by (auto simp: sp_pushPart_def nonblank_def Let_def)


text \<open>Quoting and escape branches.\<close>

lemma sp_quoting_None:
  "sp_quoting ch rest st = None \<longleftrightarrow>
     \<not> sp_escaped st \<and> \<not> sp_inSingle st \<and> \<not> sp_inDouble st \<and> ch \<noteq> BSL \<and> ch \<noteq> SQ \<and> ch \<noteq> DQ"
  by (simp add: sp_quoting_def)

lemma sp_quoting_consumes:
  assumes "sp_plain st" and "sp_quoting ch rest st = Some (Inr (st', r))"
  shows "sp_plain st' \<and> (\<exists>u. ch # rest = u @ r) \<and> consumes st st' (marks_from st (ch # rest)) (marks_from st' r)"
proof -
  consider (esc) "sp_escaped st" | (bsl) "\<not> sp_escaped st" "\<not> sp_inSingle st" "\<not> sp_inDouble st" "ch = BSL"
    | (single) "\<not> sp_escaped st" "sp_inSingle st"
    | (dbl) "\<not> sp_escaped st" "\<not> sp_inSingle st" "sp_inDouble st"
    | (openq) "\<not> sp_escaped st" "\<not> sp_inSingle st" "\<not> sp_inDouble st" "ch = SQ \<or> ch = DQ"
    | (other) "sp_quoting ch rest st = None"
    by (auto simp: sp_quoting_None)
  then show ?thesis
  proof cases
    case esc
    with assms have "st' = (sp_emit [ch] st)\<lparr>sp_escaped := False\<rparr>" "r = rest" "\<not> sp_inSingle st" "\<not> sp_inDouble st"
      by (simp_all add: sp_quoting_def sp_plain_def)
    with esc assms(1) show ?thesis
      by (auto simp: sp_plain_def sp_emit_def marks_from_def intro!: consumes_emit)
  next
    case bsl
    with assms have "st' = (sp_emit [ch] st)\<lparr>sp_escaped := True\<rparr>" "r = rest"
      by (simp_all add: sp_quoting_def)
    with bsl assms(1) show ?thesis
      by (cases rest) (auto simp: sp_plain_def sp_emit_def marks_from_def intro!: consumes_emit)
  next
    case single
    with assms have "st' = sp_emit [ch] (if ch = SQ then st\<lparr>sp_inSingle := False\<rparr> else st)" "r = rest" "\<not> sp_inDouble st"
      by (simp_all add: sp_quoting_def sp_plain_def)
    with single assms(1) show ?thesis
      by (auto simp: sp_plain_def sp_emit_def marks_from_def intro!: consumes_emit)
  next
    case dbl
    show ?thesis
    proof (cases "ch = BSL \<and> isDoubleQuoteEscape (peek rest)")
      case True
      then obtain d t where r: "rest = d # t" "d \<in> set DOUBLE_QUOTE_ESCAPES"
        by (cases rest) (auto simp: isDoubleQuoteEscape_def peek_def)
      with True dbl assms have "st' = sp_emit [ch, d] st" "r = t" by (simp_all add: sp_quoting_def)
      with True dbl r assms(1) show ?thesis
        by (auto simp: sp_plain_def sp_emit_def marks_from_def intro!: consumes_emit2)
    next
      case False
      with dbl assms(2) have st': "st' = sp_emit [ch] (if ch = DQ then st\<lparr>sp_inDouble := False\<rparr> else st)" "r = rest"
        and ok: "ch \<noteq> BTICK" "ch \<noteq> NL" "ch \<noteq> CR" "\<not> (ch = CHR ''$'' \<and> peek rest = Some (CHR ''(''))"
        by (auto simp: sp_quoting_def split: if_splits)
      show ?thesis
      proof (cases "ch = DQ")
        case True
        with st' dbl assms(1) show ?thesis
          by (auto simp: sp_plain_def sp_emit_def marks_from_def marks_Double_simps intro!: consumes_emit)
      next
        case no: False
        have m: "marks Double (ch # rest) = (ch, if ch = BSL then Lit else InDouble) # marks Double rest"
          using no False by (rule marks_Double_simps)
        have "consumes st st' ((ch, if ch = BSL then Lit else InDouble) # marks Double rest) (marks Double rest)"
        proof (rule consumes_emit)
          assume "no_hidden_command (marks Double rest)"
          then show "no_hidden_command ((ch, if ch = BSL then Lit else InDouble) # marks Double rest)"
            using ok marks_Double_hd [of rest] by auto
        qed (use st' no in \<open>auto simp: sp_emit_def\<close>)
        with m st' no dbl assms(1) show ?thesis
          by (auto simp: sp_plain_def sp_emit_def marks_from_def)
      qed
    qed
  next
    case openq
    with assms(2) have "r = rest" "st' = sp_emit [ch] (if ch = SQ then st\<lparr>sp_inSingle := True\<rparr> else st\<lparr>sp_inDouble := True\<rparr>)"
      by (auto simp: sp_quoting_def)
    with openq assms(1) show ?thesis
      by (auto simp: sp_plain_def sp_emit_def marks_from_def marks_Plain_simps intro!: consumes_emit)
  qed (use assms in simp)
qed


lemma sp_operator_consumes:
  assumes "sp_plain st" and "sp_quoting ch rest st = None" and "sp_operator ch rest st = Inr (st', r)"
    and "\<not> (ch = CHR ''<'' \<and> peek rest = Some (CHR ''<''))"
  shows "sp_plain st' \<and> r = rest \<and> consumes st st' (marks_from st (ch # rest)) (marks_from st' r)"
proof -
  have q: "\<not> sp_escaped st" "\<not> sp_inSingle st" "\<not> sp_inDouble st" "ch \<noteq> BSL" "ch \<noteq> SQ" "ch \<noteq> DQ"
    using assms(2) by (simp_all add: sp_quoting_None)
  have m: "marks_from st (ch # rest) = (ch, Bare) # marks Plain rest"
    using q by (simp add: marks_from_def marks_Plain_simps)
  have ch: "ch \<notin> set control_chars" and r: "r = rest"
    and st': "st' = (if ch = CHR ''|'' then sp_pushPart (st\<lparr>sp_emptySegment := True\<rparr>) else sp_emit [ch] st)"
    using assms(1,3,4)
    by (auto simp: sp_operator_def sp_plain_def control_chars_def DISALLOWED_PIPELINE_TOKENS_def split: if_splits)
  show ?thesis
  proof (cases "ch = CHR ''|''")
    case True
    have f: "sp_escaped st' = sp_escaped st" "sp_inSingle st' = sp_inSingle st" "sp_inDouble st' = sp_inDouble st"
      "sp_pendingHeredocs st' = sp_pendingHeredocs st" "sp_inHeredocBody st' = sp_inHeredocBody st"
      using st' True by (simp_all add: sp_pushPart_def Let_def)
    moreover have "consumes st st' ((CHR ''|'', Bare) # marks Plain rest) (marks Plain rest)"
      using st' True by (auto simp: nonblank_pushPart intro!: consumes_pipe)
    ultimately show ?thesis using True q m r assms(1) by (simp add: marks_from_def sp_plain_def)
  next
    case False
    have "consumes st st' ((ch, Bare) # marks Plain rest) (marks Plain rest)"
      by (rule consumes_emit) (use False st' ch in \<open>simp_all add: sp_emit_def\<close>)
    with False st' q m r assms(1) show ?thesis by (simp add: marks_from_def sp_plain_def sp_emit_def)
  qed
qed

lemma consumes_trans: "consumes s1 s2 a b \<Longrightarrow> consumes s2 s3 b c \<Longrightarrow> consumes s1 s3 a c"
  by (simp add: consumes_def)

lemma sp_loop_consumes:
  "sp_loop s st = Inr st' \<Longrightarrow> sp_plain st \<Longrightarrow> \<not> sublist ''<<'' s \<Longrightarrow>
   sp_plain st' \<and> consumes st st' (marks_from st s) []"
proof (induction s st rule: sp_loop.induct)
  case (1 st)
  then show ?case by (simp add: marks_from_def consumes_def split: option.splits)
next
  case (2 ch rest st)
  from "2.prems"(1) obtain st1 r where step: "sp_step ch rest st = Inr (st1, r)" and loop: "sp_loop r st1 = Inr st'"
    by (auto split: sum.splits)
  have nolt: "\<not> (ch = CHR ''<'' \<and> peek rest = Some (CHR ''<''))"
    using "2.prems"(3) by (cases rest) (auto simp: peek_def sublist_Cons_right)
  have body: "\<not> sp_inHeredocBody st" using "2.prems"(2) by (simp add: sp_plain_def)
  have one: "sp_plain st1 \<and> (\<exists>u. ch # rest = u @ r) \<and> consumes st st1 (marks_from st (ch # rest)) (marks_from st1 r)"
  proof (cases "sp_quoting ch rest st")
    case None
    with step body have "sp_operator ch rest st = Inr (st1, r)" by (simp add: sp_step_def)
    with sp_operator_consumes [OF "2.prems"(2) None _ nolt] show ?thesis by (metis append_Cons append_Nil)
  next
    case (Some x)
    with step body have "sp_quoting ch rest st = Some (Inr (st1, r))" by (simp add: sp_step_def)
    then show ?thesis by (rule sp_quoting_consumes [OF "2.prems"(2)])
  qed
  have "\<not> sublist ''<<'' r"
    using one "2.prems"(3) by (metis sublist_append_leftI sublist_order.order_trans)
  with "2.IH" [OF step refl loop] one show ?case
    using consumes_trans by blast
qed

lemma sp_loop_finish:
  assumes "consumes sp_init st (marks_from sp_init s) []"
  shows "no_hidden_command (marks Plain s)"
    and "sp_segments (sp_pushPart st) = nonblank (pieces (marks Plain s))"
proof -
  have m: "marks_from sp_init s = marks Plain s" by (simp add: marks_from_def sp_init_def)
  have p: "prepend [] (pieces ms) = pieces ms" for ms by (cases "pieces ms") (simp_all add: prepend_def)
  show "no_hidden_command (marks Plain s)" using assms by (simp add: consumes_def m)
  have "sp_segments sp_init = []" "sp_buf sp_init = []" by (simp_all add: sp_init_def)
  moreover have "prepend (sp_buf st) (pieces []) = [sp_buf st]" by (simp add: prepend_def)
  ultimately show "sp_segments (sp_pushPart st) = nonblank (pieces (marks Plain s))"
    using assms by (simp add: consumes_def m p nonblank_pushPart)
qed

text \<open>(C4) The pipeline scanner hides nothing: when it accepts a command without a here-document,
  the segments it returns are exactly the non-blank pieces between the bare pipes, no bare
  operator, redirection, grouping, back-quote or line break is left in the text, and no command
  substitution starts inside double quotes. Bare, double-quoted and literal are the reading of an
  independent quoting function.\<close>

theorem splitShellPipeline_complete:
  assumes "splitShellPipeline command = Inr segs" and "\<not> sublist ''<<'' command"
  shows "segs = nonblank (pieces (marks Plain command)) \<and> no_hidden_command (marks Plain command)"
proof -
  obtain st where loop: "sp_loop command sp_init = Inr st" and fin: "sp_finish st = Inr segs"
    using assms(1) by (auto simp: splitShellPipeline_def split: sum.splits)
  have c: "sp_plain st \<and> consumes sp_init st (marks_from sp_init command) []"
    by (rule sp_loop_consumes [OF loop _ assms(2)]) (simp add: sp_plain_def sp_init_def)
  then have "segs = sp_segments (sp_pushPart st)"
    using fin by (auto simp: sp_finish_def sp_plain_def Let_def split: if_splits)
  with c sp_loop_finish [of st command] show ?thesis by simp
qed

definition demo_pipeline :: string where
  "demo_pipeline = ''grep -e '' @ [SQ] @ ''a|b;c'' @ [SQ] @ '' f | wc -l''"

theorem splitShellPipeline_complete_witness:
  "[''grep -e '' @ [SQ] @ ''a|b;c'' @ [SQ] @ '' f'', ''wc -l''] = nonblank (pieces (marks Plain demo_pipeline))
   \<and> no_hidden_command (marks Plain demo_pipeline)"
proof (rule splitShellPipeline_complete)
  show "splitShellPipeline demo_pipeline = Inr [''grep -e '' @ [SQ] @ ''a|b;c'' @ [SQ] @ '' f'', ''wc -l'']"
    by code_simp
  show "\<not> sublist ''<<'' demo_pipeline" by code_simp
qed

text \<open>Here-documents are outside that guarantee: the body is skipped whatever its delimiter, so that
  a substitution the shell would run (an unquoted delimiter) is not seen.\<close>

lemma heredoc_body_not_scanned:
  "splitShellPipeline (''cat <<EOF'' @ [NL] @ ''$(rm -rf x)'' @ [NL] @ ''EOF'') = Inr [''cat <<EOF'']"
  by code_simp

text \<open>The empty-segment check looks at the last character only: white space after the pipe defeats it.\<close>

lemma empty_segment_check_defeated:
  "splitShellPipeline ''ls |'' = Inl ''empty pipeline segment''" "splitShellPipeline ''ls | '' = Inr [''ls'']"
  by code_simp+

end
