(* ===== verification/Node_Host.thy ===== *)
theory Node_Host
  imports Prelude_JS
begin

section \<open>The host: file system, environment and path module\<close>

text \<open>
  The execution-approval code asks the operating system and Node's \<open>path\<close> module; both are fields
  of the record \<open>host\<close> below and an argument of every definition that uses
  them, so that the theorems hold for every machine. The POSIX variant of the \<open>path\<close> module is
  defined too, as the instance the witnesses run on. \<open>infra/home-dir.ts\<close> is modelled on top.
  An environment is a map from names to values; a missing \<open>env\<close> argument is the empty map.
\<close>

type_synonym js_env = "string \<rightharpoonup> string"

record host =
  hostWin32 :: bool
  statIsFile :: "string \<Rightarrow> bool option"
  accessX :: "string \<Rightarrow> bool"
  realpathSync :: "string \<Rightarrow> string option"
  processCwd :: string
  processEnv :: js_env
  osHomedir :: "string option"
  pathIsAbsolute :: "string \<Rightarrow> bool"
  pathResolve :: "string list \<Rightarrow> string"
  pathJoin :: "string \<Rightarrow> string \<Rightarrow> string"
  pathBasename :: "string \<Rightarrow> string"
  pathDirname :: "string \<Rightarrow> string"
  pathExtname :: "string \<Rightarrow> string"
  pathDelimiter :: char
  regExpTest :: "string \<Rightarrow> string \<Rightarrow> bool"

subsection \<open>The POSIX path module\<close>

abbreviation SLASH :: char where "SLASH \<equiv> CHR ''/''"

text \<open>One path segment against the stack of segments kept so far (last segment first).\<close>

definition path_push :: "bool \<Rightarrow> string list \<Rightarrow> string \<Rightarrow> string list" where
  "path_push isAbs acc seg =
     (if seg = [] \<or> seg = ''.'' then acc
      else if seg = ''..'' then
        (case acc of [] \<Rightarrow> if isAbs then [] else [seg]
         | a # as \<Rightarrow> if a = ''..'' then seg # acc else as)
      else seg # acc)"

definition path_segments :: "bool \<Rightarrow> string \<Rightarrow> string list" where
  "path_segments isAbs p = rev (foldl (path_push isAbs) [] (split_on SLASH p))"

definition posix_isAbsolute :: "string \<Rightarrow> bool" where
  "posix_isAbsolute p = starts_with p ''/''"

definition posix_normalize :: "string \<Rightarrow> string" where
  "posix_normalize p =
     (if p = [] then ''.'' else
      let isAbs = posix_isAbsolute p; trailing = (last p = SLASH);
          body = join ''/'' (path_segments isAbs p) in
      if body = [] then (if isAbs then ''/'' else if trailing then ''./'' else ''.'')
      else (if isAbs then ''/'' else []) @ body @ (if trailing then ''/'' else []))"

definition posix_join :: "string \<Rightarrow> string \<Rightarrow> string" where
  "posix_join a b = posix_normalize
     (if a = [] then b else if b = [] then a else a @ ''/'' @ b)"

fun posix_resolve_from :: "string \<Rightarrow> string list \<Rightarrow> string" where
  "posix_resolve_from base [] = base"
| "posix_resolve_from base (p # ps) =
     posix_resolve_from (if p = [] then base else if posix_isAbsolute p then p else base @ ''/'' @ p) ps"

definition posix_resolve :: "string \<Rightarrow> string list \<Rightarrow> string" where
  "posix_resolve cwd ps = ''/'' @ join ''/'' (path_segments True (posix_resolve_from cwd ps))"

definition strip_slashes :: "string \<Rightarrow> string" where
  "strip_slashes p = rev (dropWhile (\<lambda>c. c = SLASH) (rev p))"

definition posix_basename :: "string \<Rightarrow> string" where
  "posix_basename p = last (split_on SLASH (strip_slashes p))"

definition posix_dirname :: "string \<Rightarrow> string" where
  "posix_dirname p =
     (if p = [] then ''.''
      else let q = strip_slashes p in
        if q = [] then ''/''
        else if SLASH \<notin> set q then ''.''
        else let d = rev (tl (dropWhile (\<lambda>c. c \<noteq> SLASH) (rev q))) in
          if d = [] then ''/'' else d)"

text \<open>The extension: from the last dot of the base name, unless that dot starts the base name.\<close>

definition posix_extname :: "string \<Rightarrow> string" where
  "posix_extname p = (let b = posix_basename p; n = length (takeWhile (\<lambda>c. c \<noteq> CHR ''.'') (rev b)) in
     if length b \<le> Suc n \<or> b = ''..'' then [] else drop (length b - Suc n) b)"

definition posix_host :: "(string \<Rightarrow> bool) \<Rightarrow> string \<Rightarrow> js_env \<Rightarrow> host" where
  "posix_host execs cwd env = \<lparr>hostWin32 = False,
     statIsFile = (\<lambda>p. if execs p then Some True else None), accessX = execs,
     realpathSync = (\<lambda>p. if execs p then Some p else None), processCwd = cwd, processEnv = env,
     osHomedir = None, pathIsAbsolute = posix_isAbsolute, pathResolve = posix_resolve cwd,
     pathJoin = posix_join, pathBasename = posix_basename, pathDirname = posix_dirname,
     pathExtname = posix_extname, pathDelimiter = CHR '':'', regExpTest = (\<lambda>_ _. False)\<rparr>"

subsection \<open>The home directory\<close>

definition normalize_home :: "string option \<Rightarrow> string option" where
  "normalize_home v = truthy (map_option trim v)"

definition normalizeSafe :: "host \<Rightarrow> string option" where
  "normalizeSafe h = normalize_home (osHomedir h)"

text \<open>\<open>/^~(?=$|[\\/])/\<close> matches a leading tilde that is the whole text or is followed by a separator.\<close>

definition tildeMatches :: "string \<Rightarrow> bool" where
  "tildeMatches s = (case s of c # r \<Rightarrow> c = CHR ''~'' \<and> (r = [] \<or> hd r = SLASH \<or> hd r = BSL) | [] \<Rightarrow> False)"

definition replaceTilde :: "string \<Rightarrow> string \<Rightarrow> string" where
  "replaceTilde s home = (if tildeMatches s then expand_replacement [] ''~'' (tl s) home @ tl s else s)"

definition resolveRawHomeDir :: "host \<Rightarrow> js_env \<Rightarrow> string option" where
  "resolveRawHomeDir h env =
     (case normalize_home (env ''OPENCLAW_HOME'') of
        Some explicitHome \<Rightarrow>
          if explicitHome = ''~'' \<or> starts_with explicitHome ''~/'' \<or> starts_with explicitHome [CHR ''~'', BSL] then
            (case orelse (normalize_home (env ''HOME''))
                    (orelse (normalize_home (env ''USERPROFILE'')) (normalizeSafe h)) of
               Some fallbackHome \<Rightarrow> Some (replaceTilde explicitHome fallbackHome)
             | None \<Rightarrow> None)
          else Some explicitHome
      | None \<Rightarrow> orelse (normalize_home (env ''HOME''))
                 (orelse (normalize_home (env ''USERPROFILE'')) (normalizeSafe h)))"

definition resolveEffectiveHomeDir :: "host \<Rightarrow> js_env \<Rightarrow> string option" where
  "resolveEffectiveHomeDir h env =
     (case truthy (resolveRawHomeDir h env) of Some raw \<Rightarrow> Some (pathResolve h [raw]) | None \<Rightarrow> None)"

definition resolveRequiredHomeDir :: "host \<Rightarrow> js_env \<Rightarrow> string" where
  "resolveRequiredHomeDir h env =
     nullish (resolveEffectiveHomeDir h env) (pathResolve h [processCwd h])"

text \<open>\<open>expandHomePrefix(input)\<close>, as the approval code calls it: without options.\<close>

definition expandHomePrefix :: "host \<Rightarrow> string \<Rightarrow> string" where
  "expandHomePrefix h input =
     (if \<not> starts_with input ''~'' then input
      else case truthy (resolveEffectiveHomeDir h (processEnv h)) of
             None \<Rightarrow> input
           | Some home \<Rightarrow> replaceTilde input home)"

subsection \<open>Facts\<close>

lemma normalize_home_Some: "normalize_home v = Some s \<Longrightarrow> s \<noteq> [] \<and> trim s = s"
  by (auto simp: normalize_home_def truthy_Some_iff)

lemma expandHomePrefix_plain: "\<not> starts_with p ''~'' \<Longrightarrow> expandHomePrefix h p = p"
  by (simp add: expandHomePrefix_def)

text \<open>Normalising an absolute path leaves no dot segments: what remains names a place, not a walk.\<close>

definition clean_seg :: "string \<Rightarrow> bool" where
  "clean_seg s \<longleftrightarrow> s \<noteq> [] \<and> s \<noteq> ''.'' \<and> s \<noteq> ''..'' \<and> SLASH \<notin> set s"

lemma path_push_clean:
  assumes "\<forall>s \<in> set acc. clean_seg s" and "SLASH \<notin> set seg"
  shows "\<forall>s \<in> set (path_push True acc seg). clean_seg s"
proof (cases "seg = [] \<or> seg = ''.'' \<or> seg = ''..''")
  case True
  then show ?thesis using assms(1) by (cases acc) (auto simp: path_push_def clean_seg_def)
next
  case False
  then show ?thesis using assms by (simp add: path_push_def clean_seg_def)
qed

lemma foldl_path_push_clean:
  assumes "\<forall>s \<in> set acc. clean_seg s" and "\<forall>s \<in> set segs. SLASH \<notin> set s"
  shows "\<forall>s \<in> set (foldl (path_push True) acc segs). clean_seg s"
  using assms
proof (induction segs arbitrary: acc)
  case (Cons seg segs)
  then show ?case using path_push_clean [of acc seg] by simp
qed simp

lemma posix_resolve_clean: "\<forall>s \<in> set (path_segments True p). clean_seg s"
  using foldl_path_push_clean [of "[]" "split_on SLASH p"] split_on_no_sep [of _ SLASH p]
  by (simp add: path_segments_def)

end
