(* ===== verification/Exec_Analysis.thy ===== *)
theory Exec_Analysis
  imports Shell_Pipeline Node_Host
begin

section \<open>Command analysis\<close>

text \<open>
  The rest of \<open>infra/exec-approvals-analysis.ts\<close>: finding the executable a command names, matching
  it against allowlist patterns, tokenising arguments, the Windows tokeniser, the analysis of a
  whole shell command into segments, and the rebuilt command with literal arguments. A
  \<open>{ ok, reason, ... }\<close> result that carries no data on failure is a sum with the reason on the left.
\<close>

subsection \<open>Resolving the executable\<close>

record CommandResolution =
  rawExecutable :: string
  resolvedPath :: "string option"
  executableName :: string

definition DEFAULT_SAFE_BINS :: "string list" where
  "DEFAULT_SAFE_BINS = [''jq'', ''cut'', ''uniq'', ''head'', ''tail'', ''tr'', ''wc'']"

definition isExecutableFile :: "host \<Rightarrow> string \<Rightarrow> bool" where
  "isExecutableFile h filePath =
     (case statIsFile h filePath of None \<Rightarrow> False
      | Some isFile \<Rightarrow> if \<not> isFile then False else if \<not> hostWin32 h then accessX h filePath else True)"

definition parseFirstToken :: "string \<Rightarrow> string option" where
  "parseFirstToken command =
     (let trimmed = trim command in
      case trimmed of [] \<Rightarrow> None
      | first # r \<Rightarrow>
          if first = DQ \<or> first = SQ then
            (case index_of first r of
               Some k \<Rightarrow> if k + 1 > 1 then Some (take k r) else Some r
             | None \<Rightarrow> Some r)
          else Some (takeWhile (\<lambda>c. \<not> is_ws c) trimmed))"

definition has_separator :: "string \<Rightarrow> bool" where
  "has_separator s \<longleftrightarrow> CHR ''/'' \<in> set s \<or> BSL \<in> set s"

definition expandTilde :: "host \<Rightarrow> string \<Rightarrow> string" where
  "expandTilde h s = (if starts_with s ''~'' then expandHomePrefix h s else s)"

definition baseDir :: "host \<Rightarrow> string option \<Rightarrow> string" where
  "baseDir h cwd = (case truthy cwd of
     Some c \<Rightarrow> if trim c \<noteq> [] then trim c else processCwd h
   | None \<Rightarrow> processCwd h)"

definition executableExtensions :: "host \<Rightarrow> js_env \<Rightarrow> string \<Rightarrow> string list" where
  "executableExtensions h env expanded =
     (if hostWin32 h then
        (if pathExtname h expanded \<noteq> [] then [[]]
         else map to_lower (split_on (CHR '';'')
           (nullish (orelse (env ''PATHEXT'') (orelse (env ''Pathext'')
              (orelse (processEnv h ''PATHEXT'') (processEnv h ''Pathext'')))) ''.EXE;.CMD;.BAT;.COM'')))
      else [[]])"

definition searchPath :: "host \<Rightarrow> js_env \<Rightarrow> string" where
  "searchPath h env = nullish (orelse (env ''PATH'') (orelse (env ''Path'')
     (orelse (processEnv h ''PATH'') (processEnv h ''Path'')))) []"

definition resolveExecutablePath :: "host \<Rightarrow> string \<Rightarrow> string option \<Rightarrow> js_env \<Rightarrow> string option" where
  "resolveExecutablePath h raw cwd env =
     (let expanded = expandTilde h raw in
      if has_separator expanded then
        (if pathIsAbsolute h expanded then (if isExecutableFile h expanded then Some expanded else None)
         else let candidate = pathResolve h [baseDir h cwd, expanded] in
           if isExecutableFile h candidate then Some candidate else None)
      else
        let entries = filter (\<lambda>e. e \<noteq> []) (split_on (pathDelimiter h) (searchPath h env));
            candidates = concat (map (\<lambda>entry. map (\<lambda>ext. pathJoin h entry (expanded @ ext))
              (executableExtensions h env expanded)) entries)
        in find (isExecutableFile h) candidates)"

definition resolutionOf :: "host \<Rightarrow> string \<Rightarrow> string option \<Rightarrow> js_env \<Rightarrow> CommandResolution" where
  "resolutionOf h raw cwd env =
     (let rp = resolveExecutablePath h raw cwd env in
      \<lparr>rawExecutable = raw, resolvedPath = rp,
       executableName = (case truthy rp of Some p \<Rightarrow> pathBasename h p | None \<Rightarrow> raw)\<rparr>)"

definition resolveCommandResolution :: "host \<Rightarrow> string \<Rightarrow> string option \<Rightarrow> js_env \<Rightarrow> CommandResolution option" where
  "resolveCommandResolution h command cwd env =
     map_option (\<lambda>raw. resolutionOf h raw cwd env) (truthy (parseFirstToken command))"

definition resolveCommandResolutionFromArgv :: "host \<Rightarrow> string list \<Rightarrow> string option \<Rightarrow> js_env \<Rightarrow> CommandResolution option" where
  "resolveCommandResolutionFromArgv h argv cwd env =
     (case argv of [] \<Rightarrow> None
      | a # _ \<Rightarrow> if trim a = [] then None else Some (resolutionOf h (trim a) cwd env))"

subsection \<open>Allowlist patterns\<close>

text \<open>\<open>value.replace(/\\\\/g, "/")\<close>: two backslashes become one slash.\<close>

fun replaceDoubleBackslash :: "string \<Rightarrow> string" where
  "replaceDoubleBackslash (c # d # r) =
     (if c = BSL \<and> d = BSL then CHR ''/'' # replaceDoubleBackslash r else c # replaceDoubleBackslash (d # r))"
| "replaceDoubleBackslash s = s"

definition stripDevicePrefix :: "string \<Rightarrow> string" where
  "stripDevicePrefix v = (if starts_with v [BSL, BSL, CHR ''?'', BSL] \<or> starts_with v [BSL, BSL, CHR ''.'', BSL]
     then drop 4 v else v)"

definition normalizeMatchTarget :: "host \<Rightarrow> string \<Rightarrow> string" where
  "normalizeMatchTarget h v =
     (if hostWin32 h then to_lower (map (\<lambda>c. if c = BSL then CHR ''/'' else c) (stripDevicePrefix v))
      else to_lower (replaceDoubleBackslash v))"

text \<open>The source text of the regular expression. The character class meant to escape
  metacharacters ends at its first closing bracket and then asks for two backslashes and a bracket,
  so that \<open>ch.replace\<close> never changes a single character and every other character is copied.\<close>

fun globBody :: "string \<Rightarrow> string" where
  "globBody [] = []"
| "globBody [ch] = (if ch = CHR ''*'' then ''[^/]*'' else if ch = CHR ''?'' then ''.'' else [ch])"
| "globBody (ch # next # r) =
     (if ch = CHR ''*'' then (if next = CHR ''*'' then ''.*'' @ globBody r else ''[^/]*'' @ globBody (next # r))
      else if ch = CHR ''?'' then ''.'' @ globBody (next # r)
      else ch # globBody (next # r))"

definition globToRegExp :: "string \<Rightarrow> string" where
  "globToRegExp pattern = ''^'' @ globBody pattern @ ''$''"

text \<open>The regular expressions that arise from ordinary patterns: literals, any character, any run
  of characters, any run without a slash. A source with another metacharacter is left to the
  engine of the host. Text and pattern are in lower case already, so the \<open>i\<close> flag adds nothing.\<close>

datatype rx = RxChar char | RxAny | RxAnyStar | RxSegStar

definition metaChars :: "char list" where
  "metaChars = ''*+?^${}()|[]'' @ [BSL]"

fun rxBody :: "string \<Rightarrow> rx list option" where
  "rxBody [] = Some []"
| "rxBody (c # s) =
     (if c = CHR ''.'' then
        (if peek s = Some (CHR ''*'') then map_option ((#) RxAnyStar) (rxBody (tl s))
         else map_option ((#) RxAny) (rxBody s))
      else if starts_with (c # s) ''[^/]*'' then map_option ((#) RxSegStar) (rxBody (drop 4 s))
      else if c \<in> set metaChars then None
      else map_option ((#) (RxChar c)) (rxBody s))"

definition rxParse :: "string \<Rightarrow> rx list option" where
  "rxParse src = (if starts_with src ''^'' \<and> src \<noteq> ''^'' \<and> last src = CHR ''$'' then rxBody (butlast (tl src)) else None)"

fun rxMatch :: "rx list \<Rightarrow> string \<Rightarrow> bool" where
  "rxMatch [] s = (s = [])"
| "rxMatch (RxChar c # rs) s = (case s of [] \<Rightarrow> False | d # t \<Rightarrow> c = d \<and> rxMatch rs t)"
| "rxMatch (RxAny # rs) s = (case s of [] \<Rightarrow> False | d # t \<Rightarrow> d \<noteq> NL \<and> d \<noteq> CR \<and> rxMatch rs t)"
| "rxMatch (RxAnyStar # rs) s \<longleftrightarrow> rxMatch rs s \<or>
     (case s of [] \<Rightarrow> False | d # t \<Rightarrow> d \<noteq> NL \<and> d \<noteq> CR \<and> rxMatch (RxAnyStar # rs) t)"
| "rxMatch (RxSegStar # rs) s \<longleftrightarrow> rxMatch rs s \<or>
     (case s of [] \<Rightarrow> False | d # t \<Rightarrow> d \<noteq> CHR ''/'' \<and> rxMatch (RxSegStar # rs) t)"

definition regExpTestSource :: "host \<Rightarrow> string \<Rightarrow> string \<Rightarrow> bool" where
  "regExpTestSource h src target =
     (case rxParse src of Some rs \<Rightarrow> rxMatch rs target | None \<Rightarrow> regExpTest h src target)"

definition matchesPattern :: "host \<Rightarrow> string \<Rightarrow> string \<Rightarrow> bool" where
  "matchesPattern h pattern target =
     (let trimmed = trim pattern in
      if trimmed = [] then False
      else let expanded = expandTilde h trimmed;
               hasWildcard = (CHR ''*'' \<in> set expanded \<or> CHR ''?'' \<in> set expanded);
               np = (if hostWin32 h \<and> \<not> hasWildcard then nullish (realpathSync h expanded) expanded else expanded);
               nt = (if hostWin32 h \<and> \<not> hasWildcard then nullish (realpathSync h target) target else target)
           in regExpTestSource h (globToRegExp (normalizeMatchTarget h np)) (normalizeMatchTarget h nt))"

definition resolveAllowlistCandidatePath :: "host \<Rightarrow> CommandResolution option \<Rightarrow> string option \<Rightarrow> string option" where
  "resolveAllowlistCandidatePath h resolution cwd =
     (case resolution of None \<Rightarrow> None
      | Some res \<Rightarrow>
        (case truthy (resolvedPath res) of Some p \<Rightarrow> Some p
         | None \<Rightarrow>
            let raw = trim (rawExecutable res) in
            if raw = [] then None
            else let expanded = expandTilde h raw in
              if \<not> has_separator expanded then None
              else if pathIsAbsolute h expanded then Some expanded
              else Some (pathResolve h [baseDir h cwd, expanded])))"

record ExecAllowlistEntry =
  al_id :: "string option"
  al_pattern :: string
  al_lastUsedAt :: "int option"
  al_lastUsedCommand :: "string option"
  al_lastResolvedPath :: "string option"

definition entryMatches :: "host \<Rightarrow> string \<Rightarrow> ExecAllowlistEntry \<Rightarrow> bool" where
  "entryMatches h path entry =
     (let pattern = trim (al_pattern entry) in
      pattern \<noteq> [] \<and> (has_separator pattern \<or> CHR ''~'' \<in> set pattern) \<and> matchesPattern h pattern path)"

definition matchAllowlist :: "host \<Rightarrow> ExecAllowlistEntry list \<Rightarrow> CommandResolution option \<Rightarrow> ExecAllowlistEntry option" where
  "matchAllowlist h entries resolution =
     (case Option.bind resolution (\<lambda>r. truthy (resolvedPath r)) of
        None \<Rightarrow> None
      | Some p \<Rightarrow> find (entryMatches h p) entries)"

subsection \<open>Argument tokens\<close>

datatype ExecArgvToken =
    EmptyTok string
  | TerminatorTok string
  | StdinTok string
  | PositionalTok string
  | LongOption string string "string option"
  | ShortCluster string string "string list"

definition parseExecArgvToken :: "string \<Rightarrow> ExecArgvToken" where
  "parseExecArgvToken raw =
     (if raw = [] then EmptyTok raw
      else if raw = ''--'' then TerminatorTok raw
      else if raw = ''-'' then StdinTok raw
      else if \<not> starts_with raw ''-'' then PositionalTok raw
      else if starts_with raw ''--'' then
        (case index_of (CHR ''='') raw of
           Some eqIndex \<Rightarrow>
             if eqIndex > 0 then LongOption raw (take eqIndex raw) (Some (drop (eqIndex + 1) raw))
             else LongOption raw raw None
         | None \<Rightarrow> LongOption raw raw None)
      else ShortCluster raw (tl raw) (map (\<lambda>c. [CHR ''-'', c]) (tl raw)))"

subsection \<open>Whole commands\<close>

record ExecCommandSegment =
  seg_raw :: string
  seg_argv :: "string list"
  seg_resolution :: "CommandResolution option"

record ExecCommandAnalysis =
  an_ok :: bool
  an_reason :: "string option"
  an_segments :: "ExecCommandSegment list"
  an_chains :: "ExecCommandSegment list list option"

definition analysisError :: "string \<Rightarrow> ExecCommandAnalysis" where
  "analysisError why = \<lparr>an_ok = False, an_reason = Some why, an_segments = [], an_chains = None\<rparr>"

definition analysisOk :: "ExecCommandSegment list \<Rightarrow> ExecCommandSegment list list option \<Rightarrow> ExecCommandAnalysis" where
  "analysisOk segs groups = \<lparr>an_ok = True, an_reason = None, an_segments = segs, an_chains = groups\<rparr>"

definition WINDOWS_UNSUPPORTED_TOKENS :: "char list" where
  "WINDOWS_UNSUPPORTED_TOKENS = ''&|<>^()%!'' @ [NL, CR]"

definition findWindowsUnsupportedToken :: "string \<Rightarrow> string option" where
  "findWindowsUnsupportedToken command =
     map_option (\<lambda>ch. if ch = NL \<or> ch = CR then ''newline'' else [ch])
       (find (\<lambda>ch. ch \<in> set WINDOWS_UNSUPPORTED_TOKENS) command)"

text \<open>Tokens so far, buffer, inside double quotes.\<close>

fun win_loop :: "string \<Rightarrow> string list \<Rightarrow> string \<Rightarrow> bool \<Rightarrow> string list option" where
  "win_loop [] tokens buf inDouble =
     (if inDouble then None
      else let ts = (if buf \<noteq> [] then tokens @ [buf] else tokens) in if ts \<noteq> [] then Some ts else None)"
| "win_loop (ch # r) tokens buf inDouble =
     (if ch = DQ then win_loop r tokens buf (\<not> inDouble)
      else if \<not> inDouble \<and> is_ws ch then
        (if buf \<noteq> [] then win_loop r (tokens @ [buf]) [] inDouble else win_loop r tokens buf inDouble)
      else win_loop r tokens (buf @ [ch]) inDouble)"

definition tokenizeWindowsSegment :: "string \<Rightarrow> string list option" where
  "tokenizeWindowsSegment segment = win_loop segment [] [] False"

definition mkSegment :: "host \<Rightarrow> string option \<Rightarrow> js_env \<Rightarrow> string \<Rightarrow> string list \<Rightarrow> ExecCommandSegment" where
  "mkSegment h cwd env raw argv =
     \<lparr>seg_raw = raw, seg_argv = argv, seg_resolution = resolveCommandResolutionFromArgv h argv cwd env\<rparr>"

definition analyzeWindowsShellCommand :: "host \<Rightarrow> string \<Rightarrow> string option \<Rightarrow> js_env \<Rightarrow> ExecCommandAnalysis" where
  "analyzeWindowsShellCommand h command cwd env =
     (case findWindowsUnsupportedToken command of
        Some t \<Rightarrow> analysisError (''unsupported windows shell token: '' @ t)
      | None \<Rightarrow>
        (case tokenizeWindowsSegment command of
           None \<Rightarrow> analysisError ''unable to parse windows command''
         | Some argv \<Rightarrow> if argv = [] then analysisError ''unable to parse windows command''
             else analysisOk [mkSegment h cwd env command argv] None))"

definition isWindowsPlatform :: "string option \<Rightarrow> bool" where
  "isWindowsPlatform platform = starts_with (to_lower (trim (nullish platform []))) ''win''"

fun parseSegmentsFromParts :: "host \<Rightarrow> string option \<Rightarrow> js_env \<Rightarrow> string list \<Rightarrow> ExecCommandSegment list option" where
  "parseSegmentsFromParts h cwd env [] = Some []"
| "parseSegmentsFromParts h cwd env (raw # parts) =
     (case splitShellArgs raw of None \<Rightarrow> None
      | Some argv \<Rightarrow> if argv = [] then None
          else map_option ((#) (mkSegment h cwd env raw argv)) (parseSegmentsFromParts h cwd env parts))"

definition pipelineSegments :: "host \<Rightarrow> string option \<Rightarrow> js_env \<Rightarrow> string \<Rightarrow> string + ExecCommandSegment list" where
  "pipelineSegments h cwd env part =
     (case splitShellPipeline part of Inl why \<Rightarrow> Inl why
      | Inr parts \<Rightarrow> (case parseSegmentsFromParts h cwd env parts of
          None \<Rightarrow> Inl ''unable to parse shell segment'' | Some segs \<Rightarrow> Inr segs))"

fun analyzeChain :: "host \<Rightarrow> string option \<Rightarrow> js_env \<Rightarrow> string list \<Rightarrow> string + ExecCommandSegment list list" where
  "analyzeChain h cwd env [] = Inr []"
| "analyzeChain h cwd env (part # parts) =
     (case pipelineSegments h cwd env part of Inl why \<Rightarrow> Inl why
      | Inr segs \<Rightarrow> (case analyzeChain h cwd env parts of Inl why \<Rightarrow> Inl why | Inr groups \<Rightarrow> Inr (segs # groups)))"

definition analyzeShellCommand :: "host \<Rightarrow> string \<Rightarrow> string option \<Rightarrow> js_env \<Rightarrow> string option \<Rightarrow> ExecCommandAnalysis" where
  "analyzeShellCommand h command cwd env platform =
     (if isWindowsPlatform platform then analyzeWindowsShellCommand h command cwd env
      else case splitCommandChain command of
        Some chainParts \<Rightarrow>
          (case analyzeChain h cwd env chainParts of
             Inl why \<Rightarrow> analysisError why
           | Inr groups \<Rightarrow> analysisOk (concat groups) (Some groups))
      | None \<Rightarrow>
          (case pipelineSegments h cwd env command of
             Inl why \<Rightarrow> analysisError why
           | Inr segs \<Rightarrow> analysisOk segs None))"

definition analyzeArgvCommand :: "host \<Rightarrow> string list \<Rightarrow> string option \<Rightarrow> js_env \<Rightarrow> ExecCommandAnalysis" where
  "analyzeArgvCommand h argv0 cwd env =
     (let argv = filter (\<lambda>e. trim e \<noteq> []) argv0 in
      if argv = [] then analysisError ''empty argv''
      else analysisOk [mkSegment h cwd env (join '' '' argv) argv] None)"

subsection \<open>Rebuilding a command with literal arguments\<close>

text \<open>The suffix \<open> ` ${part.opToNext} `\<close>.\<close>

definition opText :: "ShellChainOperator option \<Rightarrow> string" where
  "opText opn = (case opn of None \<Rightarrow> [] | Some op \<Rightarrow> '' '' @ show_op op @ '' '')"

fun renderSegments :: "string list \<Rightarrow> string list option" where
  "renderSegments [] = Some []"
| "renderSegments (raw # rs) =
     (case splitShellArgs raw of None \<Rightarrow> None
      | Some argv \<Rightarrow> if argv = [] then None else map_option ((#) (renderQuotedArgv argv)) (renderSegments rs))"

fun renderChain :: "ShellChainPart list \<Rightarrow> string + string" where
  "renderChain [] = Inr []"
| "renderChain ((part, opn) # ps) =
     (case splitShellPipeline part of Inl why \<Rightarrow> Inl why
      | Inr segs \<Rightarrow> (case renderSegments segs of None \<Rightarrow> Inl ''unable to parse shell segment''
        | Some rendered \<Rightarrow> (case renderChain ps of Inl why \<Rightarrow> Inl why
            | Inr out \<Rightarrow> Inr (join '' | '' rendered @ opText opn @ out))))"

definition chainPartsOf :: "string \<Rightarrow> ShellChainPart list" where
  "chainPartsOf source = nullish (splitCommandChainWithOperators source) [(source, None)]"

definition buildSafeShellCommand :: "string \<Rightarrow> string option \<Rightarrow> string + string" where
  "buildSafeShellCommand command platform =
     (if isWindowsPlatform platform then Inl ''unsupported platform''
      else let source = trim command in
        if source = [] then Inl ''empty command'' else renderChain (chainPartsOf source))"

datatype satisfiedBy = ByAllowlist | BySafeBins | BySkills

text \<open>One pipeline: the raw pieces against the segments and their reasons, in step; the result is the
  rendered pieces and what is left of both lists.\<close>

fun renderSafeBins :: "string list \<Rightarrow> ExecCommandSegment list \<Rightarrow> satisfiedBy option list \<Rightarrow>
    (string list \<times> ExecCommandSegment list \<times> satisfiedBy option list) option" where
  "renderSafeBins [] segs bys = Some ([], segs, bys)"
| "renderSafeBins (raw # rs) (seg # segs) (by' # bys) =
     map_option (\<lambda>(out, rest). ((if by' = Some BySafeBins then renderQuotedArgv (seg_argv seg) else trim raw) # out, rest))
       (renderSafeBins rs segs bys)"
| "renderSafeBins (raw # rs) segs bys = None"

fun renderSafeBinsChain :: "ShellChainPart list \<Rightarrow> ExecCommandSegment list \<Rightarrow> satisfiedBy option list \<Rightarrow> string + string" where
  "renderSafeBinsChain [] segs bys = (if segs = [] then Inr [] else Inl ''segment count mismatch'')"
| "renderSafeBinsChain ((part, opn) # ps) segs bys =
     (case splitShellPipeline part of Inl why \<Rightarrow> Inl why
      | Inr raws \<Rightarrow> (case renderSafeBins raws segs bys of None \<Rightarrow> Inl ''segment mapping failed''
        | Some (rendered, segs', bys') \<Rightarrow> (case renderSafeBinsChain ps segs' bys' of Inl why \<Rightarrow> Inl why
            | Inr out \<Rightarrow> Inr (join '' | '' rendered @ opText opn @ out))))"

definition buildSafeBinsShellCommand :: "string \<Rightarrow> ExecCommandSegment list \<Rightarrow> satisfiedBy option list \<Rightarrow> string option \<Rightarrow> string + string" where
  "buildSafeBinsShellCommand command segs bys platform =
     (if isWindowsPlatform platform then Inl ''unsupported platform''
      else if length segs \<noteq> length bys then Inl ''segment metadata mismatch''
      else renderSafeBinsChain (chainPartsOf (trim command)) segs bys)"


section \<open>The rebuilt command runs the same argument vectors\<close>

text \<open>Text that a scanner in its plain state copies unchanged, whatever follows.\<close>

definition sc_idle :: "sc_state \<Rightarrow> bool" where
  "sc_idle st \<longleftrightarrow> \<not> sc_inSingle st \<and> \<not> sc_inDouble st \<and> \<not> sc_escaped st"

definition sc_neutral :: "string \<Rightarrow> bool" where
  "sc_neutral s \<longleftrightarrow> (\<forall>rest st. sc_idle st \<longrightarrow> sc_loop (s @ rest) st = sc_loop rest (sc_emit s st))"

definition sp_idle :: "sp_state \<Rightarrow> bool" where
  "sp_idle st \<longleftrightarrow> \<not> sp_inSingle st \<and> \<not> sp_inDouble st \<and> \<not> sp_escaped st \<and> \<not> sp_inHeredocBody st
     \<and> sp_pendingHeredocs st = []"

definition sp_neutral :: "string \<Rightarrow> bool" where
  "sp_neutral s \<longleftrightarrow> (\<forall>rest st. sp_idle st \<longrightarrow> sp_loop (s @ rest) st = sp_loop rest (sp_emit s st))"

lemma sc_emit_emit [simp]: "sc_emit b (sc_emit a st) = sc_emit (a @ b) st"
  by (simp add: sc_emit_def)

lemma sp_emit_emit [simp]: "sp_emit b (sp_emit a st) = sp_emit (a @ b) st"
  by (simp add: sp_emit_def)

lemma idle_emit [simp]: "sc_idle (sc_emit s st1) = sc_idle st1" "sp_idle (sp_emit s st2) = sp_idle st2"
  by (simp_all add: sc_idle_def sc_emit_def sp_idle_def sp_emit_def)

lemma sc_neutral_append: "sc_neutral a \<Longrightarrow> sc_neutral b \<Longrightarrow> sc_neutral (a @ b)"
  by (simp add: sc_neutral_def)

lemma sp_neutral_append: "sp_neutral a \<Longrightarrow> sp_neutral b \<Longrightarrow> sp_neutral (a @ b)"
  by (simp add: sp_neutral_def)

lemma neutral_join:
  "(\<And>w. w \<in> set ws \<Longrightarrow> sc_neutral w) \<Longrightarrow> sc_neutral sep \<Longrightarrow> ws \<noteq> [] \<Longrightarrow> sc_neutral (join sep ws)"
  "(\<And>w. w \<in> set ws \<Longrightarrow> sp_neutral w) \<Longrightarrow> sp_neutral sep \<Longrightarrow> ws \<noteq> [] \<Longrightarrow> sp_neutral (join sep ws)"
  by (induction sep ws rule: join.induct) (auto intro: sc_neutral_append sp_neutral_append)

lemma neutral_space: "sc_neutral '' ''" "sp_neutral '' ''"
  by (auto simp: sc_neutral_def sc_idle_def sc_step_def sp_neutral_def sp_idle_def sp_step_def
      sp_quoting_def sp_operator_def DISALLOWED_PIPELINE_TOKENS_def)

lemma sc_neutral_pipe: "sc_neutral '' | ''"
  by (auto simp: sc_neutral_def sc_idle_def sc_step_def peek_def sc_emit_def)

lemma sc_loop_quoted_body:
  "sc_inSingle st \<Longrightarrow> \<not> sc_inDouble st \<Longrightarrow> \<not> sc_escaped st \<Longrightarrow>
   sc_loop (replaceQuotes v @ SQ # rest) st
     = sc_loop rest (st\<lparr>sc_buf := sc_buf st @ replaceQuotes v @ [SQ], sc_inSingle := False\<rparr>)"
proof (induction v arbitrary: st)
  case (Cons c v)
  have "sc_loop (replaceQuotes (c # v) @ SQ # rest) st
      = sc_loop (replaceQuotes v @ SQ # rest) (sc_emit (replaceQuotes [c]) st)"
    using Cons.prems
    by (cases st) (simp add: replaceQuotes_def singleQuoteEscape_def sc_step_def sc_emit_def isDoubleQuoteEscape_def peek_def)
  with Cons.IH [of "sc_emit (replaceQuotes [c]) st"] Cons.prems show ?case
    by (simp add: sc_emit_def replaceQuotes_def)
next
  case Nil
  then show ?case by (cases st) (simp add: replaceQuotes_def sc_step_def sc_emit_def)
qed

lemma sp_loop_quoted_body:
  "sp_inSingle st \<Longrightarrow> \<not> sp_inDouble st \<Longrightarrow> \<not> sp_escaped st \<Longrightarrow> \<not> sp_inHeredocBody st \<Longrightarrow>
   sp_loop (replaceQuotes v @ SQ # rest) st
     = sp_loop rest ((sp_emit (replaceQuotes v @ [SQ]) st)\<lparr>sp_inSingle := False\<rparr>)"
proof (induction v arbitrary: st)
  case (Cons c v)
  have "sp_loop (replaceQuotes (c # v) @ SQ # rest) st
      = sp_loop (replaceQuotes v @ SQ # rest) (sp_emit (replaceQuotes [c]) st)"
    using Cons.prems
    by (cases st) (simp add: replaceQuotes_def singleQuoteEscape_def sp_step_def sp_quoting_def sp_emit_def
        isDoubleQuoteEscape_def peek_def)
  with Cons.IH [of "sp_emit (replaceQuotes [c]) st"] Cons.prems show ?case
    by (simp add: sp_emit_def replaceQuotes_def)
next
  case Nil
  then show ?case by (cases st) (simp add: replaceQuotes_def sp_step_def sp_quoting_def sp_emit_def)
qed

lemma sc_neutral_quoted: "sc_neutral (shellEscapeSingleArg v)"
  unfolding sc_neutral_def
proof (intro allI impI)
  fix rest st assume "sc_idle st"
  then show "sc_loop (shellEscapeSingleArg v @ rest) st = sc_loop rest (sc_emit (shellEscapeSingleArg v) st)"
    by (cases st) (simp add: shellEscapeSingleArg_def sc_idle_def sc_step_def sc_emit_def sc_loop_quoted_body)
qed

lemma sp_neutral_quoted: "sp_neutral (shellEscapeSingleArg v)"
  unfolding sp_neutral_def
proof (intro allI impI)
  fix rest st assume "sp_idle st"
  then show "sp_loop (shellEscapeSingleArg v @ rest) st = sp_loop rest (sp_emit (shellEscapeSingleArg v) st)"
    by (cases st) (simp add: shellEscapeSingleArg_def sp_idle_def sp_step_def sp_quoting_def sp_emit_def sp_loop_quoted_body)
qed

lemma neutral_rendered:
  "argv \<noteq> [] \<Longrightarrow> sc_neutral (renderQuotedArgv argv)" "argv \<noteq> [] \<Longrightarrow> sp_neutral (renderQuotedArgv argv)"
  by (auto simp: renderQuotedArgv_def intro!: neutral_join neutral_space sc_neutral_quoted sp_neutral_quoted)


lemma join_ends:
  assumes "ws \<noteq> []" "\<forall>w \<in> set ws. w \<noteq> [] \<and> hd w = c \<and> last w = c"
  shows "join sep ws \<noteq> [] \<and> hd (join sep ws) = c \<and> last (join sep ws) = c"
  using assms by (induction sep ws rule: join.induct) auto

lemma quoted_ends: "shellEscapeSingleArg v \<noteq> [] \<and> hd (shellEscapeSingleArg v) = SQ \<and> last (shellEscapeSingleArg v) = SQ"
  by (simp add: shellEscapeSingleArg_def)

lemma rendered_ends:
  "argv \<noteq> [] \<Longrightarrow> renderQuotedArgv argv \<noteq> [] \<and> hd (renderQuotedArgv argv) = SQ \<and> last (renderQuotedArgv argv) = SQ"
  unfolding renderQuotedArgv_def by (rule join_ends) (auto simp: quoted_ends)

lemma trim_padded:
  assumes "s \<noteq> []" "\<not> is_ws (hd s)" "\<not> is_ws (last s)" "\<forall>c \<in> set a. is_ws c" "\<forall>c \<in> set b. is_ws c"
  shows "trim (a @ s @ b) = s"
proof -
  have "dropWhile is_ws (a @ s @ b) = s @ b" using assms(1,2,4) by (cases s) (auto simp: dropWhile_append2)
  moreover have "dropWhile is_ws (rev b @ rev s) = rev s"
    using assms(1,3,5) dropWhile_append2 [of "rev b" is_ws "rev s"] by (cases s rule: rev_cases) simp_all
  ultimately show ?thesis by (simp add: trim_def)
qed

lemma trim_rendered:
  assumes "argv \<noteq> []" "\<forall>c \<in> set a. is_ws c" "\<forall>c \<in> set b. is_ws c"
  shows "trim (a @ renderQuotedArgv argv @ b) = renderQuotedArgv argv"
  using trim_padded [OF _ _ _ assms(2,3), of "renderQuotedArgv argv"] rendered_ends [OF assms(1)] by simp

definition pipelineText :: "string list list \<Rightarrow> string" where
  "pipelineText argvs = join '' | '' (map renderQuotedArgv argvs)"

definition good_argvs :: "string list list \<Rightarrow> bool" where
  "good_argvs argvs \<longleftrightarrow> argvs \<noteq> [] \<and> (\<forall>argv \<in> set argvs. argv \<noteq> [] \<and> [] \<notin> set argv)"

lemma pipelineText_ends:
  assumes "good_argvs argvs"
  shows "pipelineText argvs \<noteq> [] \<and> hd (pipelineText argvs) = SQ \<and> last (pipelineText argvs) = SQ"
  unfolding pipelineText_def by (rule join_ends) (use assms rendered_ends in \<open>auto simp: good_argvs_def\<close>)

lemma sc_neutral_pipelineText: "good_argvs argvs \<Longrightarrow> sc_neutral (pipelineText argvs)"
  unfolding pipelineText_def by (rule neutral_join) (auto simp: good_argvs_def neutral_rendered sc_neutral_pipe)

lemma trim_pipelineText:
  assumes "good_argvs argvs" "\<forall>c \<in> set a. is_ws c" "\<forall>c \<in> set b. is_ws c"
  shows "trim (a @ pipelineText argvs @ b) = pipelineText argvs"
  using trim_padded [OF _ _ _ assms(2,3), of "pipelineText argvs"] pipelineText_ends [OF assms(1)] by simp

text \<open>The pipeline scanner on a rendered pipeline.\<close>

lemma sp_loop_pipe:
  assumes "sp_idle st"
  shows "sp_loop ('' | '' @ rest) st = sp_loop rest (sp_emit '' '' (sp_pushPart ((sp_emit '' '' st)\<lparr>sp_emptySegment := True\<rparr>)))"
proof -
  have "sp_idle (sp_pushPart ((sp_emit '' '' st)\<lparr>sp_emptySegment := True\<rparr>))"
    using assms by (simp add: sp_idle_def sp_pushPart_def sp_emit_def Let_def)
  then have "sp_loop ('' '' @ rest) (sp_pushPart ((sp_emit '' '' st)\<lparr>sp_emptySegment := True\<rparr>))
      = sp_loop rest (sp_emit '' '' (sp_pushPart ((sp_emit '' '' st)\<lparr>sp_emptySegment := True\<rparr>)))"
    using neutral_space(2) unfolding sp_neutral_def by blast
  then show ?thesis
    using assms neutral_space(2) [unfolded sp_neutral_def, rule_format, OF assms, of "''| '' @ rest"]
    by (simp add: sp_idle_def sp_step_def sp_quoting_def sp_operator_def peek_def sp_emit_def
        DISALLOWED_PIPELINE_TOKENS_def)
qed

lemma sp_loop_pipelineText:
  assumes "good_argvs argvs" "sp_idle st" "\<forall>c \<in> set (sp_buf st). is_ws c"
  shows "\<exists>st'. sp_loop (pipelineText argvs) st = Inr st' \<and> sp_finish st' = Inr (sp_segments st @ map renderQuotedArgv argvs)"
  using assms
proof (induction argvs arbitrary: st rule: induct_list012)
  case (2 x)
  then have x: "x \<noteq> []" by (simp add: good_argvs_def)
  have "sp_loop (renderQuotedArgv x @ []) st = sp_loop [] (sp_emit (renderQuotedArgv x) st)"
    using neutral_rendered(2) [OF x] 2 unfolding sp_neutral_def by blast
  moreover have "trim (sp_buf st @ renderQuotedArgv x) = renderQuotedArgv x"
    using trim_rendered [OF x "2.prems"(3), of "[]"] by simp
  ultimately show ?case using "2.prems"(2) rendered_ends [OF x]
    by (simp add: pipelineText_def sp_finish_def sp_emit_def sp_idle_def sp_pushPart_def Let_def)
next
  case (3 x y zs)
  then have x: "x \<noteq> []" by (simp add: good_argvs_def)
  define st1 where "st1 = sp_emit '' '' (sp_pushPart ((sp_emit '' '' (sp_emit (renderQuotedArgv x) st))\<lparr>sp_emptySegment := True\<rparr>))"
  have "sp_loop (pipelineText (x # y # zs)) st = sp_loop (renderQuotedArgv x @ '' | '' @ pipelineText (y # zs)) st"
    by (simp add: pipelineText_def)
  also have "\<dots> = sp_loop ('' | '' @ pipelineText (y # zs)) (sp_emit (renderQuotedArgv x) st)"
    using neutral_rendered(2) [OF x] "3.prems"(2) unfolding sp_neutral_def by blast
  also have "\<dots> = sp_loop (pipelineText (y # zs)) st1"
    unfolding st1_def by (rule sp_loop_pipe) (use "3.prems"(2) in simp)
  finally have step: "sp_loop (pipelineText (x # y # zs)) st = sp_loop (pipelineText (y # zs)) st1" .
  have "trim (sp_buf st @ renderQuotedArgv x @ '' '') = renderQuotedArgv x"
    using trim_rendered [OF x "3.prems"(3), of "'' ''"] by simp
  then have "sp_segments st1 = sp_segments st @ [renderQuotedArgv x]" "sp_buf st1 = '' ''" "sp_idle st1"
    using "3.prems"(2) rendered_ends [OF x] by (simp_all add: st1_def sp_pushPart_def sp_emit_def sp_idle_def Let_def)
  with "3.IH"(2) [of st1] "3.prems"(1) step show ?case by (simp add: good_argvs_def)
qed (simp add: good_argvs_def)

lemma splitShellPipeline_pipelineText:
  assumes "good_argvs argvs" shows "splitShellPipeline (pipelineText argvs) = Inr (map renderQuotedArgv argvs)"
  using sp_loop_pipelineText [OF assms, of sp_init]
  by (auto simp: splitShellPipeline_def sp_idle_def sp_init_def)

lemma parseSegments_rendered:
  "(\<And>argv. argv \<in> set argvs \<Longrightarrow> argv \<noteq> [] \<and> [] \<notin> set argv) \<Longrightarrow>
   \<exists>segs. parseSegmentsFromParts h cwd env (map renderQuotedArgv argvs) = Some segs \<and> map seg_argv segs = argvs"
proof (induction argvs)
  case (Cons argv argvs)
  then have "filter (\<lambda>t. t \<noteq> []) argv = argv" "argv \<noteq> []" by (auto intro!: filter_True)
  with Cons show ?case by (auto simp: splitShellArgs_quoted mkSegment_def)
qed simp

lemma pipelineSegments_text:
  assumes "good_argvs argvs"
  shows "\<exists>segs. pipelineSegments h cwd env (pipelineText argvs) = Inr segs \<and> map seg_argv segs = argvs"
  using parseSegments_rendered [of argvs h cwd env] assms
  by (auto simp: pipelineSegments_def splitShellPipeline_pipelineText good_argvs_def)


text \<open>The chain scanner on a rendered chain.\<close>

fun chainText :: "(string list list \<times> ShellChainOperator option) list \<Rightarrow> string" where
  "chainText [] = []"
| "chainText ((argvs, opn) # cs) = pipelineText argvs @ opText opn @ chainText cs"

fun chain_shape :: "('a \<times> ShellChainOperator option) list \<Rightarrow> bool" where
  "chain_shape [] = False"
| "chain_shape [(_, opn)] = (opn = None)"
| "chain_shape ((_, opn) # c # cs) = (opn \<noteq> None \<and> chain_shape (c # cs))"

lemma sc_loop_opText:
  assumes "sc_idle st"
  shows "sc_loop (opText (Some op) @ rest) st = sc_loop rest (sc_emit '' '' (sc_pushPart op (sc_emit '' '' st)))"
proof -
  have idle: "sc_idle (sc_pushPart op (sc_emit '' '' st))"
    using assms by (simp add: sc_idle_def sc_pushPart_def sc_emit_def Let_def)
  have "sc_loop (show_op op @ '' '' @ rest) (sc_emit '' '' st) = sc_loop ('' '' @ rest) (sc_pushPart op (sc_emit '' '' st))"
    using assms by (cases op) (simp_all add: show_op_def sc_step_def sc_idle_def sc_emit_def peek_def)
  then show ?thesis
    using neutral_space(1) [unfolded sc_neutral_def, rule_format, OF assms, of "show_op op @ '' '' @ rest"]
      neutral_space(1) [unfolded sc_neutral_def, rule_format, OF idle, of rest]
    by (simp add: opText_def)
qed

definition sc_result :: "sc_state \<Rightarrow> ShellChainPart list option" where
  "sc_result st = (if \<not> sc_foundChain st then None
      else let trimmed = trim (sc_buf st) in
        if trimmed = [] then None
        else let parts = sc_parts st @ [(trimmed, None)] in
          if sc_invalidChain st \<or> parts = [] then None else Some parts)"

lemma sc_loop_chainText:
  assumes "chain_shape cs" "\<forall>c \<in> set cs. good_argvs (fst c)" "sc_idle st" "\<not> sc_invalidChain st"
    "\<forall>c \<in> set (sc_buf st). is_ws c" "sc_foundChain st \<or> length cs \<ge> 2"
  shows "sc_result (sc_loop (chainText cs) st) = Some (sc_parts st @ map (\<lambda>(as, opn). (pipelineText as, opn)) cs)"
  using assms
proof (induction cs arbitrary: st rule: chain_shape.induct)
  case (2 as opn)
  then have g: "good_argvs as" by simp
  have "sc_loop (pipelineText as @ []) st = sc_loop [] (sc_emit (pipelineText as) st)"
    using sc_neutral_pipelineText [OF g] 2 unfolding sc_neutral_def by blast
  moreover have "trim (sc_buf st @ pipelineText as) = pipelineText as"
    using trim_pipelineText [OF g "2.prems"(5), of "[]"] by simp
  ultimately show ?case using 2 pipelineText_ends [OF g]
    by (simp add: opText_def sc_result_def sc_emit_def Let_def)
next
  case (3 as opn c cs)
  then obtain op where op: "opn = Some op" and g: "good_argvs as" by auto
  define st1 where "st1 = sc_emit '' '' (sc_pushPart op (sc_emit '' '' (sc_emit (pipelineText as) st)))"
  have "sc_loop (chainText ((as, opn) # c # cs)) st = sc_loop (opText opn @ chainText (c # cs)) (sc_emit (pipelineText as) st)"
    using sc_neutral_pipelineText [OF g] "3.prems"(3) unfolding sc_neutral_def chainText.simps by blast
  also have "\<dots> = sc_loop (chainText (c # cs)) st1"
    unfolding st1_def op by (rule sc_loop_opText) (use "3.prems"(3) in simp)
  finally have step: "sc_loop (chainText ((as, opn) # c # cs)) st = sc_loop (chainText (c # cs)) st1" .
  have "trim (sc_buf st @ pipelineText as @ '' '') = pipelineText as"
    using trim_pipelineText [OF g "3.prems"(5), of "'' ''"] by simp
  then have "sc_parts st1 = sc_parts st @ [(pipelineText as, Some op)]" "sc_buf st1 = '' ''" "sc_idle st1"
    "\<not> sc_invalidChain st1" "sc_foundChain st1"
    using 3 pipelineText_ends [OF g] by (simp_all add: st1_def sc_pushPart_def sc_emit_def sc_idle_def Let_def)
  with "3.IH" [of st1] "3.prems"(1,2) op step show ?case by simp
qed simp

lemma sc_loop_single:
  assumes "good_argvs as" shows "splitCommandChainWithOperators (pipelineText as) = None"
proof -
  have i: "sc_idle sc_init" "\<not> sc_foundChain sc_init" by (simp_all add: sc_idle_def sc_init_def)
  have "sc_loop (pipelineText as @ []) sc_init = sc_loop [] (sc_emit (pipelineText as) sc_init)"
    using sc_neutral_pipelineText [OF assms] i(1) unfolding sc_neutral_def by blast
  then show ?thesis using i(2) by (simp add: splitCommandChainWithOperators_def sc_emit_def)
qed

text \<open>The chain scanner returns at least two parts, all but the last with their operator.\<close>

lemma sc_step_parts:
  assumes "sc_step ch rest st = (st', r)" "\<forall>p \<in> set (sc_parts st). snd p \<noteq> None"
    "sc_foundChain st \<Longrightarrow> \<not> sc_invalidChain st \<Longrightarrow> sc_parts st \<noteq> []"
  shows "(\<forall>p \<in> set (sc_parts st'). snd p \<noteq> None) \<and> (sc_foundChain st' \<longrightarrow> \<not> sc_invalidChain st' \<longrightarrow> sc_parts st' \<noteq> [])"
  using assms by (auto simp: sc_step_def sc_emit_def sc_pushPart_def Let_def split: if_splits)

lemma sc_loop_parts:
  "\<forall>p \<in> set (sc_parts st). snd p \<noteq> None \<Longrightarrow>
   (sc_foundChain st \<longrightarrow> \<not> sc_invalidChain st \<longrightarrow> sc_parts st \<noteq> []) \<Longrightarrow> st' = sc_loop s st \<Longrightarrow>
   (\<forall>p \<in> set (sc_parts st'). snd p \<noteq> None) \<and> (sc_foundChain st' \<longrightarrow> \<not> sc_invalidChain st' \<longrightarrow> sc_parts st' \<noteq> [])"
proof (induction s st rule: sc_loop.induct)
  case (2 ch rest st)
  obtain st1 r where s: "sc_step ch rest st = (st1, r)" by fastforce
  from sc_step_parts [OF s] "2.prems"(1,2)
  have "(\<forall>p \<in> set (sc_parts st1). snd p \<noteq> None) \<and> (sc_foundChain st1 \<longrightarrow> \<not> sc_invalidChain st1 \<longrightarrow> sc_parts st1 \<noteq> [])"
    by blast
  with "2.IH" [OF s [symmetric]] "2.prems"(3) s show ?case by simp
qed simp

lemma chain_shape_snoc: "\<forall>p \<in> set ps. snd p \<noteq> None \<Longrightarrow> chain_shape (ps @ [(a, None)])"
proof (induction ps)
  case (Cons p ps)
  then show ?case by (cases p; cases ps) auto
qed simp

lemma splitCommandChain_shape:
  assumes "splitCommandChainWithOperators c = Some ps" shows "chain_shape ps \<and> length ps \<ge> 2"
proof -
  let ?st = "sc_loop c sc_init"
  have p: "ps = sc_parts ?st @ [(trim (sc_buf ?st), None)]" "sc_foundChain ?st" "\<not> sc_invalidChain ?st"
    using assms by (auto simp: splitCommandChainWithOperators_def Let_def split: if_splits)
  have q: "(\<forall>p \<in> set (sc_parts ?st). snd p \<noteq> None) \<and> (sc_foundChain ?st \<longrightarrow> \<not> sc_invalidChain ?st \<longrightarrow> sc_parts ?st \<noteq> [])"
    by (rule sc_loop_parts [of sc_init ?st c]) (simp_all add: sc_init_def)
  have "chain_shape ps" unfolding p(1) using q by (intro chain_shape_snoc) blast
  moreover have "sc_parts ?st \<noteq> []" using q p by blast
  ultimately show ?thesis using p(1) by (cases "sc_parts ?st") auto
qed


lemma splitShellPipeline_nonempty: "splitShellPipeline s = Inr segs \<Longrightarrow> segs \<noteq> []"
  by (auto simp: splitShellPipeline_def sp_finish_def Let_def split: sum.splits if_splits)

lemma renderSegments_argvs:
  "renderSegments raws = Some rendered \<Longrightarrow>
   \<exists>argvs. rendered = map renderQuotedArgv argvs \<and> length argvs = length raws \<and>
     (\<forall>argv \<in> set argvs. argv \<noteq> [] \<and> [] \<notin> set argv) \<and>
     (\<exists>segs. parseSegmentsFromParts h cwd env raws = Some segs \<and> map seg_argv segs = argvs)"
proof (induction raws arbitrary: rendered)
  case (Cons raw raws)
  then obtain argv out where a: "splitShellArgs raw = Some argv" "argv \<noteq> []" "renderSegments raws = Some out"
    "rendered = renderQuotedArgv argv # out" by (auto split: option.splits if_splits)
  from Cons.IH [OF a(3)] obtain argvs where
    "out = map renderQuotedArgv argvs" "length argvs = length raws" "\<forall>argv \<in> set argvs. argv \<noteq> [] \<and> [] \<notin> set argv"
    "\<exists>segs. parseSegmentsFromParts h cwd env raws = Some segs \<and> map seg_argv segs = argvs" by blast
  with a splitShellArgs_nonempty_tokens [OF a(1)] show ?case
    by (intro exI [of _ "argv # argvs"]) (auto simp: mkSegment_def)
qed simp

lemma renderChain_text:
  "renderChain ps = Inr out \<Longrightarrow>
   \<exists>cs. map snd cs = map snd ps \<and> out = chainText cs \<and> (\<forall>c \<in> set cs. good_argvs (fst c)) \<and>
     (\<exists>groups. analyzeChain h cwd env (map fst ps) = Inr groups \<and> map (map seg_argv) groups = map fst cs)"
proof (induction ps arbitrary: out)
  case (Cons p ps)
  obtain part opn where p: "p = (part, opn)" by fastforce
  from Cons.prems p obtain raws rendered out' where a: "splitShellPipeline part = Inr raws"
    "renderSegments raws = Some rendered" "renderChain ps = Inr out'" "out = join '' | '' rendered @ opText opn @ out'"
    by (auto split: sum.splits option.splits)
  from renderSegments_argvs [OF a(2)] obtain argvs segs where r: "rendered = map renderQuotedArgv argvs"
    "length argvs = length raws" "\<forall>argv \<in> set argvs. argv \<noteq> [] \<and> [] \<notin> set argv"
    "parseSegmentsFromParts h cwd env raws = Some segs" "map seg_argv segs = argvs" by blast
  from Cons.IH [OF a(3)] obtain cs groups where c: "map snd cs = map snd ps" "out' = chainText cs"
    "\<forall>c \<in> set cs. good_argvs (fst c)" "analyzeChain h cwd env (map fst ps) = Inr groups"
    "map (map seg_argv) groups = map fst cs" by blast
  have "good_argvs argvs"
    using r(2,3) splitShellPipeline_nonempty [OF a(1)] by (auto simp: good_argvs_def)
  with a r c p show ?case
    by (intro exI [of _ "(argvs, opn) # cs"] conjI exI [of _ "segs # groups"])
      (simp_all add: pipelineText_def pipelineSegments_def)
qed simp

lemma analyzeChain_texts:
  "\<forall>c \<in> set cs. good_argvs (fst c) \<Longrightarrow>
   \<exists>groups. analyzeChain h cwd env (map (\<lambda>(as, _). pipelineText as) cs) = Inr groups \<and>
     map (map seg_argv) groups = map fst cs"
proof (induction cs)
  case (Cons c cs)
  obtain as opn where c: "c = (as, opn)" by fastforce
  from Cons c pipelineSegments_text [of as h cwd env] show ?case
    by (fastforce split: sum.splits)
qed simp

lemma chain_shape_map_snd: "map snd cs = map snd ps \<Longrightarrow> chain_shape ps \<Longrightarrow> chain_shape cs"
proof (induction cs arbitrary: ps)
  case (Cons c cs)
  obtain p ps' where ps: "ps = p # ps'" using Cons.prems by (cases ps) auto
  show ?case
  proof (cases cs)
    case Nil
    with Cons.prems ps show ?thesis by (cases c; cases p; cases ps') auto
  next
    case (Cons d ds)
    with Cons.prems ps obtain q qs where q: "ps' = q # qs" by (cases ps') auto
    with Cons ps Cons.prems Cons.IH [of ps'] show ?thesis by (cases c; cases p) auto
  qed
qed simp

lemma concat_argvs:
  "map (map seg_argv) g1 = map (map seg_argv) g2 \<Longrightarrow> map seg_argv (concat g1) = map seg_argv (concat g2)"
  by (metis map_concat)

text \<open>(C10) The rebuilt command is the command that was analysed: when \<open>buildSafeShellCommand\<close> returns a
  command, analysing it succeeds and finds exactly the argument vectors, in the same order, that the
  analysis of the original command finds; quoting every argument has changed no argument and added
  no operator.\<close>

theorem buildSafeShellCommand_same_argv:
  assumes "buildSafeShellCommand command platform = Inr out"
  shows "an_ok (analyzeShellCommand h (trim command) cwd env platform) \<and>
    an_ok (analyzeShellCommand h out cwd env platform) \<and>
    map seg_argv (an_segments (analyzeShellCommand h out cwd env platform))
      = map seg_argv (an_segments (analyzeShellCommand h (trim command) cwd env platform))"
proof -
  let ?src = "trim command" and ?ps = "chainPartsOf (trim command)"
  have w: "\<not> isWindowsPlatform platform" and rc: "renderChain ?ps = Inr out"
    using assms by (auto simp: buildSafeShellCommand_def Let_def split: if_splits)
  from renderChain_text [OF rc] obtain cs groups where cs: "map snd cs = map snd ?ps" "out = chainText cs"
    "\<forall>c \<in> set cs. good_argvs (fst c)" "analyzeChain h cwd env (map fst ?ps) = Inr groups"
    "map (map seg_argv) groups = map fst cs" by blast
  from analyzeChain_texts [OF cs(3)] obtain groups' where g': "map (map seg_argv) groups' = map fst cs"
    "analyzeChain h cwd env (map (\<lambda>(as, _). pipelineText as) cs) = Inr groups'" by blast
  show ?thesis
  proof (cases "splitCommandChainWithOperators ?src")
    case (Some ps)
    then have "chain_shape ?ps" "length ?ps \<ge> 2" using splitCommandChain_shape by (auto simp: chainPartsOf_def)
    then have "chain_shape cs" "length cs \<ge> 2"
      using chain_shape_map_snd [OF cs(1)] map_eq_imp_length_eq [OF cs(1)] by auto
    then have "splitCommandChainWithOperators out = Some (map (\<lambda>(as, opn). (pipelineText as, opn)) cs)"
      using sc_loop_chainText [of cs sc_init] cs(2,3)
      by (simp add: splitCommandChainWithOperators_def sc_result_def sc_idle_def sc_init_def)
    then have "splitCommandChain out = Some (map (\<lambda>(as, _). pipelineText as) cs)"
      by (simp add: splitCommandChain_def comp_def case_prod_beta)
    moreover have "splitCommandChain ?src = Some (map fst ?ps)"
      using Some by (simp add: splitCommandChain_def chainPartsOf_def)
    ultimately show ?thesis using w cs(4,5) g' concat_argvs [of groups' groups]
      by (simp add: analyzeShellCommand_def analysisOk_def)
  next
    case None
    then have ps: "?ps = [(?src, None)]" by (simp add: chainPartsOf_def)
    with cs(1) obtain as where as: "cs = [(as, None)]" by (cases cs) auto
    with ps cs g' have "splitCommandChain out = None" "pipelineSegments h cwd env out = Inr (concat groups')"
      "pipelineSegments h cwd env ?src = Inr (concat groups)"
      by (auto simp: splitCommandChain_def sc_loop_single opText_def split: sum.splits)
    moreover have "splitCommandChain ?src = None" using None by (simp add: splitCommandChain_def)
    ultimately show ?thesis using w cs(5) g'(1) concat_argvs [of groups' groups]
      by (simp add: analyzeShellCommand_def analysisOk_def)
  qed
qed


definition demo_host :: host where
  "demo_host = posix_host (\<lambda>p. p \<in> set [''/usr/bin/head'', ''/usr/bin/grep'', ''/bin/rm'']) ''/work''
     (\<lambda>n. if n = ''PATH'' then Some ''/usr/bin:/bin'' else if n = ''HOME'' then Some ''/home/u'' else None)"

definition demo_command :: string where
  "demo_command = ''head -n 1 *.txt | grep '' @ [DQ] @ ''it'' @ [SQ] @ ''s $HOME'' @ [DQ] @ '' && rm '' @ [BSL] @ '';x''"

definition demo_rebuilt :: string where
  "demo_rebuilt = (case buildSafeShellCommand demo_command None of Inr c \<Rightarrow> c | Inl _ \<Rightarrow> [])"

theorem buildSafeShellCommand_same_argv_witness:
  "an_ok (analyzeShellCommand demo_host (trim demo_command) None Map.empty None) \<and>
   an_ok (analyzeShellCommand demo_host demo_rebuilt None Map.empty None) \<and>
   map seg_argv (an_segments (analyzeShellCommand demo_host demo_rebuilt None Map.empty None))
     = map seg_argv (an_segments (analyzeShellCommand demo_host (trim demo_command) None Map.empty None))"
  by (rule buildSafeShellCommand_same_argv) code_simp


text \<open>The selective builder with every segment marked.\<close>

lemma renderSafeBins_all:
  "renderSegments raws = Some rendered \<Longrightarrow> parseSegmentsFromParts h cwd env raws = Some segs \<Longrightarrow>
   renderSafeBins raws (segs @ rest) (replicate (length segs) (Some BySafeBins) @ bys) = Some (rendered, rest, bys)"
proof (induction raws arbitrary: rendered segs)
  case (Cons raw raws)
  then show ?case by (auto simp: mkSegment_def split: option.splits if_splits)
qed auto

lemma renderSafeBinsChain_all:
  "analyzeChain h cwd env (map fst ps) = Inr groups \<Longrightarrow>
   renderSafeBinsChain ps (concat groups) (replicate (length (concat groups)) (Some BySafeBins)) = renderChain ps"
proof (induction ps arbitrary: groups)
  case (Cons p ps)
  obtain part opn where p: "p = (part, opn)" by fastforce
  from Cons.prems p obtain raws segs gs where a: "splitShellPipeline part = Inr raws"
    "parseSegmentsFromParts h cwd env raws = Some segs" "analyzeChain h cwd env (map fst ps) = Inr gs" "groups = segs # gs"
    by (auto simp: pipelineSegments_def split: sum.splits option.splits)
  obtain rendered where r: "renderSegments raws = Some rendered"
    using a(2) by (induction raws arbitrary: segs) (auto split: option.splits if_splits)
  have "renderSafeBins raws (concat groups) (replicate (length (concat groups)) (Some BySafeBins))
      = Some (rendered, concat gs, replicate (length (concat gs)) (Some BySafeBins))"
    using renderSafeBins_all [OF r a(2), of "concat gs" "replicate (length (concat gs)) (Some BySafeBins)"]
    by (simp add: a(4) replicate_add)
  with Cons.IH [OF a(3)] a(1) r p show ?case by (simp split: sum.splits)
qed auto

text \<open>The two rebuilders agree: when every segment of an analysed command is to be taken
  literally, \<open>buildSafeBinsShellCommand\<close> returns what \<open>buildSafeShellCommand\<close> returns.\<close>

theorem buildSafeBins_all_literal:
  assumes "an_ok (analyzeShellCommand h (trim command) cwd env platform)" "trim command \<noteq> []" "\<not> isWindowsPlatform platform"
    and "segs = an_segments (analyzeShellCommand h (trim command) cwd env platform)"
  shows "buildSafeBinsShellCommand command segs (replicate (length segs) (Some BySafeBins)) platform
    = buildSafeShellCommand command platform"
proof -
  obtain groups where g: "analyzeChain h cwd env (map fst (chainPartsOf (trim command))) = Inr groups" "segs = concat groups"
  proof (cases "splitCommandChainWithOperators (trim command)")
    case (Some ps)
    then show ?thesis using assms that
      by (auto simp: analyzeShellCommand_def splitCommandChain_def chainPartsOf_def analysisError_def analysisOk_def split: sum.splits)
  next
    case None
    then show ?thesis using assms that [of "[segs]"]
      by (auto simp: analyzeShellCommand_def splitCommandChain_def chainPartsOf_def analysisError_def analysisOk_def split: sum.splits)
  qed
  show ?thesis
    using renderSafeBinsChain_all [OF g(1)] assms(2,3) g(2)
    by (simp add: buildSafeBinsShellCommand_def buildSafeShellCommand_def Let_def)
qed

theorem buildSafeBins_all_literal_witness:
  "buildSafeBinsShellCommand demo_command
     (an_segments (analyzeShellCommand demo_host (trim demo_command) None Map.empty None))
     (replicate (length (an_segments (analyzeShellCommand demo_host (trim demo_command) None Map.empty None))) (Some BySafeBins)) None
    = buildSafeShellCommand demo_command None"
  by (rule buildSafeBins_all_literal [OF _ _ _ refl]) code_simp+

section \<open>What a pattern allows\<close>

definition plainChar :: "char \<Rightarrow> bool" where
  "plainChar c \<longleftrightarrow> c \<notin> set metaChars \<and> c \<noteq> CHR ''.''"

lemma lower_char_plain: "plainChar c \<Longrightarrow> plainChar (lower_char c)"
proof (cases "lower_char c = c")
  case False
  then have n: "65 \<le> (of_char c :: nat)" "(of_char c :: nat) \<le> 222" "(of_char c :: nat) \<le> 90 \<or> 192 \<le> (of_char c :: nat)"
    and l: "of_char (lower_char c) = (of_char c + 32 :: nat)"
    by (auto simp: lower_char_def Let_def of_char_of split: if_splits)
  have "lower_char c \<noteq> x" if "(of_char x :: nat) \<notin> {97..122} \<union> {224..254}" for x
    using n l that by auto
  then show ?thesis by (auto simp: plainChar_def metaChars_def)
qed simp

lemma to_lower_plain: "\<forall>c \<in> set s. plainChar c \<Longrightarrow> \<forall>c \<in> set (to_lower s). plainChar c"
  by (auto simp: to_lower_def lower_char_plain)

lemma replaceDoubleBackslash_id: "BSL \<notin> set s \<Longrightarrow> replaceDoubleBackslash s = s"
  by (induction s rule: replaceDoubleBackslash.induct) auto

lemma globBody_plain: "\<forall>c \<in> set s. plainChar c \<Longrightarrow> globBody (s @ t) = s @ globBody t"
proof (induction s)
  case (Cons c s)
  then have "c \<noteq> CHR ''*''" "c \<noteq> CHR ''?''" by (auto simp: plainChar_def metaChars_def)
  with Cons show ?case by (cases "s @ t") auto
qed simp

lemma rxBody_plain: "\<forall>c \<in> set s. plainChar c \<Longrightarrow> rxBody (s @ t) = map_option ((@) (map RxChar s)) (rxBody t)"
proof (induction s)
  case (Cons c s)
  then have "c \<noteq> CHR ''.''" "c \<notin> set metaChars" "c \<noteq> CHR ''[''" by (auto simp: plainChar_def metaChars_def)
  with Cons show ?case by (auto simp: starts_with_def option.map_comp comp_def)
qed (simp add: option.map_id0 [unfolded id_def] cong: map_option_cong)

lemma rxMatch_chars: "rxMatch (map RxChar s @ rs) t \<longleftrightarrow> (\<exists>u. t = s @ u \<and> rxMatch rs u)"
proof (induction s arbitrary: t)
  case (Cons c s)
  then show ?case by (cases t) auto
qed simp

lemma rxMatch_segStar: "rxMatch [RxSegStar] t \<longleftrightarrow> CHR ''/'' \<notin> set t"
  by (induction t) auto

lemma matchesPattern_posix:
  assumes "\<not> hostWin32 h" "p \<noteq> []" "trim p = p" "\<not> starts_with p ''~''" "BSL \<notin> set p" "BSL \<notin> set t"
  shows "matchesPattern h p t = regExpTestSource h (globToRegExp (to_lower p)) (to_lower t)"
  using assms
  by (simp add: matchesPattern_def expandTilde_def normalizeMatchTarget_def replaceDoubleBackslash_id Let_def)

lemma plain_no_bsl: "\<forall>c \<in> set d. plainChar c \<Longrightarrow> BSL \<notin> set d"
  by (auto simp: plainChar_def metaChars_def)

text \<open>A pattern ending in one star allows one directory level: for a directory without
  metacharacters, \<open>d/*\<close> matches exactly the paths that are \<open>d\<close>, a slash and a name without a slash,
  compared without case.\<close>

theorem glob_star_one_level:
  assumes "\<not> hostWin32 h" "\<forall>c \<in> set d. plainChar c" "starts_with d ''/''" "BSL \<notin> set target"
  shows "matchesPattern h (d @ ''/*'') target \<longleftrightarrow> (\<exists>name. CHR ''/'' \<notin> set name \<and> to_lower target = to_lower d @ ''/'' @ name)"
proof -
  have tr: "trim (d @ ''/*'') = d @ ''/*''"
    using assms(3) by (intro trim_eq_self) (auto simp: starts_with_iff is_ws_def)
  have low: "to_lower ''/*'' = ''/*''" by (simp add: to_lower_def lower_char_def Let_def)
  have pl: "\<forall>c \<in> set (to_lower d @ ''/''). plainChar c"
    using to_lower_plain [OF assms(2)] by (auto simp: plainChar_def metaChars_def)
  have "globBody (to_lower d @ ''/*'') = to_lower d @ ''/[^/]*''"
    using globBody_plain [OF pl, of "''*''"] by simp
  moreover have "rxBody (to_lower d @ ''/[^/]*'') = Some (map RxChar (to_lower d @ ''/'') @ [RxSegStar])"
    using rxBody_plain [OF pl, of "''[^/]*''"] by (simp add: starts_with_def)
  ultimately have "rxParse (globToRegExp (to_lower d @ ''/*'')) = Some (map RxChar (to_lower d @ ''/'') @ [RxSegStar])"
    by (simp add: rxParse_def globToRegExp_def starts_with_def butlast_append)
  then have "regExpTestSource h (globToRegExp (to_lower d @ ''/*'')) (to_lower target)
      = (\<exists>u. to_lower target = (to_lower d @ ''/'') @ u \<and> CHR ''/'' \<notin> set u)"
    unfolding regExpTestSource_def by (simp only: option.case rxMatch_chars rxMatch_segStar)
  moreover have "to_lower (d @ ''/*'') = to_lower d @ ''/*''" using low by (simp add: to_lower_def)
  moreover have "matchesPattern h (d @ ''/*'') target = regExpTestSource h (globToRegExp (to_lower (d @ ''/*''))) (to_lower target)"
    by (rule matchesPattern_posix) (use assms tr plain_no_bsl [OF assms(2)] in \<open>auto simp: starts_with_iff\<close>)
  ultimately show ?thesis by auto
qed

theorem glob_star_one_level_witness:
  "matchesPattern demo_host (''/usr/bin'' @ ''/*'') ''/usr/bin/head'' \<longleftrightarrow>
     (\<exists>name. CHR ''/'' \<notin> set name \<and> to_lower ''/usr/bin/head'' = to_lower ''/usr/bin'' @ ''/'' @ name)"
  by (rule glob_star_one_level) code_simp+

text \<open>Metacharacters of the regular expression are live in a pattern, here the dot.\<close>

lemma pattern_dot_not_escaped: "matchesPattern demo_host ''/opt/run.sh'' ''/opt/runXsh''"
  by code_simp

end
