(* ===== verification/Safe_Bins.thy ===== *)
theory Safe_Bins
  imports Exec_Analysis
begin

section \<open>Safe binaries\<close>

text \<open>
  \<open>infra/exec-safe-bin-policy.ts\<close> decides whether the arguments of a "safe" program (one that only
  filters its standard input) may run without approval; \<open>infra/exec-safe-bin-trust.ts\<close> decides
  whether the program file lies in a trusted directory, behind a one-entry cache. The index loop
  over the arguments is a recursion on the arguments that are left: \<open>index + 1\<close> is the tail,
  \<open>index + 2\<close> drops the value too, and -1 is \<open>None\<close>.
\<close>

subsection \<open>Tokens\<close>

definition isAsciiLetter :: "char \<Rightarrow> bool" where
  "isAsciiLetter c = (let n = (of_char c :: nat) in (65 \<le> n \<and> n \<le> 90) \<or> (97 \<le> n \<and> n \<le> 122))"

definition drivePath :: "string \<Rightarrow> bool" where
  "drivePath s = (case s of a # b # c # _ \<Rightarrow> isAsciiLetter a \<and> b = CHR '':'' \<and> (c = BSL \<or> c = CHR ''/'') | _ \<Rightarrow> False)"

definition isPathLikeToken :: "string \<Rightarrow> bool" where
  "isPathLikeToken value =
     (let trimmed = trim value in
      if trimmed = [] then False
      else if trimmed = ''-'' then False
      else if starts_with trimmed ''./'' \<or> starts_with trimmed ''../'' \<or> starts_with trimmed ''~'' then True
      else if starts_with trimmed ''/'' then True
      else drivePath trimmed)"

definition hasGlobToken :: "string \<Rightarrow> bool" where
  "hasGlobToken value = list_ex (\<lambda>c. c \<in> set ''*?[]'') value"

definition isSafeLiteralToken :: "string \<Rightarrow> bool" where
  "isSafeLiteralToken value =
     (if value = [] \<or> value = ''-'' then True else \<not> hasGlobToken value \<and> \<not> isPathLikeToken value)"

definition isInvalidValueToken :: "string option \<Rightarrow> bool" where
  "isInvalidValueToken value = (case truthy value of None \<Rightarrow> True | Some v \<Rightarrow> \<not> isSafeLiteralToken v)"

subsection \<open>Profiles\<close>

record SafeBinProfile =
  minPositional :: "nat option"
  maxPositional :: "nat option"
  valueFlags :: "string list option"
  blockedFlags :: "string list option"

definition toFlagSet :: "string list option \<Rightarrow> string list" where
  "toFlagSet flags = (case flags of None \<Rightarrow> [] | Some fs \<Rightarrow> set_of_list fs)"

definition compileSafeBinProfile :: "SafeBinProfile \<Rightarrow> SafeBinProfile" where
  "compileSafeBinProfile f = \<lparr>minPositional = minPositional f, maxPositional = maxPositional f,
     valueFlags = Some (toFlagSet (valueFlags f)), blockedFlags = Some (toFlagSet (blockedFlags f))\<rparr>"

definition compileSafeBinProfiles :: "(string \<times> SafeBinProfile) list \<Rightarrow> (string \<times> SafeBinProfile) list" where
  "compileSafeBinProfiles fs = map (\<lambda>(n, f). (n, compileSafeBinProfile f)) fs"

definition SAFE_BIN_GENERIC_PROFILE_FIXTURE :: SafeBinProfile where
  "SAFE_BIN_GENERIC_PROFILE_FIXTURE = \<lparr>minPositional = None, maxPositional = None, valueFlags = None, blockedFlags = None\<rparr>"

definition fixture :: "nat option \<Rightarrow> nat option \<Rightarrow> string list option \<Rightarrow> string list option \<Rightarrow> SafeBinProfile" where
  "fixture mn mx vf bf = \<lparr>minPositional = mn, maxPositional = mx, valueFlags = vf, blockedFlags = bf\<rparr>"

definition SAFE_BIN_PROFILE_FIXTURES :: "(string \<times> SafeBinProfile) list" where
  "SAFE_BIN_PROFILE_FIXTURES =
   [(''jq'', fixture None (Some 1)
       (Some [''--arg'', ''--argjson'', ''--argstr'', ''--argfile'', ''--rawfile'', ''--slurpfile'',
              ''--from-file'', ''--library-path'', ''-L'', ''-f''])
       (Some [''--argfile'', ''--rawfile'', ''--slurpfile'', ''--from-file'', ''--library-path'', ''-L'', ''-f''])),
    (''grep'', fixture None (Some 1)
       (Some [''--regexp'', ''--file'', ''--max-count'', ''--after-context'', ''--before-context'', ''--context'',
              ''--devices'', ''--directories'', ''--binary-files'', ''--exclude'', ''--exclude-from'', ''--include'',
              ''--label'', ''-e'', ''-f'', ''-m'', ''-A'', ''-B'', ''-C'', ''-D'', ''-d''])
       (Some [''--file'', ''--exclude-from'', ''--dereference-recursive'', ''--directories'', ''--recursive'',
              ''-f'', ''-d'', ''-r'', ''-R''])),
    (''cut'', fixture None (Some 0)
       (Some [''--bytes'', ''--characters'', ''--fields'', ''--delimiter'', ''--output-delimiter'',
              ''-b'', ''-c'', ''-f'', ''-d'']) None),
    (''sort'', fixture None (Some 0)
       (Some [''--key'', ''--field-separator'', ''--buffer-size'', ''--temporary-directory'', ''--compress-program'',
              ''--parallel'', ''--batch-size'', ''--random-source'', ''--files0-from'', ''--output'',
              ''-k'', ''-t'', ''-S'', ''-T'', ''-o''])
       (Some [''--files0-from'', ''--output'', ''-o''])),
    (''uniq'', fixture None (Some 0)
       (Some [''--skip-fields'', ''--skip-chars'', ''--check-chars'', ''--group'', ''-f'', ''-s'', ''-w'']) None),
    (''head'', fixture None (Some 0) (Some [''--lines'', ''--bytes'', ''-n'', ''-c'']) None),
    (''tail'', fixture None (Some 0)
       (Some [''--lines'', ''--bytes'', ''--sleep-interval'', ''--max-unchanged-stats'', ''--pid'', ''-n'', ''-c'']) None),
    (''tr'', fixture (Some 1) (Some 2) None None),
    (''wc'', fixture None (Some 0) (Some [''--files0-from'']) (Some [''--files0-from'']))]"

definition SAFE_BIN_GENERIC_PROFILE :: SafeBinProfile where
  "SAFE_BIN_GENERIC_PROFILE = compileSafeBinProfile SAFE_BIN_GENERIC_PROFILE_FIXTURE"

definition SAFE_BIN_PROFILES :: "(string \<times> SafeBinProfile) list" where
  "SAFE_BIN_PROFILES = compileSafeBinProfiles SAFE_BIN_PROFILE_FIXTURES"

subsection \<open>Validation\<close>

definition consumeLongOptionToken :: "string list \<Rightarrow> string \<Rightarrow> string option \<Rightarrow> string list \<Rightarrow> string list \<Rightarrow> string list option" where
  "consumeLongOptionToken rest flag inlineValue vf bf =
     (if flag \<in> set bf then None
      else case inlineValue of
        Some v \<Rightarrow> if isSafeLiteralToken v then Some rest else None
      | None \<Rightarrow>
          if flag \<notin> set vf then Some rest
          else if isInvalidValueToken (if rest = [] then None else Some (hd rest)) then None else Some (tl rest))"

text \<open>The loop over the flags of a cluster; \<open>cluster\<close> is what follows the dash from position \<open>j\<close> on.\<close>

fun clusterLoop :: "string list \<Rightarrow> string \<Rightarrow> string \<Rightarrow> string list \<Rightarrow> string list \<Rightarrow> string list option" where
  "clusterLoop rest raw [] vf bf = (if hasGlobToken raw then None else Some rest)"
| "clusterLoop rest raw (c # cluster) vf bf =
     (if [CHR ''-'', c] \<in> set bf then None
      else if [CHR ''-'', c] \<notin> set vf then clusterLoop rest raw cluster vf bf
      else if cluster \<noteq> [] then (if isSafeLiteralToken cluster then Some rest else None)
      else if isInvalidValueToken (if rest = [] then None else Some (hd rest)) then None else Some (tl rest))"

definition consumeShortOptionClusterToken :: "string list \<Rightarrow> string \<Rightarrow> string \<Rightarrow> string list \<Rightarrow> string list \<Rightarrow> string list option" where
  "consumeShortOptionClusterToken rest raw cluster vf bf = clusterLoop rest raw cluster vf bf"

definition consumePositionalToken :: "string \<Rightarrow> string list \<Rightarrow> string list option" where
  "consumePositionalToken token positional =
     (if \<not> isSafeLiteralToken token then None else Some (positional @ [token]))"

definition validatePositionalCount :: "string list \<Rightarrow> SafeBinProfile \<Rightarrow> bool" where
  "validatePositionalCount positional profile =
     (if length positional < nullish (minPositional profile) 0 then False
      else case maxPositional profile of None \<Rightarrow> True | Some m \<Rightarrow> length positional \<le> m)"

fun afterTerminator :: "string list \<Rightarrow> string list \<Rightarrow> string list option" where
  "afterTerminator [] positional = Some positional"
| "afterTerminator (rest # args) positional =
     (if rest = [] \<or> rest = ''-'' then afterTerminator args positional
      else case consumePositionalToken rest positional of None \<Rightarrow> None
        | Some p \<Rightarrow> afterTerminator args p)"

lemma consumeLong_length: "consumeLongOptionToken r f v vf bf = Some r' \<Longrightarrow> length r' \<le> length r"
  by (auto simp: consumeLongOptionToken_def split: if_splits option.splits)

lemma clusterLoop_length: "clusterLoop r raw cl vf bf = Some r' \<Longrightarrow> length r' \<le> length r"
  by (induction r raw cl vf bf rule: clusterLoop.induct) (auto split: if_splits)

lemma consumeShort_length: "consumeShortOptionClusterToken r raw cl vf bf = Some r' \<Longrightarrow> length r' \<le> length r"
  by (simp add: consumeShortOptionClusterToken_def clusterLoop_length)

function (sequential) validateLoop :: "string list \<Rightarrow> string list \<Rightarrow> string list \<Rightarrow> string list \<Rightarrow> string list option" where
  "validateLoop [] vf bf positional = Some positional"
| "validateLoop (rawToken # args) vf bf positional =
     (case parseExecArgvToken rawToken of
        EmptyTok _ \<Rightarrow> validateLoop args vf bf positional
      | StdinTok _ \<Rightarrow> validateLoop args vf bf positional
      | TerminatorTok _ \<Rightarrow> afterTerminator args positional
      | PositionalTok raw \<Rightarrow>
          (case consumePositionalToken raw positional of None \<Rightarrow> None
           | Some p \<Rightarrow> validateLoop args vf bf p)
      | LongOption raw flag inlineValue \<Rightarrow>
          (case consumeLongOptionToken args flag inlineValue vf bf of None \<Rightarrow> None
           | Some r \<Rightarrow> validateLoop r vf bf positional)
      | ShortCluster raw cluster flags \<Rightarrow>
          (case consumeShortOptionClusterToken args raw cluster vf bf of None \<Rightarrow> None
           | Some r \<Rightarrow> validateLoop r vf bf positional))"
  by pat_completeness auto
termination
  by (relation "measure (\<lambda>(a, _, _, _). length a)") (auto dest: consumeLong_length consumeShort_length)

definition validateSafeBinArgv :: "string list \<Rightarrow> SafeBinProfile \<Rightarrow> bool" where
  "validateSafeBinArgv args profile =
     (case validateLoop args (nullish (valueFlags profile) []) (nullish (blockedFlags profile) []) [] of
        None \<Rightarrow> False
      | Some positional \<Rightarrow> validatePositionalCount positional profile)"

subsection \<open>Trusted directories\<close>

definition DEFAULT_SAFE_BIN_TRUSTED_DIRS :: "string list" where
  "DEFAULT_SAFE_BIN_TRUSTED_DIRS = [''/bin'', ''/usr/bin'', ''/usr/local/bin'', ''/opt/homebrew/bin'',
     ''/opt/local/bin'', ''/snap/bin'', ''/run/current-system/sw/bin'']"

text \<open>A path-list delimiter is one character, as \<open>path.delimiter\<close> is.\<close>

record TrustedSafeBinCache =
  tc_key :: string
  tc_dirs :: "string list"

definition STARTUP_PATH_ENV :: "host \<Rightarrow> string" where
  "STARTUP_PATH_ENV h = nullish (orelse (processEnv h ''PATH'') (processEnv h ''Path'')) []"

definition normalizeTrustedDir :: "host \<Rightarrow> string \<Rightarrow> string option" where
  "normalizeTrustedDir h value = (let trimmed = trim value in if trimmed = [] then None else Some (pathResolve h [trimmed]))"

definition buildTrustedSafeBinCacheKey :: "string \<Rightarrow> char \<Rightarrow> string" where
  "buildTrustedSafeBinCacheKey pathEnv delim = [delim, CHR 0x00] @ pathEnv"

definition addTrusted :: "string option \<Rightarrow> string list \<Rightarrow> string list" where
  "addTrusted d trusted = (case truthy d of None \<Rightarrow> trusted | Some p \<Rightarrow> set_add p trusted)"

definition buildTrustedSafeBinDirs :: "host \<Rightarrow> string option \<Rightarrow> char option \<Rightarrow> string list option \<Rightarrow> string list" where
  "buildTrustedSafeBinDirs h pathEnv delim baseDirs =
     (let d = nullish delim (pathDelimiter h);
          fromBase = fold (\<lambda>e. addTrusted (normalizeTrustedDir h e)) (nullish baseDirs DEFAULT_SAFE_BIN_TRUSTED_DIRS) []
      in fold (\<lambda>e. addTrusted (normalizeTrustedDir h e)) (split_on d (nullish pathEnv [])) fromBase)"

definition getTrustedSafeBinDirs :: "host \<Rightarrow> string option \<Rightarrow> char option \<Rightarrow> bool \<Rightarrow> TrustedSafeBinCache option \<Rightarrow>
    string list \<times> TrustedSafeBinCache option" where
  "getTrustedSafeBinDirs h pathEnv0 delim refresh cache =
     (let d = nullish delim (pathDelimiter h); pathEnv = nullish pathEnv0 (STARTUP_PATH_ENV h);
          key = buildTrustedSafeBinCacheKey pathEnv d;
          fresh = (let dirs = buildTrustedSafeBinDirs h (Some pathEnv) (Some d) None in (dirs, Some \<lparr>tc_key = key, tc_dirs = dirs\<rparr>))
      in case cache of
           Some c \<Rightarrow> if \<not> refresh \<and> tc_key c = key then (tc_dirs c, cache) else fresh
         | None \<Rightarrow> fresh)"

definition isTrustedSafeBinPath :: "host \<Rightarrow> string \<Rightarrow> string list option \<Rightarrow> string option \<Rightarrow> char option \<Rightarrow>
    TrustedSafeBinCache option \<Rightarrow> bool \<times> TrustedSafeBinCache option" where
  "isTrustedSafeBinPath h path trustedDirs pathEnv delim cache =
     (let (dirs, cache') = (case trustedDirs of Some ds \<Rightarrow> (ds, cache)
            | None \<Rightarrow> getTrustedSafeBinDirs h pathEnv delim False cache);
          resolvedDir = pathDirname h (pathResolve h [path])
      in (resolvedDir \<in> set dirs, cache'))"


section \<open>What the validator accepts\<close>

text \<open>
  A separate reading of an argument vector: first the items it consists of, from the value flags
  alone, then a condition on each item.
\<close>

datatype value_need = FlagOnly | WholeToken string | InlineValue string | NextValue "string option"
datatype arg_item = PosItem string | OptItem "string list" value_need

definition next_arg :: "string list \<Rightarrow> string option" where
  "next_arg rest = (if rest = [] then None else Some (hd rest))"

fun scanCluster :: "string list \<Rightarrow> string \<Rightarrow> string \<Rightarrow> string list \<Rightarrow> string list \<times> value_need \<times> string list" where
  "scanCluster vf raw [] rest = ([], WholeToken raw, rest)"
| "scanCluster vf raw (c # cluster) rest =
     (if [CHR ''-'', c] \<in> set vf then
        (if cluster \<noteq> [] then ([[CHR ''-'', c]], InlineValue cluster, rest)
         else ([[CHR ''-'', c]], NextValue (next_arg rest), tl rest))
      else (let (fs, need, r) = scanCluster vf raw cluster rest in ([CHR ''-'', c] # fs, need, r)))"

definition scanLong :: "string list \<Rightarrow> string \<Rightarrow> string option \<Rightarrow> string list \<Rightarrow> value_need \<times> string list" where
  "scanLong vf flag inl rest =
     (case inl of Some v \<Rightarrow> (InlineValue v, rest)
      | None \<Rightarrow> if flag \<in> set vf then (NextValue (next_arg rest), tl rest) else (FlagOnly, rest))"

definition operands :: "string list \<Rightarrow> arg_item list" where
  "operands args = map PosItem (filter (\<lambda>a. a \<noteq> [] \<and> a \<noteq> ''-'') args)"

lemma scanCluster_length: "scanCluster vf raw cl rest = (fs, n, r) \<Longrightarrow> length r \<le> length rest"
  by (induction vf raw cl rest arbitrary: fs rule: scanCluster.induct) (auto split: if_splits prod.splits)

lemma scanLong_length: "scanLong vf f i rest = (n, r) \<Longrightarrow> length r \<le> length rest"
  by (auto simp: scanLong_def split: option.splits if_splits)

function (sequential) scanArgs :: "string list \<Rightarrow> string list \<Rightarrow> arg_item list" where
  "scanArgs vf [] = []"
| "scanArgs vf (a # args) =
     (case parseExecArgvToken a of
        EmptyTok _ \<Rightarrow> scanArgs vf args
      | StdinTok _ \<Rightarrow> scanArgs vf args
      | TerminatorTok _ \<Rightarrow> operands args
      | PositionalTok raw \<Rightarrow> PosItem raw # scanArgs vf args
      | LongOption raw flag inl \<Rightarrow>
          (case scanLong vf flag inl args of (need, r) \<Rightarrow> OptItem [flag] need # scanArgs vf r)
      | ShortCluster raw cluster flags \<Rightarrow>
          (case scanCluster vf raw cluster args of (fs, need, r) \<Rightarrow> OptItem fs need # scanArgs vf r))"
  by pat_completeness auto
termination
  by (relation "measure (\<lambda>(_, a). length a)")
    (auto dest!: scanLong_length [OF sym] scanCluster_length [OF sym])

fun need_ok :: "value_need \<Rightarrow> bool" where
  "need_ok FlagOnly = True"
| "need_ok (WholeToken raw) = (\<not> hasGlobToken raw)"
| "need_ok (InlineValue v) = isSafeLiteralToken v"
| "need_ok (NextValue v) = (\<not> isInvalidValueToken v)"

fun item_ok :: "string list \<Rightarrow> arg_item \<Rightarrow> bool" where
  "item_ok bf (PosItem t) = isSafeLiteralToken t"
| "item_ok bf (OptItem fs need) = ((\<forall>f \<in> set fs. f \<notin> set bf) \<and> need_ok need)"

fun positionals :: "arg_item list \<Rightarrow> string list" where
  "positionals [] = []"
| "positionals (PosItem t # is) = t # positionals is"
| "positionals (OptItem _ _ # is) = positionals is"

text \<open>Each consumer agrees with its scan.\<close>

lemma consumeLong_scan:
  "consumeLongOptionToken rest flag inl vf bf =
     (case scanLong vf flag inl rest of (need, r) \<Rightarrow> if item_ok bf (OptItem [flag] need) then Some r else None)"
  by (auto simp: consumeLongOptionToken_def scanLong_def next_arg_def split: option.splits)

lemma clusterLoop_scan:
  "clusterLoop rest raw cl vf bf =
     (case scanCluster vf raw cl rest of (fs, need, r) \<Rightarrow> if item_ok bf (OptItem fs need) then Some r else None)"
  by (induction rest raw cl vf bf rule: clusterLoop.induct) (auto simp: next_arg_def Let_def split: prod.splits)

lemma afterTerminator_scan:
  "afterTerminator args pos =
     (if \<forall>i \<in> set (operands args). item_ok bf i then Some (pos @ positionals (operands args)) else None)"
  by (induction args pos rule: afterTerminator.induct)
    (auto simp: operands_def consumePositionalToken_def)

lemma validateLoop_scan:
  "validateLoop args vf bf pos =
     (if \<forall>i \<in> set (scanArgs vf args). item_ok bf i then Some (pos @ positionals (scanArgs vf args)) else None)"
proof (induction args vf bf pos rule: validateLoop.induct)
  case (2 a args vf bf pos)
  show ?case
  proof (cases "parseExecArgvToken a")
    case (PositionalTok raw)
    with 2 show ?thesis by (simp add: consumePositionalToken_def)
  next
    case (TerminatorTok raw)
    then show ?thesis by (simp add: afterTerminator_scan [where bf = bf])
  next
    case (LongOption raw flag inl)
    obtain need r where "scanLong vf flag inl args = (need, r)" by fastforce
    with 2 LongOption consumeLong_scan [of args flag inl vf bf] show ?thesis by auto
  next
    case (ShortCluster raw cluster flags)
    obtain fs need r where "scanCluster vf raw cluster args = (fs, need, r)" by (metis prod_cases3)
    with 2 ShortCluster clusterLoop_scan [of args raw cluster vf bf] show ?thesis
      by (auto simp: consumeShortOptionClusterToken_def)
  qed (use 2 in simp_all)
qed simp

lemma validate_iff:
  "validateSafeBinArgv args profile \<longleftrightarrow>
     (let items = scanArgs (nullish (valueFlags profile) []) args; n = length (positionals items) in
      (\<forall>i \<in> set items. item_ok (nullish (blockedFlags profile) []) i) \<and>
      nullish (minPositional profile) 0 \<le> n \<and> (\<forall>m. maxPositional profile = Some m \<longrightarrow> n \<le> m))"
  by (auto simp: validateSafeBinArgv_def validateLoop_scan validatePositionalCount_def Let_def split: option.splits)


lemma dash_not_path: "starts_with a ''-'' \<Longrightarrow> \<not> isPathLikeToken a"
proof -
  assume "starts_with a ''-''"
  then obtain r where a: "a = CHR ''-'' # r" by (auto simp: starts_with_iff)
  have "trim a = [] \<or> hd (trim a) = CHR ''-''"
  proof -
    have "dropWhile is_ws a = a" by (simp add: a is_ws_def)
    then have t: "trim a = rev (dropWhile is_ws (rev r @ [CHR ''-'']))" by (simp add: trim_def a)
    show ?thesis by (cases "\<exists>c \<in> set r. \<not> is_ws c") (auto simp: t dropWhile_append is_ws_def hd_append)
  qed
  then show ?thesis
    by (cases "trim a") (auto simp: isPathLikeToken_def starts_with_def drivePath_def isAsciiLetter_def Let_def split: list.splits)
qed

lemma stdin_not_path [simp]: "\<not> isPathLikeToken []" "\<not> isPathLikeToken ''-''"
  by (simp_all add: isPathLikeToken_def dash_not_path trim_def is_ws_def)

lemma literal_not_path: "isSafeLiteralToken t \<Longrightarrow> \<not> isPathLikeToken t"
  by (auto simp: isSafeLiteralToken_def split: if_splits)

lemma valid_value_not_path: "\<not> isInvalidValueToken (Some v) \<Longrightarrow> \<not> isPathLikeToken v"
  using literal_not_path by (auto simp: isInvalidValueToken_def truthy_def split: if_splits)

lemma option_tokens_dash:
  "parseExecArgvToken a = LongOption r f i \<Longrightarrow> starts_with a ''-''"
  "parseExecArgvToken a = ShortCluster r cl fs \<Longrightarrow> starts_with a ''-''"
  "parseExecArgvToken a = TerminatorTok r \<Longrightarrow> starts_with a ''-''"
  "parseExecArgvToken a = StdinTok r \<Longrightarrow> starts_with a ''-''"
  by (auto simp: parseExecArgvToken_def starts_with_def split: if_splits)

lemma plain_tokens:
  "parseExecArgvToken a = EmptyTok r \<Longrightarrow> a = []" "parseExecArgvToken a = PositionalTok r \<Longrightarrow> r = a"
  by (auto simp: parseExecArgvToken_def split: if_splits option.splits)

lemma scan_rest:
  "scanCluster vf raw cl rest = (fs, need, r) \<Longrightarrow> r = rest \<or> (r = tl rest \<and> need = NextValue (next_arg rest))"
  by (induction vf raw cl rest arbitrary: fs rule: scanCluster.induct) (auto split: if_splits prod.splits)

lemma scanLong_rest:
  "scanLong vf f i rest = (need, r) \<Longrightarrow> r = rest \<or> (r = tl rest \<and> need = NextValue (next_arg rest))"
  by (auto simp: scanLong_def split: option.splits if_splits)

lemma need_ok_rest:
  assumes "need_ok need" "r = rest \<or> (r = tl rest \<and> need = NextValue (next_arg rest))" "\<forall>a \<in> set r. \<not> isPathLikeToken a"
  shows "\<forall>a \<in> set rest. \<not> isPathLikeToken a"
  using assms valid_value_not_path by (cases rest) (auto simp: next_arg_def)

lemma scanArgs_no_path:
  "\<forall>i \<in> set (scanArgs vf args). item_ok bf i \<Longrightarrow> \<forall>a \<in> set args. \<not> isPathLikeToken a"
proof (induction vf args rule: scanArgs.induct)
  case (2 vf a args)
  show ?case
  proof (cases "parseExecArgvToken a")
    case (EmptyTok r)
    with 2 plain_tokens(1) [OF EmptyTok] show ?thesis by simp
  next
    case (StdinTok r)
    with 2 dash_not_path option_tokens_dash(4) show ?thesis by auto
  next
    case (PositionalTok r)
    with 2 literal_not_path plain_tokens(2) show ?thesis by auto
  next
    case (TerminatorTok r)
    have "\<not> isPathLikeToken b" if "b \<in> set args" for b
    proof (cases "b = [] \<or> b = ''-''")
      case True then show ?thesis by auto
    next
      case False with that TerminatorTok "2.prems" show ?thesis by (auto simp: operands_def dest: literal_not_path)
    qed
    with dash_not_path option_tokens_dash(3) [OF TerminatorTok] show ?thesis by auto
  next
    case (LongOption r f i)
    obtain need r' where s: "scanLong vf f i args = (need, r')" by fastforce
    with LongOption "2.prems" have ok: "need_ok need" "\<forall>i \<in> set (scanArgs vf r'). item_ok bf i" by auto
    have "\<forall>a \<in> set r'. \<not> isPathLikeToken a" using "2.IH" LongOption s ok(2) by simp
    with need_ok_rest [OF ok(1) scanLong_rest [OF s]] dash_not_path option_tokens_dash(1) [OF LongOption]
    show ?thesis by auto
  next
    case (ShortCluster r cl fl)
    obtain fs need r' where s: "scanCluster vf r cl args = (fs, need, r')" by (metis prod_cases3)
    with ShortCluster "2.prems" have ok: "need_ok need" "\<forall>i \<in> set (scanArgs vf r'). item_ok bf i" by auto
    have "\<forall>a \<in> set r'. \<not> isPathLikeToken a" using "2.IH" ShortCluster s ok(2) by simp
    with need_ok_rest [OF ok(1) scan_rest [OF s]] dash_not_path option_tokens_dash(2) [OF ShortCluster]
    show ?thesis by auto
  qed
qed simp

text \<open>(C24) The argument validator of safe binaries is the conjunction it is meant to be: it accepts
  exactly when, in the reading of the argument vector given by the value flags, no option is a
  blocked flag, every option value and every operand is a literal that is neither a path nor a
  glob, and the number of operands is within the profile's bounds; and then no argument at all,
  whatever its position, is path-like.\<close>

theorem validateSafeBinArgv_exact:
  "(validateSafeBinArgv args profile \<longleftrightarrow>
     (\<forall>i \<in> set (scanArgs (nullish (valueFlags profile) []) args). item_ok (nullish (blockedFlags profile) []) i) \<and>
     nullish (minPositional profile) 0 \<le> length (positionals (scanArgs (nullish (valueFlags profile) []) args)) \<and>
     (\<forall>m. maxPositional profile = Some m \<longrightarrow>
        length (positionals (scanArgs (nullish (valueFlags profile) []) args)) \<le> m)) \<and>
   (validateSafeBinArgv args profile \<longrightarrow> (\<forall>a \<in> set args. \<not> isPathLikeToken a))"
  using scanArgs_no_path by (auto simp: validate_iff Let_def)

definition sort_profile :: SafeBinProfile where
  "sort_profile = nullish (map_of SAFE_BIN_PROFILES ''sort'') SAFE_BIN_GENERIC_PROFILE"

theorem validateSafeBinArgv_exact_witness:
  "validateSafeBinArgv [''-k2'', ''--parallel=4''] sort_profile
   \<and> \<not> isPathLikeToken ''-k2'' \<and> \<not> isPathLikeToken ''--parallel=4''
   \<and> \<not> validateSafeBinArgv [''-ofile''] sort_profile"
proof -
  have "validateSafeBinArgv [''-k2'', ''--parallel=4''] sort_profile" "\<not> validateSafeBinArgv [''-ofile''] sort_profile"
    by code_simp+
  with validateSafeBinArgv_exact [of "[''-k2'', ''--parallel=4'']" sort_profile] show ?thesis by simp
qed

text \<open>Options of \<open>sort\<close> that write files or start programs and are accepted: the abbreviation of a
  blocked long option, and the compression program.\<close>

lemma sort_profile_gaps:
  "validateSafeBinArgv [''--outpu=victim.txt''] sort_profile"
  "validateSafeBinArgv [''--compress-program=sh''] sort_profile"
  by code_simp+

section \<open>The directory cache is transparent\<close>

definition cache_ok :: "host \<Rightarrow> TrustedSafeBinCache option \<Rightarrow> bool" where
  "cache_ok h cache \<longleftrightarrow> (\<forall>c. cache = Some c \<longrightarrow>
     (\<exists>p d. tc_key c = buildTrustedSafeBinCacheKey p d \<and> tc_dirs c = buildTrustedSafeBinDirs h (Some p) (Some d) None))"

lemma cacheKey_inject: "buildTrustedSafeBinCacheKey p d = buildTrustedSafeBinCacheKey p' d' \<longleftrightarrow> p = p' \<and> d = d'"
  by (auto simp: buildTrustedSafeBinCacheKey_def)

lemma getTrustedSafeBinDirs_cached:
  assumes "cache_ok h cache"
  shows "fst (getTrustedSafeBinDirs h pathEnv delim refresh cache)
      = buildTrustedSafeBinDirs h (Some (nullish pathEnv (STARTUP_PATH_ENV h))) (Some (nullish delim (pathDelimiter h))) None"
    and "cache_ok h (snd (getTrustedSafeBinDirs h pathEnv delim refresh cache))"
  using assms by (auto simp: getTrustedSafeBinDirs_def cache_ok_def cacheKey_inject Let_def split: option.splits)

type_synonym trust_query = "string \<times> string list option \<times> string option \<times> char option"

fun trust_answers :: "host \<Rightarrow> trust_query list \<Rightarrow> TrustedSafeBinCache option \<Rightarrow> bool list" where
  "trust_answers h [] cache = []"
| "trust_answers h ((p, ds, pe, dl) # qs) cache =
     (let (b, cache') = isTrustedSafeBinPath h p ds pe dl cache in b # trust_answers h qs cache')"

lemma trust_answer_cached:
  assumes "cache_ok h cache"
  shows "fst (isTrustedSafeBinPath h p ds pe dl cache) = fst (isTrustedSafeBinPath h p ds pe dl None)"
    and "cache_ok h (snd (isTrustedSafeBinPath h p ds pe dl cache))"
proof -
  have n: "cache_ok h None" by (simp add: cache_ok_def)
  show "fst (isTrustedSafeBinPath h p ds pe dl cache) = fst (isTrustedSafeBinPath h p ds pe dl None)"
    using getTrustedSafeBinDirs_cached(1) [OF assms, of pe dl False] getTrustedSafeBinDirs_cached(1) [OF n, of pe dl False]
    by (auto simp: isTrustedSafeBinPath_def Let_def split: option.splits prod.splits)
  show "cache_ok h (snd (isTrustedSafeBinPath h p ds pe dl cache))"
    using getTrustedSafeBinDirs_cached(2) [OF assms, of pe dl False] assms
    by (auto simp: isTrustedSafeBinPath_def Let_def split: option.splits prod.splits)
qed

lemma trust_answers_cached:
  "cache_ok h cache \<Longrightarrow> trust_answers h qs cache
     = map (\<lambda>(p, ds, pe, dl). fst (isTrustedSafeBinPath h p ds pe dl None)) qs"
proof (induction h qs cache rule: trust_answers.induct)
  case (2 h p ds pe dl qs cache)
  then show ?case
    using trust_answer_cached [OF "2.prems", of p ds pe dl]
    by (auto split: prod.splits)
qed simp

text \<open>The trusted-directory cache changes no answer: over any sequence of queries with any search
  paths, directory sets and delimiters, every answer is the one computed afresh.\<close>

theorem trusted_dir_cache_transparent:
  "trust_answers h qs None = map (\<lambda>(p, ds, pe, dl). fst (isTrustedSafeBinPath h p ds pe dl None)) qs"
  by (rule trust_answers_cached) (simp add: cache_ok_def)

end
