(* ===== verification/Exec_Allowlist.thy ===== *)
theory Exec_Allowlist
  imports Safe_Bins
begin

section \<open>The allowlist decision\<close>

text \<open>
  \<open>infra/exec-approvals-allowlist.ts\<close>: whether every segment of a command is allowed, by an allowlist
  entry, as a safe binary or as a skill program. The calls of \<open>isTrustedSafeBinPath\<close> go through the
  directory cache of \<open>Safe_Bins\<close>; the cache's content at the start of the evaluation is an argument,
  and since the cache changes no answer it is not threaded further.
\<close>

definition processPlatform :: "host \<Rightarrow> string" where
  "processPlatform h = (if hostWin32 h then ''win32'' else ''linux'')"

definition normalizeSafeBins :: "string list option \<Rightarrow> string list" where
  "normalizeSafeBins entries =
     (case entries of None \<Rightarrow> []
      | Some es \<Rightarrow> set_of_list (filter (\<lambda>e. e \<noteq> []) (map (\<lambda>e. to_lower (trim e)) es)))"

text \<open>The outer option is \<open>undefined\<close>, the inner one \<open>null\<close>.\<close>

definition resolveSafeBins :: "string list option option \<Rightarrow> string list" where
  "resolveSafeBins entries =
     (case entries of None \<Rightarrow> normalizeSafeBins (Some DEFAULT_SAFE_BINS)
      | Some es \<Rightarrow> normalizeSafeBins (Some (nullish es [])))"

definition isSafeBinUsage :: "host \<Rightarrow> TrustedSafeBinCache option \<Rightarrow> string list \<Rightarrow> CommandResolution option \<Rightarrow>
    string list \<Rightarrow> string option \<Rightarrow> string list option \<Rightarrow> bool" where
  "isSafeBinUsage h cache argv resolution safeBins platform trustedDirs =
     (if isWindowsPlatform (Some (nullish platform (processPlatform h))) then False
      else if safeBins = [] then False
      else case resolution of None \<Rightarrow> False
      | Some res \<Rightarrow>
          let execName = to_lower (executableName res) in
          if execName = [] then False
          else if execName \<notin> set safeBins then False
          else case truthy (resolvedPath res) of None \<Rightarrow> False
            | Some p \<Rightarrow>
                if \<not> fst (isTrustedSafeBinPath h p trustedDirs None None cache) then False
                else validateSafeBinArgv (tl argv)
                       (nullish (map_of SAFE_BIN_PROFILES execName) SAFE_BIN_GENERIC_PROFILE))"

record eval_params =
  ep_allowlist :: "ExecAllowlistEntry list"
  ep_safeBins :: "string list"
  ep_cwd :: "string option"
  ep_platform :: "string option"
  ep_trustedDirs :: "string list option"
  ep_skillBins :: "string list option"
  ep_autoAllowSkills :: "bool option"

record ExecAllowlistEvaluation =
  ev_satisfied :: bool
  ev_matches :: "ExecAllowlistEntry list"
  ev_by :: "satisfiedBy option list"

definition candidateResolution :: "host \<Rightarrow> eval_params \<Rightarrow> ExecCommandSegment \<Rightarrow> CommandResolution option" where
  "candidateResolution h ps seg =
     (case truthy (resolveAllowlistCandidatePath h (seg_resolution seg) (ep_cwd ps)) of
        Some p \<Rightarrow> map_option (\<lambda>r. r\<lparr>resolvedPath := Some p\<rparr>) (seg_resolution seg)
      | None \<Rightarrow> seg_resolution seg)"

definition segmentMatch :: "host \<Rightarrow> eval_params \<Rightarrow> ExecCommandSegment \<Rightarrow> ExecAllowlistEntry option" where
  "segmentMatch h ps seg = matchAllowlist h (ep_allowlist ps) (candidateResolution h ps seg)"

definition skillAllow :: "eval_params \<Rightarrow> ExecCommandSegment \<Rightarrow> bool" where
  "skillAllow ps seg =
     (let allowSkills = (ep_autoAllowSkills ps = Some True \<and> length (nullish (ep_skillBins ps) []) > 0) in
      case seg_resolution seg of None \<Rightarrow> False
      | Some r \<Rightarrow> allowSkills \<and> executableName r \<noteq> [] \<and> executableName r \<in> set (nullish (ep_skillBins ps) []))"

definition segmentBy :: "host \<Rightarrow> TrustedSafeBinCache option \<Rightarrow> eval_params \<Rightarrow> ExecCommandSegment \<Rightarrow> satisfiedBy option" where
  "segmentBy h cache ps seg =
     (if segmentMatch h ps seg \<noteq> None then Some ByAllowlist
      else if isSafeBinUsage h cache (seg_argv seg) (seg_resolution seg) (ep_safeBins ps) (ep_platform ps) (ep_trustedDirs ps)
        then Some BySafeBins
      else if skillAllow ps seg then Some BySkills
      else None)"

text \<open>\<open>segments.every\<close> with its two accumulators: it stops at the first segment that is not allowed.\<close>

fun evaluateSegments :: "host \<Rightarrow> TrustedSafeBinCache option \<Rightarrow> eval_params \<Rightarrow> ExecCommandSegment list \<Rightarrow> ExecAllowlistEvaluation" where
  "evaluateSegments h cache ps [] = \<lparr>ev_satisfied = True, ev_matches = [], ev_by = []\<rparr>"
| "evaluateSegments h cache ps (seg # segs) =
     (let m = (case segmentMatch h ps seg of None \<Rightarrow> [] | Some e \<Rightarrow> [e]); b = segmentBy h cache ps seg in
      if b = None then \<lparr>ev_satisfied = False, ev_matches = m, ev_by = [b]\<rparr>
      else let r = evaluateSegments h cache ps segs in
        r\<lparr>ev_matches := m @ ev_matches r, ev_by := b # ev_by r\<rparr>)"

definition ev_none :: ExecAllowlistEvaluation where
  "ev_none = \<lparr>ev_satisfied = False, ev_matches = [], ev_by = []\<rparr>"

fun evaluateChains :: "host \<Rightarrow> TrustedSafeBinCache option \<Rightarrow> eval_params \<Rightarrow> ExecCommandSegment list list \<Rightarrow>
    ExecAllowlistEvaluation \<Rightarrow> ExecAllowlistEvaluation" where
  "evaluateChains h cache ps [] acc = acc"
| "evaluateChains h cache ps (c # cs) acc =
     (let r = evaluateSegments h cache ps c in
      if \<not> ev_satisfied r then ev_none
      else evaluateChains h cache ps cs (acc\<lparr>ev_matches := ev_matches acc @ ev_matches r, ev_by := ev_by acc @ ev_by r\<rparr>))"

definition evaluateExecAllowlist :: "host \<Rightarrow> TrustedSafeBinCache option \<Rightarrow> eval_params \<Rightarrow> ExecCommandAnalysis \<Rightarrow> ExecAllowlistEvaluation" where
  "evaluateExecAllowlist h cache ps analysis =
     (if \<not> an_ok analysis \<or> an_segments analysis = [] then ev_none
      else case an_chains analysis of
        Some groups \<Rightarrow> evaluateChains h cache ps groups \<lparr>ev_satisfied = True, ev_matches = [], ev_by = []\<rparr>
      | None \<Rightarrow> evaluateSegments h cache ps (an_segments analysis))"

record ExecAllowlistAnalysis =
  aa_analysisOk :: bool
  aa_satisfied :: bool
  aa_matches :: "ExecAllowlistEntry list"
  aa_segments :: "ExecCommandSegment list"
  aa_by :: "satisfiedBy option list"

definition analysisFailure :: ExecAllowlistAnalysis where
  "analysisFailure = \<lparr>aa_analysisOk = False, aa_satisfied = False, aa_matches = [], aa_segments = [], aa_by = []\<rparr>"

fun evaluateParts :: "host \<Rightarrow> TrustedSafeBinCache option \<Rightarrow> eval_params \<Rightarrow> js_env \<Rightarrow> string list \<Rightarrow>
    ExecAllowlistAnalysis \<Rightarrow> ExecAllowlistAnalysis" where
  "evaluateParts h cache ps env [] acc = acc"
| "evaluateParts h cache ps env (part # parts) acc =
     (let analysis = analyzeShellCommand h part (ep_cwd ps) env (ep_platform ps) in
      if \<not> an_ok analysis then analysisFailure
      else
        let ev = evaluateExecAllowlist h cache ps analysis;
            acc' = acc\<lparr>aa_segments := aa_segments acc @ an_segments analysis,
                       aa_matches := aa_matches acc @ ev_matches ev, aa_by := aa_by acc @ ev_by ev\<rparr> in
        if \<not> ev_satisfied ev then acc'\<lparr>aa_satisfied := False\<rparr>
        else evaluateParts h cache ps env parts acc')"

definition evaluateShellAllowlist :: "host \<Rightarrow> TrustedSafeBinCache option \<Rightarrow> eval_params \<Rightarrow> js_env \<Rightarrow> string \<Rightarrow> ExecAllowlistAnalysis" where
  "evaluateShellAllowlist h cache ps env command =
     (case (if isWindowsPlatform (ep_platform ps) then None else splitCommandChain command) of
        None \<Rightarrow>
          (let analysis = analyzeShellCommand h command (ep_cwd ps) env (ep_platform ps) in
           if \<not> an_ok analysis then analysisFailure
           else let ev = evaluateExecAllowlist h cache ps analysis in
             \<lparr>aa_analysisOk = True, aa_satisfied = ev_satisfied ev, aa_matches = ev_matches ev,
              aa_segments = an_segments analysis, aa_by = ev_by ev\<rparr>)
      | Some chainParts \<Rightarrow>
          evaluateParts h cache ps env chainParts
            \<lparr>aa_analysisOk = True, aa_satisfied = True, aa_matches = [], aa_segments = [], aa_by = []\<rparr>)"

section \<open>Soundness of the decision\<close>

text \<open>What each reason means for a segment, without the evaluation loops.\<close>

definition justified :: "host \<Rightarrow> TrustedSafeBinCache option \<Rightarrow> eval_params \<Rightarrow> ExecCommandSegment \<Rightarrow> satisfiedBy option \<Rightarrow> bool" where
  "justified h cache ps seg b =
     (case b of
        Some ByAllowlist \<Rightarrow> (\<exists>e \<in> set (ep_allowlist ps). \<exists>p.
           resolveAllowlistCandidatePath h (seg_resolution seg) (ep_cwd ps) = Some p \<and> entryMatches h p e)
      | Some BySafeBins \<Rightarrow> (\<exists>r p. seg_resolution seg = Some r \<and> resolvedPath r = Some p \<and>
           to_lower (executableName r) \<in> set (ep_safeBins ps) \<and>
           fst (isTrustedSafeBinPath h p (ep_trustedDirs ps) None None cache) \<and>
           validateSafeBinArgv (tl (seg_argv seg))
             (nullish (map_of SAFE_BIN_PROFILES (to_lower (executableName r))) SAFE_BIN_GENERIC_PROFILE))
      | Some BySkills \<Rightarrow> (\<exists>r. seg_resolution seg = Some r \<and> ep_autoAllowSkills ps = Some True \<and>
           executableName r \<in> set (nullish (ep_skillBins ps) []))
      | None \<Rightarrow> False)"

lemma matchAllowlist_Some:
  assumes "matchAllowlist h es res = Some e"
  shows "e \<in> set es \<and> (\<exists>r p. res = Some r \<and> resolvedPath r = Some p \<and> p \<noteq> [] \<and> entryMatches h p e)"
  using assms
  by (auto simp: matchAllowlist_def truthy_Some_iff find_Some_iff Option.bind_eq_Some_conv split: option.splits)

lemma segmentMatch_Some:
  assumes "segmentMatch h ps seg = Some e"
  shows "e \<in> set (ep_allowlist ps) \<and>
    (\<exists>p. resolveAllowlistCandidatePath h (seg_resolution seg) (ep_cwd ps) = Some p \<and> entryMatches h p e)"
proof -
  from matchAllowlist_Some [of h "ep_allowlist ps" "candidateResolution h ps seg" e] assms
  obtain r p where e: "e \<in> set (ep_allowlist ps)" and r: "candidateResolution h ps seg = Some r" "resolvedPath r = Some p"
    "p \<noteq> []" "entryMatches h p e" by (auto simp: segmentMatch_def)
  have "resolveAllowlistCandidatePath h (seg_resolution seg) (ep_cwd ps) = Some p"
  proof (cases "truthy (resolveAllowlistCandidatePath h (seg_resolution seg) (ep_cwd ps))")
    case None
    with r have "seg_resolution seg = Some r" by (simp add: candidateResolution_def)
    with r show ?thesis by (simp add: resolveAllowlistCandidatePath_def truthy_def)
  next
    case (Some q)
    with r have "q = p" by (auto simp: candidateResolution_def)
    with Some show ?thesis by (simp add: truthy_Some_iff)
  qed
  with e r show ?thesis by blast
qed

lemma isSafeBinUsage_justified:
  assumes "isSafeBinUsage h cache (seg_argv seg) (seg_resolution seg) (ep_safeBins ps) (ep_platform ps) (ep_trustedDirs ps)"
  shows "justified h cache ps seg (Some BySafeBins)"
  using assms
  by (auto simp: justified_def isSafeBinUsage_def Let_def truthy_def split: if_splits option.splits)

lemma skillAllow_justified: "skillAllow ps seg \<Longrightarrow> justified h cache ps seg (Some BySkills)"
  by (auto simp: justified_def skillAllow_def split: option.splits)

lemma segmentBy_justified:
  assumes "segmentBy h cache ps seg \<noteq> None"
  shows "justified h cache ps seg (segmentBy h cache ps seg)"
proof (cases "segmentMatch h ps seg")
  case (Some e)
  then show ?thesis using segmentMatch_Some [OF Some] by (auto simp: segmentBy_def justified_def)
next
  case None
  with assms show ?thesis
    using isSafeBinUsage_justified [of h cache seg ps] skillAllow_justified [of ps seg h cache]
    by (simp add: segmentBy_def split: if_splits)
qed

lemma evaluateSegments_sound:
  "ev_satisfied (evaluateSegments h cache ps segs) \<Longrightarrow>
   list_all2 (justified h cache ps) segs (ev_by (evaluateSegments h cache ps segs))"
  by (induction segs) (auto simp: Let_def segmentBy_justified split: if_splits)

lemma evaluateChains_sound:
  "ev_satisfied (evaluateChains h cache ps groups acc) \<Longrightarrow> list_all2 (justified h cache ps) segs (ev_by acc) \<Longrightarrow>
   list_all2 (justified h cache ps) (segs @ concat groups) (ev_by (evaluateChains h cache ps groups acc))"
proof (induction groups arbitrary: acc segs)
  case (Cons g groups)
  then have s: "ev_satisfied (evaluateSegments h cache ps g)"
    by (auto simp: Let_def ev_none_def split: if_splits)
  with Cons.prems Cons.IH [of _ "segs @ g"] evaluateSegments_sound [OF s] show ?case
    by (simp add: Let_def list_all2_appendI)
qed simp

lemma analyze_groups: "an_chains (analyzeShellCommand h c cwd env pl) = Some groups \<Longrightarrow>
    an_segments (analyzeShellCommand h c cwd env pl) = concat groups"
  by (auto simp: analyzeShellCommand_def analyzeWindowsShellCommand_def analysisError_def analysisOk_def
      split: if_splits option.splits sum.splits)

lemma evaluateExecAllowlist_sound:
  assumes "ev_satisfied (evaluateExecAllowlist h cache ps (analyzeShellCommand h c cwd env pl))"
  shows "an_ok (analyzeShellCommand h c cwd env pl) \<and> an_segments (analyzeShellCommand h c cwd env pl) \<noteq> [] \<and>
    list_all2 (justified h cache ps) (an_segments (analyzeShellCommand h c cwd env pl))
     (ev_by (evaluateExecAllowlist h cache ps (analyzeShellCommand h c cwd env pl)))"
proof -
  let ?a = "analyzeShellCommand h c cwd env pl"
  have ok: "an_ok ?a" "an_segments ?a \<noteq> []"
    using assms by (auto simp: evaluateExecAllowlist_def ev_none_def split: if_splits)
  show ?thesis
  proof (cases "an_chains ?a")
    case None
    with ok assms evaluateSegments_sound show ?thesis by (simp add: evaluateExecAllowlist_def)
  next
    case (Some groups)
    let ?acc = "\<lparr>ev_satisfied = True, ev_matches = [], ev_by = []\<rparr>"
    have "ev_satisfied (evaluateChains h cache ps groups ?acc)"
      using Some ok assms by (simp add: evaluateExecAllowlist_def)
    from evaluateChains_sound [OF this, of "[]"] Some ok analyze_groups [OF Some] show ?thesis
      by (auto simp: evaluateExecAllowlist_def)
  qed
qed

definition commandParts :: "eval_params \<Rightarrow> string \<Rightarrow> string list" where
  "commandParts ps command =
     nullish (if isWindowsPlatform (ep_platform ps) then None else splitCommandChain command) [command]"

lemma evaluateParts_sound:
  "aa_satisfied (evaluateParts h cache ps env parts acc) \<Longrightarrow> list_all2 (justified h cache ps) (aa_segments acc) (aa_by acc) \<Longrightarrow>
   list_all2 (justified h cache ps) (aa_segments (evaluateParts h cache ps env parts acc))
     (aa_by (evaluateParts h cache ps env parts acc)) \<and>
   aa_segments (evaluateParts h cache ps env parts acc) = aa_segments acc @
     concat (map (\<lambda>p. an_segments (analyzeShellCommand h p (ep_cwd ps) env (ep_platform ps))) parts) \<and>
   (\<forall>p \<in> set parts. an_ok (analyzeShellCommand h p (ep_cwd ps) env (ep_platform ps)) \<and>
      an_segments (analyzeShellCommand h p (ep_cwd ps) env (ep_platform ps)) \<noteq> [])"
proof (induction parts arbitrary: acc)
  case (Cons p parts)
  let ?a = "analyzeShellCommand h p (ep_cwd ps) env (ep_platform ps)"
  have s: "ev_satisfied (evaluateExecAllowlist h cache ps ?a)"
    using Cons.prems(1) by (auto simp: Let_def analysisFailure_def split: if_splits)
  note j = evaluateExecAllowlist_sound [OF s]
  define acc' where "acc' = acc\<lparr>aa_segments := aa_segments acc @ an_segments ?a,
      aa_matches := aa_matches acc @ ev_matches (evaluateExecAllowlist h cache ps ?a),
      aa_by := aa_by acc @ ev_by (evaluateExecAllowlist h cache ps ?a)\<rparr>"
  have e: "evaluateParts h cache ps env (p # parts) acc = evaluateParts h cache ps env parts acc'"
    using s j by (simp add: acc'_def Let_def)
  have "list_all2 (justified h cache ps) (aa_segments acc') (aa_by acc')"
    using j Cons.prems(2) by (simp add: acc'_def list_all2_appendI)
  note ih = Cons.IH [OF Cons.prems(1) [unfolded e] this]
  have seg: "aa_segments acc' = aa_segments acc @ an_segments ?a" by (simp add: acc'_def)
  show ?case unfolding e
  proof (intro conjI)
    show "list_all2 (justified h cache ps) (aa_segments (evaluateParts h cache ps env parts acc'))
        (aa_by (evaluateParts h cache ps env parts acc'))" using ih by blast
  qed (use ih j seg in auto)
qed simp

lemma shell_allowlist_sound:
  assumes "aa_satisfied (evaluateShellAllowlist h cache ps env command)"
  shows "list_all2 (justified h cache ps) (aa_segments (evaluateShellAllowlist h cache ps env command))
      (aa_by (evaluateShellAllowlist h cache ps env command)) \<and>
    aa_segments (evaluateShellAllowlist h cache ps env command) =
      concat (map (\<lambda>p. an_segments (analyzeShellCommand h p (ep_cwd ps) env (ep_platform ps))) (commandParts ps command)) \<and>
    (\<forall>p \<in> set (commandParts ps command). an_ok (analyzeShellCommand h p (ep_cwd ps) env (ep_platform ps)) \<and>
      an_segments (analyzeShellCommand h p (ep_cwd ps) env (ep_platform ps)) \<noteq> [])"
proof (cases "if isWindowsPlatform (ep_platform ps) then None else splitCommandChain command")
  case None
  then show ?thesis
    using assms evaluateExecAllowlist_sound [of h cache ps command "ep_cwd ps" env "ep_platform ps"]
    by (auto simp: evaluateShellAllowlist_def commandParts_def Let_def analysisFailure_def split: if_splits)
next
  case (Some parts)
  let ?acc = "\<lparr>aa_analysisOk = True, aa_satisfied = True, aa_matches = [], aa_segments = [], aa_by = []\<rparr>"
  have e: "evaluateShellAllowlist h cache ps env command = evaluateParts h cache ps env parts ?acc"
    and c: "commandParts ps command = parts"
    using Some by (simp_all add: evaluateShellAllowlist_def commandParts_def)
  have r: "aa_satisfied (evaluateParts h cache ps env parts ?acc)" using assms e by simp
  have "list_all2 (justified h cache ps) (aa_segments ?acc) (aa_by ?acc)" by simp
  note q = evaluateParts_sound [OF r this]
  show ?thesis unfolding e c
  proof (intro conjI)
    show "list_all2 (justified h cache ps) (aa_segments (evaluateParts h cache ps env parts ?acc))
        (aa_by (evaluateParts h cache ps env parts ?acc))" using q by blast
  qed (use q in auto)
qed


text \<open>(C3) The allowlist decision is sound: when a shell command is found satisfied, every part of it
  (between chain operators) was analysed successfully into at least one segment, the reported
  segments are exactly those, and each of them is justified by the reason reported at its position:
  an allowlist pattern matching its resolved path, or a safe binary in a trusted directory with
  validated arguments, or a skill program with automatic approval switched on.\<close>

theorem evaluateShellAllowlist_sound:
  assumes "aa_satisfied (evaluateShellAllowlist h cache ps env command)"
  shows "list_all2 (justified h cache ps) (aa_segments (evaluateShellAllowlist h cache ps env command))
      (aa_by (evaluateShellAllowlist h cache ps env command)) \<and>
    aa_segments (evaluateShellAllowlist h cache ps env command) =
      concat (map (\<lambda>p. an_segments (analyzeShellCommand h p (ep_cwd ps) env (ep_platform ps))) (commandParts ps command)) \<and>
    (\<forall>p \<in> set (commandParts ps command). an_ok (analyzeShellCommand h p (ep_cwd ps) env (ep_platform ps)) \<and>
      an_segments (analyzeShellCommand h p (ep_cwd ps) env (ep_platform ps)) \<noteq> [])"
  by (rule shell_allowlist_sound [OF assms])

definition demo_params :: eval_params where
  "demo_params = \<lparr>ep_allowlist = [\<lparr>al_id = None, al_pattern = ''/usr/bin/*'', al_lastUsedAt = None,
       al_lastUsedCommand = None, al_lastResolvedPath = None\<rparr>],
     ep_safeBins = resolveSafeBins None, ep_cwd = None, ep_platform = None, ep_trustedDirs = None,
     ep_skillBins = Some [''rm''], ep_autoAllowSkills = Some True\<rparr>"

theorem evaluateShellAllowlist_sound_witness:
  "aa_satisfied (evaluateShellAllowlist demo_host None demo_params Map.empty ''grep x | head -n 1 && rm y'') \<and>
   list_all2 (justified demo_host None demo_params)
     (aa_segments (evaluateShellAllowlist demo_host None demo_params Map.empty ''grep x | head -n 1 && rm y''))
     [Some ByAllowlist, Some ByAllowlist, Some BySkills]"
proof -
  have "aa_satisfied (evaluateShellAllowlist demo_host None demo_params Map.empty ''grep x | head -n 1 && rm y'')"
    "aa_by (evaluateShellAllowlist demo_host None demo_params Map.empty ''grep x | head -n 1 && rm y'')
      = [Some ByAllowlist, Some ByAllowlist, Some BySkills]" by code_simp+
  with evaluateShellAllowlist_sound show ?thesis by metis
qed

end
