(* ===== verification/Session_Key.thy ===== *)
theory Session_Key
  imports Prelude_JS
begin

section \<open>Session keys (sessions/session-key-utils.ts, routing/session-key.ts)\<close>

text \<open>
  A conversation is stored under a key \<open>agent:<id>:<rest>\<close>; which agent answers, which history it
  sees and which policy applies are all read back from the key. This theory has the functions that
  build, parse and classify keys. The regular expressions of the code are written out as
  predicates on strings.
\<close>

definition DEFAULT_AGENT_ID :: string where "DEFAULT_AGENT_ID = ''main''"
definition DEFAULT_MAIN_KEY :: string where "DEFAULT_MAIN_KEY = ''main''"
definition DEFAULT_ACCOUNT_ID :: string where "DEFAULT_ACCOUNT_ID = ''default''"

subsection \<open>Parsing\<close>

record ParsedAgentSessionKey =
  pk_agentId :: string
  pk_rest :: string

abbreviation COLON :: char where "COLON \<equiv> CHR '':''"

text \<open>\<open>raw.split(":").filter(Boolean)\<close>.\<close>

definition key_parts :: "string \<Rightarrow> string list" where
  "key_parts raw = filter (\<lambda>p. p \<noteq> []) (split_on COLON raw)"

definition parseAgentSessionKey :: "string option \<Rightarrow> ParsedAgentSessionKey option" where
  "parseAgentSessionKey sessionKey =
     (let raw = trim (nullish sessionKey []) in
      if raw = [] then None
      else
        (let parts = key_parts raw in
         if length parts < 3 then None
         else if parts ! 0 \<noteq> ''agent'' then None
         else
           (let agentId = trim (parts ! 1); rest = join [COLON] (drop 2 parts) in
            if agentId = [] \<or> rest = [] then None else Some \<lparr>pk_agentId = agentId, pk_rest = rest\<rparr>)))"

text \<open>\<open>/^cron:[^:]+:run:[^:]+$/\<close>.\<close>

definition isCronRunSessionKey :: "string option \<Rightarrow> bool" where
  "isCronRunSessionKey sessionKey = (case parseAgentSessionKey sessionKey of
     None \<Rightarrow> False
   | Some p \<Rightarrow> (case split_on COLON (pk_rest p) of
        [a, b, c, d] \<Rightarrow> a = ''cron'' \<and> b \<noteq> [] \<and> c = ''run'' \<and> d \<noteq> []
      | _ \<Rightarrow> False))"

definition isCronSessionKey :: "string option \<Rightarrow> bool" where
  "isCronSessionKey sessionKey = (case parseAgentSessionKey sessionKey of
     None \<Rightarrow> False | Some p \<Rightarrow> starts_with (to_lower (pk_rest p)) ''cron:'')"

text \<open>\<open>(parsed?.rest ?? "").toLowerCase().startsWith(prefix)\<close>, after the same test on the raw key.\<close>

definition key_has_kind :: "string \<Rightarrow> string option \<Rightarrow> bool" where
  "key_has_kind kind sessionKey =
     (let raw = trim (nullish sessionKey []) in
      if raw = [] then False
      else if starts_with (to_lower raw) kind then True
      else starts_with (to_lower (nullish (map_option pk_rest (parseAgentSessionKey (Some raw))) [])) kind)"

definition isSubagentSessionKey :: "string option \<Rightarrow> bool" where
  "isSubagentSessionKey = key_has_kind ''subagent:''"

definition isAcpSessionKey :: "string option \<Rightarrow> bool" where
  "isAcpSessionKey = key_has_kind ''acp:''"

text \<open>\<open>s.split(sep).length - 1\<close> for a longer separator: the occurrences found from left to right.\<close>

function count_sep :: "string \<Rightarrow> string \<Rightarrow> nat" where
  "count_sep sep s =
     (if sep = [] \<or> s = [] then 0
      else if starts_with s sep then Suc (count_sep sep (drop (length sep) s))
      else count_sep sep (tl s))"
  by pat_completeness auto
termination
  by (relation "measure (\<lambda>(sep, s). length s)") (auto simp: starts_with_def)

declare count_sep.simps [simp del]

definition getSubagentDepth :: "string option \<Rightarrow> nat" where
  "getSubagentDepth sessionKey =
     (let raw = to_lower (trim (nullish sessionKey [])) in if raw = [] then 0 else count_sep '':subagent:'' raw)"

definition THREAD_SESSION_MARKERS :: "string list" where
  "THREAD_SESSION_MARKERS = ['':thread:'', '':topic:'']"

text \<open>\<open>s.lastIndexOf(p)\<close>; \<open>None\<close> is -1.\<close>

definition last_index_of :: "string \<Rightarrow> string \<Rightarrow> nat option" where
  "last_index_of p s = find (\<lambda>i. starts_with (drop i s) p) (rev [0..<Suc (length s)])"

text \<open>The largest last index of a marker, -1 when there is none.\<close>

definition resolveThreadParentSessionKey :: "string option \<Rightarrow> string option" where
  "resolveThreadParentSessionKey sessionKey =
     (let raw = trim (nullish sessionKey []) in
      if raw = [] then None
      else
        (let idx = fold (\<lambda>marker idx. case last_index_of marker (to_lower raw) of
                None \<Rightarrow> idx | Some c \<Rightarrow> if idx < int c then int c else idx) THREAD_SESSION_MARKERS (- 1)
         in if idx \<le> 0 then None
            else (let parent = trim (take (nat idx) raw) in if parent = [] then None else Some parent)))"

subsection \<open>Identifiers\<close>

definition normalizeToken :: "string option \<Rightarrow> string" where
  "normalizeToken value = to_lower (trim (nullish value []))"

definition normalizeMainKey :: "string option \<Rightarrow> string" where
  "normalizeMainKey value = (let t = trim (nullish value []) in if t \<noteq> [] then to_lower t else DEFAULT_MAIN_KEY)"

definition id_alnum :: "char \<Rightarrow> bool" where
  "id_alnum c \<longleftrightarrow> (let n = (of_char c :: nat) in 97 \<le> n \<and> n \<le> 122 \<or> 48 \<le> n \<and> n \<le> 57)"

definition id_char :: "char \<Rightarrow> bool" where
  "id_char c \<longleftrightarrow> id_alnum c \<or> c = CHR ''_'' \<or> c = CHR ''-''"

text \<open>ASCII letters in either case, as the flag \<open>i\<close> asks for.\<close>

definition ascii_fold :: "char \<Rightarrow> char" where
  "ascii_fold c = (let n = (of_char c :: nat) in if 65 \<le> n \<and> n \<le> 90 then char_of (n + 32) else c)"

definition valid_id :: "string \<Rightarrow> bool" where
  "valid_id s \<longleftrightarrow> s \<noteq> [] \<and> length s \<le> 64 \<and> id_alnum (ascii_fold (hd s)) \<and> list_all (\<lambda>c. id_char (ascii_fold c)) s"

text \<open>\<open>replace(/[^a-z0-9_-]+/g, "-")\<close>.\<close>

fun collapse_invalid :: "string \<Rightarrow> string" where
  "collapse_invalid [] = []"
| "collapse_invalid (c # s) =
     (if id_char c then c # collapse_invalid s
      else (case s of [] \<Rightarrow> ''-'' | d # _ \<Rightarrow> if id_char d then CHR ''-'' # collapse_invalid s else collapse_invalid s))"

definition strip_leading_dashes :: "string \<Rightarrow> string" where
  "strip_leading_dashes s = dropWhile (\<lambda>c. c = CHR ''-'') s"

definition strip_trailing_dashes :: "string \<Rightarrow> string" where
  "strip_trailing_dashes s = rev (dropWhile (\<lambda>c. c = CHR ''-'') (rev s))"

text \<open>\<open>normalizeAgentId\<close>, \<open>sanitizeAgentId\<close> and \<open>normalizeAccountId\<close> differ in their default only.\<close>

definition normalize_id :: "string \<Rightarrow> string option \<Rightarrow> string" where
  "normalize_id dflt value =
     (let trimmed = trim (nullish value []) in
      if trimmed = [] then dflt
      else if valid_id trimmed then to_lower trimmed
      else or_string (take 64 (strip_trailing_dashes (strip_leading_dashes (collapse_invalid (to_lower trimmed))))) dflt)"

definition normalizeAgentId :: "string option \<Rightarrow> string" where
  "normalizeAgentId = normalize_id DEFAULT_AGENT_ID"

definition sanitizeAgentId :: "string option \<Rightarrow> string" where
  "sanitizeAgentId = normalize_id DEFAULT_AGENT_ID"

definition normalizeAccountId :: "string option \<Rightarrow> string" where
  "normalizeAccountId = normalize_id DEFAULT_ACCOUNT_ID"

subsection \<open>Building keys\<close>

definition resolveAgentIdFromSessionKey :: "string option \<Rightarrow> string" where
  "resolveAgentIdFromSessionKey sessionKey =
     normalizeAgentId (Some (nullish (map_option pk_agentId (parseAgentSessionKey sessionKey)) DEFAULT_AGENT_ID))"

datatype SessionKeyShape = ShapeMissing | ShapeAgent | ShapeLegacyOrAlias | ShapeMalformedAgent

definition classifySessionKeyShape :: "string option \<Rightarrow> SessionKeyShape" where
  "classifySessionKeyShape sessionKey =
     (let raw = trim (nullish sessionKey []) in
      if raw = [] then ShapeMissing
      else if parseAgentSessionKey (Some raw) \<noteq> None then ShapeAgent
      else if starts_with (to_lower raw) ''agent:'' then ShapeMalformedAgent else ShapeLegacyOrAlias)"

definition agent_key :: "string \<Rightarrow> string \<Rightarrow> string" where
  "agent_key agentId rest = ''agent:'' @ agentId @ COLON # rest"

definition buildAgentMainSessionKey :: "string \<Rightarrow> string option \<Rightarrow> string" where
  "buildAgentMainSessionKey agentId mainKey = agent_key (normalizeAgentId (Some agentId)) (normalizeMainKey mainKey)"

definition toAgentRequestSessionKey :: "string option \<Rightarrow> string option" where
  "toAgentRequestSessionKey storeKey =
     (let raw = trim (nullish storeKey []) in
      if raw = [] then None else Some (nullish (map_option pk_rest (parseAgentSessionKey (Some raw))) raw))"

definition toAgentStoreSessionKey :: "string \<Rightarrow> string option \<Rightarrow> string option \<Rightarrow> string" where
  "toAgentStoreSessionKey agentId requestKey mainKey =
     (let raw = trim (nullish requestKey []) in
      if raw = [] \<or> raw = DEFAULT_MAIN_KEY then buildAgentMainSessionKey agentId mainKey
      else
        (let lowered = to_lower raw in
         if starts_with lowered ''agent:'' then lowered
         else agent_key (normalizeAgentId (Some agentId)) lowered))"

definition resolveLinkedPeerId :: "(string \<times> string list) list option \<Rightarrow> string \<Rightarrow> string \<Rightarrow> string option" where
  "resolveLinkedPeerId identityLinks channel peerId0 = (case identityLinks of
     None \<Rightarrow> None
   | Some links \<Rightarrow>
       (let peerId = trim peerId0 in
        if peerId = [] then None
        else
          (let chan = normalizeToken (Some channel);
               candidates = (if normalizeToken (Some peerId) \<noteq> [] then [normalizeToken (Some peerId)] else []) @
                 (if chan \<noteq> [] \<and> normalizeToken (Some (chan @ COLON # peerId)) \<noteq> []
                  then [normalizeToken (Some (chan @ COLON # peerId))] else [])
           in if candidates = [] then None
              else map_option (trim \<circ> fst) (find (\<lambda>(canonical, ids). trim canonical \<noteq> [] \<and>
                 list_ex (\<lambda>i. normalizeToken (Some i) \<noteq> [] \<and> normalizeToken (Some i) \<in> set candidates) ids) links))))"

datatype ChatType = ChatDirect | ChatGroup | ChatChannel

definition chat_name :: "ChatType \<Rightarrow> string" where
  "chat_name k = (case k of ChatDirect \<Rightarrow> ''direct'' | ChatGroup \<Rightarrow> ''group'' | ChatChannel \<Rightarrow> ''channel'')"

datatype dm_scope = DmMain | DmPerPeer | DmPerChannelPeer | DmPerAccountChannelPeer

record peer_params =
  pp_agentId :: string
  pp_mainKey :: "string option"
  pp_channel :: string
  pp_accountId :: "string option"
  pp_peerKind :: "ChatType option"
  pp_peerId :: "string option"
  pp_identityLinks :: "(string \<times> string list) list option"
  pp_dmScope :: "dm_scope option"

definition channel_token :: "string \<Rightarrow> string" where
  "channel_token channel = or_string (to_lower (trim channel)) ''unknown''"

text \<open>The peer a direct message is filed under: the linked identity when there is one.\<close>

definition direct_peer :: "peer_params \<Rightarrow> string" where
  "direct_peer p =
     (let peerId = trim (nullish (pp_peerId p) []);
          linked = (if nullish (pp_dmScope p) DmMain = DmMain then None
                    else resolveLinkedPeerId (pp_identityLinks p) (pp_channel p) peerId)
      in to_lower (nullish (truthy linked) peerId))"

definition buildAgentPeerSessionKey :: "peer_params \<Rightarrow> string" where
  "buildAgentPeerSessionKey p =
     (let agent = normalizeAgentId (Some (pp_agentId p)); kind = nullish (pp_peerKind p) ChatDirect in
      if kind = ChatDirect then
        (let dmScope = nullish (pp_dmScope p) DmMain; peerId = direct_peer p in
         if dmScope = DmPerAccountChannelPeer \<and> peerId \<noteq> [] then
           agent_key agent (channel_token (pp_channel p) @ COLON # normalizeAccountId (pp_accountId p) @ '':direct:'' @ peerId)
         else if dmScope = DmPerChannelPeer \<and> peerId \<noteq> [] then
           agent_key agent (channel_token (pp_channel p) @ '':direct:'' @ peerId)
         else if dmScope = DmPerPeer \<and> peerId \<noteq> [] then agent_key agent (''direct:'' @ peerId)
         else buildAgentMainSessionKey (pp_agentId p) (pp_mainKey p))
      else
        (let peerId = to_lower (or_string (trim (nullish (pp_peerId p) [])) ''unknown'')
         in agent_key agent (channel_token (pp_channel p) @ COLON # chat_name kind @ COLON # peerId)))"

definition buildGroupHistoryKey :: "string \<Rightarrow> string option \<Rightarrow> ChatType \<Rightarrow> string \<Rightarrow> string" where
  "buildGroupHistoryKey channel accountId peerKind peerId =
     or_string (normalizeToken (Some channel)) ''unknown'' @ COLON # normalizeAccountId accountId @ COLON # chat_name peerKind @
     COLON # or_string (to_lower (trim peerId)) ''unknown''"

definition resolveThreadSessionKeys :: "string \<Rightarrow> string option \<Rightarrow> string option \<Rightarrow> bool option \<Rightarrow> string \<times> string option" where
  "resolveThreadSessionKeys baseSessionKey threadId parentSessionKey useSuffix =
     (let t = trim (nullish threadId []) in
      if t = [] then (baseSessionKey, None)
      else (if nullish useSuffix True then baseSessionKey @ '':thread:'' @ to_lower t else baseSessionKey, parentSessionKey))"

section \<open>Identifiers are safe\<close>

lemma fold_code: "(of_char (ascii_fold c) :: nat) = (let n = of_char c in if 65 \<le> n \<and> n \<le> 90 then n + 32 else n)"
  by (auto simp: ascii_fold_def Let_def)

lemma id_char_code: "id_char c \<longleftrightarrow> (let n = (of_char c :: nat) in 97 \<le> n \<and> n \<le> 122 \<or> 48 \<le> n \<and> n \<le> 57 \<or> n = 95 \<or> n = 45)"
  unfolding id_char_def id_alnum_def char_code_eq [of c] by (auto simp: Let_def)

lemma fold_lower: "id_char (ascii_fold c) \<Longrightarrow> lower_char c = ascii_fold c"
  unfolding id_char_code fold_code by (subst char_code_eq) (auto simp: fold_code lower_code Let_def split: if_splits)

lemma id_char_facts:
  assumes "id_char c"
  shows "lower_char c = c" "ascii_fold c = c" "\<not> is_ws c" "c \<noteq> COLON"
proof -
  note c = assms [unfolded id_char_code Let_def]
  show "lower_char c = c" using c by (subst char_code_eq) (auto simp: lower_code Let_def)
  show "ascii_fold c = c" using c by (subst char_code_eq) (auto simp: fold_code Let_def)
  show "\<not> is_ws c" using c by (auto simp: is_ws_code)
  show "c \<noteq> COLON" using c by auto
qed

lemma id_alnum_char: "id_alnum c \<Longrightarrow> id_char c \<and> c \<noteq> CHR ''-''"
  by (auto simp: id_alnum_def id_char_def Let_def)

definition safe_id :: "string \<Rightarrow> bool" where
  "safe_id r \<longleftrightarrow> r \<noteq> [] \<and> length r \<le> 64 \<and> list_all id_char r \<and> hd r \<noteq> CHR ''-''"

lemma collapse_id_chars: "list_all id_char (collapse_invalid s)"
proof (induction s rule: collapse_invalid.induct)
  case (2 c s)
  have "id_char CHR ''-''" by (simp add: id_char_def)
  with 2 show ?case by (cases "id_char c"; cases s) simp_all
qed simp

lemma length_collapse: "length (collapse_invalid s) \<le> length s"
proof (induction s rule: collapse_invalid.induct)
  case (2 c s)
  then show ?case
    by (cases "id_char c"; cases s) (simp_all add: le_SucI del: collapse_invalid.simps(2) add: collapse_invalid.simps(2) [of c])
qed simp

lemma collapse_idle: "list_all id_char s \<Longrightarrow> collapse_invalid s = s"
  by (induction s) auto

lemma strip_leading_hd: "strip_leading_dashes s \<noteq> [] \<Longrightarrow> hd (strip_leading_dashes s) \<noteq> CHR ''-''"
  unfolding strip_leading_dashes_def by (metis (mono_tags) hd_dropWhile)

lemma strip_trailing_last: "strip_trailing_dashes s \<noteq> [] \<Longrightarrow> last (strip_trailing_dashes s) \<noteq> CHR ''-''"
  unfolding strip_trailing_dashes_def
  by (metis (mono_tags, lifting) Nil_is_rev_conv hd_dropWhile last_rev)

lemma strip_trailing_prefix: "\<exists>t. s = strip_trailing_dashes s @ t"
  unfolding strip_trailing_dashes_def
  by (metis rev_append rev_rev_ident takeWhile_dropWhile_id)

lemma set_strips: "set (strip_leading_dashes s) \<subseteq> set s" "set (strip_trailing_dashes s) \<subseteq> set s"
  by (auto simp: strip_leading_dashes_def strip_trailing_dashes_def dest: set_dropWhileD)

lemma length_strips: "length (strip_leading_dashes s) \<le> length s" "length (strip_trailing_dashes s) \<le> length s"
  using length_dropWhile_le [of _ "rev s"] by (simp_all add: strip_leading_dashes_def strip_trailing_dashes_def length_dropWhile_le)

lemma default_ids_safe: "safe_id DEFAULT_AGENT_ID" "safe_id DEFAULT_ACCOUNT_ID"
  by code_simp+

lemma valid_lower_safe:
  assumes "valid_id t"
  shows "safe_id (to_lower t)" "valid_id (to_lower t)"
proof -
  have low: "to_lower t = map ascii_fold t"
    using assms fold_lower by (auto simp: to_lower_def valid_id_def list_all_iff)
  have all: "list_all id_char (to_lower t)" using assms by (simp add: low valid_id_def list_all_iff)
  have h: "id_alnum (hd (to_lower t))" using assms by (simp add: low valid_id_def hd_map)
  show "safe_id (to_lower t)" using assms all h id_alnum_char [of "hd (to_lower t)"]
    by (auto simp: safe_id_def low valid_id_def)
  show "valid_id (to_lower t)"
    using assms all h id_char_facts id_alnum_char [of "hd (to_lower t)"]
    by (auto simp: valid_id_def low list_all_iff)
qed

lemma normalize_id_safe:
  assumes "safe_id d"
  shows "safe_id (normalize_id d v)"
proof -
  let ?t = "trim (nullish v [])"
  let ?x = "strip_leading_dashes (collapse_invalid (to_lower ?t))"
  let ?y = "strip_trailing_dashes ?x"
  have "safe_id (take 64 ?y)" if y: "?y \<noteq> []"
  proof -
    obtain z where z: "?x = ?y @ z" using strip_trailing_prefix by blast
    then have "hd ?x = hd ?y" "?x \<noteq> []" using y by (metis hd_append2, force)
    then have "hd ?y \<noteq> CHR ''-''" using strip_leading_hd by metis
    moreover have "list_all id_char ?y" using collapse_id_chars set_strips by (fastforce simp: list_all_iff)
    ultimately show ?thesis using y by (auto simp: safe_id_def list_all_iff hd_take dest: in_set_takeD)
  qed
  with assms valid_lower_safe(1) show ?thesis by (simp add: normalize_id_def Let_def or_string_def)
qed

lemma to_lower_idle: "list_all id_char r \<Longrightarrow> to_lower r = r"
  unfolding to_lower_def by (rule map_idI) (simp add: list_all_iff id_char_facts)

lemma trim_idle:
  assumes "safe_id r"
  shows "trim r = r"
proof -
  have "id_char (hd r)" "id_char (last r)" "r \<noteq> []" using assms by (auto simp: safe_id_def list_all_iff)
  then show ?thesis using id_char_facts(3) trim_eq_self by metis
qed

text \<open>A normal id that is valid or does not end in a dash is its own normal form.\<close>

lemma normalize_id_fixed:
  assumes "safe_id r" "valid_id r \<or> last r \<noteq> CHR ''-''"
  shows "normalize_id d (Some r) = r"
proof -
  have r: "r \<noteq> []" "length r \<le> 64" "list_all id_char r" "hd r \<noteq> CHR ''-''" using assms(1) by (auto simp: safe_id_def)
  have lead: "strip_leading_dashes r = r" using r by (cases r) (auto simp: strip_leading_dashes_def)
  have trail: "strip_trailing_dashes r = r" if "last r \<noteq> CHR ''-''"
    using that r(1) by (cases r rule: rev_cases) (auto simp: strip_trailing_dashes_def)
  show ?thesis
    using r assms(2) trim_idle [OF assms(1)] to_lower_idle [OF r(3)] collapse_idle [OF r(3)] lead trail
    by (auto simp: normalize_id_def Let_def or_string_def)
qed

lemma normalize_id_idem:
  assumes "length (trim (nullish v [])) \<le> 64" "safe_id d" "last d \<noteq> CHR ''-''"
  shows "normalize_id d (Some (normalize_id d v)) = normalize_id d v"
proof (rule normalize_id_fixed [OF normalize_id_safe [OF assms(2)]])
  let ?t = "trim (nullish v [])"
  let ?y = "strip_trailing_dashes (strip_leading_dashes (collapse_invalid (to_lower ?t)))"
  have "length ?y \<le> length ?t"
    using length_strips length_collapse by (metis le_trans length_map to_lower_def)
  then have "take 64 ?y = ?y" using assms(1) by simp
  then show "valid_id (normalize_id d v) \<or> last (normalize_id d v) \<noteq> CHR ''-''"
    using assms(3) valid_lower_safe(2) strip_trailing_last
    by (auto simp: normalize_id_def Let_def or_string_def)
qed

lemma agent_id_facts:
  "safe_id (normalizeAgentId v)" "COLON \<notin> set (normalizeAgentId v)" "normalizeAgentId v \<noteq> []"
proof -
  show s: "safe_id (normalizeAgentId v)" unfolding normalizeAgentId_def by (rule normalize_id_safe [OF default_ids_safe(1)])
  then show "COLON \<notin> set (normalizeAgentId v)" using id_char_facts(4) by (auto simp: safe_id_def list_all_iff)
  show "normalizeAgentId v \<noteq> []" using s by (simp add: safe_id_def)
qed

text \<open>Agent ids are safe to use in paths and keys: whatever the configuration or a message supplies,
  the normal form is one to 64 lower-case letters, digits, dashes and underscores that does not start
  with a dash; and normalising again changes nothing for a name of at most 64 characters.\<close>

theorem agent_id_safe:
  "normalizeAgentId v \<noteq> [] \<and> length (normalizeAgentId v) \<le> 64 \<and> list_all id_char (normalizeAgentId v) \<and>
   hd (normalizeAgentId v) \<noteq> CHR ''-'' \<and>
   (length (trim (nullish v [])) \<le> 64 \<longrightarrow> normalizeAgentId (Some (normalizeAgentId v)) = normalizeAgentId v)"
proof -
  have "last DEFAULT_AGENT_ID \<noteq> CHR ''-''" by code_simp
  with normalize_id_idem [of v DEFAULT_AGENT_ID] default_ids_safe(1) agent_id_facts(1) [of v] show ?thesis
    unfolding normalizeAgentId_def safe_id_def by blast
qed

theorem agent_id_safe_witness:
  "normalizeAgentId (Some (normalizeAgentId (Some '' -My Agent/../x! ''))) = ''my-agent-x''"
proof -
  have "length (trim (nullish (Some '' -My Agent/../x! '') [])) \<le> 64" "normalizeAgentId (Some '' -My Agent/../x! '') = ''my-agent-x''"
    by code_simp+
  with agent_id_safe [of "Some '' -My Agent/../x! ''"] show ?thesis by simp
qed

text \<open>Beyond 64 characters the cut can leave a dash that the next normalisation removes, so that a name
  and its own normal form name different agents.\<close>

lemma agent_id_not_idempotent:
  "normalizeAgentId (Some (CHR ''_'' # replicate 62 CHR ''a'' @ ''!b'')) = CHR ''_'' # replicate 62 CHR ''a'' @ ''-'' \<and>
   normalizeAgentId (Some (CHR ''_'' # replicate 62 CHR ''a'' @ ''-'')) = CHR ''_'' # replicate 62 CHR ''a''"
  by code_simp

section \<open>Keys belong to one agent and one peer\<close>

text \<open>A rest that \<open>trim\<close> leaves alone and that has a segment.\<close>

definition solid :: "string \<Rightarrow> bool" where
  "solid rest \<longleftrightarrow> rest \<noteq> [] \<and> \<not> is_ws (last rest) \<and> key_parts rest \<noteq> []"

lemma parse_agent_key:
  assumes "a \<noteq> []" "COLON \<notin> set a" "solid rest"
  shows "parseAgentSessionKey (Some (agent_key a rest)) =
    (if trim a = [] then None else Some \<lparr>pk_agentId = trim a, pk_rest = join [COLON] (key_parts rest)\<rparr>)"
proof -
  have "split_on COLON (agent_key a rest) = ''agent'' # a # split_on COLON rest"
    using split_on_step [of COLON "''agent''" "a @ COLON # rest"] split_on_step [OF assms(2), of rest]
    by (simp add: agent_key_def)
  then have parts: "key_parts (agent_key a rest) = ''agent'' # a # key_parts rest" using assms(1) by (simp add: key_parts_def)
  have "trim (agent_key a rest) = agent_key a rest"
  proof (rule trim_eq_self)
    show "\<not> is_ws (hd (agent_key a rest))" by (simp add: agent_key_def is_ws_def)
    show "\<not> is_ws (last (agent_key a rest))" using assms(3) by (simp add: agent_key_def solid_def)
  qed (simp add: agent_key_def)
  moreover have "join [COLON] (key_parts rest) \<noteq> []"
  proof -
    obtain w ws where k: "key_parts rest = w # ws" using assms(3) by (cases "key_parts rest") (auto simp: solid_def)
    moreover have "w \<in> set (key_parts rest)" using k by simp
    then have "w \<noteq> []" by (simp add: key_parts_def)
    ultimately show ?thesis by (cases ws) auto
  qed
  moreover have "2 \<le> length (''agent'' # a # key_parts rest) \<and> key_parts rest \<noteq> []" using assms(3) by (simp add: solid_def)
  moreover have "agent_key a rest \<noteq> []" by (simp add: agent_key_def)
  ultimately show ?thesis by (cases "key_parts rest") (simp_all add: parseAgentSessionKey_def parts Let_def)
qed

lemma join_empties: "\<forall>w \<in> set ws. w = [] \<Longrightarrow> set (join [COLON] ws) \<subseteq> {COLON}"
  by (induction ws rule: induct_list012) auto

lemma key_parts_nonempty: "c \<in> set s \<Longrightarrow> c \<noteq> COLON \<Longrightarrow> key_parts s \<noteq> []"
proof
  assume c: "c \<in> set s" "c \<noteq> COLON" and "key_parts s = []"
  then have "\<forall>w \<in> set (split_on COLON s). w = []" by (simp add: key_parts_def filter_empty_conv)
  from join_empties [OF this] c show False by (auto simp: join_split_on)
qed


lemma lower_trim_last: "trim x \<noteq> [] \<Longrightarrow> \<not> is_ws (last (to_lower (trim x)))"
  using trim_nonempty_ends(2) by (simp add: to_lower_def last_map)

lemma to_lower_Nil [simp]: "to_lower s = [] \<longleftrightarrow> s = []"
  by (simp add: to_lower_def)

lemma direct_peer_trimmed: "\<exists>x. direct_peer p = to_lower (trim x)"
proof -
  have "\<exists>x. c = trim x" if "resolveLinkedPeerId l ch i = Some c" for l ch i c
    using that by (auto simp: resolveLinkedPeerId_def Let_def split: option.splits if_splits)
  then have "\<exists>x. nullish (truthy l) (trim q) = trim x" if "l = None \<or> l = resolveLinkedPeerId a b d" for l a b d q
    using that by (auto simp: truthy_def nullish_def split: option.splits if_splits)
  then show ?thesis unfolding direct_peer_def Let_def by metis
qed

text \<open>A key with a marker segment before a trimmed last segment is solid.\<close>

lemma solid_suffix:
  assumes "t = to_lower (trim x)" "t \<noteq> []" "c \<in> set u" "c \<noteq> COLON"
  shows "solid (u @ t)"
  using assms lower_trim_last [of x] key_parts_nonempty [of c "u @ t"] by (auto simp: solid_def)

lemma solid_main: "key_parts (normalizeMainKey m) \<noteq> [] \<Longrightarrow> solid (normalizeMainKey m)"
  using lower_trim_last [of "nullish m []"]
  by (auto simp: solid_def normalizeMainKey_def Let_def DEFAULT_MAIN_KEY_def is_ws_def key_parts_def split_on.simps split: if_splits)

lemma peer_key_shape:
  assumes "key_parts (normalizeMainKey (pp_mainKey p)) \<noteq> []"
  shows "\<exists>rest. solid rest \<and> buildAgentPeerSessionKey p = agent_key (normalizeAgentId (Some (pp_agentId p))) rest"
proof -
  obtain x where x: "direct_peer p = to_lower (trim x)" using direct_peer_trimmed by blast
  have d: "CHR ''d'' \<in> set '':direct:''" "CHR ''d'' \<noteq> COLON" by simp_all
  have "solid (''direct:'' @ direct_peer p)" "solid ((channel_token (pp_channel p) @ '':direct:'') @ direct_peer p)"
    "solid ((channel_token (pp_channel p) @ COLON # normalizeAccountId (pp_accountId p) @ '':direct:'') @ direct_peer p)"
    if "direct_peer p \<noteq> []"
    by (rule solid_suffix [OF x that, of "CHR ''d''"]; simp)+
  moreover have "solid ((channel_token (pp_channel p) @ COLON # chat_name k @ [COLON]) @
      to_lower (or_string (trim (nullish (pp_peerId p) [])) ''unknown''))" for k
  proof (rule solid_suffix)
    show "to_lower (or_string (trim (nullish (pp_peerId p) [])) ''unknown'') =
        to_lower (trim (or_string (trim (nullish (pp_peerId p) [])) ''unknown''))"
      by (simp add: or_string_def trim_eq_self is_ws_def)
    show "hd (chat_name k) \<in> set (channel_token (pp_channel p) @ COLON # chat_name k @ [COLON])"
      "hd (chat_name k) \<noteq> COLON" by (cases k; simp add: chat_name_def)+
  qed (simp add: or_string_def)
  moreover note solid_main [OF assms]
  ultimately show ?thesis
    by (auto simp: buildAgentPeerSessionKey_def buildAgentMainSessionKey_def Let_def)
qed

lemma agent_id_idem: "length (trim (nullish v [])) \<le> 64 \<Longrightarrow> normalizeAgentId (Some (normalizeAgentId v)) = normalizeAgentId v"
  unfolding normalizeAgentId_def by (rule normalize_id_idem [OF _ default_ids_safe(1)]) (simp_all add: DEFAULT_AGENT_ID_def)

lemma parse_built_key:
  assumes "solid rest"
  shows "parseAgentSessionKey (Some (agent_key (normalizeAgentId v) rest)) =
    Some \<lparr>pk_agentId = normalizeAgentId v, pk_rest = join [COLON] (key_parts rest)\<rparr>"
  using parse_agent_key [OF agent_id_facts(3,2) assms] trim_idle [OF agent_id_facts(1)] agent_id_facts(3) by simp

lemma resolve_built_key:
  assumes "solid rest" "length (trim a) \<le> 64"
  shows "resolveAgentIdFromSessionKey (Some (agent_key (normalizeAgentId (Some a)) rest)) = normalizeAgentId (Some a)"
  using agent_id_idem [of "Some a"] assms by (simp add: resolveAgentIdFromSessionKey_def parse_built_key nullish_def)

text \<open>The session key names its agent: the key built for any peer, kind of chat, account and scope resolves back
  to the agent it was built for, so that a conversation is never answered by another agent. It asks for a name of
  at most 64 characters and a main key that is not made of colons only.\<close>

theorem session_key_agent:
  assumes "length (trim (pp_agentId p)) \<le> 64" "key_parts (normalizeMainKey (pp_mainKey p)) \<noteq> []"
  shows "resolveAgentIdFromSessionKey (Some (buildAgentPeerSessionKey p)) = normalizeAgentId (Some (pp_agentId p)) \<and>
    classifySessionKeyShape (Some (buildAgentPeerSessionKey p)) = ShapeAgent"
proof -
  obtain rest where r: "solid rest" "buildAgentPeerSessionKey p = agent_key (normalizeAgentId (Some (pp_agentId p))) rest"
    using peer_key_shape [OF assms(2)] by blast
  have "trim (agent_key a rest) = agent_key a rest" for a
    by (rule trim_eq_self) (use r(1) in \<open>auto simp: agent_key_def solid_def is_ws_def\<close>)
  moreover have "agent_key a rest \<noteq> []" for a by (simp add: agent_key_def)
  ultimately show ?thesis
    using r assms(1) resolve_built_key parse_built_key by (simp add: classifySessionKeyShape_def nullish_def Let_def)
qed


lemmas id_eval = to_lower_def lower_char_def char_of_def bit_0 trim_def is_ws_def channel_token_def or_string_def normalizeAgentId_def
  normalize_id_def valid_id_def id_alnum_def id_char_def ascii_fold_def nullish_def DEFAULT_AGENT_ID_def strip_trailing_dashes_def
  strip_leading_dashes_def

lemmas peer_eval = id_eval buildAgentPeerSessionKey_def agent_key_def chat_name_def direct_peer_def resolveLinkedPeerId_def truthy_def

definition peer_example :: "string \<Rightarrow> ChatType \<Rightarrow> string \<Rightarrow> peer_params" where
  "peer_example agent kind peer = \<lparr>pp_agentId = agent, pp_mainKey = None, pp_channel = ''Telegram'', pp_accountId = None,
     pp_peerKind = Some kind, pp_peerId = Some peer, pp_identityLinks = None, pp_dmScope = Some DmPerChannelPeer\<rparr>"

theorem session_key_agent_witness:
  "buildAgentPeerSessionKey (peer_example ''Ops Team'' ChatGroup '' -100:7 '') = ''agent:ops-team:telegram:group:-100:7'' \<and>
   resolveAgentIdFromSessionKey (Some (buildAgentPeerSessionKey (peer_example ''Ops Team'' ChatGroup '' -100:7 ''))) = ''ops-team''"
proof -
  have "length (trim (pp_agentId (peer_example ''Ops Team'' ChatGroup '' -100:7 ''))) \<le> 64"
    "key_parts (normalizeMainKey (pp_mainKey (peer_example ''Ops Team'' ChatGroup '' -100:7 ''))) \<noteq> []"
    "buildAgentPeerSessionKey (peer_example ''Ops Team'' ChatGroup '' -100:7 '') = ''agent:ops-team:telegram:group:-100:7''"
    "normalizeAgentId (Some (pp_agentId (peer_example ''Ops Team'' ChatGroup '' -100:7 ''))) = ''ops-team''"
    by (simp_all add: peer_example_def peer_eval key_parts_def normalizeMainKey_def DEFAULT_MAIN_KEY_def)
  then show ?thesis using session_key_agent [of "peer_example ''Ops Team'' ChatGroup '' -100:7 ''"] by simp
qed

text \<open>Store and request keys are inverse for a request key without empty segments.\<close>

lemma store_request_roundtrip:
  assumes "trim r \<noteq> []" "trim r \<noteq> DEFAULT_MAIN_KEY" "\<not> starts_with (to_lower (trim r)) ''agent:''"
    "[] \<notin> set (split_on COLON (to_lower (trim r)))"
  shows "toAgentRequestSessionKey (Some (toAgentStoreSessionKey a (Some r) m)) = Some (to_lower (trim r))"
proof -
  let ?k = "agent_key (normalizeAgentId (Some a)) (to_lower (trim r))"
  have parts: "key_parts (to_lower (trim r)) = split_on COLON (to_lower (trim r))"
    using assms(4) by (auto simp: key_parts_def filter_id_conv)
  moreover have "split_on COLON (to_lower (trim r)) \<noteq> []" by (cases "to_lower (trim r)") (auto split: list.splits)
  ultimately have s: "solid (to_lower (trim r))" using assms(1) lower_trim_last [of r] by (simp add: solid_def)
  have "trim ?k = ?k" by (rule trim_eq_self) (use s in \<open>auto simp: agent_key_def solid_def is_ws_def\<close>)
  moreover have "?k \<noteq> []" by (simp add: agent_key_def)
  moreover have "toAgentStoreSessionKey a (Some r) m = ?k"
    using assms by (simp add: toAgentStoreSessionKey_def Let_def nullish_def)
  ultimately show ?thesis using parse_built_key [OF s] parts
    by (simp add: toAgentRequestSessionKey_def Let_def nullish_def join_split_on)
qed

subsection \<open>Peers do not share a conversation\<close>

text \<open>The peer a conversation is filed under, of either kind.\<close>

definition session_peer :: "peer_params \<Rightarrow> string" where
  "session_peer p = (if nullish (pp_peerKind p) ChatDirect = ChatDirect then direct_peer p
     else to_lower (or_string (trim (nullish (pp_peerId p) [])) ''unknown''))"

text \<open>Direct messages are kept apart by channel and peer, the chat names a peer, and the channel's name has no colon.\<close>

definition isolating :: "peer_params \<Rightarrow> bool" where
  "isolating p \<longleftrightarrow> nullish (pp_dmScope p) DmMain = DmPerChannelPeer \<and> session_peer p \<noteq> [] \<and>
     COLON \<notin> set (channel_token (pp_channel p))"

lemma isolating_key:
  assumes "isolating p"
  shows "buildAgentPeerSessionKey p = ''agent'' @ COLON # normalizeAgentId (Some (pp_agentId p)) @ COLON #
    channel_token (pp_channel p) @ COLON # chat_name (nullish (pp_peerKind p) ChatDirect) @ COLON # session_peer p"
  using assms by (auto simp: isolating_def session_peer_def buildAgentPeerSessionKey_def agent_key_def Let_def chat_name_def)

lemma chat_name_facts: "COLON \<notin> set (chat_name k)" "chat_name k = chat_name l \<longleftrightarrow> k = l"
  by (cases k; simp add: chat_name_def) (cases k; cases l; simp add: chat_name_def)

text \<open>(C32) Under the scope \<open>per-channel-peer\<close>, and between chats that name a peer on a channel whose name has no colon, two chats share a session
  key only when they have the same agent, the same channel, the same kind of chat and the same peer (after identity
  links, without regard to case). A direct message without a peer falls back to the shared main session.\<close>

theorem peer_sessions_isolated:
  assumes "isolating p" "isolating q" "buildAgentPeerSessionKey p = buildAgentPeerSessionKey q"
  shows "normalizeAgentId (Some (pp_agentId p)) = normalizeAgentId (Some (pp_agentId q)) \<and>
    channel_token (pp_channel p) = channel_token (pp_channel q) \<and>
    nullish (pp_peerKind p) ChatDirect = nullish (pp_peerKind q) ChatDirect \<and> session_peer p = session_peer q"
proof -
  have c: "COLON \<notin> set (channel_token (pp_channel p))" "COLON \<notin> set (channel_token (pp_channel q))"
    using assms(1,2) by (simp_all add: isolating_def)
  from assms(3) have "normalizeAgentId (Some (pp_agentId p)) @ COLON # channel_token (pp_channel p) @ COLON # chat_name (nullish (pp_peerKind p) ChatDirect) @ COLON # session_peer p =
    normalizeAgentId (Some (pp_agentId q)) @ COLON # channel_token (pp_channel q) @ COLON # chat_name (nullish (pp_peerKind q) ChatDirect) @ COLON # session_peer q"
    by (simp add: isolating_key assms(1,2))
  from sep_split [OF agent_id_facts(2) agent_id_facts(2) this] have a: "normalizeAgentId (Some (pp_agentId p)) = normalizeAgentId (Some (pp_agentId q))"
    and r: "channel_token (pp_channel p) @ COLON # chat_name (nullish (pp_peerKind p) ChatDirect) @ COLON # session_peer p =
      channel_token (pp_channel q) @ COLON # chat_name (nullish (pp_peerKind q) ChatDirect) @ COLON # session_peer q" by simp_all
  from sep_split [OF c r] have t: "channel_token (pp_channel p) = channel_token (pp_channel q)"
    and r: "chat_name (nullish (pp_peerKind p) ChatDirect) @ COLON # session_peer p = chat_name (nullish (pp_peerKind q) ChatDirect) @ COLON # session_peer q"
    by simp_all
  from sep_split [OF chat_name_facts(1) chat_name_facts(1) r] a t show ?thesis by (simp add: chat_name_facts(2))
qed

theorem peer_sessions_isolated_witness:
  "session_peer (peer_example ''main'' ChatDirect ''Alice'') = session_peer (peer_example ''MAIN'' ChatDirect ''alice '') \<and>
   buildAgentPeerSessionKey (peer_example ''main'' ChatDirect ''Alice'') = ''agent:main:telegram:direct:alice''"
proof -
  have "isolating (peer_example ''main'' ChatDirect ''Alice'')" "isolating (peer_example ''MAIN'' ChatDirect ''alice '')"
    "buildAgentPeerSessionKey (peer_example ''main'' ChatDirect ''Alice'') = ''agent:main:telegram:direct:alice''"
    "buildAgentPeerSessionKey (peer_example ''MAIN'' ChatDirect ''alice '') = ''agent:main:telegram:direct:alice''"
    by (simp_all add: isolating_def session_peer_def peer_example_def peer_eval)
  then show ?thesis
    using peer_sessions_isolated [of "peer_example ''main'' ChatDirect ''Alice''" "peer_example ''MAIN'' ChatDirect ''alice ''"]
    by simp
qed

text \<open>Without a peer the direct messages of all channels meet in the main session.\<close>

lemma blank_peer_shares_main:
  "nullish (pp_peerKind p) ChatDirect = ChatDirect \<Longrightarrow> direct_peer p = [] \<Longrightarrow>
   buildAgentPeerSessionKey p = buildAgentMainSessionKey (pp_agentId p) (pp_mainKey p)"
  by (simp add: buildAgentPeerSessionKey_def)

end
