(* ===== verification/Exec_Approvals.thy ===== *)
theory Exec_Approvals
  imports Exec_Allowlist Session_Key
begin

section \<open>The approvals file and its resolution\<close>

text \<open>
  \<open>infra/exec-approvals.ts\<close>: the persisted policy (defaults, per-agent settings, allowlists), its
  normalisation, the settings in force for an agent, and the operations that record an approval.
  The file is JSON edited by hand and by older versions, so the model keeps what parsing may
  deliver: settings are optional strings of any content, and allowlist items may be strings, objects
  with or without a usable pattern, \<open>null\<close> or something else. A \<open>TypeError\<close> that such data raises is
  the value \<open>None\<close>. Random identifiers come from a supply indexed by a counter that is threaded; the
  file system is the last parsed content of the one file.
\<close>

datatype ExecSecurity = Deny | Allowlist | Full
datatype ExecAsk = AskOff | AskOnMiss | AskAlways

definition security_order :: "ExecSecurity \<Rightarrow> nat" where
  "security_order s = (case s of Deny \<Rightarrow> 0 | Allowlist \<Rightarrow> 1 | Full \<Rightarrow> 2)"

definition ask_order :: "ExecAsk \<Rightarrow> nat" where
  "ask_order a = (case a of AskOff \<Rightarrow> 0 | AskOnMiss \<Rightarrow> 1 | AskAlways \<Rightarrow> 2)"

definition minSecurity :: "ExecSecurity \<Rightarrow> ExecSecurity \<Rightarrow> ExecSecurity" where
  "minSecurity a b = (if security_order a \<le> security_order b then a else b)"

definition maxAsk :: "ExecAsk \<Rightarrow> ExecAsk \<Rightarrow> ExecAsk" where
  "maxAsk a b = (if ask_order a \<ge> ask_order b then a else b)"

definition requiresExecApproval :: "ExecAsk \<Rightarrow> ExecSecurity \<Rightarrow> bool \<Rightarrow> bool \<Rightarrow> bool" where
  "requiresExecApproval ask security analysed allowlistSatisfied \<longleftrightarrow>
     ask = AskAlways \<or>
     (ask = AskOnMiss \<and> security = Allowlist \<and> (\<not> analysed \<or> \<not> allowlistSatisfied))"

subsection \<open>The file\<close>

record ExecApprovalsDefaults =
  df_security :: "string option"
  df_ask :: "string option"
  df_askFallback :: "string option"
  df_autoAllowSkills :: "bool option"

datatype allow_item = AStr string | AObj ExecAllowlistEntry | AObjNoPattern | AObjBadPattern | ANull | AOther
text \<open>An allowlist in the file: absent or null, a string, any other value that is no list, or a list.\<close>

datatype allow_json = AMissing | AString string | ANotArray | AArray "allow_item list"

record ExecApprovalsAgent = ExecApprovalsDefaults +
  ag_allowlist :: allow_json

record ExecApprovalsSocket =
  sk_path :: "string option"
  sk_token :: "string option"

record ExecApprovalsFile =
  ef_socket :: "ExecApprovalsSocket option"
  ef_defaults :: "ExecApprovalsDefaults option"
  ef_agents :: "(string \<times> ExecApprovalsAgent) list option"

definition DEFAULT_SECURITY :: ExecSecurity where "DEFAULT_SECURITY = Deny"
definition DEFAULT_ASK :: ExecAsk where "DEFAULT_ASK = AskOnMiss"
definition DEFAULT_ASK_FALLBACK :: ExecSecurity where "DEFAULT_ASK_FALLBACK = Deny"
definition DEFAULT_AUTO_ALLOW_SKILLS :: bool where "DEFAULT_AUTO_ALLOW_SKILLS = False"
definition DEFAULT_SOCKET :: string where "DEFAULT_SOCKET = ''~/.openclaw/exec-approvals.sock''"
definition DEFAULT_FILE :: string where "DEFAULT_FILE = ''~/.openclaw/exec-approvals.json''"

definition emptyFile :: ExecApprovalsFile where
  "emptyFile = \<lparr>ef_socket = None, ef_defaults = None, ef_agents = Some []\<rparr>"

definition emptyAgent :: ExecApprovalsAgent where
  "emptyAgent = \<lparr>df_security = None, df_ask = None, df_askFallback = None, df_autoAllowSkills = None, ag_allowlist = AMissing\<rparr>"

definition resolveExecApprovalsPath :: "host \<Rightarrow> string" where
  "resolveExecApprovalsPath h = expandHomePrefix h DEFAULT_FILE"

definition resolveExecApprovalsSocketPath :: "host \<Rightarrow> string" where
  "resolveExecApprovalsSocketPath h = expandHomePrefix h DEFAULT_SOCKET"

subsection \<open>Normalisation\<close>

definition normalizeAllowlistPattern :: "string option \<Rightarrow> string option" where
  "normalizeAllowlistPattern value = (let trimmed = trim (nullish value []) in
     if trimmed \<noteq> [] then Some (to_lower trimmed) else None)"

text \<open>\<open>pushEntry\<close> over a list: kept entries and seen keys.\<close>

fun pushEntries :: "allow_item list \<Rightarrow> allow_item list \<times> string list \<Rightarrow> (allow_item list \<times> string list) option" where
  "pushEntries [] acc = Some acc"
| "pushEntries (item # items) (kept, seen) =
     (case item of
        ANull \<Rightarrow> None
      | AObjBadPattern \<Rightarrow> None
      | AObj e \<Rightarrow>
          (case normalizeAllowlistPattern (Some (al_pattern e)) of
             None \<Rightarrow> pushEntries items (kept, seen)
           | Some key \<Rightarrow> if key \<in> set seen then pushEntries items (kept, seen)
               else pushEntries items (kept @ [AObj e], set_add key seen))
      | _ \<Rightarrow> pushEntries items (kept, seen))"

text \<open>What \<open>for ... of\<close> sees: a string is iterated character by character, and a value that is no list raises.\<close>

definition iterable :: "allow_json \<Rightarrow> allow_item list option" where
  "iterable a = (case a of AMissing \<Rightarrow> Some [] | AString s \<Rightarrow> Some (map (\<lambda>c. AStr [c]) s) | ANotArray \<Rightarrow> None | AArray items \<Rightarrow> Some items)"

definition mergeLegacyAgent :: "ExecApprovalsAgent \<Rightarrow> ExecApprovalsAgent \<Rightarrow> ExecApprovalsAgent option" where
  "mergeLegacyAgent current legacy =
     Option.bind (iterable (ag_allowlist current)) (\<lambda>cs.
     Option.bind (pushEntries cs ([], [])) (\<lambda>acc.
     Option.bind (iterable (ag_allowlist legacy)) (\<lambda>ls.
     Option.bind (pushEntries ls acc) (\<lambda>(kept, _).
       Some \<lparr>df_security = orelse (df_security current) (df_security legacy),
             df_ask = orelse (df_ask current) (df_ask legacy),
             df_askFallback = orelse (df_askFallback current) (df_askFallback legacy),
             df_autoAllowSkills = orelse (df_autoAllowSkills current) (df_autoAllowSkills legacy),
             ag_allowlist = (if kept \<noteq> [] then AArray kept else AMissing)\<rparr>))))"

text \<open>The items that survive coercion.\<close>

definition newEntry :: "string \<Rightarrow> ExecAllowlistEntry" where
  "newEntry pattern = \<lparr>al_id = None, al_pattern = pattern, al_lastUsedAt = None, al_lastUsedCommand = None, al_lastResolvedPath = None\<rparr>"

fun coerceItem :: "allow_item \<Rightarrow> ExecAllowlistEntry list" where
  "coerceItem (AStr s) = (if trim s \<noteq> [] then [newEntry (trim s)] else [])"
| "coerceItem (AObj e) = (if trim (al_pattern e) \<noteq> [] then [e] else [])"
| "coerceItem _ = []"

definition coerceAllowlistEntries :: "allow_json \<Rightarrow> ExecAllowlistEntry list option" where
  "coerceAllowlistEntries a =
     (case a of AArray items \<Rightarrow>
        if items = [] then Some []
        else let result = concat (map coerceItem items) in if result \<noteq> [] then Some result else None
      | _ \<Rightarrow> None)"

fun ensureIds :: "(nat \<Rightarrow> string) \<Rightarrow> nat \<Rightarrow> ExecAllowlistEntry list \<Rightarrow> ExecAllowlistEntry list \<times> nat" where
  "ensureIds uuid n [] = ([], n)"
| "ensureIds uuid n (e # es) =
     (if truthy (al_id e) \<noteq> None then (let (r, k) = ensureIds uuid n es in (e # r, k))
      else (let (r, k) = ensureIds uuid (Suc n) es in (e\<lparr>al_id := Some (uuid n)\<rparr> # r, k)))"

definition ensureAllowlistIds :: "(nat \<Rightarrow> string) \<Rightarrow> nat \<Rightarrow> ExecAllowlistEntry list option \<Rightarrow> ExecAllowlistEntry list option \<times> nat" where
  "ensureAllowlistIds uuid n allowlist =
     (case allowlist of None \<Rightarrow> (None, n) | Some es \<Rightarrow> (let (r, k) = ensureIds uuid n es in (Some r, k)))"

definition allowJson :: "ExecAllowlistEntry list option \<Rightarrow> allow_json" where
  "allowJson a = (case a of None \<Rightarrow> AMissing | Some es \<Rightarrow> AArray (map AObj es))"

fun normalizeAgents :: "(nat \<Rightarrow> string) \<Rightarrow> nat \<Rightarrow> (string \<times> ExecApprovalsAgent) list \<Rightarrow> (string \<times> ExecApprovalsAgent) list \<times> nat" where
  "normalizeAgents uuid n [] = ([], n)"
| "normalizeAgents uuid n ((key, agent) # agents) =
     (let (allowlist, k) = ensureAllowlistIds uuid n (coerceAllowlistEntries (ag_allowlist agent));
          (r, k') = normalizeAgents uuid k agents
      in ((key, agent\<lparr>ag_allowlist := allowJson allowlist\<rparr>) # r, k'))"

text \<open>Moving the settings of the old \<open>default\<close> agent to the main agent.\<close>

definition migrateDefault :: "(string \<times> ExecApprovalsAgent) list \<Rightarrow> (string \<times> ExecApprovalsAgent) list option" where
  "migrateDefault agents =
     (case map_of agents ''default'' of
        None \<Rightarrow> Some agents
      | Some legacyDefault \<Rightarrow>
          Option.bind (case map_of agents DEFAULT_AGENT_ID of
              Some main \<Rightarrow> mergeLegacyAgent main legacyDefault | None \<Rightarrow> Some legacyDefault) (\<lambda>m.
            Some (AList.delete ''default'' (AList.update DEFAULT_AGENT_ID m agents))))"

definition normalizeExecApprovals :: "(nat \<Rightarrow> string) \<Rightarrow> nat \<Rightarrow> ExecApprovalsFile \<Rightarrow> (ExecApprovalsFile \<times> nat) option" where
  "normalizeExecApprovals uuid n file =
     (let socket = ef_socket file; defs = ef_defaults file in
      Option.bind (migrateDefault (nullish (ef_agents file) [])) (\<lambda>agents0.
      let (agents, k) = normalizeAgents uuid n agents0 in
      Some (\<lparr>ef_socket = Some \<lparr>sk_path = truthy (map_option trim (Option.bind socket sk_path)),
                            sk_token = truthy (map_option trim (Option.bind socket sk_token))\<rparr>,
             ef_defaults = Some \<lparr>df_security = Option.bind defs df_security, df_ask = Option.bind defs df_ask,
               df_askFallback = Option.bind defs df_askFallback, df_autoAllowSkills = Option.bind defs df_autoAllowSkills\<rparr>,
             ef_agents = Some agents\<rparr>, k)))"

definition mergeExecApprovalsSocketDefaults :: "host \<Rightarrow> ExecApprovalsFile \<Rightarrow> ExecApprovalsFile option \<Rightarrow> ExecApprovalsFile" where
  "mergeExecApprovalsSocketDefaults h normalized current =
     (let curSocket = Option.bind current ef_socket; normSocket = ef_socket normalized in
      normalized\<lparr>ef_socket := Some \<lparr>
        sk_path = Some (nullish (orelse (map_option trim (Option.bind normSocket sk_path))
           (map_option trim (Option.bind curSocket sk_path))) (resolveExecApprovalsSocketPath h)),
        sk_token = Some (nullish (orelse (map_option trim (Option.bind normSocket sk_token))
           (map_option trim (Option.bind curSocket sk_token))) [])\<rparr>\<rparr>)"

subsection \<open>Loading and saving\<close>

text \<open>What reading the file gives: absent, unreadable or not JSON, another version, or the content.\<close>

datatype stored = NoFile | BadFile | OtherVersion | Stored ExecApprovalsFile

definition emptyNormalized :: "(nat \<Rightarrow> string) \<Rightarrow> nat \<Rightarrow> ExecApprovalsFile \<times> nat" where
  "emptyNormalized uuid n = nullish (normalizeExecApprovals uuid n emptyFile) (emptyFile, n)"

definition loadExecApprovals :: "(nat \<Rightarrow> string) \<Rightarrow> nat \<Rightarrow> stored \<Rightarrow> ExecApprovalsFile \<times> nat" where
  "loadExecApprovals uuid n st =
     (case st of Stored file \<Rightarrow>
        (case normalizeExecApprovals uuid n file of Some r \<Rightarrow> r | None \<Rightarrow> emptyNormalized uuid n)
      | _ \<Rightarrow> emptyNormalized uuid n)"

definition saveExecApprovals :: "ExecApprovalsFile \<Rightarrow> stored" where
  "saveExecApprovals file = Stored file"

text \<open>\<open>ensureExecApprovals\<close>: load, normalise again, fill the socket settings (the random token is
  the argument \<open>fresh\<close>), save; \<open>None\<close> when normalising raises.\<close>

definition ensureExecApprovals :: "host \<Rightarrow> (nat \<Rightarrow> string) \<Rightarrow> string \<Rightarrow> nat \<Rightarrow> stored \<Rightarrow> (ExecApprovalsFile \<times> nat \<times> stored) option" where
  "ensureExecApprovals h uuid fresh n st =
     (let (loaded, n1) = loadExecApprovals uuid n st in
      Option.bind (normalizeExecApprovals uuid n1 loaded) (\<lambda>(next, n2).
        let socket = ef_socket next;
            updated = next\<lparr>ef_socket := Some \<lparr>
              sk_path = Some (nullish (truthy (map_option trim (Option.bind socket sk_path))) (resolveExecApprovalsSocketPath h)),
              sk_token = Some (nullish (truthy (map_option trim (Option.bind socket sk_token))) fresh)\<rparr>\<rparr>
        in Some (updated, n2, saveExecApprovals updated)))"

subsection \<open>The settings in force\<close>

definition parseSecurity :: "string \<Rightarrow> ExecSecurity option" where
  "parseSecurity s = (if s = ''allowlist'' then Some Allowlist else if s = ''full'' then Some Full
     else if s = ''deny'' then Some Deny else None)"

definition parseAsk :: "string \<Rightarrow> ExecAsk option" where
  "parseAsk s = (if s = ''always'' then Some AskAlways else if s = ''off'' then Some AskOff
     else if s = ''on-miss'' then Some AskOnMiss else None)"

definition normalizeSecurity :: "string option \<Rightarrow> ExecSecurity \<Rightarrow> ExecSecurity" where
  "normalizeSecurity value fallback = nullish (Option.bind value parseSecurity) fallback"

definition normalizeAsk :: "string option \<Rightarrow> ExecAsk \<Rightarrow> ExecAsk" where
  "normalizeAsk value fallback = nullish (Option.bind value parseAsk) fallback"

record ResolvedSettings =
  rs_security :: ExecSecurity
  rs_ask :: ExecAsk
  rs_askFallback :: ExecSecurity
  rs_autoAllowSkills :: bool

record ExecApprovalsDefaultOverrides =
  ov_security :: "ExecSecurity option"
  ov_ask :: "ExecAsk option"
  ov_askFallback :: "ExecSecurity option"
  ov_autoAllowSkills :: "bool option"

record ExecApprovalsResolved =
  re_path :: string
  re_socketPath :: string
  re_token :: string
  re_defaults :: ResolvedSettings
  re_agent :: ResolvedSettings
  re_allowlist :: "ExecAllowlistEntry list"
  re_file :: ExecApprovalsFile

definition noOverrides :: ExecApprovalsDefaultOverrides where
  "noOverrides = \<lparr>ov_security = None, ov_ask = None, ov_askFallback = None, ov_autoAllowSkills = None\<rparr>"

definition resolveDefaults :: "ExecApprovalsDefaults option \<Rightarrow> ExecApprovalsDefaultOverrides \<Rightarrow> ResolvedSettings" where
  "resolveDefaults defs ov =
     (let fallbackSecurity = nullish (ov_security ov) DEFAULT_SECURITY;
          fallbackAsk = nullish (ov_ask ov) DEFAULT_ASK;
          fallbackAskFallback = nullish (ov_askFallback ov) DEFAULT_ASK_FALLBACK;
          fallbackAutoAllowSkills = nullish (ov_autoAllowSkills ov) DEFAULT_AUTO_ALLOW_SKILLS in
      \<lparr>rs_security = normalizeSecurity (Option.bind defs df_security) fallbackSecurity,
       rs_ask = normalizeAsk (Option.bind defs df_ask) fallbackAsk,
       rs_askFallback = normalizeSecurity (Option.bind defs df_askFallback) fallbackAskFallback,
       rs_autoAllowSkills = nullish (Option.bind defs df_autoAllowSkills) fallbackAutoAllowSkills\<rparr>)"

text \<open>\<open>agent.x ?? wildcard.x ?? default\<close>, then validated with the default as fallback.\<close>

definition resolveAgent :: "ExecApprovalsAgent \<Rightarrow> ExecApprovalsAgent \<Rightarrow> ResolvedSettings \<Rightarrow> ResolvedSettings" where
  "resolveAgent agent wildcard d =
     \<lparr>rs_security = normalizeSecurity (orelse (df_security agent) (df_security wildcard)) (rs_security d),
      rs_ask = normalizeAsk (orelse (df_ask agent) (df_ask wildcard)) (rs_ask d),
      rs_askFallback = normalizeSecurity (orelse (df_askFallback agent) (df_askFallback wildcard)) (rs_askFallback d),
      rs_autoAllowSkills = nullish (orelse (df_autoAllowSkills agent) (df_autoAllowSkills wildcard)) (rs_autoAllowSkills d)\<rparr>"

fun itemEntry :: "allow_item \<Rightarrow> ExecAllowlistEntry list" where
  "itemEntry (AObj e) = [e]"
| "itemEntry _ = []"

definition allowlistOf :: "ExecApprovalsAgent \<Rightarrow> ExecAllowlistEntry list" where
  "allowlistOf agent = (case ag_allowlist agent of AArray items \<Rightarrow> concat (map itemEntry items) | _ \<Rightarrow> [])"

definition agentOf :: "ExecApprovalsFile \<Rightarrow> string \<Rightarrow> ExecApprovalsAgent" where
  "agentOf file key = nullish (map_of (nullish (ef_agents file) []) key) emptyAgent"

definition resolveExecApprovalsFromFile :: "host \<Rightarrow> (nat \<Rightarrow> string) \<Rightarrow> nat \<Rightarrow> ExecApprovalsFile \<Rightarrow> string option \<Rightarrow>
    ExecApprovalsDefaultOverrides \<Rightarrow> string option \<Rightarrow> string option \<Rightarrow> string option \<Rightarrow> (ExecApprovalsResolved \<times> nat) option" where
  "resolveExecApprovalsFromFile h uuid n file0 agentId ov path socketPath token =
     Option.bind (normalizeExecApprovals uuid n file0) (\<lambda>(file, k).
       let agent = agentOf file (nullish agentId DEFAULT_AGENT_ID); wildcard = agentOf file ''*'';
           d = resolveDefaults (ef_defaults file) ov; socket = ef_socket file in
       Some (\<lparr>re_path = nullish path (resolveExecApprovalsPath h),
              re_socketPath = expandHomePrefix h (nullish (orelse socketPath (Option.bind socket sk_path)) (resolveExecApprovalsSocketPath h)),
              re_token = nullish (orelse token (Option.bind socket sk_token)) [],
              re_defaults = d, re_agent = resolveAgent agent wildcard d,
              re_allowlist = allowlistOf wildcard @ allowlistOf agent, re_file = file\<rparr>, k))"

definition resolveExecApprovals :: "host \<Rightarrow> (nat \<Rightarrow> string) \<Rightarrow> string \<Rightarrow> nat \<Rightarrow> stored \<Rightarrow> string option \<Rightarrow>
    ExecApprovalsDefaultOverrides \<Rightarrow> (ExecApprovalsResolved \<times> nat \<times> stored) option" where
  "resolveExecApprovals h uuid fresh n st agentId ov =
     Option.bind (ensureExecApprovals h uuid fresh n st) (\<lambda>(file, k, st').
     Option.bind (resolveExecApprovalsFromFile h uuid k file agentId ov (Some (resolveExecApprovalsPath h))
         (Some (expandHomePrefix h (nullish (Option.bind (ef_socket file) sk_path) (resolveExecApprovalsSocketPath h))))
         (Some (nullish (Option.bind (ef_socket file) sk_token) []))) (\<lambda>(r, k').
       Some (r, k', st')))"

subsection \<open>Recording approvals\<close>

definition setAgentAllowlist :: "ExecApprovalsFile \<Rightarrow> string \<Rightarrow> allow_item list \<Rightarrow> ExecApprovalsFile" where
  "setAgentAllowlist file key items =
     file\<lparr>ef_agents := Some (AList.update key ((agentOf file key)\<lparr>ag_allowlist := AArray items\<rparr>) (nullish (ef_agents file) []))\<rparr>"

definition itemsOf :: "ExecApprovalsAgent \<Rightarrow> allow_item list" where
  "itemsOf agent = (case ag_allowlist agent of AArray items \<Rightarrow> items | _ \<Rightarrow> [])"

fun touchItems :: "(nat \<Rightarrow> string) \<Rightarrow> nat \<Rightarrow> string \<Rightarrow> int \<Rightarrow> string \<Rightarrow> string option \<Rightarrow> allow_item list \<Rightarrow> allow_item list \<times> nat" where
  "touchItems uuid n pattern now command path [] = ([], n)"
| "touchItems uuid n pattern now command path (AObj e # items) =
     (if al_pattern e = pattern then
        (let k = (if al_id e = None then Suc n else n);
             (r, k') = touchItems uuid k pattern now command path items
         in (AObj (e\<lparr>al_id := Some (nullish (al_id e) (uuid n)), al_lastUsedAt := Some now,
                     al_lastUsedCommand := Some command, al_lastResolvedPath := path\<rparr>) # r, k'))
      else (let (r, k') = touchItems uuid n pattern now command path items in (AObj e # r, k')))"
| "touchItems uuid n pattern now command path (i # items) =
     (let (r, k') = touchItems uuid n pattern now command path items in (i # r, k'))"

definition recordAllowlistUse :: "(nat \<Rightarrow> string) \<Rightarrow> nat \<Rightarrow> int \<Rightarrow> ExecApprovalsFile \<Rightarrow> string option \<Rightarrow> ExecAllowlistEntry \<Rightarrow>
    string \<Rightarrow> string option \<Rightarrow> ExecApprovalsFile \<times> nat \<times> stored" where
  "recordAllowlistUse uuid n now approvals agentId entry command path =
     (let target = nullish agentId DEFAULT_AGENT_ID;
          (items, k) = touchItems uuid n (al_pattern entry) now command path (itemsOf (agentOf approvals target));
          file = setAgentAllowlist approvals target items
      in (file, k, saveExecApprovals file))"

definition hasPattern :: "string \<Rightarrow> allow_item \<Rightarrow> bool" where
  "hasPattern pattern item = (case item of AObj e \<Rightarrow> al_pattern e = pattern | _ \<Rightarrow> False)"

definition addAllowlistEntry :: "(nat \<Rightarrow> string) \<Rightarrow> nat \<Rightarrow> int \<Rightarrow> ExecApprovalsFile \<Rightarrow> string option \<Rightarrow> string \<Rightarrow> stored \<Rightarrow>
    ExecApprovalsFile \<times> nat \<times> stored" where
  "addAllowlistEntry uuid n now approvals agentId pattern st =
     (let target = nullish agentId DEFAULT_AGENT_ID; items = itemsOf (agentOf approvals target); trimmed = trim pattern in
      if trimmed = [] then (approvals, n, st)
      else if list_ex (hasPattern trimmed) items then (approvals, n, st)
      else let file = setAgentAllowlist approvals target
                 (items @ [AObj ((newEntry trimmed)\<lparr>al_id := Some (uuid n), al_lastUsedAt := Some now\<rparr>)])
           in (file, Suc n, saveExecApprovals file))"


section \<open>The order of permissions\<close>

instantiation ExecSecurity :: linorder
begin
definition less_eq_ExecSecurity :: "ExecSecurity \<Rightarrow> ExecSecurity \<Rightarrow> bool" where
  "less_eq_ExecSecurity a b \<longleftrightarrow> security_order a \<le> security_order b"
definition less_ExecSecurity :: "ExecSecurity \<Rightarrow> ExecSecurity \<Rightarrow> bool" where
  "less_ExecSecurity a b \<longleftrightarrow> security_order a < security_order b"
instance
  by standard (auto simp: less_eq_ExecSecurity_def less_ExecSecurity_def security_order_def split: ExecSecurity.splits)
end

instantiation ExecAsk :: linorder
begin
definition less_eq_ExecAsk :: "ExecAsk \<Rightarrow> ExecAsk \<Rightarrow> bool" where
  "less_eq_ExecAsk a b \<longleftrightarrow> ask_order a \<le> ask_order b"
definition less_ExecAsk :: "ExecAsk \<Rightarrow> ExecAsk \<Rightarrow> bool" where
  "less_ExecAsk a b \<longleftrightarrow> ask_order a < ask_order b"
instance
  by standard (auto simp: less_eq_ExecAsk_def less_ExecAsk_def ask_order_def split: ExecAsk.splits)
end

lemma minSecurity_min: "minSecurity a b = min a b"
  by (simp add: minSecurity_def min_def less_eq_ExecSecurity_def)

lemma maxAsk_max: "maxAsk a b = max a b"
  by (auto simp: maxAsk_def max_def less_eq_ExecAsk_def ask_order_def split: ExecAsk.splits)

lemma Deny_least [simp]: "Deny \<le> s"
  by (simp add: less_eq_ExecSecurity_def security_order_def)

lemma requiresExecApproval_mono:
  "requiresExecApproval a s ok sat \<Longrightarrow> a \<le> a' \<Longrightarrow> requiresExecApproval a' s ok sat"
  by (cases a; cases a') (auto simp: requiresExecApproval_def less_eq_ExecAsk_def ask_order_def)

section \<open>Normalising is stable\<close>

















definition demo_uuid :: "nat \<Rightarrow> string" where
  "demo_uuid n = CHR ''u'' # replicate n (CHR ''i'')"

definition demo_file :: ExecApprovalsFile where
  "demo_file = \<lparr>ef_socket = Some \<lparr>sk_path = Some '' /run/a.sock '', sk_token = Some '' ''\<rparr>, ef_defaults = None,
     ef_agents = Some [(''default'', emptyAgent\<lparr>df_security := Some ''allowlist'',
         ag_allowlist := AArray [AStr ''ls'', AObj (newEntry ''/usr/bin/head'')]\<rparr>),
       (''main'', emptyAgent\<lparr>ag_allowlist := AArray [AObj (newEntry ''/USR/bin/head''), AOther]\<rparr>),
       (''ops'', emptyAgent\<lparr>ag_allowlist := AString ''ls''\<rparr>)]\<rparr>"

definition demo_normalized :: ExecApprovalsFile where
  "demo_normalized = fst (the (normalizeExecApprovals demo_uuid 0 demo_file))"



section \<open>Failing closed, and recording an approval\<close>

lemma normalize_empty:
  "normalizeExecApprovals uuid n emptyFile = Some (\<lparr>ef_socket = Some \<lparr>sk_path = None, sk_token = None\<rparr>,
     ef_defaults = Some \<lparr>df_security = None, df_ask = None, df_askFallback = None, df_autoAllowSkills = None\<rparr>,
     ef_agents = Some []\<rparr>, n)"
  by (simp add: normalizeExecApprovals_def emptyFile_def migrateDefault_def truthy_def Let_def)

text \<open>Normalising raises only in the merge of the old default agent.\<close>

lemma normalize_total_without_merge:
  "map_of (nullish (ef_agents file) []) ''default'' = None \<or> map_of (nullish (ef_agents file) []) DEFAULT_AGENT_ID = None \<Longrightarrow>
   normalizeExecApprovals uuid n file \<noteq> None"
  by (cases "ef_agents file")
    (auto simp: normalizeExecApprovals_def migrateDefault_def Let_def simp del: map_of_eq_None_iff split: option.splits prod.splits)

text \<open>(C26) What is left of a lost approvals file: when it is missing, unreadable, of another version, or
  so damaged that normalising it raises, the settings resolved for every agent are exactly what the caller passed, and for what it did not pass
  deny, ask on a miss, deny when nobody answers and no automatic skills; the allowlist is empty. So the callers, which pass their
  configured security and ask, fall back to that configuration, denied when nobody answers and with nothing allowlisted.\<close>

theorem resolveExecApprovals_damaged_file:
  assumes "st \<in> {NoFile, BadFile, OtherVersion} \<or> (\<exists>f. st = Stored f \<and> normalizeExecApprovals uuid n f = None)"
  shows "\<exists>r st'. resolveExecApprovals h uuid fresh n st agentId ov = Some (r, n, st') \<and>
    re_agent r = \<lparr>rs_security = nullish (ov_security ov) Deny, rs_ask = nullish (ov_ask ov) AskOnMiss,
      rs_askFallback = nullish (ov_askFallback ov) Deny, rs_autoAllowSkills = nullish (ov_autoAllowSkills ov) False\<rparr> \<and>
    re_allowlist r = []"
proof -
  have e: "emptyNormalized uuid n = (\<lparr>ef_socket = Some \<lparr>sk_path = None, sk_token = None\<rparr>,
     ef_defaults = Some \<lparr>df_security = None, df_ask = None, df_askFallback = None, df_autoAllowSkills = None\<rparr>,
     ef_agents = Some []\<rparr>, n)"
    by (simp add: emptyNormalized_def normalize_empty)
  have l: "loadExecApprovals uuid n st = emptyNormalized uuid n"
    using assms by (auto simp: loadExecApprovals_def)
  show ?thesis
    by (simp add: resolveExecApprovals_def ensureExecApprovals_def l e resolveExecApprovalsFromFile_def
        normalizeExecApprovals_def migrateDefault_def agentOf_def emptyAgent_def allowlistOf_def resolveAgent_def
        resolveDefaults_def normalizeSecurity_def normalizeAsk_def DEFAULT_SECURITY_def DEFAULT_ASK_def
        DEFAULT_ASK_FALLBACK_def DEFAULT_AUTO_ALLOW_SKILLS_def Let_def)
qed

text \<open>A file that denies everything, but whose old default agent has a null in its allowlist, and a caller configured for full access:
  the denial is lost.\<close>

definition bad_file :: ExecApprovalsFile where
  "bad_file = \<lparr>ef_socket = None, ef_defaults = Some \<lparr>df_security = Some ''deny'', df_ask = Some ''always'',
       df_askFallback = Some ''deny'', df_autoAllowSkills = Some False\<rparr>,
     ef_agents = Some [(''default'', emptyAgent\<lparr>ag_allowlist := AArray [ANull]\<rparr>), (''main'', emptyAgent)]\<rparr>"

theorem resolveExecApprovals_damaged_file_witness:
  "\<exists>r st'. resolveExecApprovals demo_host demo_uuid ''tok'' 0 (Stored bad_file) None (noOverrides\<lparr>ov_security := Some Full, ov_ask := Some AskOff\<rparr>) = Some (r, 0, st') \<and>
    re_agent r = \<lparr>rs_security = Full, rs_ask = AskOff, rs_askFallback = Deny, rs_autoAllowSkills = False\<rparr> \<and>
    re_allowlist r = []"
proof -
  have "normalizeExecApprovals demo_uuid 0 bad_file = None" by code_simp
  then have "Stored bad_file \<in> {NoFile, BadFile, OtherVersion} \<or>
      (\<exists>f. Stored bad_file = Stored f \<and> normalizeExecApprovals demo_uuid 0 f = None)" by blast
  from resolveExecApprovals_damaged_file [OF this, of demo_host "''tok''" None "noOverrides\<lparr>ov_security := Some Full, ov_ask := Some AskOff\<rparr>"]
  show ?thesis by (simp add: noOverrides_def)
qed

lemma damaged_file_loses_denial:
  "map_option (\<lambda>(r, _). rs_security (re_agent r))
     (resolveExecApprovals demo_host demo_uuid ''tok'' 0 (Stored bad_file) None (noOverrides\<lparr>ov_security := Some Full, ov_ask := Some AskOff\<rparr>)) = Some Full \<and>
   map_option (\<lambda>(r, _). rs_security (re_agent r))
     (resolveExecApprovals demo_host demo_uuid ''tok'' 0 (Stored (bad_file\<lparr>ef_agents := None\<rparr>)) None
        (noOverrides\<lparr>ov_security := Some Full, ov_ask := Some AskOff\<rparr>)) = Some Deny"
  by code_simp

lemma agentOf_setAgentAllowlist:
  "agentOf (setAgentAllowlist f key items) k =
     (if k = key then (agentOf f key)\<lparr>ag_allowlist := AArray items\<rparr> else agentOf f k)"
  by (simp add: agentOf_def setAgentAllowlist_def)

lemma allowlistOf_items: "allowlistOf a = concat (map itemEntry (itemsOf a))"
  by (simp add: allowlistOf_def itemsOf_def split: allow_json.splits)

lemma hasPattern_entry: "list_ex (hasPattern p) items \<Longrightarrow> \<exists>e \<in> set (concat (map itemEntry items)). al_pattern e = p"
proof (induction items)
  case (Cons i items)
  then show ?case by (cases i) (auto simp: hasPattern_def)
qed simp

text \<open>Approving once and for all: after \<open>addAllowlistEntry\<close> with a non-blank pattern the agent's
  allowlist holds an entry with the trimmed pattern and every entry it held before; the settings of
  every other agent are untouched; and adding the same pattern again changes nothing.\<close>

theorem addAllowlistEntry_adds:
  assumes "trim pattern \<noteq> []" and "addAllowlistEntry uuid n now f agentId pattern st = (f', k, st')"
  shows "(\<exists>e \<in> set (allowlistOf (agentOf f' (nullish agentId DEFAULT_AGENT_ID))). al_pattern e = trim pattern)
    \<and> set (allowlistOf (agentOf f (nullish agentId DEFAULT_AGENT_ID)))
        \<subseteq> set (allowlistOf (agentOf f' (nullish agentId DEFAULT_AGENT_ID)))
    \<and> (\<forall>other. other \<noteq> nullish agentId DEFAULT_AGENT_ID \<longrightarrow> agentOf f' other = agentOf f other)
    \<and> addAllowlistEntry uuid' n' now' f' agentId pattern st'' = (f', n', st'')"
proof (cases "list_ex (hasPattern (trim pattern)) (itemsOf (agentOf f (nullish agentId DEFAULT_AGENT_ID)))")
  case True
  with assms have "f' = f" by (simp add: addAllowlistEntry_def Let_def)
  with True assms(1) hasPattern_entry [OF True] show ?thesis
    by (auto simp: addAllowlistEntry_def Let_def allowlistOf_items)
next
  case False
  let ?t = "nullish agentId DEFAULT_AGENT_ID"
  let ?items = "itemsOf (agentOf f ?t) @ [AObj ((newEntry (trim pattern))\<lparr>al_id := Some (uuid n), al_lastUsedAt := Some now\<rparr>)]"
  have f': "f' = setAgentAllowlist f ?t ?items"
    using False assms by (simp add: addAllowlistEntry_def Let_def)
  then have i: "itemsOf (agentOf f' ?t) = ?items" by (simp add: agentOf_setAgentAllowlist itemsOf_def)
  then show ?thesis using assms(1) f'
    by (auto simp: addAllowlistEntry_def Let_def allowlistOf_items agentOf_setAgentAllowlist hasPattern_def newEntry_def)
qed

theorem addAllowlistEntry_adds_witness:
  "\<exists>e \<in> set (allowlistOf (agentOf (fst (addAllowlistEntry demo_uuid 3 99 demo_normalized (Some ''ops'') '' /bin/rm '' NoFile)) ''ops'')).
     al_pattern e = ''/bin/rm''"
proof -
  have t: "trim '' /bin/rm '' = ''/bin/rm''" by code_simp
  obtain f' k st' where "addAllowlistEntry demo_uuid 3 99 demo_normalized (Some ''ops'') '' /bin/rm '' NoFile = (f', k, st')"
    by (metis prod_cases3)
  from addAllowlistEntry_adds [OF _ this] this t show ?thesis by simp
qed

end
