(* ===== verification/Exec_Gateway.thy ===== *)
theory Exec_Gateway
  imports Exec_Approvals
begin

section \<open>Executing a command on the gateway host\<close>

text \<open>
  \<open>processGatewayAllowlist\<close> (\<open>agents/bash-tools.exec-host-gateway.ts\<close>): the decision to run a command
  at once, to refuse it, or to ask an operator, and the continuation that runs when the operator's
  answer arrives. The function is two turns of the event loop, so it is two definitions; what the
  asynchronous closure captures is the record \<open>gw_pending\<close>. What happens on the host is a list of
  events. Process output, notices and the progress timer are left out: they come after the spawn.
\<close>

record gw_params =
  gp_command :: string
  gp_workdir :: string
  gp_env :: js_env
  gp_security :: ExecSecurity
  gp_ask :: ExecAsk
  gp_safeBins :: "string list"
  gp_agentId :: "string option"
  gp_warnings :: "string list"
  gp_trustedDirs :: "string list option"

record gw_world =
  gw_store :: stored
  gw_uuid :: nat

record gw_pending =
  pd_id :: string
  pd_params :: gw_params
  pd_hostSecurity :: ExecSecurity
  pd_askFallback :: ExecSecurity
  pd_analysisOk :: bool
  pd_satisfied :: bool
  pd_eval :: ExecAllowlistAnalysis
  pd_file :: ExecApprovalsFile

datatype gw_outcome =
    GwThrow string
  | GwPending gw_pending
  | GwReturn "string option" "string list"

datatype gw_event = GwDenied string | GwSpawn string bool

definition gatewayEvalParams :: "host \<Rightarrow> gw_params \<Rightarrow> ExecAllowlistEntry list \<Rightarrow> eval_params" where
  "gatewayEvalParams h params allowlist =
     \<lparr>ep_allowlist = allowlist, ep_safeBins = gp_safeBins params, ep_cwd = Some (gp_workdir params),
      ep_platform = Some (processPlatform h), ep_trustedDirs = gp_trustedDirs params,
      ep_skillBins = None, ep_autoAllowSkills = None\<rparr>"

definition firstResolvedPath :: "ExecAllowlistAnalysis \<Rightarrow> string option" where
  "firstResolvedPath ev = (case aa_segments ev of [] \<Rightarrow> None | s # _ \<Rightarrow> Option.bind (seg_resolution s) resolvedPath)"

text \<open>The loop over the matched entries, each pattern once; \<open>saved\<close> is the last file written.\<close>

fun recordUses :: "(nat \<Rightarrow> string) \<Rightarrow> int \<Rightarrow> string option \<Rightarrow> string \<Rightarrow> string option \<Rightarrow> ExecAllowlistEntry list \<Rightarrow>
    string list \<Rightarrow> ExecApprovalsFile \<Rightarrow> gw_world \<Rightarrow> gw_world" where
  "recordUses uuid now agentId command path [] seen file w = w"
| "recordUses uuid now agentId command path (m # ms) seen file w =
     (if al_pattern m \<in> set seen then recordUses uuid now agentId command path ms seen file w
      else let (file', k, st) = recordAllowlistUse uuid (gw_uuid w) now file agentId m command path in
        recordUses uuid now agentId command path ms (set_add (al_pattern m) seen) file' \<lparr>gw_store = st, gw_uuid = k\<rparr>)"

text \<open>The hardened command: \<open>Inl\<close> is the error thrown, \<open>Inr (override, warning)\<close> the result.\<close>

definition hardenSafeBins :: "host \<Rightarrow> string \<Rightarrow> ExecAllowlistAnalysis \<Rightarrow> string + (string \<times> string)" where
  "hardenSafeBins h command ev =
     (let platform = Some (processPlatform h);
          safe = buildSafeBinsShellCommand command (aa_segments ev) (aa_by ev) platform;
          fallback = buildSafeShellCommand command platform;
          hard = (\<lambda>c. Inr (c, ''Warning: safeBins hardening disabled glob/variable expansion for stdin-only segments.''));
          soft = (\<lambda>why. case fallback of
              Inr c \<Rightarrow> if c \<noteq> [] then Inr (c, ''Warning: safeBins hardening used fallback quoting due to parser mismatch.'')
                else Inl (''exec denied: safeBins sanitize failed ('' @ why @ '')'')
            | Inl _ \<Rightarrow> Inl (''exec denied: safeBins sanitize failed ('' @ why @ '')'')) in
      case safe of Inr c \<Rightarrow> if c \<noteq> [] then hard c else soft ''unknown'' | Inl why \<Rightarrow> soft why)"

definition processGatewayAllowlist :: "host \<Rightarrow> TrustedSafeBinCache option \<Rightarrow> (nat \<Rightarrow> string) \<Rightarrow> string \<Rightarrow> int \<Rightarrow>
    gw_params \<Rightarrow> gw_world \<Rightarrow> gw_outcome \<times> gw_world" where
  "processGatewayAllowlist h cache uuid fresh now params w0 =
     (case resolveExecApprovals h uuid fresh (gw_uuid w0) (gw_store w0) (gp_agentId params)
         (noOverrides\<lparr>ov_security := Some (gp_security params), ov_ask := Some (gp_ask params)\<rparr>) of
        None \<Rightarrow> (GwThrow ''TypeError'', w0)
      | Some (approvals, k, st) \<Rightarrow>
          let w = \<lparr>gw_store = st, gw_uuid = k\<rparr>;
              hostSecurity = minSecurity (gp_security params) (rs_security (re_agent approvals));
              hostAsk = maxAsk (gp_ask params) (rs_ask (re_agent approvals)) in
          if hostSecurity = Deny then (GwThrow ''exec denied: host=gateway security=deny'', w)
          else
            let ev = evaluateShellAllowlist h cache (gatewayEvalParams h params (re_allowlist approvals)) (gp_env params) (gp_command params);
                satisfied = (if hostSecurity = Allowlist \<and> aa_analysisOk ev then aa_satisfied ev else False) in
            if requiresExecApproval hostAsk hostSecurity (aa_analysisOk ev) satisfied then
              (GwPending \<lparr>pd_id = uuid (gw_uuid w), pd_params = params, pd_hostSecurity = hostSecurity,
                 pd_askFallback = rs_askFallback (re_agent approvals), pd_analysisOk = aa_analysisOk ev,
                 pd_satisfied = satisfied, pd_eval = ev, pd_file = re_file approvals\<rparr>,
               w\<lparr>gw_uuid := Suc (gw_uuid w)\<rparr>)
            else if hostSecurity = Allowlist \<and> (\<not> aa_analysisOk ev \<or> \<not> satisfied) then
              (GwThrow ''exec denied: allowlist miss'', w)
            else
              let recorded = recordUses uuid now (gp_agentId params) (gp_command params) (firstResolvedPath ev)
                    (aa_matches ev) [] (re_file approvals) w in
              if hostSecurity = Allowlist \<and> aa_analysisOk ev \<and> satisfied \<and> Some BySafeBins \<in> set (aa_by ev) then
                (case hardenSafeBins h (gp_command params) ev of
                   Inl err \<Rightarrow> (GwThrow err, w)
                 | Inr (override, warning) \<Rightarrow> (GwReturn (Some override) (gp_warnings params @ [warning]), recorded))
              else (GwReturn None (gp_warnings params), recorded))"

subsection \<open>After the operator's answer\<close>

datatype approval_reply = RequestFailed | Reply "string option"

text \<open>The local variables \<open>approvedByAsk\<close> and \<open>deniedReason\<close> after the decision branches.\<close>

definition decisionBranches :: "gw_pending \<Rightarrow> string option \<Rightarrow> bool \<times> string option" where
  "decisionBranches pd decision =
     (if decision = Some ''deny'' then (False, Some ''user-denied'')
      else if truthy decision = None then
        (case pd_askFallback pd of
           Full \<Rightarrow> (True, None)
         | Allowlist \<Rightarrow> if \<not> pd_analysisOk pd \<or> \<not> pd_satisfied pd then (False, Some ''approval-timeout (allowlist-miss)'') else (True, None)
         | Deny \<Rightarrow> (False, Some ''approval-timeout''))
      else if decision = Some ''allow-once'' then (True, None)
      else if decision = Some ''allow-always'' then (True, None)
      else (False, None))"

definition deniedReason :: "gw_pending \<Rightarrow> string option \<Rightarrow> string option" where
  "deniedReason pd decision =
     (let (approved, why) = decisionBranches pd decision in
      if pd_hostSecurity pd = Allowlist \<and> (\<not> pd_analysisOk pd \<or> \<not> pd_satisfied pd) \<and> \<not> approved
      then Some (nullish why ''allowlist-miss'') else why)"

text \<open>\<open>addAllowlistEntry\<close> for every resolved segment, on the file captured before the question.\<close>

fun addSegments :: "(nat \<Rightarrow> string) \<Rightarrow> int \<Rightarrow> string option \<Rightarrow> ExecCommandSegment list \<Rightarrow> ExecApprovalsFile \<Rightarrow> gw_world \<Rightarrow>
    ExecApprovalsFile \<times> gw_world" where
  "addSegments uuid now agentId [] file w = (file, w)"
| "addSegments uuid now agentId (seg # segs) file w =
     (case truthy (Option.bind (seg_resolution seg) resolvedPath) of
        None \<Rightarrow> addSegments uuid now agentId segs file w
      | Some pattern \<Rightarrow>
          let (file', k, st) = addAllowlistEntry uuid (gw_uuid w) now file agentId pattern (gw_store w) in
          addSegments uuid now agentId segs file' \<lparr>gw_store = st, gw_uuid = k\<rparr>)"

definition afterDecision :: "(nat \<Rightarrow> string) \<Rightarrow> int \<Rightarrow> gw_pending \<Rightarrow> approval_reply \<Rightarrow> bool \<Rightarrow> gw_world \<Rightarrow> gw_event list \<times> gw_world" where
  "afterDecision uuid now pd reply spawns w0 =
     (case reply of
        RequestFailed \<Rightarrow> ([GwDenied ''approval-request-failed''], w0)
      | Reply decision \<Rightarrow>
          let params = pd_params pd;
              (file, w) = (if decision = Some ''allow-always'' \<and> pd_hostSecurity pd = Allowlist
                 then addSegments uuid now (gp_agentId params) (aa_segments (pd_eval pd)) (pd_file pd) w0
                 else (pd_file pd, w0)) in
          case deniedReason pd decision of
            Some why \<Rightarrow> ([GwDenied why], w)
          | None \<Rightarrow>
              let w' = recordUses uuid now (gp_agentId params) (gp_command params) (firstResolvedPath (pd_eval pd))
                    (aa_matches (pd_eval pd)) [] file w in
              (if spawns then [GwSpawn (gp_command params) True]
               else [GwSpawn (gp_command params) False, GwDenied ''spawn-failed''], w'))"


section \<open>The hardened command\<close>











section \<open>No command runs without permission\<close>



definition gw_file :: ExecApprovalsFile where
  "gw_file = \<lparr>ef_socket = None, ef_defaults = None,
     ef_agents = Some [(''main'', emptyAgent\<lparr>df_security := Some ''allowlist'',
        ag_allowlist := AArray [AStr ''/usr/bin/grep'']\<rparr>)]\<rparr>"

definition gw_demo :: "string \<Rightarrow> gw_params" where
  "gw_demo command = \<lparr>gp_command = command, gp_workdir = ''/work'', gp_env = Map.empty, gp_security = Allowlist,
     gp_ask = AskOnMiss, gp_safeBins = [''head''], gp_agentId = None, gp_warnings = [], gp_trustedDirs = None\<rparr>"

definition gw_world0 :: gw_world where
  "gw_world0 = \<lparr>gw_store = Stored gw_file, gw_uuid = 0\<rparr>"

abbreviation gw_run :: "string \<Rightarrow> gw_outcome \<times> gw_world" where
  "gw_run c \<equiv> processGatewayAllowlist demo_host None demo_uuid ''tok'' 5 (gw_demo c) gw_world0"





text \<open>(C2) The operator's answer is respected: after a question the command is spawned, as it was asked
  about, exactly when the answer is allow-once or allow-always, or there is no answer and the
  configured fallback is full, or it is allowlist and the command satisfies it, or the answer is
  none of the known ones and the command needed no approval beyond the question; never when the
  answer is deny or the request failed.\<close>

theorem gateway_answer_respected:
  "GwSpawn c ok \<in> set (fst (afterDecision uuid now pd reply spawns w)) \<longleftrightarrow>
     c = gp_command (pd_params pd) \<and> ok = spawns \<and>
     (\<exists>decision. reply = Reply decision \<and> decision \<noteq> Some ''deny'' \<and>
       (decision \<in> {Some ''allow-once'', Some ''allow-always''} \<or>
        (if decision \<in> {None, Some []}
         then pd_askFallback pd = Full \<or> pd_askFallback pd = Allowlist \<and> pd_analysisOk pd \<and> pd_satisfied pd
         else pd_hostSecurity pd \<noteq> Allowlist \<or> pd_analysisOk pd \<and> pd_satisfied pd)))"
proof (cases reply)
  case RequestFailed
  then show ?thesis by (simp add: afterDecision_def)
next
  case (Reply decision)
  have spawn: "GwSpawn c ok \<in> set (fst (afterDecision uuid now pd reply spawns w)) \<longleftrightarrow>
      c = gp_command (pd_params pd) \<and> ok = spawns \<and> deniedReason pd decision = None"
    using Reply by (auto simp: afterDecision_def Let_def split: option.splits prod.splits if_splits)
  have "deniedReason pd decision = None \<longleftrightarrow> decision \<noteq> Some ''deny'' \<and>
       (decision \<in> {Some ''allow-once'', Some ''allow-always''} \<or>
        (if decision \<in> {None, Some []}
         then pd_askFallback pd = Full \<or> pd_askFallback pd = Allowlist \<and> pd_analysisOk pd \<and> pd_satisfied pd
         else pd_hostSecurity pd \<noteq> Allowlist \<or> pd_analysisOk pd \<and> pd_satisfied pd))"
    by (cases "pd_askFallback pd")
      (auto simp: deniedReason_def decisionBranches_def truthy_def Let_def split: option.splits if_splits)
  with spawn Reply show ?thesis by simp
qed


definition pendingOf :: "gw_outcome \<Rightarrow> gw_pending option" where
  "pendingOf r = (case r of GwPending p \<Rightarrow> Some p | _ \<Rightarrow> None)"

definition demo_pending :: gw_pending where
  "demo_pending = the (pendingOf (fst (gw_run ''rm y'')))"

theorem gateway_answer_respected_witness:
  "GwSpawn ''rm y'' True \<in> set (fst (afterDecision demo_uuid 7 demo_pending (Reply (Some ''allow-once'')) True gw_world0)) \<and>
   GwSpawn ''rm y'' True \<notin> set (fst (afterDecision demo_uuid 7 demo_pending (Reply (Some ''deny'')) True gw_world0)) \<and>
   GwSpawn ''rm y'' True \<notin> set (fst (afterDecision demo_uuid 7 demo_pending (Reply None) True gw_world0))"
proof -
  have "gp_command (pd_params demo_pending) = ''rm y''" "pd_askFallback demo_pending = Deny" by code_simp+
  then show ?thesis by (simp add: gateway_answer_respected)
qed

subsection \<open>Two consequences of asking asynchronously\<close>

text \<open>The approvals file captured before the question is written back after the answer: of two
  approvals granted for good while both were pending, the second write loses the first.\<close>

definition storedPatterns :: "gw_world \<Rightarrow> string list" where
  "storedPatterns w = (case gw_store w of Stored f \<Rightarrow> map al_pattern (allowlistOf (agentOf f DEFAULT_AGENT_ID)) | _ \<Rightarrow> [])"

definition two_approvals :: "string list list" where
  "two_approvals =
     (let (r1, w1) = gw_run ''rm y'';
          (r2, w2) = processGatewayAllowlist demo_host None demo_uuid ''tok'' 6 ((gw_demo ''head -n 1'')\<lparr>gp_safeBins := []\<rparr>) w1 in
      case (pendingOf r1, pendingOf r2) of
        (Some p1, Some p2) \<Rightarrow>
          (let (_, w3) = afterDecision demo_uuid 7 p1 (Reply (Some ''allow-always'')) True w2;
               (_, w4) = afterDecision demo_uuid 8 p2 (Reply (Some ''allow-always'')) True w3
           in [storedPatterns w3, storedPatterns w4])
      | _ \<Rightarrow> [])"

lemma concurrent_allow_always_loses_entry:
  "two_approvals = [[''/usr/bin/grep'', ''/bin/rm''], [''/usr/bin/grep'', ''/usr/bin/head'']]"
  by code_simp

text \<open>After a question the command runs as given, even when it satisfied the allowlist through safe
  binaries only: the literal quoting of the immediate path is not applied.\<close>

definition asked_spawn :: "gw_event list" where
  "asked_spawn =
     (case pendingOf (fst (processGatewayAllowlist demo_host None demo_uuid ''tok'' 6
         ((gw_demo ''head -n $N'')\<lparr>gp_ask := AskAlways\<rparr>)
         (gw_world0\<lparr>gw_store := Stored (gw_file\<lparr>ef_defaults := Some \<lparr>df_security = None, df_ask = None,
            df_askFallback = Some ''allowlist'', df_autoAllowSkills = None\<rparr>\<rparr>)\<rparr>))) of
        Some p \<Rightarrow> fst (afterDecision demo_uuid 7 p (Reply None) True gw_world0) | None \<Rightarrow> [])"

lemma asked_command_not_hardened: "asked_spawn = [GwSpawn ''head -n $N'' True]"
  by code_simp

end
