(* ===== verification/Approval_Manager.thy ===== *)
theory Approval_Manager
  imports Promise_Ledger
begin

section \<open>The approval manager\<close>

text \<open>
  \<open>gateway/exec-approval-manager.ts\<close>: the table of approval requests waiting for an operator. Entries
  are objects that the table and the timer closures share, so they live in a store under the
  number of their promise; the table maps an approval id to such a number, \<open>amTimers\<close> holds the
  entries whose timeout is armed, \<open>amGrace\<close> those whose removal is scheduled. Every handler of the
  class and every timer callback is one turn of the event loop. The manager is an interpretation
  of the \<open>promise_ledger\<close> contract.
\<close>

datatype ExecApprovalDecision = AllowOnce | AllowAlways | DecisionDeny

definition RESOLVED_ENTRY_GRACE_MS :: int where "RESOLVED_ENTRY_GRACE_MS = 15000"

record ExecApprovalRequestPayload =
  rq_command :: string
  rq_cwd :: "string option"
  rq_host :: "string option"
  rq_security :: "string option"
  rq_ask :: "string option"
  rq_agentId :: "string option"
  rq_resolvedPath :: "string option"
  rq_sessionKey :: "string option"

record ExecApprovalRecord =
  ar_id :: string
  ar_request :: ExecApprovalRequestPayload
  ar_createdAtMs :: int
  ar_expiresAtMs :: int
  ar_resolvedAtMs :: "int option"
  ar_decision :: "ExecApprovalDecision option"
  ar_resolvedBy :: "string option"

record am_state =
  amPending :: "(string \<times> nat) list"
  amEntries :: "(nat \<times> ExecApprovalRecord) list"
  amTimers :: "nat list"
  amGrace :: "nat list"
  amNext :: nat

definition am_init :: am_state where
  "am_init = \<lparr>amPending = [], amEntries = [], amTimers = [], amGrace = [], amNext = 0\<rparr>"

datatype am_event = AmSettled nat "ExecApprovalDecision option"

text \<open>\<open>create\<close>; \<open>fresh\<close> is the random identifier used when the caller gives none.\<close>

definition am_create :: "int \<Rightarrow> string \<Rightarrow> ExecApprovalRequestPayload \<Rightarrow> int \<Rightarrow> string option \<Rightarrow> ExecApprovalRecord" where
  "am_create now fresh request timeoutMs givenId =
     \<lparr>ar_id = (case truthy givenId of Some i \<Rightarrow> if trim i \<noteq> [] then trim i else fresh | None \<Rightarrow> fresh),
      ar_request = request, ar_createdAtMs = now, ar_expiresAtMs = now + timeoutMs,
      ar_resolvedAtMs = None, ar_decision = None, ar_resolvedBy = None\<rparr>"

datatype register_result = Registered nat | AlreadyResolved

definition am_register :: "ExecApprovalRecord \<Rightarrow> am_state \<Rightarrow> am_state \<times> register_result" where
  "am_register rec s =
     (case Option.bind (map_of (amPending s) (ar_id rec)) (\<lambda>r. map_option (Pair r) (map_of (amEntries s) r)) of
        Some (r, existing) \<Rightarrow>
          if ar_resolvedAtMs existing = None then (s, Registered r) else (s, AlreadyResolved)
      | None \<Rightarrow>
          let r = amNext s in
          (s\<lparr>amPending := AList.update (ar_id rec) r (amPending s), amEntries := AList.update r rec (amEntries s),
             amTimers := amTimers s @ [r], amNext := Suc r\<rparr>, Registered r))"

text \<open>The timeout callback of an entry, then the grace callback.\<close>

definition am_timeout :: "int \<Rightarrow> nat \<Rightarrow> am_state \<Rightarrow> am_state \<times> am_event list" where
  "am_timeout now r s =
     (if r \<notin> set (amTimers s) then (s, [])
      else case map_of (amEntries s) r of None \<Rightarrow> (s, [])
        | Some rec \<Rightarrow>
            (s\<lparr>amEntries := AList.update r (rec\<lparr>ar_resolvedAtMs := Some now, ar_decision := None, ar_resolvedBy := None\<rparr>) (amEntries s),
               amTimers := remove1 r (amTimers s), amGrace := amGrace s @ [r]\<rparr>, [AmSettled r None]))"

definition am_graceExpired :: "nat \<Rightarrow> am_state \<Rightarrow> am_state" where
  "am_graceExpired r s =
     (if r \<notin> set (amGrace s) then s
      else case map_of (amEntries s) r of None \<Rightarrow> s
        | Some rec \<Rightarrow>
            s\<lparr>amGrace := remove1 r (amGrace s),
              amPending := (if map_of (amPending s) (ar_id rec) = Some r then AList.delete (ar_id rec) (amPending s) else amPending s)\<rparr>)"

definition am_resolve :: "int \<Rightarrow> string \<Rightarrow> ExecApprovalDecision \<Rightarrow> string option \<Rightarrow> am_state \<Rightarrow> am_state \<times> am_event list \<times> bool" where
  "am_resolve now recordId decision resolvedBy s =
     (case map_of (amPending s) recordId of None \<Rightarrow> (s, [], False)
      | Some r \<Rightarrow>
        (case map_of (amEntries s) r of None \<Rightarrow> (s, [], False)
         | Some rec \<Rightarrow>
             if ar_resolvedAtMs rec \<noteq> None then (s, [], False)
             else (s\<lparr>amTimers := remove1 r (amTimers s),
                     amEntries := AList.update r (rec\<lparr>ar_resolvedAtMs := Some now, ar_decision := Some decision, ar_resolvedBy := resolvedBy\<rparr>) (amEntries s),
                     amGrace := amGrace s @ [r]\<rparr>, [AmSettled r (Some decision)], True)))"

definition am_getSnapshot :: "string \<Rightarrow> am_state \<Rightarrow> ExecApprovalRecord option" where
  "am_getSnapshot recordId s = Option.bind (map_of (amPending s) recordId) (map_of (amEntries s))"

definition am_awaitDecision :: "string \<Rightarrow> am_state \<Rightarrow> nat option" where
  "am_awaitDecision recordId s = map_of (amPending s) recordId"

subsection \<open>Runs\<close>

text \<open>Records are registered as \<open>create\<close> returned them, i.e. unresolved.\<close>

datatype am_op =
    RegisterOp ExecApprovalRecord
  | TimeoutOp nat
  | GraceOp nat
  | ResolveOp string ExecApprovalDecision "string option"

fun am_exec :: "int \<times> am_op \<Rightarrow> am_state \<Rightarrow> am_state \<times> am_event list" where
  "am_exec (now, RegisterOp rec) s =
     (fst (am_register (rec\<lparr>ar_resolvedAtMs := None, ar_decision := None, ar_resolvedBy := None\<rparr>) s), [])"
| "am_exec (now, TimeoutOp r) s = am_timeout now r s"
| "am_exec (now, GraceOp r) s = (am_graceExpired r s, [])"
| "am_exec (now, ResolveOp i d by') s = (case am_resolve now i d by' s of (s', evs, _) \<Rightarrow> (s', evs))"

definition am_settled :: "am_event list \<Rightarrow> nat list" where
  "am_settled evs = map (\<lambda>e. case e of AmSettled r _ \<Rightarrow> r) evs"

definition am_open :: "am_state \<Rightarrow> nat multiset" where
  "am_open s = mset (amTimers s)"

text \<open>Armed timers are exactly the unresolved entries.\<close>

definition am_inv :: "am_state \<Rightarrow> bool" where
  "am_inv s \<longleftrightarrow> distinct (keys (amPending s)) \<and> distinct (amTimers s) \<and>
     (\<forall>r. r \<in> set (amTimers s) \<longleftrightarrow> (\<exists>rec. map_of (amEntries s) r = Some rec \<and> ar_resolvedAtMs rec = None)) \<and>
     (\<forall>r rec. map_of (amEntries s) r = Some rec \<longrightarrow> r < amNext s) \<and>
     (\<forall>i r. map_of (amPending s) i = Some r \<longrightarrow> (\<exists>rec. map_of (amEntries s) r = Some rec \<and> ar_id rec = i))"

lemma am_inv_init: "am_inv am_init"
  by (simp add: am_inv_def am_init_def)

lemma am_inv_pendingD:
  "am_inv s \<Longrightarrow> map_of (amPending s) i = Some r \<Longrightarrow> \<exists>rec. map_of (amEntries s) r = Some rec \<and> ar_id rec = i"
  by (simp add: am_inv_def)

lemma am_inv_freshD: "am_inv s \<Longrightarrow> map_of (amEntries s) (amNext s) = None \<and> amNext s \<notin> set (amTimers s)"
  unfolding am_inv_def by (metis less_irrefl option.exhaust option.simps(3))

text \<open>An entry changes only from unresolved to resolved; this is shared by the two ways to settle it.\<close>

lemma am_inv_settle:
  assumes "am_inv s" "map_of (amEntries s) r = Some rec" "ar_resolvedAtMs rec' = Some t" "ar_id rec' = ar_id rec"
  shows "am_inv (s\<lparr>amTimers := remove1 r (amTimers s), amEntries := AList.update r rec' (amEntries s), amGrace := g\<rparr>)"
proof -
  have d: "distinct (amTimers s)" using assms(1) by (simp add: am_inv_def)
  then have "set (remove1 r (amTimers s)) = set (amTimers s) - {r}" by simp
  with assms show ?thesis
    unfolding am_inv_def by (auto simp: distinct_remove1 d split: if_splits) (metis option.inject)
qed

lemma am_register_step:
  assumes "am_inv s" "ar_resolvedAtMs rec = None" "am_register rec s = (s', res)"
  shows "am_inv s' \<and> amNext s \<le> amNext s' \<and> am_open s' = am_open s + mset [amNext s..<amNext s']"
proof (cases "map_of (amPending s) (ar_id rec)")
  case (Some r)
  with am_inv_pendingD [OF assms(1) Some] assms(1,3) show ?thesis
    by (auto simp: am_register_def split: if_splits)
next
  case None
  then have s': "s' = s\<lparr>amPending := AList.update (ar_id rec) (amNext s) (amPending s),
      amEntries := AList.update (amNext s) rec (amEntries s), amTimers := amTimers s @ [amNext s], amNext := Suc (amNext s)\<rparr>"
    using assms(3) by (simp add: am_register_def Let_def)
  have "am_inv s'"
    using assms(1,2) am_inv_freshD [OF assms(1)] unfolding s' am_inv_def
    by (auto simp: distinct_update less_Suc_eq split: if_splits) (metis option.distinct(1))
  with s' show ?thesis by (simp add: am_open_def)
qed


lemma am_resolve_step:
  assumes "am_inv s" "am_resolve now i d b s = (s', evs, ok)"
  shows "am_inv s' \<and> amNext s' = amNext s \<and> am_open s' + mset (am_settled evs) = am_open s"
proof (cases ok)
  case True
  with assms(2) obtain r rec where r: "map_of (amPending s) i = Some r" "map_of (amEntries s) r = Some rec"
    "ar_resolvedAtMs rec = None" and evs: "evs = [AmSettled r (Some d)]"
    and s': "s' = s\<lparr>amTimers := remove1 r (amTimers s),
         amEntries := AList.update r (rec\<lparr>ar_resolvedAtMs := Some now, ar_decision := Some d, ar_resolvedBy := b\<rparr>) (amEntries s),
         amGrace := amGrace s @ [r]\<rparr>"
    by (auto simp: am_resolve_def split: option.splits if_splits)
  have "r \<in> set (amTimers s)" using r assms(1) by (auto simp: am_inv_def)
  moreover have "am_inv s'" unfolding s' by (rule am_inv_settle [OF assms(1) r(2)]) simp_all
  ultimately show ?thesis using evs s' by (simp add: am_open_def am_settled_def)
next
  case False
  with assms show ?thesis by (auto simp: am_resolve_def am_settled_def split: option.splits if_splits)
qed

lemma am_timeout_step:
  assumes "am_inv s" "am_timeout now r s = (s', evs)"
  shows "am_inv s' \<and> amNext s' = amNext s \<and> am_open s' + mset (am_settled evs) = am_open s"
proof (cases "r \<in> set (amTimers s)")
  case True
  then obtain rec where r: "map_of (amEntries s) r = Some rec" using assms(1) by (auto simp: am_inv_def)
  with True assms(2) have evs: "evs = [AmSettled r None]"
    and s': "s' = s\<lparr>amTimers := remove1 r (amTimers s),
       amEntries := AList.update r (rec\<lparr>ar_resolvedAtMs := Some now, ar_decision := None, ar_resolvedBy := None\<rparr>) (amEntries s),
       amGrace := amGrace s @ [r]\<rparr>"
    by (auto simp: am_timeout_def)
  have "am_inv s'" unfolding s' by (rule am_inv_settle [OF assms(1) r]) simp_all
  with True evs s' show ?thesis by (simp add: am_open_def am_settled_def)
next
  case False
  with assms show ?thesis by (auto simp: am_timeout_def am_settled_def)
qed

lemma am_grace_step:
  assumes "am_inv s"
  shows "am_inv (am_graceExpired r s) \<and> amNext (am_graceExpired r s) = amNext s \<and> am_open (am_graceExpired r s) = am_open s"
  using assms
  by (auto simp: am_graceExpired_def am_inv_def am_open_def distinct_delete split: option.splits if_splits)

lemma am_exec_step:
  assumes "am_inv s" "am_exec x s = (s', evs)"
  shows "am_inv s' \<and> amNext s \<le> amNext s' \<and> am_open s' + mset (am_settled evs) = am_open s + mset [amNext s..<amNext s']"
proof -
  obtain now op where x: "x = (now, op)" by fastforce
  show ?thesis
  proof (cases op)
    case (RegisterOp rec)
    let ?rec = "rec\<lparr>ar_resolvedAtMs := None, ar_decision := None, ar_resolvedBy := None\<rparr>"
    obtain s1 res where "am_register ?rec s = (s1, res)" by fastforce
    with am_register_step [OF assms(1) _ this] assms(2) x RegisterOp show ?thesis by (auto simp: am_settled_def)
  next
    case (TimeoutOp r)
    with am_timeout_step [OF assms(1)] assms(2) x show ?thesis by fastforce
  next
    case (GraceOp r)
    with am_grace_step [OF assms(1)] assms(2) x show ?thesis by (auto simp: am_settled_def)
  next
    case (ResolveOp i d b)
    obtain s1 e1 ok where r: "am_resolve now i d b s = (s1, e1, ok)" by (metis prod_cases3)
    with am_resolve_step [OF assms(1) r] assms(2) x ResolveOp show ?thesis by simp
  qed
qed

interpretation am: promise_ledger am_exec am_open amNext am_settled am_inv
  by unfold_locales (use am_exec_step in \<open>fastforce simp: am_settled_def\<close>)+

text \<open>(C20) An approval is decided once: over any sequence of registrations, decisions, timeouts and
  grace expiries, no approval promise is settled twice (never by a decision and also by its
  timeout), and every promise handed out is settled or its timeout is still armed.\<close>

theorem approval_settles_once:
  "case run_ops am_exec ops am_init of (s', evs) \<Rightarrow>
     distinct (am_settled evs) \<and> set (amTimers s') \<inter> set (am_settled evs) = {} \<and>
     set (amTimers s') \<union> set (am_settled evs) = {0..<amNext s'}"
proof -
  obtain s' evs where r: "run_ops am_exec ops am_init = (s', evs)" by fastforce
  have o: "am_open am_init = {#}" "amNext am_init = 0" by (simp_all add: am_open_def am_init_def)
  note once = am.run_settles_once [OF am_inv_init o(1) r]
  show ?thesis using once r o(2) by (simp add: am_open_def)
qed

subsection \<open>A decision is final\<close>

lemma am_entry_resolved:
  assumes "am_inv s" "map_of (amEntries s) r = Some rec" "ar_resolvedAtMs rec \<noteq> None" "am_exec x s = (s', evs)"
  shows "map_of (amEntries s') r = Some rec"
proof -
  obtain now op where x: "x = (now, op)" by fastforce
  have t: "r \<notin> set (amTimers s)" using assms(1,2,3) by (auto simp: am_inv_def)
  show ?thesis
  proof (cases op)
    case (RegisterOp rc)
    with assms x am_inv_freshD [OF assms(1)] show ?thesis
      by (auto simp: am_register_def Let_def split: option.splits if_splits)
  next
    case (TimeoutOp q)
    with assms x t show ?thesis by (auto simp: am_timeout_def split: if_splits option.splits)
  next
    case (GraceOp q)
    with assms x show ?thesis by (auto simp: am_graceExpired_def split: if_splits option.splits)
  next
    case (ResolveOp i d b)
    with assms x show ?thesis by (auto simp: am_resolve_def split: if_splits option.splits)
  qed
qed

lemma am_pending_kept:
  assumes "am_inv s" "map_of (amPending s) i = Some r" "am_exec x s = (s', evs)" "snd x \<noteq> GraceOp r"
  shows "map_of (amPending s') i = Some r"
proof -
  obtain now op where x: "x = (now, op)" by fastforce
  obtain rec where rec: "map_of (amEntries s) r = Some rec" "ar_id rec = i"
    using am_inv_pendingD [OF assms(1,2)] by blast
  show ?thesis
  proof (cases op)
    case (RegisterOp rc)
    with assms x rec show ?thesis by (auto simp: am_register_def Let_def split: option.splits if_splits)
  next
    case (TimeoutOp q)
    with assms x show ?thesis by (auto simp: am_timeout_def split: if_splits option.splits)
  next
    case (GraceOp q)
    with assms x show ?thesis by (auto simp: am_graceExpired_def split: if_splits option.splits)
  next
    case (ResolveOp j d b)
    with assms x show ?thesis by (auto simp: am_resolve_def split: if_splits option.splits)
  qed
qed

lemma am_run_final:
  assumes "am_inv s" "map_of (amPending s) i = Some r" "map_of (amEntries s) r = Some rec" "ar_resolvedAtMs rec \<noteq> None"
    "\<forall>x \<in> set ops. snd x \<noteq> GraceOp r" "run_ops am_exec ops s = (s', evs)"
  shows "am_inv s' \<and> map_of (amPending s') i = Some r \<and> map_of (amEntries s') r = Some rec"
proof (rule run_ops_inv [where P = "\<lambda>s. am_inv s \<and> map_of (amPending s) i = Some r \<and> map_of (amEntries s) r = Some rec", OF _ _ assms(6)])
  fix x s s' evs
  assume "am_inv s \<and> map_of (amPending s) i = Some r \<and> map_of (amEntries s) r = Some rec" "x \<in> set ops" "am_exec x s = (s', evs)"
  then show "am_inv s' \<and> map_of (amPending s') i = Some r \<and> map_of (amEntries s') r = Some rec"
    using am_exec_step am_entry_resolved [OF _ _ assms(4)] am_pending_kept assms(5) by blast
qed (use assms in blast)

text \<open>(C22) A decision is final: once an operator's decision on an approval has been accepted, whatever
  happens until the grace period of that entry ends, the snapshot of the approval keeps that
  decision, another decision on it is refused, and its id cannot be registered again.\<close>

theorem approval_decision_final:
  assumes "am_inv s" and "am_resolve now i d who s = (s1, evs1, True)"
    and "map_of (amPending s) i = Some r" and "\<forall>x \<in> set ops. snd x \<noteq> GraceOp r"
    and "run_ops am_exec ops s1 = (s2, evs)"
  shows "map_option ar_decision (am_getSnapshot i s2) = Some (Some d) \<and>
    am_resolve later i d' who' s2 = (s2, [], False) \<and>
    (ar_id rec = i \<longrightarrow> am_register rec s2 = (s2, AlreadyResolved))"
proof -
  obtain rec0 where r0: "map_of (amEntries s) r = Some rec0" "ar_id rec0 = i"
    using am_inv_pendingD [OF assms(1,3)] by blast
  let ?rec = "rec0\<lparr>ar_resolvedAtMs := Some now, ar_decision := Some d, ar_resolvedBy := who\<rparr>"
  have s1: "map_of (amPending s1) i = Some r" "map_of (amEntries s1) r = Some ?rec" "am_inv s1"
    using assms(2,3) r0 am_resolve_step [OF assms(1,2)] by (auto simp: am_resolve_def split: if_splits)
  have "map_of (amPending s2) i = Some r \<and> map_of (amEntries s2) r = Some ?rec"
    using am_run_final [OF s1(3,1,2) _ assms(4,5)] by simp
  then show ?thesis by (simp add: am_getSnapshot_def am_resolve_def am_register_def)
qed

definition demo_request :: ExecApprovalRequestPayload where
  "demo_request = \<lparr>rq_command = ''rm y'', rq_cwd = None, rq_host = Some ''gateway'', rq_security = None, rq_ask = None,
     rq_agentId = None, rq_resolvedPath = None, rq_sessionKey = None\<rparr>"

definition demo_am :: am_state where
  "demo_am = fst (am_register (am_create 0 ''a1'' demo_request 120000 None) am_init)"

theorem approval_decision_final_witness:
  "map_option ar_decision (am_getSnapshot ''a1''
     (fst (run_ops am_exec [(9, ResolveOp ''a1'' AllowAlways None), (10, TimeoutOp 0)]
       (fst (am_resolve 5 ''a1'' DecisionDeny (Some ''op'') demo_am))))) = Some (Some DecisionDeny)"
proof -
  let ?s1 = "fst (am_resolve 5 ''a1'' DecisionDeny (Some ''op'') demo_am)"
  let ?ops = "[(9, ResolveOp ''a1'' AllowAlways None), (10, TimeoutOp 0)]"
  have inv: "am_inv demo_am"
    unfolding demo_am_def
    by (rule conjunct1 [OF am_register_step [OF am_inv_init _ prod.collapse [symmetric]]]) (simp add: am_create_def)
  have r: "am_resolve 5 ''a1'' DecisionDeny (Some ''op'') demo_am = (?s1, [AmSettled 0 (Some DecisionDeny)], True)"
    by code_simp
  have p: "map_of (amPending demo_am) ''a1'' = Some 0" by code_simp
  obtain s2 evs where run: "run_ops am_exec ?ops ?s1 = (s2, evs)" by fastforce
  have "\<forall>x \<in> set ?ops. snd x \<noteq> GraceOp 0" by simp
  from approval_decision_final [OF inv r p this run] run show ?thesis by simp
qed

end
