(* ===== verification/Method_Scopes.thy ===== *)
theory Method_Scopes
  imports Prelude_JS
begin

section \<open>Who may call what\<close>

text \<open>
  \<open>gateway/method-scopes.ts\<close> (the scope each gateway method needs), \<open>shared/operator-scope-compat.ts\<close>
  (whether requested scopes are covered by granted ones) and \<open>gateway/node-command-policy.ts\<close> (the
  commands a paired node may be asked to run). A \<open>Set\<close> is a duplicate-free list.
\<close>

subsection \<open>Operator scopes\<close>

definition ADMIN_SCOPE :: string where "ADMIN_SCOPE = ''operator.admin''"
definition READ_SCOPE :: string where "READ_SCOPE = ''operator.read''"
definition WRITE_SCOPE :: string where "WRITE_SCOPE = ''operator.write''"
definition APPROVALS_SCOPE :: string where "APPROVALS_SCOPE = ''operator.approvals''"
definition PAIRING_SCOPE :: string where "PAIRING_SCOPE = ''operator.pairing''"

definition CLI_DEFAULT_OPERATOR_SCOPES :: "string list" where
  "CLI_DEFAULT_OPERATOR_SCOPES = [ADMIN_SCOPE, APPROVALS_SCOPE, PAIRING_SCOPE]"

definition NODE_ROLE_METHODS :: "string list" where
  "NODE_ROLE_METHODS = [''node.invoke.result'', ''node.event'', ''skills.bins'']"

definition METHOD_SCOPE_GROUPS :: "(string \<times> string list) list" where
  "METHOD_SCOPE_GROUPS = [
     (APPROVALS_SCOPE, [''exec.approval.request'', ''exec.approval.waitDecision'', ''exec.approval.resolve'']),
     (PAIRING_SCOPE, [''node.pair.request'', ''node.pair.list'', ''node.pair.approve'', ''node.pair.reject'',
        ''node.pair.verify'', ''device.pair.list'', ''device.pair.approve'', ''device.pair.reject'',
        ''device.pair.remove'', ''device.token.rotate'', ''device.token.revoke'', ''node.rename'']),
     (READ_SCOPE, [''health'', ''logs.tail'', ''channels.status'', ''status'', ''usage.status'', ''usage.cost'',
        ''tts.status'', ''tts.providers'', ''models.list'', ''agents.list'', ''agent.identity.get'',
        ''skills.status'', ''voicewake.get'', ''sessions.list'', ''sessions.preview'',
        ''sessions.resolve'', ''sessions.usage'', ''sessions.usage.timeseries'',
        ''sessions.usage.logs'', ''cron.list'', ''cron.status'', ''cron.runs'', ''system-presence'',
        ''last-heartbeat'', ''node.list'', ''node.describe'', ''chat.history'', ''config.get'',
        ''talk.config'', ''agents.files.list'', ''agents.files.get'']),
     (WRITE_SCOPE, [''send'', ''poll'', ''agent'', ''agent.wait'', ''wake'', ''talk.mode'', ''tts.enable'',
        ''tts.disable'', ''tts.convert'', ''tts.setProvider'', ''voicewake.set'', ''node.invoke'',
        ''chat.send'', ''chat.abort'', ''browser.request'', ''push.test'']),
     (ADMIN_SCOPE, [''channels.logout'', ''agents.create'', ''agents.update'', ''agents.delete'',
        ''skills.install'', ''skills.update'', ''cron.add'', ''cron.update'', ''cron.remove'',
        ''cron.run'', ''sessions.patch'', ''sessions.reset'', ''sessions.delete'',
        ''sessions.compact'', ''connect'', ''chat.inject'', ''web.login.start'', ''web.login.wait'',
        ''set-heartbeats'', ''system-event'', ''agents.files.set''])]"

definition ADMIN_METHOD_PREFIXES :: "string list" where
  "ADMIN_METHOD_PREFIXES = [''exec.approvals.'', ''config.'', ''wizard.'', ''update.'']"

definition METHOD_SCOPE_BY_NAME :: "(string \<times> string) list" where
  "METHOD_SCOPE_BY_NAME =
     fold (\<lambda>(m, sc). AList.update m sc) (concat (map (\<lambda>(sc, ms). map (\<lambda>m. (m, sc)) ms) METHOD_SCOPE_GROUPS)) []"

definition resolveScopedMethod :: "string \<Rightarrow> string option" where
  "resolveScopedMethod method =
     (case map_of METHOD_SCOPE_BY_NAME method of
        Some explicitScope \<Rightarrow> Some explicitScope
      | None \<Rightarrow> if list_ex (starts_with method) ADMIN_METHOD_PREFIXES then Some ADMIN_SCOPE else None)"

definition isApprovalMethod :: "string \<Rightarrow> bool" where
  "isApprovalMethod method = (resolveScopedMethod method = Some APPROVALS_SCOPE)"
definition isPairingMethod :: "string \<Rightarrow> bool" where
  "isPairingMethod method = (resolveScopedMethod method = Some PAIRING_SCOPE)"
definition isReadMethod :: "string \<Rightarrow> bool" where
  "isReadMethod method = (resolveScopedMethod method = Some READ_SCOPE)"
definition isWriteMethod :: "string \<Rightarrow> bool" where
  "isWriteMethod method = (resolveScopedMethod method = Some WRITE_SCOPE)"
definition isNodeRoleMethod :: "string \<Rightarrow> bool" where
  "isNodeRoleMethod method = (method \<in> set NODE_ROLE_METHODS)"
definition isAdminOnlyMethod :: "string \<Rightarrow> bool" where
  "isAdminOnlyMethod method = (resolveScopedMethod method = Some ADMIN_SCOPE)"

definition resolveRequiredOperatorScopeForMethod :: "string \<Rightarrow> string option" where
  "resolveRequiredOperatorScopeForMethod method = resolveScopedMethod method"

definition resolveLeastPrivilegeOperatorScopesForMethod :: "string \<Rightarrow> string list" where
  "resolveLeastPrivilegeOperatorScopesForMethod method =
     (case resolveRequiredOperatorScopeForMethod method of Some sc \<Rightarrow> [sc] | None \<Rightarrow> [])"

text \<open>\<open>None\<close> is \<open>{ allowed: true }\<close>, \<open>Some sc\<close> a refusal with the missing scope.\<close>

definition authorizeOperatorScopesForMethod :: "string \<Rightarrow> string list \<Rightarrow> string option" where
  "authorizeOperatorScopesForMethod method scopes =
     (if ADMIN_SCOPE \<in> set scopes then None
      else let requiredScope = nullish (resolveRequiredOperatorScopeForMethod method) ADMIN_SCOPE in
        if requiredScope = READ_SCOPE then
          (if READ_SCOPE \<in> set scopes \<or> WRITE_SCOPE \<in> set scopes then None else Some READ_SCOPE)
        else if requiredScope \<in> set scopes then None
        else Some requiredScope)"

definition isGatewayMethodClassified :: "string \<Rightarrow> bool" where
  "isGatewayMethodClassified method =
     (if isNodeRoleMethod method then True else resolveRequiredOperatorScopeForMethod method \<noteq> None)"

subsection \<open>Granted and requested scopes\<close>

definition OPERATOR_ROLE :: string where "OPERATOR_ROLE = ''operator''"

definition normalizeScopeList :: "string list \<Rightarrow> string list" where
  "normalizeScopeList scopes = fold (\<lambda>sc out. if trim sc \<noteq> [] then set_add (trim sc) out else out) scopes []"

definition operatorScopeSatisfied :: "string \<Rightarrow> string list \<Rightarrow> bool" where
  "operatorScopeSatisfied requestedScope granted =
     (if requestedScope = READ_SCOPE
      then READ_SCOPE \<in> set granted \<or> WRITE_SCOPE \<in> set granted \<or> ADMIN_SCOPE \<in> set granted
      else requestedScope \<in> set granted)"

definition roleScopesAllow :: "string \<Rightarrow> string list \<Rightarrow> string list \<Rightarrow> bool" where
  "roleScopesAllow role requestedScopes allowedScopes =
     (let requested = normalizeScopeList requestedScopes in
      if requested = [] then True
      else let allowed = normalizeScopeList allowedScopes in
        if allowed = [] then False
        else if trim role \<noteq> OPERATOR_ROLE then list_all (\<lambda>sc. sc \<in> set allowed) requested
        else list_all (\<lambda>sc. operatorScopeSatisfied sc allowed) requested)"

subsection \<open>Commands of paired nodes\<close>

definition CANVAS_COMMANDS :: "string list" where
  "CANVAS_COMMANDS = [''canvas.present'', ''canvas.hide'', ''canvas.navigate'', ''canvas.eval'', ''canvas.snapshot'',
     ''canvas.a2ui.push'', ''canvas.a2ui.pushJSONL'', ''canvas.a2ui.reset'']"
definition CAMERA_COMMANDS :: "string list" where "CAMERA_COMMANDS = [''camera.list'']"
definition LOCATION_COMMANDS :: "string list" where "LOCATION_COMMANDS = [''location.get'']"
definition DEVICE_COMMANDS :: "string list" where "DEVICE_COMMANDS = [''device.info'', ''device.status'']"
definition CONTACTS_COMMANDS :: "string list" where "CONTACTS_COMMANDS = [''contacts.search'']"
definition CALENDAR_COMMANDS :: "string list" where "CALENDAR_COMMANDS = [''calendar.events'']"
definition REMINDERS_COMMANDS :: "string list" where "REMINDERS_COMMANDS = [''reminders.list'']"
definition PHOTOS_COMMANDS :: "string list" where "PHOTOS_COMMANDS = [''photos.latest'']"
definition MOTION_COMMANDS :: "string list" where "MOTION_COMMANDS = [''motion.activity'', ''motion.pedometer'']"
definition IOS_SYSTEM_COMMANDS :: "string list" where "IOS_SYSTEM_COMMANDS = [''system.notify'']"
definition SYSTEM_COMMANDS :: "string list" where
  "SYSTEM_COMMANDS = [''system.run'', ''system.which'', ''system.notify'', ''browser.proxy'']"

definition DEFAULT_DANGEROUS_NODE_COMMANDS :: "string list" where
  "DEFAULT_DANGEROUS_NODE_COMMANDS = [''camera.snap'', ''camera.clip'', ''screen.record'', ''contacts.add'',
     ''calendar.add'', ''reminders.add'', ''sms.send'']"

definition PERSONAL_COMMANDS :: "string list" where
  "PERSONAL_COMMANDS = CANVAS_COMMANDS @ CAMERA_COMMANDS @ LOCATION_COMMANDS @ DEVICE_COMMANDS @ CONTACTS_COMMANDS @
     CALENDAR_COMMANDS @ REMINDERS_COMMANDS @ PHOTOS_COMMANDS @ MOTION_COMMANDS"

definition PLATFORM_DEFAULTS :: "(string \<times> string list) list" where
  "PLATFORM_DEFAULTS =
     [(''ios'', PERSONAL_COMMANDS @ IOS_SYSTEM_COMMANDS),
      (''android'', PERSONAL_COMMANDS),
      (''macos'', PERSONAL_COMMANDS @ SYSTEM_COMMANDS),
      (''linux'', SYSTEM_COMMANDS),
      (''windows'', SYSTEM_COMMANDS),
      (''unknown'', CANVAS_COMMANDS @ CAMERA_COMMANDS @ LOCATION_COMMANDS @ SYSTEM_COMMANDS)]"

definition normalizePlatformId :: "string option \<Rightarrow> string option \<Rightarrow> string" where
  "normalizePlatformId platform deviceFamily =
     (let raw = to_lower (trim (nullish platform [])) in
      if starts_with raw ''ios'' then ''ios''
      else if starts_with raw ''android'' then ''android''
      else if starts_with raw ''mac'' then ''macos''
      else if starts_with raw ''darwin'' then ''macos''
      else if starts_with raw ''win'' then ''windows''
      else if starts_with raw ''linux'' then ''linux''
      else let family = to_lower (trim (nullish deviceFamily [])) in
        if str_includes family ''iphone'' \<or> str_includes family ''ipad'' \<or> str_includes family ''ios'' then ''ios''
        else if str_includes family ''android'' then ''android''
        else if str_includes family ''mac'' then ''macos''
        else if str_includes family ''windows'' then ''windows''
        else if str_includes family ''linux'' then ''linux''
        else ''unknown'')"

text \<open>The two lists of the configuration (\<open>gateway.nodes.allowCommands\<close>, \<open>denyCommands\<close>) and the node's
  platform and device family.\<close>

definition resolveNodeCommandAllowlist :: "string list option \<Rightarrow> string list option \<Rightarrow> string option \<Rightarrow> string option \<Rightarrow> string list" where
  "resolveNodeCommandAllowlist allowCommands denyCommands platform deviceFamily =
     (let base = nullish (map_of PLATFORM_DEFAULTS (normalizePlatformId platform deviceFamily))
                   (nullish (map_of PLATFORM_DEFAULTS ''unknown'') []);
          extra = nullish allowCommands [];
          deny = set_of_list (nullish denyCommands []);
          allow = set_of_list (filter (\<lambda>c. c \<noteq> []) (map trim (base @ extra)))
      in fold (\<lambda>blocked a. if trim blocked \<noteq> [] then filter (\<lambda>c. c \<noteq> trim blocked) a else a) deny allow)"

text \<open>\<open>None\<close> is \<open>{ ok: true }\<close>, \<open>Some why\<close> the refusal.\<close>

definition isNodeCommandAllowed :: "string \<Rightarrow> string list option \<Rightarrow> string list \<Rightarrow> string option" where
  "isNodeCommandAllowed rawCommand declaredCommands allowlist =
     (let command = trim rawCommand in
      if command = [] then Some ''command required''
      else if command \<notin> set allowlist then Some ''command not allowlisted''
      else case declaredCommands of
        Some ds \<Rightarrow> if ds \<noteq> [] then (if command \<notin> set ds then Some ''command not declared by node'' else None)
          else Some ''node did not declare commands''
      | None \<Rightarrow> Some ''node did not declare commands'')"

section \<open>Properties\<close>

lemma set_normalizeScopeList: "set (normalizeScopeList xs) = {trim x | x. x \<in> set xs \<and> trim x \<noteq> []}"
proof -
  have "set (fold (\<lambda>sc out. if trim sc \<noteq> [] then set_add (trim sc) out else out) xs ys)
      = set ys \<union> {trim x | x. x \<in> set xs \<and> trim x \<noteq> []}" for ys
    by (induction xs arbitrary: ys) auto
  then show ?thesis by (simp add: normalizeScopeList_def)
qed

lemma scope_names [simp]:
  "READ_SCOPE \<noteq> ADMIN_SCOPE" "ADMIN_SCOPE \<noteq> READ_SCOPE" "trim ADMIN_SCOPE = ADMIN_SCOPE" "trim READ_SCOPE = READ_SCOPE"
  "trim WRITE_SCOPE = WRITE_SCOPE" "ADMIN_SCOPE \<noteq> []" "READ_SCOPE \<noteq> []" "WRITE_SCOPE \<noteq> []" "WRITE_SCOPE \<noteq> READ_SCOPE"
  by code_simp+

lemma authorize_iff:
  "authorizeOperatorScopesForMethod m scopes = None \<longleftrightarrow>
     ADMIN_SCOPE \<in> set scopes \<or>
     (\<exists>sc. resolveScopedMethod m = Some sc \<and> (sc \<in> set scopes \<or> sc = READ_SCOPE \<and> WRITE_SCOPE \<in> set scopes))"
  by (cases "resolveScopedMethod m")
    (auto simp: authorizeOperatorScopesForMethod_def resolveRequiredOperatorScopeForMethod_def Let_def)

text \<open>The scopes of the table are written without surrounding blanks.\<close>

lemma group_scopes: "list_all (\<lambda>(m, sc). trim sc = sc \<and> sc \<noteq> []) METHOD_SCOPE_BY_NAME"
  by code_simp

lemma resolved_scope_trimmed: "resolveScopedMethod m = Some sc \<Longrightarrow> trim sc = sc \<and> sc \<noteq> []"
  using group_scopes
  by (auto simp: resolveScopedMethod_def list_all_iff dest!: map_of_SomeD split: option.splits if_splits)

text \<open>(C29) Delegating scopes cannot raise privilege, and unclassified methods are denied. Let the scopes a client was granted carry
  no surrounding blanks, as the device registry stores them. When the scopes it asks for are found covered by them, every method the requested
  scopes authorise is authorised by the granted ones too; and a method in no group and under no
  administrative prefix is refused to every client without the admin scope.\<close>

theorem scope_delegation_sound:
  assumes "roleScopesAllow ''operator'' requested granted" and "\<forall>sc \<in> set granted. trim sc = sc"
  shows "(authorizeOperatorScopesForMethod m requested = None \<longrightarrow> authorizeOperatorScopesForMethod m granted = None) \<and>
    (resolveScopedMethod m = None \<longrightarrow> ADMIN_SCOPE \<notin> set granted \<longrightarrow>
      authorizeOperatorScopesForMethod m granted = Some ADMIN_SCOPE)"
proof -
  have role: "trim ''operator'' = OPERATOR_ROLE" by code_simp
  have sat: "operatorScopeSatisfied sc (normalizeScopeList granted)" if "sc \<in> set requested" "trim sc = sc" "sc \<noteq> []" for sc
  proof -
    have "sc \<in> set (normalizeScopeList requested)" using that by (force simp: set_normalizeScopeList)
    with assms(1) role show ?thesis by (auto simp: roleScopesAllow_def Let_def list_all_iff split: if_splits)
  qed
  have "set (normalizeScopeList granted) \<subseteq> set granted" using assms(2) by (force simp: set_normalizeScopeList)
  then have cov: "sc \<in> set granted \<or> sc = READ_SCOPE \<and> (WRITE_SCOPE \<in> set granted \<or> ADMIN_SCOPE \<in> set granted)"
    if "sc \<in> set requested" "trim sc = sc" "sc \<noteq> []" for sc
    using sat [OF that] by (auto simp: operatorScopeSatisfied_def split: if_splits)
  have "authorizeOperatorScopesForMethod m granted = None" if a: "authorizeOperatorScopesForMethod m requested = None"
    using a cov [of ADMIN_SCOPE] cov [of WRITE_SCOPE] cov resolved_scope_trimmed [of m]
    unfolding authorize_iff by (metis scope_names)
  moreover have "resolveScopedMethod m = None \<Longrightarrow> ADMIN_SCOPE \<notin> set granted \<Longrightarrow>
      authorizeOperatorScopesForMethod m granted = Some ADMIN_SCOPE"
    by (simp add: authorizeOperatorScopesForMethod_def resolveRequiredOperatorScopeForMethod_def)
  ultimately show ?thesis by blast
qed

theorem scope_delegation_sound_witness:
  "authorizeOperatorScopesForMethod ''health'' [''operator.write''] = None \<and>
   authorizeOperatorScopesForMethod ''no.such.method'' [''operator.write''] = Some ADMIN_SCOPE"
proof -
  have "roleScopesAllow ''operator'' ['' operator.read'', ''operator.read''] [''operator.write'']" by code_simp
  moreover have "\<forall>sc \<in> set [''operator.write'']. trim sc = sc" by code_simp
  ultimately have d: "(authorizeOperatorScopesForMethod m ['' operator.read'', ''operator.read''] = None \<longrightarrow>
      authorizeOperatorScopesForMethod m [''operator.write''] = None) \<and>
    (resolveScopedMethod m = None \<longrightarrow> ADMIN_SCOPE \<notin> set [''operator.write''] \<longrightarrow>
      authorizeOperatorScopesForMethod m [''operator.write''] = Some ADMIN_SCOPE)" for m
    by (rule scope_delegation_sound)
  have "authorizeOperatorScopesForMethod ''health'' ['' operator.read'', ''operator.read''] = None"
    "resolveScopedMethod ''no.such.method'' = None" "ADMIN_SCOPE \<notin> set [''operator.write'']" by code_simp+
  with d show ?thesis by blast
qed

text \<open>With a blank in a granted scope the two checks disagree: it covers the read scope and authorises no method.\<close>

lemma untrimmed_grant:
  "roleScopesAllow ''operator'' [READ_SCOPE] ['' operator.write''] \<and>
   authorizeOperatorScopesForMethod ''health'' [READ_SCOPE] = None \<and>
   authorizeOperatorScopesForMethod ''health'' ['' operator.write''] = Some READ_SCOPE"
  by code_simp

text \<open>Each method belongs to one group, so the order of the table is irrelevant.\<close>

lemma groups_disjoint: "distinct (concat (map snd METHOD_SCOPE_GROUPS))"
  by code_simp

lemma fold_deny:
  "set (fold (\<lambda>blocked a. if trim blocked \<noteq> [] then filter (\<lambda>c. c \<noteq> trim blocked) a else a) deny allow)
     = {c \<in> set allow. c \<notin> trim ` set deny \<or> c = []}"
  by (induction deny arbitrary: allow) auto

lemma set_resolveNodeCommandAllowlist:
  "set (resolveNodeCommandAllowlist allow deny pl fam) =
     {c. c \<noteq> [] \<and> (c \<in> trim ` set (nullish (map_of PLATFORM_DEFAULTS (normalizePlatformId pl fam))
            (nullish (map_of PLATFORM_DEFAULTS ''unknown'') [])) \<or> c \<in> trim ` set (nullish allow []))
         \<and> c \<notin> trim ` set (nullish deny [])}"
  by (auto simp: resolveNodeCommandAllowlist_def Let_def fold_deny)

lemma dangerous_not_default:
  "list_all (\<lambda>(p, cs). list_all (\<lambda>c. c \<notin> set (map trim cs)) DEFAULT_DANGEROUS_NODE_COMMANDS) PLATFORM_DEFAULTS"
  by code_simp

lemma default_commands_not_dangerous:
  assumes "d \<in> set DEFAULT_DANGEROUS_NODE_COMMANDS"
  shows "d \<notin> trim ` set (nullish (map_of PLATFORM_DEFAULTS p) (nullish (map_of PLATFORM_DEFAULTS ''unknown'') []))"
proof -
  have "d \<notin> trim ` set cs" if "(q, cs) \<in> set PLATFORM_DEFAULTS" for q cs
    using dangerous_not_default assms that by (fastforce simp: list_all_iff)
  moreover have "\<exists>q cs. nullish (map_of PLATFORM_DEFAULTS p) (nullish (map_of PLATFORM_DEFAULTS ''unknown'') []) = cs
      \<and> ((q, cs) \<in> set PLATFORM_DEFAULTS \<or> cs = [])"
    by (cases "map_of PLATFORM_DEFAULTS p"; cases "map_of PLATFORM_DEFAULTS ''unknown''")
      (auto dest: map_of_SomeD)
  ultimately show ?thesis by fastforce
qed

text \<open>The node command policy: a command is accepted exactly when it is a default of the node's
  platform or an explicitly allowed one, is not denied, and the node declared it; the denial wins
  over the allowance, and a dangerous command (camera, screen recording, sending messages, writing
  contacts, calendar or reminders) is accepted only when the configuration allows it by name.\<close>

theorem node_command_policy:
  "(isNodeCommandAllowed command (Some declared) (resolveNodeCommandAllowlist allow deny platform family) = None \<longleftrightarrow>
     trim command \<noteq> [] \<and> trim command \<notin> trim ` set (nullish deny []) \<and> trim command \<in> set declared \<and>
     (trim command \<in> trim ` set (nullish (map_of PLATFORM_DEFAULTS (normalizePlatformId platform family))
            (nullish (map_of PLATFORM_DEFAULTS ''unknown'') [])) \<or> trim command \<in> trim ` set (nullish allow []))) \<and>
   (isNodeCommandAllowed command (Some declared) (resolveNodeCommandAllowlist allow deny platform family) = None \<and>
     trim command \<in> set DEFAULT_DANGEROUS_NODE_COMMANDS \<longrightarrow> trim command \<in> trim ` set (nullish allow []))"
proof -
  have iff: "isNodeCommandAllowed command (Some declared) (resolveNodeCommandAllowlist allow deny platform family) = None \<longleftrightarrow>
     trim command \<noteq> [] \<and> trim command \<notin> trim ` set (nullish deny []) \<and> trim command \<in> set declared \<and>
     (trim command \<in> trim ` set (nullish (map_of PLATFORM_DEFAULTS (normalizePlatformId platform family))
            (nullish (map_of PLATFORM_DEFAULTS ''unknown'') [])) \<or> trim command \<in> trim ` set (nullish allow []))"
    by (auto simp: isNodeCommandAllowed_def set_resolveNodeCommandAllowlist Let_def)
  with default_commands_not_dangerous show ?thesis by blast
qed

theorem node_command_policy_witness:
  "isNodeCommandAllowed ''sms.send'' (Some [''sms.send'']) (resolveNodeCommandAllowlist (Some ['' sms.send'']) None (Some ''Android 14'') None) = None
   \<and> ''sms.send'' \<in> trim ` set (nullish (Some ['' sms.send'']) [])"
proof -
  have t: "trim ''sms.send'' = ''sms.send''" by code_simp
  have "isNodeCommandAllowed ''sms.send'' (Some [''sms.send'']) (resolveNodeCommandAllowlist (Some ['' sms.send'']) None (Some ''Android 14'') None) = None"
    "''sms.send'' \<in> set DEFAULT_DANGEROUS_NODE_COMMANDS" by code_simp+
  with node_command_policy [of "''sms.send''" "[''sms.send'']" "Some ['' sms.send'']" None "Some ''Android 14''" None] t
  show ?thesis by simp
qed

end
