(* ===== verification/Bridge_Client.thy ===== *)
theory Bridge_Client
  imports Promise_Ledger
begin

section \<open>The bridge client and the ArmorClaw channel\<close>

text \<open>
  \<open>container/openclaw/bridge-client.ts\<close> speaks JSON-RPC to the bridge over a Unix socket, one
  connection per request; \<open>armorclaw-channel.ts\<close> is the channel plugin on top of it. A request's
  promise carries the request's number. The table of requests, the timers armed in the runtime and the promises
  not yet settled are three components of the state, changed by their own operations. JSON parsing of a received chunk is an
  argument of the handler: \<open>None\<close> is a parse error. The client is an interpretation of the
  \<open>promise_ledger\<close> contract.
\<close>

datatype rpc_value = VStr string | VNum int | VUndefined

record RPCRequest =
  rq_id :: nat
  rq_method :: string
  rq_params :: "(string \<times> rpc_value) list option"

record RPCResponse =
  rs_id :: "nat option"
  rs_result :: "string option"
  rs_error :: "(int \<times> string) option"

datatype bridge_error =
    RequestTimeout string
  | ConnectionFailed string
  | RpcError int string
  | SendFailed string
  | ClientClosed

datatype bridge_event =
    BrSent RPCRequest
  | BrResolved nat "string option"
  | BrRejected nat bridge_error
  | BrIgnored nat

text \<open>The table gives the method of a request with its entry; \<open>bridgeTimers\<close> are the timers armed in the runtime, by the request
  their callback closes over; \<open>bridgePromises\<close> are the promises not yet settled.\<close>

record bridge_state =
  requestId :: nat
  pendingRequests :: "(nat \<times> string) list"
  bridgeTimers :: "(nat \<times> string) list"
  bridgePromises :: "nat list"

definition bridge_init :: bridge_state where
  "bridge_init = \<lparr>requestId = 0, pendingRequests = [], bridgeTimers = [], bridgePromises = []\<rparr>"

text \<open>The runtime: a promise takes its first settlement and ignores any other; a cleared timer does not fire.\<close>

definition settlePromise :: "nat \<Rightarrow> bridge_event \<Rightarrow> bridge_state \<Rightarrow> bridge_state \<times> bridge_event list" where
  "settlePromise i ev s =
     (if i \<in> set (bridgePromises s) then (s\<lparr>bridgePromises := remove1 i (bridgePromises s)\<rparr>, [ev]) else (s, [BrIgnored i]))"

definition clearTimer :: "nat \<Rightarrow> bridge_state \<Rightarrow> bridge_state" where
  "clearTimer i s = s\<lparr>bridgeTimers := AList.delete i (bridgeTimers s)\<rparr>"

definition dropRequest :: "nat \<Rightarrow> bridge_state \<Rightarrow> bridge_state" where
  "dropRequest i s = s\<lparr>pendingRequests := AList.delete i (pendingRequests s)\<rparr>"

text \<open>The constructor's defaults; an empty string or zero counts as missing.\<close>

definition bridgeSocketPath :: "string option \<Rightarrow> string option \<Rightarrow> string" where
  "bridgeSocketPath configured env =
     nullish (orelse (truthy configured) (truthy env)) ''/run/armorclaw/bridge.sock''"

definition bridgeTimeout :: "int option \<Rightarrow> int" where
  "bridgeTimeout t = (case t of Some n \<Rightarrow> if n \<noteq> 0 then n else 30000 | None \<Rightarrow> 30000)"

subsection \<open>Requests\<close>

definition sendRequest :: "string \<Rightarrow> (string \<times> rpc_value) list option \<Rightarrow> bridge_state \<Rightarrow> bridge_state \<times> bridge_event list" where
  "sendRequest method params s =
     (let i = Suc (requestId s) in
      (s\<lparr>requestId := i, bridgePromises := bridgePromises s @ [i], bridgeTimers := bridgeTimers s @ [(i, method)],
         pendingRequests := AList.update i method (pendingRequests s)\<rparr>,
       [BrSent \<lparr>rq_id = i, rq_method = method, rq_params = params\<rparr>]))"

text \<open>The timer of a request fires, if it is still armed.\<close>

definition onTimer :: "nat \<Rightarrow> bridge_state \<Rightarrow> bridge_state \<times> bridge_event list" where
  "onTimer i s =
     (case map_of (bridgeTimers s) i of None \<Rightarrow> (s, [])
      | Some method \<Rightarrow> settlePromise i (BrRejected i (RequestTimeout method)) (dropRequest i (clearTimer i s)))"

text \<open>Sending a request that was issued fails; this handler does not ask whether the request is still pending.\<close>

definition onSendFailure :: "nat \<Rightarrow> string \<Rightarrow> bridge_state \<Rightarrow> bridge_state \<times> bridge_event list" where
  "onSendFailure i why s =
     (if i = 0 \<or> requestId s < i then (s, [])
      else settlePromise i (BrRejected i (SendFailed why)) (dropRequest i (clearTimer i s)))"

definition onSocketError :: "nat \<Rightarrow> string \<Rightarrow> bridge_state \<Rightarrow> bridge_state \<times> bridge_event list" where
  "onSocketError i why s =
     (case map_of (pendingRequests s) i of None \<Rightarrow> (s, [])
      | Some _ \<Rightarrow> settlePromise i (BrRejected i (ConnectionFailed why)) (dropRequest i (clearTimer i s)))"

definition onData :: "RPCResponse option \<Rightarrow> bridge_state \<Rightarrow> bridge_state \<times> bridge_event list" where
  "onData parsed s =
     (case parsed of None \<Rightarrow> (s, [])
      | Some response \<Rightarrow>
        (case rs_id response of None \<Rightarrow> (s, [])
         | Some i \<Rightarrow>
           (case map_of (pendingRequests s) i of None \<Rightarrow> (s, [])
            | Some _ \<Rightarrow> settlePromise i
                (case rs_error response of Some (code, msg) \<Rightarrow> BrRejected i (RpcError code msg) | None \<Rightarrow> BrResolved i (rs_result response))
                (dropRequest i (clearTimer i s)))))"

text \<open>Closing clears the timer of every request in the table and rejects it, and then empties the table.\<close>

fun closePending :: "(nat \<times> string) list \<Rightarrow> bridge_state \<Rightarrow> bridge_state \<times> bridge_event list" where
  "closePending [] s = (s, [])"
| "closePending ((i, _) # ps) s =
     (let (s1, e1) = settlePromise i (BrRejected i ClientClosed) (clearTimer i s); (s2, e2) = closePending ps s1 in (s2, e1 @ e2))"

definition closeClient :: "bridge_state \<Rightarrow> bridge_state \<times> bridge_event list" where
  "closeClient s = (let (s1, evs) = closePending (pendingRequests s) s in (s1\<lparr>pendingRequests := []\<rparr>, evs))"

subsection \<open>The methods of the bridge\<close>

definition br_status :: "bridge_state \<Rightarrow> bridge_state \<times> bridge_event list" where
  "br_status = sendRequest ''status'' None"
definition br_health :: "bridge_state \<Rightarrow> bridge_state \<times> bridge_event list" where
  "br_health = sendRequest ''health'' None"
definition matrixStatus :: "bridge_state \<Rightarrow> bridge_state \<times> bridge_event list" where
  "matrixStatus = sendRequest ''matrix_status'' None"
definition matrixSend :: "string \<Rightarrow> string \<Rightarrow> string option \<Rightarrow> bridge_state \<Rightarrow> bridge_state \<times> bridge_event list" where
  "matrixSend roomId message msgtype = sendRequest ''matrix_send''
     (Some [(''room_id'', VStr roomId), (''message'', VStr message), (''msgtype'', VStr (nullish msgtype ''m.text''))])"
definition matrixReceive :: "string option \<Rightarrow> int option \<Rightarrow> bridge_state \<Rightarrow> bridge_state \<times> bridge_event list" where
  "matrixReceive roomId limit = sendRequest ''matrix_receive''
     (Some [(''room_id'', case roomId of Some r \<Rightarrow> VStr r | None \<Rightarrow> VUndefined), (''limit'', VNum (nullish limit 10))])"
definition matrixReact :: "string \<Rightarrow> string \<Rightarrow> string \<Rightarrow> bridge_state \<Rightarrow> bridge_state \<times> bridge_event list" where
  "matrixReact roomId eventId emoji = sendRequest ''matrix_react''
     (Some [(''room_id'', VStr roomId), (''event_id'', VStr eventId), (''emoji'', VStr emoji)])"
definition matrixReply :: "string \<Rightarrow> string \<Rightarrow> string \<Rightarrow> bridge_state \<Rightarrow> bridge_state \<times> bridge_event list" where
  "matrixReply roomId eventId message = sendRequest ''matrix_reply''
     (Some [(''room_id'', VStr roomId), (''event_id'', VStr eventId), (''message'', VStr message)])"
definition attachConfig :: "string \<Rightarrow> string \<Rightarrow> string \<Rightarrow> string \<Rightarrow> bridge_state \<Rightarrow> bridge_state \<times> bridge_event list" where
  "attachConfig roomId filename content mimeType = sendRequest ''attach_config''
     (Some [(''room_id'', VStr roomId), (''filename'', VStr filename), (''content'', VStr content), (''mime_type'', VStr mimeType)])"
definition getSecret :: "string \<Rightarrow> bridge_state \<Rightarrow> bridge_state \<times> bridge_event list" where
  "getSecret key = sendRequest ''get_secret'' (Some [(''key'', VStr key)])"
definition listSecrets :: "bridge_state \<Rightarrow> bridge_state \<times> bridge_event list" where
  "listSecrets = sendRequest ''list_secrets'' None"

subsection \<open>Runs\<close>

datatype bridge_op =
    CallOp string "(string \<times> rpc_value) list option"
  | TimerOp nat
  | SendFailureOp nat string
  | SocketErrorOp nat string
  | DataOp "RPCResponse option"
  | CloseOp

fun bridge_exec :: "bridge_op \<Rightarrow> bridge_state \<Rightarrow> bridge_state \<times> bridge_event list" where
  "bridge_exec (CallOp m p) s = sendRequest m p s"
| "bridge_exec (TimerOp i) s = onTimer i s"
| "bridge_exec (SendFailureOp i why) s = onSendFailure i why s"
| "bridge_exec (SocketErrorOp i why) s = onSocketError i why s"
| "bridge_exec (DataOp parsed) s = onData parsed s"
| "bridge_exec CloseOp s = closeClient s"

fun bridge_settle_of :: "bridge_event \<Rightarrow> nat list" where
  "bridge_settle_of (BrSent _) = []"
| "bridge_settle_of (BrResolved i _) = [i]"
| "bridge_settle_of (BrRejected i _) = [i]"
| "bridge_settle_of (BrIgnored _) = []"

definition bridge_settled :: "bridge_event list \<Rightarrow> nat list" where
  "bridge_settled evs = concat (map bridge_settle_of evs)"

definition bridge_open :: "bridge_state \<Rightarrow> nat multiset" where
  "bridge_open s = mset (bridgePromises s)"

definition bridge_next :: "bridge_state \<Rightarrow> nat" where
  "bridge_next s = Suc (requestId s)"

text \<open>The promises not settled are those of the requests in the table, and those of the armed timers.\<close>

definition bridge_inv :: "bridge_state \<Rightarrow> bool" where
  "bridge_inv s \<longleftrightarrow> distinct (bridgePromises s) \<and> (\<forall>i \<in> set (bridgePromises s). 0 < i \<and> i \<le> requestId s) \<and>
     distinct (keys (pendingRequests s)) \<and> set (keys (pendingRequests s)) = set (bridgePromises s) \<and>
     distinct (keys (bridgeTimers s)) \<and> set (keys (bridgeTimers s)) = set (bridgePromises s)"

lemmas bridge_defs = bridge_open_def bridge_next_def bridge_settled_def bridge_inv_def

lemma keys_delete [simp]: "fst ` set (AList.delete i m) = fst ` set m - {i}"
  by (auto simp: AList.delete_eq)

text \<open>Taking a request out of the table, its timer out of the runtime and settling its promise belong together.\<close>

lemma settle_step:
  assumes "bridge_inv s" "settlePromise i ev (dropRequest i (clearTimer i s)) = (s', evs)" "bridge_settle_of ev = [i]"
  shows "bridge_inv s' \<and> bridge_next s' = bridge_next s \<and> bridge_open s' + mset (bridge_settled evs) = bridge_open s"
proof (cases "i \<in> set (bridgePromises s)")
  case True
  with assms(2) have s': "s' = (dropRequest i (clearTimer i s))\<lparr>bridgePromises := remove1 i (bridgePromises s)\<rparr>" "evs = [ev]"
    by (simp_all add: settlePromise_def dropRequest_def clearTimer_def)
  with True assms(1,3) show ?thesis
    by (auto simp: dropRequest_def clearTimer_def bridge_defs distinct_delete set_remove1_eq)
next
  case False
  have "i \<notin> set (keys (pendingRequests s))" "i \<notin> set (keys (bridgeTimers s))" using False assms(1) by (simp_all add: bridge_inv_def)
  then have "dropRequest i (clearTimer i s) = s" by (simp add: dropRequest_def clearTimer_def delete_id)
  with False assms show ?thesis by (auto simp: settlePromise_def bridge_defs)
qed

text \<open>Closing settles the promises of the table one by one.\<close>

lemma closePending_spec:
  "distinct (keys ps) \<Longrightarrow> set (keys ps) \<subseteq> set (bridgePromises s) \<Longrightarrow> distinct (bridgePromises s) \<Longrightarrow>
   closePending ps s = (s', evs) \<Longrightarrow>
   evs = map (\<lambda>(i, _). BrRejected i ClientClosed) ps \<and> requestId s' = requestId s \<and> pendingRequests s' = pendingRequests s \<and>
   bridgePromises s' = filter (\<lambda>i. i \<notin> set (keys ps)) (bridgePromises s) \<and>
   bridgeTimers s' = filter (\<lambda>(i, _). i \<notin> set (keys ps)) (bridgeTimers s)"
proof (induction ps arbitrary: s evs)
  case (Cons p ps)
  obtain i m where p: "p = (i, m)" by fastforce
  have i: "i \<in> set (bridgePromises s)" using Cons.prems(2) p by auto
  let ?s1 = "(clearTimer i s)\<lparr>bridgePromises := remove1 i (bridgePromises s)\<rparr>"
  obtain e2 where e2: "closePending ps ?s1 = (s', e2)" "evs = BrRejected i ClientClosed # e2"
    using Cons.prems(4) i p by (auto simp: settlePromise_def clearTimer_def Let_def split: prod.splits)
  have "distinct (keys ps)" "set (keys ps) \<subseteq> set (bridgePromises ?s1)" "distinct (bridgePromises ?s1)"
    using Cons.prems(1-3) p by auto
  from Cons.IH [OF this e2(1)] e2(2) p Cons.prems(3) show ?case
    by (auto simp: clearTimer_def distinct_remove1_removeAll removeAll_filter_not_eq AList.delete_eq filter_filter comp_def
        case_prod_beta intro!: filter_cong)
qed simp

lemma close_step:
  assumes "bridge_inv s" "closeClient s = (s', evs)"
  shows "bridge_inv s' \<and> bridge_next s' = bridge_next s \<and> bridge_open s' + mset (bridge_settled evs) = bridge_open s \<and>
    (\<forall>k. BrIgnored k \<notin> set evs)"
proof -
  let ?ps = "pendingRequests s"
  have pre: "distinct (keys ?ps)" "set (keys ?ps) \<subseteq> set (bridgePromises s)" "distinct (bridgePromises s)"
    using assms(1) by (simp_all add: bridge_inv_def)
  obtain s1 where s1: "closePending ?ps s = (s1, evs)" "s' = s1\<lparr>pendingRequests := []\<rparr>"
    using assms(2) by (auto simp: closeClient_def Let_def split: prod.splits)
  note c = closePending_spec [OF pre s1(1)]
  have "mset (keys ?ps) = mset (bridgePromises s)" using assms(1) by (intro set_eq_iff_mset_eq_distinct [THEN iffD1]) (simp_all add: bridge_inv_def)
  moreover have "bridge_settled evs = keys ?ps" using c by (simp add: bridge_settled_def comp_def case_prod_beta flip: map_concat)
  moreover have none: "filter (\<lambda>i. i \<notin> set (keys ?ps)) (bridgePromises s) = []" "filter (\<lambda>(i, _). i \<notin> set (keys ?ps)) (bridgeTimers s) = []"
  proof -
    have t: "fst ` set ?ps = set (bridgePromises s)" "fst ` set (bridgeTimers s) = set (bridgePromises s)" using assms(1) by (simp_all add: bridge_inv_def)
    show "filter (\<lambda>i. i \<notin> set (keys ?ps)) (bridgePromises s) = []" using t by (simp add: filter_empty_conv)
    have "fst x \<in> set (bridgePromises s)" if "x \<in> set (bridgeTimers s)" for x using that t(2) by blast
    then show "filter (\<lambda>(i, _). i \<notin> set (keys ?ps)) (bridgeTimers s) = []" using t(1) by (simp add: filter_empty_conv case_prod_beta)
  qed
  ultimately show ?thesis using c none s1(2) by (auto simp: bridge_open_def bridge_inv_def bridge_next_def)
qed

lemma bridge_exec_step:
  assumes "bridge_inv s" "bridge_exec x s = (s', evs)"
  shows "bridge_inv s' \<and> bridge_next s \<le> bridge_next s' \<and>
    bridge_open s' + mset (bridge_settled evs) = bridge_open s + mset [bridge_next s..<bridge_next s']"
proof -
  have silent: ?thesis if "s' = s" "evs = []" using that assms(1) by (simp add: bridge_defs)
  have settle: ?thesis if "settlePromise i ev (dropRequest i (clearTimer i s)) = (s', evs)" "bridge_settle_of ev = [i]" for i ev
    using settle_step [OF assms(1) that] by simp
  show ?thesis
  proof (cases x)
    case (CallOp m p)
    let ?i = "Suc (requestId s)"
    have fresh: "?i \<notin> set (keys (pendingRequests s))" "?i \<notin> set (keys (bridgeTimers s))" "?i \<notin> set (bridgePromises s)"
      using assms(1) by (auto simp: bridge_inv_def)
    have "AList.update ?i m (pendingRequests s) = pendingRequests s @ [(?i, m)]" using fresh(1) by (rule update_fresh)
    with CallOp assms(2) have s': "s' = s\<lparr>requestId := ?i, bridgePromises := bridgePromises s @ [?i], bridgeTimers := bridgeTimers s @ [(?i, m)],
        pendingRequests := pendingRequests s @ [(?i, m)]\<rparr>" "bridge_settled evs = []" by (auto simp: sendRequest_def Let_def bridge_settled_def)
    then have "bridge_inv s'" using assms(1) fresh by (simp add: bridge_inv_def image_iff le_SucI)
    then show ?thesis by (simp add: s' bridge_open_def bridge_next_def)
  next
    case (DataOp parsed)
    then show ?thesis using assms(2) silent settle by (auto simp: onData_def split: option.splits prod.splits)
  next
    case CloseOp
    with close_step [OF assms(1)] assms(2) show ?thesis by simp
  qed (use assms(2) silent settle in \<open>auto simp: onTimer_def onSendFailure_def onSocketError_def split: option.splits if_splits\<close>)
qed

interpretation br: promise_ledger bridge_exec bridge_open bridge_next bridge_settled bridge_inv
  by unfold_locales (use bridge_exec_step in \<open>auto simp: bridge_settled_def\<close>)

lemma bridge_inv_init: "bridge_inv bridge_init" "bridge_open bridge_init = {#}" "bridge_next bridge_init = 1"
  by (simp_all add: bridge_defs bridge_init_def)

text \<open>Only the failure of a sending tries to settle a promise a second time.\<close>

lemma waiting_promise:
  assumes "bridge_inv s"
  shows "map_of (pendingRequests s) i = Some m \<Longrightarrow> i \<in> set (bridgePromises s)" "map_of (bridgeTimers s) i = Some m \<Longrightarrow> i \<in> set (bridgePromises s)"
proof -
  have t: "fst ` set (pendingRequests s) = set (bridgePromises s)" "fst ` set (bridgeTimers s) = set (bridgePromises s)"
    using assms by (simp_all add: bridge_inv_def)
  show "map_of (pendingRequests s) i = Some m \<Longrightarrow> i \<in> set (bridgePromises s)" unfolding t(1) [symmetric] by (drule domI) (simp only: dom_map_of_conv_image_fst)
  show "map_of (bridgeTimers s) i = Some m \<Longrightarrow> i \<in> set (bridgePromises s)" unfolding t(2) [symmetric] by (drule domI) (simp only: dom_map_of_conv_image_fst)
qed

lemma settle_unsettled: "i \<in> set (bridgePromises s) \<Longrightarrow> snd (settlePromise i ev (dropRequest i (clearTimer i s))) = [ev]"
  by (simp add: settlePromise_def dropRequest_def clearTimer_def)

lemma onData_event:
  assumes "bridge_inv s"
  shows "snd (onData parsed s) = [] \<or> (\<exists>i r. snd (onData parsed s) = [BrResolved i r]) \<or> (\<exists>i e. snd (onData parsed s) = [BrRejected i e])"
  using waiting_promise(1) [OF assms] by (auto simp: onData_def settle_unsettled split: option.splits)

lemma bridge_exec_ignored:
  assumes "bridge_inv s" "BrIgnored i \<in> set (snd (bridge_exec x s))"
  shows "\<exists>j why. x = SendFailureOp j why"
proof (cases x)
  case (CallOp m p)
  with assms(2) show ?thesis by (simp add: sendRequest_def Let_def)
next
  case (TimerOp k)
  with assms(2) show ?thesis using waiting_promise(2) [OF assms(1)] by (simp add: onTimer_def settle_unsettled split: option.splits)
next
  case (SocketErrorOp k why)
  with assms(2) show ?thesis using waiting_promise(1) [OF assms(1)] by (simp add: onSocketError_def settle_unsettled split: option.splits)
next
  case (DataOp parsed)
  with assms(2) onData_event [OF assms(1), of parsed] show ?thesis by auto
next
  case CloseOp
  obtain s' evs where c: "closeClient s = (s', evs)" by fastforce
  from close_step [OF assms(1) c] assms(2) c CloseOp show ?thesis by simp
qed blast

lemma run_ignored:
  "bridge_inv s \<Longrightarrow> BrIgnored i \<in> set (snd (run_ops bridge_exec ops s)) \<Longrightarrow> \<exists>j why. SendFailureOp j why \<in> set ops"
proof (induction ops arbitrary: s)
  case (Cons x ops)
  obtain s1 e1 where x: "bridge_exec x s = (s1, e1)" by fastforce
  have "bridge_inv s1" using bridge_exec_step [OF Cons.prems(1) x] by simp
  with Cons.IH [of s1] bridge_exec_ignored [OF Cons.prems(1), of i x] Cons.prems(2) x show ?case
    by (auto simp: Let_def case_prod_beta simp del: bridge_exec.simps)
qed simp

text \<open>(C30) Every bridge call is answered once: over any sequence of calls, responses, timeouts, socket errors,
  failed sendings and closes, no promise is settled twice, and only the handler of a failed sending ever tries to; the calls issued and not settled are
  exactly those in the table and exactly those whose timer is armed in the runtime, one timer each, so that none is forgotten and no
  timer is left behind; and when a timer that is armed fires, its call is rejected then.\<close>

theorem bridge_settles_once:
  "case run_ops bridge_exec ops bridge_init of (s', evs) \<Rightarrow>
     distinct (bridge_settled evs) \<and> (\<forall>i. BrIgnored i \<in> set evs \<longrightarrow> (\<exists>j why. SendFailureOp j why \<in> set ops)) \<and>
     set (keys (pendingRequests s')) = {1..requestId s'} - set (bridge_settled evs) \<and>
     set (keys (bridgeTimers s')) = {1..requestId s'} - set (bridge_settled evs) \<and> distinct (keys (bridgeTimers s')) \<and>
     (\<forall>i method. (i, method) \<in> set (bridgeTimers s') \<longrightarrow> snd (onTimer i s') = [BrRejected i (RequestTimeout method)])"
proof -
  obtain s' evs where r: "run_ops bridge_exec ops bridge_init = (s', evs)" by fastforce
  note once = br.run_settles_once [OF bridge_inv_init(1,2) r]
  have inv: "bridge_inv s'" by (rule br.run_inv [OF bridge_inv_init(1) r])
  have "{bridge_next bridge_init..<bridge_next s'} = {1..requestId s'}"
    unfolding bridge_inv_init(3) by (auto simp: bridge_next_def)
  with once have "set (bridgePromises s') = {1..requestId s'} - set (bridge_settled evs)" by (auto simp: bridge_open_def)
  moreover have "snd (onTimer i s') = [BrRejected i (RequestTimeout name)]" if "(i, name) \<in> set (bridgeTimers s')" for i name
  proof -
    have m: "map_of (bridgeTimers s') i = Some name" using that inv by (simp add: bridge_inv_def)
    then show ?thesis using waiting_promise(2) [OF inv] by (simp add: onTimer_def settle_unsettled)
  qed
  moreover have "\<forall>i. BrIgnored i \<in> set evs \<longrightarrow> (\<exists>j why. SendFailureOp j why \<in> set ops)"
    using run_ignored [OF bridge_inv_init(1), of _ ops] r by (metis snd_conv)
  ultimately show ?thesis using once(1) inv r by (simp add: bridge_inv_def)
qed

lemma bridge_settles_once_witness:
  "set (keys (bridgeTimers (fst (run_ops bridge_exec [CallOp ''health'' None, CallOp ''status'' None, TimerOp 1] bridge_init)))) = {2}"
proof -
  let ?ops = "[CallOp ''health'' None, CallOp ''status'' None, TimerOp 1]"
  have "bridge_settled (snd (run_ops bridge_exec ?ops bridge_init)) = [1]" "requestId (fst (run_ops bridge_exec ?ops bridge_init)) = 2"
    by code_simp+
  moreover have "{1..2} - {1} = {2::nat}" by auto
  ultimately show ?thesis using bridge_settles_once [of ?ops] by (simp add: case_prod_beta)
qed

text \<open>A response reaches the call it answers and no other: whatever the order in which responses
  arrive, a parsed response whose id is pending settles exactly that call, with the error when it
  carries one and with its result otherwise, and leaves the other calls waiting; a response
  with an unknown id and a chunk that does not parse change nothing.\<close>

theorem bridge_response_routed:
  assumes "bridge_inv s"
  shows "(map_of (pendingRequests s) i = Some m \<longrightarrow>
     (let (s', evs) = onData (Some \<lparr>rs_id = Some i, rs_result = res, rs_error = err\<rparr>) s in
      evs = [case err of Some (code, msg) \<Rightarrow> BrRejected i (RpcError code msg) | None \<Rightarrow> BrResolved i res] \<and>
      pendingRequests s' = AList.delete i (pendingRequests s) \<and> bridgeTimers s' = AList.delete i (bridgeTimers s))) \<and>
   (map_of (pendingRequests s) i = None \<longrightarrow> onData (Some \<lparr>rs_id = Some i, rs_result = res, rs_error = err\<rparr>) s = (s, [])) \<and>
   onData None s = (s, [])"
proof -
  have "map_of (pendingRequests s) i = Some m \<Longrightarrow> i \<in> set (bridgePromises s)" by (rule waiting_promise(1) [OF assms])
  then show ?thesis by (cases err) (auto simp: onData_def settlePromise_def dropRequest_def clearTimer_def)
qed

theorem bridge_response_routed_witness:
  "snd (onData (Some \<lparr>rs_id = Some 1, rs_result = Some ''ok'', rs_error = None\<rparr>)
      (fst (run_ops bridge_exec [CallOp ''health'' None, CallOp ''status'' None] bridge_init))) = [BrResolved 1 (Some ''ok'')]"
proof -
  let ?s = "fst (run_ops bridge_exec [CallOp ''health'' None, CallOp ''status'' None] bridge_init)"
  have p: "map_of (pendingRequests ?s) 1 = Some ''health''" by code_simp
  have "bridge_inv ?s" using br.run_inv [OF bridge_inv_init(1)] by (metis prod.collapse)
  from bridge_response_routed [OF this, of 1 "''health''" "Some ''ok''" None] p show ?thesis by (simp add: Let_def case_prod_beta)
qed

text \<open>A response that arrives in two chunks is lost: neither chunk parses, nothing is buffered, and the
  call ends by its timeout.\<close>

lemma split_response_times_out:
  "snd (run_ops bridge_exec [CallOp ''health'' None, DataOp None, DataOp None, TimerOp 1] bridge_init)
    = [BrSent \<lparr>rq_id = 1, rq_method = ''health'', rq_params = None\<rparr>, BrRejected 1 (RequestTimeout ''health'')]"
  by code_simp

section \<open>The channel plugin\<close>

record ArmorClawConfig =
  cf_socketPath :: "string option"
  cf_roomId :: "string option"
  cf_autoReply :: "bool option"
  cf_verbose :: "bool option"

record MatrixEvent =
  me_event_id :: string
  me_room_id :: string
  me_sender :: string
  me_type :: string
  me_msgtype :: "string option"
  me_body :: "string option"
  me_origin_server_ts :: int

record ChannelInboundMessage =
  cm_from :: string
  cm_to :: string
  cm_body :: string
  cm_msgtype :: string
  cm_timestamp :: int
  cm_eventId :: string

text \<open>\<open>ch_intervals\<close> are the interval timers armed in the runtime, \<open>ch_pollInterval\<close> the handle kept.\<close>

record channel_state =
  ch_config :: ArmorClawConfig
  ch_client :: bridge_state
  ch_running :: bool
  ch_pollInterval :: "nat option"
  ch_intervals :: "nat list"
  ch_nextInterval :: nat

definition channel_init :: "ArmorClawConfig \<Rightarrow> channel_state" where
  "channel_init cfg = \<lparr>ch_config = cfg, ch_client = bridge_init, ch_running = False, ch_pollInterval = None,
     ch_intervals = [], ch_nextInterval = 0\<rparr>"

definition mapEventToMessage :: "MatrixEvent \<Rightarrow> ChannelInboundMessage option" where
  "mapEventToMessage event =
     (if me_type event \<noteq> ''m.room.message'' then None
      else case me_msgtype event of None \<Rightarrow> None
        | Some mt \<Rightarrow>
            if mt \<noteq> ''m.text'' \<and> mt \<noteq> ''m.emote'' then None
            else Some \<lparr>cm_from = me_sender event, cm_to = me_room_id event, cm_body = nullish (me_body event) [],
              cm_msgtype = mt, cm_timestamp = me_origin_server_ts event, cm_eventId = me_event_id event\<rparr>)"

text \<open>\<open>{ ...this.config, ...input.config }\<close>: a key present in the input wins.\<close>

definition mergeConfig :: "ArmorClawConfig \<Rightarrow> ArmorClawConfig \<Rightarrow> ArmorClawConfig" where
  "mergeConfig old c = \<lparr>cf_socketPath = orelse (cf_socketPath c) (cf_socketPath old), cf_roomId = orelse (cf_roomId c) (cf_roomId old),
     cf_autoReply = orelse (cf_autoReply c) (cf_autoReply old), cf_verbose = orelse (cf_verbose c) (cf_verbose old)\<rparr>"

definition setupChannel :: "ArmorClawConfig option \<Rightarrow> channel_state \<Rightarrow> channel_state \<times> bridge_event list" where
  "setupChannel inputConfig s =
     (let s1 = (case inputConfig of None \<Rightarrow> s | Some c \<Rightarrow> s\<lparr>ch_config := mergeConfig (ch_config s) c\<rparr>);
          (c, evs) = br_status (ch_client s1)
      in (s1\<lparr>ch_client := c\<rparr>, evs))"

definition startChannel :: "channel_state \<Rightarrow> channel_state" where
  "startChannel s =
     (if ch_running s then s
      else s\<lparr>ch_running := True, ch_pollInterval := Some (ch_nextInterval s),
             ch_intervals := ch_intervals s @ [ch_nextInterval s], ch_nextInterval := Suc (ch_nextInterval s)\<rparr>)"

definition stopChannel :: "channel_state \<Rightarrow> channel_state" where
  "stopChannel s =
     (case ch_pollInterval s of None \<Rightarrow> s\<lparr>ch_running := False\<rparr>
      | Some i \<Rightarrow> s\<lparr>ch_running := False, ch_intervals := removeAll i (ch_intervals s), ch_pollInterval := None\<rparr>)"

definition sendMessage :: "string option \<Rightarrow> string \<Rightarrow> string option \<Rightarrow> channel_state \<Rightarrow> string + channel_state \<times> bridge_event list" where
  "sendMessage msgRoom body msgtype s =
     (case orelse (truthy msgRoom) (truthy (cf_roomId (ch_config s))) of
        None \<Rightarrow> Inl ''No room ID configured for ArmorClaw''
      | Some roomId \<Rightarrow>
          let (c, evs) = matrixSend roomId body (Some (nullish (truthy msgtype) ''m.text'')) (ch_client s)
          in Inr (s\<lparr>ch_client := c\<rparr>, evs))"

text \<open>A poll: when an armed interval fires the pending events are asked for, and the answer is delivered in
  order until the callback raises.\<close>

definition pollChannel :: "nat \<Rightarrow> channel_state \<Rightarrow> channel_state \<times> bridge_event list" where
  "pollChannel i s =
     (if i \<in> set (ch_intervals s)
      then let (c, evs) = matrixReceive (cf_roomId (ch_config s)) (Some 10) (ch_client s) in (s\<lparr>ch_client := c\<rparr>, evs)
      else (s, []))"

fun deliverEvents :: "(ChannelInboundMessage \<Rightarrow> bool) \<Rightarrow> MatrixEvent list \<Rightarrow> ChannelInboundMessage list" where
  "deliverEvents accepts [] = []"
| "deliverEvents accepts (e # es) =
     (case mapEventToMessage e of
        None \<Rightarrow> deliverEvents accepts es
      | Some m \<Rightarrow> if accepts m then m # deliverEvents accepts es else [m])"

text \<open>\<open>healthCheck\<close>: the call, and what its answer or its rejection becomes.\<close>

definition healthCheckCall :: "channel_state \<Rightarrow> channel_state \<times> bridge_event list" where
  "healthCheckCall s = (let (c, evs) = br_health (ch_client s) in (s\<lparr>ch_client := c\<rparr>, evs))"

definition healthCheckResult :: "string + string \<Rightarrow> bool \<times> string" where
  "healthCheckResult answer = (case answer of Inr status \<Rightarrow> (status = ''ok'', status) | Inl err \<Rightarrow> (False, err))"

datatype channel_op = SetupOp "ArmorClawConfig option" | StartOp | StopOp | SendOp "string option" string "string option"
  | PollOp nat | HealthOp | ClientOp bridge_op

fun channel_exec :: "channel_op \<Rightarrow> channel_state \<Rightarrow> channel_state \<times> bridge_event list" where
  "channel_exec (SetupOp c) s = setupChannel c s"
| "channel_exec StartOp s = (startChannel s, [])"
| "channel_exec StopOp s = (stopChannel s, [])"
| "channel_exec (SendOp r b t) s = (case sendMessage r b t s of Inl _ \<Rightarrow> (s, []) | Inr (s', evs) \<Rightarrow> (s', evs))"
| "channel_exec (PollOp i) s = pollChannel i s"
| "channel_exec HealthOp s = healthCheckCall s"
| "channel_exec (ClientOp b) s = (let (c, evs) = bridge_exec b (ch_client s) in (s\<lparr>ch_client := c\<rparr>, evs))"

definition channel_inv :: "channel_state \<Rightarrow> bool" where
  "channel_inv s \<longleftrightarrow>
     (case ch_pollInterval s of None \<Rightarrow> ch_intervals s = [] \<and> \<not> ch_running s
      | Some i \<Rightarrow> ch_intervals s = [i] \<and> ch_running s)"

lemma channel_exec_inv: "channel_inv s \<Longrightarrow> channel_exec x s = (s', evs) \<Longrightarrow> channel_inv s'"
  by (cases x)
    (auto simp: channel_inv_def setupChannel_def startChannel_def stopChannel_def sendMessage_def pollChannel_def
      healthCheckCall_def Let_def split: option.splits sum.splits prod.splits if_splits)

text \<open>The channel never polls twice: after any sequence of set-ups, starts, stops, sends, polls
  and client events exactly one poll timer is armed while the channel is running and none while it is
  stopped; and a timer that fires after the stop asks the bridge for nothing.\<close>

theorem channel_single_poller:
  assumes "run_ops channel_exec ops (channel_init cfg) = (s', evs)"
  shows "length (ch_intervals s') = (if ch_running s' then 1 else 0) \<and> (\<not> ch_running s' \<longrightarrow> pollChannel i s' = (s', []))"
proof -
  have "channel_inv (channel_init cfg)" by (simp add: channel_inv_def channel_init_def)
  with run_ops_inv [of channel_inv ops channel_exec, OF _ _ assms] channel_exec_inv have "channel_inv s'" by blast
  then show ?thesis by (auto simp: channel_inv_def pollChannel_def split: option.splits)
qed

definition demo_channel :: "channel_op list \<Rightarrow> channel_state" where
  "demo_channel ops = fst (run_ops channel_exec ops
     (channel_init \<lparr>cf_socketPath = None, cf_roomId = Some ''!r:h'', cf_autoReply = None, cf_verbose = None\<rparr>))"

theorem channel_single_poller_witness:
  "ch_running (demo_channel [StartOp, StartOp, StopOp, StartOp]) \<and>
   length (ch_intervals (demo_channel [StartOp, StartOp, StopOp, StartOp])) = 1 \<and>
   pollChannel 0 (demo_channel [StartOp, StopOp]) = (demo_channel [StartOp, StopOp], [])"
proof -
  have r: "ch_running (demo_channel [StartOp, StartOp, StopOp, StartOp])" "\<not> ch_running (demo_channel [StartOp, StopOp])"
    by code_simp+
  have d: "\<exists>evs. run_ops channel_exec ops
     (channel_init \<lparr>cf_socketPath = None, cf_roomId = Some ''!r:h'', cf_autoReply = None, cf_verbose = None\<rparr>) = (demo_channel ops, evs)" for ops
    unfolding demo_channel_def by (metis prod.collapse)
  obtain e1 e2 where
    "run_ops channel_exec [StartOp, StartOp, StopOp, StartOp]
     (channel_init \<lparr>cf_socketPath = None, cf_roomId = Some ''!r:h'', cf_autoReply = None, cf_verbose = None\<rparr>) = (demo_channel [StartOp, StartOp, StopOp, StartOp], e1)"
    "run_ops channel_exec [StartOp, StopOp]
     (channel_init \<lparr>cf_socketPath = None, cf_roomId = Some ''!r:h'', cf_autoReply = None, cf_verbose = None\<rparr>) = (demo_channel [StartOp, StopOp], e2)"
    using d by blast
  from this [THEN channel_single_poller] r show ?thesis by simp
qed

end
