(* ===== verification/Simulation.thy ===== *)
theory Simulation
  imports Promise_Ledger
begin

section \<open>Refinement of an abstract component\<close>

text \<open>
  The contract of a component whose handlers implement an abstract specification: through the
  abstraction \<open>abs_of\<close> every handler, called on a state that satisfies the invariant with an
  operation its callers may issue, does to the abstract state what the specification says and
  gives the same answers. The locale lifts this to runs of any length.
\<close>

text \<open>What holds after a run held before it, or an answer of the run brought it about.\<close>

lemma run_ops_history:
  assumes step: "\<And>x s. Q (fst (exec x s)) \<Longrightarrow> Q s \<or> e \<in> set (snd (exec x s))"
    and "Q (fst (run_ops exec xs s))"
  shows "Q s \<or> e \<in> set (snd (run_ops exec xs s))"
  using assms(2)
proof (induction xs arbitrary: s)
  case (Cons x xs)
  then have "Q (fst (exec x s)) \<or> e \<in> set (snd (run_ops exec xs (fst (exec x s))))"
    by (simp add: Let_def case_prod_beta)
  with step [of x s] show ?case by (auto simp: Let_def case_prod_beta)
qed simp

locale functional_refinement =
  fixes exec :: "'op \<Rightarrow> 's \<Rightarrow> 's \<times> 'ev list"
    and spec :: "'op \<Rightarrow> 'a \<Rightarrow> 'a \<times> 'ev list"
    and abs_of :: "'s \<Rightarrow> 'a"
    and inv :: "'s \<Rightarrow> bool"
    and issued :: "'op \<Rightarrow> bool"
  assumes inv_exec: "issued x \<Longrightarrow> inv s \<Longrightarrow> inv (fst (exec x s))"
    and simulates: "issued x \<Longrightarrow> inv s \<Longrightarrow> spec x (abs_of s) = (abs_of (fst (exec x s)), snd (exec x s))"
begin

lemma run_refines:
  assumes "list_all issued xs" "inv s"
  shows "inv (fst (run_ops exec xs s)) \<and>
    run_ops spec xs (abs_of s) = (abs_of (fst (run_ops exec xs s)), snd (run_ops exec xs s))"
  using assms
proof (induction xs arbitrary: s)
  case (Cons x xs)
  obtain s1 e1 where x: "exec x s = (s1, e1)" by fastforce
  have "inv s1" "spec x (abs_of s) = (abs_of s1, e1)" using Cons.prems inv_exec [of x s] simulates [of x s] x by auto
  moreover from this Cons have "inv (fst (run_ops exec xs s1)) \<and>
    run_ops spec xs (abs_of s1) = (abs_of (fst (run_ops exec xs s1)), snd (run_ops exec xs s1))" by simp
  ultimately show ?case using x by (simp add: Let_def case_prod_beta)
qed simp


end

end
