(* ===== verification/Gateway_Net.thy ===== *)
theory Gateway_Net
  imports Rate_Limit "HOL-Library.Word"
begin

section \<open>Addresses of the gateway (gateway/net.ts, infra/tailnet.ts)\<close>

text \<open>
  Host names, client addresses behind proxies, CIDR blocks and the choice of the bind address.
  \<open>net.isIP\<close> and \<open>parseInt\<close> of the runtime are modelled as the runtime documents them
  (\<open>isIP\<close>, \<open>parse_int\<close>); the interfaces of the machine and whether a host can be bound
  are arguments (\<open>ifaces\<close>, \<open>canBindToHost\<close>), and so is the result of the URL parser.
  The 32-bit shifts and masks of the CIDR test are words of that width.
\<close>

unbundle bit_operations_syntax

subsection \<open>Numbers in strings\<close>

definition is_digit :: "char \<Rightarrow> bool" where
  "is_digit c \<longleftrightarrow> 48 \<le> (of_char c :: nat) \<and> (of_char c :: nat) \<le> 57"

definition digit_value :: "char \<Rightarrow> nat" where
  "digit_value c = of_char c - 48"

definition digits_value :: "string \<Rightarrow> nat" where
  "digits_value ds = foldl (\<lambda>a c. a * 10 + digit_value c) 0 ds"

text \<open>\<open>parseInt(s, 10)\<close>: blanks, a sign, the longest run of digits; \<open>None\<close> is \<open>NaN\<close>.\<close>

definition parse_int :: "string \<Rightarrow> int option" where
  "parse_int s =
     (let t = dropWhile is_ws s;
          (sign, r) = (case t of [] \<Rightarrow> (1, [])
             | c # r \<Rightarrow> if c = CHR ''-'' then (- 1, r) else if c = CHR ''+'' then (1, r) else (1, t));
          ds = takeWhile is_digit r
      in if ds = [] then None else Some (sign * int (digits_value ds)))"

text \<open>\<open>String(n)\<close> of a natural number.\<close>

fun dec :: "nat \<Rightarrow> string" where
  "dec n = (if n < 10 then [char_of (48 + n)] else dec (n div 10) @ [char_of (48 + n mod 10)])"

declare dec.simps [simp del]

subsection \<open>\<open>net.isIP\<close>\<close>

text \<open>An IPv4 address is four decimal numbers up to 255 without leading zeros. An IPv6 address is
  eight groups of one to four hexadecimal digits, or fewer around one \<open>::\<close>, the last two groups
  possibly written as an IPv4 address, followed by an optional zone.\<close>

definition v4_segment :: "string \<Rightarrow> bool" where
  "v4_segment p \<longleftrightarrow> p \<noteq> [] \<and> list_all is_digit p \<and> length p \<le> 3 \<and> digits_value p \<le> 255 \<and> p = dec (digits_value p)"

definition isIPv4 :: "string \<Rightarrow> bool" where
  "isIPv4 s \<longleftrightarrow> length (split_on CHR ''.'' s) = 4 \<and> list_all v4_segment (split_on CHR ''.'' s)"

definition is_hex :: "char \<Rightarrow> bool" where
  "is_hex c \<longleftrightarrow> is_digit c \<or> 97 \<le> (of_char (lower_char c) :: nat) \<and> (of_char (lower_char c) :: nat) \<le> 102"

definition v6_segment :: "string \<Rightarrow> bool" where
  "v6_segment p \<longleftrightarrow> p \<noteq> [] \<and> length p \<le> 4 \<and> list_all is_hex p"

text \<open>The number of groups of a side of the address; \<open>None\<close> when a group is malformed.\<close>

fun v6_groups :: "string list \<Rightarrow> nat option" where
  "v6_groups [] = Some 0"
| "v6_groups [p] = (if v6_segment p then Some 1 else if isIPv4 p then Some 2 else None)"
| "v6_groups (p # q # ps) = (if v6_segment p then map_option Suc (v6_groups (q # ps)) else None)"

fun break_double_colon :: "string \<Rightarrow> (string \<times> string) option" where
  "break_double_colon (a # b # s) =
     (if a = CHR '':'' \<and> b = CHR '':'' then Some ([], s)
      else map_option (\<lambda>(l, r). (a # l, r)) (break_double_colon (b # s)))"
| "break_double_colon s = None"

definition v6_side :: "string \<Rightarrow> nat option" where
  "v6_side s = (if s = [] then Some 0 else v6_groups (split_on CHR '':'' s))"

definition v6_body :: "string \<Rightarrow> bool" where
  "v6_body s =
     (case break_double_colon s of
        None \<Rightarrow> v6_groups (split_on CHR '':'' s) = Some 8
      | Some (l, r) \<Rightarrow>
          (case (v6_side l, v6_side r) of
             (Some m, Some n) \<Rightarrow> m + n \<le> 7 \<and> (l = [] \<or> list_all v6_segment (split_on CHR '':'' l))
           | _ \<Rightarrow> False))"

definition zone_char :: "char \<Rightarrow> bool" where
  "zone_char c \<longleftrightarrow> is_digit c \<or> 97 \<le> (of_char (lower_char c) :: nat) \<and> (of_char (lower_char c) :: nat) \<le> 122 \<or>
     c = CHR ''-'' \<or> c = CHR ''.'' \<or> c = CHR '':''"

definition isIPv6 :: "string \<Rightarrow> bool" where
  "isIPv6 s =
     (let body = takeWhile (\<lambda>c. c \<noteq> CHR ''%'') s; rest = dropWhile (\<lambda>c. c \<noteq> CHR ''%'') s
      in v6_body body \<and> (rest = [] \<or> tl rest \<noteq> [] \<and> list_all zone_char (tl rest)))"

definition isIP :: "string \<Rightarrow> nat" where
  "isIP s = (if isIPv4 s then 4 else if isIPv6 s then 6 else 0)"

subsection \<open>Host names\<close>

definition normalizeHostHeader :: "string option \<Rightarrow> string" where
  "normalizeHostHeader hostHeader = to_lower (trim (nullish hostHeader []))"

text \<open>What stands between the brackets of \<open>[address]\<close>, when \<open>s\<close> opens with one and has its closing one.\<close>

definition bracketed :: "string \<Rightarrow> string option" where
  "bracketed s = (if starts_with s ''['' then map_option (\<lambda>e. drop 1 (take e s)) (index_of CHR '']'' s) else None)"

definition resolveHostName :: "string option \<Rightarrow> string" where
  "resolveHostName hostHeader =
     (let host = normalizeHostHeader hostHeader in
      if host = [] then []
      else case bracketed host of
        Some inner \<Rightarrow> inner
      | None \<Rightarrow> if isIP host = 6 then host else hd (split_on CHR '':'' host))"

subsection \<open>Private and loopback addresses\<close>

definition normalizeIPv4MappedAddress :: "string \<Rightarrow> string" where
  "normalizeIPv4MappedAddress ip = (if starts_with ip ''::ffff:'' then drop 7 ip else ip)"

definition normalizeIp :: "string option \<Rightarrow> string option" where
  "normalizeIp ip = (case ip of None \<Rightarrow> None
     | Some a \<Rightarrow> let t = trim a in if t = [] then None else Some (normalizeIPv4MappedAddress (to_lower t)))"

definition private_octets :: "int \<Rightarrow> int \<Rightarrow> bool" where
  "private_octets o1 o2 \<longleftrightarrow>
     o1 = 10 \<or> (o1 = 172 \<and> 16 \<le> o2 \<and> o2 \<le> 31) \<or> (o1 = 192 \<and> o2 = 168) \<or>
     (o1 = 169 \<and> o2 = 254) \<or> (o1 = 100 \<and> 64 \<le> o2 \<and> o2 \<le> 127)"

definition isPrivateOrLoopbackAddress :: "string option \<Rightarrow> bool" where
  "isPrivateOrLoopbackAddress ip = (case ip of
     None \<Rightarrow> False
   | Some a \<Rightarrow>
       if a = [] then False
       else if isLoopbackAddress (Some a) then True
       else
         (let normalized = normalizeIPv4MappedAddress (to_lower (trim a)); family = isIP normalized in
          if family = 0 then False
          else if family = 4 then
            (let octets = map parse_int (split_on CHR ''.'' normalized) in
             if length octets \<noteq> 4 \<or> None \<in> set octets then False
             else private_octets (the (octets ! 0)) (the (octets ! 1)))
          else if starts_with normalized ''fc'' \<or> starts_with normalized ''fd'' then True
          else starts_with normalized ''fe8'' \<or> starts_with normalized ''fe9'' \<or>
               starts_with normalized ''fea'' \<or> starts_with normalized ''feb''))"

subsection \<open>The client behind a proxy\<close>

definition stripOptionalPort :: "string \<Rightarrow> string" where
  "stripOptionalPort ip =
     (case bracketed ip of
        Some inner \<Rightarrow> inner
      | None \<Rightarrow>
          if isIP ip \<noteq> 0 then ip
          else if count_list ip CHR '':'' = 1 \<and> CHR ''.'' \<in> set ip
          then (let candidate = takeWhile (\<lambda>c. c \<noteq> CHR '':'') ip in if isIP candidate = 4 then candidate else ip)
          else ip)"

definition parseForwardedForClientIp :: "string option \<Rightarrow> string option" where
  "parseForwardedForClientIp forwardedFor = (case forwardedFor of None \<Rightarrow> None
     | Some f \<Rightarrow> let raw = trim (hd (split_on CHR '','' f)) in
         if raw = [] then None else normalizeIp (Some (stripOptionalPort raw)))"

definition parseRealIp :: "string option \<Rightarrow> string option" where
  "parseRealIp realIp = (case realIp of None \<Rightarrow> None
     | Some r \<Rightarrow> let raw = trim r in if raw = [] then None else normalizeIp (Some (stripOptionalPort raw)))"

subsection \<open>CIDR blocks\<close>

text \<open>Four octets as a 32-bit word, shifted and joined as the code does.\<close>

definition ipv4_word :: "int list \<Rightarrow> 32 word" where
  "ipv4_word ps = ((push_bit 24 (word_of_int (ps ! 0)) OR push_bit 16 (word_of_int (ps ! 1)))
     OR push_bit 8 (word_of_int (ps ! 2))) OR word_of_int (ps ! 3)"

definition cidr_mask :: "nat \<Rightarrow> 32 word" where
  "cidr_mask prefixLen = (if prefixLen = 0 then 0 else push_bit (32 - prefixLen) (drop_bit (32 - prefixLen) (- 1)))"

definition octets_ok :: "int option list \<Rightarrow> bool" where
  "octets_ok ps \<longleftrightarrow> length ps = 4 \<and> list_all (\<lambda>p. case p of None \<Rightarrow> False | Some v \<Rightarrow> 0 \<le> v \<and> v \<le> 255) ps"

definition ipMatchesCIDR :: "string \<Rightarrow> string \<Rightarrow> bool" where
  "ipMatchesCIDR ip cidr =
     (if CHR ''/'' \<notin> set cidr then ip = cidr
      else
        (let pieces = split_on CHR ''/'' cidr; subnet = pieces ! 0 in
         case parse_int (pieces ! 1) of
           None \<Rightarrow> False
         | Some prefixLen \<Rightarrow>
             if prefixLen < 0 \<or> 32 < prefixLen then False
             else
               (let ipParts = map parse_int (split_on CHR ''.'' ip);
                    subnetParts = map parse_int (split_on CHR ''.'' subnet)
                in if octets_ok ipParts \<and> octets_ok subnetParts
                   then ipv4_word (map the ipParts) AND cidr_mask (nat prefixLen)
                      = ipv4_word (map the subnetParts) AND cidr_mask (nat prefixLen)
                   else False)))"

definition isTrustedProxyAddress :: "string option \<Rightarrow> string list option \<Rightarrow> bool" where
  "isTrustedProxyAddress ip trustedProxies =
     (case (normalizeIp ip, trustedProxies) of
        (Some normalized, Some ps) \<Rightarrow>
          normalized \<noteq> [] \<and>
          list_ex (\<lambda>proxy. let candidate = trim proxy in
             if candidate = [] then False
             else if CHR ''/'' \<in> set candidate then ipMatchesCIDR normalized candidate
             else normalizeIp (Some candidate) = Some normalized) ps
      | _ \<Rightarrow> False)"

definition resolveGatewayClientIp ::
    "string option \<Rightarrow> string option \<Rightarrow> string option \<Rightarrow> string list option \<Rightarrow> string option" where
  "resolveGatewayClientIp remoteAddr forwardedFor realIp trustedProxies =
     (case truthy (normalizeIp remoteAddr) of
        None \<Rightarrow> None
      | Some remote \<Rightarrow>
          if \<not> isTrustedProxyAddress (Some remote) trustedProxies then Some remote
          else orelse (parseForwardedForClientIp forwardedFor) (parseRealIp realIp))"

subsection \<open>Interfaces of the machine (infra/tailnet.ts)\<close>

record net_iface =
  if_family :: string
  if_internal :: bool
  if_address :: "string option"

type_synonym net_ifaces = "(string \<times> net_iface list) list"

definition external_ipv4 :: "net_iface list \<Rightarrow> string option" where
  "external_ipv4 xs = (case find (\<lambda>n. if_family n = ''IPv4'' \<and> \<not> if_internal n) xs of
     None \<Rightarrow> None | Some n \<Rightarrow> truthy (if_address n))"

fun first_some :: "('a \<Rightarrow> 'b option) \<Rightarrow> 'a list \<Rightarrow> 'b option" where
  "first_some f [] = None"
| "first_some f (x # xs) = orelse (f x) (first_some f xs)"

definition pickPrimaryLanIPv4 :: "net_ifaces \<Rightarrow> string option" where
  "pickPrimaryLanIPv4 nets =
     orelse (first_some (\<lambda>name. Option.bind (map_of nets name) external_ipv4) [''en0'', ''eth0''])
       (first_some external_ipv4 (map snd nets))"

definition isTailnetIPv4 :: "string \<Rightarrow> bool" where
  "isTailnetIPv4 address =
     (let parts = split_on CHR ''.'' address; octets = map parse_int parts in
      if length parts \<noteq> 4 then False
      else if \<not> octets_ok octets then False
      else the (octets ! 0) = 100 \<and> 64 \<le> the (octets ! 1) \<and> the (octets ! 1) \<le> 127)"

definition isTailnetIPv6 :: "string \<Rightarrow> bool" where
  "isTailnetIPv6 address = starts_with (to_lower (trim address)) ''fd7a:115c:a1e0:''"

definition listTailnetAddresses :: "net_ifaces \<Rightarrow> string list \<times> string list" where
  "listTailnetAddresses nets =
     (let addrs = filter (\<lambda>a. a \<noteq> []) (map (\<lambda>e. trim (nullish (if_address e) []))
            (filter (\<lambda>e. \<not> if_internal e) (concat (map snd nets))))
      in (set_of_list (filter isTailnetIPv4 addrs), set_of_list (filter isTailnetIPv6 addrs)))"

definition pickPrimaryTailnetIPv4 :: "net_ifaces \<Rightarrow> string option" where
  "pickPrimaryTailnetIPv4 nets = (case fst (listTailnetAddresses nets) of [] \<Rightarrow> None | a # _ \<Rightarrow> Some a)"

definition pickPrimaryTailnetIPv6 :: "net_ifaces \<Rightarrow> string option" where
  "pickPrimaryTailnetIPv6 nets = (case snd (listTailnetAddresses nets) of [] \<Rightarrow> None | a # _ \<Rightarrow> Some a)"

definition isLocalGatewayAddress :: "net_ifaces \<Rightarrow> string option \<Rightarrow> bool" where
  "isLocalGatewayAddress nets ip =
     (if isLoopbackAddress ip then True
      else case truthy ip of
        None \<Rightarrow> False
      | Some a \<Rightarrow>
          (case truthy (pickPrimaryTailnetIPv4 nets) of
             Some t \<Rightarrow> normalizeIPv4MappedAddress (to_lower (trim a)) = to_lower t | None \<Rightarrow> False) \<or>
          (case truthy (pickPrimaryTailnetIPv6 nets) of
             Some t \<Rightarrow> to_lower (trim a) = to_lower t | None \<Rightarrow> False))"

subsection \<open>The bind address\<close>

datatype GatewayBindMode = BindAuto | BindLan | BindLoopback | BindCustom | BindTailnet

definition isValidIPv4 :: "string \<Rightarrow> bool" where
  "isValidIPv4 host =
     (let parts = split_on CHR ''.'' host in
      length parts = 4 \<and>
      list_all (\<lambda>part. case parse_int part of None \<Rightarrow> False
        | Some n \<Rightarrow> 0 \<le> n \<and> n \<le> 255 \<and> part = dec (nat n)) parts)"

definition resolveGatewayBindHost ::
    "(string \<Rightarrow> bool) \<Rightarrow> net_ifaces \<Rightarrow> GatewayBindMode option \<Rightarrow> string option \<Rightarrow> string" where
  "resolveGatewayBindHost canBindToHost nets bind customHost =
     (case nullish bind BindLoopback of
        BindLoopback \<Rightarrow> if canBindToHost ''127.0.0.1'' then ''127.0.0.1'' else ''0.0.0.0''
      | BindTailnet \<Rightarrow>
          (case truthy (pickPrimaryTailnetIPv4 nets) of
             Some t \<Rightarrow> if canBindToHost t then t
                       else if canBindToHost ''127.0.0.1'' then ''127.0.0.1'' else ''0.0.0.0''
           | None \<Rightarrow> if canBindToHost ''127.0.0.1'' then ''127.0.0.1'' else ''0.0.0.0'')
      | BindLan \<Rightarrow> ''0.0.0.0''
      | BindCustom \<Rightarrow>
          (let host = trim (nullish customHost []) in
           if host = [] then ''0.0.0.0''
           else if isValidIPv4 host \<and> canBindToHost host then host
           else ''0.0.0.0'')
      | BindAuto \<Rightarrow> if canBindToHost ''127.0.0.1'' then ''127.0.0.1'' else ''0.0.0.0'')"

definition resolveGatewayListenHosts :: "(string \<Rightarrow> bool) \<Rightarrow> string \<Rightarrow> string list" where
  "resolveGatewayListenHosts canBind bindHost =
     (if bindHost \<noteq> ''127.0.0.1'' then [bindHost]
      else if canBind ''::1'' then [bindHost, ''::1''] else [bindHost])"

subsection \<open>Secure URLs\<close>

definition ends_with :: "string \<Rightarrow> string \<Rightarrow> bool" where
  "ends_with s p \<longleftrightarrow> starts_with (rev s) (rev p)"

definition isLoopbackHost :: "string \<Rightarrow> bool" where
  "isLoopbackHost host =
     (if host = [] then False
      else
        (let h = to_lower (trim host) in
         if h = ''localhost'' then True
         else isLoopbackAddress (Some (if starts_with h ''['' \<and> ends_with h '']'' then butlast (tl h) else h))))"

text \<open>\<open>parsed\<close> is the protocol and the host name the URL parser finds, \<open>None\<close> when it throws.\<close>

definition isSecureWebSocketUrl :: "(string \<times> string) option \<Rightarrow> bool" where
  "isSecureWebSocketUrl parsed = (case parsed of
     None \<Rightarrow> False
   | Some (protocol, hostname) \<Rightarrow>
       if protocol = ''wss:'' then True
       else if protocol \<noteq> ''ws:'' then False
       else isLoopbackHost hostname)"

subsection \<open>Decimal numbers round trip\<close>

lemma is_digit_dec_char: "n < 10 \<Longrightarrow> is_digit (char_of (48 + n))" "n < 10 \<Longrightarrow> digit_value (char_of (48 + n)) = n"
  by (simp_all add: is_digit_def digit_value_def)

lemma dec_digits: "list_all is_digit (dec n)" "dec n \<noteq> []" "digits_value (dec n) = n"
proof (induction n rule: dec.induct)
  case (1 n)
  { case 1
    show ?case using "1.IH"(1) by (subst dec.simps) (auto simp: is_digit_dec_char) }
  { case 2
    show ?case by (subst dec.simps) auto }
  { case 3
    show ?case using "1.IH"(3) by (subst dec.simps) (auto simp: digits_value_def is_digit_dec_char) }
qed

lemma digit_not_sep:
  "is_digit c \<Longrightarrow> \<not> is_ws c \<and> c \<noteq> CHR ''-'' \<and> c \<noteq> CHR ''+'' \<and> c \<noteq> CHR ''.'' \<and> c \<noteq> CHR ''/''"
  by (auto simp: is_digit_def is_ws_def)

lemma parse_int_digits:
  assumes "list_all is_digit ds" "ds \<noteq> []"
  shows "parse_int ds = Some (int (digits_value ds))"
proof -
  obtain c r where ds: "ds = c # r" using assms(2) by (cases ds) auto
  with assms(1) have "\<not> is_ws c" "c \<noteq> CHR ''-''" "c \<noteq> CHR ''+''" using digit_not_sep by auto
  moreover have "takeWhile is_digit ds = ds" using assms(1) by (simp add: list_all_iff)
  ultimately show ?thesis by (simp add: parse_int_def ds)
qed

lemma parse_int_dec [simp]: "parse_int (dec n) = Some (int n)"
  using parse_int_digits [OF dec_digits(1,2)] by (simp add: dec_digits)

lemma dec_no_sep: "CHR ''.'' \<notin> set (dec n)" "CHR ''/'' \<notin> set (dec n)"
  using dec_digits(1) [of n] digit_not_sep by (auto simp: list_all_iff)

text \<open>Dotted notation.\<close>

definition dotted :: "nat \<Rightarrow> nat \<Rightarrow> nat \<Rightarrow> nat \<Rightarrow> string" where
  "dotted a b c d = dec a @ ''.'' @ dec b @ ''.'' @ dec c @ ''.'' @ dec d"

definition ipv4_value :: "nat \<Rightarrow> nat \<Rightarrow> nat \<Rightarrow> nat \<Rightarrow> nat" where
  "ipv4_value a b c d = ((a * 256 + b) * 256 + c) * 256 + d"

lemma split_dotted: "split_on CHR ''.'' (dotted a b c d) = [dec a, dec b, dec c, dec d]"
  by (simp add: dotted_def split_on_step split_on_word dec_no_sep)

lemma dotted_no_slash: "CHR ''/'' \<notin> set (dotted a b c d)"
  by (simp add: dotted_def dec_no_sep)

subsection \<open>The CIDR test is the arithmetic one\<close>

lemma or_shifted: "y < 2 ^ k \<Longrightarrow> push_bit k x OR y = x * 2 ^ k + (y :: nat)"
proof -
  assume y: "y < 2 ^ k"
  then have "take_bit k y = y" by (simp add: take_bit_nat_eq_self)
  then have "\<not> bit y i" if "k \<le> i" for i using that by (metis bit_take_bit_iff not_less)
  then have "push_bit k x AND y = 0" by (auto simp: bit_eq_iff bit_and_iff bit_push_bit_iff)
  then have "push_bit k x + y = push_bit k x OR y" by (rule disjunctive_add_eq_or)
  then show ?thesis by (simp add: push_bit_eq_mult)
qed

lemma ipv4_word_value:
  assumes "a < 256" "b < 256" "c < 256" "d < 256"
  shows "ipv4_word [int a, int b, int c, int d] = word_of_nat (ipv4_value a b c d)"
proof -
  have step: "push_bit (k + 8) x OR push_bit k y = push_bit k (push_bit 8 x OR y)" for k and x y :: nat
    by (auto simp: bit_eq_iff bit_or_iff bit_push_bit_iff)
  have "(word_of_int (int x) :: 32 word) = word_of_nat x" for x by simp
  then have "ipv4_word [int a, int b, int c, int d]
      = word_of_nat (((push_bit 24 a OR push_bit 16 b) OR push_bit 8 c) OR d)"
    unfolding ipv4_word_def by (simp add: of_nat_or_eq of_nat_push_bit)
  also have "((push_bit 24 a OR push_bit 16 b) OR push_bit 8 c) OR d = ipv4_value a b c d"
    using assms step [of 16 a b] step [of 8 "push_bit 8 a OR b" c]
    by (simp add: or_shifted ipv4_value_def)
  finally show ?thesis .
qed

lemma ipv4_value_bound:
  assumes "a < 256" "b < 256" "c < 256" "d < 256"
  shows "ipv4_value a b c d < 2 ^ 32"
  using assms by (simp add: ipv4_value_def)

lemma mask_compare:
  fixes v w :: "32 word"
  assumes "n \<le> 32"
  shows "v AND cidr_mask n = w AND cidr_mask n \<longleftrightarrow> drop_bit (32 - n) v = drop_bit (32 - n) w"
proof (cases "n = 0")
  case True
  have "drop_bit 32 v = drop_bit 32 w" by (auto simp: bit_eq_iff bit_drop_bit_eq dest: bit_imp_le_length)
  with True show ?thesis by (simp add: cidr_mask_def)
next
  case False
  define k where "k = 32 - n"
  have m: "bit (cidr_mask n) i \<longleftrightarrow> k \<le> i \<and> i < 32" for i
    using False assms by (auto simp: cidr_mask_def k_def bit_push_bit_iff bit_drop_bit_eq bit_minus_1_iff bit_mask_iff)
  have "v AND cidr_mask n = w AND cidr_mask n \<longleftrightarrow> (\<forall>i. k \<le> i \<and> i < 32 \<longrightarrow> bit v i = bit w i)"
    by (auto simp: bit_eq_iff [of "v AND _"] bit_and_iff m)
  also have "\<dots> \<longleftrightarrow> (\<forall>i. bit v (k + i) = bit w (k + i))"
  proof safe
    fix i
    assume all: "\<forall>i. k \<le> i \<and> i < 32 \<longrightarrow> bit v i = bit w i"
    show "bit w (k + i)" if "bit v (k + i)" using all that bit_imp_le_length [OF that] by simp
    show "bit v (k + i)" if "bit w (k + i)" using all that bit_imp_le_length [OF that] by simp
  next
    fix i
    assume all: "\<forall>i. bit v (k + i) = bit w (k + i)" and "k \<le> i"
    then show "bit v i \<Longrightarrow> bit w i" "bit w i \<Longrightarrow> bit v i" using all [rule_format, of "i - k"] by simp_all
  qed
  also have "\<dots> \<longleftrightarrow> drop_bit k v = drop_bit k w"
  proof
    assume all: "\<forall>i. bit v (k + i) = bit w (k + i)"
    show "drop_bit k v = drop_bit k w" by (rule bit_eqI) (simp add: bit_drop_bit_eq all)
  next
    assume "drop_bit k v = drop_bit k w"
    then have "bit (drop_bit k v) i = bit (drop_bit k w) i" for i by simp
    then show "\<forall>i. bit v (k + i) = bit w (k + i)" by (simp add: bit_drop_bit_eq)
  qed
  finally show ?thesis by (simp add: k_def)
qed

text \<open>(C31) The CIDR test: for an IPv4 address and a block in dotted notation with a prefix length of 0 to
  32, the shift and mask arithmetic on 32-bit integers accepts exactly when the first prefix-length
  bits of the two addresses agree, i.e. when their quotients by the block size are equal.\<close>

theorem ipMatchesCIDR_exact:
  assumes "a < 256" "b < 256" "c < 256" "d < 256" and "e < 256" "f < 256" "g < 256" "h < 256" and "n \<le> 32"
  shows "ipMatchesCIDR (dotted a b c d) (dotted e f g h @ ''/'' @ dec n) \<longleftrightarrow>
    ipv4_value a b c d div 2 ^ (32 - n) = ipv4_value e f g h div 2 ^ (32 - n)"
proof -
  have pieces: "split_on CHR ''/'' (dotted e f g h @ ''/'' @ dec n) = [dotted e f g h, dec n]"
    by (simp add: split_on_step split_on_word dotted_no_slash dec_no_sep)
  have ok: "octets_ok (map parse_int [dec w, dec x, dec y, dec z])" if "w < 256" "x < 256" "y < 256" "z < 256" for w x y z
    using that by (simp add: octets_ok_def)
  have "ipMatchesCIDR (dotted a b c d) (dotted e f g h @ ''/'' @ dec n) \<longleftrightarrow>
      word_of_nat (ipv4_value a b c d) AND cidr_mask n = (word_of_nat (ipv4_value e f g h) :: 32 word) AND cidr_mask n"
    unfolding ipMatchesCIDR_def pieces
    using assms ok [OF assms(1-4)] ok [OF assms(5-8)]
    by (simp add: split_dotted ipv4_word_value [symmetric])
  also have "\<dots> \<longleftrightarrow> unat (drop_bit (32 - n) (word_of_nat (ipv4_value a b c d) :: 32 word))
      = unat (drop_bit (32 - n) (word_of_nat (ipv4_value e f g h) :: 32 word))"
    unfolding mask_compare [OF assms(9)] by (rule word_unat_eq_iff)
  also have "\<dots> \<longleftrightarrow> drop_bit (32 - n) (ipv4_value a b c d) = drop_bit (32 - n) (ipv4_value e f g h)"
  proof -
    have "unat (word_of_nat x :: 32 word) = x" if "x < 2 ^ 32" for x using that by (simp add: unat_of_nat)
    with ipv4_value_bound [OF assms(1-4)] ipv4_value_bound [OF assms(5-8)] show ?thesis
      by (simp only: unat_drop_bit_eq)
  qed
  finally show ?thesis by (simp add: drop_bit_eq_div)
qed

theorem ipMatchesCIDR_exact_witness:
  "ipMatchesCIDR (dotted 10 42 0 59) (dotted 10 42 0 0 @ ''/'' @ dec 24) \<and>
   \<not> ipMatchesCIDR (dotted 10 42 1 59) (dotted 10 42 0 0 @ ''/'' @ dec 24)"
  using ipMatchesCIDR_exact [of 10 42 0 59 10 42 0 0 24] ipMatchesCIDR_exact [of 10 42 1 59 10 42 0 0 24]
  by (simp add: ipv4_value_def)

end
