(* ===== verification/Gateway_Auth.thy ===== *)
theory Gateway_Auth
  imports Gateway_Net Promise_Ledger
begin

section \<open>Gateway authentication (gateway/auth.ts, security/secret-equal.ts)\<close>

text \<open>
  Who may connect to the gateway: the resolution of the configured mode, the trusted proxy and
  Tailscale identities, shared tokens and passwords, over the sliding-window limiter of
  \<open>Rate_Limit\<close>. The digest of a secret (\<open>hash\<close>) and the answer of the Tailscale daemon
  (\<open>whois\<close>) are arguments. The handler awaits the daemon once, so it is two turns of the event
  loop, \<open>authorizeGatewayConnect_begin\<close> and \<open>authorizeGatewayConnect_finish\<close>, between which other
  requests may run; each turn has its own clock reading.
\<close>

subsection \<open>Requests\<close>

text \<open>A header is a string or a list of strings; Node gives \<open>host\<close> as a string only.\<close>

datatype header_value = HStr string | HArr "string list"

record IncomingMessage =
  im_remoteAddress :: "string option"
  im_headers :: "(string \<times> header_value) list"

abbreviation header :: "IncomingMessage \<Rightarrow> string \<Rightarrow> header_value option" where
  "header req h \<equiv> map_of (im_headers req) h"

definition headerValue :: "header_value option \<Rightarrow> string option" where
  "headerValue v = (case v of None \<Rightarrow> None
     | Some (HStr s) \<Rightarrow> Some s
     | Some (HArr xs) \<Rightarrow> (case xs of [] \<Rightarrow> None | x # _ \<Rightarrow> Some x))"

text \<open>A header as a condition: an array is true, a string when it is not empty.\<close>

definition header_truthy :: "header_value option \<Rightarrow> bool" where
  "header_truthy v = (case v of None \<Rightarrow> False | Some (HStr s) \<Rightarrow> s \<noteq> [] | Some (HArr xs) \<Rightarrow> True)"

text \<open>\<open>typeof v === "string"\<close> with a trimmed text that is not empty.\<close>

definition header_text :: "header_value option \<Rightarrow> string option" where
  "header_text v = (case v of Some (HStr s) \<Rightarrow> if trim s \<noteq> [] then Some (trim s) else None | _ \<Rightarrow> None)"

subsection \<open>Where a request comes from\<close>

definition resolveTailscaleClientIp :: "IncomingMessage option \<Rightarrow> string option" where
  "resolveTailscaleClientIp req = (case req of None \<Rightarrow> None
     | Some r \<Rightarrow> (case truthy (headerValue (header r ''x-forwarded-for'')) of
          None \<Rightarrow> None | Some f \<Rightarrow> parseForwardedForClientIp (Some f)))"

definition resolveRequestClientIp :: "IncomingMessage option \<Rightarrow> string list option \<Rightarrow> string option" where
  "resolveRequestClientIp req trustedProxies = (case req of None \<Rightarrow> None
     | Some r \<Rightarrow> resolveGatewayClientIp (Some (nullish (im_remoteAddress r) []))
          (headerValue (header r ''x-forwarded-for'')) (headerValue (header r ''x-real-ip'')) trustedProxies)"

definition isLocalDirectRequest :: "IncomingMessage option \<Rightarrow> string list option \<Rightarrow> bool" where
  "isLocalDirectRequest req trustedProxies = (case req of None \<Rightarrow> False
     | Some r \<Rightarrow>
         if \<not> isLoopbackAddress (Some (nullish (resolveRequestClientIp req trustedProxies) [])) then False
         else
           (let host = resolveHostName (case header r ''host'' of Some (HStr s) \<Rightarrow> Some s | _ \<Rightarrow> None);
                hostIsLocal = (host = ''localhost'' \<or> host = ''127.0.0.1'' \<or> host = ''::1'');
                hostIsTailscaleServe = ends_with host ''.ts.net'';
                hasForwarded = (header_truthy (header r ''x-forwarded-for'') \<or> header_truthy (header r ''x-real-ip'')
                   \<or> header_truthy (header r ''x-forwarded-host''));
                remoteIsTrustedProxy = isTrustedProxyAddress (im_remoteAddress r) trustedProxies
            in (hostIsLocal \<or> hostIsTailscaleServe) \<and> (\<not> hasForwarded \<or> remoteIsTrustedProxy)))"

subsection \<open>Tailscale identities\<close>

record TailscaleUser =
  tu_login :: string
  tu_name :: string
  tu_profilePic :: "string option"

record TailscaleWhoisIdentity =
  wi_login :: string
  wi_name :: "string option"

definition normalizeLogin :: "string \<Rightarrow> string" where
  "normalizeLogin login = to_lower (trim login)"

definition getTailscaleUser :: "IncomingMessage option \<Rightarrow> TailscaleUser option" where
  "getTailscaleUser req = (case req of None \<Rightarrow> None
     | Some r \<Rightarrow>
         (case header_text (header r ''tailscale-user-login'') of
            None \<Rightarrow> None
          | Some login \<Rightarrow> Some \<lparr>tu_login = login,
              tu_name = nullish (header_text (header r ''tailscale-user-name'')) login,
              tu_profilePic = header_text (header r ''tailscale-user-profile-pic'')\<rparr>))"

definition hasTailscaleProxyHeaders :: "IncomingMessage option \<Rightarrow> bool" where
  "hasTailscaleProxyHeaders req = (case req of None \<Rightarrow> False
     | Some r \<Rightarrow> header_truthy (header r ''x-forwarded-for'') \<and> header_truthy (header r ''x-forwarded-proto'')
         \<and> header_truthy (header r ''x-forwarded-host''))"

definition isTailscaleProxyRequest :: "IncomingMessage option \<Rightarrow> bool" where
  "isTailscaleProxyRequest req = (case req of None \<Rightarrow> False
     | Some r \<Rightarrow> isLoopbackAddress (im_remoteAddress r) \<and> hasTailscaleProxyHeaders req)"

definition resolveVerifiedTailscaleUser ::
    "(string \<Rightarrow> TailscaleWhoisIdentity option) \<Rightarrow> IncomingMessage option \<Rightarrow> string + TailscaleUser" where
  "resolveVerifiedTailscaleUser whois req =
     (case getTailscaleUser req of
        None \<Rightarrow> Inl ''tailscale_user_missing''
      | Some tailscaleUser \<Rightarrow>
          if \<not> isTailscaleProxyRequest req then Inl ''tailscale_proxy_missing''
          else case truthy (resolveTailscaleClientIp req) of
            None \<Rightarrow> Inl ''tailscale_whois_failed''
          | Some clientIp \<Rightarrow>
              (case whois clientIp of
                 None \<Rightarrow> Inl ''tailscale_whois_failed''
               | Some w \<Rightarrow>
                   if wi_login w = [] then Inl ''tailscale_whois_failed''
                   else if normalizeLogin (wi_login w) \<noteq> normalizeLogin (tu_login tailscaleUser)
                   then Inl ''tailscale_user_mismatch''
                   else Inr \<lparr>tu_login = wi_login w, tu_name = nullish (wi_name w) (tu_name tailscaleUser),
                          tu_profilePic = tu_profilePic tailscaleUser\<rparr>))"

subsection \<open>The configured mode\<close>

datatype GatewayAuthMode = ModeNone | ModeToken | ModePassword | ModeTrustedProxy
datatype AuthModeSource = SrcOverride | SrcConfig | SrcPassword | SrcToken | SrcDefault
datatype GatewayTailscaleMode = TsOff | TsServe | TsFunnel

record GatewayTrustedProxyConfig =
  tp_userHeader :: string
  tp_requiredHeaders :: "string list option"
  tp_allowUsers :: "string list option"

record GatewayAuthRateLimitConfig =
  rlc_maxAttempts :: "int option"
  rlc_windowMs :: "int option"
  rlc_lockoutMs :: "int option"
  rlc_exemptLoopback :: "bool option"

record GatewayAuthConfig =
  ac_mode :: "GatewayAuthMode option"
  ac_token :: "string option"
  ac_password :: "string option"
  ac_allowTailscale :: "bool option"
  ac_rateLimit :: "GatewayAuthRateLimitConfig option"
  ac_trustedProxy :: "GatewayTrustedProxyConfig option"

record ResolvedGatewayAuth =
  ra_mode :: GatewayAuthMode
  ra_modeSource :: AuthModeSource
  ra_token :: "string option"
  ra_password :: "string option"
  ra_allowTailscale :: bool
  ra_trustedProxy :: "GatewayTrustedProxyConfig option"

definition emptyAuthConfig :: GatewayAuthConfig where
  "emptyAuthConfig = \<lparr>ac_mode = None, ac_token = None, ac_password = None, ac_allowTailscale = None,
     ac_rateLimit = None, ac_trustedProxy = None\<rparr>"

text \<open>The base configuration with the defined fields of the override in their place.\<close>

definition overrideAuthConfig :: "GatewayAuthConfig \<Rightarrow> GatewayAuthConfig option \<Rightarrow> GatewayAuthConfig" where
  "overrideAuthConfig base authOverride = (case authOverride of None \<Rightarrow> base
     | Some ov \<Rightarrow> \<lparr>ac_mode = orelse (ac_mode ov) (ac_mode base), ac_token = orelse (ac_token ov) (ac_token base),
         ac_password = orelse (ac_password ov) (ac_password base),
         ac_allowTailscale = orelse (ac_allowTailscale ov) (ac_allowTailscale base),
         ac_rateLimit = orelse (ac_rateLimit ov) (ac_rateLimit base),
         ac_trustedProxy = orelse (ac_trustedProxy ov) (ac_trustedProxy base)\<rparr>)"

definition resolveGatewayAuth :: "GatewayAuthConfig option \<Rightarrow> GatewayAuthConfig option \<Rightarrow>
    string option \<Rightarrow> string option \<Rightarrow> GatewayTailscaleMode option \<Rightarrow> ResolvedGatewayAuth" where
  "resolveGatewayAuth baseConfig authOverride envToken envPassword tailscaleMode =
     (let authConfig = overrideAuthConfig (nullish baseConfig emptyAuthConfig) authOverride;
          token = orelse (ac_token authConfig) envToken;
          password = orelse (ac_password authConfig) envPassword;
          (mode, modeSource) =
            (case Option.bind authOverride ac_mode of
               Some m \<Rightarrow> (m, SrcOverride)
             | None \<Rightarrow>
                 (case ac_mode authConfig of
                    Some m \<Rightarrow> (m, SrcConfig)
                  | None \<Rightarrow> if truthy password \<noteq> None then (ModePassword, SrcPassword)
                            else if truthy token \<noteq> None then (ModeToken, SrcToken)
                            else (ModeToken, SrcDefault)));
          allowTailscale = nullish (ac_allowTailscale authConfig)
            (tailscaleMode = Some TsServe \<and> mode \<noteq> ModePassword \<and> mode \<noteq> ModeTrustedProxy)
      in \<lparr>ra_mode = mode, ra_modeSource = modeSource, ra_token = token, ra_password = password,
          ra_allowTailscale = allowTailscale, ra_trustedProxy = ac_trustedProxy authConfig\<rparr>)"

text \<open>The error thrown, if any.\<close>

datatype auth_config_error = TokenNotConfigured | PasswordNotConfigured | TrustedProxyMissing | UserHeaderEmpty

definition assertGatewayAuthConfigured :: "ResolvedGatewayAuth \<Rightarrow> auth_config_error option" where
  "assertGatewayAuthConfigured auth =
     (if ra_mode auth = ModeToken \<and> truthy (ra_token auth) = None then
        (if ra_allowTailscale auth then None else Some TokenNotConfigured)
      else if ra_mode auth = ModePassword \<and> truthy (ra_password auth) = None then Some PasswordNotConfigured
      else if ra_mode auth = ModeTrustedProxy then
        (case ra_trustedProxy auth of
           None \<Rightarrow> Some TrustedProxyMissing
         | Some tp \<Rightarrow> if tp_userHeader tp = [] \<or> trim (tp_userHeader tp) = [] then Some UserHeaderEmpty else None)
      else None)"

subsection \<open>The trusted proxy\<close>

definition blank_header :: "IncomingMessage \<Rightarrow> string \<Rightarrow> bool" where
  "blank_header req h = (case headerValue (header req (to_lower h)) of None \<Rightarrow> True | Some v \<Rightarrow> v = [] \<or> trim v = [])"

definition authorizeTrustedProxy ::
    "IncomingMessage option \<Rightarrow> string list option \<Rightarrow> GatewayTrustedProxyConfig \<Rightarrow> string + string" where
  "authorizeTrustedProxy req trustedProxies cfg = (case req of
     None \<Rightarrow> Inl ''trusted_proxy_no_request''
   | Some r \<Rightarrow>
       if truthy (im_remoteAddress r) = None \<or> \<not> isTrustedProxyAddress (im_remoteAddress r) trustedProxies
       then Inl ''trusted_proxy_untrusted_source''
       else case find (blank_header r) (nullish (tp_requiredHeaders cfg) []) of
         Some h \<Rightarrow> Inl (''trusted_proxy_missing_header_'' @ h)
       | None \<Rightarrow>
           if blank_header r (tp_userHeader cfg) then Inl ''trusted_proxy_user_missing''
           else
             (let user = trim (the (headerValue (header r (to_lower (tp_userHeader cfg)))));
                  allowUsers = nullish (tp_allowUsers cfg) []
              in if allowUsers \<noteq> [] \<and> user \<notin> set allowUsers then Inl ''trusted_proxy_user_not_allowed''
                 else Inr user))"

subsection \<open>Connecting\<close>

text \<open>\<open>safeEqualSecret\<close> compares digests, in constant time in the code.\<close>

definition safeEqualSecret :: "(string \<Rightarrow> 'h) \<Rightarrow> string option \<Rightarrow> string option \<Rightarrow> bool" where
  "safeEqualSecret hash provided expected = (case (provided, expected) of
     (Some p, Some e) \<Rightarrow> hash p = hash e | _ \<Rightarrow> False)"

datatype auth_method = ByNone | ByToken | ByPassword | ByTailscale | ByDeviceToken | ByTrustedProxy

record GatewayAuthResult =
  ar_ok :: bool
  ar_method :: "auth_method option"
  ar_user :: "string option"
  ar_reason :: "string option"
  ar_rateLimited :: bool
  ar_retryAfterMs :: "int option"

record ConnectAuth =
  ca_token :: "string option"
  ca_password :: "string option"

record connect_params =
  cp_connectAuth :: "ConnectAuth option"
  cp_req :: "IncomingMessage option"
  cp_clientIp :: "string option"
  cp_rateLimitScope :: "string option"

definition granted :: "auth_method \<Rightarrow> string option \<Rightarrow> GatewayAuthResult" where
  "granted m user = \<lparr>ar_ok = True, ar_method = Some m, ar_user = user, ar_reason = None, ar_rateLimited = False, ar_retryAfterMs = None\<rparr>"

definition refused :: "string \<Rightarrow> GatewayAuthResult" where
  "refused reason = \<lparr>ar_ok = False, ar_method = None, ar_user = None, ar_reason = Some reason, ar_rateLimited = False, ar_retryAfterMs = None\<rparr>"

definition AUTH_RATE_LIMIT_SCOPE_SHARED_SECRET :: string where
  "AUTH_RATE_LIMIT_SCOPE_SHARED_SECRET = ''shared-secret''"

text \<open>The address and the scope under which the limiter keeps the caller.\<close>

definition authIp :: "string list option \<Rightarrow> connect_params \<Rightarrow> string option" where
  "authIp trustedProxies p = orelse (cp_clientIp p)
     (orelse (resolveRequestClientIp (cp_req p) trustedProxies) (Option.bind (cp_req p) im_remoteAddress))"

definition authScope :: "connect_params \<Rightarrow> string option" where
  "authScope p = Some (nullish (cp_rateLimitScope p) AUTH_RATE_LIMIT_SCOPE_SHARED_SECRET)"

text \<open>\<open>limiter?.recordFailure\<close> and \<open>limiter?.reset\<close>.\<close>

definition failOpt :: "rl_config option \<Rightarrow> int \<Rightarrow> string option \<Rightarrow> string option \<Rightarrow> rl_state \<Rightarrow> rl_state" where
  "failOpt limiter now ip scope s = (case limiter of None \<Rightarrow> s | Some cfg \<Rightarrow> recordFailure cfg now ip scope s)"

definition resetOpt :: "rl_config option \<Rightarrow> string option \<Rightarrow> string option \<Rightarrow> rl_state \<Rightarrow> rl_state" where
  "resetOpt limiter ip scope s = (case limiter of None \<Rightarrow> s | Some cfg \<Rightarrow> rl_reset ip scope s)"

text \<open>The first turn: \<open>Inl\<close> is an answer, \<open>Inr b\<close> goes on, and asks for the Tailscale identity when \<open>b\<close>.\<close>

definition authorizeGatewayConnect_begin :: "ResolvedGatewayAuth \<Rightarrow> string list option \<Rightarrow> rl_config option \<Rightarrow> int \<Rightarrow>
    connect_params \<Rightarrow> rl_state \<Rightarrow> (GatewayAuthResult + bool) \<times> rl_state" where
  "authorizeGatewayConnect_begin auth trustedProxies limiter now p s =
     (let localDirect = isLocalDirectRequest (cp_req p) trustedProxies in
      if ra_mode auth = ModeTrustedProxy then
        (case ra_trustedProxy auth of
           None \<Rightarrow> (Inl (refused ''trusted_proxy_config_missing''), s)
         | Some cfg \<Rightarrow>
             if nullish trustedProxies [] = [] then (Inl (refused ''trusted_proxy_no_proxies_configured''), s)
             else (case authorizeTrustedProxy (cp_req p) trustedProxies cfg of
                Inr user \<Rightarrow> (Inl (granted ByTrustedProxy (Some user)), s)
              | Inl reason \<Rightarrow> (Inl (refused reason), s)))
      else if ra_mode auth = ModeNone then (Inl (granted ByNone None), s)
      else
        (let goOn = ra_allowTailscale auth \<and> \<not> localDirect in
         case limiter of
           None \<Rightarrow> (Inr goOn, s)
         | Some cfg \<Rightarrow>
             (let (rlCheck, s1) = rl_check cfg now (authIp trustedProxies p) (authScope p) s in
              if \<not> rl_allowed rlCheck
              then (Inl \<lparr>ar_ok = False, ar_method = None, ar_user = None, ar_reason = Some ''rate_limited'',
                      ar_rateLimited = True, ar_retryAfterMs = Some (retryAfterMs rlCheck)\<rparr>, s1)
              else (Inr goOn, s1))))"

text \<open>A shared secret: absent from the configuration, absent from the request, wrong, right.\<close>

definition checkSecret :: "(string \<Rightarrow> 'h) \<Rightarrow> rl_config option \<Rightarrow> int \<Rightarrow> string option \<Rightarrow> string option \<Rightarrow> string \<Rightarrow> auth_method \<Rightarrow>
    string option \<Rightarrow> string option \<Rightarrow> rl_state \<Rightarrow> GatewayAuthResult \<times> rl_state" where
  "checkSecret hash limiter now ip scope name method expected provided s =
     (if truthy expected = None then (refused (name @ ''_missing_config''), s)
      else if truthy provided = None then (refused (name @ ''_missing''), failOpt limiter now ip scope s)
      else if \<not> safeEqualSecret hash provided expected then (refused (name @ ''_mismatch''), failOpt limiter now ip scope s)
      else (granted method None, resetOpt limiter ip scope s))"

definition authorizeGatewayConnect_finish :: "(string \<Rightarrow> 'h) \<Rightarrow> ResolvedGatewayAuth \<Rightarrow> string list option \<Rightarrow> rl_config option \<Rightarrow> int \<Rightarrow>
    connect_params \<Rightarrow> (string + TailscaleUser) option \<Rightarrow> rl_state \<Rightarrow> GatewayAuthResult \<times> rl_state" where
  "authorizeGatewayConnect_finish hash auth trustedProxies limiter now p tailscaleCheck s =
     (let ip = authIp trustedProxies p; scope = authScope p in
      case tailscaleCheck of
        Some (Inr user) \<Rightarrow> (granted ByTailscale (Some (tu_login user)), resetOpt limiter ip scope s)
      | _ \<Rightarrow>
          (case ra_mode auth of
             ModeToken \<Rightarrow> checkSecret hash limiter now ip scope ''token'' ByToken
               (ra_token auth) (Option.bind (cp_connectAuth p) ca_token) s
           | ModePassword \<Rightarrow> checkSecret hash limiter now ip scope ''password'' ByPassword
               (ra_password auth) (Option.bind (cp_connectAuth p) ca_password) s
           | _ \<Rightarrow> (refused ''unauthorized'', failOpt limiter now ip scope s)))"

text \<open>The whole handler when no other request runs between its turns.\<close>

definition authorizeGatewayConnect :: "(string \<Rightarrow> 'h) \<Rightarrow> (string \<Rightarrow> TailscaleWhoisIdentity option) \<Rightarrow> ResolvedGatewayAuth \<Rightarrow>
    string list option \<Rightarrow> rl_config option \<Rightarrow> int \<Rightarrow> connect_params \<Rightarrow> rl_state \<Rightarrow> GatewayAuthResult \<times> rl_state" where
  "authorizeGatewayConnect hash whois auth trustedProxies limiter now p s =
     (case authorizeGatewayConnect_begin auth trustedProxies limiter now p s of
        (Inl r, s1) \<Rightarrow> (r, s1)
      | (Inr ask, s1) \<Rightarrow> authorizeGatewayConnect_finish hash auth trustedProxies limiter now p
            (if ask then Some (resolveVerifiedTailscaleUser whois (cp_req p)) else None) s1)"

lemmas connect_defs = authorizeGatewayConnect_def authorizeGatewayConnect_begin_def authorizeGatewayConnect_finish_def
  checkSecret_def granted_def refused_def

subsection \<open>Every grant has its reason\<close>

lemma verified_tailscale_user:
  assumes "resolveVerifiedTailscaleUser whois req = Inr u"
  shows "\<exists>r ip w. req = Some r \<and> isLoopbackAddress (im_remoteAddress r) \<and>
    parseForwardedForClientIp (headerValue (header r ''x-forwarded-for'')) = Some ip \<and> whois ip = Some w \<and>
    tu_login u = wi_login w \<and>
    Some (normalizeLogin (wi_login w)) = map_option normalizeLogin (header_text (header r ''tailscale-user-login''))"
  using assms
  by (auto simp: resolveVerifiedTailscaleUser_def getTailscaleUser_def isTailscaleProxyRequest_def resolveTailscaleClientIp_def
      truthy_Some_iff split: option.splits if_splits)

lemma trusted_proxy_user:
  assumes "authorizeTrustedProxy req tps cfg = Inr user"
  shows "\<exists>r. req = Some r \<and> isTrustedProxyAddress (im_remoteAddress r) tps \<and>
    list_all (\<lambda>h. \<not> blank_header r h) (nullish (tp_requiredHeaders cfg) []) \<and>
    map_option trim (headerValue (header r (to_lower (tp_userHeader cfg)))) = Some user \<and> user \<noteq> [] \<and>
    (nullish (tp_allowUsers cfg) [] = [] \<or> user \<in> set (nullish (tp_allowUsers cfg) []))"
proof -
  from assms obtain r where r: "req = Some r" by (auto simp: authorizeTrustedProxy_def split: option.splits)
  with assms have "find (blank_header r) (nullish (tp_requiredHeaders cfg) []) = None" "\<not> blank_header r (tp_userHeader cfg)"
    by (auto simp: authorizeTrustedProxy_def split: option.splits if_splits)
  then have "list_all (\<lambda>h. \<not> blank_header r h) (nullish (tp_requiredHeaders cfg) [])"
    "headerValue (header r (to_lower (tp_userHeader cfg))) \<noteq> None"
    by (auto simp: find_None_iff list_all_iff) (auto simp: blank_header_def split: option.splits)
  with assms r \<open>\<not> blank_header r (tp_userHeader cfg)\<close> show ?thesis
    by (auto simp: authorizeTrustedProxy_def Let_def blank_header_def split: option.splits if_splits)
qed

lemma checkSecret_ok:
  assumes "checkSecret hash lm now ip sc name m expected provided s = (r, s')" "ar_ok r"
  shows "ar_method r = Some m \<and> (\<exists>t e. provided = Some t \<and> t \<noteq> [] \<and> expected = Some e \<and> e \<noteq> [] \<and> hash t = hash e)"
  using assms
  by (auto simp: checkSecret_def granted_def refused_def safeEqualSecret_def truthy_def split: if_splits option.splits)

text \<open>(C6) Every connection the gateway grants has its reason: no authentication only in the mode that asks
  for none; a trusted-proxy user only from a listed proxy that sent every required header and a user
  of the allow list; a Tailscale user only when allowed, over loopback, when the daemon names for the
  forwarded address the login the header claims; a token or a password only when a non-empty secret
  is configured and the digest of the one presented is its digest.\<close>

theorem connect_grant_sound:
  assumes "authorizeGatewayConnect hash whois auth tps lm now p s = (r, s')" and "ar_ok r"
  shows "(ar_method r = Some ByNone \<and> ra_mode auth = ModeNone) \<or>
    (ar_method r = Some ByTrustedProxy \<and> ra_mode auth = ModeTrustedProxy \<and>
      (\<exists>q cfg user. cp_req p = Some q \<and> ra_trustedProxy auth = Some cfg \<and> ar_user r = Some user \<and>
         isTrustedProxyAddress (im_remoteAddress q) tps \<and>
         list_all (\<lambda>h. \<not> blank_header q h) (nullish (tp_requiredHeaders cfg) []) \<and>
         map_option trim (headerValue (header q (to_lower (tp_userHeader cfg)))) = Some user \<and> user \<noteq> [] \<and>
         (nullish (tp_allowUsers cfg) [] = [] \<or> user \<in> set (nullish (tp_allowUsers cfg) [])))) \<or>
    (ar_method r = Some ByTailscale \<and> ra_allowTailscale auth \<and>
      (\<exists>q ip w. cp_req p = Some q \<and> isLoopbackAddress (im_remoteAddress q) \<and>
         parseForwardedForClientIp (headerValue (header q ''x-forwarded-for'')) = Some ip \<and> whois ip = Some w \<and>
         ar_user r = Some (wi_login w) \<and>
         Some (normalizeLogin (wi_login w)) = map_option normalizeLogin (header_text (header q ''tailscale-user-login'')))) \<or>
    (ar_method r = Some ByToken \<and> ra_mode auth = ModeToken \<and>
      (\<exists>t e. Option.bind (cp_connectAuth p) ca_token = Some t \<and> t \<noteq> [] \<and> ra_token auth = Some e \<and> e \<noteq> [] \<and> hash t = hash e)) \<or>
    (ar_method r = Some ByPassword \<and> ra_mode auth = ModePassword \<and>
      (\<exists>t e. Option.bind (cp_connectAuth p) ca_password = Some t \<and> t \<noteq> [] \<and> ra_password auth = Some e \<and> e \<noteq> [] \<and> hash t = hash e))"
proof (cases "authorizeGatewayConnect_begin auth tps lm now p s")
  case (Pair b s1)
  show ?thesis
  proof (cases b)
    case (Inl r0)
    with assms(1) Pair have r: "r0 = r" by (simp add: authorizeGatewayConnect_def)
    from Pair Inl assms(2) r show ?thesis
      by (auto simp: authorizeGatewayConnect_begin_def Let_def granted_def refused_def
          dest!: trusted_proxy_user split: if_splits option.splits sum.splits prod.splits)
  next
    case (Inr ask)
    define ts where "ts = (if ask then Some (resolveVerifiedTailscaleUser whois (cp_req p)) else None)"
    have fin: "authorizeGatewayConnect_finish hash auth tps lm now p ts s1 = (r, s')"
      using assms(1) Pair Inr by (simp add: authorizeGatewayConnect_def ts_def)
    have ask: "ask \<Longrightarrow> ra_allowTailscale auth"
      using Pair Inr by (auto simp: authorizeGatewayConnect_begin_def Let_def split: if_splits option.splits sum.splits prod.splits)
    show ?thesis
    proof (cases "\<exists>u. ts = Some (Inr u)")
      case True
      then obtain u where u: "ts = Some (Inr u)" by blast
      then have "ask" "resolveVerifiedTailscaleUser whois (cp_req p) = Inr u" by (auto simp: ts_def split: if_splits)
      with ask verified_tailscale_user [OF this(2)] fin u show ?thesis
        by (auto simp: authorizeGatewayConnect_finish_def Let_def granted_def)
    next
      case False
      then have "ts = None \<or> (\<exists>e. ts = Some (Inl e))" by (metis option.exhaust sum.exhaust)
      with fin have "(case ra_mode auth of
             ModeToken \<Rightarrow> checkSecret hash lm now (authIp tps p) (authScope p) ''token'' ByToken
               (ra_token auth) (Option.bind (cp_connectAuth p) ca_token) s1
           | ModePassword \<Rightarrow> checkSecret hash lm now (authIp tps p) (authScope p) ''password'' ByPassword
               (ra_password auth) (Option.bind (cp_connectAuth p) ca_password) s1
           | _ \<Rightarrow> (refused ''unauthorized'', failOpt lm now (authIp tps p) (authScope p) s1)) = (r, s')"
        by (auto simp: authorizeGatewayConnect_finish_def Let_def)
      with assms(2) show ?thesis
        by (cases "ra_mode auth") (auto simp: refused_def dest: checkSecret_ok)
    qed
  qed
qed

text \<open>A gateway in token mode without a limiter, and a request that presents the token.\<close>

definition demo_auth :: ResolvedGatewayAuth where
  "demo_auth = resolveGatewayAuth None None (Some ''s3cret'') None None"

definition demo_request :: "string \<Rightarrow> connect_params" where
  "demo_request t = \<lparr>cp_connectAuth = Some \<lparr>ca_token = Some t, ca_password = None\<rparr>,
     cp_req = Some \<lparr>im_remoteAddress = Some ''203.0.113.7'', im_headers = [(''x-forwarded-for'', HStr ''127.0.0.1'')]\<rparr>,
     cp_clientIp = None, cp_rateLimitScope = None\<rparr>"

theorem connect_grant_sound_witness:
  "ra_mode demo_auth = ModeToken \<and>
   (\<exists>t e. Option.bind (cp_connectAuth (demo_request ''s3cret'')) ca_token = Some t \<and> t \<noteq> [] \<and>
      ra_token demo_auth = Some e \<and> e \<noteq> [] \<and> rev t = rev e)"
proof -
  have "authorizeGatewayConnect rev (\<lambda>_. None) demo_auth None None 5 (demo_request ''s3cret'') [] = (granted ByToken None, [])"
    by code_simp
  moreover have "ar_ok (granted ByToken None)" "ar_method (granted ByToken None) = Some ByToken" by code_simp+
  ultimately show ?thesis using connect_grant_sound by fastforce
qed

subsection \<open>An untrusted peer cannot pass for another\<close>

lemma trim_keeps_prefix:
  assumes "q \<noteq> []" "\<not> is_ws (hd q)" "\<not> is_ws (last q)"
  shows "\<exists>u. trim (q @ t) = q @ u"
proof -
  have "dropWhile is_ws (q @ t) = q @ t" using assms(1,2) by (cases q) auto
  moreover have "\<exists>v. dropWhile is_ws (rev t @ rev q) = v @ rev q"
    using assms(1,3) by (cases q rule: rev_cases) (auto simp: dropWhile_append)
  ultimately show ?thesis unfolding trim_def by (metis rev_append rev_rev_ident)
qed

lemma loopback_normalized:
  assumes "isLoopbackAddress (Some a)" "normalizeIp (Some a) = Some m"
  shows "isLoopbackAddress (Some m)"
proof -
  have cases: "starts_with a ''127.'' \<or> a = ''::1'' \<or> starts_with a ''::ffff:127.''"
    using assms(1) by (auto simp: isLoopbackAddress_def starts_with_def split: if_splits)
  have low: "to_lower (x @ y) = to_lower x @ to_lower y" for x y by (simp add: to_lower_def)
  from cases show ?thesis
  proof (elim disjE)
    assume "starts_with a ''127.''"
    then obtain t where "a = ''127.'' @ t" by (auto simp: starts_with_iff)
    moreover have "\<not> is_ws (hd ''127.'')" "\<not> is_ws (last ''127.'')" by code_simp+
    ultimately obtain u where "trim a = ''127.'' @ u" using trim_keeps_prefix [of "''127.''" t] by auto
    moreover have "to_lower ''127.'' = ''127.''" by code_simp
    ultimately have "m = ''127.'' @ to_lower u"
      using assms(2) by (simp add: normalizeIp_def Let_def low normalizeIPv4MappedAddress_def starts_with_def to_lower_def)
    then show ?thesis by (simp add: isLoopbackAddress_def starts_with_def)
  next
    assume "a = ''::1''"
    moreover have "normalizeIp (Some ''::1'') = Some ''::1''" "isLoopbackAddress (Some ''::1'')" by code_simp+
    ultimately show ?thesis using assms(2) by simp
  next
    assume "starts_with a ''::ffff:127.''"
    then obtain t where "a = ''::ffff:127.'' @ t" by (auto simp: starts_with_iff)
    moreover have "\<not> is_ws (hd ''::ffff:127.'')" "\<not> is_ws (last ''::ffff:127.'')" by code_simp+
    ultimately obtain u where "trim a = ''::ffff:127.'' @ u" using trim_keeps_prefix [of "''::ffff:127.''" t] by auto
    moreover have "to_lower ''::ffff:127.'' = ''::ffff:127.''" by code_simp
    ultimately have "m = ''127.'' @ to_lower u"
      using assms(2) by (simp add: normalizeIp_def Let_def low normalizeIPv4MappedAddress_def starts_with_def to_lower_def)
    then show ?thesis by (simp add: isLoopbackAddress_def starts_with_def)
  qed
qed

lemma trusted_by_normal_form:
  "normalizeIp x = normalizeIp y \<Longrightarrow> isTrustedProxyAddress x tps = isTrustedProxyAddress y tps"
  by (simp add: isTrustedProxyAddress_def)

lemma untrusted_client_ip:
  assumes "normalizeIp (im_remoteAddress q) = Some m" "m \<noteq> []" "normalizeIp (Some m) = Some m"
    and "\<not> isTrustedProxyAddress (im_remoteAddress q) tps"
  shows "resolveRequestClientIp (Some q) tps = Some m"
proof -
  from assms(1) obtain a where a: "im_remoteAddress q = Some a" by (cases "im_remoteAddress q") (auto simp: normalizeIp_def)
  have "\<not> isTrustedProxyAddress (Some m) tps"
    using assms trusted_by_normal_form [of "Some m" "im_remoteAddress q"] by simp
  with assms a show ?thesis by (simp add: resolveRequestClientIp_def resolveGatewayClientIp_def truthy_def)
qed

text \<open>An untrusted peer cannot pass for another: for a peer that is neither a listed proxy nor on the
  loopback interface, whatever headers it sends, its client address is its own socket address, it is
  not a local direct request, the limiter counts it under its own address, and it is never granted
  a Tailscale or a trusted-proxy identity.\<close>

theorem untrusted_peer_not_spoofed:
  assumes "normalizeIp (im_remoteAddress q) = Some m" "m \<noteq> []" "normalizeIp (Some m) = Some m"
    and "\<not> isLoopbackAddress (Some m)" and "\<not> isTrustedProxyAddress (im_remoteAddress q) tps"
    and "cp_req p = Some q" and "cp_clientIp p = None"
  shows "resolveRequestClientIp (Some q) tps = Some m \<and> \<not> isLocalDirectRequest (Some q) tps \<and> authIp tps p = Some m \<and>
    (ar_ok r \<and> authorizeGatewayConnect hash whois auth tps lm now p s = (r, s') \<longrightarrow>
       ar_method r \<noteq> Some ByTailscale \<and> ar_method r \<noteq> Some ByTrustedProxy)"
proof -
  note ip = untrusted_client_ip [OF assms(1-3,5)]
  have "im_remoteAddress q \<noteq> None" using assms(1) by (auto simp: normalizeIp_def split: option.splits)
  then have nl: "\<not> isLoopbackAddress (im_remoteAddress q)" using loopback_normalized assms(1,4) by auto
  have "\<not> isTailscaleProxyRequest (Some q)" using nl by (simp add: isTailscaleProxyRequest_def)
  then have ts: "resolveVerifiedTailscaleUser whois (Some q) \<noteq> Inr u" for u
    by (auto simp: resolveVerifiedTailscaleUser_def split: option.splits)
  have tp: "authorizeTrustedProxy (Some q) tps cfg \<noteq> Inr u" for cfg u
    using assms(5) by (auto simp: authorizeTrustedProxy_def)
  have "ar_method r \<noteq> Some ByTailscale \<and> ar_method r \<noteq> Some ByTrustedProxy"
    if "authorizeGatewayConnect hash whois auth tps lm now p s = (r, s')" using that ts tp assms(6)
    by (auto simp: connect_defs Let_def split: if_splits option.splits sum.splits prod.splits GatewayAuthMode.splits)
  with ip assms show ?thesis by (auto simp: isLocalDirectRequest_def authIp_def)
qed

theorem untrusted_peer_not_spoofed_witness:
  "resolveRequestClientIp (cp_req (demo_request ''x'')) (Some [''10.0.0.0/8'']) = Some ''203.0.113.7'' \<and>
   \<not> isLocalDirectRequest (cp_req (demo_request ''x'')) (Some [''10.0.0.0/8'']) \<and>
   authIp (Some [''10.0.0.0/8'']) (demo_request ''x'') = Some ''203.0.113.7''"
proof -
  let ?q = "\<lparr>im_remoteAddress = Some ''203.0.113.7'', im_headers = [(''x-forwarded-for'', HStr ''127.0.0.1'')]\<rparr>"
  have q: "cp_req (demo_request ''x'') = Some ?q" "cp_clientIp (demo_request ''x'') = None" by (simp_all add: demo_request_def)
  have n: "normalizeIp (im_remoteAddress ?q) = Some ''203.0.113.7''" by code_simp
  have i: "normalizeIp (Some ''203.0.113.7'') = Some ''203.0.113.7''" by code_simp
  have l: "\<not> isLoopbackAddress (Some ''203.0.113.7'')" by code_simp
  have t: "\<not> isTrustedProxyAddress (im_remoteAddress ?q) (Some [''10.0.0.0/8''])" by code_simp
  show ?thesis
    using untrusted_peer_not_spoofed [OF n _ i l t q, of "granted ByNone None" rev "\<lambda>_. None" demo_auth None 0 "[]" "[]"]
    unfolding q by blast
qed

subsection \<open>The number of guesses\<close>

text \<open>
  The limiter key of an attempt, and the turns of the event loop: a request arrives and runs up to its answer or to the question to the
  Tailscale daemon; the daemon answers one of the waiting requests, which then runs to its end; the pruning timer fires. Turns of
  different requests come in any order. Requests are numbered; what a turn leaves to see is the request it answers.
\<close>

definition authKey :: "string list option \<Rightarrow> connect_params \<Rightarrow> string" where
  "authKey tps p = fst (resolveKey (authIp tps p) (authScope p))"

datatype connect_turn = is_Arrives: Arrives nat int connect_params | DaemonAnswers nat int "string + TailscaleUser" | Prunes int

record connect_state =
  cs_limiter :: rl_state
  cs_waiting :: "(nat \<times> connect_params) list"

definition connect_exec :: "(string \<Rightarrow> 'h) \<Rightarrow> ResolvedGatewayAuth \<Rightarrow> string list option \<Rightarrow> rl_config option \<Rightarrow> connect_turn \<Rightarrow>
    connect_state \<Rightarrow> connect_state \<times> (connect_params \<times> GatewayAuthResult) list" where
  "connect_exec hash auth tps lm x st = (case x of
     Arrives i now p \<Rightarrow>
       (case authorizeGatewayConnect_begin auth tps lm now p (cs_limiter st) of
          (Inl r, s1) \<Rightarrow> (st\<lparr>cs_limiter := s1\<rparr>, [(p, r)])
        | (Inr ask, s1) \<Rightarrow>
            if ask then (st\<lparr>cs_limiter := s1, cs_waiting := cs_waiting st @ [(i, p)]\<rparr>, [])
            else (let (r, s2) = authorizeGatewayConnect_finish hash auth tps lm now p None s1 in (st\<lparr>cs_limiter := s2\<rparr>, [(p, r)])))
   | DaemonAnswers i now answer \<Rightarrow>
       (case map_of (cs_waiting st) i of
          None \<Rightarrow> (st, [])
        | Some p \<Rightarrow>
            (let (r, s2) = authorizeGatewayConnect_finish hash auth tps lm now p (Some answer) (cs_limiter st)
             in (st\<lparr>cs_limiter := s2, cs_waiting := remove1 (i, p) (cs_waiting st)\<rparr>, [(p, r)])))
   | Prunes now \<Rightarrow> (st\<lparr>cs_limiter := (case lm of None \<Rightarrow> cs_limiter st | Some cfg \<Rightarrow> prune cfg now (cs_limiter st))\<rparr>, []))"

definition turn_time :: "connect_turn \<Rightarrow> int" where
  "turn_time x = (case x of Arrives i now p \<Rightarrow> now | DaemonAnswers i now answer \<Rightarrow> now | Prunes now \<Rightarrow> now)"

text \<open>The requests of a key whose question to the daemon is open.\<close>

definition waiting :: "string list option \<Rightarrow> string \<Rightarrow> connect_state \<Rightarrow> nat" where
  "waiting tps k st = length (filter (\<lambda>(i, p). authKey tps p = k) (cs_waiting st))"

definition wrong_guess :: "GatewayAuthResult \<Rightarrow> bool" where
  "wrong_guess r \<longleftrightarrow> ar_reason r = Some ''token_mismatch'' \<or> ar_reason r = Some ''password_mismatch''"

text \<open>What the limiter holds for a key after \<open>n\<close> wrong guesses since \<open>t0\<close>; once it is locked there have been at most \<open>B\<close>.\<close>

definition guess_inv :: "rl_config \<Rightarrow> int \<Rightarrow> int \<Rightarrow> string \<Rightarrow> nat \<Rightarrow> rl_state \<Rightarrow> bool" where
  "guess_inv cfg B t0 k n s = (case map_of s k of
     None \<Rightarrow> n = 0
   | Some e \<Rightarrow>
       (case lockedUntil e of
          None \<Rightarrow> n \<le> length (attempts e) \<and> int (length (attempts e)) < maxAttempts cfg \<and> list_all ((\<le>) t0) (attempts e)
        | Some u \<Rightarrow> u \<noteq> 0 \<and> t0 + lockoutMs cfg \<le> u \<and> int n \<le> B))"

text \<open>A clock reading less than one window and one lockout after \<open>t0\<close>.\<close>

definition in_period :: "rl_config \<Rightarrow> int \<Rightarrow> int \<Rightarrow> bool" where
  "in_period cfg t0 now \<longleftrightarrow> 0 < t0 \<and> t0 \<le> now \<and> now < t0 + windowMs cfg \<and> now < t0 + lockoutMs cfg"

lemma slide_in_window:
  assumes "in_period cfg t0 now" "list_all ((\<le>) t0) (attempts e)"
  shows "slideWindow cfg e now = e"
proof -
  have "filter (\<lambda>ts. now - windowMs cfg < ts) (attempts e) = attempts e"
    using assms by (auto simp: filter_id_conv list_all_iff in_period_def)
  then show ?thesis by (simp add: slideWindow_def)
qed

lemma guess_inv_check:
  assumes "in_period cfg t0 now" "guess_inv cfg B t0 k n s"
  shows "guess_inv cfg B t0 k n (snd (rl_check cfg now ip sc s))"
proof (cases "k = fst (resolveKey ip sc)")
  case True
  with assms slide_in_window [OF assms(1)] show ?thesis
    by (auto simp: guess_inv_def rl_check_def Let_def lockedAt_def lockSet_def in_period_def
        split: prod.splits option.splits)
qed (use assms in \<open>simp add: guess_inv_def map_of_check_other\<close>)

lemma allowed_unlocked:
  assumes "in_period cfg t0 now" "guess_inv cfg B t0 k n s" "resolveKey ip sc = (k, a)" "\<not> isExempt cfg a"
    and "rl_allowed (fst (rl_check cfg now ip sc s))" "map_of (snd (rl_check cfg now ip sc s)) k = Some e"
  shows "lockedUntil e = None"
  using assms
  by (auto simp: guess_inv_def rl_check_def Let_def lockedAt_def lockSet_def in_period_def slideWindow_def
      split: option.splits)

lemma guess_inv_fail:
  assumes "in_period cfg t0 now" "guess_inv cfg B t0 k n s" "resolveKey ip sc = (k, a)" "\<not> isExempt cfg a"
    and "1 \<le> maxAttempts cfg" "maxAttempts cfg \<le> B" "\<And>e. map_of s k = Some e \<Longrightarrow> lockedUntil e = None"
  shows "guess_inv cfg B t0 k (Suc n) (recordFailure cfg now ip sc s)"
proof (cases "map_of s k")
  case None
  with assms(1-6) show ?thesis
    by (auto simp: guess_inv_def recordFailure_def Let_def lockedAt_def slideWindow_def in_period_def)
next
  case (Some e)
  with assms(1-6) assms(7) [OF Some] slide_in_window [OF assms(1), of e] show ?thesis
    by (auto simp: guess_inv_def recordFailure_def Let_def lockedAt_def in_period_def)
qed

text \<open>A request that had passed the check before the lock fails after it.\<close>

lemma guess_inv_late_fail:
  assumes "in_period cfg t0 now" "guess_inv cfg B t0 k n s" "resolveKey ip sc = (k, a)" "\<not> isExempt cfg a"
    and "1 \<le> maxAttempts cfg" "maxAttempts cfg \<le> B + 1"
  shows "guess_inv cfg (B + 1) t0 k (Suc n) (recordFailure cfg now ip sc s)"
proof (cases "\<exists>e u. map_of s k = Some e \<and> lockedUntil e = Some u")
  case True
  with assms(1-4) show ?thesis
    by (auto simp: guess_inv_def recordFailure_def Let_def lockedAt_def in_period_def)
next
  case False
  have "guess_inv cfg (B + 1) t0 k n s" using assms(2) by (auto simp: guess_inv_def split: option.splits)
  from guess_inv_fail [OF assms(1) this assms(3-6)] False show ?thesis by force
qed

lemma guess_inv_weaken: "guess_inv cfg B t0 k n s \<Longrightarrow> B \<le> B' \<Longrightarrow> guess_inv cfg B' t0 k n s"
  by (auto simp: guess_inv_def split: option.splits)

lemma guess_inv_mono: "guess_inv cfg B t0 k (Suc n) s \<Longrightarrow> guess_inv cfg B t0 k n s"
  by (auto simp: guess_inv_def split: option.splits)

lemma guess_inv_cong: "map_of s' k = map_of s k \<Longrightarrow> guess_inv cfg B t0 k n s' = guess_inv cfg B t0 k n s"
  by (simp add: guess_inv_def)

text \<open>What one connection attempt does to the limiter: nothing beyond the check, one failure
  recorded after a check that allowed the attempt, or a success.\<close>

lemma proxy_reason_not_guess:
  "authorizeTrustedProxy req tps cfg = Inl reason \<Longrightarrow> \<not> wrong_guess (refused reason)"
  by (auto simp: authorizeTrustedProxy_def wrong_guess_def refused_def Let_def split: option.splits if_splits)

lemma begin_answer_not_guess:
  assumes "authorizeGatewayConnect_begin auth tps (Some cfg) now p s = (Inl r, s1)"
  shows "\<not> wrong_guess r \<and> (s1 = s \<or> s1 = snd (rl_check cfg now (authIp tps p) (authScope p) s))"
  using assms proxy_reason_not_guess
  by (auto simp: authorizeGatewayConnect_begin_def Let_def split: if_splits option.splits sum.splits prod.splits)
    (auto simp: wrong_guess_def refused_def granted_def)

lemma begin_goes_on:
  assumes "authorizeGatewayConnect_begin auth tps (Some cfg) now p s = (Inr ask, s1)"
  shows "s1 = snd (rl_check cfg now (authIp tps p) (authScope p) s) \<and>
    rl_allowed (fst (rl_check cfg now (authIp tps p) (authScope p) s))"
  using assms
  by (auto simp: authorizeGatewayConnect_begin_def Let_def split: if_splits option.splits sum.splits prod.splits)

lemma checkSecret_effect:
  assumes "checkSecret hash (Some cfg) now ip sc name m expected provided s = (r, s')" "\<not> ar_ok r"
  shows "(r = refused (name @ ''_missing_config'') \<and> s' = s) \<or> s' = recordFailure cfg now ip sc s"
  using assms by (auto simp: checkSecret_def granted_def failOpt_def split: if_splits)

lemma secret_reasons:
  assumes "truthy expected \<noteq> None"
  shows "ar_reason (fst (checkSecret hash lm now ip sc name m expected provided s)) \<in>
    {None, Some (name @ ''_missing''), Some (name @ ''_mismatch'')}"
  using assms by (simp add: checkSecret_def granted_def refused_def)

lemma finish_effect:
  assumes "authorizeGatewayConnect_finish hash auth tps (Some cfg) now p ts s1 = (r, s')" "\<not> ar_ok r"
  shows "(\<not> wrong_guess r \<and> s' = s1) \<or> s' = recordFailure cfg now (authIp tps p) (authScope p) s1"
  using assms
  by (auto simp: authorizeGatewayConnect_finish_def Let_def granted_def failOpt_def wrong_guess_def refused_def
      dest!: checkSecret_effect split: option.splits sum.splits GatewayAuthMode.splits)

lemma finish_states:
  assumes "authorizeGatewayConnect_finish hash auth tps (Some cfg) now p ts s1 = (r, s')"
  shows "s' = s1 \<or> s' = recordFailure cfg now (authIp tps p) (authScope p) s1 \<or> s' = rl_reset (authIp tps p) (authScope p) s1"
proof -
  have sec: "snd (checkSecret hash (Some cfg) now ip sc name m e pr s1) = s1 \<or>
      snd (checkSecret hash (Some cfg) now ip sc name m e pr s1) = recordFailure cfg now ip sc s1 \<or>
      snd (checkSecret hash (Some cfg) now ip sc name m e pr s1) = rl_reset ip sc s1" for ip sc name m e pr
    by (simp add: checkSecret_def failOpt_def resetOpt_def)
  have "s' = snd (authorizeGatewayConnect_finish hash auth tps (Some cfg) now p ts s1)" using assms by simp
  then show ?thesis using sec
    by (cases "\<exists>u. ts = Some (Inr u)"; cases "ra_mode auth")
      (auto simp: authorizeGatewayConnect_finish_def Let_def failOpt_def resetOpt_def split: option.splits sum.splits)
qed

lemma distinct_connect:
  assumes "distinct (keys s)"
  shows "distinct (keys (snd (rl_check cfg now ip sc s)))" "distinct (keys (recordFailure cfg now ip sc s))"
    "distinct (keys (rl_reset ip sc s))"
  using distinct_rl_exec [OF assms, of cfg "(now, CheckOp ip sc)"] distinct_rl_exec [OF assms, of cfg "(now, FailOp ip sc)"]
    distinct_rl_exec [OF assms, of cfg "(now, ResetKeyOp ip sc)"]
  by simp_all

text \<open>The pruning timer leaves what the limiter holds for a caller within the period.\<close>

lemma guess_inv_prune:
  assumes "in_period cfg t0 now" "distinct (keys s)" "guess_inv cfg B t0 k n s"
  shows "guess_inv cfg B t0 k n (prune cfg now s)"
  using assms(3) slide_in_window [OF assms(1)] assms(1)
  by (auto simp: guess_inv_def map_of_prune [OF assms(2)] lockedAt_def in_period_def split: option.splits)

lemma guess_inv_bound: "guess_inv cfg B t0 k n s \<Longrightarrow> maxAttempts cfg \<le> B \<Longrightarrow> 1 \<le> maxAttempts cfg \<Longrightarrow> int n \<le> B"
  by (auto simp: guess_inv_def split: option.splits)

lemma guess_inv_unlocked:
  "guess_inv cfg B t0 k n s \<Longrightarrow> (\<And>e. map_of s k = Some e \<Longrightarrow> lockedUntil e = None) \<Longrightarrow> guess_inv cfg B' t0 k n s"
  by (cases "map_of s k") (auto simp: guess_inv_def)

text \<open>The account of a caller: how many of its requests wait for the daemon, all of them of a caller that is not exempt,
  and what the limiter holds after \<open>n\<close> wrong guesses.\<close>

definition account :: "rl_config \<Rightarrow> string list option \<Rightarrow> nat \<Rightarrow> int \<Rightarrow> string \<Rightarrow> nat \<Rightarrow> connect_state \<Rightarrow> bool" where
  "account cfg tps F t0 k n st \<longleftrightarrow> distinct (keys (cs_limiter st)) \<and>
     guess_inv cfg (maxAttempts cfg + int F - int (waiting tps k st)) t0 k n (cs_limiter st) \<and>
     (\<forall>(i, p) \<in> set (cs_waiting st). authKey tps p = k \<longrightarrow> \<not> isExempt cfg (snd (resolveKey (authIp tps p) (authScope p))))"

definition guesses :: "string list option \<Rightarrow> string \<Rightarrow> (connect_params \<times> GatewayAuthResult) list \<Rightarrow> nat" where
  "guesses tps k evs = length (filter (\<lambda>(p, r). authKey tps p = k \<and> wrong_guess r) evs)"

lemma waiting_remove:
  "(i, p) \<in> set (cs_waiting st) \<Longrightarrow>
   waiting tps k (st\<lparr>cs_limiter := s, cs_waiting := remove1 (i, p) (cs_waiting st)\<rparr>) = waiting tps k st - (if authKey tps p = k then 1 else 0)"
  by (auto simp: waiting_def filter_remove1 length_remove1)

lemma waiting_positive: "(i, p) \<in> set (cs_waiting st) \<Longrightarrow> authKey tps p = k \<Longrightarrow> 0 < waiting tps k st"
  by (auto simp: waiting_def filter_empty_conv)

lemma authKey_cases:
  obtains a where "resolveKey (authIp tps p) (authScope p) = (authKey tps p, a)"
  unfolding authKey_def by (metis prod.collapse)

text \<open>The end of a request: of another key it changes nothing, of this key it records at most one failure.\<close>

lemma finish_other_key:
  assumes "authorizeGatewayConnect_finish hash auth tps (Some cfg) now p ts s = (r, s')" "authKey tps p \<noteq> k"
  shows "map_of s' k = map_of s k"
  using finish_states [OF assms(1)] assms(2) by (auto simp: authKey_def map_of_fail_other map_of_reset)

lemma finish_distinct:
  assumes "authorizeGatewayConnect_finish hash auth tps (Some cfg) now p ts s = (r, s')" "distinct (keys s)"
  shows "distinct (keys s')"
  using finish_states [OF assms(1)] distinct_connect [OF assms(2)] assms(2) by auto

lemma finish_guess:
  assumes "authorizeGatewayConnect_finish hash auth tps (Some cfg) now p ts s = (r, s')" "\<not> ar_ok r"
    and "guess_inv cfg B t0 k n s" "B \<le> B'" "guess_inv cfg B' t0 k (Suc n) (recordFailure cfg now (authIp tps p) (authScope p) s)"
  shows "guess_inv cfg B' t0 k (if wrong_guess r then Suc n else n) s'"
  using finish_effect [OF assms(1,2)] assms(5) guess_inv_weaken [OF assms(3,4)] guess_inv_mono [OF assms(5)] by auto

lemma arrives_account:
  assumes x: "connect_exec hash auth tps (Some cfg) (Arrives i now p) st = (st', evs)"
    and per: "in_period cfg t0 now" and m: "1 \<le> maxAttempts cfg" and w: "waiting tps k st \<le> F"
    and acc: "account cfg tps F t0 k n st" and nok: "\<forall>(q, r) \<in> set evs. authKey tps q = k \<longrightarrow> \<not> ar_ok r"
    and ne: "authKey tps p = k \<Longrightarrow> \<not> isExempt cfg (snd (resolveKey (authIp tps p) (authScope p)))"
  shows "account cfg tps F t0 k (n + guesses tps k evs) st'"
proof -
  let ?B = "maxAttempts cfg + int F - int (waiting tps k st)"
  let ?c = "rl_check cfg now (authIp tps p) (authScope p) (cs_limiter st)"
  have d: "distinct (keys (cs_limiter st))" and g: "guess_inv cfg ?B t0 k n (cs_limiter st)"
    and wt: "\<forall>(i, p) \<in> set (cs_waiting st). authKey tps p = k \<longrightarrow> \<not> isExempt cfg (snd (resolveKey (authIp tps p) (authScope p)))"
    using acc by (auto simp: account_def)
  have c: "guess_inv cfg ?B t0 k n (snd ?c)" by (rule guess_inv_check [OF per g])
  obtain b s1 where b: "authorizeGatewayConnect_begin auth tps (Some cfg) now p (cs_limiter st) = (b, s1)" by fastforce
  show ?thesis
  proof (cases b)
    case (Inl r)
    with b have "\<not> wrong_guess r \<and> (s1 = cs_limiter st \<or> s1 = snd ?c)" using begin_answer_not_guess by simp
    moreover have "st' = st\<lparr>cs_limiter := s1\<rparr>" "evs = [(p, r)]" using x b Inl by (simp_all add: connect_exec_def)
    ultimately show ?thesis using d g c wt distinct_connect(1) [OF d] by (auto simp: account_def guesses_def waiting_def)
  next
    case (Inr ask)
    with b have s1: "s1 = snd ?c" and al: "rl_allowed (fst ?c)" using begin_goes_on by blast+
    have free: "lockedUntil e = None" if "authKey tps p = k" "map_of s1 k = Some e" for e
      using that s1 al by (metis allowed_unlocked [OF per g] authKey_cases ne snd_conv)
    show ?thesis
    proof (cases ask)
      case True
      then have st': "st' = st\<lparr>cs_limiter := s1, cs_waiting := cs_waiting st @ [(i, p)]\<rparr>" and "evs = []"
        using x b Inr by (simp_all add: connect_exec_def)
      moreover have "guess_inv cfg (maxAttempts cfg + int F - int (waiting tps k st')) t0 k n s1"
      proof (cases "authKey tps p = k")
        case True
        show ?thesis using guess_inv_unlocked [OF c] free [OF True] s1 by blast
      next
        case False
        then have "waiting tps k st' = waiting tps k st" by (simp add: st' waiting_def)
        with c s1 show ?thesis by simp
      qed
      ultimately show ?thesis using wt ne distinct_connect(1) [OF d] s1 by (auto simp: account_def guesses_def)
    next
      case False
      obtain r s2 where f: "authorizeGatewayConnect_finish hash auth tps (Some cfg) now p None s1 = (r, s2)" by fastforce
      with x b Inr False have st': "st' = st\<lparr>cs_limiter := s2\<rparr>" and evs: "evs = [(p, r)]" by (simp_all add: connect_exec_def)
      have "guess_inv cfg ?B t0 k (n + guesses tps k evs) s2"
      proof (cases "authKey tps p = k")
        case True
        obtain a where rk: "resolveKey (authIp tps p) (authScope p) = (k, a)" using authKey_cases True by metis
        have "guess_inv cfg ?B t0 k (Suc n) (recordFailure cfg now (authIp tps p) (authScope p) s1)"
          using guess_inv_fail [OF per c rk] ne [OF True] rk m w free [OF True] s1 by auto
        with finish_guess [OF f _ c [folded s1] order_refl] nok True evs show ?thesis by (auto simp: guesses_def)
      next
        case False
        with c s1 guess_inv_cong [OF finish_other_key [OF f False]] evs show ?thesis by (simp add: guesses_def)
      qed
      then show ?thesis using d wt finish_distinct [OF f] distinct_connect(1) [OF d] s1 st' by (auto simp: account_def waiting_def)
    qed
  qed
qed

lemma answers_account:
  assumes x: "connect_exec hash auth tps (Some cfg) (DaemonAnswers i now answer) st = (st', evs)"
    and per: "in_period cfg t0 now" and m: "1 \<le> maxAttempts cfg" and w: "waiting tps k st \<le> F"
    and acc: "account cfg tps F t0 k n st" and nok: "\<forall>(q, r) \<in> set evs. authKey tps q = k \<longrightarrow> \<not> ar_ok r"
  shows "account cfg tps F t0 k (n + guesses tps k evs) st'"
proof (cases "map_of (cs_waiting st) i")
  case None
  with x acc show ?thesis by (simp add: connect_exec_def guesses_def)
next
  case (Some p)
  then have mem: "(i, p) \<in> set (cs_waiting st)" by (rule map_of_SomeD)
  let ?B = "maxAttempts cfg + int F - int (waiting tps k st)"
  have d: "distinct (keys (cs_limiter st))" and g: "guess_inv cfg ?B t0 k n (cs_limiter st)"
    and wt: "\<forall>(i, p) \<in> set (cs_waiting st). authKey tps p = k \<longrightarrow> \<not> isExempt cfg (snd (resolveKey (authIp tps p) (authScope p)))"
    using acc by (auto simp: account_def)
  obtain r s2 where f: "authorizeGatewayConnect_finish hash auth tps (Some cfg) now p (Some answer) (cs_limiter st) = (r, s2)" by fastforce
  with x Some have st': "st' = st\<lparr>cs_limiter := s2, cs_waiting := remove1 (i, p) (cs_waiting st)\<rparr>" and evs: "evs = [(p, r)]"
    by (simp_all add: connect_exec_def)
  have "guess_inv cfg (maxAttempts cfg + int F - int (waiting tps k st')) t0 k (n + guesses tps k evs) s2"
  proof (cases "authKey tps p = k")
    case True
    obtain a where rk: "resolveKey (authIp tps p) (authScope p) = (k, a)" using authKey_cases True by metis
    have w': "maxAttempts cfg + int F - int (waiting tps k st') = ?B + 1"
      using waiting_remove [OF mem, of tps k] waiting_positive [OF mem True] True st' by simp
    have nx: "\<not> isExempt cfg a" using wt mem True rk by force
    have "guess_inv cfg (?B + 1) t0 k (Suc n) (recordFailure cfg now (authIp tps p) (authScope p) (cs_limiter st))"
      using guess_inv_late_fail [OF per g rk nx m] w by simp
    with finish_guess [OF f _ g, of "?B + 1"] nok True evs show ?thesis unfolding w' by (auto simp: guesses_def)
  next
    case False
    then have "waiting tps k st' = waiting tps k st" using waiting_remove [OF mem, of tps k] st' by simp
    with False g guess_inv_cong [OF finish_other_key [OF f False]] evs show ?thesis by (simp add: guesses_def)
  qed
  moreover have "set (cs_waiting st') \<subseteq> set (cs_waiting st)" using set_remove1_subset [of "(i, p)" "cs_waiting st"] by (simp add: st')
  ultimately show ?thesis using wt finish_distinct [OF f d] st' by (auto simp: account_def)
qed

lemma turn_account:
  assumes "connect_exec hash auth tps (Some cfg) x st = (st', evs)"
    and "in_period cfg t0 (turn_time x)" "1 \<le> maxAttempts cfg" "waiting tps k st \<le> F"
    and "account cfg tps F t0 k n st" "\<forall>(q, r) \<in> set evs. authKey tps q = k \<longrightarrow> \<not> ar_ok r"
    and "\<And>i now p. x = Arrives i now p \<Longrightarrow> authKey tps p = k \<Longrightarrow> \<not> isExempt cfg (snd (resolveKey (authIp tps p) (authScope p)))"
  shows "account cfg tps F t0 k (n + guesses tps k evs) st'"
proof (cases x)
  case (Arrives i now p)
  then show ?thesis using arrives_account [OF assms(1) [unfolded Arrives] _ assms(3-6) assms(7)] assms(2) by (simp add: turn_time_def)
next
  case (DaemonAnswers i now answer)
  then show ?thesis using answers_account [OF assms(1) [unfolded DaemonAnswers] _ assms(3-6)] assms(2) by (simp add: turn_time_def)
next
  case (Prunes now)
  with assms(1) have st': "st' = st\<lparr>cs_limiter := prune cfg now (cs_limiter st)\<rparr>" "evs = []" by (simp_all add: connect_exec_def)
  have "in_period cfg t0 now" using assms(2) Prunes by (simp add: turn_time_def)
  with assms(5) guess_inv_prune show ?thesis by (auto simp: account_def st' guesses_def waiting_def distinct_prune)
qed

lemma run_account:
  assumes "\<forall>x \<in> set xs. in_period cfg t0 (turn_time x)" "1 \<le> maxAttempts cfg"
    and "\<And>ys. prefix ys xs \<Longrightarrow> waiting tps k (fst (run_ops (connect_exec hash auth tps (Some cfg)) ys st)) \<le> F"
    and "account cfg tps F t0 k 0 st"
    and "\<forall>(p, r) \<in> set (snd (run_ops (connect_exec hash auth tps (Some cfg)) xs st)). authKey tps p = k \<longrightarrow> \<not> ar_ok r"
    and "\<And>i now p. Arrives i now p \<in> set xs \<Longrightarrow> authKey tps p = k \<Longrightarrow>
      \<not> isExempt cfg (snd (resolveKey (authIp tps p) (authScope p)))"
  shows "account cfg tps F t0 k (guesses tps k (snd (run_ops (connect_exec hash auth tps (Some cfg)) xs st)))
    (fst (run_ops (connect_exec hash auth tps (Some cfg)) xs st))"
  using assms
proof (induction xs rule: rev_induct)
  case Nil
  then show ?case by (simp add: guesses_def)
next
  case (snoc x xs)
  let ?E = "connect_exec hash auth tps (Some cfg)"
  obtain s1 e1 where 1: "run_ops ?E xs st = (s1, e1)" by fastforce
  obtain s2 e2 where 2: "?E x s1 = (s2, e2)" by fastforce
  have run: "run_ops ?E (xs @ [x]) st = (s2, e1 @ e2)" by (simp add: run_ops_append 1 2)
  have "account cfg tps F t0 k (guesses tps k e1) s1"
  proof -
    have "account cfg tps F t0 k (guesses tps k (snd (run_ops ?E xs st))) (fst (run_ops ?E xs st))"
    proof (rule snoc.IH)
      show "waiting tps k (fst (run_ops ?E ys st)) \<le> F" if "prefix ys xs" for ys
        using snoc.prems(3) that by simp
      show "\<forall>(p, r) \<in> set (snd (run_ops ?E xs st)). authKey tps p = k \<longrightarrow> \<not> ar_ok r"
        using snoc.prems(5) run 1 by simp
      show "\<not> isExempt cfg (snd (resolveKey (authIp tps p) (authScope p)))" if "Arrives i now p \<in> set xs" "authKey tps p = k" for i now p
        using snoc.prems(6) [of i now p] that by simp
    qed (use snoc.prems(1,2,4) in simp_all)
    with 1 show ?thesis by simp
  qed
  moreover have "waiting tps k s1 \<le> F" using snoc.prems(3) [of xs] 1 by simp
  ultimately have "account cfg tps F t0 k (guesses tps k e1 + guesses tps k e2) s2"
    using snoc.prems(1,2,5,6) run by (intro turn_account [OF 2]) auto
  then show ?case by (simp add: run guesses_def)
qed

text \<open>No more requests wait than have arrived; without Tailscale none ever does.\<close>

lemma waiting_le_arrivals:
  assumes "cs_waiting st = []" "prefix ys xs"
  shows "waiting tps k (fst (run_ops (connect_exec hash auth tps lm) ys st)) \<le> length (filter is_Arrives xs)"
proof -
  let ?E = "connect_exec hash auth tps lm"
  have turn: "length (cs_waiting (fst (?E x s))) \<le> length (cs_waiting s) + (if is_Arrives x then 1 else 0)" for x s
    by (cases x) (auto simp: connect_exec_def length_remove1 Let_def split: option.splits prod.splits sum.splits)
  have "length (cs_waiting (fst (run_ops ?E ys st))) \<le> length (filter is_Arrives ys)"
  proof (induction ys rule: rev_induct)
    case (snoc x ys)
    then show ?case using turn [of x "fst (run_ops ?E ys st)"] by (simp add: run_ops_append Let_def case_prod_beta split: if_splits)
  qed (simp add: assms(1))
  moreover have "waiting tps k s \<le> length (cs_waiting s)" for s by (simp add: waiting_def)
  moreover have "length (filter is_Arrives ys) \<le> length (filter is_Arrives xs)" using assms(2) by (auto simp: prefix_def)
  ultimately show ?thesis by (meson le_trans)
qed

lemma no_tailscale_no_wait:
  assumes "\<not> ra_allowTailscale auth" "cs_waiting st = []"
  shows "cs_waiting (fst (run_ops (connect_exec hash auth tps lm) xs st)) = []"
proof -
  have "cs_waiting (fst (connect_exec hash auth tps lm x s)) = []" if "cs_waiting s = []" for x s
    using assms(1) that
    by (auto simp: connect_exec_def authorizeGatewayConnect_begin_def Let_def split: connect_turn.splits option.splits prod.splits sum.splits if_splits)
  then show ?thesis using run_ops_inv [of "\<lambda>s. cs_waiting s = []" xs "connect_exec hash auth tps lm" st] assms(2)
    by (metis fst_conv prod.collapse)
qed

text \<open>(C5) Guessing is bounded. Let requests of any callers, answers of the Tailscale daemon and prunings of the limiter come in any
  order within one window and one lockout. A caller that starts unknown to the limiter, is not exempt and never presents the
  right credentials has at most the configured number of wrong tokens or passwords compared when no Tailscale
  check is asked for, and in general at most as many more as it has requests waiting for the daemon at one
  time: those passed the limiter before their guess was counted.\<close>

theorem guesses_bounded:
  assumes "\<forall>x \<in> set xs. in_period cfg t0 (turn_time x)" and "1 \<le> maxAttempts cfg"
    and "distinct (keys (cs_limiter st))" "map_of (cs_limiter st) k = None" "cs_waiting st = []"
    and "\<forall>i now p. Arrives i now p \<in> set xs \<and> authKey tps p = k \<longrightarrow>
       \<not> isExempt cfg (snd (resolveKey (authIp tps p) (authScope p)))"
    and "\<forall>(p, r) \<in> set (snd (run_ops (connect_exec hash auth tps (Some cfg)) xs st)). authKey tps p = k \<longrightarrow> \<not> ar_ok r"
    and "\<forall>ys. prefix ys xs \<longrightarrow> waiting tps k (fst (run_ops (connect_exec hash auth tps (Some cfg)) ys st)) \<le> F"
  shows "int (guesses tps k (snd (run_ops (connect_exec hash auth tps (Some cfg)) xs st))) \<le> maxAttempts cfg + int F \<and>
    (\<not> ra_allowTailscale auth \<longrightarrow>
      int (guesses tps k (snd (run_ops (connect_exec hash auth tps (Some cfg)) xs st))) \<le> maxAttempts cfg)"
proof -
  let ?E = "connect_exec hash auth tps (Some cfg)"
  have start: "account cfg tps G t0 k 0 st" for G using assms(3-5) by (simp add: account_def guess_inv_def)
  have bound: "int (guesses tps k (snd (run_ops ?E xs st))) \<le> maxAttempts cfg + int G"
    if G: "\<And>ys. prefix ys xs \<Longrightarrow> waiting tps k (fst (run_ops ?E ys st)) \<le> G" for G
    using run_account [OF assms(1,2) G start assms(7)] assms(2,6) G [of xs] guess_inv_bound
    by (fastforce simp: account_def)
  have "waiting tps k (fst (run_ops ?E ys st)) \<le> 0" if "\<not> ra_allowTailscale auth" for ys
    using no_tailscale_no_wait [OF that assms(5), of hash tps "Some cfg" ys] by (simp add: waiting_def)
  with bound [of F] bound [of 0] assms(8) show ?thesis by auto
qed

text \<open>With Tailscale allowed, three requests sent at once are all compared although two are the configured number:
  each passes the limiter before the first failure is recorded.\<close>

definition tailscale_auth :: ResolvedGatewayAuth where
  "tailscale_auth = demo_auth\<lparr>ra_allowTailscale := True\<rparr>"

definition burst :: "connect_turn list" where
  "burst = [Arrives 1 1000 (demo_request ''a''), Arrives 2 1001 (demo_request ''b''), Arrives 3 1002 (demo_request ''c''),
     DaemonAnswers 1 1003 (Inl ''tailscale_user_missing''), DaemonAnswers 3 1004 (Inl ''tailscale_user_missing''),
     DaemonAnswers 2 1005 (Inl ''tailscale_user_missing''), Arrives 4 1006 (demo_request ''d'')]"

lemma parallel_guesses_pass:
  "map (\<lambda>(p, r). ar_reason r) (snd (run_ops (connect_exec rev tailscale_auth None (Some demo_rl)) burst \<lparr>cs_limiter = [], cs_waiting = []\<rparr>))
   = [Some ''token_mismatch'', Some ''token_mismatch'', Some ''token_mismatch'', Some ''rate_limited'']"
  by code_simp

theorem guesses_bounded_witness:
  "int (guesses None ''shared-secret:203.0.113.7''
     (snd (run_ops (connect_exec rev tailscale_auth None (Some demo_rl)) burst \<lparr>cs_limiter = [], cs_waiting = []\<rparr>))) \<le> 2 + 4"
proof -
  let ?st = "\<lparr>cs_limiter = [], cs_waiting = []\<rparr>"
  let ?E = "connect_exec rev tailscale_auth None (Some demo_rl)"
  let ?k = "''shared-secret:203.0.113.7''"
  have "list_all (\<lambda>x. in_period demo_rl 1000 (turn_time x)) burst" by code_simp
  then have a: "\<forall>x \<in> set burst. in_period demo_rl 1000 (turn_time x)" unfolding list_all_iff .
  have m: "1 \<le> maxAttempts demo_rl" "maxAttempts demo_rl = 2" by code_simp+
  have "list_all (\<lambda>x. case x of Arrives i now p \<Rightarrow> \<not> isExempt demo_rl (snd (resolveKey (authIp None p) (authScope p))) | _ \<Rightarrow> True) burst"
    by code_simp
  then have e: "\<forall>i now p. Arrives i now p \<in> set burst \<and> authKey None p = ?k \<longrightarrow>
      \<not> isExempt demo_rl (snd (resolveKey (authIp None p) (authScope p)))"
    unfolding list_all_iff by force
  have "list_all (\<lambda>x. \<not> ar_ok (snd x)) (snd (run_ops ?E burst ?st))" by code_simp
  then have b: "\<forall>(p, r) \<in> set (snd (run_ops ?E burst ?st)). authKey None p = ?k \<longrightarrow> \<not> ar_ok r"
    unfolding list_all_iff case_prod_beta by blast
  have "length (filter is_Arrives burst) = 4" by code_simp
  then have f: "\<forall>ys. prefix ys burst \<longrightarrow> waiting None ?k (fst (run_ops ?E ys ?st)) \<le> 4"
    using waiting_le_arrivals [of ?st] by (metis connect_state.select_convs(2))
  show ?thesis using guesses_bounded [OF a m(1) _ _ _ e b f] m(2) by simp
qed

text \<open>Without Tailscale the third of those guesses is refused before it is compared.\<close>

lemma third_guess_refused:
  "map (\<lambda>(p, r). ar_reason r) (snd (run_ops (connect_exec rev demo_auth None (Some demo_rl)) burst \<lparr>cs_limiter = [], cs_waiting = []\<rparr>))
   = [Some ''token_mismatch'', Some ''token_mismatch'', Some ''rate_limited'', Some ''rate_limited'']"
  by code_simp

text \<open>Nothing is open by default: authentication is off only when the configuration or the override
  says so by name, and a configuration that passes the start-up assertion never refuses for want of
  a configured secret or proxy, except a token mode that relies on Tailscale alone.\<close>

theorem auth_never_open_by_default:
  "(ra_mode (resolveGatewayAuth cfg ov envToken envPassword ts) = ModeNone \<longrightarrow>
     Option.bind ov ac_mode = Some ModeNone \<or> Option.bind cfg ac_mode = Some ModeNone) \<and>
   (assertGatewayAuthConfigured auth = None \<and> \<not> (ra_mode auth = ModeToken \<and> ra_allowTailscale auth) \<longrightarrow>
     ar_reason (fst (authorizeGatewayConnect hash whois auth tps lm now p s)) \<noteq> Some ''token_missing_config'' \<and>
     ar_reason (fst (authorizeGatewayConnect hash whois auth tps lm now p s)) \<noteq> Some ''password_missing_config'' \<and>
     ar_reason (fst (authorizeGatewayConnect hash whois auth tps lm now p s)) \<noteq> Some ''trusted_proxy_config_missing'')"
proof -
  have m: "ra_mode (resolveGatewayAuth cfg ov envToken envPassword ts) = ModeNone \<Longrightarrow>
     Option.bind ov ac_mode = Some ModeNone \<or> Option.bind cfg ac_mode = Some ModeNone"
    by (cases cfg; cases ov)
      (auto simp: resolveGatewayAuth_def overrideAuthConfig_def emptyAuthConfig_def Let_def split: option.splits if_splits)
  have tp: "authorizeTrustedProxy q tps c = Inl x \<Longrightarrow> x \<noteq> ''token_missing_config'' \<and> x \<noteq> ''password_missing_config''
      \<and> x \<noteq> ''trusted_proxy_config_missing''" for q c x
    by (auto simp: authorizeTrustedProxy_def Let_def split: option.splits if_splits)
  let ?bad = "\<lambda>r. ar_reason r = Some ''token_missing_config'' \<or> ar_reason r = Some ''password_missing_config'' \<or>
      ar_reason r = Some ''trusted_proxy_config_missing''"
  have "\<not> ?bad (fst (authorizeGatewayConnect hash whois auth tps lm now p s))"
    if ok: "assertGatewayAuthConfigured auth = None" "\<not> (ra_mode auth = ModeToken \<and> ra_allowTailscale auth)"
  proof (cases "authorizeGatewayConnect_begin auth tps lm now p s")
    case (Pair b s1)
    show ?thesis
    proof (cases b)
      case (Inl r)
      then have "\<not> ?bad r" using Pair ok(1)
        by (auto simp: authorizeGatewayConnect_begin_def assertGatewayAuthConfigured_def Let_def refused_def granted_def
            dest!: tp split: if_splits option.splits sum.splits prod.splits)
      with Inl Pair show ?thesis by (simp add: authorizeGatewayConnect_def)
    next
      case (Inr ask)
      have "\<not> ?bad (fst (authorizeGatewayConnect_finish hash auth tps lm now p tc s1))" for tc
      proof (cases "\<exists>u. tc = Some (Inr u)")
        case True
        then show ?thesis by (auto simp: authorizeGatewayConnect_finish_def granted_def)
      next
        case False
        then have "tc = None \<or> (\<exists>e. tc = Some (Inl e))" by (metis option.exhaust sum.exhaust)
        moreover have "ra_mode auth = ModeToken \<Longrightarrow> truthy (ra_token auth) \<noteq> None"
          "ra_mode auth = ModePassword \<Longrightarrow> truthy (ra_password auth) \<noteq> None"
          using ok by (auto simp: assertGatewayAuthConfigured_def split: if_splits)
        ultimately show ?thesis
          using secret_reasons [of "ra_token auth" hash lm now "authIp tps p" "authScope p" "''token''" ByToken "Option.bind (cp_connectAuth p) ca_token" s1]
            secret_reasons [of "ra_password auth" hash lm now "authIp tps p" "authScope p" "''password''" ByPassword "Option.bind (cp_connectAuth p) ca_password" s1]
          by (cases "ra_mode auth") (auto simp: authorizeGatewayConnect_finish_def refused_def)
      qed
      with Inr Pair show ?thesis by (simp add: authorizeGatewayConnect_def)
    qed
  qed
  with m show ?thesis by blast
qed

theorem auth_never_open_by_default_witness:
  "Option.bind (Some (emptyAuthConfig\<lparr>ac_mode := Some ModeNone\<rparr>)) ac_mode = Some ModeNone \<and>
   assertGatewayAuthConfigured demo_auth = None \<and>
   ar_reason (fst (authorizeGatewayConnect rev (\<lambda>_. None) demo_auth None None 5 (demo_request ''x'') [])) \<noteq> Some ''token_missing_config''"
proof -
  let ?c = "Some (emptyAuthConfig\<lparr>ac_mode := Some ModeNone\<rparr>)"
  have "ra_mode (resolveGatewayAuth ?c None None None None) = ModeNone" by code_simp
  moreover have "assertGatewayAuthConfigured demo_auth = None" "\<not> ra_allowTailscale demo_auth" by code_simp+
  ultimately show ?thesis
    using auth_never_open_by_default [of ?c None None None None demo_auth rev "\<lambda>_. None" None None 5 "demo_request ''x''" "[]"]
    by simp
qed

end
