(* ===== verification/Device_Pairing.thy ===== *)
theory Device_Pairing
  imports Simulation Method_Scopes Gateway_Auth "HOL-Library.List_Lexorder" "HOL-Library.Char_ord"
begin

section \<open>Paired devices and their tokens (infra/device-pairing.ts, infra/pairing-files.ts)\<close>

text \<open>
  The registry of pairing requests, paired devices and device tokens. The state is what the two
  files hold; every operation runs under the module's lock, so it is one step: it loads the
  files (dropping requests older than five minutes, at clock reading \<open>t\<close>), changes them (at
  clock reading \<open>now\<close>) and writes both, or returns early and writes nothing. The random request
  id and token an operation draws are its arguments \<open>rid\<close> and \<open>tok\<close>; the digest that
  compares tokens is \<open>hash\<close>. The objects \<open>pendingById\<close>, \<open>pairedByDeviceId\<close> and \<open>tokens\<close> are
  insertion-ordered maps; keys that name properties of \<open>Object.prototype\<close> are outside the model.
\<close>

declare map_of_eq_Some_iff [simp del] Some_eq_map_of_iff [simp del]

record DevicePairingPendingRequest =
  pr_requestId :: string
  pr_deviceId :: string
  pr_publicKey :: string
  pr_displayName :: "string option"
  pr_platform :: "string option"
  pr_clientId :: "string option"
  pr_clientMode :: "string option"
  pr_role :: "string option"
  pr_roles :: "string list option"
  pr_scopes :: "string list option"
  pr_remoteIp :: "string option"
  pr_silent :: "bool option"
  pr_isRepair :: bool
  pr_ts :: int

text \<open>The request as a client makes it: without id, time and repair flag.\<close>

record pairing_input =
  pi_deviceId :: string
  pi_publicKey :: string
  pi_displayName :: "string option"
  pi_platform :: "string option"
  pi_clientId :: "string option"
  pi_clientMode :: "string option"
  pi_role :: "string option"
  pi_scopes :: "string list option"
  pi_remoteIp :: "string option"
  pi_silent :: "bool option"

record DeviceAuthToken =
  dt_token :: string
  dt_role :: string
  dt_scopes :: "string list"
  dt_createdAtMs :: int
  dt_rotatedAtMs :: "int option"
  dt_revokedAtMs :: "int option"
  dt_lastUsedAtMs :: "int option"

record PairedDevice =
  dv_deviceId :: string
  dv_publicKey :: string
  dv_displayName :: "string option"
  dv_platform :: "string option"
  dv_clientId :: "string option"
  dv_clientMode :: "string option"
  dv_role :: "string option"
  dv_roles :: "string list option"
  dv_scopes :: "string list option"
  dv_remoteIp :: "string option"
  dv_tokens :: "(string \<times> DeviceAuthToken) list option"
  dv_createdAtMs :: int
  dv_approvedAtMs :: int

record pairing_state =
  pendingById :: "(string \<times> DevicePairingPendingRequest) list"
  pairedByDeviceId :: "(string \<times> PairedDevice) list"

definition PENDING_TTL_MS :: int where
  "PENDING_TTL_MS = 5 * 60 * 1000"

subsection \<open>Loading\<close>

definition pruneExpiredPending :: "('r \<Rightarrow> int) \<Rightarrow> int \<Rightarrow> int \<Rightarrow> (string \<times> 'r) list \<Rightarrow> (string \<times> 'r) list" where
  "pruneExpiredPending ts nowMs ttlMs pending = filter (\<lambda>(_, req). \<not> (ttlMs < nowMs - ts req)) pending"

text \<open>A file that is missing or does not parse reads as an empty object.\<close>

definition readState :: "(string \<times> DevicePairingPendingRequest) list option \<Rightarrow> (string \<times> PairedDevice) list option \<Rightarrow> pairing_state" where
  "readState pending paired = \<lparr>pendingById = nullish pending [], pairedByDeviceId = nullish paired []\<rparr>"

definition loadState :: "int \<Rightarrow> pairing_state \<Rightarrow> pairing_state" where
  "loadState t st = st\<lparr>pendingById := pruneExpiredPending pr_ts t PENDING_TTL_MS (pendingById st)\<rparr>"

subsection \<open>Normal forms\<close>

definition normalizeDeviceId :: "string \<Rightarrow> string" where
  "normalizeDeviceId deviceId = trim deviceId"

definition normalizeRole :: "string option \<Rightarrow> string option" where
  "normalizeRole role = truthy (map_option trim role)"

text \<open>The trimmed non-empty words of several optional lists, each once.\<close>

definition mergeScopes :: "string list option list \<Rightarrow> string list option" where
  "mergeScopes items =
     (let scopes = set_of_list (filter (\<lambda>s. s \<noteq> []) (map trim (concat (map (\<lambda>i. nullish i []) items))))
      in if scopes = [] then None else Some scopes)"

text \<open>A role given as a string counts as a list of one.\<close>

abbreviation role_item :: "string option \<Rightarrow> string list option" where
  "role_item r \<equiv> map_option (\<lambda>x. [x]) r"

definition mergeRoles :: "string list option list \<Rightarrow> string list option" where
  "mergeRoles items = mergeScopes items"

text \<open>\<open>[...new Set(scopes)].toSorted()\<close>: the default order is by code units.\<close>

definition normalizeDeviceAuthScopes :: "string list option \<Rightarrow> string list" where
  "normalizeDeviceAuthScopes scopes = (case scopes of None \<Rightarrow> []
     | Some xs \<Rightarrow> sort (set_of_list (filter (\<lambda>s. s \<noteq> []) (map trim xs))))"

definition mergePendingDevicePairingRequest ::
    "int \<Rightarrow> DevicePairingPendingRequest \<Rightarrow> pairing_input \<Rightarrow> bool \<Rightarrow> DevicePairingPendingRequest" where
  "mergePendingDevicePairingRequest now ex inc isRepair =
     ex\<lparr>pr_displayName := orelse (pi_displayName inc) (pr_displayName ex),
        pr_platform := orelse (pi_platform inc) (pr_platform ex),
        pr_clientId := orelse (pi_clientId inc) (pr_clientId ex),
        pr_clientMode := orelse (pi_clientMode inc) (pr_clientMode ex),
        pr_role := orelse (normalizeRole (pr_role ex)) (normalizeRole (pi_role inc)),
        pr_roles := mergeRoles [pr_roles ex, role_item (pr_role ex), role_item (pi_role inc)],
        pr_scopes := mergeScopes [pr_scopes ex, pi_scopes inc],
        pr_remoteIp := orelse (pi_remoteIp inc) (pr_remoteIp ex),
        pr_silent := Some (pr_silent ex = Some True \<and> pi_silent inc = Some True),
        pr_isRepair := (pr_isRepair ex \<or> isRepair),
        pr_ts := now\<rparr>"

definition getPairedDeviceFromState :: "pairing_state \<Rightarrow> string \<Rightarrow> PairedDevice option" where
  "getPairedDeviceFromState st deviceId = map_of (pairedByDeviceId st) (normalizeDeviceId deviceId)"

definition cloneDeviceTokens :: "PairedDevice \<Rightarrow> (string \<times> DeviceAuthToken) list" where
  "cloneDeviceTokens device = nullish (dv_tokens device) []"

definition buildDeviceAuthToken ::
    "string \<Rightarrow> string \<Rightarrow> string list \<Rightarrow> DeviceAuthToken option \<Rightarrow> int \<Rightarrow> int option \<Rightarrow> DeviceAuthToken" where
  "buildDeviceAuthToken tok role scopes ex now rotatedAtMs =
     \<lparr>dt_token = tok, dt_role = role, dt_scopes = scopes,
      dt_createdAtMs = nullish (map_option dt_createdAtMs ex) now, dt_rotatedAtMs = rotatedAtMs,
      dt_revokedAtMs = None, dt_lastUsedAtMs = Option.bind ex dt_lastUsedAtMs\<rparr>"

text \<open>\<open>entry.revokedAtMs\<close> as a condition.\<close>

definition revoked :: "DeviceAuthToken \<Rightarrow> bool" where
  "revoked entry = (case dt_revokedAtMs entry of None \<Rightarrow> False | Some ts \<Rightarrow> ts \<noteq> 0)"

definition verifyPairingToken :: "(string \<Rightarrow> 'h) \<Rightarrow> string \<Rightarrow> string \<Rightarrow> bool" where
  "verifyPairingToken hash provided expected = safeEqualSecret hash (Some provided) (Some expected)"

subsection \<open>Requests\<close>

definition listDevicePairing :: "int \<Rightarrow> pairing_state \<Rightarrow> DevicePairingPendingRequest list \<times> PairedDevice list" where
  "listDevicePairing t st =
     (let s = loadState t st
      in (sort_key (\<lambda>r. - pr_ts r) (map snd (pendingById s)), sort_key (\<lambda>d. - dv_approvedAtMs d) (map snd (pairedByDeviceId s))))"

definition getPairedDevice :: "int \<Rightarrow> string \<Rightarrow> pairing_state \<Rightarrow> PairedDevice option" where
  "getPairedDevice t deviceId st = map_of (pairedByDeviceId (loadState t st)) (normalizeDeviceId deviceId)"

text \<open>The request of a device that already waits is merged into the waiting one.\<close>

definition upsertPending :: "string \<Rightarrow> int \<Rightarrow> pairing_input \<Rightarrow> string \<Rightarrow> bool \<Rightarrow> (string \<times> DevicePairingPendingRequest) list \<Rightarrow>
    (string \<times> DevicePairingPendingRequest) list \<times> DevicePairingPendingRequest \<times> bool" where
  "upsertPending rid now req deviceId isRepair pending =
     (case find (\<lambda>p. pr_deviceId p = deviceId) (map snd pending) of
        Some ex \<Rightarrow>
          (let merged = mergePendingDevicePairingRequest now ex req isRepair
           in (AList.update (pr_requestId ex) merged pending, merged, False))
      | None \<Rightarrow>
          (let request = \<lparr>pr_requestId = rid, pr_deviceId = deviceId, pr_publicKey = pi_publicKey req,
                 pr_displayName = pi_displayName req, pr_platform = pi_platform req, pr_clientId = pi_clientId req,
                 pr_clientMode = pi_clientMode req, pr_role = pi_role req,
                 pr_roles = role_item (truthy (pi_role req)), pr_scopes = pi_scopes req,
                 pr_remoteIp = pi_remoteIp req, pr_silent = pi_silent req, pr_isRepair = isRepair, pr_ts = now\<rparr>
           in (AList.update rid request pending, request, True)))"

definition requestDevicePairing :: "string \<Rightarrow> int \<Rightarrow> int \<Rightarrow> pairing_input \<Rightarrow> pairing_state \<Rightarrow>
    pairing_state \<times> (string + DevicePairingPendingRequest \<times> bool)" where
  "requestDevicePairing rid t now req st0 =
     (let st = loadState t st0; deviceId = normalizeDeviceId (pi_deviceId req) in
      if deviceId = [] then (st0, Inl ''deviceId required'')
      else
        (let isRepair = (map_of (pairedByDeviceId st) deviceId \<noteq> None);
             (pending, request, created) = upsertPending rid now req deviceId isRepair (pendingById st)
         in (st\<lparr>pendingById := pending\<rparr>, Inr (request, created))))"

definition approvedDevice :: "string \<Rightarrow> int \<Rightarrow> DevicePairingPendingRequest \<Rightarrow> PairedDevice option \<Rightarrow> PairedDevice" where
  "approvedDevice tok now pending ex =
     (let tokens = nullish (Option.bind ex dv_tokens) [];
          tokens' = (case normalizeRole (pr_role pending) of
             None \<Rightarrow> tokens
           | Some role \<Rightarrow>
               (let existingToken = map_of tokens role
                in AList.update role (buildDeviceAuthToken tok role (normalizeDeviceAuthScopes (pr_scopes pending)) existingToken now
                     (if existingToken \<noteq> None then Some now else None)) tokens))
      in \<lparr>dv_deviceId = pr_deviceId pending, dv_publicKey = pr_publicKey pending, dv_displayName = pr_displayName pending,
          dv_platform = pr_platform pending, dv_clientId = pr_clientId pending, dv_clientMode = pr_clientMode pending,
          dv_role = pr_role pending,
          dv_roles = mergeRoles [Option.bind ex dv_roles, role_item (Option.bind ex dv_role), pr_roles pending, role_item (pr_role pending)],
          dv_scopes = mergeScopes [Option.bind ex dv_scopes, pr_scopes pending], dv_remoteIp = pr_remoteIp pending,
          dv_tokens = Some tokens', dv_createdAtMs = nullish (map_option dv_createdAtMs ex) now, dv_approvedAtMs = now\<rparr>)"

definition approveDevicePairing :: "string \<Rightarrow> int \<Rightarrow> int \<Rightarrow> string \<Rightarrow> pairing_state \<Rightarrow> pairing_state \<times> PairedDevice option" where
  "approveDevicePairing tok t now requestId st0 =
     (let st = loadState t st0 in
      case map_of (pendingById st) requestId of
        None \<Rightarrow> (st0, None)
      | Some pending \<Rightarrow>
          (let device = approvedDevice tok now pending (map_of (pairedByDeviceId st) (pr_deviceId pending))
           in (\<lparr>pendingById = AList.delete requestId (pendingById st),
                pairedByDeviceId = AList.update (dv_deviceId device) device (pairedByDeviceId st)\<rparr>, Some device)))"

definition rejectDevicePairing :: "int \<Rightarrow> string \<Rightarrow> pairing_state \<Rightarrow> pairing_state \<times> string option" where
  "rejectDevicePairing t requestId st0 =
     (let st = loadState t st0 in
      case map_of (pendingById st) requestId of
        None \<Rightarrow> (st0, None)
      | Some pending \<Rightarrow> (st\<lparr>pendingById := AList.delete requestId (pendingById st)\<rparr>, Some (pr_deviceId pending)))"

subsection \<open>Paired devices\<close>

definition removePairedDevice :: "int \<Rightarrow> string \<Rightarrow> pairing_state \<Rightarrow> pairing_state \<times> string option" where
  "removePairedDevice t deviceId st0 =
     (let st = loadState t st0; normalized = normalizeDeviceId deviceId in
      if normalized = [] \<or> map_of (pairedByDeviceId st) normalized = None then (st0, None)
      else (st\<lparr>pairedByDeviceId := AList.delete normalized (pairedByDeviceId st)\<rparr>, Some normalized))"

text \<open>A patch: \<open>None\<close> is a key that is absent, \<open>Some None\<close> a key present with \<open>undefined\<close>.\<close>

record device_patch =
  pt_publicKey :: "string option"
  pt_displayName :: "string option option"
  pt_platform :: "string option option"
  pt_clientId :: "string option option"
  pt_clientMode :: "string option option"
  pt_role :: "string option"
  pt_scopes :: "string list option"
  pt_remoteIp :: "string option option"
  pt_tokens :: "(string \<times> DeviceAuthToken) list option option"

definition patchedDevice :: "device_patch \<Rightarrow> PairedDevice \<Rightarrow> PairedDevice" where
  "patchedDevice patch ex =
     ex\<lparr>dv_publicKey := nullish (pt_publicKey patch) (dv_publicKey ex),
        dv_displayName := nullish (pt_displayName patch) (dv_displayName ex),
        dv_platform := nullish (pt_platform patch) (dv_platform ex),
        dv_clientId := nullish (pt_clientId patch) (dv_clientId ex),
        dv_clientMode := nullish (pt_clientMode patch) (dv_clientMode ex),
        dv_remoteIp := nullish (pt_remoteIp patch) (dv_remoteIp ex),
        dv_tokens := nullish (pt_tokens patch) (dv_tokens ex),
        dv_role := orelse (pt_role patch) (dv_role ex),
        dv_roles := mergeRoles [dv_roles ex, role_item (dv_role ex), role_item (pt_role patch)],
        dv_scopes := mergeScopes [dv_scopes ex, pt_scopes patch]\<rparr>"

definition updatePairedDeviceMetadata :: "int \<Rightarrow> string \<Rightarrow> device_patch \<Rightarrow> pairing_state \<Rightarrow> pairing_state" where
  "updatePairedDeviceMetadata t deviceId patch st0 =
     (let st = loadState t st0 in
      case map_of (pairedByDeviceId st) (normalizeDeviceId deviceId) of
        None \<Rightarrow> st0
      | Some ex \<Rightarrow> st\<lparr>pairedByDeviceId := AList.update deviceId (patchedDevice patch ex) (pairedByDeviceId st)\<rparr>)"

subsection \<open>Tokens\<close>

record DeviceAuthTokenSummary =
  ts_role :: string
  ts_scopes :: "string list"
  ts_createdAtMs :: int
  ts_rotatedAtMs :: "int option"
  ts_revokedAtMs :: "int option"
  ts_lastUsedAtMs :: "int option"

text \<open>A stable insertion sort by a comparison (\<open>localeCompare\<close> is the argument).\<close>

fun insort_by :: "('a \<Rightarrow> 'a \<Rightarrow> bool) \<Rightarrow> 'a \<Rightarrow> 'a list \<Rightarrow> 'a list" where
  "insort_by le x [] = [x]"
| "insort_by le x (y # ys) = (if le x y then x # y # ys else y # insort_by le x ys)"

definition summarizeDeviceTokens :: "(string \<Rightarrow> string \<Rightarrow> bool) \<Rightarrow> (string \<times> DeviceAuthToken) list option \<Rightarrow>
    DeviceAuthTokenSummary list option" where
  "summarizeDeviceTokens le tokens = (case tokens of None \<Rightarrow> None
     | Some ts \<Rightarrow>
         (let summaries = foldr (insort_by (\<lambda>a b. le (ts_role a) (ts_role b)))
             (map (\<lambda>(_, t). \<lparr>ts_role = dt_role t, ts_scopes = dt_scopes t, ts_createdAtMs = dt_createdAtMs t,
                ts_rotatedAtMs = dt_rotatedAtMs t, ts_revokedAtMs = dt_revokedAtMs t, ts_lastUsedAtMs = dt_lastUsedAtMs t\<rparr>) ts) []
          in if summaries = [] then None else Some summaries))"

text \<open>\<open>state.pairedByDeviceId[device.deviceId] = device\<close> with new tokens.\<close>

definition putTokens :: "PairedDevice \<Rightarrow> (string \<times> DeviceAuthToken) list \<Rightarrow> pairing_state \<Rightarrow> pairing_state" where
  "putTokens device tokens st =
     st\<lparr>pairedByDeviceId := AList.update (dv_deviceId device) (device\<lparr>dv_tokens := Some tokens\<rparr>) (pairedByDeviceId st)\<rparr>"

definition verifyDeviceToken :: "(string \<Rightarrow> 'h) \<Rightarrow> int \<Rightarrow> int \<Rightarrow> string \<Rightarrow> string \<Rightarrow> string \<Rightarrow> string list \<Rightarrow> pairing_state \<Rightarrow>
    pairing_state \<times> string option" where
  "verifyDeviceToken hash t now deviceId token roleName scopes st0 =
     (let st = loadState t st0 in
      case getPairedDeviceFromState st deviceId of
        None \<Rightarrow> (st0, Some ''device-not-paired'')
      | Some device \<Rightarrow>
          (case normalizeRole (Some roleName) of
             None \<Rightarrow> (st0, Some ''role-missing'')
           | Some role \<Rightarrow>
               (case map_of (nullish (dv_tokens device) []) role of
                  None \<Rightarrow> (st0, Some ''token-missing'')
                | Some entry \<Rightarrow>
                    if revoked entry then (st0, Some ''token-revoked'')
                    else if \<not> verifyPairingToken hash token (dt_token entry) then (st0, Some ''token-mismatch'')
                    else if \<not> roleScopesAllow role (normalizeDeviceAuthScopes (Some scopes)) (dt_scopes entry)
                    then (st0, Some ''scope-mismatch'')
                    else (putTokens device (AList.update role (entry\<lparr>dt_lastUsedAtMs := Some now\<rparr>) (nullish (dv_tokens device) [])) st,
                          None))))"

definition resolveDeviceTokenUpdateContext :: "pairing_state \<Rightarrow> string \<Rightarrow> string \<Rightarrow>
    (PairedDevice \<times> string \<times> (string \<times> DeviceAuthToken) list \<times> DeviceAuthToken option) option" where
  "resolveDeviceTokenUpdateContext st deviceId roleName =
     (case getPairedDeviceFromState st deviceId of
        None \<Rightarrow> None
      | Some device \<Rightarrow>
          (case normalizeRole (Some roleName) of
             None \<Rightarrow> None
           | Some role \<Rightarrow> Some (device, role, cloneDeviceTokens device, map_of (cloneDeviceTokens device) role)))"

definition ensureDeviceToken :: "string \<Rightarrow> int \<Rightarrow> int \<Rightarrow> string \<Rightarrow> string \<Rightarrow> string list \<Rightarrow> pairing_state \<Rightarrow>
    pairing_state \<times> DeviceAuthToken option" where
  "ensureDeviceToken tok t now deviceId roleName scopes st0 =
     (let st = loadState t st0; requestedScopes = normalizeDeviceAuthScopes (Some scopes) in
      case resolveDeviceTokenUpdateContext st deviceId roleName of
        None \<Rightarrow> (st0, None)
      | Some (device, role, tokens, ex) \<Rightarrow>
          (case ex of
             Some e \<Rightarrow>
               if \<not> revoked e \<and> roleScopesAllow role requestedScopes (dt_scopes e) then (st0, Some e)
               else (let next = buildDeviceAuthToken tok role requestedScopes ex now (Some now)
                     in (putTokens device (AList.update role next tokens) st, Some next))
           | None \<Rightarrow> (let next = buildDeviceAuthToken tok role requestedScopes ex now None
                     in (putTokens device (AList.update role next tokens) st, Some next))))"

definition rotateDeviceToken :: "string \<Rightarrow> int \<Rightarrow> int \<Rightarrow> string \<Rightarrow> string \<Rightarrow> string list option \<Rightarrow> pairing_state \<Rightarrow>
    pairing_state \<times> DeviceAuthToken option" where
  "rotateDeviceToken tok t now deviceId roleName scopes st0 =
     (let st = loadState t st0 in
      case resolveDeviceTokenUpdateContext st deviceId roleName of
        None \<Rightarrow> (st0, None)
      | Some (device, role, tokens, ex) \<Rightarrow>
          (let requestedScopes = normalizeDeviceAuthScopes
                 (orelse scopes (orelse (map_option dt_scopes ex) (dv_scopes device)));
               next = buildDeviceAuthToken tok role requestedScopes ex now (Some now);
               device' = (if scopes \<noteq> None then device\<lparr>dv_scopes := Some requestedScopes\<rparr> else device)
           in (putTokens device' (AList.update role next tokens) st, Some next)))"

definition revokeDeviceToken :: "int \<Rightarrow> int \<Rightarrow> string \<Rightarrow> string \<Rightarrow> pairing_state \<Rightarrow> pairing_state \<times> DeviceAuthToken option" where
  "revokeDeviceToken t now deviceId roleName st0 =
     (let st = loadState t st0 in
      case map_of (pairedByDeviceId st) (normalizeDeviceId deviceId) of
        None \<Rightarrow> (st0, None)
      | Some device \<Rightarrow>
          (case normalizeRole (Some roleName) of
             None \<Rightarrow> (st0, None)
           | Some role \<Rightarrow>
               (case map_of (nullish (dv_tokens device) []) role of
                  None \<Rightarrow> (st0, None)
                | Some e \<Rightarrow>
                    (let entry = e\<lparr>dt_revokedAtMs := Some now\<rparr>
                     in (putTokens device (AList.update role entry (nullish (dv_tokens device) [])) st, Some entry)))))"

section \<open>The registry as a token table\<close>

text \<open>Every operation, with the clock readings and the random words it draws.\<close>

datatype dp_op =
    RequestOp string int int pairing_input
  | ApproveOp string int int string
  | RejectOp int string
  | RemoveOp int string
  | UpdateOp int string device_patch
  | VerifyOp int int string string string "string list"
  | EnsureOp string int int string string "string list"
  | RotateOp string int int string string "string list option"
  | RevokeOp int int string string

text \<open>What the caller learns, without metadata and time stamps.\<close>

datatype dp_answer =
    Requested bool | RequestError string
  | Approved string | Rejected string | Removed string | Updated
  | Verified "string option"
  | Issued string "string list" | Revoked string
  | NullAnswer

definition tokenAnswer :: "DeviceAuthToken option \<Rightarrow> dp_answer" where
  "tokenAnswer r = (case r of None \<Rightarrow> NullAnswer | Some e \<Rightarrow> Issued (dt_token e) (dt_scopes e))"

fun dp_exec :: "(string \<Rightarrow> 'h) \<Rightarrow> dp_op \<Rightarrow> pairing_state \<Rightarrow> pairing_state \<times> dp_answer list" where
  "dp_exec hash (RequestOp rid t now req) st =
     (case requestDevicePairing rid t now req st of (st', Inl e) \<Rightarrow> (st', [RequestError e]) | (st', Inr (_, new)) \<Rightarrow> (st', [Requested new]))"
| "dp_exec hash (ApproveOp tok t now i) st =
     (case approveDevicePairing tok t now i st of (st', None) \<Rightarrow> (st', [NullAnswer]) | (st', Some d) \<Rightarrow> (st', [Approved (dv_deviceId d)]))"
| "dp_exec hash (RejectOp t i) st =
     (case rejectDevicePairing t i st of (st', None) \<Rightarrow> (st', [NullAnswer]) | (st', Some d) \<Rightarrow> (st', [Rejected d]))"
| "dp_exec hash (RemoveOp t d) st =
     (case removePairedDevice t d st of (st', None) \<Rightarrow> (st', [NullAnswer]) | (st', Some x) \<Rightarrow> (st', [Removed x]))"
| "dp_exec hash (UpdateOp t d patch) st = (updatePairedDeviceMetadata t d patch st, [Updated])"
| "dp_exec hash (VerifyOp t now d tk r sc) st = (case verifyDeviceToken hash t now d tk r sc st of (st', x) \<Rightarrow> (st', [Verified x]))"
| "dp_exec hash (EnsureOp tok t now d r sc) st = (case ensureDeviceToken tok t now d r sc st of (st', x) \<Rightarrow> (st', [tokenAnswer x]))"
| "dp_exec hash (RotateOp tok t now d r sc) st = (case rotateDeviceToken tok t now d r sc st of (st', x) \<Rightarrow> (st', [tokenAnswer x]))"
| "dp_exec hash (RevokeOp t now d r) st =
     (case revokeDeviceToken t now d r st of (st', None) \<Rightarrow> (st', [NullAnswer]) | (st', Some e) \<Rightarrow> (st', [Revoked (dt_token e)]))"

text \<open>The specification: which devices are paired, with which scopes, and for each device and role the
  token, its scopes and whether it is revoked.\<close>

record pairing_spec =
  ps_requests :: "(string \<times> DevicePairingPendingRequest) list"
  ps_scopes :: "string \<Rightarrow> string list option option"
  ps_tokens :: "string \<times> string \<Rightarrow> (string \<times> string list \<times> bool) option"

text \<open>What counts of a stored token: its text, its scopes and whether it is revoked.\<close>

definition tokenState :: "DeviceAuthToken \<Rightarrow> string \<times> string list \<times> bool" where
  "tokenState e = (dt_token e, dt_scopes e, revoked e)"

definition spec_load :: "int \<Rightarrow> pairing_spec \<Rightarrow> pairing_spec" where
  "spec_load t a = a\<lparr>ps_requests := pruneExpiredPending pr_ts t PENDING_TTL_MS (ps_requests a)\<rparr>"

definition spec_issue :: "int \<Rightarrow> string \<Rightarrow> string \<Rightarrow> string \<Rightarrow> string list \<Rightarrow> pairing_spec \<Rightarrow> pairing_spec \<times> dp_answer list" where
  "spec_issue t tok d r scopes a =
     ((spec_load t a)\<lparr>ps_tokens := (ps_tokens a)((d, r) \<mapsto> (tok, scopes, False))\<rparr>, [Issued tok scopes])"

fun spec_exec :: "(string \<Rightarrow> 'h) \<Rightarrow> dp_op \<Rightarrow> pairing_spec \<Rightarrow> pairing_spec \<times> dp_answer list" where
  "spec_exec hash (RequestOp rid t now req) a =
     (let d = trim (pi_deviceId req) in
      if d = [] then (a, [RequestError ''deviceId required''])
      else let (rs, _, new) = upsertPending rid now req d (ps_scopes a d \<noteq> None) (ps_requests (spec_load t a))
        in (a\<lparr>ps_requests := rs\<rparr>, [Requested new]))"
| "spec_exec hash (ApproveOp tok t now i) a =
     (case map_of (ps_requests (spec_load t a)) i of
        None \<Rightarrow> (a, [NullAnswer])
      | Some r \<Rightarrow>
          (let d = pr_deviceId r in
           (\<lparr>ps_requests = AList.delete i (ps_requests (spec_load t a)),
             ps_scopes = (ps_scopes a)(d \<mapsto> mergeScopes [Option.bind (ps_scopes a d) (\<lambda>x. x), pr_scopes r]),
             ps_tokens = (case normalizeRole (pr_role r) of None \<Rightarrow> ps_tokens a
                | Some role \<Rightarrow> (ps_tokens a)((d, role) \<mapsto> (tok, normalizeDeviceAuthScopes (pr_scopes r), False)))\<rparr>, [Approved d])))"
| "spec_exec hash (RejectOp t i) a =
     (case map_of (ps_requests (spec_load t a)) i of
        None \<Rightarrow> (a, [NullAnswer])
      | Some r \<Rightarrow> ((spec_load t a)\<lparr>ps_requests := AList.delete i (ps_requests (spec_load t a))\<rparr>, [Rejected (pr_deviceId r)]))"
| "spec_exec hash (RemoveOp t d) a =
     (if trim d = [] \<or> ps_scopes a (trim d) = None then (a, [NullAnswer])
      else ((spec_load t a)\<lparr>ps_scopes := (ps_scopes a)(trim d := None), ps_tokens := (\<lambda>(e, r). if e = trim d then None else ps_tokens a (e, r))\<rparr>,
            [Removed (trim d)]))"
| "spec_exec hash (UpdateOp t d patch) a =
     (case ps_scopes a (trim d) of None \<Rightarrow> (a, [Updated])
      | Some sc \<Rightarrow>
          if trim d \<noteq> d then (spec_load t a, [Updated])
          else ((spec_load t a)\<lparr>ps_scopes := (ps_scopes a)(d \<mapsto> mergeScopes [sc, pt_scopes patch]),
             ps_tokens := (case pt_tokens patch of None \<Rightarrow> ps_tokens a
               | Some toks \<Rightarrow> (\<lambda>(e, r). if e = d then map_option tokenState (map_of (nullish toks []) r) else ps_tokens a (e, r)))\<rparr>, [Updated]))"
| "spec_exec hash (VerifyOp t now d tk r sc) a =
     (if ps_scopes a (trim d) = None then (a, [Verified (Some ''device-not-paired'')])
      else if trim r = [] then (a, [Verified (Some ''role-missing'')])
      else case ps_tokens a (trim d, trim r) of
        None \<Rightarrow> (a, [Verified (Some ''token-missing'')])
      | Some (tok, scopes, dead) \<Rightarrow>
          if dead then (a, [Verified (Some ''token-revoked'')])
          else if hash tk \<noteq> hash tok then (a, [Verified (Some ''token-mismatch'')])
          else if \<not> roleScopesAllow (trim r) (normalizeDeviceAuthScopes (Some sc)) scopes then (a, [Verified (Some ''scope-mismatch'')])
          else (spec_load t a, [Verified None]))"
| "spec_exec hash (EnsureOp tok t now d r sc) a =
     (if ps_scopes a (trim d) = None \<or> trim r = [] then (a, [NullAnswer])
      else case ps_tokens a (trim d, trim r) of
        Some (old, scopes, False) \<Rightarrow>
          if roleScopesAllow (trim r) (normalizeDeviceAuthScopes (Some sc)) scopes then (a, [Issued old scopes])
          else spec_issue t tok (trim d) (trim r) (normalizeDeviceAuthScopes (Some sc)) a
      | _ \<Rightarrow> spec_issue t tok (trim d) (trim r) (normalizeDeviceAuthScopes (Some sc)) a)"
| "spec_exec hash (RotateOp tok t now d r sc) a =
     (case ps_scopes a (trim d) of None \<Rightarrow> (a, [NullAnswer])
      | Some dsc \<Rightarrow>
          if trim r = [] then (a, [NullAnswer])
          else
            (let scopes = normalizeDeviceAuthScopes (orelse sc (orelse (map_option (fst \<circ> snd) (ps_tokens a (trim d, trim r))) dsc))
             in spec_issue t tok (trim d) (trim r) scopes
                  (if sc = None then a else a\<lparr>ps_scopes := (ps_scopes a)(trim d \<mapsto> Some scopes)\<rparr>)))"
| "spec_exec hash (RevokeOp t now d r) a =
     (case ps_tokens a (trim d, trim r) of
        Some (tok, scopes, dead) \<Rightarrow>
          if trim r = [] then (a, [NullAnswer])
          else ((spec_load t a)\<lparr>ps_tokens := (ps_tokens a)((trim d, trim r) \<mapsto> (tok, scopes, True))\<rparr>, [Revoked tok])
      | None \<Rightarrow> (a, [NullAnswer]))"

text \<open>Only trimmed ids are ever looked up; a metadata update writes under the id as given, so with another id
  it leaves a copy nobody reads. The specification has no such copies.\<close>

definition stored :: "pairing_state \<Rightarrow> string \<Rightarrow> PairedDevice option" where
  "stored st d = (if trim d = d then map_of (pairedByDeviceId st) d else None)"

definition dp_abs :: "pairing_state \<Rightarrow> pairing_spec" where
  "dp_abs st = \<lparr>ps_requests = pendingById st,
     ps_scopes = (\<lambda>d. map_option dv_scopes (stored st d)),
     ps_tokens = (\<lambda>(d, r). Option.bind (stored st d) (\<lambda>dev. map_option tokenState (map_of (nullish (dv_tokens dev) []) r)))\<rparr>"

text \<open>A device is stored under its own id, and the id in a request is trimmed.\<close>

definition dp_inv :: "pairing_state \<Rightarrow> bool" where
  "dp_inv st \<longleftrightarrow> (\<forall>k d. map_of (pairedByDeviceId st) k = Some d \<longrightarrow> trim k = k \<longrightarrow> dv_deviceId d = k) \<and>
     list_all (\<lambda>(i, q). trim (pr_deviceId q) = pr_deviceId q) (pendingById st)"

text \<open>The clock is past the epoch when a token is revoked (a revocation time of zero reads as not revoked).\<close>

fun dp_issued :: "dp_op \<Rightarrow> bool" where
  "dp_issued (RevokeOp t now d r) \<longleftrightarrow> 0 < now"
| "dp_issued _ \<longleftrightarrow> True"

subsection \<open>The refinement\<close>

declare tokenState_def [simp]

lemma stored_simps [simp]:
  "trim d = d \<Longrightarrow> stored st d = map_of (pairedByDeviceId st) d"
  "stored (st\<lparr>pendingById := rs\<rparr>) d = stored st d" "stored (loadState t st) d = stored st d"
  "stored (st\<lparr>pairedByDeviceId := m\<rparr>) d = (if trim d = d then map_of m d else None)"
  "stored \<lparr>pendingById = rs, pairedByDeviceId = m\<rparr> d = (if trim d = d then map_of m d else None)"
  by (simp_all add: stored_def loadState_def)

lemma abs_load: "dp_abs (loadState t st) = spec_load t (dp_abs st)"
  by (simp add: dp_abs_def spec_load_def) (simp add: loadState_def)

lemma list_all_update: "P (k, v) \<Longrightarrow> list_all P m \<Longrightarrow> list_all P (AList.update k v m)"
  by (induction m) auto

lemma list_all_delete: "list_all P m \<Longrightarrow> list_all P (AList.delete k m)"
  by (induction m) auto

lemma list_all_map_of: "list_all P m \<Longrightarrow> map_of m k = Some v \<Longrightarrow> P (k, v)"
  by (metis list_all_iff map_of_SomeD)

lemma load_simps [simp]:
  "pairedByDeviceId (loadState t st) = pairedByDeviceId st" "dp_inv st \<Longrightarrow> dp_inv (loadState t st)"
  by (auto simp: loadState_def dp_inv_def pruneExpiredPending_def list_all_iff)

lemma abs_requests: "ps_requests (dp_abs st) = pendingById st"
  by (simp add: dp_abs_def)

lemma abs_scopes: "ps_scopes (dp_abs st) d = map_option dv_scopes (stored st d)"
  by (simp add: dp_abs_def)

lemma abs_tokens: "ps_tokens (dp_abs st) (d, r) = Option.bind (stored st d)
    (\<lambda>dev. map_option tokenState (map_of (nullish (dv_tokens dev) []) r))"
  by (simp add: dp_abs_def)

lemma normalizeRole_Some: "normalizeRole (Some r) = (if trim r = [] then None else Some (trim r))"
  by (simp add: normalizeRole_def truthy_def)

lemma revoked_built [simp]: "\<not> revoked (buildDeviceAuthToken tok r sc ex now rot)"
  by (simp add: revoked_def buildDeviceAuthToken_def)

lemma built_fields [simp]:
  "dt_token (buildDeviceAuthToken tok r sc ex now rot) = tok" "dt_scopes (buildDeviceAuthToken tok r sc ex now rot) = sc"
  "dt_role (buildDeviceAuthToken tok r sc ex now rot) = r"
  by (simp_all add: buildDeviceAuthToken_def)

text \<open>Writing one token of a device.\<close>

lemma abs_putTokens:
  assumes "map_of (pairedByDeviceId st) d = Some dev0" "dv_deviceId dev = d" "toks = nullish (dv_tokens dev0) []" "trim d = d"
  shows "dp_abs (putTokens dev (AList.update role e toks) st) = (dp_abs st)
     \<lparr>ps_scopes := (ps_scopes (dp_abs st))(d \<mapsto> dv_scopes dev),
      ps_tokens := (ps_tokens (dp_abs st))((d, role) \<mapsto> tokenState e)\<rparr>"
  using assms by (auto simp: dp_abs_def putTokens_def stored_def fun_eq_iff)

lemma inv_putTokens: "dp_inv st \<Longrightarrow> dp_inv (putTokens dev toks st)"
  by (auto simp: dp_inv_def putTokens_def)

lemma same_scopes: "map_of (pairedByDeviceId st) d = Some dev \<Longrightarrow> trim d = d \<Longrightarrow> (ps_scopes (dp_abs st))(d \<mapsto> dv_scopes dev) = ps_scopes (dp_abs st)"
  by (auto simp: dp_abs_def fun_eq_iff)

lemma approved_fields:
  "dv_deviceId (approvedDevice tok now r old) = pr_deviceId r"
  "dv_scopes (approvedDevice tok now r old) = mergeScopes [Option.bind (map_option dv_scopes old) (\<lambda>x. x), pr_scopes r]"
  by (cases old; simp add: approvedDevice_def Let_def)+

abbreviation trimmed_request :: "string \<times> DevicePairingPendingRequest \<Rightarrow> bool" where
  "trimmed_request \<equiv> \<lambda>(i, q). trim (pr_deviceId q) = pr_deviceId q"

lemma upsert_trimmed:
  assumes "list_all trimmed_request pending" "upsertPending rid now req (trim d) rep pending = (rs, q, new)"
  shows "list_all trimmed_request rs"
proof (cases "find (\<lambda>p. pr_deviceId p = trim d) (map snd pending)")
  case (Some ex)
  then have "pr_deviceId ex = trim d" by (auto simp: find_Some_iff)
  with assms Some show ?thesis
    by (auto simp: upsertPending_def Let_def mergePendingDevicePairingRequest_def intro: list_all_update)
qed (use assms in \<open>auto simp: upsertPending_def Let_def intro: list_all_update\<close>)

lemma inv_pending_load: "dp_inv st \<Longrightarrow> list_all trimmed_request (pendingById (loadState t st))"
  using load_simps(2) by (simp add: dp_inv_def)

lemma dp_exec_inv: "dp_issued x \<Longrightarrow> dp_inv st \<Longrightarrow> dp_inv (fst (dp_exec hash x st))"
proof (cases x)
  case (ApproveOp tok t now i)
  assume "dp_inv st"
  then show ?thesis using ApproveOp
    by (auto simp: approveDevicePairing_def Let_def dp_inv_def approved_fields split: option.splits if_splits
        intro: list_all_delete inv_pending_load [unfolded dp_inv_def])
next
  case (UpdateOp t d patch)
  assume "dp_issued x" "dp_inv st"
  then show ?thesis using UpdateOp
    by (auto simp: updatePairedDeviceMetadata_def patchedDevice_def Let_def dp_inv_def normalizeDeviceId_def
        split: option.splits intro: inv_pending_load [unfolded dp_inv_def])
next
  case (RequestOp rid t now req)
  assume "dp_inv st"
  then show ?thesis using RequestOp
    by (auto simp: requestDevicePairing_def Let_def dp_inv_def normalizeDeviceId_def split: prod.splits
        elim!: upsert_trimmed [OF inv_pending_load [unfolded dp_inv_def], rotated])
next
  case (RejectOp t i)
  assume "dp_inv st"
  then show ?thesis using RejectOp 
    by (auto simp: rejectDevicePairing_def Let_def dp_inv_def split: option.splits intro: list_all_delete inv_pending_load [unfolded dp_inv_def])
next
  case (RemoveOp t d)
  assume "dp_inv st"
  then show ?thesis using RemoveOp 
    by (auto simp: removePairedDevice_def Let_def dp_inv_def intro: inv_pending_load [unfolded dp_inv_def])
qed (auto simp: verifyDeviceToken_def ensureDeviceToken_def rotateDeviceToken_def revokeDeviceToken_def Let_def
    inv_putTokens split: option.splits prod.splits)

lemma sim_request: "spec_exec hash (RequestOp rid t now req) (dp_abs st) =
    (dp_abs (fst (dp_exec hash (RequestOp rid t now req) st)), snd (dp_exec hash (RequestOp rid t now req) st))"
proof (cases "trim (pi_deviceId req) = []")
  case True
  then show ?thesis by (simp add: requestDevicePairing_def normalizeDeviceId_def Let_def)
next
  case False
  obtain rs r new where u: "upsertPending rid now req (trim (pi_deviceId req))
      (ps_scopes (dp_abs st) (trim (pi_deviceId req)) \<noteq> None) (pendingById (loadState t st)) = (rs, r, new)"
    by (metis prod_cases3)
  have d: "dp_abs (st\<lparr>pendingById := rs\<rparr>) = (dp_abs st)\<lparr>ps_requests := rs\<rparr>" for st rs by (simp add: dp_abs_def)
  have "ps_scopes (dp_abs st) (trim (pi_deviceId req)) \<noteq> None \<longleftrightarrow> map_of (pairedByDeviceId st) (trim (pi_deviceId req)) \<noteq> None"
    by (simp add: abs_scopes)
  moreover have "ps_requests (spec_load t (dp_abs st)) = pendingById (loadState t st)"
    by (simp add: spec_load_def loadState_def dp_abs_def)
  moreover have "dp_abs ((loadState t st)\<lparr>pendingById := rs\<rparr>) = (dp_abs st)\<lparr>ps_requests := rs\<rparr>"
    unfolding d by (simp add: dp_abs_def loadState_def)
  ultimately show ?thesis using False u
    by (simp add: requestDevicePairing_def normalizeDeviceId_def Let_def)
qed

lemma load_requests: "ps_requests (spec_load t (dp_abs st)) = pendingById (loadState t st)"
  by (simp add: spec_load_def loadState_def dp_abs_def)

lemma approved_tokens:
  "map_option tokenState (map_of (nullish (dv_tokens (approvedDevice tok now r old)) []) role) =
     (if normalizeRole (pr_role r) = Some role then Some (tok, normalizeDeviceAuthScopes (pr_scopes r), False)
      else Option.bind old (\<lambda>dev. map_option tokenState (map_of (nullish (dv_tokens dev) []) role)))"
  by (cases old; cases "normalizeRole (pr_role r)") (auto simp: approvedDevice_def Let_def)

lemma sim_approve:
  assumes "dp_inv st"
  shows "spec_exec hash (ApproveOp tok t now i) (dp_abs st) =
    (dp_abs (fst (dp_exec hash (ApproveOp tok t now i) st)), snd (dp_exec hash (ApproveOp tok t now i) st))"
proof (cases "map_of (pendingById (loadState t st)) i")
  case None
  then show ?thesis by (simp add: approveDevicePairing_def load_requests Let_def)
next
  case (Some r)
  have tr: "trim (pr_deviceId r) = pr_deviceId r"
    using list_all_map_of [OF inv_pending_load [OF assms] Some] by simp
  let ?dev = "approvedDevice tok now r (map_of (pairedByDeviceId st) (pr_deviceId r))"
  let ?st = "\<lparr>pendingById = AList.delete i (pendingById (loadState t st)),
      pairedByDeviceId = AList.update (pr_deviceId r) ?dev (pairedByDeviceId st)\<rparr>"
  have ex: "dp_exec hash (ApproveOp tok t now i) st = (?st, [Approved (pr_deviceId r)])"
    using Some by (simp add: approveDevicePairing_def Let_def approved_fields)
  have sc: "ps_scopes (dp_abs ?st) = (ps_scopes (dp_abs st))(pr_deviceId r \<mapsto>
      mergeScopes [Option.bind (ps_scopes (dp_abs st) (pr_deviceId r)) (\<lambda>x. x), pr_scopes r])"
    using tr by (auto simp: abs_scopes approved_fields stored_def fun_eq_iff)
  have tk: "ps_tokens (dp_abs ?st) = (case normalizeRole (pr_role r) of None \<Rightarrow> ps_tokens (dp_abs st)
      | Some role \<Rightarrow> (ps_tokens (dp_abs st))((pr_deviceId r, role) \<mapsto> (tok, normalizeDeviceAuthScopes (pr_scopes r), False)))"
  proof (rule ext)
    fix p :: "string \<times> string"
    obtain d role where p: "p = (d, role)" by fastforce
    show "ps_tokens (dp_abs ?st) p = (case normalizeRole (pr_role r) of None \<Rightarrow> ps_tokens (dp_abs st)
      | Some role \<Rightarrow> (ps_tokens (dp_abs st))((pr_deviceId r, role) \<mapsto> (tok, normalizeDeviceAuthScopes (pr_scopes r), False))) p"
      using tr by (cases "normalizeRole (pr_role r)") (auto simp: p abs_tokens approved_tokens stored_def simp del: tokenState_def)
  qed
  have "dp_abs ?st = \<lparr>ps_requests = AList.delete i (pendingById (loadState t st)),
      ps_scopes = ps_scopes (dp_abs ?st), ps_tokens = ps_tokens (dp_abs ?st)\<rparr>" by (simp add: dp_abs_def)
  with Some show ?thesis unfolding ex by (simp add: load_requests Let_def sc tk)
qed

lemma sim_reject: "spec_exec hash (RejectOp t i) (dp_abs st) =
    (dp_abs (fst (dp_exec hash (RejectOp t i) st)), snd (dp_exec hash (RejectOp t i) st))"
  by (auto simp: rejectDevicePairing_def Let_def dp_abs_def spec_load_def loadState_def split: option.splits)

lemma sim_remove: "spec_exec hash (RemoveOp t d) (dp_abs st) =
    (dp_abs (fst (dp_exec hash (RemoveOp t d) st)), snd (dp_exec hash (RemoveOp t d) st))"
  by (auto simp: removePairedDevice_def normalizeDeviceId_def Let_def dp_abs_def spec_load_def loadState_def fun_eq_iff stored_def)

lemma sim_update: "spec_exec hash (UpdateOp t d patch) (dp_abs st) =
    (dp_abs (fst (dp_exec hash (UpdateOp t d patch) st)), snd (dp_exec hash (UpdateOp t d patch) st))"
  by (auto simp: updatePairedDeviceMetadata_def patchedDevice_def normalizeDeviceId_def Let_def dp_abs_def spec_load_def loadState_def fun_eq_iff
      stored_def split: option.splits)

lemmas token_op_defs = getPairedDeviceFromState_def resolveDeviceTokenUpdateContext_def normalizeDeviceId_def normalizeRole_Some
  cloneDeviceTokens_def Let_def

lemma sim_verify:
  assumes "dp_inv st"
  shows "spec_exec hash (VerifyOp t now d tk r sc) (dp_abs st) =
    (dp_abs (fst (dp_exec hash (VerifyOp t now d tk r sc) st)), snd (dp_exec hash (VerifyOp t now d tk r sc) st))"
proof (cases "map_of (pairedByDeviceId st) (trim d)")
  case (Some dev)
  then have dv: "dv_deviceId dev = trim d" using assms by (auto simp: dp_inv_def)
  show ?thesis
  proof (cases "map_of (nullish (dv_tokens dev) []) (trim r)")
    case (Some e)
    have rv: "revoked (e\<lparr>dt_lastUsedAtMs := Some now\<rparr>) = revoked e" by (simp add: revoked_def)
    have "dp_abs (putTokens dev (AList.update (trim r) (e\<lparr>dt_lastUsedAtMs := Some now\<rparr>) (nullish (dv_tokens dev) [])) (loadState t st))
        = dp_abs (loadState t st)"
      by (subst abs_putTokens [OF _ dv refl])
        (use \<open>map_of (pairedByDeviceId st) (trim d) = Some dev\<close> Some rv in \<open>auto simp: dp_abs_def fun_eq_iff\<close>)
    with Some \<open>map_of (pairedByDeviceId st) (trim d) = Some dev\<close> show ?thesis
      by (auto simp: verifyDeviceToken_def token_op_defs verifyPairingToken_def safeEqualSecret_def abs_scopes abs_tokens abs_load)
  qed (use Some in \<open>auto simp: verifyDeviceToken_def token_op_defs abs_scopes abs_tokens\<close>)
qed (auto simp: verifyDeviceToken_def token_op_defs abs_scopes abs_tokens)

text \<open>Issuing a token for a paired device.\<close>

lemma sim_issue:
  assumes "map_of (pairedByDeviceId st) d = Some dev" "dv_deviceId dev' = d" "dv_scopes dev' = sc"
    and "dt_token e = tok" "dt_scopes e = scopes" "\<not> revoked e"
    and "trim d = d"
  shows "spec_issue t tok d r scopes ((dp_abs st)\<lparr>ps_scopes := (ps_scopes (dp_abs st))(d \<mapsto> sc)\<rparr>) =
    (dp_abs (putTokens dev' (AList.update r e (nullish (dv_tokens dev) [])) (loadState t st)), [Issued tok scopes])"
  using assms abs_putTokens [of "loadState t st" d dev dev' "nullish (dv_tokens dev) []" r e]
  by (simp add: spec_issue_def abs_load) (simp add: spec_load_def)

lemma sim_ensure:
  assumes "dp_inv st"
  shows "spec_exec hash (EnsureOp tok t now d r sc) (dp_abs st) =
    (dp_abs (fst (dp_exec hash (EnsureOp tok t now d r sc) st)), snd (dp_exec hash (EnsureOp tok t now d r sc) st))"
proof (cases "map_of (pairedByDeviceId st) (trim d)")
  case (Some dev)
  then have dv: "dv_deviceId dev = trim d" using assms by (auto simp: dp_inv_def)
  let ?ns = "normalizeDeviceAuthScopes (Some sc)"
  have issue: "spec_issue t tok (trim d) (trim r) ?ns (dp_abs st) =
      (dp_abs (putTokens dev (AList.update (trim r) (buildDeviceAuthToken tok (trim r) ?ns ex now rot) (nullish (dv_tokens dev) [])) (loadState t st)),
       [Issued tok ?ns])" for ex rot
    using sim_issue [OF Some dv refl _ _ _ trim_idem, of "buildDeviceAuthToken tok (trim r) ?ns ex now rot" tok ?ns] same_scopes [OF Some trim_idem] by simp
  show ?thesis
  proof (cases "map_of (nullish (dv_tokens dev) []) (trim r)")
    case None
    with Some issue show ?thesis
      by (simp add: ensureDeviceToken_def token_op_defs abs_scopes abs_tokens tokenAnswer_def)
  next
    case (Some e)
    with \<open>map_of (pairedByDeviceId st) (trim d) = Some dev\<close> issue show ?thesis
      by (cases "revoked e") (simp_all add: ensureDeviceToken_def token_op_defs abs_scopes abs_tokens tokenAnswer_def)
  qed
qed (simp add: ensureDeviceToken_def token_op_defs abs_scopes abs_tokens tokenAnswer_def)

lemma sim_rotate:
  assumes "dp_inv st"
  shows "spec_exec hash (RotateOp tok t now d r sc) (dp_abs st) =
    (dp_abs (fst (dp_exec hash (RotateOp tok t now d r sc) st)), snd (dp_exec hash (RotateOp tok t now d r sc) st))"
proof (cases "map_of (pairedByDeviceId st) (trim d)")
  case (Some dev)
  then have dv: "dv_deviceId dev = trim d" using assms by (auto simp: dp_inv_def)
  let ?ex = "map_of (nullish (dv_tokens dev) []) (trim r)"
  let ?ns = "normalizeDeviceAuthScopes (orelse sc (orelse (map_option dt_scopes ?ex) (dv_scopes dev)))"
  let ?e = "buildDeviceAuthToken tok (trim r) ?ns ?ex now (Some now)"
  have ts: "map_option (fst \<circ> snd) (ps_tokens (dp_abs st) (trim d, trim r)) = map_option dt_scopes ?ex"
    using Some by (simp add: abs_tokens option.map_comp comp_def)
  show ?thesis
  proof (cases sc)
    case None
    with Some ts sim_issue [OF Some dv refl _ _ _ trim_idem, of ?e tok ?ns] same_scopes [OF Some trim_idem] show ?thesis
      by (simp add: rotateDeviceToken_def token_op_defs abs_scopes tokenAnswer_def)
  next
    case (Some x)
    have "dv_deviceId (dev\<lparr>dv_scopes := Some ?ns\<rparr>) = trim d" "dv_scopes (dev\<lparr>dv_scopes := Some ?ns\<rparr>) = Some ?ns"
      using dv by simp_all
    from sim_issue [OF \<open>map_of (pairedByDeviceId st) (trim d) = Some dev\<close> this _ _ _ trim_idem, of ?e tok ?ns] Some ts
      \<open>map_of (pairedByDeviceId st) (trim d) = Some dev\<close> show ?thesis
      by (simp add: rotateDeviceToken_def token_op_defs abs_scopes tokenAnswer_def)
  qed
qed (simp add: rotateDeviceToken_def token_op_defs abs_scopes abs_tokens tokenAnswer_def)

lemma sim_revoke:
  assumes "dp_inv st" "0 < now"
  shows "spec_exec hash (RevokeOp t now d r) (dp_abs st) =
    (dp_abs (fst (dp_exec hash (RevokeOp t now d r) st)), snd (dp_exec hash (RevokeOp t now d r) st))"
proof (cases "map_of (pairedByDeviceId st) (trim d)")
  case (Some dev)
  then have dv: "dv_deviceId dev = trim d" using assms by (auto simp: dp_inv_def)
  show ?thesis
  proof (cases "map_of (nullish (dv_tokens dev) []) (trim r)")
    case (Some e)
    let ?e = "e\<lparr>dt_revokedAtMs := Some now\<rparr>"
    have rv: "revoked ?e" using assms(2) by (simp add: revoked_def)
    from abs_putTokens [of "loadState t st" "trim d" dev dev "nullish (dv_tokens dev) []" "trim r" ?e] dv rv
      \<open>map_of (pairedByDeviceId st) (trim d) = Some dev\<close>
    have "dp_abs (putTokens dev (AList.update (trim r) ?e (nullish (dv_tokens dev) [])) (loadState t st)) =
        (spec_load t (dp_abs st))\<lparr>ps_tokens := (ps_tokens (dp_abs st))((trim d, trim r) \<mapsto> (dt_token e, dt_scopes e, True))\<rparr>"
      using same_scopes [of "loadState t st" "trim d" dev] by (simp add: abs_load) (simp add: spec_load_def)
    with Some \<open>map_of (pairedByDeviceId st) (trim d) = Some dev\<close> show ?thesis
      by (simp add: revokeDeviceToken_def token_op_defs abs_tokens)
  qed (use Some in \<open>simp add: revokeDeviceToken_def token_op_defs abs_tokens\<close>)
qed (simp add: revokeDeviceToken_def token_op_defs abs_tokens)

interpretation dp: functional_refinement "dp_exec hash" "spec_exec hash" dp_abs dp_inv dp_issued for hash :: "string \<Rightarrow> 'h"
proof
  show "dp_inv (fst (dp_exec hash x st))" if "dp_issued x" "dp_inv st" for x st using that by (rule dp_exec_inv)
  show "spec_exec hash x (dp_abs st) = (dp_abs (fst (dp_exec hash x st)), snd (dp_exec hash x st))"
    if "dp_issued x" "dp_inv st" for x st
  proof (cases x)
    case (RevokeOp t now d r)
    with that sim_revoke [of st now hash t d r] show ?thesis by (simp del: spec_exec.simps dp_exec.simps)
  qed (simp_all only: sim_request sim_approve [OF that(2)] sim_reject sim_remove sim_update sim_verify [OF that(2)] sim_ensure [OF that(2)]
      sim_rotate [OF that(2)])
qed

text \<open>(C7) The registry refines a token table. Take a registry whose devices are stored under their own ids and whose waiting requests carry trimmed
  ids (the empty one is such, and every operation keeps it so). For any sequence of requests, approvals, rejections,
  removals, updates with any patch, verifications, issues, rotations and revocations with a clock past the epoch, the table of paired
  devices and tokens evolves as the specification says and every caller gets the specified answer. In the
  specification, as in the code, a metadata update with an id that is not trimmed changes no device.\<close>

theorem device_pairing_refines:
  assumes "dp_inv st" and "list_all dp_issued ops"
  shows "dp_inv (fst (run_ops (dp_exec hash) ops st)) \<and>
    run_ops (spec_exec hash) ops (dp_abs st) =
      (dp_abs (fst (run_ops (dp_exec hash) ops st)), snd (run_ops (dp_exec hash) ops st))"
  using dp.run_refines [OF assms(2,1)] .

text \<open>A device that asks, is approved, uses its token, has it revoked and tries again.\<close>

definition demo_input :: pairing_input where
  "demo_input = \<lparr>pi_deviceId = '' dev1'', pi_publicKey = ''pk'', pi_displayName = None, pi_platform = None, pi_clientId = None,
     pi_clientMode = None, pi_role = Some ''operator'', pi_scopes = Some [''operator.write''], pi_remoteIp = None, pi_silent = None\<rparr>"

definition empty_registry :: pairing_state where
  "empty_registry = readState None None"

definition demo_pairing :: "dp_op list" where
  "demo_pairing = [RequestOp ''r1'' 10 10 demo_input, ApproveOp ''t1'' 20 20 ''r1'',
     VerifyOp 30 30 ''dev1'' ''t1'' ''operator'' [''operator.read''], RevokeOp 40 40 ''dev1 '' ''operator'',
     VerifyOp 50 50 ''dev1'' ''t1'' ''operator'' []]"

lemma demo_pairing_answers: "snd (run_ops (dp_exec rev) demo_pairing empty_registry) =
    [Requested True, Approved ''dev1'', Verified None, Revoked ''t1'', Verified (Some ''token-revoked'')]"
  by code_simp

lemma empty_registry_inv [simp]: "dp_inv empty_registry"
  by (simp add: dp_inv_def empty_registry_def readState_def)

theorem device_pairing_refines_witness:
  "snd (run_ops (spec_exec rev) demo_pairing (dp_abs empty_registry)) =
    [Requested True, Approved ''dev1'', Verified None, Revoked ''t1'', Verified (Some ''token-revoked'')]"
proof -
  have "list_all dp_issued demo_pairing" by code_simp
  from device_pairing_refines [OF empty_registry_inv this, of rev] demo_pairing_answers show ?thesis by simp
qed

subsection \<open>Revocation and pairing\<close>

text \<open>The operations that may give a role of a device a live token in the state they meet: the approval of a waiting
  request of this device for this role, an ensure or a rotation for them, and a metadata update that replaces the tokens
  of this device.\<close>

fun reissues :: "string \<Rightarrow> string \<Rightarrow> dp_op \<Rightarrow> pairing_state \<Rightarrow> bool" where
  "reissues d r (ApproveOp tok t now i) st \<longleftrightarrow> (case map_of (pendingById (loadState t st)) i of
     None \<Rightarrow> False | Some q \<Rightarrow> pr_deviceId q = d \<and> normalizeRole (pr_role q) = Some r)"
| "reissues d r (EnsureOp tok t now d' r' sc) st \<longleftrightarrow> trim d' = d \<and> trim r' = r"
| "reissues d r (RotateOp tok t now d' r' sc) st \<longleftrightarrow> trim d' = d \<and> trim r' = r"
| "reissues d r (UpdateOp t d' patch) st \<longleftrightarrow> d' = d \<and> pt_tokens patch \<noteq> None"
| "reissues d r _ st \<longleftrightarrow> False"

fun never_reissued :: "(string \<Rightarrow> 'h) \<Rightarrow> string \<Rightarrow> string \<Rightarrow> dp_op list \<Rightarrow> pairing_state \<Rightarrow> bool" where
  "never_reissued hash d r [] st \<longleftrightarrow> True"
| "never_reissued hash d r (x # xs) st \<longleftrightarrow> \<not> reissues d r x st \<and> never_reissued hash d r xs (fst (dp_exec hash x st))"

definition dead_for :: "string \<Rightarrow> string \<Rightarrow> pairing_spec \<Rightarrow> bool" where
  "dead_for d r a \<longleftrightarrow> (\<forall>tok sc. ps_tokens a (d, r) \<noteq> Some (tok, sc, False))"

lemma spec_keeps_dead:
  assumes "dead_for d r (dp_abs st)" "\<not> reissues d r x st"
  shows "dead_for d r (fst (spec_exec hash x (dp_abs st)))"
  using assms
  by (cases x)
    (auto simp: dead_for_def spec_issue_def load_requests Let_def split: option.splits prod.splits bool.splits,
     auto simp: spec_load_def)

lemma run_keeps_dead:
  "dp_inv st \<Longrightarrow> list_all dp_issued ops \<Longrightarrow> never_reissued hash d r ops st \<Longrightarrow> dead_for d r (dp_abs st) \<Longrightarrow>
   dead_for d r (dp_abs (fst (run_ops (dp_exec hash) ops st)))"
proof (induction ops arbitrary: st)
  case (Cons x ops)
  have x: "dp_issued x" and "dead_for d r (fst (spec_exec hash x (dp_abs st)))"
    using Cons.prems spec_keeps_dead [of d r st x hash] by auto
  then have "dead_for d r (dp_abs (fst (dp_exec hash x st)))" by (simp add: dp.simulates [OF x Cons.prems(1)])
  from Cons.IH [OF dp_exec_inv [OF x Cons.prems(1)] _ _ this] Cons.prems show ?case
    by (simp add: Let_def case_prod_beta del: dp_exec.simps)
qed simp

lemma dead_not_verified:
  assumes "dead_for (trim d) (trim r) a"
  shows "snd (spec_exec hash (VerifyOp t now d tk r sc) a) \<noteq> [Verified None]"
  using assms by (auto simp: dead_for_def split: option.splits)

lemma dead_after_revoke:
  "snd (spec_exec hash (RevokeOp t now d r) a) = [Revoked tok] \<Longrightarrow> dead_for (trim d) (trim r) (fst (spec_exec hash (RevokeOp t now d r) a))"
  by (auto simp: dead_for_def split: option.splits if_splits)

text \<open>(C8) A revoked token stays dead: once the token of a role of a device is revoked, no sequence of
  operations makes any token verify for that device and role again, unless one of them issues a new token for this very device and role
  (the approval of a request of this device for this role, an ensure, a rotation) or a metadata update replaces this
  device's tokens. Approvals and updates of other devices, other roles and rejections do not.\<close>

theorem revoked_token_dead:
  assumes "dp_inv st" and "0 < now" and "snd (dp_exec hash (RevokeOp t now d r) st) = [Revoked tok]"
    and "list_all dp_issued ops"
    and "never_reissued hash (trim d) (trim r) ops (fst (dp_exec hash (RevokeOp t now d r) st))"
    and "trim d' = trim d" "trim r' = trim r"
  shows "snd (verifyDeviceToken hash t' now' d' tk r' sc
    (fst (run_ops (dp_exec hash) ops (fst (dp_exec hash (RevokeOp t now d r) st))))) \<noteq> None"
proof -
  let ?s1 = "fst (dp_exec hash (RevokeOp t now d r) st)"
  let ?s2 = "fst (run_ops (dp_exec hash) ops ?s1)"
  have i1: "dp_inv ?s1" using dp_exec_inv [of "RevokeOp t now d r" st] assms(1,2) by simp
  have "dead_for (trim d) (trim r) (dp_abs ?s1)"
    using dead_after_revoke [of hash t now d r "dp_abs st" tok] sim_revoke [OF assms(1,2), of hash t d r] assms(3) by simp
  then have "dead_for (trim d) (trim r) (dp_abs ?s2)" by (rule run_keeps_dead [OF i1 assms(4,5)])
  moreover have "dp_inv ?s2" using dp.run_refines [OF assms(4) i1, of hash] by simp
  ultimately have "snd (dp_exec hash (VerifyOp t' now' d' tk r' sc) ?s2) \<noteq> [Verified None]"
    using dead_not_verified [of d' r' "dp_abs ?s2" hash t' now' tk sc] sim_verify [of ?s2 hash t' now' d' tk r' sc] assms(6,7) by simp
  then show ?thesis by (auto split: prod.splits)
qed

text \<open>After the revocation another device is approved for the same role, and the same device gets a token of another role.\<close>

definition after_revoke :: "dp_op list" where
  "after_revoke = [RequestOp ''r2'' 50 50 (demo_input\<lparr>pi_deviceId := ''dev2''\<rparr>), ApproveOp ''t2'' 51 51 ''r2'',
     RequestOp ''r3'' 52 52 demo_input, EnsureOp ''t3'' 53 53 ''dev1'' ''node'' []]"

theorem revoked_token_dead_witness:
  "snd (verifyDeviceToken rev 60 60 '' dev1'' ''t1'' ''operator'' []
    (fst (run_ops (dp_exec rev) after_revoke
      (fst (dp_exec rev (RevokeOp 40 40 ''dev1 '' ''operator'') (fst (run_ops (dp_exec rev) (take 3 demo_pairing) empty_registry))))))) \<noteq> None"
proof (rule revoked_token_dead)
  have "list_all dp_issued (take 3 demo_pairing)" by code_simp
  then show "dp_inv (fst (run_ops (dp_exec rev) (take 3 demo_pairing) empty_registry))"
    using dp.run_refines [of _ _ rev] empty_registry_inv by blast
  show "snd (dp_exec rev (RevokeOp 40 40 ''dev1 '' ''operator'') (fst (run_ops (dp_exec rev) (take 3 demo_pairing) empty_registry)))
    = [Revoked ''t1'']" by code_simp
  show "list_all dp_issued after_revoke" by code_simp
  show "never_reissued rev (trim ''dev1 '') (trim ''operator'') after_revoke
    (fst (dp_exec rev (RevokeOp 40 40 ''dev1 '' ''operator'') (fst (run_ops (dp_exec rev) (take 3 demo_pairing) empty_registry))))"
    by code_simp
  show "trim '' dev1'' = trim ''dev1 ''" "trim ''operator'' = trim ''operator''" by code_simp+
qed simp

text \<open>A device enters the table by an approval only.\<close>

lemma spec_pairs_by_approval:
  "ps_scopes (fst (spec_exec hash x a)) d \<noteq> None \<Longrightarrow> ps_scopes a d \<noteq> None \<or> Approved d \<in> set (snd (spec_exec hash x a))"
  by (cases x)
    (auto simp: spec_issue_def spec_load_def Let_def split: option.splits prod.splits bool.splits if_splits)

text \<open>Nothing verifies without approval: in a registry that started empty, a token verifies for a
  device only if the device is paired by an approval that was answered in the history, the role has a
  token that is not revoked, the digests agree and the scopes asked for are covered by the token's.\<close>

theorem verified_after_approval:
  assumes "list_all dp_issued ops" and "run_ops (dp_exec hash) ops empty_registry = (st, answers)"
    and "snd (verifyDeviceToken hash t now d tk r sc st) = None"
  shows "Approved (trim d) \<in> set answers \<and>
    (\<exists>dev e. map_of (pairedByDeviceId st) (trim d) = Some dev \<and> map_of (nullish (dv_tokens dev) []) (trim r) = Some e \<and>
       \<not> revoked e \<and> hash tk = hash (dt_token e) \<and> roleScopesAllow (trim r) (normalizeDeviceAuthScopes (Some sc)) (dt_scopes e))"
proof -
  have ref: "dp_inv st" "run_ops (spec_exec hash) ops (dp_abs empty_registry) = (dp_abs st, answers)"
    using dp.run_refines [OF assms(1) empty_registry_inv, of hash] assms(2) by simp_all
  have ok: "\<exists>dev e. map_of (pairedByDeviceId st) (trim d) = Some dev \<and> map_of (nullish (dv_tokens dev) []) (trim r) = Some e \<and>
       \<not> revoked e \<and> hash tk = hash (dt_token e) \<and> roleScopesAllow (trim r) (normalizeDeviceAuthScopes (Some sc)) (dt_scopes e)"
    using assms(3)
    by (auto simp: verifyDeviceToken_def token_op_defs verifyPairingToken_def safeEqualSecret_def split: option.splits if_splits)
  then have "ps_scopes (dp_abs st) (trim d) \<noteq> None" by (auto simp: abs_scopes)
  moreover have "ps_scopes (dp_abs empty_registry) (trim d) = None" by (simp add: abs_scopes empty_registry_def readState_def)
  ultimately have "Approved (trim d) \<in> set answers"
    using run_ops_history [of "\<lambda>a. ps_scopes a (trim d) \<noteq> None" "spec_exec hash", OF spec_pairs_by_approval, of ops "dp_abs empty_registry"]
      ref(2) by simp
  with ok show ?thesis by blast
qed

theorem verified_after_approval_witness:
  "Approved (trim ''dev1'') \<in> set (snd (run_ops (dp_exec rev) (take 2 demo_pairing) empty_registry))"
proof -
  obtain st answers where r: "run_ops (dp_exec rev) (take 2 demo_pairing) empty_registry = (st, answers)" by fastforce
  have i: "list_all dp_issued (take 2 demo_pairing)" by code_simp
  have "snd (verifyDeviceToken rev 30 30 ''dev1'' ''t1'' ''operator'' [''operator.read'']
      (fst (run_ops (dp_exec rev) (take 2 demo_pairing) empty_registry))) = None" by code_simp
  with r have "snd (verifyDeviceToken rev 30 30 ''dev1'' ''t1'' ''operator'' [''operator.read''] st) = None" by simp
  from verified_after_approval [OF i r this] r show ?thesis by simp
qed

section \<open>Well-formed registries\<close>

text \<open>Every key is the id of what it stores, ids and roles are trimmed and not empty, and at most one
  request of a device waits.\<close>

definition normal_word :: "string \<Rightarrow> bool" where
  "normal_word s \<longleftrightarrow> trim s = s \<and> s \<noteq> []"

definition request_ok :: "string \<times> DevicePairingPendingRequest \<Rightarrow> bool" where
  "request_ok p \<longleftrightarrow> pr_requestId (snd p) = fst p \<and> normal_word (pr_deviceId (snd p))"

definition token_ok :: "string \<times> DeviceAuthToken \<Rightarrow> bool" where
  "token_ok p \<longleftrightarrow> dt_role (snd p) = fst p \<and> normal_word (fst p)"

definition device_ok :: "string \<times> PairedDevice \<Rightarrow> bool" where
  "device_ok p \<longleftrightarrow> dv_deviceId (snd p) = fst p \<and> normal_word (fst p) \<and>
     distinct (keys (nullish (dv_tokens (snd p)) [])) \<and> list_all token_ok (nullish (dv_tokens (snd p)) [])"

definition pairing_wf :: "pairing_state \<Rightarrow> bool" where
  "pairing_wf st \<longleftrightarrow> distinct (keys (pendingById st)) \<and> list_all request_ok (pendingById st) \<and>
     distinct (map (pr_deviceId \<circ> snd) (pendingById st)) \<and>
     distinct (keys (pairedByDeviceId st)) \<and> list_all device_ok (pairedByDeviceId st)"

text \<open>The random id of a request is not that of a waiting one.\<close>

fun fresh_op :: "dp_op \<Rightarrow> pairing_state \<Rightarrow> bool" where
  "fresh_op (RequestOp rid t now req) st \<longleftrightarrow> rid \<notin> set (keys (pendingById st))"
| "fresh_op (UpdateOp t d patch) st \<longleftrightarrow> trim d = d \<and> pt_tokens patch = None"
| "fresh_op x st \<longleftrightarrow> dp_issued x"

lemma map_snd_update_same:
  "map_of m k = Some v \<Longrightarrow> f v' = f v \<Longrightarrow> map (f \<circ> snd) (AList.update k v' m) = map (f \<circ> snd) m"
  by (induction m) auto

lemma distinct_map_delete: "distinct (map f m) \<Longrightarrow> distinct (map f (AList.delete k m))"
  by (simp add: AList.delete_eq distinct_map_filter)

lemma wf_load: "pairing_wf st \<Longrightarrow> pairing_wf (loadState t st)"
  by (auto simp: pairing_wf_def loadState_def pruneExpiredPending_def distinct_map_filter list_all_iff)

lemma keys_load: "set (keys (pendingById (loadState t st))) \<subseteq> set (keys (pendingById st))"
  by (auto simp: loadState_def pruneExpiredPending_def)

lemma wf_upsert:
  assumes "distinct (keys ps)" "list_all request_ok ps" "distinct (map (pr_deviceId \<circ> snd) ps)"
    and "rid \<notin> set (keys ps)" "normal_word d" "upsertPending rid now req d rep ps = (ps', r, new)"
  shows "distinct (keys ps') \<and> list_all request_ok ps' \<and> distinct (map (pr_deviceId \<circ> snd) ps')"
proof (cases "find (\<lambda>p. pr_deviceId p = d) (map snd ps)")
  case None
  then have new: "d \<notin> set (map (pr_deviceId \<circ> snd) ps)" by (auto simp: find_None_iff)
  obtain q where q: "ps' = AList.update rid q ps" "pr_requestId q = rid" "pr_deviceId q = d"
    using assms(6) None by (auto simp: upsertPending_def Let_def)
  have "ps' = ps @ [(rid, q)]" unfolding q(1) using assms(4) by (rule update_fresh)
  with assms(1-5) new q(2,3) show ?thesis by (auto simp: request_ok_def)
next
  case (Some ex)
  then obtain k where k: "(k, ex) \<in> set ps" "pr_deviceId ex = d" by (auto simp: find_Some_iff set_conv_nth) (metis nth_mem surjective_pairing)
  then have kk: "pr_requestId ex = k" using assms(2) by (auto simp: list_all_iff request_ok_def)
  let ?m = "mergePendingDevicePairingRequest now ex req rep"
  have m: "pr_requestId ?m = k" "pr_deviceId ?m = pr_deviceId ex" using kk by (simp_all add: mergePendingDevicePairingRequest_def)
  have ps': "ps' = AList.update k ?m ps" using assms(6) Some kk by (auto simp: upsertPending_def Let_def)
  have mo: "map_of ps k = Some ex" using assms(1) k by (simp add: map_of_eq_Some_iff)
  show ?thesis unfolding ps'
    using assms(1-3,5) k m map_snd_update_same [OF mo, of pr_deviceId ?m]
    by (auto simp: distinct_update request_ok_def intro!: list_all_update)
qed

lemma wf_putTokens:
  assumes "pairing_wf st" "map_of (pairedByDeviceId st) k = Some dev" "dv_deviceId dev' = k"
    and "token_ok (role, e)"
  shows "pairing_wf (putTokens dev' (AList.update role e (nullish (dv_tokens dev) [])) st)"
proof -
  have "device_ok (k, dev)" using assms(1,2) list_all_map_of [of device_ok "pairedByDeviceId st" k dev] by (simp add: pairing_wf_def)
  then have "device_ok (k, dev'\<lparr>dv_tokens := Some (AList.update role e (nullish (dv_tokens dev) []))\<rparr>)"
    using assms(3,4) by (auto simp: device_ok_def distinct_update intro: list_all_update)
  with assms(1,3) show ?thesis by (auto simp: pairing_wf_def putTokens_def distinct_update intro: list_all_update)
qed

lemma wf_dp_inv:
  assumes "pairing_wf st"
  shows "dp_inv st"
proof -
  have "list_all device_ok (pairedByDeviceId st)" "list_all request_ok (pendingById st)" using assms by (simp_all add: pairing_wf_def)
  moreover have "dv_deviceId d = k" if "map_of (pairedByDeviceId st) k = Some d" for k d
    using list_all_map_of [OF calculation(1) that] by (simp add: device_ok_def)
  ultimately show ?thesis by (auto simp: dp_inv_def list_all_iff request_ok_def normal_word_def)
qed

lemma wf_request:
  assumes "pairing_wf st" "rid \<notin> set (keys (pendingById st))"
  shows "pairing_wf (fst (requestDevicePairing rid t now req st))"
proof (cases "trim (pi_deviceId req) = []")
  case True
  with assms(1) show ?thesis by (simp add: requestDevicePairing_def normalizeDeviceId_def Let_def)
next
  case False
  then have nw: "normal_word (trim (pi_deviceId req))" by (simp add: normal_word_def)
  note w = wf_load [OF assms(1), of t]
  obtain ps r new where u: "upsertPending rid now req (trim (pi_deviceId req))
      (map_of (pairedByDeviceId st) (trim (pi_deviceId req)) \<noteq> None) (pendingById (loadState t st)) = (ps, r, new)"
    by (metis prod_cases3)
  have "rid \<notin> set (keys (pendingById (loadState t st)))" using assms(2) keys_load by blast
  with wf_upsert [OF _ _ _ this nw u] w False u show ?thesis
    by (auto simp: requestDevicePairing_def normalizeDeviceId_def Let_def pairing_wf_def)
qed

lemma wf_approve: "pairing_wf st \<Longrightarrow> pairing_wf (fst (approveDevicePairing tok t now i st))"
proof (cases "map_of (pendingById (loadState t st)) i")
  case (Some r)
  assume w: "pairing_wf st"
  note wl = wf_load [OF w, of t]
  let ?old = "map_of (pairedByDeviceId st) (pr_deviceId r)"
  let ?dev = "approvedDevice tok now r ?old"
  have r: "normal_word (pr_deviceId r)"
    using list_all_map_of [OF _ Some, of request_ok] wl by (simp add: pairing_wf_def request_ok_def)
  have old: "distinct (keys (nullish (Option.bind ?old dv_tokens) [])) \<and> list_all token_ok (nullish (Option.bind ?old dv_tokens) [])"
    using list_all_map_of [of device_ok "pairedByDeviceId st" "pr_deviceId r"] w
    by (cases ?old) (auto simp: pairing_wf_def device_ok_def)
  have nr: "normalizeRole (pr_role r) = Some role \<Longrightarrow> normal_word role" for role
    by (auto simp: normalizeRole_def truthy_Some_iff normal_word_def)
  have "device_ok (pr_deviceId r, ?dev)"
    using r old nr
    by (cases "normalizeRole (pr_role r)")
      (auto simp: device_ok_def approvedDevice_def Let_def distinct_update token_ok_def intro!: list_all_update)
  with Some wl w show ?thesis
    by (auto simp: approveDevicePairing_def Let_def pairing_wf_def approved_fields distinct_update distinct_delete distinct_map_delete
        intro!: list_all_update list_all_delete)
qed (simp add: approveDevicePairing_def Let_def)

lemma wf_token_ops:
  assumes "pairing_wf st" "map_of (pairedByDeviceId st) (trim d) = Some dev" "dv_deviceId dev' = trim d" "trim r \<noteq> []" "dt_role e = trim r"
  shows "pairing_wf (putTokens dev' (AList.update (trim r) e (nullish (dv_tokens dev) [])) (loadState t st))"
  using wf_putTokens [OF wf_load [OF assms(1)], of t "trim d" dev dev' "trim r" e] assms(2-5)
  by (simp add: token_ok_def normal_word_def)

lemma wf_lookup:
  assumes "pairing_wf st" "map_of (pairedByDeviceId st) k = Some dev"
  shows "dv_deviceId dev = k" "map_of (nullish (dv_tokens dev) []) r = Some e \<Longrightarrow> dt_role e = r"
proof -
  have d: "device_ok (k, dev)" using assms list_all_map_of [of device_ok "pairedByDeviceId st" k dev] by (simp add: pairing_wf_def)
  then show "dv_deviceId dev = k" by (simp add: device_ok_def)
  show "dt_role e = r" if "map_of (nullish (dv_tokens dev) []) r = Some e"
    using d list_all_map_of [OF _ that, of token_ok] by (simp add: device_ok_def token_ok_def)
qed

lemma wf_update:
  assumes "pairing_wf st" "trim d = d" "pt_tokens patch = None"
  shows "pairing_wf (updatePairedDeviceMetadata t d patch st)"
proof (cases "map_of (pairedByDeviceId st) d")
  case (Some dev)
  have "device_ok (d, dev)" using assms(1) Some list_all_map_of [of device_ok "pairedByDeviceId st" d dev] by (simp add: pairing_wf_def)
  then have "device_ok (d, patchedDevice patch dev)" using assms(3) by (simp add: device_ok_def patchedDevice_def)
  with wf_load [OF assms(1), of t] Some assms(2) show ?thesis
    by (auto simp: updatePairedDeviceMetadata_def Let_def normalizeDeviceId_def pairing_wf_def distinct_update intro!: list_all_update)
qed (use assms in \<open>simp add: updatePairedDeviceMetadata_def Let_def normalizeDeviceId_def\<close>)

lemma wf_rest:
  assumes "pairing_wf st"
  shows "pairing_wf (fst (rejectDevicePairing t i st))" "pairing_wf (fst (removePairedDevice t d st))"
    "pairing_wf (fst (verifyDeviceToken hash t now d tk r sc st))" "pairing_wf (fst (ensureDeviceToken tok t now d r sc st))"
    "pairing_wf (fst (rotateDeviceToken tok t now d r sc' st))" "pairing_wf (fst (revokeDeviceToken t now d r st))"
proof -
  note w = wf_load [OF assms, of t]
  show "pairing_wf (fst (rejectDevicePairing t i st))"
    using assms w by (auto simp: rejectDevicePairing_def Let_def pairing_wf_def distinct_delete distinct_map_delete list_all_delete split: option.splits)
  show "pairing_wf (fst (removePairedDevice t d st))"
    using assms w by (auto simp: removePairedDevice_def Let_def pairing_wf_def distinct_delete list_all_delete)
  show "pairing_wf (fst (verifyDeviceToken hash t now d tk r sc st))"
    using assms wf_lookup [OF assms] by (auto simp: verifyDeviceToken_def token_op_defs split: option.splits intro!: wf_token_ops)
  show "pairing_wf (fst (ensureDeviceToken tok t now d r sc st))"
    using assms wf_lookup [OF assms] by (auto simp: ensureDeviceToken_def token_op_defs split: option.splits intro!: wf_token_ops)
  show "pairing_wf (fst (rotateDeviceToken tok t now d r sc' st))"
    using assms wf_lookup [OF assms] by (auto simp: rotateDeviceToken_def token_op_defs split: option.splits intro!: wf_token_ops)
  show "pairing_wf (fst (revokeDeviceToken t now d r st))"
    using assms wf_lookup [OF assms] by (auto simp: revokeDeviceToken_def token_op_defs split: option.splits intro!: wf_token_ops)
qed

text \<open>Every operation keeps the registry well formed: devices, requests and tokens stay under their
  own trimmed ids and roles, no key is stored twice, and at most one request of a device waits;
  a repeated request is merged into the waiting one.\<close>

theorem pairing_wf_preserved:
  assumes "pairing_wf st" and "fresh_op x st"
  shows "pairing_wf (fst (dp_exec hash x st))"
proof (cases x)
  case (RequestOp rid t now req)
  with assms(2) wf_request [OF assms(1), of rid t now req] show ?thesis by (auto simp: case_prod_beta split: sum.splits)
next
  case (ApproveOp tok t now i)
  with wf_approve [OF assms(1), of tok t now i] show ?thesis by (auto simp: case_prod_beta split: option.splits)
next
  case (UpdateOp t d patch)
  with assms(2) wf_update [OF assms(1), of d patch t] show ?thesis by simp
qed (use wf_rest [OF assms(1)] in \<open>auto simp: case_prod_beta split: option.splits\<close>)

theorem pairing_wf_preserved_witness:
  "pairing_wf (fst (dp_exec rev (RequestOp ''r2'' 20 20 demo_input) (fst (dp_exec rev (RequestOp ''r1'' 10 10 demo_input) empty_registry)))) \<and>
   length (pendingById (fst (dp_exec rev (RequestOp ''r2'' 20 20 demo_input) (fst (dp_exec rev (RequestOp ''r1'' 10 10 demo_input) empty_registry))))) = 1"
proof -
  have "pairing_wf empty_registry" "fresh_op (RequestOp ''r1'' 10 10 demo_input) empty_registry"
    "fresh_op (RequestOp ''r2'' 20 20 demo_input) (fst (dp_exec rev (RequestOp ''r1'' 10 10 demo_input) empty_registry))" by code_simp+
  moreover have "length (pendingById (fst (dp_exec rev (RequestOp ''r2'' 20 20 demo_input) (fst (dp_exec rev (RequestOp ''r1'' 10 10 demo_input) empty_registry))))) = 1"
    by code_simp
  ultimately show ?thesis using pairing_wf_preserved by blast
qed

text \<open>With an id that is not trimmed the metadata update stores a second copy of the device under it,
  and the device itself keeps its old metadata.\<close>

lemma update_untrimmed_id:
  "keys (pairedByDeviceId (updatePairedDeviceMetadata 30 ''dev1 ''
      \<lparr>pt_publicKey = None, pt_displayName = Some (Some ''x''), pt_platform = None, pt_clientId = None, pt_clientMode = None, pt_role = None,
       pt_scopes = None, pt_remoteIp = None, pt_tokens = None\<rparr>
      (fst (run_ops (dp_exec rev) (take 2 demo_pairing) empty_registry)))) = [''dev1'', ''dev1 '']"
  by code_simp

text \<open>Ensuring a token does not look at the scopes the device was approved with: a device approved for
  reading gets a token for administration when its caller asks for one.\<close>

lemma ensure_beyond_approval:
  "snd (run_ops (dp_exec rev) [RequestOp ''r1'' 10 10 (demo_input\<lparr>pi_scopes := Some [''operator.read'']\<rparr>), ApproveOp ''t1'' 20 20 ''r1'',
      EnsureOp ''t2'' 30 30 ''dev1'' ''operator'' [''operator.admin''],
      VerifyOp 40 40 ''dev1'' ''t2'' ''operator'' [''operator.admin'']] empty_registry)
   = [Requested True, Approved ''dev1'', Issued ''t2'' [''operator.admin''], Verified None]"
  by code_simp

end
