(* ===== verification/Tool_Policy.thy ===== *)
theory Tool_Policy
  imports Prelude_JS
begin

section \<open>Tool policies (agents/tool-policy.ts, agents/glob-pattern.ts, agents/tool-policy-pipeline.ts)\<close>

text \<open>
  An agent is offered a list of tools. Policies with allow and deny lists, from the profile, the
  provider, the configuration of the gateway and of the agent, the group, the sandbox and the
  sub-agent rules, are applied one after the other and each removes the tools it does not let
  through. This theory has the vocabulary of policies (names, aliases, groups, patterns), the
  matcher, the pipeline, and the plugin tools that join the core tools.
\<close>

subsection \<open>Names and groups\<close>

definition TOOL_NAME_ALIASES :: "(string \<times> string) list" where
  "TOOL_NAME_ALIASES = [(''bash'', ''exec''), (''apply-patch'', ''apply_patch'')]"

definition TOOL_GROUPS :: "(string \<times> string list) list" where
  "TOOL_GROUPS =
    [(''group:memory'', [''memory_search'', ''memory_get'']),
     (''group:web'', [''web_search'', ''web_fetch'']),
     (''group:fs'', [''read'', ''write'', ''edit'', ''apply_patch'']),
     (''group:runtime'', [''exec'', ''process'']),
     (''group:sessions'', [''sessions_list'', ''sessions_history'', ''sessions_send'', ''sessions_spawn'', ''subagents'',
        ''session_status'']),
     (''group:ui'', [''browser'', ''canvas'']),
     (''group:automation'', [''cron'', ''gateway'']),
     (''group:messaging'', [''message'']),
     (''group:nodes'', [''nodes'']),
     (''group:openclaw'', [''browser'', ''canvas'', ''nodes'', ''cron'', ''message'', ''gateway'', ''agents_list'',
        ''sessions_list'', ''sessions_history'', ''sessions_send'', ''sessions_spawn'', ''subagents'', ''session_status'',
        ''memory_search'', ''memory_get'', ''web_search'', ''web_fetch'', ''image''])]"

definition OWNER_ONLY_TOOL_NAME_FALLBACKS :: "string list" where
  "OWNER_ONLY_TOOL_NAME_FALLBACKS = [''whatsapp_login'', ''cron'', ''gateway'']"

record ToolPolicyLike =
  tp_allow :: "string list option"
  tp_deny :: "string list option"

definition TOOL_PROFILES :: "(string \<times> ToolPolicyLike) list" where
  "TOOL_PROFILES =
    [(''minimal'', \<lparr>tp_allow = Some [''session_status''], tp_deny = None\<rparr>),
     (''coding'', \<lparr>tp_allow = Some [''group:fs'', ''group:runtime'', ''group:sessions'', ''group:memory'', ''image''], tp_deny = None\<rparr>),
     (''messaging'', \<lparr>tp_allow = Some [''group:messaging'', ''sessions_list'', ''sessions_history'', ''sessions_send'',
        ''session_status''], tp_deny = None\<rparr>),
     (''full'', \<lparr>tp_allow = None, tp_deny = None\<rparr>)]"

definition normalizeToolName :: "string \<Rightarrow> string" where
  "normalizeToolName name = (let normalized = to_lower (trim name) in nullish (map_of TOOL_NAME_ALIASES normalized) normalized)"

definition isOwnerOnlyToolName :: "string \<Rightarrow> bool" where
  "isOwnerOnlyToolName name \<longleftrightarrow> normalizeToolName name \<in> set OWNER_ONLY_TOOL_NAME_FALLBACKS"

text \<open>What a call of a tool does, as far as the policies change it.\<close>

datatype tool_execute = NoExecute | Execute | OwnerOnlyError

record AnyAgentTool =
  t_name :: string
  t_ownerOnly :: bool
  t_execute :: tool_execute

definition isOwnerOnlyTool :: "AnyAgentTool \<Rightarrow> bool" where
  "isOwnerOnlyTool tool \<longleftrightarrow> t_ownerOnly tool \<or> isOwnerOnlyToolName (t_name tool)"

definition wrapOwnerOnlyToolExecution :: "AnyAgentTool \<Rightarrow> bool \<Rightarrow> AnyAgentTool" where
  "wrapOwnerOnlyToolExecution tool senderIsOwner =
     (if \<not> t_ownerOnly tool \<or> senderIsOwner \<or> t_execute tool = NoExecute then tool
      else tool\<lparr>t_execute := OwnerOnlyError\<rparr>)"

definition applyOwnerOnlyToolPolicy :: "AnyAgentTool list \<Rightarrow> bool \<Rightarrow> AnyAgentTool list" where
  "applyOwnerOnlyToolPolicy tools senderIsOwner =
     (let withGuard = map (\<lambda>tool. if \<not> isOwnerOnlyTool tool then tool else wrapOwnerOnlyToolExecution tool senderIsOwner) tools
      in if senderIsOwner then withGuard else filter (\<lambda>tool. \<not> isOwnerOnlyTool tool) withGuard)"

definition normalizeToolList :: "string list option \<Rightarrow> string list" where
  "normalizeToolList list = (case list of None \<Rightarrow> [] | Some l \<Rightarrow> filter (\<lambda>n. n \<noteq> []) (map normalizeToolName l))"

definition expandToolGroups :: "string list option \<Rightarrow> string list" where
  "expandToolGroups list =
     set_of_list (concat (map (\<lambda>value. case map_of TOOL_GROUPS value of Some members \<Rightarrow> members | None \<Rightarrow> [value]) (normalizeToolList list)))"

definition collectExplicitAllowlist :: "ToolPolicyLike option list \<Rightarrow> string list" where
  "collectExplicitAllowlist policies =
     concat (map (\<lambda>policy. case policy of None \<Rightarrow> [] | Some p \<Rightarrow>
        (case tp_allow p of None \<Rightarrow> [] | Some allow \<Rightarrow> filter (\<lambda>v. v \<noteq> []) (map trim allow))) policies)"

subsection \<open>Plugin groups\<close>

record PluginToolGroups =
  pg_all :: "string list"
  pg_byPlugin :: "(string \<times> string list) list"

definition addPluginName :: "(AnyAgentTool \<Rightarrow> string option) \<Rightarrow> AnyAgentTool \<Rightarrow> PluginToolGroups \<Rightarrow> PluginToolGroups" where
  "addPluginName toolMeta tool g = (case toolMeta tool of
     None \<Rightarrow> g
   | Some pid \<Rightarrow>
       (let name = normalizeToolName (t_name tool); pluginId = to_lower pid;
            list = nullish (map_of (pg_byPlugin g) pluginId) []
        in \<lparr>pg_all = pg_all g @ [name], pg_byPlugin = AList.update pluginId (list @ [name]) (pg_byPlugin g)\<rparr>))"

definition buildPluginToolGroups :: "AnyAgentTool list \<Rightarrow> (AnyAgentTool \<Rightarrow> string option) \<Rightarrow> PluginToolGroups" where
  "buildPluginToolGroups tools toolMeta = fold (addPluginName toolMeta) tools \<lparr>pg_all = [], pg_byPlugin = []\<rparr>"

text \<open>What one entry of a list stands for.\<close>

definition expandPluginEntry :: "PluginToolGroups \<Rightarrow> string \<Rightarrow> string list" where
  "expandPluginEntry groups entry =
     (let normalized = normalizeToolName entry in
      if normalized = ''group:plugins'' then (if pg_all groups \<noteq> [] then pg_all groups else [normalized])
      else (case map_of (pg_byPlugin groups) normalized of
              Some (t # ts) \<Rightarrow> t # ts
            | _ \<Rightarrow> [normalized]))"

definition expandPluginGroups :: "string list option \<Rightarrow> PluginToolGroups \<Rightarrow> string list option" where
  "expandPluginGroups list groups = (case list of
     None \<Rightarrow> None
   | Some [] \<Rightarrow> Some []
   | Some l \<Rightarrow> Some (set_of_list (concat (map (expandPluginEntry groups) l))))"

definition expandPolicyWithPluginGroups :: "ToolPolicyLike option \<Rightarrow> PluginToolGroups \<Rightarrow> ToolPolicyLike option" where
  "expandPolicyWithPluginGroups policy groups = (case policy of None \<Rightarrow> None
     | Some p \<Rightarrow> Some \<lparr>tp_allow = expandPluginGroups (tp_allow p) groups, tp_deny = expandPluginGroups (tp_deny p) groups\<rparr>)"

record AllowlistResolution =
  ar_policy :: "ToolPolicyLike option"
  ar_unknownAllowlist :: "string list"
  ar_strippedAllowlist :: bool

definition isCoreEntry :: "string list \<Rightarrow> string \<Rightarrow> bool" where
  "isCoreEntry coreTools entry \<longleftrightarrow> list_ex (\<lambda>tool. tool \<in> set coreTools) (expandToolGroups (Some [entry]))"

definition isPluginEntry :: "PluginToolGroups \<Rightarrow> string \<Rightarrow> bool" where
  "isPluginEntry groups entry \<longleftrightarrow>
     entry = ''group:plugins'' \<or> entry \<in> set (map fst (pg_byPlugin groups)) \<or> entry \<in> set (pg_all groups)"

definition stripPluginOnlyAllowlist :: "ToolPolicyLike option \<Rightarrow> PluginToolGroups \<Rightarrow> string list \<Rightarrow> AllowlistResolution" where
  "stripPluginOnlyAllowlist policy groups coreTools =
     (let keep = \<lparr>ar_policy = policy, ar_unknownAllowlist = [], ar_strippedAllowlist = False\<rparr> in
      case policy of None \<Rightarrow> keep
      | Some p \<Rightarrow>
         (if tp_allow p = None \<or> tp_allow p = Some [] then keep
          else
            (let normalized = normalizeToolList (tp_allow p) in
             if normalized = [] then keep
             else
               (let stripped = \<not> list_ex (\<lambda>entry. entry = ''*'' \<or> isCoreEntry coreTools entry) normalized;
                    unknown = filter (\<lambda>entry. entry \<noteq> ''*'' \<and> \<not> isCoreEntry coreTools entry \<and> \<not> isPluginEntry groups entry) normalized
                in \<lparr>ar_policy = Some (if stripped then p\<lparr>tp_allow := None\<rparr> else p),
                     ar_unknownAllowlist = set_of_list unknown, ar_strippedAllowlist = stripped\<rparr>))))"

definition resolveToolProfilePolicy :: "string option \<Rightarrow> ToolPolicyLike option" where
  "resolveToolProfilePolicy profile = (case truthy profile of None \<Rightarrow> None
     | Some name \<Rightarrow> (case map_of TOOL_PROFILES name of None \<Rightarrow> None
        | Some p \<Rightarrow> if tp_allow p = None \<and> tp_deny p = None then None else Some p))"

definition mergeAlsoAllowPolicy :: "ToolPolicyLike option \<Rightarrow> string list option \<Rightarrow> ToolPolicyLike option" where
  "mergeAlsoAllowPolicy policy alsoAllow = (case policy of None \<Rightarrow> None
     | Some p \<Rightarrow> (case (tp_allow p, alsoAllow) of
          (Some a, Some (x # xs)) \<Rightarrow> Some (p\<lparr>tp_allow := Some (set_of_list (a @ x # xs))\<rparr>)
        | _ \<Rightarrow> Some p))"

subsection \<open>Patterns\<close>

datatype CompiledGlobPattern = GlobAll | GlobExact string | GlobRegex string

text \<open>\<open>GlobRegex p\<close> is the expression \<open>^...$\<close> in which every star of \<open>p\<close> is \<open>.*\<close> and everything else stands for itself;
  the dot does not match a line terminator.\<close>

function star_match :: "string \<Rightarrow> string \<Rightarrow> bool" where
  "star_match [] s = (s = [])"
| "star_match (p # ps) [] = (p = CHR ''*'' \<and> star_match ps [])"
| "star_match (p # ps) (c # s) =
     (if p = CHR ''*'' then star_match ps (c # s) \<or> (c \<noteq> NL \<and> c \<noteq> CR \<and> star_match (p # ps) s)
      else p = c \<and> star_match ps s)"
  by pat_completeness auto
termination by (relation "measures [\<lambda>(p, s). length p + length s]") auto

definition compileGlobPattern :: "(string \<Rightarrow> string) \<Rightarrow> string \<Rightarrow> CompiledGlobPattern" where
  "compileGlobPattern normalizeFn raw =
     (let normalized = normalizeFn raw in
      if normalized = [] then GlobExact []
      else if normalized = ''*'' then GlobAll
      else if CHR ''*'' \<notin> set normalized then GlobExact normalized
      else GlobRegex normalized)"

definition compileGlobPatterns :: "(string \<Rightarrow> string) \<Rightarrow> string list \<Rightarrow> CompiledGlobPattern list" where
  "compileGlobPatterns normalizeFn raw = filter (\<lambda>pattern. pattern \<noteq> GlobExact []) (map (compileGlobPattern normalizeFn) raw)"

definition globMatches :: "string \<Rightarrow> CompiledGlobPattern \<Rightarrow> bool" where
  "globMatches value pattern = (case pattern of GlobAll \<Rightarrow> True | GlobExact v \<Rightarrow> value = v | GlobRegex p \<Rightarrow> star_match p value)"

definition matchesAnyGlobPattern :: "string \<Rightarrow> CompiledGlobPattern list \<Rightarrow> bool" where
  "matchesAnyGlobPattern value patterns = list_ex (globMatches value) patterns"

subsection \<open>The matcher and the pipeline\<close>

definition makeToolPolicyMatcher :: "ToolPolicyLike \<Rightarrow> string \<Rightarrow> bool" where
  "makeToolPolicyMatcher policy name =
     (let deny = compileGlobPatterns normalizeToolName (expandToolGroups (Some (nullish (tp_deny policy) [])));
          allow = compileGlobPatterns normalizeToolName (expandToolGroups (Some (nullish (tp_allow policy) [])));
          normalized = normalizeToolName name
      in if matchesAnyGlobPattern normalized deny then False
         else if allow = [] then True
         else if matchesAnyGlobPattern normalized allow then True
         else normalized = ''apply_patch'' \<and> matchesAnyGlobPattern ''exec'' allow)"

definition isToolAllowedByPolicyName :: "string \<Rightarrow> ToolPolicyLike option \<Rightarrow> bool" where
  "isToolAllowedByPolicyName name policy = (case policy of None \<Rightarrow> True | Some p \<Rightarrow> makeToolPolicyMatcher p name)"

definition filterToolsByPolicy :: "AnyAgentTool list \<Rightarrow> ToolPolicyLike option \<Rightarrow> AnyAgentTool list" where
  "filterToolsByPolicy tools policy = (case policy of None \<Rightarrow> tools | Some p \<Rightarrow> filter (\<lambda>tool. makeToolPolicyMatcher p (t_name tool)) tools)"

definition isToolAllowedByPolicies :: "string \<Rightarrow> ToolPolicyLike option list \<Rightarrow> bool" where
  "isToolAllowedByPolicies name policies = list_all (isToolAllowedByPolicyName name) policies"

record ToolPolicyPipelineStep =
  st_policy :: "ToolPolicyLike option"
  st_label :: string
  st_strip :: bool

record default_steps =
  ds_profilePolicy :: "ToolPolicyLike option"
  ds_profile :: "string option"
  ds_providerProfilePolicy :: "ToolPolicyLike option"
  ds_providerProfile :: "string option"
  ds_globalPolicy :: "ToolPolicyLike option"
  ds_globalProviderPolicy :: "ToolPolicyLike option"
  ds_agentPolicy :: "ToolPolicyLike option"
  ds_agentProviderPolicy :: "ToolPolicyLike option"
  ds_groupPolicy :: "ToolPolicyLike option"
  ds_agentId :: "string option"

definition strip_step :: "ToolPolicyLike option \<Rightarrow> string \<Rightarrow> ToolPolicyPipelineStep" where
  "strip_step policy label = \<lparr>st_policy = policy, st_label = label, st_strip = True\<rparr>"

definition buildDefaultToolPolicyPipelineSteps :: "default_steps \<Rightarrow> ToolPolicyPipelineStep list" where
  "buildDefaultToolPolicyPipelineSteps p =
     (let agentId = truthy (map_option trim (ds_agentId p)); profile = truthy (map_option trim (ds_profile p));
          providerProfile = truthy (map_option trim (ds_providerProfile p))
      in [strip_step (ds_profilePolicy p) (case profile of Some n \<Rightarrow> ''tools.profile ('' @ n @ '')'' | None \<Rightarrow> ''tools.profile''),
          strip_step (ds_providerProfilePolicy p) (case providerProfile of Some n \<Rightarrow> ''tools.byProvider.profile ('' @ n @ '')''
             | None \<Rightarrow> ''tools.byProvider.profile''),
          strip_step (ds_globalPolicy p) ''tools.allow'',
          strip_step (ds_globalProviderPolicy p) ''tools.byProvider.allow'',
          strip_step (ds_agentPolicy p) (case agentId of Some i \<Rightarrow> ''agents.'' @ i @ ''.tools.allow'' | None \<Rightarrow> ''agent tools.allow''),
          strip_step (ds_agentProviderPolicy p) (case agentId of Some i \<Rightarrow> ''agents.'' @ i @ ''.tools.byProvider.allow''
             | None \<Rightarrow> ''agent tools.byProvider.allow''),
          strip_step (ds_groupPolicy p) ''group tools.allow''])"

definition coreToolNames :: "AnyAgentTool list \<Rightarrow> (AnyAgentTool \<Rightarrow> string option) \<Rightarrow> string list" where
  "coreToolNames tools toolMeta =
     set_of_list (filter (\<lambda>n. n \<noteq> []) (map (\<lambda>tool. normalizeToolName (t_name tool)) (filter (\<lambda>tool. toolMeta tool = None) tools)))"

text \<open>The policy a step really applies, and the warning it gives: label, unknown entries, stripped.\<close>

definition stepPolicy :: "PluginToolGroups \<Rightarrow> string list \<Rightarrow> ToolPolicyPipelineStep \<Rightarrow> ToolPolicyLike option" where
  "stepPolicy groups core step = (case st_policy step of None \<Rightarrow> None
     | Some p \<Rightarrow> expandPolicyWithPluginGroups
         (if st_strip step then ar_policy (stripPluginOnlyAllowlist (Some p) groups core) else Some p) groups)"

definition stepWarnings :: "PluginToolGroups \<Rightarrow> string list \<Rightarrow> ToolPolicyPipelineStep \<Rightarrow> (string \<times> string list \<times> bool) list" where
  "stepWarnings groups core step =
     (let r = stripPluginOnlyAllowlist (st_policy step) groups core in
      if st_policy step \<noteq> None \<and> st_strip step \<and> ar_unknownAllowlist r \<noteq> []
      then [(st_label step, ar_unknownAllowlist r, ar_strippedAllowlist r)] else [])"

definition applyToolPolicyPipeline ::
  "AnyAgentTool list \<Rightarrow> (AnyAgentTool \<Rightarrow> string option) \<Rightarrow> ToolPolicyPipelineStep list
    \<Rightarrow> AnyAgentTool list \<times> (string \<times> string list \<times> bool) list" where
  "applyToolPolicyPipeline tools toolMeta steps =
     (let core = coreToolNames tools toolMeta; groups = buildPluginToolGroups tools toolMeta in
      fold (\<lambda>step (filtered, warned).
          (filterToolsByPolicy filtered (stepPolicy groups core step), warned @ stepWarnings groups core step))
        steps (tools, []))"

subsection \<open>Tools of plugins (plugins/tools.ts)\<close>

text \<open>One registered tool factory; what the factory returned in this context: it threw, gave nothing, or tools.\<close>

record plugin_tool_entry =
  pe_pluginId :: string
  pe_optional :: bool
  pe_result :: "string + AnyAgentTool list option"

definition isOptionalToolAllowed :: "string \<Rightarrow> string \<Rightarrow> string list \<Rightarrow> bool" where
  "isOptionalToolAllowed toolName pluginId allowlist \<longleftrightarrow> allowlist \<noteq> [] \<and>
     (normalizeToolName toolName \<in> set allowlist \<or> normalizeToolName pluginId \<in> set allowlist \<or> ''group:plugins'' \<in> set allowlist)"

record plugin_tools_state =
  ps_tools :: "(AnyAgentTool \<times> string) list"
  ps_existing :: "string list"
  ps_blocked :: "string list"

text \<open>The inner loop: a tool whose name is taken is dropped.\<close>

definition addPluginTool :: "string \<Rightarrow> AnyAgentTool \<Rightarrow> plugin_tools_state \<Rightarrow> plugin_tools_state" where
  "addPluginTool pid tool s =
     (if t_name tool \<in> set (ps_existing s) then s
      else s\<lparr>ps_existing := ps_existing s @ [t_name tool], ps_tools := ps_tools s @ [(tool, pid)]\<rparr>)"

definition addPluginEntry :: "string list \<Rightarrow> string list \<Rightarrow> plugin_tool_entry \<Rightarrow> plugin_tools_state \<Rightarrow> plugin_tools_state" where
  "addPluginEntry existingNormalized allowlist e s =
     (if pe_pluginId e \<in> set (ps_blocked s) then s
      else if normalizeToolName (pe_pluginId e) \<in> set existingNormalized then s\<lparr>ps_blocked := ps_blocked s @ [pe_pluginId e]\<rparr>
      else (case pe_result e of
         Inl err \<Rightarrow> s
       | Inr None \<Rightarrow> s
       | Inr (Some listRaw) \<Rightarrow>
          fold (addPluginTool (pe_pluginId e))
            (if pe_optional e then filter (\<lambda>t. isOptionalToolAllowed (t_name t) (pe_pluginId e) allowlist) listRaw else listRaw) s))"

definition resolvePluginTools ::
  "bool \<Rightarrow> plugin_tool_entry list \<Rightarrow> string list option \<Rightarrow> string list option \<Rightarrow> (AnyAgentTool \<times> string) list" where
  "resolvePluginTools enabled registry existingToolNames toolAllowlist =
     (if \<not> enabled then []
      else (let existing = nullish existingToolNames [] in
        ps_tools (fold (addPluginEntry (map normalizeToolName existing) (normalizeToolList toolAllowlist)) registry
          \<lparr>ps_tools = [], ps_existing = existing, ps_blocked = []\<rparr>)))"


section \<open>What a policy lets through\<close>

text \<open>Names are normal after one normalisation, and a normal name is never an alias.\<close>

lemma to_lower_rev: "to_lower (rev s) = rev (to_lower s)"
  by (simp add: to_lower_def rev_map)

lemma to_lower_dropWhile: "to_lower (dropWhile is_ws s) = dropWhile is_ws (to_lower s)"
  by (induction s) (auto simp: to_lower_def)

lemma to_lower_trim: "to_lower (trim s) = trim (to_lower s)"
  by (simp add: trim_def to_lower_rev to_lower_dropWhile)

lemma normal_alias: "map_of TOOL_NAME_ALIASES n = Some m \<Longrightarrow> m = to_lower (trim m) \<and> map_of TOOL_NAME_ALIASES m = None"
  by (auto simp: TOOL_NAME_ALIASES_def to_lower_def lower_char_def trim_def is_ws_def split: if_splits)

lemma normalizeToolName_idem [simp]: "normalizeToolName (normalizeToolName s) = normalizeToolName s"
proof (cases "map_of TOOL_NAME_ALIASES (to_lower (trim s))")
  case None
  then show ?thesis by (simp add: normalizeToolName_def to_lower_trim)
next
  case (Some m)
  with normal_alias [OF Some] show ?thesis by (simp add: normalizeToolName_def)
qed

text \<open>A star stands for any text without line breaks, other characters for themselves.\<close>

lemma star_match_literal: "CHR ''*'' \<notin> set p \<Longrightarrow> star_match (p @ q) s \<longleftrightarrow> (\<exists>t. s = p @ t \<and> star_match q t)"
proof (induction p arbitrary: s)
  case (Cons c p)
  then show ?case by (cases s) auto
qed simp

lemma star_match_star:
  "star_match (CHR ''*'' # q) s \<longleftrightarrow> (\<exists>u t. s = u @ t \<and> NL \<notin> set u \<and> CR \<notin> set u \<and> star_match q t)"
proof (induction s)
  case (Cons c s)
  show ?case
  proof
    assume "star_match (CHR ''*'' # q) (c # s)"
    then consider "star_match q (c # s)" | "c \<noteq> NL" "c \<noteq> CR" "star_match (CHR ''*'' # q) s" by auto
    then show "\<exists>u t. c # s = u @ t \<and> NL \<notin> set u \<and> CR \<notin> set u \<and> star_match q t"
    proof cases
      case 1
      then have "c # s = [] @ (c # s) \<and> NL \<notin> set [] \<and> CR \<notin> set [] \<and> star_match q (c # s)" by simp
      then show ?thesis by blast
    next
      case 2
      then obtain u t where "s = u @ t" "NL \<notin> set u" "CR \<notin> set u" "star_match q t" using Cons by blast
      with 2 have "c # s = (c # u) @ t \<and> NL \<notin> set (c # u) \<and> CR \<notin> set (c # u) \<and> star_match q t" by simp
      then show ?thesis by blast
    qed
  next
    assume "\<exists>u t. c # s = u @ t \<and> NL \<notin> set u \<and> CR \<notin> set u \<and> star_match q t"
    then obtain u t where "c # s = u @ t" "NL \<notin> set u" "CR \<notin> set u" "star_match q t" by blast
    then show "star_match (CHR ''*'' # q) (c # s)" using Cons by (cases u) auto
  qed
qed simp

text \<open>An exact entry of a deny list reaches the tool of that name, unless the name is a plugin's id.\<close>

lemma compile_exact:
  assumes "v \<in> set raw" "normalizeToolName v = n" "n \<noteq> []" "CHR ''*'' \<notin> set n"
  shows "matchesAnyGlobPattern n (compileGlobPatterns normalizeToolName raw)"
proof -
  have "compileGlobPattern normalizeToolName v = GlobExact n" using assms by (auto simp: compileGlobPattern_def Let_def)
  then have "GlobExact n \<in> set (compileGlobPatterns normalizeToolName raw)"
    using assms(1,3) by (force simp: compileGlobPatterns_def)
  then show ?thesis by (force simp: matchesAnyGlobPattern_def list_ex_iff globMatches_def)
qed

lemma expandToolGroups_plain:
  "v \<in> set l \<Longrightarrow> normalizeToolName v = n \<Longrightarrow> n \<noteq> [] \<Longrightarrow> map_of TOOL_GROUPS n = None \<Longrightarrow> n \<in> set (expandToolGroups (Some l))"
  by (force simp: expandToolGroups_def normalizeToolList_def)

lemma expandToolGroups_member:
  "v \<in> set l \<Longrightarrow> map_of TOOL_GROUPS (normalizeToolName v) = Some ms \<Longrightarrow> n \<in> set ms \<Longrightarrow> normalizeToolName v \<noteq> [] \<Longrightarrow>
   n \<in> set (expandToolGroups (Some l))"
  by (force simp: expandToolGroups_def normalizeToolList_def)

definition plain_name :: "PluginToolGroups \<Rightarrow> string \<Rightarrow> bool" where
  "plain_name g n \<longleftrightarrow> n \<noteq> [] \<and> n \<noteq> ''group:plugins'' \<and> map_of (pg_byPlugin g) n = None \<and> map_of TOOL_GROUPS n = None \<and>
     CHR ''*'' \<notin> set n"

lemma expandPluginGroups_plain:
  assumes "e \<in> set l" "plain_name g (normalizeToolName e)"
  shows "\<exists>l'. expandPluginGroups (Some l) g = Some l' \<and> normalizeToolName e \<in> set l'"
proof -
  have "expandPluginEntry g e = [normalizeToolName e]" using assms(2) by (simp add: expandPluginEntry_def plain_name_def Let_def)
  then show ?thesis using assms(1) by (cases l) (force simp: expandPluginGroups_def)+
qed

lemma denied_by_entry:
  assumes "tp_deny p = Some ds" "e \<in> set ds" "plain_name g (normalizeToolName e)" "normalizeToolName name = normalizeToolName e"
  shows "\<not> isToolAllowedByPolicyName name (expandPolicyWithPluginGroups (Some p) g)"
proof -
  let ?n = "normalizeToolName e"
  have n: "?n \<noteq> []" "map_of TOOL_GROUPS ?n = None" "CHR ''*'' \<notin> set ?n" using assms(3) by (auto simp: plain_name_def)
  obtain l where l: "expandPluginGroups (Some ds) g = Some l" "?n \<in> set l"
    using expandPluginGroups_plain [OF assms(2,3)] by blast
  have "?n \<in> set (expandToolGroups (Some l))" using expandToolGroups_plain [OF l(2) normalizeToolName_idem] n by simp
  from compile_exact [OF this normalizeToolName_idem n(1,3)]
  have "matchesAnyGlobPattern ?n (compileGlobPatterns normalizeToolName (expandToolGroups (Some l)))" .
  then show ?thesis
    using l(1) assms(1,4) by (simp add: isToolAllowedByPolicyName_def expandPolicyWithPluginGroups_def makeToolPolicyMatcher_def Let_def)
qed

text \<open>The keys of the plugin groups are the ids of the plugins that have tools.\<close>

lemma plugin_group_keys:
  assumes "map_of (pg_byPlugin (buildPluginToolGroups tools toolMeta)) k = Some l"
  shows "\<exists>t \<in> set tools. \<exists>pid. toolMeta t = Some pid \<and> to_lower pid = k"
proof -
  have step: "k = to_lower pid \<and> toolMeta t = Some pid \<or> map_of (pg_byPlugin g) k \<noteq> None"
    if "map_of (pg_byPlugin (addPluginName toolMeta t g)) k \<noteq> None" "toolMeta t = Some pid \<or> toolMeta t = None" for t g pid
    using that by (auto simp: addPluginName_def Let_def split: if_splits option.splits)
  have "(\<exists>t \<in> set ts. \<exists>pid. toolMeta t = Some pid \<and> to_lower pid = k) \<or> map_of (pg_byPlugin g) k \<noteq> None"
    if "map_of (pg_byPlugin (fold (addPluginName toolMeta) ts g)) k \<noteq> None" for ts g
    using that
  proof (induction ts arbitrary: g)
    case (Cons t ts)
    then show ?case using step [of t g] by (cases "toolMeta t") (auto, blast+)
  qed simp
  from this [of tools "\<lparr>pg_all = [], pg_byPlugin = []\<rparr>"] assms show ?thesis
    by (simp add: buildPluginToolGroups_def)
qed

section \<open>The pipeline\<close>

definition stepAllows :: "AnyAgentTool list \<Rightarrow> (AnyAgentTool \<Rightarrow> string option) \<Rightarrow> AnyAgentTool \<Rightarrow> ToolPolicyPipelineStep \<Rightarrow> bool" where
  "stepAllows tools toolMeta t step \<longleftrightarrow> isToolAllowedByPolicyName (t_name t)
     (stepPolicy (buildPluginToolGroups tools toolMeta) (coreToolNames tools toolMeta) step)"

lemma filterTools_filter: "filterToolsByPolicy tools p = filter (\<lambda>t. isToolAllowedByPolicyName (t_name t) p) tools"
  by (simp add: filterToolsByPolicy_def isToolAllowedByPolicyName_def split: option.splits)

lemma pipeline_filter:
  "fst (applyToolPolicyPipeline tools toolMeta steps) = filter (\<lambda>t. list_all (stepAllows tools toolMeta t) steps) tools"
proof -
  let ?g = "buildPluginToolGroups tools toolMeta" and ?c = "coreToolNames tools toolMeta"
  have "fst (fold (\<lambda>step (filtered, warned).
          (filterToolsByPolicy filtered (stepPolicy ?g ?c step), warned @ stepWarnings ?g ?c step)) steps (xs, w)) =
      filter (\<lambda>t. list_all (stepAllows tools toolMeta t) steps) xs" for xs w
    by (induction steps arbitrary: xs w) (simp_all add: filterTools_filter stepAllows_def conj_commute)
  then show ?thesis by (simp add: applyToolPolicyPipeline_def Let_def)
qed

lemma step_deny:
  assumes "st_policy step = Some p" "tp_deny p = Some ds" "e \<in> set ds"
    "plain_name (buildPluginToolGroups tools toolMeta) (normalizeToolName e)" "normalizeToolName (t_name t) = normalizeToolName e"
  shows "\<not> stepAllows tools toolMeta t step"
proof -
  let ?g = "buildPluginToolGroups tools toolMeta" and ?c = "coreToolNames tools toolMeta"
  have "\<exists>q. (if st_strip step then ar_policy (stripPluginOnlyAllowlist (Some p) ?g ?c) else Some p) = Some q \<and> tp_deny q = Some ds"
    using assms(2) by (auto simp: stripPluginOnlyAllowlist_def Let_def)
  then obtain q where "stepPolicy ?g ?c step = expandPolicyWithPluginGroups (Some q) ?g" "tp_deny q = Some ds"
    using assms(1) by (auto simp: stepPolicy_def)
  with denied_by_entry [OF _ assms(3-5)] show ?thesis by (simp add: stepAllows_def)
qed


text \<open>Owner-only tools.\<close>

lemma ownerOnly_wrap [simp]: "isOwnerOnlyTool (wrapOwnerOnlyToolExecution t o') = isOwnerOnlyTool t"
  by (simp add: wrapOwnerOnlyToolExecution_def isOwnerOnlyTool_def)

lemma wrap_owner: "wrapOwnerOnlyToolExecution t True = t"
  by (simp add: wrapOwnerOnlyToolExecution_def)

lemma owner_filter: "applyOwnerOnlyToolPolicy tools o' = (if o' then tools else filter (\<lambda>t. \<not> isOwnerOnlyTool t) tools)"
proof -
  have "filter (\<lambda>t. \<not> isOwnerOnlyTool t) (map (\<lambda>t. if \<not> isOwnerOnlyTool t then t else wrapOwnerOnlyToolExecution t False) ts) =
      filter (\<lambda>t. \<not> isOwnerOnlyTool t) ts" for ts
    by (induction ts) auto
  then show ?thesis by (cases o') (simp_all add: applyOwnerOnlyToolPolicy_def Let_def wrap_owner map_idI)
qed

section \<open>Tools of plugins\<close>

text \<open>Plugin tools have fresh, distinct names, and the id of their plugin is not the name of a core tool.\<close>

definition plugin_tools_ok :: "string list \<Rightarrow> plugin_tools_state \<Rightarrow> bool" where
  "plugin_tools_ok core s \<longleftrightarrow> set core \<subseteq> set (ps_existing s) \<and>
     (\<forall>(t, pid) \<in> set (ps_tools s). t_name t \<notin> set core \<and> t_name t \<in> set (ps_existing s) \<and>
        normalizeToolName pid \<notin> normalizeToolName ` set core) \<and>
     distinct (map (t_name \<circ> fst) (ps_tools s))"

lemma addPluginTool_ok:
  assumes "plugin_tools_ok core s" "normalizeToolName pid \<notin> normalizeToolName ` set core"
  shows "plugin_tools_ok core (addPluginTool pid t s)"
  using assms by (auto simp: plugin_tools_ok_def addPluginTool_def)

lemma addPluginEntry_ok:
  assumes "plugin_tools_ok core s"
  shows "plugin_tools_ok core (addPluginEntry (map normalizeToolName core) allow e s)"
proof -
  have "plugin_tools_ok core (fold (addPluginTool (pe_pluginId e)) ts s)"
    if "normalizeToolName (pe_pluginId e) \<notin> normalizeToolName ` set core" for ts
    using assms that by (induction ts arbitrary: s) (auto intro: addPluginTool_ok)
  moreover have "plugin_tools_ok core (s\<lparr>ps_blocked := b\<rparr>)" for b using assms by (simp add: plugin_tools_ok_def)
  ultimately show ?thesis using assms by (simp add: addPluginEntry_def split: sum.splits option.splits)
qed

lemma resolvePluginTools_fresh:
  assumes "(t, pid) \<in> set (resolvePluginTools enabled registry existing allow)"
  shows "t_name t \<notin> set (nullish existing [])"
    "normalizeToolName pid \<notin> normalizeToolName ` set (nullish existing [])"
    "distinct (map (t_name \<circ> fst) (resolvePluginTools enabled registry existing allow))"
proof -
  let ?core = "nullish existing []"
  have "plugin_tools_ok ?core (fold (addPluginEntry (map normalizeToolName ?core) a) r s)" if "plugin_tools_ok ?core s" for a r s
    using that by (induction r arbitrary: s) (auto intro: addPluginEntry_ok)
  from this [of "\<lparr>ps_tools = [], ps_existing = ?core, ps_blocked = []\<rparr>"] assms
  show "t_name t \<notin> set ?core" "normalizeToolName pid \<notin> normalizeToolName ` set ?core"
    "distinct (map (t_name \<circ> fst) (resolvePluginTools enabled registry existing allow))"
    by (fastforce simp: resolvePluginTools_def plugin_tools_ok_def Let_def split: if_splits)+
qed

text \<open>A plugin's id that is normal as a tool name is the id in the groups, so that the guard above keeps the names of the
  existing tools out of the plugin groups.\<close>

lemma plugin_key_normal: "to_lower pid = normalizeToolName n \<Longrightarrow> normalizeToolName pid = normalizeToolName n"
proof -
  assume k: "to_lower pid = normalizeToolName n"
  define m where "m = normalizeToolName n"
  have m: "to_lower (trim m) = m"
  proof (cases "map_of TOOL_NAME_ALIASES (to_lower (trim n))")
    case None
    then show ?thesis by (simp add: m_def normalizeToolName_def to_lower_trim)
  next
    case (Some x)
    then have "m = x" by (simp add: m_def normalizeToolName_def)
    with normal_alias [OF Some] show ?thesis by metis
  qed
  have "to_lower (trim pid) = trim m" unfolding to_lower_trim k m_def ..
  moreover have "trim m = m" using m by (metis to_lower_trim trim_idem)
  moreover have "normalizeToolName m = m" by (simp add: m_def)
  ultimately show ?thesis unfolding m_def [symmetric] using m by (simp add: normalizeToolName_def)
qed

end
