(* ===== verification/Agent_Tools.thy ===== *)
theory Agent_Tools
  imports Tool_Policy Session_Key
begin

section \<open>The tools an agent is offered (agents/pi-tools.policy.ts, agents/pi-tools.ts)\<close>

text \<open>
  Which policies apply to a session: the agent's entry in the configuration (agents/agent-scope.ts),
  the policies of the provider and of the group the message came from (config/group-policy.ts), the
  sandbox (agents/sandbox/tool-policy.ts) and the rules for sub-agents, whose depth is found in the
  session store (agents/subagent-depth.ts). The last part composes them the way
  \<open>createOpenClawCodingTools\<close> does.
\<close>

subsection \<open>Configuration and agents\<close>

record ToolPolicyConfig =
  tc_allow :: "string list option"
  tc_alsoAllow :: "string list option"
  tc_deny :: "string list option"
  tc_profile :: "string option"

record ToolsConfig = ToolPolicyConfig +
  tc_byProvider :: "(string \<times> ToolPolicyConfig) list option"
  tc_subagents :: "ToolPolicyLike option"
  tc_sandbox :: "ToolPolicyLike option"

record AgentEntry =
  ae_id :: string
  ae_default :: bool
  ae_tools :: "ToolsConfig option"

record ChannelGroupConfig =
  gc_requireMention :: "bool option"
  gc_tools :: "ToolPolicyConfig option"
  gc_toolsBySender :: "(string \<times> ToolPolicyConfig) list option"

type_synonym ChannelGroups = "(string \<times> ChannelGroupConfig) list"

record ChannelConfig =
  cc_accounts :: "(string \<times> ChannelGroups option) list option"
  cc_groups :: "ChannelGroups option"

record OpenClawConfig =
  cfg_agents :: "AgentEntry list option"
  cfg_maxSpawnDepth :: "int option"
  cfg_tools :: "ToolsConfig option"
  cfg_channels :: "(string \<times> ChannelConfig) list"

definition listAgentEntries :: "OpenClawConfig \<Rightarrow> AgentEntry list" where
  "listAgentEntries cfg = nullish (cfg_agents cfg) []"

definition listAgentIds :: "OpenClawConfig \<Rightarrow> string list" where
  "listAgentIds cfg = (let agents = listAgentEntries cfg in
     if agents = [] then [DEFAULT_AGENT_ID] else set_of_list (map (\<lambda>e. normalizeAgentId (Some (ae_id e))) agents))"

definition resolveDefaultAgentId :: "OpenClawConfig \<Rightarrow> string" where
  "resolveDefaultAgentId cfg = (case listAgentEntries cfg of
     [] \<Rightarrow> DEFAULT_AGENT_ID
   | a # as \<Rightarrow>
      (let chosen = trim (ae_id (hd (filter ae_default (a # as) @ [a])))
       in normalizeAgentId (Some (or_string chosen DEFAULT_AGENT_ID))))"

definition resolveSessionAgentIds :: "string option \<Rightarrow> OpenClawConfig \<Rightarrow> string \<times> string" where
  "resolveSessionAgentIds sessionKey cfg =
     (let defaultAgentId = resolveDefaultAgentId cfg;
          parsed = (case truthy (map_option trim sessionKey) of None \<Rightarrow> None | Some k \<Rightarrow> parseAgentSessionKey (Some (to_lower k)))
      in (defaultAgentId, case parsed of None \<Rightarrow> defaultAgentId | Some p \<Rightarrow> normalizeAgentId (Some (pk_agentId p))))"

definition resolveAgentEntry :: "OpenClawConfig \<Rightarrow> string \<Rightarrow> AgentEntry option" where
  "resolveAgentEntry cfg agentId =
     find (\<lambda>entry. normalizeAgentId (Some (ae_id entry)) = normalizeAgentId (Some agentId)) (listAgentEntries cfg)"

text \<open>The tools of \<open>resolveAgentConfig\<close>, the one field the policies read.\<close>

definition resolveAgentTools :: "OpenClawConfig \<Rightarrow> string \<Rightarrow> ToolsConfig option" where
  "resolveAgentTools cfg agentId =
     Option.bind (resolveAgentEntry cfg (normalizeAgentId (Some agentId))) ae_tools"

subsection \<open>Policies from configuration\<close>

definition unionAllow :: "string list option \<Rightarrow> string list option \<Rightarrow> string list option" where
  "unionAllow base extra =
     (if nullish extra [] = [] then base
      else if nullish base [] = [] then Some (set_of_list (''*'' # nullish extra []))
      else Some (set_of_list (nullish base [] @ nullish extra [])))"

definition pickSandboxToolPolicy :: "'a ToolPolicyConfig_scheme option \<Rightarrow> ToolPolicyLike option" where
  "pickSandboxToolPolicy config = (case config of None \<Rightarrow> None
     | Some c \<Rightarrow>
        (let allow = (if tc_allow c \<noteq> None then unionAllow (tc_allow c) (tc_alsoAllow c)
                      else if nullish (tc_alsoAllow c) [] \<noteq> [] then unionAllow None (tc_alsoAllow c) else None)
         in if allow = None \<and> tc_deny c = None then None else Some \<lparr>tp_allow = allow, tp_deny = tc_deny c\<rparr>))"

definition SUBAGENT_TOOL_DENY_ALWAYS :: "string list" where
  "SUBAGENT_TOOL_DENY_ALWAYS =
    [''gateway'', ''agents_list'', ''whatsapp_login'', ''session_status'', ''cron'', ''memory_search'', ''memory_get'', ''sessions_send'']"

definition SUBAGENT_TOOL_DENY_LEAF :: "string list" where
  "SUBAGENT_TOOL_DENY_LEAF = [''sessions_list'', ''sessions_history'', ''sessions_spawn'']"

definition resolveSubagentDenyList :: "nat \<Rightarrow> int \<Rightarrow> string list" where
  "resolveSubagentDenyList depth maxSpawnDepth =
     (if int depth \<ge> max 1 maxSpawnDepth then SUBAGENT_TOOL_DENY_ALWAYS @ SUBAGENT_TOOL_DENY_LEAF else SUBAGENT_TOOL_DENY_ALWAYS)"

definition resolveSubagentToolPolicy :: "OpenClawConfig option \<Rightarrow> nat option \<Rightarrow> ToolPolicyLike" where
  "resolveSubagentToolPolicy cfg depth =
     (let configured = Option.bind (Option.bind cfg cfg_tools) tc_subagents;
          maxSpawnDepth = nullish (Option.bind cfg cfg_maxSpawnDepth) 1;
          baseDeny = resolveSubagentDenyList (nullish depth 1) maxSpawnDepth
      in \<lparr>tp_allow = Option.bind configured tp_allow, tp_deny = Some (baseDeny @ nullish (Option.bind configured tp_deny) [])\<rparr>)"

definition normalizeProviderKey :: "string \<Rightarrow> string" where
  "normalizeProviderKey value = to_lower (trim value)"

text \<open>\<open>new Map\<close> filled in the order of the entries, so that a later entry with the same key wins.\<close>

definition resolveProviderToolPolicy ::
  "(string \<times> ToolPolicyConfig) list option \<Rightarrow> string option \<Rightarrow> string option \<Rightarrow> ToolPolicyConfig option" where
  "resolveProviderToolPolicy byProvider modelProvider modelId =
     (case (truthy (map_option trim modelProvider), byProvider) of
        (Some provider, Some entries) \<Rightarrow>
          (let lookup = fold (\<lambda>(key, value) m. let k = normalizeProviderKey key in
                 if k = [] then m else AList.update k value m) entries [];
               normalizedProvider = normalizeProviderKey provider;
               fullModelId = (case truthy (map_option (to_lower \<circ> trim) modelId) of None \<Rightarrow> None
                 | Some m \<Rightarrow> Some (if CHR ''/'' \<notin> set m then normalizedProvider @ CHR ''/'' # m else m))
           in orelse (Option.bind fullModelId (map_of lookup)) (map_of lookup normalizedProvider))
      | _ \<Rightarrow> None)"

record EffectiveToolPolicy =
  ep_agentId :: "string option"
  ep_globalPolicy :: "ToolPolicyLike option"
  ep_globalProviderPolicy :: "ToolPolicyLike option"
  ep_agentPolicy :: "ToolPolicyLike option"
  ep_agentProviderPolicy :: "ToolPolicyLike option"
  ep_profile :: "string option"
  ep_providerProfile :: "string option"
  ep_profileAlsoAllow :: "string list option"
  ep_providerProfileAlsoAllow :: "string list option"

definition resolveEffectiveToolPolicy ::
  "OpenClawConfig option \<Rightarrow> string option \<Rightarrow> string option \<Rightarrow> string option \<Rightarrow> EffectiveToolPolicy" where
  "resolveEffectiveToolPolicy config sessionKey modelProvider modelId =
     (let agentId = map_option (\<lambda>k. resolveAgentIdFromSessionKey (Some k)) (truthy sessionKey);
          agentTools = (case (config, agentId) of (Some c, Some i) \<Rightarrow> resolveAgentTools c i | _ \<Rightarrow> None);
          globalTools = Option.bind config cfg_tools;
          providerPolicy = resolveProviderToolPolicy (Option.bind globalTools tc_byProvider) modelProvider modelId;
          agentProviderPolicy = resolveProviderToolPolicy (Option.bind agentTools tc_byProvider) modelProvider modelId
      in \<lparr>ep_agentId = agentId,
          ep_globalPolicy = pickSandboxToolPolicy globalTools,
          ep_globalProviderPolicy = pickSandboxToolPolicy providerPolicy,
          ep_agentPolicy = pickSandboxToolPolicy agentTools,
          ep_agentProviderPolicy = pickSandboxToolPolicy agentProviderPolicy,
          ep_profile = orelse (Option.bind agentTools tc_profile) (Option.bind globalTools tc_profile),
          ep_providerProfile = orelse (Option.bind agentProviderPolicy tc_profile) (Option.bind providerPolicy tc_profile),
          ep_profileAlsoAllow = orelse (Option.bind agentTools tc_alsoAllow) (Option.bind globalTools tc_alsoAllow),
          ep_providerProfileAlsoAllow = orelse (Option.bind agentProviderPolicy tc_alsoAllow) (Option.bind providerPolicy tc_alsoAllow)\<rparr>)"


subsection \<open>Groups (config/group-policy.ts, channels/registry.ts, utils/message-channel.ts)\<close>

definition CHAT_CHANNEL_ORDER :: "string list" where
  "CHAT_CHANNEL_ORDER = [''telegram'', ''whatsapp'', ''discord'', ''irc'', ''googlechat'', ''slack'', ''signal'', ''imessage'']"

definition CHANNEL_IDS :: "string list" where "CHANNEL_IDS = CHAT_CHANNEL_ORDER"

definition CHAT_CHANNEL_ALIASES :: "(string \<times> string) list" where
  "CHAT_CHANNEL_ALIASES = [(''imsg'', ''imessage''), (''internet-relay-chat'', ''irc''), (''google-chat'', ''googlechat''),
     (''gchat'', ''googlechat'')]"

definition normalizeChannelKey :: "string option \<Rightarrow> string option" where
  "normalizeChannelKey raw = truthy (map_option (to_lower \<circ> trim) raw)"

definition normalizeChatChannelId :: "string option \<Rightarrow> string option" where
  "normalizeChatChannelId raw = (case normalizeChannelKey raw of None \<Rightarrow> None
     | Some normalized \<Rightarrow> (let resolved = nullish (map_of CHAT_CHANNEL_ALIASES normalized) normalized
         in if resolved \<in> set CHAT_CHANNEL_ORDER then Some resolved else None))"

definition INTERNAL_MESSAGE_CHANNEL :: string where "INTERNAL_MESSAGE_CHANNEL = ''webchat''"

text \<open>The registered channel plugins are a list of ids with their aliases.\<close>

definition normalizeMessageChannel :: "(string \<times> string list) list \<Rightarrow> string option \<Rightarrow> string option" where
  "normalizeMessageChannel registry raw = (case truthy (map_option (to_lower \<circ> trim) raw) of None \<Rightarrow> None
     | Some normalized \<Rightarrow>
        if normalized = INTERNAL_MESSAGE_CHANNEL then Some INTERNAL_MESSAGE_CHANNEL
        else (case normalizeChatChannelId (Some normalized) of Some builtIn \<Rightarrow> Some builtIn
          | None \<Rightarrow> Some (case find (\<lambda>(i, aliases). to_lower i = normalized \<or> list_ex (\<lambda>a. to_lower (trim a) = normalized) aliases) registry of
               Some (i, _) \<Rightarrow> i | None \<Rightarrow> normalized)))"

definition resolveChannelGroupConfig :: "ChannelGroups option \<Rightarrow> string \<Rightarrow> bool \<Rightarrow> ChannelGroupConfig option" where
  "resolveChannelGroupConfig groups groupId caseInsensitive = (case groups of None \<Rightarrow> None
     | Some g \<Rightarrow> (case map_of g groupId of Some direct \<Rightarrow> Some direct
        | None \<Rightarrow> if \<not> caseInsensitive then None
            else (case find (\<lambda>key. key \<noteq> ''*'' \<and> to_lower key = to_lower groupId) (map fst g) of
                 None \<Rightarrow> None | Some k \<Rightarrow> if k = [] then None else map_of g k)))"

definition normalizeSenderKey :: "string \<Rightarrow> string" where
  "normalizeSenderKey value = (let trimmed = trim value in
     if trimmed = [] then [] else to_lower (if starts_with trimmed ''@'' then drop 1 trimmed else trimmed))"

record GroupToolPolicySender =
  gs_senderId :: "string option"
  gs_senderName :: "string option"
  gs_senderUsername :: "string option"
  gs_senderE164 :: "string option"

text \<open>The first entry of a key wins, the last wildcard wins; candidates are tried in the order id, number, user name, name.\<close>

definition resolveToolsBySender :: "(string \<times> ToolPolicyConfig) list option \<Rightarrow> GroupToolPolicySender \<Rightarrow> ToolPolicyConfig option" where
  "resolveToolsBySender toolsBySender sender = (case toolsBySender of None \<Rightarrow> None
     | Some entries \<Rightarrow>
        (let keyed = map (\<lambda>(raw, policy). (normalizeSenderKey raw, policy)) entries;
             normalized = filter (\<lambda>(key, _). key \<noteq> [] \<and> key \<noteq> ''*'') keyed;
             wildcard = map_of (rev (filter (\<lambda>(key, _). key = ''*'') keyed)) ''*'';
             candidates = List.map_filter (\<lambda>v. truthy (map_option trim v))
               [gs_senderId sender, gs_senderE164 sender, gs_senderUsername sender, gs_senderName sender];
             match = List.map_filter (\<lambda>c. let key = normalizeSenderKey c in if key = [] then None else map_of normalized key) candidates
         in (case match of m # _ \<Rightarrow> Some m | [] \<Rightarrow> wildcard)))"

definition resolveChannelGroups :: "OpenClawConfig \<Rightarrow> string \<Rightarrow> string option \<Rightarrow> ChannelGroups option" where
  "resolveChannelGroups cfg channel accountId = (case map_of (cfg_channels cfg) channel of None \<Rightarrow> None
     | Some cc \<Rightarrow>
        (let normalizedAccountId = normalizeAccountId accountId;
             accounts = nullish (cc_accounts cc) [];
             groupsOf = (\<lambda>key. Option.bind (map_of accounts key) (\<lambda>g. g));
             other = nullish (find (\<lambda>key. to_lower key = to_lower normalizedAccountId) (map fst accounts)) []
         in orelse (orelse (groupsOf normalizedAccountId) (groupsOf other)) (cc_groups cc)))"

record ChannelGroupPolicy =
  cp_allowlistEnabled :: bool
  cp_allowed :: bool
  cp_groupConfig :: "ChannelGroupConfig option"
  cp_defaultConfig :: "ChannelGroupConfig option"

definition resolveChannelGroupPolicy ::
  "OpenClawConfig \<Rightarrow> string \<Rightarrow> string option \<Rightarrow> string option \<Rightarrow> bool \<Rightarrow> ChannelGroupPolicy" where
  "resolveChannelGroupPolicy cfg channel groupId accountId groupIdCaseInsensitive =
     (let groups = resolveChannelGroups cfg channel accountId;
          allowlistEnabled = (nullish groups [] \<noteq> []);
          groupConfig = (case truthy (map_option trim groupId) of None \<Rightarrow> None
            | Some i \<Rightarrow> resolveChannelGroupConfig groups i groupIdCaseInsensitive);
          defaultConfig = map_of (nullish groups []) ''*'';
          allowAll = (allowlistEnabled \<and> defaultConfig \<noteq> None)
      in \<lparr>cp_allowlistEnabled = allowlistEnabled, cp_allowed = (\<not> allowlistEnabled \<or> allowAll \<or> groupConfig \<noteq> None),
          cp_groupConfig = groupConfig, cp_defaultConfig = defaultConfig\<rparr>)"

datatype override_order = BeforeConfig | AfterConfig

definition resolveChannelGroupRequireMention ::
  "OpenClawConfig \<Rightarrow> string \<Rightarrow> string option \<Rightarrow> string option \<Rightarrow> bool \<Rightarrow> bool option \<Rightarrow> override_order option \<Rightarrow> bool" where
  "resolveChannelGroupRequireMention cfg channel groupId accountId caseInsensitive requireMentionOverride overrideOrder =
     (let policy = resolveChannelGroupPolicy cfg channel groupId accountId caseInsensitive;
          order = nullish overrideOrder AfterConfig;
          configMention = orelse (Option.bind (cp_groupConfig policy) gc_requireMention)
                                 (Option.bind (cp_defaultConfig policy) gc_requireMention)
      in if order = BeforeConfig \<and> requireMentionOverride \<noteq> None then nullish requireMentionOverride True
         else if configMention \<noteq> None then nullish configMention True
         else if order \<noteq> BeforeConfig \<and> requireMentionOverride \<noteq> None then nullish requireMentionOverride True
         else True)"

definition resolveChannelGroupToolsPolicy ::
  "OpenClawConfig \<Rightarrow> string \<Rightarrow> string option \<Rightarrow> string option \<Rightarrow> bool \<Rightarrow> GroupToolPolicySender \<Rightarrow> ToolPolicyConfig option" where
  "resolveChannelGroupToolsPolicy cfg channel groupId accountId caseInsensitive sender =
     (let policy = resolveChannelGroupPolicy cfg channel groupId accountId caseInsensitive;
          groupConfig = cp_groupConfig policy; defaultConfig = cp_defaultConfig policy
      in orelse (resolveToolsBySender (Option.bind groupConfig gc_toolsBySender) sender)
         (orelse (Option.bind groupConfig gc_tools)
         (orelse (resolveToolsBySender (Option.bind defaultConfig gc_toolsBySender) sender)
                 (Option.bind defaultConfig gc_tools))))"

text \<open>The channel and the group a session key names.\<close>

definition resolveGroupContextFromSessionKey :: "string option \<Rightarrow> string option \<times> string option" where
  "resolveGroupContextFromSessionKey sessionKey =
     (let raw = trim (nullish sessionKey []) in
      if raw = [] then (None, None)
      else
        (let parts = key_parts (nullish (resolveThreadParentSessionKey (Some raw)) raw);
             body0 = (if take 1 parts = [''agent''] then drop 2 parts else parts);
             body = (if take 1 body0 = [''subagent''] then drop 1 body0 else body0)
         in (case body of
              channel # kind # r # rest \<Rightarrow>
                (if kind \<noteq> ''group'' \<and> kind \<noteq> ''channel'' then (None, None)
                 else (let groupId = trim (join [COLON] (r # rest)) in
                   if groupId = [] then (None, None) else (Some (to_lower (trim channel)), Some groupId)))
            | _ \<Rightarrow> (None, None))))"

record group_params =
  gp_sessionKey :: "string option"
  gp_spawnedBy :: "string option"
  gp_messageProvider :: "string option"
  gp_groupId :: "string option"
  gp_accountId :: "string option"
  gp_sender :: GroupToolPolicySender

text \<open>\<open>dockPolicy\<close> is what the channel's own \<open>groups.resolveToolPolicy\<close> returns, if the channel has one.\<close>

definition resolveGroupToolPolicy ::
  "(string \<times> string list) list \<Rightarrow> (string \<Rightarrow> string \<Rightarrow> ToolPolicyConfig option) \<Rightarrow> OpenClawConfig option \<Rightarrow> group_params
    \<Rightarrow> ToolPolicyLike option" where
  "resolveGroupToolPolicy registry dockPolicy config p = (case config of None \<Rightarrow> None
     | Some cfg \<Rightarrow>
        (let (sessionChannel, sessionGroup) = resolveGroupContextFromSessionKey (gp_sessionKey p);
             (spawnedChannel, spawnedGroup) = resolveGroupContextFromSessionKey (gp_spawnedBy p)
         in (case truthy (orelse (gp_groupId p) (orelse sessionGroup spawnedGroup)) of None \<Rightarrow> None
            | Some groupId \<Rightarrow>
               (case truthy (normalizeMessageChannel registry (orelse (gp_messageProvider p) (orelse sessionChannel spawnedChannel))) of
                  None \<Rightarrow> None
                | Some channel \<Rightarrow> pickSandboxToolPolicy (orelse (dockPolicy channel groupId)
                    (resolveChannelGroupToolsPolicy cfg channel (Some groupId) (gp_accountId p) False (gp_sender p)))))))"


subsection \<open>Sandbox (agents/sandbox/tool-policy.ts)\<close>

definition DEFAULT_TOOL_ALLOW :: "string list" where
  "DEFAULT_TOOL_ALLOW = [''exec'', ''process'', ''read'', ''write'', ''edit'', ''apply_patch'', ''image'', ''sessions_list'',
     ''sessions_history'', ''sessions_send'', ''sessions_spawn'', ''subagents'', ''session_status'']"

definition DEFAULT_TOOL_DENY :: "string list" where
  "DEFAULT_TOOL_DENY = [''browser'', ''canvas'', ''nodes'', ''cron'', ''gateway''] @ CHANNEL_IDS"

definition normalizeGlob :: "string \<Rightarrow> string" where
  "normalizeGlob value = to_lower (trim value)"

definition isToolAllowed :: "ToolPolicyLike \<Rightarrow> string \<Rightarrow> bool" where
  "isToolAllowed policy name =
     (let normalized = normalizeGlob name;
          deny = compileGlobPatterns normalizeGlob (expandToolGroups (Some (nullish (tp_deny policy) [])));
          allow = compileGlobPatterns normalizeGlob (expandToolGroups (Some (nullish (tp_allow policy) [])))
      in if matchesAnyGlobPattern normalized deny then False
         else if allow = [] then True else matchesAnyGlobPattern normalized allow)"

datatype policy_source = SourceAgent | SourceGlobal | SourceDefault

record SandboxToolPolicyResolved =
  sr_allow :: "string list"
  sr_deny :: "string list"
  sr_allowSource :: policy_source
  sr_denySource :: policy_source

text \<open>The first configured list of the agent, the gateway and the default, with where it came from.\<close>

definition pickList :: "string list option \<Rightarrow> string list option \<Rightarrow> string list \<Rightarrow> string list \<times> policy_source" where
  "pickList agent global dflt = (case agent of Some l \<Rightarrow> (l, SourceAgent)
     | None \<Rightarrow> (case global of Some l \<Rightarrow> (l, SourceGlobal) | None \<Rightarrow> (dflt, SourceDefault)))"

definition resolveSandboxToolPolicyForAgent :: "OpenClawConfig option \<Rightarrow> string option \<Rightarrow> SandboxToolPolicyResolved" where
  "resolveSandboxToolPolicyForAgent cfg agentId =
     (let agentTools = (case (cfg, truthy agentId) of (Some c, Some i) \<Rightarrow> resolveAgentTools c i | _ \<Rightarrow> None);
          agentSandbox = Option.bind agentTools tc_sandbox;
          globalSandbox = Option.bind (Option.bind cfg cfg_tools) tc_sandbox;
          (allow, allowSource) = pickList (Option.bind agentSandbox tp_allow) (Option.bind globalSandbox tp_allow) DEFAULT_TOOL_ALLOW;
          (deny, denySource) = pickList (Option.bind agentSandbox tp_deny) (Option.bind globalSandbox tp_deny) DEFAULT_TOOL_DENY;
          expandedDeny = expandToolGroups (Some deny);
          expandedAllow = expandToolGroups (Some allow)
      in \<lparr>sr_allow = (if expandedAllow \<noteq> [] \<and> ''image'' \<notin> set (map to_lower expandedDeny) \<and> ''image'' \<notin> set (map to_lower expandedAllow)
                     then expandedAllow @ [''image''] else expandedAllow),
          sr_deny = expandedDeny, sr_allowSource = allowSource, sr_denySource = denySource\<rparr>)"

subsection \<open>Depth of a sub-agent (agents/subagent-depth.ts)\<close>

text \<open>A stored depth is a number, a text that \<open>Number\<close> reads (the argument \<open>jsNumber\<close>; \<open>None\<close> when it is not a finite
  number), or nothing usable. A session store is a JSON object; \<open>files\<close> are the stores on disk by path.\<close>

datatype stored_depth = DepthNumber rat | DepthText string | DepthOther

record SessionDepthEntry =
  sd_sessionId :: "string option"
  sd_spawnDepth :: stored_depth
  sd_spawnedBy :: "string option"

type_synonym depth_store = "(string \<times> SessionDepthEntry) list"

definition integral_depth :: "rat \<Rightarrow> nat option" where
  "integral_depth r = (if of_int \<lfloor>r\<rfloor> = r \<and> 0 \<le> r then Some (nat \<lfloor>r\<rfloor>) else None)"

definition normalizeSpawnDepth :: "(string \<Rightarrow> rat option) \<Rightarrow> stored_depth \<Rightarrow> nat option" where
  "normalizeSpawnDepth jsNumber value = (case value of
     DepthNumber r \<Rightarrow> integral_depth r
   | DepthText t \<Rightarrow> if trim t = [] then None else Option.bind (jsNumber (trim t)) integral_depth
   | DepthOther \<Rightarrow> None)"

definition normalizeSessionKey :: "string option \<Rightarrow> string option" where
  "normalizeSessionKey value = truthy (map_option trim value)"

definition buildKeyCandidates :: "string \<Rightarrow> OpenClawConfig option \<Rightarrow> string list" where
  "buildKeyCandidates rawKey cfg = (case cfg of None \<Rightarrow> [rawKey]
     | Some c \<Rightarrow>
        if rawKey = ''global'' \<or> rawKey = ''unknown'' then [rawKey]
        else if parseAgentSessionKey (Some rawKey) \<noteq> None then [rawKey]
        else (let prefixed = agent_key (resolveDefaultAgentId c) rawKey in if prefixed = rawKey then [rawKey] else [rawKey, prefixed]))"

definition findEntryBySessionId :: "depth_store \<Rightarrow> string \<Rightarrow> SessionDepthEntry option" where
  "findEntryBySessionId store sessionId = (case normalizeSessionKey (Some sessionId) of None \<Rightarrow> None
     | Some i \<Rightarrow> find (\<lambda>e. normalizeSessionKey (sd_sessionId e) = Some i) (map snd store))"

text \<open>The first \<open>Some\<close> a loop with an early return finds.\<close>

fun first_some :: "('a \<Rightarrow> 'b option) \<Rightarrow> 'a list \<Rightarrow> 'b option" where
  "first_some f [] = None"
| "first_some f (x # xs) = orelse (f x) (first_some f xs)"

definition resolveEntryForSessionKey ::
  "(string \<times> depth_store) list \<Rightarrow> (string \<Rightarrow> string) \<Rightarrow> OpenClawConfig option \<Rightarrow> depth_store option \<Rightarrow> string \<Rightarrow> SessionDepthEntry option" where
  "resolveEntryForSessionKey files storePath cfg store sessionKey =
     (let candidates = buildKeyCandidates sessionKey cfg in
      case store of
        Some st \<Rightarrow> orelse (first_some (map_of st) candidates) (findEntryBySessionId st sessionKey)
      | None \<Rightarrow> (case cfg of None \<Rightarrow> None
          | Some c \<Rightarrow> first_some (\<lambda>key. case parseAgentSessionKey (Some key) of None \<Rightarrow> None
               | Some parsed \<Rightarrow>
                  (let st = nullish (map_of files (storePath (pk_agentId parsed))) []
                   in orelse (map_of st key) (findEntryBySessionId st sessionKey))) candidates))"

text \<open>The recursion of \<open>depthFromStore\<close>, with the set of visited keys; \<open>None\<close> is a call that does not return.\<close>

partial_function (option) depthFromStore ::
  "(string \<Rightarrow> SessionDepthEntry option) \<Rightarrow> (string \<Rightarrow> rat option) \<Rightarrow> string list \<Rightarrow> string \<Rightarrow> nat option option" where
  "depthFromStore entryOf jsNumber visited key = (case normalizeSessionKey (Some key) of
     None \<Rightarrow> Some None
   | Some k \<Rightarrow>
      (if k \<in> set visited then Some None
       else (case Option.bind (map_option sd_spawnDepth (entryOf k)) (normalizeSpawnDepth jsNumber) of
          Some d \<Rightarrow> Some (Some d)
        | None \<Rightarrow> (case normalizeSessionKey (Option.bind (entryOf k) sd_spawnedBy) of
             None \<Rightarrow> Some None
           | Some spawnedBy \<Rightarrow> Option.bind (depthFromStore entryOf jsNumber (k # visited) spawnedBy)
               (\<lambda>parentDepth. Some (Some (case parentDepth of Some d \<Rightarrow> d + 1
                  | None \<Rightarrow> getSubagentDepth (Some spawnedBy) + 1)))))))"

definition getSubagentDepthFromSessionStore ::
  "(string \<times> depth_store) list \<Rightarrow> (string \<Rightarrow> string) \<Rightarrow> (string \<Rightarrow> rat option) \<Rightarrow> OpenClawConfig option \<Rightarrow> depth_store option
    \<Rightarrow> string option \<Rightarrow> nat option" where
  "getSubagentDepthFromSessionStore files storePath jsNumber cfg store sessionKey =
     (let raw = trim (nullish sessionKey []); fallbackDepth = getSubagentDepth (Some raw) in
      if raw = [] then Some fallbackDepth
      else map_option (\<lambda>d. nullish d fallbackDepth)
        (depthFromStore (resolveEntryForSessionKey files storePath cfg store) jsNumber [] raw))"

subsection \<open>The composition (agents/pi-tools.ts)\<close>

record tool_options =
  to_config :: "OpenClawConfig option"
  to_sessionKey :: "string option"
  to_modelProvider :: "string option"
  to_modelId :: "string option"
  to_group :: group_params
  to_sandboxEnabled :: bool
  to_sandboxTools :: "ToolPolicyLike option"
  to_senderIsOwner :: "bool option"

text \<open>Everything of the environment the composition reads: channel plugins, the channels' own group policies, the session
  stores with their paths, \<open>Number\<close>.\<close>

record tool_env =
  te_registry :: "(string \<times> string list) list"
  te_dockPolicy :: "string \<Rightarrow> string \<Rightarrow> ToolPolicyConfig option"
  te_files :: "(string \<times> depth_store) list"
  te_storePath :: "string \<Rightarrow> string"
  te_jsNumber :: "string \<Rightarrow> rat option"

definition subagentPolicyFor :: "tool_env \<Rightarrow> tool_options \<Rightarrow> ToolPolicyLike option option" where
  "subagentPolicyFor env opts =
     (if isSubagentSessionKey (to_sessionKey opts) \<and> truthy (to_sessionKey opts) \<noteq> None
      then map_option (\<lambda>depth. Some (resolveSubagentToolPolicy (to_config opts) (Some depth)))
        (getSubagentDepthFromSessionStore (te_files env) (te_storePath env) (te_jsNumber env) (to_config opts) None (to_sessionKey opts))
      else Some None)"

definition policySteps :: "tool_env \<Rightarrow> tool_options \<Rightarrow> ToolPolicyLike option \<Rightarrow> ToolPolicyPipelineStep list" where
  "policySteps env opts subagentPolicy =
     (let e = resolveEffectiveToolPolicy (to_config opts) (to_sessionKey opts) (to_modelProvider opts) (to_modelId opts);
          groupPolicy = resolveGroupToolPolicy (te_registry env) (te_dockPolicy env) (to_config opts)
            ((to_group opts)\<lparr>gp_sessionKey := to_sessionKey opts\<rparr>);
          profilePolicy = mergeAlsoAllowPolicy (resolveToolProfilePolicy (ep_profile e)) (ep_profileAlsoAllow e);
          providerProfilePolicy = mergeAlsoAllowPolicy (resolveToolProfilePolicy (ep_providerProfile e)) (ep_providerProfileAlsoAllow e)
      in buildDefaultToolPolicyPipelineSteps
           \<lparr>ds_profilePolicy = profilePolicy, ds_profile = ep_profile e, ds_providerProfilePolicy = providerProfilePolicy,
            ds_providerProfile = ep_providerProfile e, ds_globalPolicy = ep_globalPolicy e,
            ds_globalProviderPolicy = ep_globalProviderPolicy e, ds_agentPolicy = ep_agentPolicy e,
            ds_agentProviderPolicy = ep_agentProviderPolicy e, ds_groupPolicy = groupPolicy, ds_agentId = ep_agentId e\<rparr> @
         [\<lparr>st_policy = (if to_sandboxEnabled opts then to_sandboxTools opts else None), st_label = ''sandbox tools.allow'', st_strip = False\<rparr>,
          \<lparr>st_policy = subagentPolicy, st_label = ''subagent tools.allow'', st_strip = False\<rparr>])"

text \<open>From the assembled tools to the ones the agent is offered.\<close>

definition agentTools :: "tool_env \<Rightarrow> tool_options \<Rightarrow> (AnyAgentTool \<Rightarrow> string option) \<Rightarrow> AnyAgentTool list \<Rightarrow> AnyAgentTool list option" where
  "agentTools env opts toolMeta tools =
     map_option (\<lambda>subagentPolicy. fst (applyToolPolicyPipeline (applyOwnerOnlyToolPolicy tools (to_senderIsOwner opts = Some True))
        toolMeta (policySteps env opts subagentPolicy)))
       (subagentPolicyFor env opts)"


section \<open>The depth of a sub-agent is found\<close>

text \<open>The parents the session stores name.\<close>

definition parents :: "(string \<Rightarrow> SessionDepthEntry option) \<Rightarrow> string set" where
  "parents entryOf = {p. \<exists>k. normalizeSessionKey (Option.bind (entryOf k) sd_spawnedBy) = Some p}"

lemma normal_key: "normalizeSessionKey v = Some k \<Longrightarrow> normalizeSessionKey (Some k) = Some k"
  by (cases v) (auto simp: normalizeSessionKey_def truthy_def split: if_splits)

lemma depth_step:
  assumes "normalizeSessionKey (Some key) = Some k" "k \<notin> set visited"
    "\<And>p. p \<in> parents entryOf \<Longrightarrow> \<exists>r. depthFromStore entryOf num (k # visited) p = Some r"
  shows "\<exists>r. depthFromStore entryOf num visited key = Some r"
proof (cases "normalizeSessionKey (Option.bind (entryOf k) sd_spawnedBy)")
  case None
  then show ?thesis using assms(1,2)
    by (subst depthFromStore.simps) (simp split: option.splits)
next
  case (Some p)
  then have "p \<in> parents entryOf" by (auto simp: parents_def)
  from assms(3) [OF this] Some show ?thesis using assms(1,2)
    by (subst depthFromStore.simps) (auto split: option.splits)
qed

lemma depth_visited: "normalizeSessionKey (Some key) = Some k \<Longrightarrow> k \<in> set visited \<Longrightarrow> depthFromStore entryOf num visited key = Some None"
  by (subst depthFromStore.simps) simp

lemma depth_of_parent:
  assumes "finite (parents entryOf)" "p \<in> parents entryOf"
  shows "\<exists>r. depthFromStore entryOf num visited p = Some r"
  using assms(2)
proof (induction "card (parents entryOf - set visited)" arbitrary: visited p rule: less_induct)
  case less
  obtain v where "normalizeSessionKey v = Some p" using less(2) by (auto simp: parents_def)
  then have p: "normalizeSessionKey (Some p) = Some p" by (rule normal_key)
  show ?case
  proof (cases "p \<in> set visited")
    case True
    then show ?thesis using depth_visited [OF p] by blast
  next
    case False
    then have "parents entryOf - set (p # visited) \<subset> parents entryOf - set visited" using less(2) by auto
    then have "card (parents entryOf - set (p # visited)) < card (parents entryOf - set visited)"
      using assms(1) by (intro psubset_card_mono) auto
    from depth_step [OF p False less(1) [OF this]] show ?thesis by blast
  qed
qed

lemma depth_returns:
  assumes "finite (parents entryOf)"
  shows "\<exists>r. depthFromStore entryOf num visited key = Some r"
proof (cases "normalizeSessionKey (Some key)")
  case None
  then show ?thesis by (subst depthFromStore.simps) simp
next
  case (Some k)
  then show ?thesis
    by (cases "k \<in> set visited") (auto simp: depth_visited intro: depth_step [OF Some] depth_of_parent [OF assms])
qed

lemma first_some_SomeD: "first_some f xs = Some y \<Longrightarrow> \<exists>x \<in> set xs. f x = Some y"
proof (induction xs)
  case (Cons x xs)
  then show ?case by (cases "f x") auto
qed simp

lemma findEntry_in: "findEntryBySessionId st i = Some e \<Longrightarrow> e \<in> snd ` set st"
  by (auto simp: findEntryBySessionId_def find_Some_iff split: option.splits)

lemma entry_in_stores:
  assumes "resolveEntryForSessionKey files storePath cfg store k = Some e"
  shows "e \<in> snd ` set (nullish store []) \<union> (\<Union>f \<in> set files. snd ` set (snd f))"
proof -
  have m: "map_of st key = Some e \<Longrightarrow> e \<in> snd ` set st" for st key by (force dest: map_of_SomeD)
  have o: "orelse a b = Some e \<Longrightarrow> a = Some e \<or> b = Some e" for a b by (cases a) auto
  have n: "e \<in> snd ` set (nullish (map_of files q) []) \<Longrightarrow> e \<in> (\<Union>f \<in> set files. snd ` set (snd f))" for q
    by (cases "map_of files q") (auto dest!: map_of_SomeD intro!: rev_bexI)
  show ?thesis
  proof (cases store)
    case (Some st)
    with assms o have "first_some (map_of st) (buildKeyCandidates k cfg) = Some e \<or> findEntryBySessionId st k = Some e"
      by (simp add: resolveEntryForSessionKey_def)
    then have "e \<in> snd ` set st" by (metis first_some_SomeD m findEntry_in)
    then show ?thesis using Some by simp
  next
    case None
    with assms obtain key and parsed :: ParsedAgentSessionKey where
      "orelse (map_of (nullish (map_of files (storePath (pk_agentId parsed))) []) key)
         (findEntryBySessionId (nullish (map_of files (storePath (pk_agentId parsed))) []) k) = Some e"
      by (auto simp: resolveEntryForSessionKey_def Let_def dest!: first_some_SomeD split: option.splits)
    from o [OF this] have "e \<in> snd ` set (nullish (map_of files (storePath (pk_agentId parsed))) [])"
      by (elim disjE) (erule m, erule findEntry_in)
    from n [OF this] show ?thesis by simp
  qed
qed

lemma finite_parents: "finite (parents (resolveEntryForSessionKey files storePath cfg store))"
proof (rule finite_subset)
  let ?E = "snd ` set (nullish store []) \<union> (\<Union>f \<in> set files. snd ` set (snd f))"
  show "finite ((\<lambda>e. the (normalizeSessionKey (sd_spawnedBy e))) ` ?E)" by simp
  show "parents (resolveEntryForSessionKey files storePath cfg store) \<subseteq> (\<lambda>e. the (normalizeSessionKey (sd_spawnedBy e))) ` ?E"
  proof
    fix p assume "p \<in> parents (resolveEntryForSessionKey files storePath cfg store)"
    then obtain k where k: "normalizeSessionKey (Option.bind (resolveEntryForSessionKey files storePath cfg store k) sd_spawnedBy) = Some p"
      by (auto simp: parents_def)
    then obtain e where e: "resolveEntryForSessionKey files storePath cfg store k = Some e"
      by (cases "resolveEntryForSessionKey files storePath cfg store k") (auto simp: normalizeSessionKey_def truthy_def)
    with k entry_in_stores [OF e] show "p \<in> (\<lambda>e. the (normalizeSessionKey (sd_spawnedBy e))) ` ?E"
      by (intro image_eqI [of _ _ e]) auto
  qed
qed

text \<open>(C34) The search for the depth of a sub-agent always returns, whatever the session stores say: entries that name
  each other as parents, or themselves, do not make it run for ever.\<close>

theorem subagent_depth_returns:
  "\<exists>depth. getSubagentDepthFromSessionStore files storePath jsNumber cfg store sessionKey = Some depth"
  using depth_returns [OF finite_parents] by (fastforce simp: getSubagentDepthFromSessionStore_def Let_def)

text \<open>Two sessions that name each other as parent.\<close>

lemma subagent_depth_cycle:
  "getSubagentDepthFromSessionStore [] (\<lambda>a. a) (\<lambda>s. None) None
     (Some [(''a'', \<lparr>sd_sessionId = None, sd_spawnDepth = DepthOther, sd_spawnedBy = Some ''b''\<rparr>),
            (''b'', \<lparr>sd_sessionId = None, sd_spawnDepth = DepthOther, sd_spawnedBy = Some ''a''\<rparr>)]) (Some ''a'') = Some 2"
proof -
  have "getSubagentDepth (Some ''a'') = 0" by code_simp
  then show ?thesis
    by (simp add: getSubagentDepthFromSessionStore_def resolveEntryForSessionKey_def buildKeyCandidates_def normalizeSessionKey_def
        trim_def is_ws_def truthy_def depthFromStore.simps normalizeSpawnDepth_def)
qed


section \<open>Only permitted tools are offered\<close>

text \<open>The sub-agent's policy as a function, and the steps with it.\<close>

definition sessionSubagentPolicy :: "tool_env \<Rightarrow> tool_options \<Rightarrow> ToolPolicyLike option" where
  "sessionSubagentPolicy env opts = nullish (subagentPolicyFor env opts) None"

lemma subagentPolicy_returns: "subagentPolicyFor env opts = Some (sessionSubagentPolicy env opts)"
proof -
  obtain d where "getSubagentDepthFromSessionStore (te_files env) (te_storePath env) (te_jsNumber env) (to_config opts) None
      (to_sessionKey opts) = Some d"
    using depth_returns [OF finite_parents] by (fastforce simp: getSubagentDepthFromSessionStore_def Let_def)
  then show ?thesis by (simp add: sessionSubagentPolicy_def subagentPolicyFor_def)
qed

lemma agentTools_filter:
  "agentTools env opts toolMeta tools =
     (let owner = (to_senderIsOwner opts = Some True); base = (if owner then tools else filter (\<lambda>t. \<not> isOwnerOnlyTool t) tools)
      in Some (filter (\<lambda>t. list_all (stepAllows base toolMeta t) (policySteps env opts (sessionSubagentPolicy env opts))) base))"
  by (simp add: agentTools_def subagentPolicy_returns owner_filter pipeline_filter Let_def)

text \<open>What a policy says, independently of how it is compiled. An entry of a list stands for the tools of all plugins, the tools
  of the plugin it names, or itself, and a name of a tool group for its members; a star in a name stands for any text.\<close>

definition pluginNames :: "AnyAgentTool list \<Rightarrow> (AnyAgentTool \<Rightarrow> string option) \<Rightarrow> (string \<Rightarrow> bool) \<Rightarrow> string list" where
  "pluginNames tools toolMeta chosen =
     map (\<lambda>t. normalizeToolName (t_name t)) (filter (\<lambda>t. case toolMeta t of None \<Rightarrow> False | Some pid \<Rightarrow> chosen (to_lower pid)) tools)"

definition groupMeans :: "string \<Rightarrow> string list" where
  "groupMeans n = (if n = [] then [] else case map_of TOOL_GROUPS n of Some members \<Rightarrow> members | None \<Rightarrow> [n])"

definition entryMeans :: "AnyAgentTool list \<Rightarrow> (AnyAgentTool \<Rightarrow> string option) \<Rightarrow> string \<Rightarrow> string list" where
  "entryMeans tools toolMeta e =
     (let n = normalizeToolName e;
          ps = pluginNames tools toolMeta (if n = ''group:plugins'' then (\<lambda>_. True) else (\<lambda>pid. pid = n))
      in concat (map groupMeans (if ps \<noteq> [] then ps else [n])))"

definition reaches :: "AnyAgentTool list \<Rightarrow> (AnyAgentTool \<Rightarrow> string option) \<Rightarrow> string list option \<Rightarrow> string \<Rightarrow> bool" where
  "reaches tools toolMeta l n \<longleftrightarrow>
     (\<exists>e \<in> set (nullish l []). \<exists>y \<in> set (entryMeans tools toolMeta e). y = ''*'' \<or> star_match y n)"

text \<open>A policy lets a tool through that its deny list does not reach and its allow list does, if that names anything; a tool
  that applies patches comes with the right to execute.\<close>

definition lets :: "AnyAgentTool list \<Rightarrow> (AnyAgentTool \<Rightarrow> string option) \<Rightarrow> ToolPolicyLike \<Rightarrow> string \<Rightarrow> bool" where
  "lets tools toolMeta p name \<longleftrightarrow>
     (let n = normalizeToolName name in
      \<not> reaches tools toolMeta (tp_deny p) n \<and>
      ((\<forall>e \<in> set (nullish (tp_allow p) []). entryMeans tools toolMeta e = []) \<or> reaches tools toolMeta (tp_allow p) n \<or>
       n = ''apply_patch'' \<and> reaches tools toolMeta (tp_allow p) ''exec''))"

text \<open>An allow list of the configuration that names no core tool only adds plugin tools: it does not restrict.\<close>

definition restricts :: "AnyAgentTool list \<Rightarrow> (AnyAgentTool \<Rightarrow> string option) \<Rightarrow> string list option \<Rightarrow> bool" where
  "restricts tools toolMeta l \<longleftrightarrow>
     (\<forall>e \<in> set (nullish l []). normalizeToolName e = []) \<or>
     (\<exists>e \<in> set (nullish l []). normalizeToolName e = ''*'' \<or>
        (\<exists>t \<in> set tools. toolMeta t = None \<and> normalizeToolName (t_name t) \<noteq> [] \<and>
           normalizeToolName (t_name t) \<in> set (groupMeans (normalizeToolName e))))"

definition letsConfigured :: "AnyAgentTool list \<Rightarrow> (AnyAgentTool \<Rightarrow> string option) \<Rightarrow> ToolPolicyLike option \<Rightarrow> string \<Rightarrow> bool" where
  "letsConfigured tools toolMeta policy name \<longleftrightarrow> (case policy of None \<Rightarrow> True
     | Some p \<Rightarrow> lets tools toolMeta (if restricts tools toolMeta (tp_allow p) then p else p\<lparr>tp_allow := None\<rparr>) name)"

text \<open>When a tool may be offered: every source of policies is asked.\<close>

definition mayOffer :: "tool_env \<Rightarrow> tool_options \<Rightarrow> (AnyAgentTool \<Rightarrow> string option) \<Rightarrow> AnyAgentTool list \<Rightarrow> AnyAgentTool \<Rightarrow> bool" where
  "mayOffer env opts toolMeta tools t \<longleftrightarrow>
     (let owner = (to_senderIsOwner opts = Some True);
          base = (if owner then tools else filter (\<lambda>u. \<not> isOwnerOnlyTool u) tools);
          e = resolveEffectiveToolPolicy (to_config opts) (to_sessionKey opts) (to_modelProvider opts) (to_modelId opts);
          configured = (\<lambda>p. letsConfigured base toolMeta p (t_name t))
      in (isOwnerOnlyTool t \<longrightarrow> owner) \<and>
         configured (mergeAlsoAllowPolicy (resolveToolProfilePolicy (ep_profile e)) (ep_profileAlsoAllow e)) \<and>
         configured (mergeAlsoAllowPolicy (resolveToolProfilePolicy (ep_providerProfile e)) (ep_providerProfileAlsoAllow e)) \<and>
         configured (ep_globalPolicy e) \<and> configured (ep_globalProviderPolicy e) \<and>
         configured (ep_agentPolicy e) \<and> configured (ep_agentProviderPolicy e) \<and>
         configured (resolveGroupToolPolicy (te_registry env) (te_dockPolicy env) (to_config opts)
           ((to_group opts)\<lparr>gp_sessionKey := to_sessionKey opts\<rparr>)) \<and>
         (\<forall>p. to_sandboxEnabled opts \<and> to_sandboxTools opts = Some p \<longrightarrow> lets base toolMeta p (t_name t)) \<and>
         (\<forall>depth. isSubagentSessionKey (to_sessionKey opts) \<and> truthy (to_sessionKey opts) \<noteq> None \<and>
            getSubagentDepthFromSessionStore (te_files env) (te_storePath env) (te_jsNumber env) (to_config opts) None (to_sessionKey opts) = Some depth
            \<longrightarrow> lets base toolMeta (resolveSubagentToolPolicy (to_config opts) (Some depth)) (t_name t)))"

lemma plugin_groups:
  "pg_all (buildPluginToolGroups tools toolMeta) = pluginNames tools toolMeta (\<lambda>_. True)"
  "nullish (map_of (pg_byPlugin (buildPluginToolGroups tools toolMeta)) k) [] = pluginNames tools toolMeta (\<lambda>pid. pid = k)"
proof -
  have "pg_all (fold (addPluginName toolMeta) ts g) = pg_all g @ pluginNames ts toolMeta (\<lambda>_. True)" for ts g
    by (induction ts arbitrary: g) (auto simp: pluginNames_def addPluginName_def Let_def split: option.splits)
  from this [of tools] show "pg_all (buildPluginToolGroups tools toolMeta) = pluginNames tools toolMeta (\<lambda>_. True)"
    by (simp add: buildPluginToolGroups_def)
  have "nullish (map_of (pg_byPlugin (fold (addPluginName toolMeta) ts g)) k) [] =
      nullish (map_of (pg_byPlugin g) k) [] @ pluginNames ts toolMeta (\<lambda>pid. pid = k)" for ts g
  proof (induction ts arbitrary: g)
    case (Cons t ts)
    have "nullish (map_of (pg_byPlugin (addPluginName toolMeta t g)) k) [] =
        nullish (map_of (pg_byPlugin g) k) [] @ pluginNames [t] toolMeta (\<lambda>pid. pid = k)"
      by (auto simp: pluginNames_def addPluginName_def Let_def update_conv' split: option.splits)
    then show ?case using Cons by (simp add: pluginNames_def)
  qed (simp add: pluginNames_def)
  from this [of tools] show "nullish (map_of (pg_byPlugin (buildPluginToolGroups tools toolMeta)) k) [] = pluginNames tools toolMeta (\<lambda>pid. pid = k)"
    by (simp add: buildPluginToolGroups_def)
qed

lemma set_expandPluginEntry:
  "expandPluginEntry (buildPluginToolGroups tools toolMeta) e =
     (let n = normalizeToolName e;
          ps = pluginNames tools toolMeta (if n = ''group:plugins'' then (\<lambda>_. True) else (\<lambda>pid. pid = n))
      in if ps \<noteq> [] then ps else [n])"
  by (simp add: expandPluginEntry_def plugin_groups(1) plugin_groups(2) [of tools toolMeta "normalizeToolName e", symmetric] Let_def
      split: option.splits list.splits)

lemma tool_groups_normal:
  "map_of TOOL_GROUPS n = Some ms \<Longrightarrow> \<forall>y \<in> set ms. normalizeToolName y = y \<and> y \<noteq> []"
proof -
  have "list_all (\<lambda>p. list_all (\<lambda>y. normalizeToolName y = y \<and> y \<noteq> []) (snd p)) TOOL_GROUPS" by code_simp
  then show "map_of TOOL_GROUPS n = Some ms \<Longrightarrow> \<forall>y \<in> set ms. normalizeToolName y = y \<and> y \<noteq> []"
    by (fastforce simp: list_all_iff dest: map_of_SomeD)
qed

lemma set_expandToolGroups: "set (expandToolGroups (Some l)) = (\<Union>x \<in> set l. set (groupMeans (normalizeToolName x)))"
  by (auto simp: expandToolGroups_def normalizeToolList_def groupMeans_def split: if_splits)

lemma groupMeans_normal: "normalizeToolName n = n \<Longrightarrow> y \<in> set (groupMeans n) \<Longrightarrow> normalizeToolName y = y \<and> y \<noteq> []"
  using tool_groups_normal by (auto simp: groupMeans_def split: if_splits option.splits)

lemma glob_normal:
  "normalizeToolName y = y \<Longrightarrow> y \<noteq> [] \<Longrightarrow> compileGlobPattern normalizeToolName y \<noteq> GlobExact [] \<and>
     (globMatches n (compileGlobPattern normalizeToolName y) \<longleftrightarrow> y = ''*'' \<or> star_match y n)"
  using star_match_literal [of y "[]" n] by (auto simp: compileGlobPattern_def globMatches_def Let_def)

text \<open>The patterns compiled from a list match what the list reaches.\<close>

lemma names_of_list:
  "set (expandToolGroups (Some (nullish (expandPluginGroups l (buildPluginToolGroups tools toolMeta)) []))) =
     (\<Union>e \<in> set (nullish l []). set (entryMeans tools toolMeta e))"
proof -
  have n: "normalizeToolName x = x" if "x \<in> set (expandPluginEntry (buildPluginToolGroups tools toolMeta) e)" for x e
    using that by (auto simp: set_expandPluginEntry Let_def pluginNames_def split: if_splits)
  have "set (nullish (expandPluginGroups l (buildPluginToolGroups tools toolMeta)) []) =
      (\<Union>e \<in> set (nullish l []). set (expandPluginEntry (buildPluginToolGroups tools toolMeta) e))"
    by (auto simp: expandPluginGroups_def split: option.splits list.splits)
  then have "set (expandToolGroups (Some (nullish (expandPluginGroups l (buildPluginToolGroups tools toolMeta)) []))) =
      (\<Union>e \<in> set (nullish l []). \<Union>x \<in> set (expandPluginEntry (buildPluginToolGroups tools toolMeta) e). set (groupMeans x))"
    using n by (simp add: set_expandToolGroups)
  then show ?thesis by (simp add: set_expandPluginEntry entryMeans_def Let_def)
qed

lemma entryMeans_normal: "y \<in> set (entryMeans tools toolMeta e) \<Longrightarrow> normalizeToolName y = y \<and> y \<noteq> []"
proof -
  assume y: "y \<in> set (entryMeans tools toolMeta e)"
  define ps where "ps = pluginNames tools toolMeta (if normalizeToolName e = ''group:plugins'' then (\<lambda>_. True) else (\<lambda>pid. pid = normalizeToolName e))"
  obtain x where x: "x \<in> set (if ps \<noteq> [] then ps else [normalizeToolName e])" "y \<in> set (groupMeans x)"
    using y unfolding entryMeans_def Let_def ps_def [symmetric] by auto
  have "normalizeToolName x = x"
  proof (cases "ps = []")
    case False
    then have "x \<in> set ps" using x(1) by simp
    then show ?thesis by (auto simp: ps_def pluginNames_def)
  qed (use x(1) in simp)
  from groupMeans_normal [OF this x(2)] show ?thesis .
qed

lemma patterns_of_list:
  fixes l tools toolMeta
  defines "ps \<equiv> compileGlobPatterns normalizeToolName (expandToolGroups (Some (nullish (expandPluginGroups l (buildPluginToolGroups tools toolMeta)) [])))"
  shows "matchesAnyGlobPattern n ps \<longleftrightarrow> reaches tools toolMeta l n"
    "ps = [] \<longleftrightarrow> (\<forall>e \<in> set (nullish l []). entryMeans tools toolMeta e = [])"
proof -
  have ps: "set ps = (\<Union>e \<in> set (nullish l []). compileGlobPattern normalizeToolName ` set (entryMeans tools toolMeta e))"
    using names_of_list [of l tools toolMeta] entryMeans_normal glob_normal by (auto simp: ps_def compileGlobPatterns_def)
  show "matchesAnyGlobPattern n ps \<longleftrightarrow> reaches tools toolMeta l n"
    using entryMeans_normal glob_normal by (auto simp: matchesAnyGlobPattern_def list_ex_iff ps reaches_def)
  have "ps = [] \<longleftrightarrow> set ps = {}" by simp
  then show "ps = [] \<longleftrightarrow> (\<forall>e \<in> set (nullish l []). entryMeans tools toolMeta e = [])" by (auto simp: ps)
qed

lemma policy_lets:
  "isToolAllowedByPolicyName name (expandPolicyWithPluginGroups (Some p) (buildPluginToolGroups tools toolMeta)) \<longleftrightarrow> lets tools toolMeta p name"
  by (auto simp: isToolAllowedByPolicyName_def expandPolicyWithPluginGroups_def makeToolPolicyMatcher_def lets_def Let_def
      patterns_of_list)

lemma core_names: "n \<in> set (coreToolNames tools toolMeta) \<longleftrightarrow>
    (\<exists>t \<in> set tools. toolMeta t = None \<and> normalizeToolName (t_name t) \<noteq> [] \<and> normalizeToolName (t_name t) = n)"
  by (auto simp: coreToolNames_def)

lemma strip_restricts:
  "ar_policy (stripPluginOnlyAllowlist (Some p) g (coreToolNames tools toolMeta)) = Some q \<Longrightarrow>
     q = (if restricts tools toolMeta (tp_allow p) \<or> tp_allow p = None then p else p\<lparr>tp_allow := None\<rparr>)"
proof -
  assume a: "ar_policy (stripPluginOnlyAllowlist (Some p) g (coreToolNames tools toolMeta)) = Some q"
  have core: "isCoreEntry (coreToolNames tools toolMeta) (normalizeToolName e) \<longleftrightarrow>
      (\<exists>t \<in> set tools. toolMeta t = None \<and> normalizeToolName (t_name t) \<noteq> [] \<and> normalizeToolName (t_name t) \<in> set (groupMeans (normalizeToolName e)))" for e
    by (auto simp: isCoreEntry_def list_ex_iff set_expandToolGroups core_names)
  show ?thesis
  proof (cases "tp_allow p")
    case None
    then show ?thesis using a by (simp add: stripPluginOnlyAllowlist_def)
  next
    case (Some l)
    have blank: "normalizeToolList (Some l) = [] \<longleftrightarrow> (\<forall>e \<in> set l. normalizeToolName e = [])"
      by (auto simp: normalizeToolList_def filter_empty_conv)
    have ex: "list_ex (\<lambda>entry. entry = ''*'' \<or> isCoreEntry (coreToolNames tools toolMeta) entry) (normalizeToolList (Some l)) \<longleftrightarrow>
        (\<exists>e \<in> set l. normalizeToolName e = ''*'' \<or> isCoreEntry (coreToolNames tools toolMeta) (normalizeToolName e))"
    proof -
      have "\<not> isCoreEntry (coreToolNames tools toolMeta) []"
        by (simp add: isCoreEntry_def list_ex_iff set_expandToolGroups groupMeans_def normalizeToolName_def trim_def TOOL_NAME_ALIASES_def to_lower_def)
      then show ?thesis by (force simp: normalizeToolList_def list_ex_iff)
    qed
    let ?E = "list_ex (\<lambda>entry. entry = ''*'' \<or> isCoreEntry (coreToolNames tools toolMeta) entry) (normalizeToolList (Some l))"
    have R: "restricts tools toolMeta (Some l) \<longleftrightarrow> normalizeToolList (Some l) = [] \<or> ?E"
      unfolding blank ex core restricts_def by simp
    have nil: "normalizeToolList (Some []) = []" by (simp add: normalizeToolList_def)
    show ?thesis
    proof (cases "normalizeToolList (Some l) = []")
      case True
      then show ?thesis using a R Some by (auto simp: stripPluginOnlyAllowlist_def Let_def split: if_splits)
    next
      case False
      with nil have "l \<noteq> []" by auto
      then show ?thesis using a R False Some by (cases ?E) (auto simp: stripPluginOnlyAllowlist_def Let_def)
    qed
  qed
qed

lemma step_lets:
  "stepAllows tools toolMeta t (strip_step policy label) \<longleftrightarrow> letsConfigured tools toolMeta policy (t_name t)"
  "stepAllows tools toolMeta t \<lparr>st_policy = policy, st_label = label, st_strip = False\<rparr> \<longleftrightarrow>
     (\<forall>p. policy = Some p \<longrightarrow> lets tools toolMeta p (t_name t))"
proof -
  let ?g = "buildPluginToolGroups tools toolMeta" and ?c = "coreToolNames tools toolMeta"
  show "stepAllows tools toolMeta t \<lparr>st_policy = policy, st_label = label, st_strip = False\<rparr> \<longleftrightarrow>
     (\<forall>p. policy = Some p \<longrightarrow> lets tools toolMeta p (t_name t))"
    by (cases policy) (simp_all add: stepAllows_def stepPolicy_def policy_lets, simp add: isToolAllowedByPolicyName_def)
  show "stepAllows tools toolMeta t (strip_step policy label) \<longleftrightarrow> letsConfigured tools toolMeta policy (t_name t)"
  proof (cases policy)
    case None
    then show ?thesis by (simp add: stepAllows_def stepPolicy_def strip_step_def isToolAllowedByPolicyName_def letsConfigured_def)
  next
    case (Some p)
    have "ar_policy (stripPluginOnlyAllowlist (Some p) ?g ?c) \<noteq> None" by (simp add: stripPluginOnlyAllowlist_def Let_def)
    then obtain q where q: "ar_policy (stripPluginOnlyAllowlist (Some p) ?g ?c) = Some q" by blast
    from strip_restricts [OF q] have "q = (if restricts tools toolMeta (tp_allow p) then p else p\<lparr>tp_allow := None\<rparr>)"
      by (cases "tp_allow p") (simp_all add: restricts_def)
    then show ?thesis using q by (simp add: Some stepAllows_def stepPolicy_def strip_step_def policy_lets letsConfigured_def)
  qed
qed

text \<open>(C33) The tools an agent is offered are exactly the assembled tools that every source of policies permits, in the same
  order: the profile of the agent and the one of its provider with their additions, the policy of the gateway and of the
  agent, each with the one for the provider, the policy of the group, the sandbox when the session is sandboxed, and the
  rules for sub-agents when it is one. A source permits a tool its deny list does not reach and its allow list, when it
  names anything, does; an allow list of the first seven sources that names no core tool does not restrict. Owner-only tools
  need a sender known to be the owner.\<close>

theorem offered_tools_exact:
  "agentTools env opts toolMeta tools = Some (filter (mayOffer env opts toolMeta tools) tools)"
proof -
  let ?owner = "to_senderIsOwner opts = Some True"
  define base where "base = (if ?owner then tools else filter (\<lambda>u. \<not> isOwnerOnlyTool u) tools)"
  obtain depth where d: "getSubagentDepthFromSessionStore (te_files env) (te_storePath env) (te_jsNumber env) (to_config opts) None
      (to_sessionKey opts) = Some depth"
    using depth_returns [OF finite_parents] by (fastforce simp: getSubagentDepthFromSessionStore_def Let_def)
  have steps: "mayOffer env opts toolMeta tools t \<longleftrightarrow> (isOwnerOnlyTool t \<longrightarrow> ?owner) \<and>
      list_all (stepAllows base toolMeta t) (policySteps env opts (sessionSubagentPolicy env opts))" for t
    unfolding mayOffer_def Let_def base_def [symmetric] policySteps_def buildDefaultToolPolicyPipelineSteps_def
    by (cases "to_sandboxEnabled opts"; cases "isSubagentSessionKey (to_sessionKey opts)"; cases "truthy (to_sessionKey opts)")
      (simp_all add: step_lets sessionSubagentPolicy_def subagentPolicyFor_def d conj_assoc)
  have "agentTools env opts toolMeta tools = Some (filter (\<lambda>t. list_all (stepAllows base toolMeta t) (policySteps env opts (sessionSubagentPolicy env opts))) base)"
    by (simp add: agentTools_filter base_def Let_def)
  also have "filter (\<lambda>t. list_all (stepAllows base toolMeta t) (policySteps env opts (sessionSubagentPolicy env opts))) base = filter (mayOffer env opts toolMeta tools) tools"
    by (auto simp: steps base_def conj_commute intro!: filter_cong)
  finally show ?thesis .
qed

lemma reserved_names:
  "list_all (\<lambda>d. normalizeToolName d = d \<and> d \<noteq> [] \<and> d \<noteq> ''group:plugins'' \<and> map_of TOOL_GROUPS d = None \<and> CHR ''*'' \<notin> set d)
     (SUBAGENT_TOOL_DENY_ALWAYS @ SUBAGENT_TOOL_DENY_LEAF)"
  by code_simp

lemma always_denied_plain:
  assumes "d \<in> set (SUBAGENT_TOOL_DENY_ALWAYS @ SUBAGENT_TOOL_DENY_LEAF)" "map_of (pg_byPlugin g) d = None"
  shows "normalizeToolName d = d" "plain_name g d"
  using assms reserved_names unfolding list_all_iff plain_name_def by blast+

lemma subagent_step_in: "\<lparr>st_policy = sp, st_label = ''subagent tools.allow'', st_strip = False\<rparr> \<in> set (policySteps env opts sp)"
  by (simp add: policySteps_def Let_def)

text \<open>(C11) A sub-agent is never offered the tools reserved for main agents (gateway control, scheduling, sessions of others,
  memory), and a sub-agent that may not spawn others is not offered the session tools either, whatever the allow lists of
  the configuration, the agent, the provider, the group and the sandbox say; provided no plugin has the tool's name as its id.\<close>

theorem subagent_tools_denied:
  assumes "agentTools env opts toolMeta tools = Some offered" "t \<in> set offered"
    "isSubagentSessionKey (to_sessionKey opts)" "truthy (to_sessionKey opts) \<noteq> None"
    "\<forall>u \<in> set tools. \<forall>pid. toolMeta u = Some pid \<longrightarrow> to_lower pid \<noteq> normalizeToolName (t_name t)"
  shows "normalizeToolName (t_name t) \<notin> set SUBAGENT_TOOL_DENY_ALWAYS \<and>
    (\<forall>depth. getSubagentDepthFromSessionStore (te_files env) (te_storePath env) (te_jsNumber env) (to_config opts) None (to_sessionKey opts)
        = Some depth \<and> max 1 (nullish (Option.bind (to_config opts) cfg_maxSpawnDepth) 1) \<le> int depth \<longrightarrow>
      normalizeToolName (t_name t) \<notin> set SUBAGENT_TOOL_DENY_LEAF)"
proof -
  let ?base = "applyOwnerOnlyToolPolicy tools (to_senderIsOwner opts = Some True)"
  let ?g = "buildPluginToolGroups ?base toolMeta" and ?n = "normalizeToolName (t_name t)"
  obtain depth where d: "getSubagentDepthFromSessionStore (te_files env) (te_storePath env) (te_jsNumber env) (to_config opts) None
      (to_sessionKey opts) = Some depth"
    using depth_returns [OF finite_parents] by (fastforce simp: getSubagentDepthFromSessionStore_def Let_def)
  let ?p = "resolveSubagentToolPolicy (to_config opts) (Some depth)"
  have sp: "sessionSubagentPolicy env opts = Some ?p" using assms(3,4) d by (simp add: sessionSubagentPolicy_def subagentPolicyFor_def)
  have "map_of (pg_byPlugin ?g) ?n = None"
    using plugin_group_keys [of ?base toolMeta ?n] assms(5) by (cases "map_of (pg_byPlugin ?g) ?n") (auto simp: owner_filter split: if_splits)
  note plain = always_denied_plain [OF _ this]
  have allowed: "stepAllows ?base toolMeta t \<lparr>st_policy = Some ?p, st_label = ''subagent tools.allow'', st_strip = False\<rparr>"
    using assms(1,2) subagent_step_in [of "Some ?p" env opts]
    by (auto simp: agentTools_filter owner_filter sp Let_def list_all_iff split: if_splits)
  have "?n \<notin> set (resolveSubagentDenyList depth (nullish (Option.bind (to_config opts) cfg_maxSpawnDepth) 1))"
  proof
    assume n: "?n \<in> set (resolveSubagentDenyList depth (nullish (Option.bind (to_config opts) cfg_maxSpawnDepth) 1))"
    then have m: "?n \<in> set (SUBAGENT_TOOL_DENY_ALWAYS @ SUBAGENT_TOOL_DENY_LEAF)" by (auto simp: resolveSubagentDenyList_def split: if_splits)
    have "\<exists>ds. tp_deny ?p = Some ds \<and> ?n \<in> set ds" using n by (simp add: resolveSubagentToolPolicy_def Let_def)
    then obtain ds where "tp_deny ?p = Some ds" "?n \<in> set ds" by blast
    from step_deny [OF _ this, of "\<lparr>st_policy = Some ?p, st_label = ''subagent tools.allow'', st_strip = False\<rparr>" ?base toolMeta t] plain [OF m] allowed
    show False by simp
  qed
  then show ?thesis using d by (auto simp: resolveSubagentDenyList_def split: if_splits)
qed


text \<open>A sub-agent of the main agent, no configuration, a reading tool and the scheduler.\<close>

definition env_example :: tool_env where
  "env_example = \<lparr>te_registry = [], te_dockPolicy = (\<lambda>_ _. None), te_files = [], te_storePath = (\<lambda>a. a), te_jsNumber = (\<lambda>_. None)\<rparr>"

definition opts_example :: tool_options where
  "opts_example = \<lparr>to_config = None, to_sessionKey = Some ''agent:main:subagent:x'', to_modelProvider = None, to_modelId = None,
     to_group = \<lparr>gp_sessionKey = None, gp_spawnedBy = None, gp_messageProvider = None, gp_groupId = None, gp_accountId = None,
       gp_sender = \<lparr>gs_senderId = None, gs_senderName = None, gs_senderUsername = None, gs_senderE164 = None\<rparr>\<rparr>,
     to_sandboxEnabled = False, to_sandboxTools = None, to_senderIsOwner = Some True\<rparr>"

definition tool_example :: "string \<Rightarrow> AnyAgentTool" where
  "tool_example n = \<lparr>t_name = n, t_ownerOnly = False, t_execute = Execute\<rparr>"

lemma depth_example:
  "getSubagentDepthFromSessionStore [] (\<lambda>a. a) (\<lambda>_. None) None None (Some ''agent:main:subagent:x'') = Some 1"
proof -
  have "trim ''agent:main:subagent:x'' = ''agent:main:subagent:x''" "getSubagentDepth (Some ''agent:main:subagent:x'') = 1"
    by code_simp+
  then show ?thesis
    by (simp add: getSubagentDepthFromSessionStore_def depthFromStore.simps resolveEntryForSessionKey_def normalizeSessionKey_def truthy_def)
qed

lemma subagent_example: "isSubagentSessionKey (to_sessionKey opts_example)" "truthy (to_sessionKey opts_example) \<noteq> None"
  by code_simp+

lemma steps_example:
  "list_all (\<lambda>s. st_policy s = None \<or> st_policy s = Some (resolveSubagentToolPolicy None (Some 1)))
     (policySteps env_example opts_example (sessionSubagentPolicy env_example opts_example))"
  using subagent_example depth_example
  by (simp add: sessionSubagentPolicy_def subagentPolicyFor_def env_example_def opts_example_def policySteps_def
      buildDefaultToolPolicyPipelineSteps_def strip_step_def resolveEffectiveToolPolicy_def resolveProviderToolPolicy_def pickSandboxToolPolicy_def
      resolveGroupToolPolicy_def resolveToolProfilePolicy_def mergeAlsoAllowPolicy_def truthy_def Let_def)

lemma offered_example:
  "\<exists>offered. agentTools env_example opts_example (\<lambda>_. None) [tool_example ''cron'', tool_example ''read''] = Some offered \<and>
     tool_example ''read'' \<in> set offered"
proof -
  have m: "makeToolPolicyMatcher (resolveSubagentToolPolicy None (Some 1)) ''read''" by code_simp
  have g: "buildPluginToolGroups [tool_example ''cron'', tool_example ''read''] (\<lambda>_. None) = \<lparr>pg_all = [], pg_byPlugin = []\<rparr>"
    by (simp add: buildPluginToolGroups_def addPluginName_def)
  have e: "expandPolicyWithPluginGroups (Some (resolveSubagentToolPolicy None (Some 1))) \<lparr>pg_all = [], pg_byPlugin = []\<rparr> =
      Some (resolveSubagentToolPolicy None (Some 1))"
    by code_simp
  have "stepAllows [tool_example ''cron'', tool_example ''read''] (\<lambda>_. None) (tool_example ''read'')
      \<lparr>st_policy = p, st_label = l, st_strip = b\<rparr>"
    if "p = None \<or> p = Some (resolveSubagentToolPolicy None (Some 1))" for p l b
    using that m e g [unfolded tool_example_def] by (auto simp: stepAllows_def stepPolicy_def isToolAllowedByPolicyName_def tool_example_def
        stripPluginOnlyAllowlist_def resolveSubagentToolPolicy_def Let_def)
  then have "stepAllows [tool_example ''cron'', tool_example ''read''] (\<lambda>_. None) (tool_example ''read'') s"
    if "st_policy s = None \<or> st_policy s = Some (resolveSubagentToolPolicy None (Some 1))" for s
    using that by (cases s) auto
  then show ?thesis using steps_example
    by (auto simp: agentTools_filter opts_example_def Let_def list_all_iff)
qed

theorem subagent_tools_denied_witness:
  "\<exists>offered. agentTools env_example opts_example (\<lambda>_. None) [tool_example ''cron'', tool_example ''read''] = Some offered \<and>
     tool_example ''read'' \<in> set offered \<and> normalizeToolName ''read'' \<notin> set SUBAGENT_TOOL_DENY_ALWAYS"
proof -
  obtain offered where o: "agentTools env_example opts_example (\<lambda>_. None) [tool_example ''cron'', tool_example ''read''] = Some offered"
    "tool_example ''read'' \<in> set offered" using offered_example by blast
  have "\<forall>u \<in> set [tool_example ''cron'', tool_example ''read'']. \<forall>pid. (\<lambda>_. None) u = Some pid \<longrightarrow>
      to_lower pid \<noteq> normalizeToolName (t_name (tool_example ''read''))" by simp
  from subagent_tools_denied [OF o subagent_example this] o show ?thesis by (auto simp: tool_example_def)
qed

text \<open>The proviso of the last theorem is needed: a plugin whose id is the name of a core tool takes the place of that
  tool in every deny list, which then removes the plugin's tools and keeps the core tool.\<close>

lemma plugin_id_shadows_deny:
  "map t_name (fst (applyToolPolicyPipeline [tool_example ''exec'', tool_example ''helper'']
     (\<lambda>t. if t_name t = ''helper'' then Some ''exec'' else None)
     [\<lparr>st_policy = Some \<lparr>tp_allow = None, tp_deny = Some [''exec'']\<rparr>, st_label = ''tools.allow'', st_strip = True\<rparr>])) = [''exec'']"
  by code_simp

end
