(* ===== verification/Agent_Route.thy ===== *)
theory Agent_Route
  imports Agent_Tools
begin

section \<open>Which agent answers (routing/resolve-route.ts, routing/bindings.ts)\<close>

text \<open>
  A message comes from a channel, an account and a peer. Bindings of the configuration assign such
  sources to agents; the most specific kind of binding wins, and within one kind the first. The
  route names the agent and the session key the conversation is stored under. The bindings that
  apply to a channel and an account are cached for each configuration object.
\<close>

subsection \<open>Bindings\<close>

text \<open>Ids are strings; a number in the configuration is its decimal text.\<close>

record binding_peer =
  bp_kind :: "string option"
  bp_id :: "string option"

record binding_match =
  bm_channel :: "string option"
  bm_accountId :: "string option"
  bm_peer :: "binding_peer option"
  bm_guildId :: "string option"
  bm_teamId :: "string option"
  bm_roles :: "string list option"

record AgentBinding =
  ab_agentId :: string
  ab_match :: "binding_match option"

definition normalizeBindingChannelId :: "string option \<Rightarrow> string option" where
  "normalizeBindingChannelId raw = (case normalizeChatChannelId raw of Some c \<Rightarrow> Some c
     | None \<Rightarrow> truthy (Some (to_lower (trim (nullish raw [])))))"

record bound_account =
  ba_agentId :: string
  ba_accountId :: string
  ba_channelId :: string

definition resolveNormalizedBindingMatch :: "AgentBinding \<Rightarrow> bound_account option" where
  "resolveNormalizedBindingMatch binding = (case ab_match binding of None \<Rightarrow> None
     | Some m \<Rightarrow>
        (case normalizeBindingChannelId (bm_channel m) of None \<Rightarrow> None
         | Some channelId \<Rightarrow>
            (let accountId = trim (nullish (bm_accountId m) []) in
             if accountId = [] \<or> accountId = ''*'' then None
             else Some \<lparr>ba_agentId = normalizeAgentId (Some (ab_agentId binding)), ba_accountId = normalizeAccountId (Some accountId),
                       ba_channelId = channelId\<rparr>)))"

text \<open>\<open>localeSort\<close> is \<open>toSorted\<close> with \<open>localeCompare\<close>.\<close>

definition listBoundAccountIds :: "(string list \<Rightarrow> string list) \<Rightarrow> AgentBinding list \<Rightarrow> string \<Rightarrow> string list" where
  "listBoundAccountIds localeSort bindings channelId = (case normalizeBindingChannelId (Some channelId) of None \<Rightarrow> []
     | Some c \<Rightarrow> localeSort (set_of_list (map ba_accountId (filter (\<lambda>b. ba_channelId b = c)
         (List.map_filter resolveNormalizedBindingMatch bindings)))))"

definition resolveDefaultAgentBoundAccountId :: "OpenClawConfig \<Rightarrow> AgentBinding list \<Rightarrow> string \<Rightarrow> string option" where
  "resolveDefaultAgentBoundAccountId cfg bindings channelId = (case normalizeBindingChannelId (Some channelId) of None \<Rightarrow> None
     | Some c \<Rightarrow> map_option ba_accountId (find (\<lambda>b. ba_channelId b = c \<and> ba_agentId b = normalizeAgentId (Some (resolveDefaultAgentId cfg)))
         (List.map_filter resolveNormalizedBindingMatch bindings)))"

type_synonym account_map = "(string \<times> (string \<times> string list) list) list"

definition addBoundAccount :: "bound_account \<Rightarrow> account_map \<Rightarrow> account_map" where
  "addBoundAccount b m =
     (let byAgent = nullish (map_of m (ba_channelId b)) []
      in AList.update (ba_channelId b) (AList.update (ba_agentId b) (set_add (ba_accountId b) (nullish (map_of byAgent (ba_agentId b)) [])) byAgent) m)"

definition buildChannelAccountBindings :: "AgentBinding list \<Rightarrow> account_map" where
  "buildChannelAccountBindings bindings = fold addBoundAccount (List.map_filter resolveNormalizedBindingMatch bindings) []"

definition resolvePreferredAccountId :: "string list \<Rightarrow> string \<Rightarrow> string" where
  "resolvePreferredAccountId boundAccounts defaultAccountId = (case boundAccounts of a # _ \<Rightarrow> a | [] \<Rightarrow> defaultAccountId)"

subsection \<open>Matching\<close>

definition normalizeId :: "string option \<Rightarrow> string" where
  "normalizeId value = trim (nullish value [])"

text \<open>The account id of a route keeps its case.\<close>

definition routeAccountId :: "string option \<Rightarrow> string" where
  "routeAccountId value = or_string (trim (nullish value [])) DEFAULT_ACCOUNT_ID"

definition matchesAccountId :: "string option \<Rightarrow> string \<Rightarrow> bool" where
  "matchesAccountId m actual =
     (let trimmed = trim (nullish m []) in
      if trimmed = [] then actual = DEFAULT_ACCOUNT_ID else if trimmed = ''*'' then True else trimmed = actual)"

definition matchesChannel :: "binding_match option \<Rightarrow> string \<Rightarrow> bool" where
  "matchesChannel m channel =
     (let key = normalizeToken (Option.bind m bm_channel) in if key = [] then False else key = channel)"

definition normalizeChatType :: "string option \<Rightarrow> ChatType option" where
  "normalizeChatType raw = (let value = to_lower (trim (nullish raw [])) in
     if value = ''direct'' \<or> value = ''dm'' then Some ChatDirect
     else if value = ''group'' then Some ChatGroup else if value = ''channel'' then Some ChatChannel else None)"

datatype NormalizedPeerConstraint = PeerNone | PeerInvalid | PeerValid ChatType string

definition normalizePeerConstraint :: "binding_peer option \<Rightarrow> NormalizedPeerConstraint" where
  "normalizePeerConstraint peer = (case peer of None \<Rightarrow> PeerNone
     | Some p \<Rightarrow> (case (normalizeChatType (bp_kind p), normalizeId (bp_id p)) of
          (Some kind, c # cs) \<Rightarrow> PeerValid kind (c # cs) | _ \<Rightarrow> PeerInvalid))"

record NormalizedBindingMatch =
  nm_accountPattern :: string
  nm_peer :: NormalizedPeerConstraint
  nm_guildId :: "string option"
  nm_teamId :: "string option"
  nm_roles :: "string list option"

definition normalizeBindingMatch :: "binding_match option \<Rightarrow> NormalizedBindingMatch" where
  "normalizeBindingMatch m =
     \<lparr>nm_accountPattern = trim (nullish (Option.bind m bm_accountId) []),
      nm_peer = normalizePeerConstraint (Option.bind m bm_peer),
      nm_guildId = truthy (Some (normalizeId (Option.bind m bm_guildId))),
      nm_teamId = truthy (Some (normalizeId (Option.bind m bm_teamId))),
      nm_roles = (case Option.bind m bm_roles of Some (r # rs) \<Rightarrow> Some (r # rs) | _ \<Rightarrow> None)\<rparr>"

record EvaluatedBinding =
  eb_binding :: AgentBinding
  eb_match :: NormalizedBindingMatch

type_synonym RoutePeer = "ChatType \<times> string"

record BindingScope =
  bs_peer :: "RoutePeer option"
  bs_guildId :: string
  bs_teamId :: string
  bs_memberRoleIds :: "string list"

definition matchesBindingScope :: "NormalizedBindingMatch \<Rightarrow> BindingScope \<Rightarrow> bool" where
  "matchesBindingScope m scope =
     (if nm_peer m = PeerInvalid then False
      else if (case nm_peer m of PeerValid kind i \<Rightarrow> bs_peer scope \<noteq> Some (kind, i) | _ \<Rightarrow> False) then False
      else if nm_guildId m \<noteq> None \<and> nm_guildId m \<noteq> Some (bs_guildId scope) then False
      else if nm_teamId m \<noteq> None \<and> nm_teamId m \<noteq> Some (bs_teamId scope) then False
      else (case nm_roles m of Some roles \<Rightarrow> list_ex (\<lambda>role. role \<in> set (bs_memberRoleIds scope)) roles | None \<Rightarrow> True))"

definition evaluateBindings :: "AgentBinding list \<Rightarrow> string \<Rightarrow> string \<Rightarrow> EvaluatedBinding list" where
  "evaluateBindings bindings channel accountId =
     map (\<lambda>b. \<lparr>eb_binding = b, eb_match = normalizeBindingMatch (ab_match b)\<rparr>)
       (filter (\<lambda>b. matchesChannel (ab_match b) channel \<and> matchesAccountId (Option.bind (ab_match b) bm_accountId) accountId) bindings)"

subsection \<open>The cache of evaluated bindings\<close>

definition MAX_EVALUATED_BINDINGS_CACHE_KEYS :: nat where "MAX_EVALUATED_BINDINGS_CACHE_KEYS = 2000"

text \<open>The array of bindings is known by its reference; \<open>heap\<close> gives the contents of each.\<close>

record EvaluatedBindingsCache =
  ec_bindingsRef :: nat
  ec_byChannelAccount :: "(string \<times> EvaluatedBinding list) list"

definition getEvaluatedBindingsForChannelAccount ::
  "(nat \<Rightarrow> AgentBinding list) \<Rightarrow> nat \<Rightarrow> string \<Rightarrow> string \<Rightarrow> EvaluatedBindingsCache option \<Rightarrow> EvaluatedBinding list \<times> EvaluatedBindingsCache" where
  "getEvaluatedBindingsForChannelAccount heap ref channel accountId existing =
     (let fresh = \<lparr>ec_bindingsRef = ref, ec_byChannelAccount = []\<rparr>;
          cache = (case existing of Some c \<Rightarrow> if ec_bindingsRef c = ref then c else fresh | None \<Rightarrow> fresh);
          cacheKey = channel @ TAB # accountId
      in (case map_of (ec_byChannelAccount cache) cacheKey of
            Some hit \<Rightarrow> (hit, cache)
          | None \<Rightarrow>
             (let evaluated = evaluateBindings (heap ref) channel accountId;
                  m = AList.update cacheKey evaluated (ec_byChannelAccount cache)
              in (evaluated, cache\<lparr>ec_byChannelAccount :=
                    if length m > MAX_EVALUATED_BINDINGS_CACHE_KEYS then [(cacheKey, evaluated)] else m\<rparr>))))"

subsection \<open>Routes\<close>

record RouteConfig = OpenClawConfig +
  cfg_bindingsRef :: nat
  cfg_dmScope :: "dm_scope option"
  cfg_identityLinks :: "(string \<times> string list) list option"

record ResolveAgentRouteInput =
  ri_channel :: string
  ri_accountId :: "string option"
  ri_peer :: "RoutePeer option"
  ri_parentPeer :: "RoutePeer option"
  ri_guildId :: "string option"
  ri_teamId :: "string option"
  ri_memberRoleIds :: "string list option"

datatype matched_by = ByPeer | ByPeerParent | ByGuildRoles | ByGuild | ByTeam | ByAccount | ByChannel | ByDefault

record ResolvedAgentRoute =
  rr_agentId :: string
  rr_channel :: string
  rr_accountId :: string
  rr_sessionKey :: string
  rr_mainSessionKey :: string
  rr_matchedBy :: matched_by

definition buildAgentSessionKey ::
  "string \<Rightarrow> string \<Rightarrow> string option \<Rightarrow> RoutePeer option \<Rightarrow> dm_scope option \<Rightarrow> (string \<times> string list) list option \<Rightarrow> string" where
  "buildAgentSessionKey agentId channel accountId peer dmScope identityLinks =
     buildAgentPeerSessionKey \<lparr>pp_agentId = agentId, pp_mainKey = Some DEFAULT_MAIN_KEY,
       pp_channel = or_string (normalizeToken (Some channel)) ''unknown'', pp_accountId = accountId,
       pp_peerKind = Some (case peer of Some (kind, _) \<Rightarrow> kind | None \<Rightarrow> ChatDirect),
       pp_peerId = map_option (\<lambda>(_, i). or_string (normalizeId (Some i)) ''unknown'') peer,
       pp_identityLinks = identityLinks, pp_dmScope = dmScope\<rparr>"

definition pickFirstExistingAgentId :: "OpenClawConfig \<Rightarrow> string \<Rightarrow> string" where
  "pickFirstExistingAgentId cfg agentId =
     (let trimmed = trim agentId; agents = nullish (cfg_agents cfg) [] in
      if trimmed = [] then sanitizeAgentId (Some (resolveDefaultAgentId cfg))
      else if agents = [] then sanitizeAgentId (Some trimmed)
      else (case find (\<lambda>a. normalizeAgentId (Some (ae_id a)) = normalizeAgentId (Some trimmed)) agents of
          Some a \<Rightarrow> if trim (ae_id a) \<noteq> [] then sanitizeAgentId (Some (trim (ae_id a))) else sanitizeAgentId (Some (resolveDefaultAgentId cfg))
        | None \<Rightarrow> sanitizeAgentId (Some (resolveDefaultAgentId cfg))))"

definition normalPeer :: "RoutePeer option \<Rightarrow> RoutePeer option" where
  "normalPeer peer = map_option (\<lambda>(kind, i). (kind, normalizeId (Some i))) peer"

definition chooseRoute :: "RouteConfig \<Rightarrow> ResolveAgentRouteInput \<Rightarrow> string \<Rightarrow> matched_by \<Rightarrow> ResolvedAgentRoute" where
  "chooseRoute cfg input agentId matchedBy =
     (let channel = normalizeToken (Some (ri_channel input)); accountId = routeAccountId (ri_accountId input);
          resolvedAgentId = pickFirstExistingAgentId (OpenClawConfig.truncate cfg) agentId
      in \<lparr>rr_agentId = resolvedAgentId, rr_channel = channel, rr_accountId = accountId,
          rr_sessionKey = to_lower (buildAgentSessionKey resolvedAgentId channel (Some accountId) (normalPeer (ri_peer input))
            (Some (nullish (cfg_dmScope cfg) DmMain)) (cfg_identityLinks cfg)),
          rr_mainSessionKey = to_lower (buildAgentMainSessionKey resolvedAgentId (Some DEFAULT_MAIN_KEY)),
          rr_matchedBy = matchedBy\<rparr>)"

text \<open>A tier: its name, whether it is tried, the peer it matches against, the bindings it considers.\<close>

record route_tier =
  tr_matchedBy :: matched_by
  tr_enabled :: bool
  tr_scopePeer :: "RoutePeer option"
  tr_predicate :: "NormalizedBindingMatch \<Rightarrow> bool"

definition isPeerValid :: "NormalizedBindingMatch \<Rightarrow> bool" where
  "isPeerValid m = (case nm_peer m of PeerValid _ _ \<Rightarrow> True | _ \<Rightarrow> False)"

definition routeTiers :: "ResolveAgentRouteInput \<Rightarrow> route_tier list" where
  "routeTiers input =
     (let peer = normalPeer (ri_peer input); parentPeer = normalPeer (ri_parentPeer input);
          guildId = normalizeId (ri_guildId input); teamId = normalizeId (ri_teamId input);
          roles = nullish (ri_memberRoleIds input) [];
          parent = (case parentPeer of Some (kind, i) \<Rightarrow> if i \<noteq> [] then Some (kind, i) else None | None \<Rightarrow> None)
      in [\<lparr>tr_matchedBy = ByPeer, tr_enabled = (peer \<noteq> None), tr_scopePeer = peer, tr_predicate = isPeerValid\<rparr>,
          \<lparr>tr_matchedBy = ByPeerParent, tr_enabled = (parent \<noteq> None), tr_scopePeer = parent, tr_predicate = isPeerValid\<rparr>,
          \<lparr>tr_matchedBy = ByGuildRoles, tr_enabled = (guildId \<noteq> [] \<and> roles \<noteq> []), tr_scopePeer = peer,
           tr_predicate = (\<lambda>m. nm_guildId m \<noteq> None \<and> nm_roles m \<noteq> None)\<rparr>,
          \<lparr>tr_matchedBy = ByGuild, tr_enabled = (guildId \<noteq> []), tr_scopePeer = peer,
           tr_predicate = (\<lambda>m. nm_guildId m \<noteq> None \<and> nm_roles m = None)\<rparr>,
          \<lparr>tr_matchedBy = ByTeam, tr_enabled = (teamId \<noteq> []), tr_scopePeer = peer, tr_predicate = (\<lambda>m. nm_teamId m \<noteq> None)\<rparr>,
          \<lparr>tr_matchedBy = ByAccount, tr_enabled = True, tr_scopePeer = peer, tr_predicate = (\<lambda>m. nm_accountPattern m \<noteq> ''*'')\<rparr>,
          \<lparr>tr_matchedBy = ByChannel, tr_enabled = True, tr_scopePeer = peer, tr_predicate = (\<lambda>m. nm_accountPattern m = ''*'')\<rparr>])"

definition tierScope :: "ResolveAgentRouteInput \<Rightarrow> route_tier \<Rightarrow> BindingScope" where
  "tierScope input t = \<lparr>bs_peer = tr_scopePeer t, bs_guildId = normalizeId (ri_guildId input), bs_teamId = normalizeId (ri_teamId input),
     bs_memberRoleIds = nullish (ri_memberRoleIds input) []\<rparr>"

definition tierMatch :: "ResolveAgentRouteInput \<Rightarrow> EvaluatedBinding list \<Rightarrow> route_tier \<Rightarrow> EvaluatedBinding option" where
  "tierMatch input bindings t = (if \<not> tr_enabled t then None
     else find (\<lambda>c. tr_predicate t (eb_match c) \<and> matchesBindingScope (eb_match c) (tierScope input t)) bindings)"

definition routeWith :: "RouteConfig \<Rightarrow> ResolveAgentRouteInput \<Rightarrow> EvaluatedBinding list \<Rightarrow> ResolvedAgentRoute" where
  "routeWith cfg input bindings =
     (case first_some (\<lambda>t. map_option (\<lambda>b. (b, tr_matchedBy t)) (tierMatch input bindings t)) (routeTiers input) of
        Some (b, m) \<Rightarrow> chooseRoute cfg input (ab_agentId (eb_binding b)) m
      | None \<Rightarrow> chooseRoute cfg input (resolveDefaultAgentId (OpenClawConfig.truncate cfg)) ByDefault)"

definition resolveAgentRoute ::
  "(nat \<Rightarrow> AgentBinding list) \<Rightarrow> RouteConfig \<Rightarrow> ResolveAgentRouteInput \<Rightarrow> EvaluatedBindingsCache option
    \<Rightarrow> ResolvedAgentRoute \<times> EvaluatedBindingsCache" where
  "resolveAgentRoute heap cfg input cache =
     (let (bindings, cache') = getEvaluatedBindingsForChannelAccount heap (cfg_bindingsRef cfg)
        (normalizeToken (Some (ri_channel input))) (routeAccountId (ri_accountId input)) cache
      in (routeWith cfg input bindings, cache'))"


section \<open>The cache does not change routes\<close>

text \<open>Every entry is what an evaluation gives now; channels have no tab, so that a key names one channel and one account.\<close>

definition cache_ok :: "(nat \<Rightarrow> AgentBinding list) \<Rightarrow> EvaluatedBindingsCache \<Rightarrow> bool" where
  "cache_ok heap c \<longleftrightarrow> (\<forall>k v. map_of (ec_byChannelAccount c) k = Some v \<longrightarrow>
     (\<forall>channel accountId. TAB \<notin> set channel \<and> k = channel @ TAB # accountId \<longrightarrow> v = evaluateBindings (heap (ec_bindingsRef c)) channel accountId))"

lemma getEvaluated_ok:
  assumes "TAB \<notin> set channel" "case cache of None \<Rightarrow> True | Some c \<Rightarrow> cache_ok heap c"
    "getEvaluatedBindingsForChannelAccount heap ref channel accountId cache = (bs, cache')"
  shows "bs = evaluateBindings (heap ref) channel accountId \<and> cache_ok heap cache'"
proof -
  define c where "c = (case cache of Some c \<Rightarrow> if ec_bindingsRef c = ref then c else \<lparr>ec_bindingsRef = ref, ec_byChannelAccount = []\<rparr>
    | None \<Rightarrow> \<lparr>ec_bindingsRef = ref, ec_byChannelAccount = []\<rparr>)"
  have ok: "cache_ok heap c" "ec_bindingsRef c = ref" using assms(2) by (auto simp: c_def cache_ok_def split: option.splits)
  have key: "channel @ TAB # accountId = ch @ TAB # ac \<Longrightarrow> TAB \<notin> set ch \<Longrightarrow> ch = channel \<and> ac = accountId" for ch ac
    using sep_split [OF assms(1), of ch accountId ac] by auto
  show ?thesis
  proof (cases "map_of (ec_byChannelAccount c) (channel @ TAB # accountId)")
    case None
    then have "bs = evaluateBindings (heap ref) channel accountId"
      "cache' = c\<lparr>ec_byChannelAccount := if length (AList.update (channel @ TAB # accountId) bs (ec_byChannelAccount c)) > MAX_EVALUATED_BINDINGS_CACHE_KEYS
         then [(channel @ TAB # accountId, bs)] else AList.update (channel @ TAB # accountId) bs (ec_byChannelAccount c)\<rparr>"
      using assms(3) by (auto simp: getEvaluatedBindingsForChannelAccount_def Let_def simp flip: c_def)
    with ok key show ?thesis by (auto simp: cache_ok_def split: if_splits)
  next
    case (Some hit)
    then have "bs = hit" "cache' = c"
      using assms(3) by (auto simp: getEvaluatedBindingsForChannelAccount_def Let_def simp flip: c_def)
    with ok Some assms(1) show ?thesis by (auto simp: cache_ok_def)
  qed
qed

fun routes :: "(nat \<Rightarrow> AgentBinding list) \<Rightarrow> (RouteConfig \<times> ResolveAgentRouteInput) list \<Rightarrow> EvaluatedBindingsCache option \<Rightarrow> ResolvedAgentRoute list" where
  "routes heap [] cache = []"
| "routes heap ((cfg, input) # rs) cache =
     (let (r, cache') = resolveAgentRoute heap cfg input cache in r # routes heap rs (Some cache'))"

definition directRoute :: "(nat \<Rightarrow> AgentBinding list) \<Rightarrow> RouteConfig \<Rightarrow> ResolveAgentRouteInput \<Rightarrow> ResolvedAgentRoute" where
  "directRoute heap cfg input = routeWith cfg input (evaluateBindings (heap (cfg_bindingsRef cfg))
     (normalizeToken (Some (ri_channel input))) (routeAccountId (ri_accountId input)))"

lemma resolve_ok:
  assumes "TAB \<notin> set (normalizeToken (Some (ri_channel input)))" "case cache of None \<Rightarrow> True | Some c \<Rightarrow> cache_ok heap c"
    "resolveAgentRoute heap cfg input cache = (r, cache')"
  shows "r = directRoute heap cfg input \<and> cache_ok heap cache'"
  using getEvaluated_ok [OF assms(1,2)] assms(3)
  by (auto simp: resolveAgentRoute_def directRoute_def split: prod.splits)

text \<open>The cache of evaluated bindings is transparent: over any sequence of messages, also when the array of bindings is
  replaced in between, every route is the one that evaluating the current bindings afresh gives, for channels whose names
  have no tab.\<close>

theorem route_cache_transparent:
  assumes "\<forall>(cfg, input) \<in> set msgs. TAB \<notin> set (normalizeToken (Some (ri_channel input)))"
  shows "routes heap msgs None = map (\<lambda>(cfg, input). directRoute heap cfg input) msgs"
proof -
  have "routes heap ms cache = map (\<lambda>(cfg, input). directRoute heap cfg input) ms"
    if "\<forall>(cfg, input) \<in> set ms. TAB \<notin> set (normalizeToken (Some (ri_channel input)))"
      "case cache of None \<Rightarrow> True | Some c \<Rightarrow> cache_ok heap c" for ms cache
    using that
  proof (induction ms arbitrary: cache)
    case (Cons m ms)
    obtain cfg input where m: "m = (cfg, input)" by (cases m)
    obtain r c where r: "resolveAgentRoute heap cfg input cache = (r, c)" by (cases "resolveAgentRoute heap cfg input cache")
    have "r = directRoute heap cfg input \<and> cache_ok heap c" using resolve_ok [OF _ Cons.prems(2) r] Cons.prems(1) m by simp
    then show ?case using Cons.IH [of "Some c"] Cons.prems(1) by (simp add: m r)
  qed simp
  then show ?thesis using assms by simp
qed

section \<open>The most specific binding wins\<close>

lemma first_some_least:
  "first_some f xs = Some y \<Longrightarrow> \<exists>i < length xs. f (xs ! i) = Some y \<and> (\<forall>j < i. f (xs ! j) = None)"
proof (induction xs)
  case (Cons x xs)
  show ?case
  proof (cases "f x")
    case None
    with Cons obtain i where i: "i < length xs" "f (xs ! i) = Some y" "\<forall>j < i. f (xs ! j) = None" by auto
    then have "f ((x # xs) ! j) = None" if "j < Suc i" for j using that None by (cases j) auto
    with i show ?thesis by (intro exI [of _ "Suc i"]) auto
  next
    case (Some z)
    with Cons.prems show ?thesis by (intro exI [of _ 0]) auto
  qed
qed simp

lemma first_some_None: "first_some f xs = None \<longleftrightarrow> (\<forall>x \<in> set xs. f x = None)"
proof (induction xs)
  case (Cons x xs)
  then show ?case by (cases "f x") auto
qed simp

text \<open>The place of a tier in the order, and the tier a binding belongs to by its own constraints.\<close>

definition route_rank :: "matched_by \<Rightarrow> nat" where
  "route_rank m = (case m of ByPeer \<Rightarrow> 0 | ByPeerParent \<Rightarrow> 1 | ByGuildRoles \<Rightarrow> 2 | ByGuild \<Rightarrow> 3 | ByTeam \<Rightarrow> 4 | ByAccount \<Rightarrow> 5
     | ByChannel \<Rightarrow> 6 | ByDefault \<Rightarrow> 7)"

definition specificity :: "NormalizedBindingMatch \<Rightarrow> nat" where
  "specificity m = (if isPeerValid m then 0 else if nm_guildId m \<noteq> None \<and> nm_roles m \<noteq> None then 2 else if nm_guildId m \<noteq> None then 3
     else if nm_teamId m \<noteq> None then 4 else if nm_accountPattern m \<noteq> ''*'' then 5 else 6)"

definition messageScope :: "ResolveAgentRouteInput \<Rightarrow> RoutePeer option \<Rightarrow> BindingScope" where
  "messageScope input peer = \<lparr>bs_peer = peer, bs_guildId = normalizeId (ri_guildId input), bs_teamId = normalizeId (ri_teamId input),
     bs_memberRoleIds = nullish (ri_memberRoleIds input) []\<rparr>"

text \<open>How specific a match is for this message: 0 for a binding of the message's own peer, 1 for one of the parent's peer, else by
  its own constraints; \<open>None\<close> when it does not match.\<close>

definition matchLevel :: "ResolveAgentRouteInput \<Rightarrow> NormalizedBindingMatch \<Rightarrow> nat option" where
  "matchLevel input m =
     (if isPeerValid m \<and> matchesBindingScope m (messageScope input (normalPeer (ri_peer input))) then Some 0
      else if isPeerValid m \<and> matchesBindingScope m (messageScope input (normalPeer (ri_parentPeer input))) then Some 1
      else if matchesBindingScope m (messageScope input (normalPeer (ri_peer input))) then Some (specificity m) else None)"

definition bindingLevel :: "ResolveAgentRouteInput \<Rightarrow> AgentBinding \<Rightarrow> nat option" where
  "bindingLevel input b =
     (if matchesChannel (ab_match b) (normalizeToken (Some (ri_channel input))) \<and>
         matchesAccountId (Option.bind (ab_match b) bm_accountId) (routeAccountId (ri_accountId input))
      then matchLevel input (normalizeBindingMatch (ab_match b)) else None)"

lemma tiers_facts:
  "length (routeTiers input) = 7"
  "i < 7 \<Longrightarrow> route_rank (tr_matchedBy (routeTiers input ! i)) = i"
  by (simp add: routeTiers_def Let_def)
     (simp add: routeTiers_def Let_def route_rank_def numeral_eq_Suc less_Suc_eq nth_Cons' split: option.splits, auto)

definition hits :: "ResolveAgentRouteInput \<Rightarrow> NormalizedBindingMatch \<Rightarrow> route_tier \<Rightarrow> bool" where
  "hits input m t \<longleftrightarrow> tr_enabled t \<and> tr_predicate t m \<and> matchesBindingScope m (tierScope input t)"

lemma scope_facts:
  assumes "matchesBindingScope m scope"
  shows "nm_peer m = PeerValid k i \<Longrightarrow> bs_peer scope = Some (k, i)"
    "nm_guildId m \<noteq> None \<Longrightarrow> nm_guildId m = Some (bs_guildId scope)"
    "nm_teamId m \<noteq> None \<Longrightarrow> nm_teamId m = Some (bs_teamId scope)"
    "nm_roles m \<noteq> None \<Longrightarrow> bs_memberRoleIds scope \<noteq> []"
  using assms by (auto simp: matchesBindingScope_def list_ex_iff split: if_splits)

lemma normal_ids: "nm_guildId (normalizeBindingMatch m) = Some g \<Longrightarrow> g \<noteq> []" "nm_teamId (normalizeBindingMatch m) = Some t \<Longrightarrow> t \<noteq> []"
  "nm_peer (normalizeBindingMatch m) = PeerValid k i \<Longrightarrow> i \<noteq> []"
  by (auto simp: normalizeBindingMatch_def normalizePeerConstraint_def truthy_def split: if_splits option.splits list.splits)

text \<open>The tier with number \<open>i\<close> takes every match of level \<open>i\<close>, and none of a higher level.\<close>

lemma level_hits:
  assumes "matchLevel input (normalizeBindingMatch bm) = Some i"
  shows "i < 7" "hits input (normalizeBindingMatch bm) (routeTiers input ! i)"
proof -
  let ?m = "normalizeBindingMatch bm"
  let ?own = "messageScope input (normalPeer (ri_peer input))" and ?parent = "messageScope input (normalPeer (ri_parentPeer input))"
  show "i < 7" using assms by (auto simp: matchLevel_def specificity_def split: if_splits)
  consider (own) "i = 0" "isPeerValid ?m" "matchesBindingScope ?m ?own"
    | (parent) "i = 1" "isPeerValid ?m" "matchesBindingScope ?m ?parent"
    | (other) "i = specificity ?m" "\<not> isPeerValid ?m" "matchesBindingScope ?m ?own"
    using assms by (auto simp: matchLevel_def split: if_splits)
  then show "hits input ?m (routeTiers input ! i)"
  proof cases
    case own
    then have "normalPeer (ri_peer input) \<noteq> None"
      using scope_facts(1) [OF own(3)] by (auto simp: isPeerValid_def messageScope_def split: NormalizedPeerConstraint.splits)
    with own show ?thesis by (simp add: hits_def routeTiers_def Let_def tierScope_def messageScope_def)
  next
    case parent
    then obtain k j where "nm_peer ?m = PeerValid k j" by (auto simp: isPeerValid_def split: NormalizedPeerConstraint.splits)
    with scope_facts(1) [OF parent(3)] normal_ids(3) [of bm] have "normalPeer (ri_parentPeer input) = Some (k, j)" "j \<noteq> []"
      by (auto simp: messageScope_def)
    with parent show ?thesis by (simp add: hits_def routeTiers_def Let_def tierScope_def messageScope_def)
  next
    case other
    have guild: "nm_guildId ?m \<noteq> None \<Longrightarrow> normalizeId (ri_guildId input) \<noteq> []"
      using scope_facts(2) [OF other(3)] normal_ids(1) [of bm] by (auto simp: messageScope_def)
    have team: "nm_teamId ?m \<noteq> None \<Longrightarrow> normalizeId (ri_teamId input) \<noteq> []"
      using scope_facts(3) [OF other(3)] normal_ids(2) [of bm] by (auto simp: messageScope_def)
    have roles: "nm_roles ?m \<noteq> None \<Longrightarrow> nullish (ri_memberRoleIds input) [] \<noteq> []"
      using scope_facts(4) [OF other(3)] by (auto simp: messageScope_def)
    show ?thesis
      using other guild team roles
      by (simp add: hits_def specificity_def routeTiers_def Let_def tierScope_def messageScope_def numeral_eq_Suc)
  qed
qed

lemma hits_level:
  assumes "i < 7" "hits input m (routeTiers input ! i)"
  shows "\<exists>j \<le> i. matchLevel input m = Some j"
proof (cases "i = 1")
  case True
  then have "isPeerValid m" "matchesBindingScope m (messageScope input (normalPeer (ri_parentPeer input)))"
    using assms(2) by (auto simp: hits_def routeTiers_def Let_def tierScope_def messageScope_def split: option.splits if_splits)
  with True show ?thesis by (auto simp: matchLevel_def)
next
  case False
  with assms(1) have i: "i = 0 \<or> i = 2 \<or> i = 3 \<or> i = 4 \<or> i = 5 \<or> i = 6" by auto
  then have own: "matchesBindingScope m (messageScope input (normalPeer (ri_peer input)))"
    using assms(2) by (elim disjE) (simp_all add: hits_def routeTiers_def Let_def tierScope_def messageScope_def numeral_eq_Suc)
  have "isPeerValid m \<or> specificity m \<le> i"
    using i assms(2) by (elim disjE) (simp_all add: hits_def routeTiers_def Let_def specificity_def numeral_eq_Suc)
  with own show ?thesis by (auto simp: matchLevel_def)
qed

text \<open>What the cascade of tiers finds.\<close>

definition routeMatch :: "ResolveAgentRouteInput \<Rightarrow> EvaluatedBinding list \<Rightarrow> (EvaluatedBinding \<times> matched_by) option" where
  "routeMatch input bs = first_some (\<lambda>t. map_option (\<lambda>b. (b, tr_matchedBy t)) (tierMatch input bs t)) (routeTiers input)"

lemma tierMatch_hits:
  "tierMatch input bs t = None \<longleftrightarrow> (\<forall>c \<in> set bs. \<not> hits input (eb_match c) t)"
  "tierMatch input bs t = Some c \<Longrightarrow> \<exists>pre post. bs = pre @ c # post \<and> hits input (eb_match c) t \<and> (\<forall>d \<in> set pre. \<not> hits input (eb_match d) t)"
  by (auto simp: tierMatch_def hits_def find_None_iff find_Some_iff split: if_splits)
     (metis (no_types, lifting) id_take_nth_drop in_set_conv_nth length_take min.absorb4 nth_take)

lemma routeMatch_mem:
  assumes "routeMatch input bs = Some (b, m)"
  shows "b \<in> set bs"
  using first_some_least [OF assms [unfolded routeMatch_def]] by (auto dest!: tierMatch_hits(2))

lemma routeMatch_spec:
  assumes "\<forall>c \<in> set bs. \<exists>bm. eb_match c = normalizeBindingMatch bm"
  shows "case routeMatch input bs of
      None \<Rightarrow> \<forall>c \<in> set bs. matchLevel input (eb_match c) = None
    | Some (c, m) \<Rightarrow> m \<noteq> ByDefault \<and> (\<exists>pre post. bs = pre @ c # post \<and> matchLevel input (eb_match c) = Some (route_rank m) \<and>
        (\<forall>d \<in> set pre. \<forall>l. matchLevel input (eb_match d) = Some l \<longrightarrow> route_rank m < l) \<and>
        (\<forall>d \<in> set post. \<forall>l. matchLevel input (eb_match d) = Some l \<longrightarrow> route_rank m \<le> l))"
proof -
  let ?f = "\<lambda>t. map_option (\<lambda>b. (b, tr_matchedBy t)) (tierMatch input bs t)"
  have up: "l < 7 \<and> hits input (eb_match c) (routeTiers input ! l)" if "c \<in> set bs" "matchLevel input (eb_match c) = Some l" for c l
    using that assms level_hits by metis
  show ?thesis
  proof (cases "routeMatch input bs")
    case None
    then have none: "\<forall>t \<in> set (routeTiers input). tierMatch input bs t = None" by (auto simp: routeMatch_def first_some_None)
    have "matchLevel input (eb_match c) = None" if c: "c \<in> set bs" for c
    proof (rule ccontr)
      assume "matchLevel input (eb_match c) \<noteq> None"
      then obtain l where "matchLevel input (eb_match c) = Some l" by blast
      from up [OF c this] none tiers_facts(1) [of input] c show False by (metis nth_mem tierMatch_hits(1))
    qed
    with None show ?thesis by simp
  next
    case (Some y)
    obtain i where i: "i < 7" "?f (routeTiers input ! i) = Some y" "\<forall>j < i. ?f (routeTiers input ! j) = None"
      using first_some_least [of ?f "routeTiers input" y] Some tiers_facts(1) by (auto simp: routeMatch_def)
    obtain c m where y: "y = (c, m)" by (cases y)
    have t: "tierMatch input bs (routeTiers input ! i) = Some c" "m = tr_matchedBy (routeTiers input ! i)" using i(2) y by auto
    have r: "route_rank m = i" using t(2) tiers_facts(2) i(1) by simp
    have above: "i \<le> l" if "d \<in> set bs" "matchLevel input (eb_match d) = Some l" for d l
      using up [OF that] i(3) that(1) by (metis map_option_is_None not_le_imp_less tierMatch_hits(1))
    obtain pre post where pp: "bs = pre @ c # post" "hits input (eb_match c) (routeTiers input ! i)"
      "\<forall>d \<in> set pre. \<not> hits input (eb_match d) (routeTiers input ! i)" using tierMatch_hits(2) [OF t(1)] by blast
    have level: "matchLevel input (eb_match c) = Some i" using hits_level [OF i(1) pp(2)] above [of c] pp(1) by fastforce
    have before: "i < l" if "d \<in> set pre" "matchLevel input (eb_match d) = Some l" for d l
      using above [of d l] up [of d l] pp(1,3) that by (metis Un_iff le_neq_implies_less set_append)
    have "m \<noteq> ByDefault" using r i(1) by (auto simp: route_rank_def)
    with level before above pp(1) show ?thesis unfolding Some y r option.case prod.case by (metis Un_iff list.set_intros(2) set_append)
  qed
qed

lemma evaluated_binding:
  "c \<in> set (evaluateBindings bindings channel accountId) \<longleftrightarrow>
     (\<exists>b \<in> set bindings. c = \<lparr>eb_binding = b, eb_match = normalizeBindingMatch (ab_match b)\<rparr> \<and> matchesChannel (ab_match b) channel \<and>
        matchesAccountId (Option.bind (ab_match b) bm_accountId) accountId)"
  by (auto simp: evaluateBindings_def)

lemma chooseRoute_simps [simp]:
  "rr_matchedBy (chooseRoute cfg input a m) = m" "rr_agentId (chooseRoute cfg input a m) = pickFirstExistingAgentId (OpenClawConfig.truncate cfg) a"
  by (simp_all add: chooseRoute_def Let_def)

lemma filter_split:
  "filter P xs = pre @ x # post \<Longrightarrow> \<exists>us vs. xs = us @ x # vs \<and> filter P us = pre \<and> filter P vs = post \<and> P x"
proof (induction xs arbitrary: pre)
  case (Cons y ys)
  show ?case
  proof (cases "P y \<and> pre = []")
    case True
    with Cons.prems have "y # ys = [] @ x # ys \<and> filter P ys = post \<and> P x" by simp
    with True show ?thesis by (intro exI [of _ "[]"] exI [of _ ys]) simp
  next
    case False
    then have "filter P ys = (if P y then tl pre else pre) @ x # post" using Cons.prems by (cases pre) auto
    from Cons.IH [OF this] obtain us vs where "ys = us @ x # vs" "filter P us = (if P y then tl pre else pre)" "filter P vs = post" "P x" by blast
    with False Cons.prems show ?thesis by (intro exI [of _ "y # us"] exI [of _ vs]) (cases pre; auto split: if_splits)
  qed
qed simp

lemma directRoute_spec:
  fixes heap cfg input
  defines "r \<equiv> directRoute heap cfg input"
  shows "(if rr_matchedBy r = ByDefault then
       rr_agentId r = pickFirstExistingAgentId (OpenClawConfig.truncate cfg) (resolveDefaultAgentId (OpenClawConfig.truncate cfg)) \<and>
       (\<forall>b \<in> set (heap (cfg_bindingsRef cfg)). bindingLevel input b = None)
     else (\<exists>pre b post. heap (cfg_bindingsRef cfg) = pre @ b # post \<and> bindingLevel input b = Some (route_rank (rr_matchedBy r)) \<and>
       rr_agentId r = pickFirstExistingAgentId (OpenClawConfig.truncate cfg) (ab_agentId b) \<and>
       (\<forall>c \<in> set pre. \<forall>l. bindingLevel input c = Some l \<longrightarrow> route_rank (rr_matchedBy r) < l) \<and>
       (\<forall>c \<in> set post. \<forall>l. bindingLevel input c = Some l \<longrightarrow> route_rank (rr_matchedBy r) \<le> l)))"
proof -
  let ?bindings = "heap (cfg_bindingsRef cfg)"
  define P where "P b \<longleftrightarrow> matchesChannel (ab_match b) (normalizeToken (Some (ri_channel input))) \<and>
     matchesAccountId (Option.bind (ab_match b) bm_accountId) (routeAccountId (ri_accountId input))" for b :: AgentBinding
  define ev where "ev b = \<lparr>eb_binding = b, eb_match = normalizeBindingMatch (ab_match b)\<rparr>" for b
  have ev [simp]: "eb_binding (ev b) = b" "eb_match (ev b) = normalizeBindingMatch (ab_match b)" for b by (simp_all add: ev_def)
  have level: "bindingLevel input b = (if P b then matchLevel input (normalizeBindingMatch (ab_match b)) else None)" for b
    by (simp add: bindingLevel_def P_def)
  let ?bs = "map ev (filter P ?bindings)"
  have bs: "evaluateBindings ?bindings (normalizeToken (Some (ri_channel input))) (routeAccountId (ri_accountId input)) = ?bs"
    by (simp add: evaluateBindings_def P_def [abs_def] ev_def)
  have r: "r = (case routeMatch input ?bs of
      Some (b, m) \<Rightarrow> chooseRoute cfg input (ab_agentId (eb_binding b)) m
    | None \<Rightarrow> chooseRoute cfg input (resolveDefaultAgentId (OpenClawConfig.truncate cfg)) ByDefault)"
    by (simp add: r_def directRoute_def routeWith_def routeMatch_def bs)
  have "\<forall>c \<in> set ?bs. \<exists>bm. eb_match c = normalizeBindingMatch bm" by auto
  note spec = routeMatch_spec [OF this, of input]
  show ?thesis
  proof (cases "routeMatch input ?bs")
    case None
    then show ?thesis using spec by (simp add: r level)
  next
    case (Some y)
    obtain c m where y: "y = (c, m)" by (cases y)
    with spec Some obtain pre post where m: "m \<noteq> ByDefault" "?bs = pre @ c # post" "matchLevel input (eb_match c) = Some (route_rank m)"
      and lo: "\<forall>d \<in> set pre. \<forall>l. matchLevel input (eb_match d) = Some l \<longrightarrow> route_rank m < l"
      and hi: "\<forall>d \<in> set post. \<forall>l. matchLevel input (eb_match d) = Some l \<longrightarrow> route_rank m \<le> l" by auto
    obtain fp b fq where f: "filter P ?bindings = fp @ b # fq" "pre = map ev fp" "c = ev b" "post = map ev fq"
      using m(2) by (auto simp: map_eq_append_conv map_eq_Cons_conv)
    obtain us vs where u: "?bindings = us @ b # vs" "filter P us = fp" "filter P vs = fq" "P b" using filter_split [OF f(1)] by blast
    have "\<forall>d \<in> set us. \<forall>l. bindingLevel input d = Some l \<longrightarrow> route_rank m < l"
      "\<forall>d \<in> set vs. \<forall>l. bindingLevel input d = Some l \<longrightarrow> route_rank m \<le> l"
      using lo hi f(2,4) u(2,3) by (auto simp: level split: if_splits)
    moreover have "bindingLevel input b = Some (route_rank m)" using m(3) u(4) f(3) by (simp add: level)
    moreover have rr: "r = chooseRoute cfg input (ab_agentId b) m" by (simp add: r Some y f(3) del: map_append list.map)
    ultimately show ?thesis using u(1) unfolding rr chooseRoute_simps if_not_P [OF m(1)] by blast
  qed
qed

text \<open>(C13) Routing picks the first of the most specific bindings. After any earlier messages, which may have left anything in the
  cache of evaluated bindings and may have used other arrays of bindings (an array is replaced, not changed in place, and no
  channel name holds a tab), the route of the next message is this: when no binding of the configuration matches it, the
  default agent's, named as such. Otherwise it is the route of a matching binding, and the tier it names is the binding's
  own: the message's peer, else the parent's peer, else guild with roles, guild, team, account, channel. No matching binding
  belongs to a more specific tier, and none before it to the same one.\<close>

theorem route_most_specific:
  assumes "\<forall>(c, i) \<in> set (msgs @ [(cfg, input)]). TAB \<notin> set (normalizeToken (Some (ri_channel i)))"
  shows "\<exists>r. routes heap (msgs @ [(cfg, input)]) None = routes heap msgs None @ [r] \<and>
    (if rr_matchedBy r = ByDefault then
       rr_agentId r = pickFirstExistingAgentId (OpenClawConfig.truncate cfg) (resolveDefaultAgentId (OpenClawConfig.truncate cfg)) \<and>
       (\<forall>b \<in> set (heap (cfg_bindingsRef cfg)). bindingLevel input b = None)
     else (\<exists>pre b post. heap (cfg_bindingsRef cfg) = pre @ b # post \<and> bindingLevel input b = Some (route_rank (rr_matchedBy r)) \<and>
       rr_agentId r = pickFirstExistingAgentId (OpenClawConfig.truncate cfg) (ab_agentId b) \<and>
       (\<forall>c \<in> set pre. \<forall>l. bindingLevel input c = Some l \<longrightarrow> route_rank (rr_matchedBy r) < l) \<and>
       (\<forall>c \<in> set post. \<forall>l. bindingLevel input c = Some l \<longrightarrow> route_rank (rr_matchedBy r) \<le> l)))"
proof -
  have "routes heap (msgs @ [(cfg, input)]) None = routes heap msgs None @ [directRoute heap cfg input]"
    using route_cache_transparent [OF assms, of heap] route_cache_transparent [of msgs heap] assms by simp
  with directRoute_spec [of heap cfg input] show ?thesis by blast
qed

section \<open>The session of a route belongs to its agent\<close>

lemma to_lower_append: "to_lower (x @ y) = to_lower x @ to_lower y" "to_lower (c # y) = lower_char c # to_lower y"
  by (simp_all add: to_lower_def)

lemma lower_ids: "to_lower (normalizeAgentId v) = normalizeAgentId v" "to_lower (normalizeAccountId v) = normalizeAccountId v"
proof -
  show "to_lower (normalizeAgentId v) = normalizeAgentId v"
    using agent_id_facts(1) [of v] to_lower_idle by (simp add: safe_id_def)
  show "to_lower (normalizeAccountId v) = normalizeAccountId v"
    using normalize_id_safe [OF default_ids_safe(2), of v] to_lower_idle by (simp add: safe_id_def normalizeAccountId_def)
qed

lemma lower_constants:
  "to_lower ''agent:'' = ''agent:''" "to_lower '':direct:'' = '':direct:''" "to_lower ''direct:'' = ''direct:''"
  "lower_char COLON = COLON" "to_lower (chat_name k) = chat_name k" "to_lower ''unknown'' = ''unknown''" "to_lower ''main'' = ''main''"
  by (cases k; simp add: to_lower_def lower_char_def chat_name_def)+

lemma lower_letters:
  "lower_char CHR ''a'' = CHR ''a''" "lower_char CHR ''g'' = CHR ''g''" "lower_char CHR ''e'' = CHR ''e''" "lower_char CHR ''n'' = CHR ''n''"
  "lower_char CHR ''t'' = CHR ''t''" "lower_char CHR ''d'' = CHR ''d''" "lower_char CHR ''i'' = CHR ''i''" "lower_char CHR ''r'' = CHR ''r''"
  "lower_char CHR ''c'' = CHR ''c''"
  by (simp_all add: lower_char_def)

lemma or_string_lower: "to_lower x = x \<Longrightarrow> to_lower y = y \<Longrightarrow> to_lower (or_string x y) = or_string x y"
  by (simp add: or_string_def)

text \<open>Keys are stored in lower case already.\<close>

lemma peer_key_lower: "to_lower (buildAgentPeerSessionKey p) = buildAgentPeerSessionKey p"
proof -
  have main: "to_lower (normalizeMainKey m) = normalizeMainKey m" for m
    by (simp add: normalizeMainKey_def Let_def DEFAULT_MAIN_KEY_def lower_constants)
  have ch: "to_lower (channel_token c) = channel_token c" for c by (simp add: channel_token_def or_string_lower lower_constants)
  have peer: "to_lower (direct_peer q) = direct_peer q" for q by (simp add: direct_peer_def Let_def)
  show ?thesis
    by (simp add: buildAgentPeerSessionKey_def buildAgentMainSessionKey_def agent_key_def Let_def to_lower_append lower_constants lower_ids main ch peer
        or_string_lower lower_letters)
qed


lemma normalize_trim: "normalizeAgentId (Some (trim x)) = normalizeAgentId (Some x)"
  by (simp add: normalizeAgentId_def normalize_id_def)

lemma sanitize_is_normalize: "sanitizeAgentId = normalizeAgentId"
  by (simp add: sanitizeAgentId_def normalizeAgentId_def)

lemma agent_id_length: "length (normalizeAgentId v) \<le> 64"
  using agent_id_facts(1) [of v] by (simp add: safe_id_def)

lemma agent_id_trim: "trim (normalizeAgentId v) = normalizeAgentId v"
  by (rule trim_idle [OF agent_id_facts(1)])

text \<open>Agent names of at most 64 characters, in the configured agents and in a binding.\<close>

definition short_names :: "OpenClawConfig \<Rightarrow> bool" where
  "short_names cfg \<longleftrightarrow> (\<forall>a \<in> set (nullish (cfg_agents cfg) []). length (trim (ae_id a)) \<le> 64)"

lemma default_agent_normal:
  assumes "short_names cfg"
  shows "normalizeAgentId (Some (resolveDefaultAgentId cfg)) = resolveDefaultAgentId cfg"
    "cfg_agents cfg = Some (a # as) \<Longrightarrow> resolveDefaultAgentId cfg \<in> set (listAgentIds cfg)"
proof -
  have e: "trim [] = []" "normalizeAgentId (Some []) = DEFAULT_AGENT_ID" by (simp_all add: normalizeAgentId_def normalize_id_def trim_def)
  have dm: "normalizeAgentId (Some DEFAULT_AGENT_ID) = DEFAULT_AGENT_ID" "normalizeAgentId (Some []) = DEFAULT_AGENT_ID"
    using agent_id_idem [of "Some []"] by (simp_all add: e)
  have pick: "\<exists>e \<in> set (listAgentEntries cfg). resolveDefaultAgentId cfg = normalizeAgentId (Some (ae_id e))"
    if ne: "listAgentEntries cfg = x # xs" for x xs
  proof
    define e where "e = hd (filter ae_default (x # xs) @ [x])"
    have "e \<in> set (filter ae_default (x # xs) @ [x])" unfolding e_def by (rule hd_in_set) simp
    then show "e \<in> set (listAgentEntries cfg)" by (auto simp: ne split: if_splits)
    have "normalizeAgentId (Some (or_string (trim (ae_id e)) DEFAULT_AGENT_ID)) = normalizeAgentId (Some (ae_id e))"
      using dm normalize_trim [of "ae_id e"] by (cases "trim (ae_id e) = []") (simp_all add: or_string_def)
    then show "resolveDefaultAgentId cfg = normalizeAgentId (Some (ae_id e))"
      by (simp add: resolveDefaultAgentId_def ne e_def Let_def del: filter.simps)
  qed
  show "normalizeAgentId (Some (resolveDefaultAgentId cfg)) = resolveDefaultAgentId cfg"
  proof (cases "listAgentEntries cfg")
    case Nil
    then show ?thesis using dm by (simp add: resolveDefaultAgentId_def)
  next
    case (Cons x xs)
    from pick [OF Cons] obtain e where e: "e \<in> set (listAgentEntries cfg)" "resolveDefaultAgentId cfg = normalizeAgentId (Some (ae_id e))" by blast
    with agent_id_idem [of "Some (ae_id e)"] assms show ?thesis by (simp add: short_names_def listAgentEntries_def)
  qed
  show "resolveDefaultAgentId cfg \<in> set (listAgentIds cfg)" if "cfg_agents cfg = Some (a # as)"
    using pick [of a as] that by (auto simp: listAgentEntries_def listAgentIds_def)
qed

lemma picked_agent_normal:
  assumes "short_names cfg" "length (trim agentId) \<le> 64"
  shows "normalizeAgentId (Some (pickFirstExistingAgentId cfg agentId)) = pickFirstExistingAgentId cfg agentId"
    "cfg_agents cfg = Some (a # as) \<Longrightarrow> pickFirstExistingAgentId cfg agentId \<in> set (listAgentIds cfg)"
proof -
  note d = default_agent_normal [OF assms(1)]
  have f: "find (\<lambda>a. normalizeAgentId (Some (ae_id a)) = normalizeAgentId (Some (trim agentId))) (nullish (cfg_agents cfg) []) = Some e \<Longrightarrow>
      e \<in> set (nullish (cfg_agents cfg) [])" for e by (auto simp: find_Some_iff)
  have e: "length (trim (ae_id e)) \<le> 64" if "e \<in> set (nullish (cfg_agents cfg) [])" for e using that assms(1) by (simp add: short_names_def)
  show "normalizeAgentId (Some (pickFirstExistingAgentId cfg agentId)) = pickFirstExistingAgentId cfg agentId"
    using d(1) e [OF f] agent_id_idem assms(2)
    by (auto simp: pickFirstExistingAgentId_def Let_def sanitize_is_normalize split: option.splits)
  show "pickFirstExistingAgentId cfg agentId \<in> set (listAgentIds cfg)" if a: "cfg_agents cfg = Some (a # as)"
  proof -
    have "normalizeAgentId (Some (trim (ae_id e))) \<in> set (listAgentIds cfg)" if "e \<in> set (nullish (cfg_agents cfg) [])" for e
      using that a by (auto simp: listAgentIds_def listAgentEntries_def normalize_trim)
    with d(1) d(2) [OF a] f a show ?thesis
      by (auto simp: pickFirstExistingAgentId_def Let_def sanitize_is_normalize split: option.splits)
  qed
qed

lemma route_key_agent:
  assumes "normalizeAgentId (Some a) = a"
  shows "resolveAgentIdFromSessionKey (Some (to_lower (buildAgentSessionKey a channel acc peer scope links))) = a"
proof -
  let ?p = "\<lparr>pp_agentId = a, pp_mainKey = Some DEFAULT_MAIN_KEY,
       pp_channel = or_string (normalizeToken (Some channel)) ''unknown'', pp_accountId = acc,
       pp_peerKind = Some (case peer of Some (kind, _) \<Rightarrow> kind | None \<Rightarrow> ChatDirect),
       pp_peerId = map_option (\<lambda>(_, i). or_string (normalizeId (Some i)) ''unknown'') peer,
       pp_identityLinks = links, pp_dmScope = scope\<rparr>"
  have k: "key_parts (normalizeMainKey (pp_mainKey ?p)) \<noteq> []"
    by (simp add: normalizeMainKey_def DEFAULT_MAIN_KEY_def trim_def is_ws_def lower_constants key_parts_def)
  obtain rest where r: "solid rest" "buildAgentPeerSessionKey ?p = agent_key (normalizeAgentId (Some a)) rest"
    using peer_key_shape [OF k] by auto
  have "length (trim a) \<le> 64" using assms agent_id_length agent_id_trim by metis
  from resolve_built_key [OF r(1) this] have "resolveAgentIdFromSessionKey (Some (buildAgentPeerSessionKey ?p)) = a"
    unfolding r(2) assms .
  then show ?thesis unfolding buildAgentSessionKey_def peer_key_lower .
qed

text \<open>A route is consistent: the session key it names resolves to the agent it names, and that agent is one of the
  configured agents when any is configured, whatever the bindings say. It asks for agent names of at most 64 characters.\<close>

theorem route_consistent:
  assumes "short_names (OpenClawConfig.truncate cfg)" "\<forall>b \<in> set (heap (cfg_bindingsRef cfg)). length (trim (ab_agentId b)) \<le> 64"
  shows "resolveAgentIdFromSessionKey (Some (rr_sessionKey (directRoute heap cfg input))) = rr_agentId (directRoute heap cfg input) \<and>
    (nullish (cfg_agents cfg) [] \<noteq> [] \<longrightarrow> rr_agentId (directRoute heap cfg input) \<in> set (listAgentIds (OpenClawConfig.truncate cfg)))"
proof -
  let ?c = "OpenClawConfig.truncate cfg"
  let ?bs = "evaluateBindings (heap (cfg_bindingsRef cfg)) (normalizeToken (Some (ri_channel input))) (routeAccountId (ri_accountId input))"
  obtain x m where x: "directRoute heap cfg input = chooseRoute cfg input x m" "length (trim x) \<le> 64"
  proof (cases "routeMatch input ?bs")
    case None
    have "length (trim (resolveDefaultAgentId ?c)) \<le> 64"
      using default_agent_normal(1) [OF assms(1)] agent_id_length agent_id_trim by metis
    with None that show ?thesis by (auto simp: directRoute_def routeWith_def routeMatch_def)
  next
    case (Some y)
    then obtain b m where "routeMatch input ?bs = Some (b, m)" by (cases y) auto
    moreover from this have "b \<in> set ?bs" by (rule routeMatch_mem)
    ultimately show ?thesis using assms(2) that
      by (fastforce simp: directRoute_def routeWith_def routeMatch_def evaluated_binding)
  qed
  have "cfg_agents ?c = cfg_agents cfg" by (simp add: OpenClawConfig.truncate_def)
  then show ?thesis
    using picked_agent_normal [OF assms(1) x(2)] route_key_agent
    by (cases "cfg_agents cfg"; cases "the (cfg_agents cfg)") (auto simp: x(1) chooseRoute_def Let_def)
qed


subsection \<open>Witnesses\<close>

definition route_config :: RouteConfig where
  "route_config = \<lparr>cfg_agents = Some [\<lparr>ae_id = ''main'', ae_default = True, ae_tools = None\<rparr>, \<lparr>ae_id = ''ops'', ae_default = False, ae_tools = None\<rparr>],
     cfg_maxSpawnDepth = None, cfg_tools = None, cfg_channels = [], cfg_bindingsRef = 0, cfg_dmScope = None, cfg_identityLinks = None\<rparr>"

definition route_bindings :: "nat \<Rightarrow> AgentBinding list" where
  "route_bindings r = [\<lparr>ab_agentId = ''ops'', ab_match = Some \<lparr>bm_channel = Some ''irc'', bm_accountId = Some ''*'', bm_peer = None,
     bm_guildId = None, bm_teamId = None, bm_roles = None\<rparr>\<rparr>]"

definition route_input :: ResolveAgentRouteInput where
  "route_input = \<lparr>ri_channel = ''irc'', ri_accountId = None, ri_peer = Some (ChatGroup, ''x''), ri_parentPeer = None, ri_guildId = None,
     ri_teamId = None, ri_memberRoleIds = None\<rparr>"

lemmas route_eval = directRoute_def routeWith_def evaluateBindings_def route_bindings_def route_config_def route_input_def matchesChannel_def
  normalizeToken_def matchesAccountId_def routeTiers_def tierMatch_def tierScope_def normalizeBindingMatch_def matchesBindingScope_def
  normalizePeerConstraint_def normalPeer_def normalizeId_def routeAccountId_def isPeerValid_def truthy_def to_lower_def lower_char_def
  trim_def is_ws_def or_string_def

lemma route_example_tier: "rr_matchedBy (directRoute route_bindings route_config route_input) = ByChannel"
  by (simp add: route_eval DEFAULT_ACCOUNT_ID_def Let_def)

theorem route_cache_transparent_witness:
  "routes route_bindings [(route_config, route_input), (route_config, route_input)] None =
     [directRoute route_bindings route_config route_input, directRoute route_bindings route_config route_input]"
proof -
  have "\<forall>(cfg, input) \<in> set [(route_config, route_input), (route_config, route_input)]. TAB \<notin> set (normalizeToken (Some (ri_channel input)))"
    by (simp add: route_eval)
  from route_cache_transparent [OF this] show ?thesis by simp
qed

theorem route_most_specific_witness:
  "\<exists>r. routes route_bindings [(route_config, route_input), (route_config, route_input)] None =
       routes route_bindings [(route_config, route_input)] None @ [r] \<and> rr_matchedBy r = ByChannel \<and>
     (\<exists>b. b \<in> set (route_bindings 0) \<and> bindingLevel route_input b = Some 6)"
proof -
  have "\<forall>(c, i) \<in> set ([(route_config, route_input)] @ [(route_config, route_input)]). TAB \<notin> set (normalizeToken (Some (ri_channel i)))"
    by (simp add: route_eval)
  from route_most_specific [OF this, of route_bindings] obtain r pre b post where
    r: "routes route_bindings [(route_config, route_input), (route_config, route_input)] None =
       routes route_bindings [(route_config, route_input)] None @ [r]"
    "rr_matchedBy r \<noteq> ByDefault \<longrightarrow> route_bindings (cfg_bindingsRef route_config) = pre @ b # post \<and>
       bindingLevel route_input b = Some (route_rank (rr_matchedBy r))"
    unfolding append_Cons append_Nil by metis
  have "r = directRoute route_bindings route_config route_input" using r(1) route_cache_transparent_witness by simp
  then have "rr_matchedBy r = ByChannel" by (simp only: route_example_tier)
  moreover from this r(2) have "b \<in> set (route_bindings 0)" "bindingLevel route_input b = Some 6"
    by (simp_all add: route_rank_def route_config_def)
  ultimately show ?thesis using r(1) by blast
qed

theorem route_consistent_witness:
  "resolveAgentIdFromSessionKey (Some (rr_sessionKey (directRoute route_bindings route_config route_input))) =
     rr_agentId (directRoute route_bindings route_config route_input) \<and>
   rr_agentId (directRoute route_bindings route_config route_input) \<in> set (listAgentIds (OpenClawConfig.truncate route_config))"
proof -
  have "short_names (OpenClawConfig.truncate route_config)"
    "\<forall>b \<in> set (route_bindings (cfg_bindingsRef route_config)). length (trim (ab_agentId b)) \<le> 64"
    by (simp_all add: short_names_def OpenClawConfig.truncate_def route_config_def route_bindings_def trim_def is_ws_def)
  moreover have "nullish (cfg_agents route_config) [] \<noteq> []" by (simp add: route_config_def)
  ultimately show ?thesis using route_consistent [of route_config route_bindings route_input] by blast
qed

text \<open>Account listings read a channel's aliases, routing does not: a binding for \<open>gchat\<close> counts as bound to \<open>googlechat\<close> but
  never matches a message from there.\<close>

lemma alias_binding_ignored:
  "matchesChannel (Some \<lparr>bm_channel = Some ''gchat'', bm_accountId = None, bm_peer = None, bm_guildId = None, bm_teamId = None, bm_roles = None\<rparr>)
     ''googlechat'' = False \<and> normalizeBindingChannelId (Some ''gchat'') = Some ''googlechat''"
  by code_simp

end
