(* ===== verification/Tool_Loop.thy ===== *)
theory Tool_Loop
  imports Tool_Policy "HOL-Library.List_Lexorder" "HOL-Library.Char_ord"
begin

section \<open>Tool-call loops (agents/tool-loop-detection.ts, agents/pi-tools.before-tool-call.ts)\<close>

text \<open>
  Before a tool runs, the history of its session is searched for signs that the agent is stuck:
  the same call with the same outcome many times, a polling tool that makes no progress, two calls
  that alternate. A warning is logged, a critical finding blocks the call. The history is kept in the
  session states of logging/diagnostic-session-state.ts. SHA-256 is the argument \<open>sha\<close>; the texts of
  warnings are left out.
\<close>

subsection \<open>Values and their digests\<close>

text \<open>JavaScript values a call or a result consists of. A number is the text \<open>JSON.stringify\<close> prints for it.\<close>

datatype json = JUndef | JNull | JBool bool | JNum string | JStr string | JArr "json list" | JObj "(string \<times> json) list"

definition hex_digit :: "nat \<Rightarrow> char" where
  "hex_digit n = (if n < 10 then char_of (48 + n) else char_of (87 + n))"

definition json_char :: "char \<Rightarrow> string" where
  "json_char c = (let n = (of_char c :: nat) in
     if c = DQ then [BSL, DQ] else if c = BSL then [BSL, BSL]
     else if n = 8 then [BSL, CHR ''b''] else if n = 12 then [BSL, CHR ''f''] else if n = 10 then [BSL, CHR ''n'']
     else if n = 13 then [BSL, CHR ''r''] else if n = 9 then [BSL, CHR ''t'']
     else if n < 32 then BSL # ''u00'' @ [hex_digit (n div 16), hex_digit (n mod 16)] else [c])"

definition json_quote :: "string \<Rightarrow> string" where
  "json_quote s = DQ # concat (map json_char s) @ [DQ]"

text \<open>\<open>None\<close> is the \<open>undefined\<close> that \<open>JSON.stringify(undefined)\<close> returns: nothing in an array, the word in an object.\<close>

fun stableStringify :: "json \<Rightarrow> string option" where
  "stableStringify JUndef = None"
| "stableStringify JNull = Some ''null''"
| "stableStringify (JBool b) = Some (if b then ''true'' else ''false'')"
| "stableStringify (JNum t) = Some t"
| "stableStringify (JStr s) = Some (json_quote s)"
| "stableStringify (JArr xs) = Some (''['' @ join '','' (map (\<lambda>x. nullish (stableStringify x) []) xs) @ '']'')"
| "stableStringify (JObj kvs) =
     (let texts = map (\<lambda>kv. (fst kv, nullish (stableStringify (snd kv)) ''undefined'')) kvs
      in Some (CHR ''{'' # join '','' (map (\<lambda>(k, t). json_quote k @ CHR '':'' # t) (sort_key fst texts)) @ [CHR ''}'']))"


text \<open>\<open>None\<close>: the serialisation is \<open>undefined\<close> and the hash function throws.\<close>

definition digestStable :: "(string \<Rightarrow> string) \<Rightarrow> json \<Rightarrow> string option" where
  "digestStable sha value = map_option sha (stableStringify value)"

definition hashToolCall :: "(string \<Rightarrow> string) \<Rightarrow> string \<Rightarrow> json \<Rightarrow> string option" where
  "hashToolCall sha toolName params = map_option (\<lambda>d. toolName @ CHR '':'' # d) (digestStable sha params)"

definition isPlainObject :: "json \<Rightarrow> bool" where
  "isPlainObject v = (case v of JObj _ \<Rightarrow> True | _ \<Rightarrow> False)"

definition field :: "json \<Rightarrow> string \<Rightarrow> json" where
  "field v k = (case v of JObj kvs \<Rightarrow> nullish (map_of kvs k) JUndef | _ \<Rightarrow> JUndef)"

definition orNull :: "json \<Rightarrow> json" where
  "orNull v = (if v = JUndef then JNull else v)"

definition isKnownPollToolCall :: "string \<Rightarrow> json \<Rightarrow> bool" where
  "isKnownPollToolCall toolName params =
     (if toolName = ''command_status'' then True
      else if toolName \<noteq> ''process'' \<or> \<not> isPlainObject params then False
      else field params ''action'' = JStr ''poll'' \<or> field params ''action'' = JStr ''log'')"

definition entry_text :: "json \<Rightarrow> string option" where
  "entry_text entry = (case (isPlainObject entry, field entry ''type'', field entry ''text'') of
     (True, JStr _, JStr t) \<Rightarrow> Some t | _ \<Rightarrow> None)"

definition extractTextContent :: "json \<Rightarrow> string" where
  "extractTextContent result = (case (isPlainObject result, field result ''content'') of
     (True, JArr entries) \<Rightarrow> trim (join [NL] (List.map_filter entry_text entries)) | _ \<Rightarrow> [])"

datatype thrown = ThrownError string string | ThrownValue json

definition formatErrorForHash :: "thrown \<Rightarrow> json" where
  "formatErrorForHash err = (case err of
     ThrownError name message \<Rightarrow> JStr (or_string message name)
   | ThrownValue (JStr s) \<Rightarrow> JStr s
   | ThrownValue (JNum t) \<Rightarrow> JStr t
   | ThrownValue (JBool b) \<Rightarrow> JStr (if b then ''true'' else ''false'')
   | ThrownValue v \<Rightarrow> (case stableStringify v of Some t \<Rightarrow> JStr t | None \<Rightarrow> JUndef))"

text \<open>\<open>error\<close> is \<open>None\<close> when no error is passed; the result \<open>None\<close> is \<open>undefined\<close>.\<close>

definition hashToolOutcome :: "(string \<Rightarrow> string) \<Rightarrow> string \<Rightarrow> json \<Rightarrow> json \<Rightarrow> thrown option \<Rightarrow> string option" where
  "hashToolOutcome sha toolName params result err = (case err of
     Some e \<Rightarrow> map_option (\<lambda>d. ''error:'' @ d) (digestStable sha (formatErrorForHash e))
   | None \<Rightarrow>
      (if \<not> isPlainObject result then (if result = JUndef then None else digestStable sha result)
       else
         (let details = (if isPlainObject (field result ''details'') then field result ''details'' else JObj []);
              text = JStr (extractTextContent result); action = field params ''action''
          in if isKnownPollToolCall toolName params \<and> toolName = ''process'' \<and> isPlainObject params \<and> action = JStr ''poll'' then
               digestStable sha (JObj [(''action'', action), (''status'', field details ''status''),
                 (''exitCode'', orNull (field details ''exitCode'')), (''exitSignal'', orNull (field details ''exitSignal'')),
                 (''aggregated'', orNull (field details ''aggregated'')), (''text'', text)])
             else if isKnownPollToolCall toolName params \<and> toolName = ''process'' \<and> isPlainObject params \<and> action = JStr ''log'' then
               digestStable sha (JObj [(''action'', action), (''status'', field details ''status''),
                 (''totalLines'', orNull (field details ''totalLines'')), (''totalChars'', orNull (field details ''totalChars'')),
                 (''truncated'', orNull (field details ''truncated'')), (''exitCode'', orNull (field details ''exitCode'')),
                 (''exitSignal'', orNull (field details ''exitSignal'')), (''text'', text)])
             else digestStable sha (JObj [(''details'', details), (''text'', text)]))))"

subsection \<open>Configuration\<close>

text \<open>Numbers of the configuration are rationals: a value that is not a positive integer is replaced.\<close>

record ToolLoopDetectionConfig =
  lc_enabled :: "bool option"
  lc_historySize :: "rat option"
  lc_warningThreshold :: "rat option"
  lc_criticalThreshold :: "rat option"
  lc_globalCircuitBreakerThreshold :: "rat option"
  lc_genericRepeat :: "bool option"
  lc_knownPollNoProgress :: "bool option"
  lc_pingPong :: "bool option"

definition TOOL_CALL_HISTORY_SIZE :: nat where "TOOL_CALL_HISTORY_SIZE = 30"
definition WARNING_THRESHOLD :: nat where "WARNING_THRESHOLD = 10"
definition CRITICAL_THRESHOLD :: nat where "CRITICAL_THRESHOLD = 20"
definition GLOBAL_CIRCUIT_BREAKER_THRESHOLD :: nat where "GLOBAL_CIRCUIT_BREAKER_THRESHOLD = 30"

record ResolvedLoopDetectionConfig =
  rc_enabled :: bool
  rc_historySize :: nat
  rc_warningThreshold :: nat
  rc_criticalThreshold :: nat
  rc_globalCircuitBreakerThreshold :: nat
  rc_genericRepeat :: bool
  rc_knownPollNoProgress :: bool
  rc_pingPong :: bool

definition asPositiveInt :: "rat option \<Rightarrow> nat \<Rightarrow> nat" where
  "asPositiveInt value fallback = (case value of None \<Rightarrow> fallback
     | Some v \<Rightarrow> if of_int \<lfloor>v\<rfloor> \<noteq> v \<or> v \<le> 0 then fallback else nat \<lfloor>v\<rfloor>)"

definition resolveLoopDetectionConfig :: "ToolLoopDetectionConfig option \<Rightarrow> ResolvedLoopDetectionConfig" where
  "resolveLoopDetectionConfig config =
     (let warning = asPositiveInt (Option.bind config lc_warningThreshold) WARNING_THRESHOLD;
          critical0 = asPositiveInt (Option.bind config lc_criticalThreshold) CRITICAL_THRESHOLD;
          breaker0 = asPositiveInt (Option.bind config lc_globalCircuitBreakerThreshold) GLOBAL_CIRCUIT_BREAKER_THRESHOLD;
          critical = (if critical0 \<le> warning then warning + 1 else critical0);
          breaker = (if breaker0 \<le> critical then critical + 1 else breaker0)
      in \<lparr>rc_enabled = nullish (Option.bind config lc_enabled) False,
          rc_historySize = asPositiveInt (Option.bind config lc_historySize) TOOL_CALL_HISTORY_SIZE,
          rc_warningThreshold = warning, rc_criticalThreshold = critical, rc_globalCircuitBreakerThreshold = breaker,
          rc_genericRepeat = nullish (Option.bind config lc_genericRepeat) True,
          rc_knownPollNoProgress = nullish (Option.bind config lc_knownPollNoProgress) True,
          rc_pingPong = nullish (Option.bind config lc_pingPong) True\<rparr>)"

subsection \<open>History and streaks\<close>

record ToolCallRecord =
  cr_toolName :: string
  cr_argsHash :: string
  cr_toolCallId :: "string option"
  cr_resultHash :: "string option"
  cr_timestamp :: int

text \<open>The backward loop, on the reversed history.\<close>

fun noProgressLoop :: "string \<Rightarrow> string \<Rightarrow> nat \<Rightarrow> string option \<Rightarrow> ToolCallRecord list \<Rightarrow> nat \<times> string option" where
  "noProgressLoop tool args streak latest [] = (streak, latest)"
| "noProgressLoop tool args streak latest (c # cs) =
     (if cr_toolName c \<noteq> tool \<or> cr_argsHash c \<noteq> args then noProgressLoop tool args streak latest cs
      else (case truthy (cr_resultHash c) of
          None \<Rightarrow> noProgressLoop tool args streak latest cs
        | Some r \<Rightarrow>
           (case latest of
              None \<Rightarrow> noProgressLoop tool args 1 (Some r) cs
            | Some l \<Rightarrow> if r \<noteq> l then (streak, latest) else noProgressLoop tool args (streak + 1) latest cs)))"

definition getNoProgressStreak :: "ToolCallRecord list \<Rightarrow> string \<Rightarrow> string \<Rightarrow> nat \<times> string option" where
  "getNoProgressStreak history toolName argsHash = noProgressLoop toolName argsHash 0 None (rev history)"

record ping_pong =
  pp_count :: nat
  pp_pairedToolName :: "string option"
  pp_pairedSignature :: "string option"
  pp_noProgressEvidence :: bool

definition no_ping_pong :: ping_pong where
  "no_ping_pong = \<lparr>pp_count = 0, pp_pairedToolName = None, pp_pairedSignature = None, pp_noProgressEvidence = False\<rparr>"

text \<open>How far back the two signatures alternate; \<open>n\<close> counts the calls found so far.\<close>

fun alternatingTail :: "string \<Rightarrow> string \<Rightarrow> nat \<Rightarrow> ToolCallRecord list \<Rightarrow> nat" where
  "alternatingTail a b n [] = n"
| "alternatingTail a b n (c # cs) =
     (if cr_argsHash c \<noteq> (if n mod 2 = 0 then a else b) then n else alternatingTail a b (n + 1) cs)"

text \<open>The forward loop over the tail: every call has a result, and each side always the same one.\<close>

fun evidenceLoop :: "string \<Rightarrow> string \<Rightarrow> string option \<Rightarrow> string option \<Rightarrow> ToolCallRecord list \<Rightarrow> bool" where
  "evidenceLoop a b fa fb [] = (fa \<noteq> None \<and> fb \<noteq> None)"
| "evidenceLoop a b fa fb (c # cs) =
     (case truthy (cr_resultHash c) of
        None \<Rightarrow> False
      | Some r \<Rightarrow>
         (if cr_argsHash c = a then
            (case fa of None \<Rightarrow> evidenceLoop a b (Some r) fb cs | Some x \<Rightarrow> if x \<noteq> r then False else evidenceLoop a b fa fb cs)
          else if cr_argsHash c = b then
            (case fb of None \<Rightarrow> evidenceLoop a b fa (Some r) cs | Some x \<Rightarrow> if x \<noteq> r then False else evidenceLoop a b fa fb cs)
          else False))"

definition getPingPongStreak :: "ToolCallRecord list \<Rightarrow> string \<Rightarrow> ping_pong" where
  "getPingPongStreak history currentSignature = (case rev history of
     [] \<Rightarrow> no_ping_pong
   | l # before \<Rightarrow>
      (case find (\<lambda>c. cr_argsHash c \<noteq> cr_argsHash l) before of
         None \<Rightarrow> no_ping_pong
       | Some other \<Rightarrow>
          (if cr_argsHash other = [] \<or> cr_toolName other = [] then no_ping_pong
           else
             (let n = alternatingTail (cr_argsHash l) (cr_argsHash other) 0 (rev history) in
              if n < 2 then no_ping_pong
              else if currentSignature \<noteq> cr_argsHash other then no_ping_pong
              else \<lparr>pp_count = n + 1, pp_pairedToolName = Some (cr_toolName l), pp_pairedSignature = Some (cr_argsHash l),
                    pp_noProgressEvidence = evidenceLoop (cr_argsHash l) (cr_argsHash other) None None
                      (drop (length history - n) history)\<rparr>))))"

definition canonicalPairKey :: "string \<Rightarrow> string \<Rightarrow> string" where
  "canonicalPairKey a b = join ''|'' (sort [a, b])"

datatype loop_level = LoopWarning | LoopCritical

datatype LoopDetectorKind = GenericRepeat | KnownPollNoProgress | GlobalCircuitBreaker | PingPong

datatype LoopDetectionResult = NotStuck | Stuck loop_level LoopDetectorKind nat "string option" string


subsection \<open>Session states (logging/diagnostic-session-state.ts)\<close>

datatype SessionStateValue = StateIdle | StateProcessing | StateWaiting

record SessionState =
  ss_sessionId :: "string option"
  ss_sessionKey :: "string option"
  ss_lastActivity :: int
  ss_state :: SessionStateValue
  ss_queueDepth :: int
  ss_toolCallHistory :: "ToolCallRecord list"
  ss_toolLoopWarningBuckets :: "(string \<times> nat) list"

text \<open>The module's map, in insertion order, and the time of the last sweep.\<close>

record diagnostic_states =
  dg_states :: "(string \<times> SessionState) list"
  dg_lastPruneAt :: int

definition SESSION_STATE_TTL_MS :: int where "SESSION_STATE_TTL_MS = 30 * 60 * 1000"
definition SESSION_STATE_PRUNE_INTERVAL_MS :: int where "SESSION_STATE_PRUNE_INTERVAL_MS = 60 * 1000"
definition SESSION_STATE_MAX_ENTRIES :: nat where "SESSION_STATE_MAX_ENTRIES = 2000"

definition staleSession :: "int \<Rightarrow> SessionState \<Rightarrow> bool" where
  "staleSession now st \<longleftrightarrow> ss_state st = StateIdle \<and> ss_queueDepth st \<le> 0 \<and> now - ss_lastActivity st > SESSION_STATE_TTL_MS"

text \<open>The keys the second loop deletes: up to the first empty key.\<close>

definition oldestKeys :: "nat \<Rightarrow> (string \<times> SessionState) list \<Rightarrow> string list" where
  "oldestKeys excess states =
     takeWhile (\<lambda>k. k \<noteq> []) (take excess (map fst (sort_key (\<lambda>p. ss_lastActivity (snd p)) states)))"

definition pruneDiagnosticSessionStates :: "int \<Rightarrow> bool \<Rightarrow> diagnostic_states \<Rightarrow> diagnostic_states" where
  "pruneDiagnosticSessionStates now force d =
     (if \<not> force \<and> \<not> SESSION_STATE_MAX_ENTRIES < length (dg_states d) \<and> now - dg_lastPruneAt d < SESSION_STATE_PRUNE_INTERVAL_MS then d
      else
        (let kept = filter (\<lambda>p. \<not> staleSession now (snd p)) (dg_states d) in
         if length kept \<le> SESSION_STATE_MAX_ENTRIES then \<lparr>dg_states = kept, dg_lastPruneAt = now\<rparr>
         else (let victims = oldestKeys (length kept - SESSION_STATE_MAX_ENTRIES) kept
               in \<lparr>dg_states = filter (\<lambda>p. fst p \<notin> set victims) kept, dg_lastPruneAt = now\<rparr>)))"

definition resolveSessionKey :: "string option \<Rightarrow> string option \<Rightarrow> string" where
  "resolveSessionKey sessionKey sessionId = nullish sessionKey (nullish sessionId ''unknown'')"

definition findStateBySessionId :: "string \<Rightarrow> (string \<times> SessionState) list \<Rightarrow> string option" where
  "findStateBySessionId sessionId states = map_option fst (find (\<lambda>p. ss_sessionId (snd p) = Some sessionId) states)"

text \<open>The state is returned by the key it is stored under, so that its owner can change it in place.\<close>

definition getDiagnosticSessionState :: "int \<Rightarrow> string option \<Rightarrow> string option \<Rightarrow> diagnostic_states \<Rightarrow> diagnostic_states \<times> string" where
  "getDiagnosticSessionState now sessionKey sessionId d0 =
     (let d = pruneDiagnosticSessionStates now False d0;
          key = resolveSessionKey sessionKey sessionId;
          existing = (if map_of (dg_states d) key \<noteq> None then Some key
                      else Option.bind (truthy sessionId) (\<lambda>i. findStateBySessionId i (dg_states d)))
      in (case existing of
            Some k \<Rightarrow> (d\<lparr>dg_states := AList.map_entry k (\<lambda>st.
                st\<lparr>ss_sessionId := orelse (truthy sessionId) (ss_sessionId st),
                   ss_sessionKey := orelse (truthy sessionKey) (ss_sessionKey st)\<rparr>) (dg_states d)\<rparr>, k)
          | None \<Rightarrow> (pruneDiagnosticSessionStates now True (d\<lparr>dg_states := AList.update key
                \<lparr>ss_sessionId = sessionId, ss_sessionKey = sessionKey, ss_lastActivity = now, ss_state = StateIdle, ss_queueDepth = 0,
                 ss_toolCallHistory = [], ss_toolLoopWarningBuckets = []\<rparr> (dg_states d)\<rparr>), key)))"

subsection \<open>Detection and recording\<close>

definition detectWith :: "ResolvedLoopDetectionConfig \<Rightarrow> ToolCallRecord list \<Rightarrow> string \<Rightarrow> bool \<Rightarrow> string \<Rightarrow> LoopDetectionResult" where
  "detectWith rc history toolName knownPollTool currentHash =
     (let (streak, latest) = getNoProgressStreak history toolName currentHash;
          pingPong = getPingPongStreak history currentHash;
          streakKey = (\<lambda>kind. kind @ toolName @ CHR '':'' # currentHash @ CHR '':'' # nullish latest ''none'');
          pingPongKey = ''pingpong:'' @ (case truthy (pp_pairedSignature pingPong) of
              Some sig \<Rightarrow> canonicalPairKey currentHash sig | None \<Rightarrow> toolName @ CHR '':'' # currentHash);
          recentCount = length (filter (\<lambda>h. cr_toolName h = toolName \<and> cr_argsHash h = currentHash) history)
      in if rc_globalCircuitBreakerThreshold rc \<le> streak then Stuck LoopCritical GlobalCircuitBreaker streak None (streakKey ''global:'')
         else if knownPollTool \<and> rc_knownPollNoProgress rc \<and> rc_criticalThreshold rc \<le> streak
           then Stuck LoopCritical KnownPollNoProgress streak None (streakKey ''poll:'')
         else if knownPollTool \<and> rc_knownPollNoProgress rc \<and> rc_warningThreshold rc \<le> streak
           then Stuck LoopWarning KnownPollNoProgress streak None (streakKey ''poll:'')
         else if rc_pingPong rc \<and> rc_criticalThreshold rc \<le> pp_count pingPong \<and> pp_noProgressEvidence pingPong
           then Stuck LoopCritical PingPong (pp_count pingPong) (pp_pairedToolName pingPong) pingPongKey
         else if rc_pingPong rc \<and> rc_warningThreshold rc \<le> pp_count pingPong
           then Stuck LoopWarning PingPong (pp_count pingPong) (pp_pairedToolName pingPong) pingPongKey
         else if \<not> knownPollTool \<and> rc_genericRepeat rc \<and> rc_warningThreshold rc \<le> recentCount
           then Stuck LoopWarning GenericRepeat recentCount None (''generic:'' @ toolName @ CHR '':'' # currentHash)
         else NotStuck)"

text \<open>\<open>None\<close>: computing the hash of the call throws.\<close>

definition detectToolCallLoop ::
  "(string \<Rightarrow> string) \<Rightarrow> ToolCallRecord list \<Rightarrow> string \<Rightarrow> json \<Rightarrow> ToolLoopDetectionConfig option \<Rightarrow> LoopDetectionResult option" where
  "detectToolCallLoop sha history toolName params config =
     (let rc = resolveLoopDetectionConfig config in
      if \<not> rc_enabled rc then Some NotStuck
      else map_option (detectWith rc history toolName (isKnownPollToolCall toolName params)) (hashToolCall sha toolName params))"

definition recordToolCall ::
  "(string \<Rightarrow> string) \<Rightarrow> int \<Rightarrow> string \<Rightarrow> json \<Rightarrow> string option \<Rightarrow> ToolLoopDetectionConfig option \<Rightarrow> ToolCallRecord list
    \<Rightarrow> ToolCallRecord list option" where
  "recordToolCall sha now toolName params toolCallId config history =
     map_option (\<lambda>argsHash.
        let history' = history @ [\<lparr>cr_toolName = toolName, cr_argsHash = argsHash, cr_toolCallId = toolCallId, cr_resultHash = None,
              cr_timestamp = now\<rparr>]
        in if length history' > rc_historySize (resolveLoopDetectionConfig config) then tl history' else history')
      (hashToolCall sha toolName params)"

text \<open>The backward search for the call an outcome belongs to, on the reversed history.\<close>

fun fillLatest :: "(ToolCallRecord \<Rightarrow> bool) \<Rightarrow> string \<Rightarrow> ToolCallRecord list \<Rightarrow> ToolCallRecord list option" where
  "fillLatest P r [] = None"
| "fillLatest P r (c # cs) =
     (if P c \<and> cr_resultHash c = None then Some (c\<lparr>cr_resultHash := Some r\<rparr> # cs) else map_option (\<lambda>cs'. c # cs') (fillLatest P r cs))"

definition recordToolCallOutcome ::
  "(string \<Rightarrow> string) \<Rightarrow> int \<Rightarrow> string \<Rightarrow> json \<Rightarrow> string option \<Rightarrow> json \<Rightarrow> thrown option \<Rightarrow> ToolLoopDetectionConfig option
    \<Rightarrow> ToolCallRecord list \<Rightarrow> ToolCallRecord list option" where
  "recordToolCallOutcome sha now toolName toolParams toolCallId result err config history =
     (case truthy (hashToolOutcome sha toolName toolParams result err) of
        None \<Rightarrow> Some history
      | Some resultHash \<Rightarrow>
         map_option (\<lambda>argsHash.
            let filled = fillLatest (\<lambda>c. (truthy toolCallId = None \<or> cr_toolCallId c = toolCallId) \<and> cr_toolName c = toolName \<and>
                  cr_argsHash c = argsHash) resultHash (rev history);
                history' = (case filled of Some h \<Rightarrow> rev h
                  | None \<Rightarrow> history @ [\<lparr>cr_toolName = toolName, cr_argsHash = argsHash, cr_toolCallId = toolCallId,
                      cr_resultHash = Some resultHash, cr_timestamp = now\<rparr>])
            in drop (length history' - rc_historySize (resolveLoopDetectionConfig config)) history')
          (hashToolCall sha toolName toolParams))"

record tool_call_stats =
  ts_totalCalls :: nat
  ts_uniquePatterns :: nat
  ts_mostFrequent :: "(string \<times> nat) option"

definition countPattern :: "ToolCallRecord \<Rightarrow> (string \<times> string \<times> nat) list \<Rightarrow> (string \<times> string \<times> nat) list" where
  "countPattern call patterns = (case map_of patterns (cr_argsHash call) of
     Some (name, n) \<Rightarrow> AList.update (cr_argsHash call) (name, n + 1) patterns
   | None \<Rightarrow> AList.update (cr_argsHash call) (cr_toolName call, 1) patterns)"

definition getToolCallStats :: "ToolCallRecord list \<Rightarrow> tool_call_stats" where
  "getToolCallStats history =
     (let patterns = fold countPattern history [] in
      \<lparr>ts_totalCalls = length history, ts_uniquePatterns = length patterns,
       ts_mostFrequent = fold (\<lambda>(_, p) best. case best of None \<Rightarrow> Some p | Some b \<Rightarrow> if snd p > snd b then Some p else best) patterns None\<rparr>)"


subsection \<open>The hook before a call (agents/pi-tools.before-tool-call.ts)\<close>

definition LOOP_WARNING_BUCKET_SIZE :: nat where "LOOP_WARNING_BUCKET_SIZE = 10"
definition MAX_LOOP_WARNING_KEYS :: nat where "MAX_LOOP_WARNING_KEYS = 256"
definition MAX_TRACKED_ADJUSTED_PARAMS :: nat where "MAX_TRACKED_ADJUSTED_PARAMS = 1024"

text \<open>A map that drops its oldest key when it grows beyond a size; an empty oldest key stays.\<close>

definition evictOldest :: "nat \<Rightarrow> (string \<times> 'v) list \<Rightarrow> (string \<times> 'v) list" where
  "evictOldest n m = (if length m > n then (case m of (k, _) # r \<Rightarrow> if k \<noteq> [] then AList.delete k m else m | [] \<Rightarrow> m) else m)"

definition shouldEmitLoopWarning :: "string \<Rightarrow> nat \<Rightarrow> (string \<times> nat) list \<Rightarrow> (string \<times> nat) list \<times> bool" where
  "shouldEmitLoopWarning warningKey cnt buckets =
     (let bucket = cnt div LOOP_WARNING_BUCKET_SIZE in
      if bucket \<le> nullish (map_of buckets warningKey) 0 then (buckets, False)
      else (evictOldest MAX_LOOP_WARNING_KEYS (AList.update warningKey bucket buckets), True))"

record HookContext =
  hc_agentId :: "string option"
  hc_sessionKey :: "string option"
  hc_loopDetection :: "ToolLoopDetectionConfig option"

text \<open>What the plugin hooks for \<open>before_tool_call\<close> answer: there are none or they say nothing, they throw, they block, or they
  replace parameters.\<close>

datatype hook_answer = HookSilent | HookThrows | HookBlocks "string option" | HookParams json

datatype HookOutcome = Blocked string | Proceed json

definition mergeParams :: "json \<Rightarrow> json \<Rightarrow> json" where
  "mergeParams params new = (case (params, new) of
     (JObj a, JObj b) \<Rightarrow> JObj (fold (\<lambda>(k, v) m. AList.update k v m) b a) | _ \<Rightarrow> new)"

definition hookOutcome :: "hook_answer \<Rightarrow> json \<Rightarrow> HookOutcome" where
  "hookOutcome answer params = (case answer of
     HookSilent \<Rightarrow> Proceed params
   | HookThrows \<Rightarrow> Proceed params
   | HookBlocks reason \<Rightarrow> Blocked (nullish (truthy reason) ''Tool call blocked by plugin hook'')
   | HookParams new \<Rightarrow> Proceed (if isPlainObject new then mergeParams params new else params))"

definition updateSession :: "string \<Rightarrow> (SessionState \<Rightarrow> SessionState) \<Rightarrow> diagnostic_states \<Rightarrow> diagnostic_states" where
  "updateSession k f d = d\<lparr>dg_states := AList.map_entry k f (dg_states d)\<rparr>"

definition historyOf :: "string \<Rightarrow> diagnostic_states \<Rightarrow> ToolCallRecord list" where
  "historyOf k d = (case map_of (dg_states d) k of None \<Rightarrow> [] | Some st \<Rightarrow> ss_toolCallHistory st)"

text \<open>The part with a session: detect, warn or block, record. \<open>None\<close>: it throws. The text of a block is represented by its
  warning key.\<close>

definition loopGate ::
  "(string \<Rightarrow> string) \<Rightarrow> int \<Rightarrow> HookContext \<Rightarrow> string \<Rightarrow> json \<Rightarrow> string option \<Rightarrow> diagnostic_states
    \<Rightarrow> LoopDetectionResult option \<times> diagnostic_states" where
  "loopGate sha now ctx toolName params toolCallId d0 =
     (let (d, k) = getDiagnosticSessionState now (hc_sessionKey ctx) (hc_agentId ctx) d0 in
      case detectToolCallLoop sha (historyOf k d) toolName params (hc_loopDetection ctx) of
        None \<Rightarrow> (None, d)
      | Some (Stuck LoopCritical det n paired key) \<Rightarrow> (Some (Stuck LoopCritical det n paired key), d)
      | Some res \<Rightarrow>
         (let d' = (case res of Stuck _ _ n _ key \<Rightarrow> updateSession k (\<lambda>st. st\<lparr>ss_toolLoopWarningBuckets :=
                       fst (shouldEmitLoopWarning key n (ss_toolLoopWarningBuckets st))\<rparr>) d
                   | NotStuck \<Rightarrow> d)
          in (case recordToolCall sha now toolName params toolCallId (hc_loopDetection ctx) (historyOf k d') of
                None \<Rightarrow> (None, d')
              | Some h \<Rightarrow> (Some res, updateSession k (\<lambda>st. st\<lparr>ss_toolCallHistory := h\<rparr>) d'))))"

definition runBeforeToolCallHook ::
  "(string \<Rightarrow> string) \<Rightarrow> int \<Rightarrow> HookContext option \<Rightarrow> hook_answer \<Rightarrow> string \<Rightarrow> json \<Rightarrow> string option \<Rightarrow> diagnostic_states
    \<Rightarrow> HookOutcome option \<times> diagnostic_states" where
  "runBeforeToolCallHook sha now ctx answer toolName0 params toolCallId d =
     (let toolName = normalizeToolName (or_string toolName0 ''tool'') in
      case ctx of
        Some c \<Rightarrow>
          (if truthy (hc_sessionKey c) = None then (Some (hookOutcome answer params), d)
           else (case loopGate sha now c toolName params toolCallId d of
               (None, d') \<Rightarrow> (None, d')
             | (Some (Stuck LoopCritical det n paired key), d') \<Rightarrow> (Some (Blocked key), d')
             | (Some _, d') \<Rightarrow> (Some (hookOutcome answer params), d')))
      | None \<Rightarrow> (Some (hookOutcome answer params), d))"

text \<open>Any exception while recording an outcome is caught and logged.\<close>

definition recordLoopOutcome ::
  "(string \<Rightarrow> string) \<Rightarrow> int \<Rightarrow> HookContext option \<Rightarrow> string \<Rightarrow> json \<Rightarrow> string option \<Rightarrow> json \<Rightarrow> thrown option \<Rightarrow> diagnostic_states
    \<Rightarrow> diagnostic_states" where
  "recordLoopOutcome sha now ctx toolName params toolCallId result err d0 = (case ctx of
     None \<Rightarrow> d0
   | Some c \<Rightarrow>
      (if truthy (hc_sessionKey c) = None then d0
       else (let (d, k) = getDiagnosticSessionState now (hc_sessionKey c) (hc_agentId c) d0 in
         case recordToolCallOutcome sha now toolName params toolCallId result err (hc_loopDetection c) (historyOf k d) of
           None \<Rightarrow> d | Some h \<Rightarrow> updateSession k (\<lambda>st. st\<lparr>ss_toolCallHistory := h\<rparr>) d)))"

text \<open>The wrapped \<open>execute\<close> up to the call of the tool, and after it.\<close>

record hook_state =
  hk_states :: diagnostic_states
  hk_adjusted :: "(string \<times> json) list"

datatype begin_result = CallThrows | CallBlocked string | CallRuns json

definition wrappedBegin ::
  "(string \<Rightarrow> string) \<Rightarrow> int \<Rightarrow> HookContext option \<Rightarrow> hook_answer \<Rightarrow> string \<Rightarrow> string option \<Rightarrow> json \<Rightarrow> hook_state
    \<Rightarrow> begin_result \<times> hook_state" where
  "wrappedBegin sha now ctx answer name toolCallId params h =
     (case runBeforeToolCallHook sha now ctx answer (or_string name ''tool'') params toolCallId (hk_states h) of
        (None, d) \<Rightarrow> (CallThrows, h\<lparr>hk_states := d\<rparr>)
      | (Some (Blocked reason), d) \<Rightarrow> (CallBlocked reason, h\<lparr>hk_states := d\<rparr>)
      | (Some (Proceed p), d) \<Rightarrow> (CallRuns p, h\<lparr>hk_states := d, hk_adjusted := (case truthy toolCallId of None \<Rightarrow> hk_adjusted h
           | Some i \<Rightarrow> evictOldest MAX_TRACKED_ADJUSTED_PARAMS (AList.update i p (hk_adjusted h)))\<rparr>))"

definition wrappedEnd ::
  "(string \<Rightarrow> string) \<Rightarrow> int \<Rightarrow> HookContext option \<Rightarrow> string \<Rightarrow> string option \<Rightarrow> json \<Rightarrow> json \<Rightarrow> thrown option \<Rightarrow> hook_state \<Rightarrow> hook_state" where
  "wrappedEnd sha now ctx name toolCallId p result err h =
     h\<lparr>hk_states := recordLoopOutcome sha now ctx (normalizeToolName (or_string name ''tool'')) p toolCallId result err (hk_states h)\<rparr>"

definition consumeAdjustedParamsForToolCall :: "string \<Rightarrow> hook_state \<Rightarrow> json option \<times> hook_state" where
  "consumeAdjustedParamsForToolCall toolCallId h =
     (map_of (hk_adjusted h) toolCallId, h\<lparr>hk_adjusted := AList.delete toolCallId (hk_adjusted h)\<rparr>)"


section \<open>Streaks\<close>

lemma asPositiveInt_pos: "0 < n \<Longrightarrow> 0 < asPositiveInt v n"
  by (auto simp: asPositiveInt_def split: option.splits)

lemma resolved_order:
  "0 < rc_historySize (resolveLoopDetectionConfig c)" "0 < rc_warningThreshold (resolveLoopDetectionConfig c)"
  "rc_warningThreshold (resolveLoopDetectionConfig c) < rc_criticalThreshold (resolveLoopDetectionConfig c)"
  "rc_criticalThreshold (resolveLoopDetectionConfig c) < rc_globalCircuitBreakerThreshold (resolveLoopDetectionConfig c)"
  using asPositiveInt_pos [of TOOL_CALL_HISTORY_SIZE] asPositiveInt_pos [of WARNING_THRESHOLD]
  by (simp_all add: resolveLoopDetectionConfig_def Let_def TOOL_CALL_HISTORY_SIZE_def WARNING_THRESHOLD_def)

text \<open>The outcomes of one call, the latest first.\<close>

definition callOutcome :: "string \<Rightarrow> string \<Rightarrow> ToolCallRecord \<Rightarrow> string option" where
  "callOutcome tool args c = (if cr_toolName c = tool \<and> cr_argsHash c = args then truthy (cr_resultHash c) else None)"

definition outcomes :: "string \<Rightarrow> string \<Rightarrow> ToolCallRecord list \<Rightarrow> string list" where
  "outcomes tool args h = List.map_filter (callOutcome tool args) (rev h)"

lemma noProgressLoop_running:
  "noProgressLoop tool args n (Some r) cs = (n + length (takeWhile (\<lambda>x. x = r) (List.map_filter (callOutcome tool args) cs)), Some r)"
  by (induction cs arbitrary: n) (auto simp: callOutcome_def List.map_filter_simps split: option.splits)

lemma getNoProgressStreak_spec:
  "getNoProgressStreak h tool args = (case outcomes tool args h of
     [] \<Rightarrow> (0, None) | r # rs \<Rightarrow> (length (takeWhile (\<lambda>x. x = r) (r # rs)), Some r))"
proof -
  have "noProgressLoop tool args 0 None cs = (case List.map_filter (callOutcome tool args) cs of
     [] \<Rightarrow> (0, None) | r # rs \<Rightarrow> (length (takeWhile (\<lambda>x. x = r) (r # rs)), Some r))" for cs
  proof (induction cs)
    case (Cons c cs)
    then show ?case
      by (cases "truthy (cr_resultHash c)") (simp_all add: callOutcome_def [of _ _ c] List.map_filter_simps noProgressLoop_running)
  qed (simp add: List.map_filter_simps)
  then show ?thesis by (simp add: getNoProgressStreak_def outcomes_def)
qed

lemma outcomes_length: "length (outcomes tool args h) \<le> length h"
proof -
  have "length (List.map_filter f xs) \<le> length xs" for f :: "ToolCallRecord \<Rightarrow> string option" and xs
    by (induction xs) (auto simp: List.map_filter_simps split: option.splits)
  then show ?thesis by (metis length_rev outcomes_def)
qed

lemma streak_bound: "fst (getNoProgressStreak h tool args) \<le> length h"
proof -
  have "fst (getNoProgressStreak h tool args) \<le> length (outcomes tool args h)"
    by (simp add: getNoProgressStreak_spec length_takeWhile_le split: list.splits)
  then show ?thesis using outcomes_length le_trans by blast
qed

section \<open>A stuck call is blocked\<close>

text \<open>The last \<open>n\<close> elements.\<close>

definition lastN :: "nat \<Rightarrow> 'a list \<Rightarrow> 'a list" where
  "lastN n xs = drop (length xs - n) xs"

lemma lastN_rev: "rev (lastN n xs) = take n (rev xs)"
  by (cases "n \<le> length xs") (simp_all add: lastN_def rev_drop)

lemma lastN_snoc: "lastN n (lastN n xs @ [x]) = lastN n (xs @ [x])"
proof -
  have "rev (lastN n (lastN n xs @ [x])) = rev (lastN n (xs @ [x]))"
    by (cases n) (simp_all add: lastN_rev)
  then show ?thesis by simp
qed

lemma lastN_self: "length xs \<le> n \<Longrightarrow> lastN n xs = xs"
  by (simp add: lastN_def)

lemma length_lastN: "length (lastN n xs) \<le> n"
  by (simp add: lastN_def)


text \<open>One call of a tool that ends with an outcome: recorded before it runs, completed after it.\<close>

definition completedCall ::
  "(string \<Rightarrow> string) \<Rightarrow> string \<Rightarrow> json \<Rightarrow> json \<Rightarrow> thrown option \<Rightarrow> ToolLoopDetectionConfig option \<Rightarrow> int \<times> int \<times> string option
    \<Rightarrow> ToolCallRecord list \<Rightarrow> ToolCallRecord list option" where
  "completedCall sha tool params result err config call h =
     (case call of (t1, t2, i) \<Rightarrow> Option.bind (recordToolCall sha t1 tool params i config h)
        (recordToolCallOutcome sha t2 tool params i result err config))"

definition doneRecord :: "string \<Rightarrow> string \<Rightarrow> string \<Rightarrow> int \<times> int \<times> string option \<Rightarrow> ToolCallRecord" where
  "doneRecord tool args r call = \<lparr>cr_toolName = tool, cr_argsHash = args, cr_toolCallId = snd (snd call), cr_resultHash = Some r,
     cr_timestamp = fst call\<rparr>"

lemma recordToolCall_window:
  assumes "hashToolCall sha tool params = Some a" "length h \<le> rc_historySize (resolveLoopDetectionConfig c)"
  shows "recordToolCall sha now tool params i c h = Some (lastN (rc_historySize (resolveLoopDetectionConfig c))
    (h @ [\<lparr>cr_toolName = tool, cr_argsHash = a, cr_toolCallId = i, cr_resultHash = None, cr_timestamp = now\<rparr>]))"
  using assms resolved_order(1) [of c]
  by (cases "length h = rc_historySize (resolveLoopDetectionConfig c)")
     (auto simp: recordToolCall_def Let_def lastN_def drop_Suc Suc_diff_le tl_append split: list.splits)

lemma completedCall_window:
  assumes "hashToolCall sha tool params = Some a" "truthy (hashToolOutcome sha tool params result err) = Some r"
    "length h \<le> rc_historySize (resolveLoopDetectionConfig c)"
  shows "completedCall sha tool params result err c call h =
    Some (lastN (rc_historySize (resolveLoopDetectionConfig c)) (h @ [doneRecord tool a r call]))"
proof -
  let ?H = "rc_historySize (resolveLoopDetectionConfig c)"
  obtain t1 t2 i where call: "call = (t1, t2, i)" by (cases call)
  let ?open = "\<lparr>cr_toolName = tool, cr_argsHash = a, cr_toolCallId = i, cr_resultHash = None, cr_timestamp = t1\<rparr>"
  obtain m where H: "?H = Suc m" using resolved_order(1) [of c] by (cases ?H) auto
  have open_rev: "rev (lastN ?H (h @ [?open])) = ?open # take m (rev h)" by (simp add: lastN_rev H)
  have done_rev: "rev (lastN ?H (h @ [doneRecord tool a r call])) = doneRecord tool a r call # take m (rev h)" by (simp add: lastN_rev H)
  have fill: "?open\<lparr>cr_resultHash := Some r\<rparr> = doneRecord tool a r call" by (simp add: doneRecord_def call)
  have "rev (doneRecord tool a r call # take m (rev h)) = lastN ?H (h @ [doneRecord tool a r call])"
    unfolding done_rev [symmetric] by simp
  then show ?thesis
    using assms(1,2) recordToolCall_window [OF assms(1,3)] length_lastN [of ?H "h @ [doneRecord tool a r call]"]
    by (simp add: completedCall_def call recordToolCallOutcome_def open_rev [unfolded H] Let_def H doneRecord_def)
qed

lemma lastN_append: "lastN n (lastN n xs @ ys) = lastN n (xs @ ys)"
proof -
  have "rev (lastN n (lastN n xs @ ys)) = rev (lastN n (xs @ ys))" by (simp add: lastN_rev take_append min_def)
  then show ?thesis by simp
qed

lemma outcomes_take:
  "outcomes tool args (lastN n h) = List.map_filter (callOutcome tool args) (take n (rev h))"
  by (simp add: outcomes_def lastN_rev)

lemma map_filter_all: "\<forall>x \<in> set xs. f x = Some y \<Longrightarrow> List.map_filter f (xs @ ys) = replicate (length xs) y @ List.map_filter f ys"
  by (induction xs) (auto simp: List.map_filter_simps)

lemma doneRecord_outcome: "r \<noteq> [] \<Longrightarrow> callOutcome tool a (doneRecord tool a r c) = Some r"
  by (simp add: callOutcome_def doneRecord_def truthy_def)

lemma repeated_streak:
  assumes "r \<noteq> []" "n \<le> length calls" "n \<le> hs" "0 < n"
  shows "n \<le> fst (getNoProgressStreak (lastN hs (h @ map (doneRecord tool a r) calls)) tool a)"
proof -
  let ?pre = "take hs (rev (map (doneRecord tool a r) calls))"
  have "\<forall>c \<in> set ?pre. callOutcome tool a c = Some r"
    using doneRecord_outcome [OF assms(1)] by (auto dest!: in_set_takeD)
  from map_filter_all [OF this] obtain ys where
    ys: "outcomes tool a (lastN hs (h @ map (doneRecord tool a r) calls)) = replicate (length ?pre) r @ ys"
    by (simp add: outcomes_take)
  have "n \<le> length ?pre" using assms by simp
  then obtain k where k: "length ?pre = Suc k" "n \<le> Suc k" using assms(4) by (cases "length ?pre") auto
  have "length (takeWhile (\<lambda>x. x = r) (replicate j r @ ys)) \<ge> j" for j
    by (induction j) auto
  then show ?thesis using k unfolding getNoProgressStreak_spec ys by (simp add: le_trans)
qed

text \<open>What a critical result rests on.\<close>

lemma detectWith_critical:
  assumes "detectWith rc h tool poll a = Stuck level k n paired key" "level = LoopCritical \<or> k = GlobalCircuitBreaker"
  shows "level = LoopCritical \<and>
    (k = GlobalCircuitBreaker \<and> n = fst (getNoProgressStreak h tool a) \<and> rc_globalCircuitBreakerThreshold rc \<le> n \<or>
     k = KnownPollNoProgress \<and> n = fst (getNoProgressStreak h tool a) \<and> rc_criticalThreshold rc \<le> n \<and> poll \<or>
     k = PingPong \<and> n = pp_count (getPingPongStreak h a) \<and> rc_criticalThreshold rc \<le> n \<and> pp_noProgressEvidence (getPingPongStreak h a))"
  using assms by (simp add: detectWith_def Let_def case_prod_beta split: if_splits)

text \<open>The wrapped tool, called again and again: one call, and a sequence of calls with their own times, ids and plugin answers.\<close>

definition wrappedCall ::
  "(string \<Rightarrow> string) \<Rightarrow> HookContext \<Rightarrow> string \<Rightarrow> json \<Rightarrow> json \<Rightarrow> thrown option \<Rightarrow> int \<times> int \<times> string option \<times> hook_answer \<Rightarrow> hook_state
    \<Rightarrow> begin_result \<times> hook_state" where
  "wrappedCall sha ctx name params result err x h =
     (case x of (t1, t2, i, answer) \<Rightarrow>
        (case wrappedBegin sha t1 (Some ctx) answer name i params h of
           (CallRuns p, h1) \<Rightarrow> (CallRuns p, wrappedEnd sha t2 (Some ctx) name i p result err h1)
         | (b, h1) \<Rightarrow> (b, h1)))"

fun wrappedCalls ::
  "(string \<Rightarrow> string) \<Rightarrow> HookContext \<Rightarrow> string \<Rightarrow> json \<Rightarrow> json \<Rightarrow> thrown option \<Rightarrow> (int \<times> int \<times> string option \<times> hook_answer) list \<Rightarrow> hook_state
    \<Rightarrow> begin_result list \<times> hook_state" where
  "wrappedCalls sha ctx name params result err [] h = ([], h)"
| "wrappedCalls sha ctx name params result err (x # xs) h =
     (let (b, h1) = wrappedCall sha ctx name params result err x h;
          (bs, h2) = wrappedCalls sha ctx name params result err xs h1 in (b # bs, h2))"

text \<open>The session has this history and is not stale at any of these times, and the table of sessions is not over its limit.\<close>

definition session_history :: "string \<Rightarrow> int set \<Rightarrow> ToolCallRecord list \<Rightarrow> diagnostic_states \<Rightarrow> bool" where
  "session_history key ts hist d \<longleftrightarrow> length (dg_states d) \<le> SESSION_STATE_MAX_ENTRIES \<and>
     (\<exists>st. map_of (dg_states d) key = Some st \<and> (\<forall>t \<in> ts. \<not> staleSession t st) \<and> ss_toolCallHistory st = hist)"

lemma map_of_filter_kept: "map_of m k = Some v \<Longrightarrow> P (k, v) \<Longrightarrow> map_of (filter P m) k = Some v"
  by (induction m) (auto split: if_splits)

lemma prune_keeps_session:
  assumes "session_history key ts hist d" "now \<in> ts"
  shows "session_history key ts hist (pruneDiagnosticSessionStates now False d)"
proof -
  obtain st where st: "map_of (dg_states d) key = Some st" "\<forall>t \<in> ts. \<not> staleSession t st" "ss_toolCallHistory st = hist"
    using assms(1) by (auto simp: session_history_def)
  let ?kept = "filter (\<lambda>p. \<not> staleSession now (snd p)) (dg_states d)"
  have "map_of ?kept key = Some st" using st(1,2) assms(2) by (intro map_of_filter_kept) simp_all
  moreover have "length ?kept \<le> SESSION_STATE_MAX_ENTRIES"
    using assms(1) length_filter_le [of _ "dg_states d"] by (meson le_trans session_history_def)
  ultimately show ?thesis using assms(1) st(2,3) by (auto simp: pruneDiagnosticSessionStates_def session_history_def Let_def)
qed

lemma length_map_entry [simp]: "length (AList.map_entry k f m) = length m"
  by (induction m) auto

lemma update_keeps_session:
  "session_history key ts hist d \<Longrightarrow> (\<And>st t. staleSession t (f st) = staleSession t st \<and> ss_toolCallHistory (f st) = g (ss_toolCallHistory st)) \<Longrightarrow>
   session_history key ts (g hist) (updateSession key f d)"
  by (auto simp: session_history_def updateSession_def map_of_map_entry)

lemma get_session:
  assumes "session_history key ts hist d0" "now \<in> ts"
  shows "\<exists>d. getDiagnosticSessionState now (Some key) agent d0 = (d, key) \<and> session_history key ts hist d \<and> historyOf key d = hist"
proof -
  let ?d = "pruneDiagnosticSessionStates now False d0"
  let ?f = "\<lambda>st. st\<lparr>ss_sessionId := orelse (truthy agent) (ss_sessionId st), ss_sessionKey := orelse (truthy (Some key)) (ss_sessionKey st)\<rparr>"
  have p: "session_history key ts hist ?d" by (rule prune_keeps_session [OF assms])
  then have "getDiagnosticSessionState now (Some key) agent d0 = (updateSession key ?f ?d, key)"
    by (auto simp: getDiagnosticSessionState_def resolveSessionKey_def session_history_def updateSession_def Let_def)
  moreover have u: "session_history key ts hist (updateSession key ?f ?d)" using update_keeps_session [OF p, of ?f id] by (simp add: staleSession_def)
  moreover have "historyOf key (updateSession key ?f ?d) = hist" using u by (auto simp: historyOf_def session_history_def)
  ultimately show ?thesis by blast
qed

lemma set_history: "session_history key ts hist d \<Longrightarrow> session_history key ts h (updateSession key (\<lambda>st. st\<lparr>ss_toolCallHistory := h\<rparr>) d)"
  using update_keeps_session [of key ts hist d "\<lambda>st. st\<lparr>ss_toolCallHistory := h\<rparr>" "\<lambda>_. h"] by (simp add: staleSession_def)

lemma historyOf_session: "session_history key ts hist d \<Longrightarrow> historyOf key d = hist"
  by (auto simp: session_history_def historyOf_def)

text \<open>One wrapped call: it is blocked and leaves the history alone, or it runs and its record joins the history.\<close>

lemma wrappedCall_step:
  fixes name defines "tool \<equiv> normalizeToolName (or_string name ''tool'')"
  assumes ctx: "hc_sessionKey ctx = Some key" "key \<noteq> []"
    and hash: "hashToolCall sha tool params = Some a" "truthy (hashToolOutcome sha tool params result err) = Some r"
    and len: "length hist \<le> rc_historySize (resolveLoopDetectionConfig (hc_loopDetection ctx))"
    and good: "session_history key ts hist (hk_states h)" and at: "fst x \<in> ts" "fst (snd x) \<in> ts" and plain: "snd (snd (snd x)) \<in> {HookSilent, HookThrows}"
    and run: "wrappedCall sha ctx name params result err x h = (b, h')"
  shows "(\<exists>det n paired wkey. detectToolCallLoop sha hist tool params (hc_loopDetection ctx) = Some (Stuck LoopCritical det n paired wkey) \<and>
      b = CallBlocked wkey \<and> session_history key ts hist (hk_states h')) \<or>
    ((\<nexists>det n paired wkey. detectToolCallLoop sha hist tool params (hc_loopDetection ctx) = Some (Stuck LoopCritical det n paired wkey)) \<and>
      b = CallRuns params \<and> session_history key ts
        (lastN (rc_historySize (resolveLoopDetectionConfig (hc_loopDetection ctx))) (hist @ [doneRecord tool a r (fst x, fst (snd x), fst (snd (snd x)))]))
        (hk_states h'))"
proof -
  obtain t1 t2 i answer where x: "x = (t1, t2, i, answer)" by (metis prod.collapse)
  let ?c = "hc_loopDetection ctx"
  let ?H = "rc_historySize (resolveLoopDetectionConfig ?c)"
  have t: "truthy (Some key) = Some key" using ctx(2) by (simp add: truthy_def)
  have out: "hookOutcome answer params = Proceed params" using plain x by (auto simp: hookOutcome_def)
  have name: "normalizeToolName (or_string (or_string name ''tool'') ''tool'') = tool" by (simp add: tool_def or_string_def)
  obtain d where d: "getDiagnosticSessionState t1 (Some key) (hc_agentId ctx) (hk_states h) = (d, key)" "session_history key ts hist d" "historyOf key d = hist"
    using get_session [OF good, of t1] at x by auto
  have "detectToolCallLoop sha hist tool params ?c \<noteq> None" using hash(1) by (simp add: detectToolCallLoop_def Let_def)
  then obtain res where res: "detectToolCallLoop sha hist tool params ?c = Some res" by blast
  show ?thesis
  proof (cases "\<exists>det n paired wkey. res = Stuck LoopCritical det n paired wkey")
    case True
    then obtain det n paired wkey where st: "res = Stuck LoopCritical det n paired wkey" by blast
    have "loopGate sha t1 ctx tool params i (hk_states h) = (Some res, d)"
      using d res st by (simp add: loopGate_def ctx(1))
    then have "wrappedBegin sha t1 (Some ctx) answer name i params h = (CallBlocked wkey, h\<lparr>hk_states := d\<rparr>)"
      using t st by (simp add: wrappedBegin_def runBeforeToolCallHook_def name ctx(1) Let_def)
    then show ?thesis using run res st d(2) x by (auto simp: wrappedCall_def)
  next
    case False
    define d' where "d' = (case res of Stuck _ _ n _ wkey \<Rightarrow> updateSession key (\<lambda>st. st\<lparr>ss_toolLoopWarningBuckets :=
        fst (shouldEmitLoopWarning wkey n (ss_toolLoopWarningBuckets st))\<rparr>) d | NotStuck \<Rightarrow> d)"
    have d': "session_history key ts hist d'"
      using d(2) update_keeps_session [OF d(2), of _ id] by (auto simp: d'_def staleSession_def split: LoopDetectionResult.splits)
    obtain h1 where h1: "recordToolCall sha t1 tool params i ?c hist = Some h1" using hash(1) by (simp add: recordToolCall_def)
    let ?d1 = "updateSession key (\<lambda>st. st\<lparr>ss_toolCallHistory := h1\<rparr>) d'"
    have "loopGate sha t1 ctx tool params i (hk_states h) = (Some res, ?d1)"
      using d res False h1 historyOf_session [OF d']
      by (auto simp: loopGate_def ctx(1) d'_def Let_def split: LoopDetectionResult.splits loop_level.splits)
    then have "runBeforeToolCallHook sha t1 (Some ctx) answer (or_string name ''tool'') params i (hk_states h) = (Some (Proceed params), ?d1)"
      using t False by (auto simp: runBeforeToolCallHook_def name ctx(1) out Let_def split: LoopDetectionResult.splits loop_level.splits)
    then obtain adj where start: "wrappedBegin sha t1 (Some ctx) answer name i params h = (CallRuns params, h\<lparr>hk_states := ?d1, hk_adjusted := adj\<rparr>)"
      by (simp add: wrappedBegin_def)
    obtain d2 where d2: "getDiagnosticSessionState t2 (Some key) (hc_agentId ctx) ?d1 = (d2, key)" "session_history key ts h1 d2" "historyOf key d2 = h1"
      using get_session [OF set_history [OF d'], of t2] at x by auto
    have "completedCall sha tool params result err ?c (t1, t2, i) hist = Some (lastN ?H (hist @ [doneRecord tool a r (t1, t2, i)]))"
      by (rule completedCall_window [OF hash len])
    then have "recordToolCallOutcome sha t2 tool params i result err ?c h1 = Some (lastN ?H (hist @ [doneRecord tool a r (t1, t2, i)]))"
      by (simp add: completedCall_def h1)
    then have "session_history key ts (lastN ?H (hist @ [doneRecord tool a r (t1, t2, i)]))
        (recordLoopOutcome sha t2 (Some ctx) tool params i result err ?d1)"
      using d2 t set_history [OF d2(2)] by (auto simp: recordLoopOutcome_def ctx(1))
    then show ?thesis using run start res False x by (auto simp: wrappedCall_def wrappedEnd_def tool_def)
  qed
qed

text \<open>Repeated calls: the history collects their records until one of them is blocked, and from then on every call is.\<close>

definition attemptRecord :: "string \<Rightarrow> string \<Rightarrow> string \<Rightarrow> int \<times> int \<times> string option \<times> hook_answer \<Rightarrow> ToolCallRecord" where
  "attemptRecord tool a r x = doneRecord tool a r (fst x, fst (snd x), fst (snd (snd x)))"

definition blocks :: "(string \<Rightarrow> string) \<Rightarrow> ToolCallRecord list \<Rightarrow> string \<Rightarrow> json \<Rightarrow> ToolLoopDetectionConfig option \<Rightarrow> bool" where
  "blocks sha hist tool params config \<longleftrightarrow>
     (\<exists>det n paired wkey. detectToolCallLoop sha hist tool params config = Some (Stuck LoopCritical det n paired wkey))"

lemma wrappedCalls_run:
  fixes name defines "tool \<equiv> normalizeToolName (or_string name ''tool'')"
  assumes ctx: "hc_sessionKey ctx = Some key" "key \<noteq> []"
    and hash: "hashToolCall sha tool params = Some a" "truthy (hashToolOutcome sha tool params result err) = Some r"
    and plain: "\<forall>x \<in> set calls. fst x \<in> ts \<and> fst (snd x) \<in> ts \<and> snd (snd (snd x)) \<in> {HookSilent, HookThrows}"
    and start: "length hist \<le> rc_historySize (resolveLoopDetectionConfig (hc_loopDetection ctx))" "session_history key ts hist (hk_states h)"
  shows "\<exists>hist' bs h'. wrappedCalls sha ctx name params result err calls h = (bs, h') \<and>
    length hist' \<le> rc_historySize (resolveLoopDetectionConfig (hc_loopDetection ctx)) \<and> session_history key ts hist' (hk_states h') \<and>
    (blocks sha hist' tool params (hc_loopDetection ctx) \<or>
     hist' = lastN (rc_historySize (resolveLoopDetectionConfig (hc_loopDetection ctx))) (hist @ map (attemptRecord tool a r) calls))"
  using plain start
proof (induction calls arbitrary: h hist)
  case Nil
  then show ?case by (auto simp: lastN_self)
next
  case (Cons x xs)
  let ?H = "rc_historySize (resolveLoopDetectionConfig (hc_loopDetection ctx))"
  obtain b h1 where x: "wrappedCall sha ctx name params result err x h = (b, h1)" by fastforce
  from wrappedCall_step [OF ctx hash [unfolded tool_def] Cons.prems(2,3) _ _ _ x, folded tool_def] Cons.prems(1)
  have step: "blocks sha hist tool params (hc_loopDetection ctx) \<and> session_history key ts hist (hk_states h1) \<or>
      session_history key ts (lastN ?H (hist @ [attemptRecord tool a r x])) (hk_states h1)"
    by (auto simp: blocks_def attemptRecord_def)
  have rest: "\<forall>x \<in> set xs. fst x \<in> ts \<and> fst (snd x) \<in> ts \<and> snd (snd (snd x)) \<in> {HookSilent, HookThrows}" using Cons.prems(1) by simp
  from step show ?case
  proof
    assume "session_history key ts (lastN ?H (hist @ [attemptRecord tool a r x])) (hk_states h1)"
    from Cons.IH [OF rest length_lastN this] show ?thesis by (auto simp: x Let_def lastN_append)
  next
    assume bl: "blocks sha hist tool params (hc_loopDetection ctx) \<and> session_history key ts hist (hk_states h1)"
    have "\<exists>bs h'. wrappedCalls sha ctx name params result err ys g = (bs, h') \<and> session_history key ts hist (hk_states h')"
      if "session_history key ts hist (hk_states g)"
        "\<forall>x \<in> set ys. fst x \<in> ts \<and> fst (snd x) \<in> ts \<and> snd (snd (snd x)) \<in> {HookSilent, HookThrows}" for ys g
      using that
    proof (induction ys arbitrary: g)
      case (Cons y ys)
      obtain c g1 where y: "wrappedCall sha ctx name params result err y g = (c, g1)" by fastforce
      from wrappedCall_step [OF ctx hash [unfolded tool_def] \<open>length hist \<le> ?H\<close> Cons.prems(1) _ _ _ y, folded tool_def] Cons.prems(2) bl
      have "session_history key ts hist (hk_states g1)" by (auto simp: blocks_def)
      from Cons.IH [OF this] Cons.prems(2) show ?case by (auto simp: y)
    qed simp
    from this [of h1 xs] bl rest Cons.prems(2) show ?thesis by (auto simp: x)
  qed
qed

lemma repeated_blocks:
  assumes "rc_enabled (resolveLoopDetectionConfig config)" "hashToolCall sha tool params = Some a" "r \<noteq> []"
    "rc_globalCircuitBreakerThreshold (resolveLoopDetectionConfig config) \<le> rc_historySize (resolveLoopDetectionConfig config)"
    "rc_globalCircuitBreakerThreshold (resolveLoopDetectionConfig config) \<le> length calls"
  shows "blocks sha (lastN (rc_historySize (resolveLoopDetectionConfig config)) (h @ map (doneRecord tool a r) calls)) tool params config"
proof -
  let ?rc = "resolveLoopDetectionConfig config"
  have "0 < rc_globalCircuitBreakerThreshold ?rc" using resolved_order [of config] by linarith
  from repeated_streak [OF assms(3,5,4) this, of h tool a]
  obtain n l where "getNoProgressStreak (lastN (rc_historySize ?rc) (h @ map (doneRecord tool a r) calls)) tool a = (n, l)"
    "rc_globalCircuitBreakerThreshold ?rc \<le> n" by (metis prod.collapse)
  then show ?thesis using assms(1,2) by (simp add: blocks_def detectToolCallLoop_def detectWith_def Let_def)
qed

lemma wrappedCalls_append:
  "wrappedCalls sha ctx name params result err (xs @ ys) h =
     (case wrappedCalls sha ctx name params result err xs h of (bs, h1) \<Rightarrow>
        case wrappedCalls sha ctx name params result err ys h1 of (cs, h2) \<Rightarrow> (bs @ cs, h2))"
  by (induction xs arbitrary: h) (auto simp: Let_def split: prod.splits)

text \<open>(C12) A stuck call does not run. Detection is off by default; here it is enabled, the breaker threshold fits in the history
  size, and the context names a session whose state is in the table, is not swept as stale at the times of the calls, and whose
  table is within its limit of 2000 entries. A call is attempted again and again with the same arguments, with no other call of
  the session between the attempts; each time it is let through it ends with the same non-empty outcome hash, and the plugin
  hooks say nothing or throw. After as many attempts as the breaker threshold, the next attempt is blocked by the hook and the
  wrapped \<open>execute\<close> does not call the tool, whatever was in the history before.\<close>

theorem stuck_call_blocked:
  assumes "rc_enabled (resolveLoopDetectionConfig (hc_loopDetection ctx))" "hc_sessionKey ctx = Some key" "key \<noteq> []"
    and "hashToolCall sha (normalizeToolName (or_string name ''tool'')) params = Some a"
    and "hashToolOutcome sha (normalizeToolName (or_string name ''tool'')) params result err = Some r" "r \<noteq> []"
    and "rc_globalCircuitBreakerThreshold (resolveLoopDetectionConfig (hc_loopDetection ctx)) \<le> rc_historySize (resolveLoopDetectionConfig (hc_loopDetection ctx))"
    and "rc_globalCircuitBreakerThreshold (resolveLoopDetectionConfig (hc_loopDetection ctx)) \<le> length calls"
    and "\<forall>x \<in> set (calls @ [y]). fst x \<in> ts \<and> fst (snd x) \<in> ts \<and> snd (snd (snd x)) \<in> {HookSilent, HookThrows}"
    and "length hist \<le> rc_historySize (resolveLoopDetectionConfig (hc_loopDetection ctx))" "session_history key ts hist (hk_states h)"
  shows "\<exists>bs reason. fst (wrappedCalls sha ctx name params result err (calls @ [y]) h) = bs @ [CallBlocked reason]"
proof -
  let ?tool = "normalizeToolName (or_string name ''tool'')" and ?c = "hc_loopDetection ctx"
  have r: "truthy (hashToolOutcome sha ?tool params result err) = Some r" using assms(5,6) by (simp add: truthy_def)
  have "\<forall>x \<in> set calls. fst x \<in> ts \<and> fst (snd x) \<in> ts \<and> snd (snd (snd x)) \<in> {HookSilent, HookThrows}" using assms(9) by simp
  from wrappedCalls_run [OF assms(2-4) r this assms(10,11)] obtain hist' bs h' where run:
      "wrappedCalls sha ctx name params result err calls h = (bs, h')" "length hist' \<le> rc_historySize (resolveLoopDetectionConfig ?c)"
      "session_history key ts hist' (hk_states h')"
      "blocks sha hist' ?tool params ?c \<or> hist' = lastN (rc_historySize (resolveLoopDetectionConfig ?c)) (hist @ map (attemptRecord ?tool a r) calls)"
    by blast
  have rec: "map (attemptRecord ?tool a r) calls = map (doneRecord ?tool a r) (map (\<lambda>x. (fst x, fst (snd x), fst (snd (snd x)))) calls)"
    by (simp add: attemptRecord_def)
  have "blocks sha (lastN (rc_historySize (resolveLoopDetectionConfig ?c)) (hist @ map (attemptRecord ?tool a r) calls)) ?tool params ?c"
    unfolding rec by (rule repeated_blocks [OF assms(1,4,6,7)]) (use assms(8) in simp)
  then have bl: "blocks sha hist' ?tool params ?c" using run(4) by blast
  obtain b h2 where y: "wrappedCall sha ctx name params result err y h' = (b, h2)" by fastforce
  from wrappedCall_step [OF assms(2-4) r run(2,3) _ _ _ y] assms(9) bl obtain reason where "b = CallBlocked reason"
    by (auto simp: blocks_def)
  then show ?thesis using run(1) y by (auto simp: wrappedCalls_append)
qed

definition loop_example :: ToolLoopDetectionConfig where
  "loop_example = \<lparr>lc_enabled = Some True, lc_historySize = None, lc_warningThreshold = Some 1, lc_criticalThreshold = Some 2,
     lc_globalCircuitBreakerThreshold = Some 3, lc_genericRepeat = None, lc_knownPollNoProgress = None, lc_pingPong = None\<rparr>"

lemma loop_example_resolved:
  "resolveLoopDetectionConfig (Some loop_example) = \<lparr>rc_enabled = True, rc_historySize = 30, rc_warningThreshold = 1, rc_criticalThreshold = 2,
     rc_globalCircuitBreakerThreshold = 3, rc_genericRepeat = True, rc_knownPollNoProgress = True, rc_pingPong = True\<rparr>"
  by (simp add: resolveLoopDetectionConfig_def loop_example_def asPositiveInt_def TOOL_CALL_HISTORY_SIZE_def)

lemma loop_example_hashes:
  "hashToolCall (\<lambda>s. ''d'') ''exec'' (JObj []) = Some ''exec:d''"
  "truthy (hashToolOutcome (\<lambda>s. ''d'') ''exec'' (JObj []) (JStr ''same'') None) = Some ''d''"
  by (simp_all add: hashToolCall_def digestStable_def hashToolOutcome_def isPlainObject_def truthy_def)

definition loop_context :: HookContext where
  "loop_context = \<lparr>hc_agentId = Some ''main'', hc_sessionKey = Some ''agent:main:main'', hc_loopDetection = Some loop_example\<rparr>"

definition loop_session :: hook_state where
  "loop_session = \<lparr>hk_states = \<lparr>dg_states = [(''agent:main:main'', \<lparr>ss_sessionId = Some ''main'', ss_sessionKey = Some ''agent:main:main'',
       ss_lastActivity = 0, ss_state = StateProcessing, ss_queueDepth = 0, ss_toolCallHistory = [], ss_toolLoopWarningBuckets = []\<rparr>)],
     dg_lastPruneAt = 0\<rparr>, hk_adjusted = []\<rparr>"

theorem stuck_call_blocked_witness:
  "\<exists>bs reason. fst (wrappedCalls (\<lambda>s. ''d'') loop_context ''exec'' (JObj []) (JStr ''same'') None
       ([(0, 1, Some ''c1'', HookSilent), (2, 3, Some ''c2'', HookThrows), (4, 5, None, HookSilent)] @ [(6, 7, Some ''c4'', HookSilent)]) loop_session)
     = bs @ [CallBlocked reason]"
proof -
  have tool: "normalizeToolName (or_string ''exec'' ''tool'') = ''exec''" by code_simp
  show ?thesis
    by (rule stuck_call_blocked [where ts = UNIV and key = "''agent:main:main''" and a = "''exec:d''" and r = "''d''" and hist = "[]"])
       (simp_all add: tool loop_context_def loop_session_def loop_example_resolved loop_example_hashes hashToolOutcome_def digestStable_def
          isPlainObject_def session_history_def staleSession_def SESSION_STATE_MAX_ENTRIES_def)
qed

text \<open>The proviso is needed: nothing compares the threshold with the history size, and a breaker whose threshold is larger
  than the history never fires.\<close>

lemma breaker_beyond_history:
  assumes "length h \<le> rc_historySize (resolveLoopDetectionConfig config)"
    "rc_historySize (resolveLoopDetectionConfig config) < rc_globalCircuitBreakerThreshold (resolveLoopDetectionConfig config)"
  shows "detectToolCallLoop sha h tool params config \<noteq> Some (Stuck level GlobalCircuitBreaker n paired key)"
proof
  assume "detectToolCallLoop sha h tool params config = Some (Stuck level GlobalCircuitBreaker n paired key)"
  then obtain a where "detectWith (resolveLoopDetectionConfig config) h tool (isKnownPollToolCall tool params) a =
      Stuck level GlobalCircuitBreaker n paired key"
    by (auto simp: detectToolCallLoop_def Let_def split: if_splits)
  from detectWith_critical [OF this] streak_bound [of h tool a] assms show False by simp
qed


section \<open>Only stuck calls are blocked\<close>

lemma alternatingTail_spec:
  "n \<le> alternatingTail a b n cs \<and> alternatingTail a b n cs - n \<le> length cs \<and>
   (\<forall>i < alternatingTail a b n cs - n. cr_argsHash (cs ! i) = (if even (n + i) then a else b))"
proof (induction cs arbitrary: n)
  case (Cons c cs)
  show ?case
  proof (cases "cr_argsHash c = (if n mod 2 = 0 then a else b)")
    case True
    let ?m = "alternatingTail a b (n + 1) cs"
    have IH: "n + 1 \<le> ?m" "?m - (n + 1) \<le> length cs"
      "\<And>i. i < ?m - (n + 1) \<Longrightarrow> cr_argsHash (cs ! i) = (if even (n + 1 + i) then a else b)" using Cons [of "n + 1"] by auto
    have "cr_argsHash ((c # cs) ! i) = (if even (n + i) then a else b)" if "i < ?m - n" for i
      using that IH(3) [of "i - 1"] True by (cases i) (auto simp: even_iff_mod_2_eq_zero)
    with IH(1,2) True show ?thesis by simp
  qed simp
qed simp

lemma evidenceLoop_spec:
  "evidenceLoop a b fa fb cs \<Longrightarrow> \<exists>ra rb. (fa = None \<or> fa = Some ra) \<and> (fb = None \<or> fb = Some rb) \<and>
     (\<forall>c \<in> set cs. cr_argsHash c = a \<and> cr_resultHash c = Some ra \<or> cr_argsHash c = b \<and> cr_resultHash c = Some rb)"
proof (induction cs arbitrary: fa fb)
  case (Cons c cs)
  obtain r where r: "truthy (cr_resultHash c) = Some r" using Cons.prems by (cases "truthy (cr_resultHash c)") auto
  then have res: "cr_resultHash c = Some r" by (simp add: truthy_Some_iff)
  show ?case
  proof (cases "cr_argsHash c = a")
    case True
    with Cons.prems r have "evidenceLoop a b (Some r) fb cs" "fa = None \<or> fa = Some r" by (auto split: option.splits if_splits)
    with Cons.IH [of "Some r" fb] True res show ?thesis by auto
  next
    case False
    with Cons.prems r have "evidenceLoop a b fa (Some r) cs" "fb = None \<or> fb = Some r" "cr_argsHash c = b"
      by (auto split: option.splits if_splits)
    with Cons.IH [of fa "Some r"] res show ?thesis by auto
  qed
qed auto

lemma pingPong_spec:
  assumes "pp_noProgressEvidence (getPingPongStreak h a)"
  shows "\<exists>b ra rb. pp_count (getPingPongStreak h a) - 1 \<le> length h \<and>
    (\<forall>i < pp_count (getPingPongStreak h a) - 1. cr_argsHash (rev h ! i) = (if even i then b else a)) \<and>
    (\<forall>c \<in> set (lastN (pp_count (getPingPongStreak h a) - 1) h).
       cr_argsHash c = b \<and> cr_resultHash c = Some ra \<or> cr_argsHash c = a \<and> cr_resultHash c = Some rb)"
proof -
  obtain l before other where l: "rev h = l # before" "find (\<lambda>c. cr_argsHash c \<noteq> cr_argsHash l) before = Some other"
    using assms by (auto simp: getPingPongStreak_def no_ping_pong_def split: list.splits option.splits)
  let ?n = "alternatingTail (cr_argsHash l) (cr_argsHash other) 0 (rev h)"
  have p: "a = cr_argsHash other" "pp_count (getPingPongStreak h a) = ?n + 1"
    "evidenceLoop (cr_argsHash l) a None None (drop (length h - ?n) h)"
    using assms by (auto simp: getPingPongStreak_def l no_ping_pong_def Let_def split: if_splits)
  obtain ra rb where "\<forall>c \<in> set (drop (length h - ?n) h). cr_argsHash c = cr_argsHash l \<and> cr_resultHash c = Some ra \<or>
      cr_argsHash c = a \<and> cr_resultHash c = Some rb"
    using evidenceLoop_spec [OF p(3)] by blast
  with alternatingTail_spec [of 0 "cr_argsHash l" "cr_argsHash other" "rev h"] p(1,2) show ?thesis
    by (intro exI [of _ "cr_argsHash l"] exI [of _ ra] exI [of _ rb]) (simp add: lastN_def)
qed

lemma takeWhile_const: "take (length (takeWhile (\<lambda>x. x = r) xs)) xs = replicate (length (takeWhile (\<lambda>x. x = r) xs)) r"
  by (induction xs) auto

lemma streak_outcomes: "\<exists>r. take (fst (getNoProgressStreak h tool a)) (outcomes tool a h) = replicate (fst (getNoProgressStreak h tool a)) r"
  by (cases "outcomes tool a h") (auto simp: getNoProgressStreak_spec takeWhile_const)

text \<open>A call is blocked only with evidence: detection is enabled, the count reaches the critical threshold, and either the
  last \<open>n\<close> completed outcomes of this very call are all the same, or the last \<open>n - 1\<close> calls alternate strictly between
  another call and this one, each side always ending with the same outcome.\<close>

theorem loop_block_justified:
  assumes "detectToolCallLoop sha h tool params config = Some (Stuck LoopCritical k n paired key)"
  shows "rc_enabled (resolveLoopDetectionConfig config) \<and> rc_criticalThreshold (resolveLoopDetectionConfig config) \<le> n \<and>
    (\<exists>a. hashToolCall sha tool params = Some a \<and>
      (if k = PingPong then
         (\<exists>b ra rb. n - 1 \<le> length h \<and> (\<forall>i < n - 1. cr_argsHash (rev h ! i) = (if even i then b else a)) \<and>
            (\<forall>c \<in> set (lastN (n - 1) h).
               cr_argsHash c = b \<and> cr_resultHash c = Some ra \<or> cr_argsHash c = a \<and> cr_resultHash c = Some rb))
       else (\<exists>r. n \<le> length (outcomes tool a h) \<and> take n (outcomes tool a h) = replicate n r)))"
proof -
  let ?rc = "resolveLoopDetectionConfig config"
  obtain a where a: "rc_enabled ?rc" "hashToolCall sha tool params = Some a"
    "detectWith ?rc h tool (isKnownPollToolCall tool params) a = Stuck LoopCritical k n paired key"
    using assms by (auto simp: detectToolCallLoop_def Let_def split: if_splits)
  have len: "length (take m xs) = m \<Longrightarrow> m \<le> length xs" for m and xs :: "string list" by simp
  from detectWith_critical [OF a(3)] show ?thesis
    using a(1,2) resolved_order(4) [of config] streak_outcomes [of h tool a] pingPong_spec [of h a] len
    by (auto, (metis length_replicate len)+)
qed


theorem loop_block_justified_witness:
  "\<exists>r. take 3 (outcomes ''exec'' ''exec:d'' (replicate 3 (doneRecord ''exec'' ''exec:d'' ''d'' (0, 0, None)))) = replicate 3 r"
proof -
  let ?h = "replicate 3 (doneRecord ''exec'' ''exec:d'' ''d'' (0, 0, None))"
  have "getNoProgressStreak ?h ''exec'' ''exec:d'' = (3, Some ''d'')"
    by (simp add: getNoProgressStreak_def doneRecord_def truthy_def numeral_3_eq_3)
  then have "detectToolCallLoop (\<lambda>s. ''d'') ?h ''exec'' (JObj []) (Some loop_example) =
      Some (Stuck LoopCritical GlobalCircuitBreaker 3 None ''global:exec:exec:d:d'')"
    by (simp add: detectToolCallLoop_def loop_example_resolved loop_example_hashes detectWith_def Let_def)
  from loop_block_justified [OF this] show ?thesis by (simp add: loop_example_hashes)
qed

section \<open>Histories stay bounded\<close>

lemma length_fillLatest: "fillLatest P r cs = Some cs' \<Longrightarrow> length cs' = length cs"
  by (induction cs arbitrary: cs') (auto split: if_splits)

lemma recordToolCall_bounded:
  assumes "recordToolCall sha now tool params i c h = Some h'" "length h \<le> rc_historySize (resolveLoopDetectionConfig c)"
  shows "length h' \<le> rc_historySize (resolveLoopDetectionConfig c)"
proof -
  obtain a where "hashToolCall sha tool params = Some a" using assms(1) by (auto simp: recordToolCall_def)
  from recordToolCall_window [OF this assms(2)] assms(1) show ?thesis using length_lastN by auto
qed

lemma recordToolCallOutcome_bounded:
  assumes "recordToolCallOutcome sha now tool params i result err c h = Some h'" "length h \<le> rc_historySize (resolveLoopDetectionConfig c)"
  shows "length h' \<le> rc_historySize (resolveLoopDetectionConfig c)"
  using assms by (auto simp: recordToolCallOutcome_def Let_def split: option.splits)

text \<open>The number of remembered session states is bounded too, when no key is empty: a sweep that finds more than the
  maximum removes the least recently active ones.\<close>

lemma prune_bounded:
  assumes "distinct (map fst (dg_states d))" "[] \<notin> set (map fst (dg_states d))"
  shows "length (dg_states (pruneDiagnosticSessionStates now True d)) \<le> SESSION_STATE_MAX_ENTRIES"
proof -
  define kept where "kept = filter (\<lambda>p. \<not> staleSession now (snd p)) (dg_states d)"
  let ?ks = "take (length kept - SESSION_STATE_MAX_ENTRIES) (map fst (sort_key (\<lambda>p. ss_lastActivity (snd p)) kept))"
  have dk: "distinct (map fst kept)" using assms(1) by (simp add: kept_def distinct_map_filter)
  have "[] \<notin> set ?ks" using assms(2) by (auto simp: kept_def dest!: in_set_takeD)
  then have v: "oldestKeys (length kept - SESSION_STATE_MAX_ENTRIES) kept = ?ks"
    unfolding oldestKeys_def by (metis (mono_tags, lifting) takeWhile_eq_all_conv)
  have "distinct (map fst (sort_key (\<lambda>p. ss_lastActivity (snd p)) kept))"
    using dk by (metis distinct_map mset_eq_imp_distinct_iff mset_sort set_mset_mset set_sort)
  then have "distinct ?ks" by simp
  then have card: "card (set ?ks) = length kept - SESSION_STATE_MAX_ENTRIES" by (simp add: distinct_card)
  have sub: "set ?ks \<subseteq> set (map fst kept)" by (auto dest!: in_set_takeD)
  have "length (filter (\<lambda>p. fst p \<notin> set ?ks) kept) = card (set (map fst (filter (\<lambda>p. fst p \<notin> set ?ks) kept)))"
    using distinct_card [OF distinct_map_filter [OF dk]] by (metis length_map)
  also have "set (map fst (filter (\<lambda>p. fst p \<notin> set ?ks) kept)) = set (map fst kept) - set ?ks" by auto
  also have "card \<dots> = length kept - card (set ?ks)"
    using card_Diff_subset [OF finite_set sub] distinct_card [OF dk] by simp
  also have "\<dots> \<le> SESSION_STATE_MAX_ENTRIES" using card by simp
  finally have "length (filter (\<lambda>p. fst p \<notin> set (oldestKeys (length kept - SESSION_STATE_MAX_ENTRIES) kept)) kept) \<le> SESSION_STATE_MAX_ENTRIES"
    unfolding v .
  then show ?thesis unfolding pruneDiagnosticSessionStates_def Let_def kept_def [symmetric] by simp
qed

section \<open>Two ways the history goes wrong\<close>

text \<open>The hook passes the agent's id as the session id. A second session of the same agent is therefore given the state of the
  first one: their histories are mixed.\<close>

lemma sessions_of_agent_share_history:
  assumes "map_of (dg_states d) k2 = None" "dg_states d = (k1, st) # rest" "ss_sessionId st = Some agent" "agent \<noteq> []"
    "now - dg_lastPruneAt d < SESSION_STATE_PRUNE_INTERVAL_MS" "length (dg_states d) \<le> SESSION_STATE_MAX_ENTRIES"
  shows "snd (getDiagnosticSessionState now (Some k2) (Some agent) d) = k1"
  using assms by (simp add: getDiagnosticSessionState_def pruneDiagnosticSessionStates_def resolveSessionKey_def findStateBySessionId_def truthy_def)

text \<open>When a plugin hook changes the parameters, the outcome is recorded under the hash of the new ones, and the call as
  it was made never gets an outcome: it has no streak however often it is repeated.\<close>

lemma outcomes_Nil: "outcomes tool a h = [] \<longleftrightarrow> (\<forall>c \<in> set h. callOutcome tool a c = None)"
proof -
  have "List.map_filter f xs = [] \<longleftrightarrow> (\<forall>x \<in> set xs. f x = None)" for f :: "ToolCallRecord \<Rightarrow> string option" and xs
    by (induction xs) (auto simp: List.map_filter_simps split: option.splits)
  then show ?thesis by (simp add: outcomes_def)
qed

lemma set_fillLatest: "fillLatest P r cs = Some cs' \<Longrightarrow> c \<in> set cs' \<Longrightarrow> c \<in> set cs \<or> (\<exists>d. P d \<and> c = d\<lparr>cr_resultHash := Some r\<rparr>)"
  by (induction cs arbitrary: cs') (auto split: if_splits)

lemma recordToolCallOutcome_other:
  assumes "recordToolCallOutcome sha t tool params' i result err c h = Some h'" "hashToolCall sha tool params' = Some a'" "a \<noteq> a'"
    "outcomes tool a h = []"
  shows "outcomes tool a h' = []"
proof -
  have old: "\<forall>x \<in> set h. callOutcome tool a x = None" using assms(4) by (simp add: outcomes_Nil)
  have "callOutcome tool a x = None" if x: "x \<in> set h'" for x
  proof (cases "truthy (hashToolOutcome sha tool params' result err)")
    case None
    then show ?thesis using assms(1) old x by (simp add: recordToolCallOutcome_def)
  next
    case (Some r)
    let ?P = "\<lambda>c. (truthy i = None \<or> cr_toolCallId c = i) \<and> cr_toolName c = tool \<and> cr_argsHash c = a'"
    show ?thesis
    proof (cases "fillLatest ?P r (rev h)")
      case None
      then have "x \<in> set h \<or> cr_argsHash x = a'" using assms(1,2) Some x by (auto simp: recordToolCallOutcome_def Let_def dest!: in_set_dropD)
      then show ?thesis using old assms(3) by (auto simp: callOutcome_def)
    next
      case (Some cs)
      then have "x \<in> set cs" using assms(1,2) x \<open>truthy (hashToolOutcome sha tool params' result err) = _\<close>
        by (auto simp: recordToolCallOutcome_def Let_def dest!: in_set_dropD)
      from set_fillLatest [OF Some this] have "x \<in> set h \<or> cr_argsHash x = a'" by auto
      then show ?thesis using old assms(3) by (auto simp: callOutcome_def)
    qed
  qed
  then show ?thesis by (simp add: outcomes_Nil)
qed

lemma in_set_tl: "x \<in> set (tl xs) \<Longrightarrow> x \<in> set xs"
  by (cases xs) auto

lemma adjusted_params_no_streak:
  assumes "hashToolCall sha tool params = Some a" "hashToolCall sha tool params' = Some a'" "a \<noteq> a'" "outcomes tool a h = []"
    "Option.bind (recordToolCall sha t1 tool params i c h) (recordToolCallOutcome sha t2 tool params' i result err c) = Some h'"
  shows "outcomes tool a h' = [] \<and> fst (getNoProgressStreak h' tool a) = 0"
proof -
  obtain h1 where h1: "recordToolCall sha t1 tool params i c h = Some h1" "recordToolCallOutcome sha t2 tool params' i result err c h1 = Some h'"
    using assms(5) by (cases "recordToolCall sha t1 tool params i c h") auto
  have "callOutcome tool a x = None" if "x \<in> set h1" for x
  proof -
    have "x \<in> set h \<or> cr_resultHash x = None"
      using that h1(1) assms(1) by (auto simp: recordToolCall_def Let_def split: if_splits dest!: in_set_tl)
    then show ?thesis using assms(4) by (auto simp: outcomes_Nil callOutcome_def truthy_def)
  qed
  then have "outcomes tool a h1 = []" by (simp add: outcomes_Nil)
  from recordToolCallOutcome_other [OF h1(2) assms(2,3) this] show ?thesis by (simp add: getNoProgressStreak_spec)
qed

end
