(* ===== verification/Cron_Schedule.thy ===== *)
theory Cron_Schedule
  imports Session_Key Gateway_Net
begin

section \<open>Schedules (cron/schedule.ts, cron/stagger.ts, cron/parse.ts, cron/validate-timestamp.ts)\<close>

text \<open>
  When a job runs next. A schedule is an instant, a period with an anchor, or a cron expression;
  expressions that fire at the top of every hour are spread over a window by an offset computed
  from the job's id. Times are milliseconds; the numbers of a job are integers, on which
  \<open>Math.floor\<close> is the identity.

  What comes from outside is the record \<open>cron_env\<close>: the evaluator of cron expressions
  (package croner; it throws on an expression it cannot parse), the local time zone, the implementation
  defined \<open>Date.parse\<close> (\<open>None\<close> is \<open>NaN\<close>), the number a text stands for, rounded down (\<open>None\<close>: none), the protocol of a URL (\<open>None\<close>: the constructor throws) and the first
  32 bits of the SHA-256 digest of a string.
\<close>

subsection \<open>Data\<close>

text \<open>\<open>at\<close> is the instant of a one-shot job; \<open>atMs\<close>, a number or a text, is its older form.\<close>

datatype CronSchedule =
    AtSchedule (sched_at: "string option") (sched_atMs: "(int + string) option")
  | EverySchedule (sched_everyMs: int) (sched_anchorMs: "int option")
  | ExprSchedule (sched_expr: string) (sched_tz: "string option") (sched_staggerMs: "int option")

record cron_env =
  ce_nextRun :: "string \<Rightarrow> string \<Rightarrow> int \<Rightarrow> string + int option"
  ce_timezone :: string
  ce_dateParse :: "string \<Rightarrow> int option"
  ce_number :: "string \<Rightarrow> int option"
  ce_urlProtocol :: "string \<Rightarrow> string option"
  ce_digest32 :: "string \<Rightarrow> 32 word"

subsection \<open>Instants\<close>

text \<open>\<open>/^\d{4}-\d{2}-\d{2}$/\<close> on the first ten characters, \<open>/[+-]\d{2}:?\d{2}$/\<close> on the last five or six.\<close>

definition iso_date :: "string \<Rightarrow> bool" where
  "iso_date s \<longleftrightarrow> length s = 10 \<and> list_all is_digit (take 4 s) \<and> s ! 4 = CHR ''-'' \<and>
     list_all is_digit (take 2 (drop 5 s)) \<and> s ! 7 = CHR ''-'' \<and> list_all is_digit (drop 8 s)"

definition iso_offset :: "string \<Rightarrow> bool" where
  "iso_offset s = (case s of
     sg # h # h' # rest \<Rightarrow> (sg = CHR ''+'' \<or> sg = CHR ''-'') \<and> is_digit h \<and> is_digit h' \<and>
       (let m = (case rest of c # r \<Rightarrow> if c = CHR '':'' then r else rest | [] \<Rightarrow> []) in length m = 2 \<and> list_all is_digit m)
   | _ \<Rightarrow> False)"

definition ISO_TZ_RE :: "string \<Rightarrow> bool" where
  "ISO_TZ_RE raw \<longleftrightarrow> (raw \<noteq> [] \<and> (last raw = CHR ''Z'' \<or> last raw = CHR ''z'')) \<or>
     iso_offset (drop (length raw - 5) raw) \<or> iso_offset (drop (length raw - 6) raw)"

definition ISO_DATE_TIME_RE :: "string \<Rightarrow> bool" where
  "ISO_DATE_TIME_RE raw \<longleftrightarrow> iso_date (take 10 raw) \<and> length raw > 10 \<and> raw ! 10 = CHR ''T''"

definition normalizeUtcIso :: "string \<Rightarrow> string" where
  "normalizeUtcIso raw =
     (if ISO_TZ_RE raw then raw
      else if iso_date raw then raw @ ''T00:00:00Z''
      else if ISO_DATE_TIME_RE raw then raw @ ''Z''
      else raw)"

definition parseAbsoluteTimeMs :: "cron_env \<Rightarrow> string \<Rightarrow> int option" where
  "parseAbsoluteTimeMs env input =
     (let raw = trim input in
      if raw = [] then None
      else if list_all is_digit raw \<and> digits_value raw > 0 then Some (int (digits_value raw))
      else ce_dateParse env (normalizeUtcIso raw))"

text \<open>The instant of a one-shot schedule, as schedule.ts and jobs.ts both read it.\<close>

definition schedule_atMs :: "cron_env \<Rightarrow> string option \<Rightarrow> (int + string) option \<Rightarrow> int option" where
  "schedule_atMs env atText atMs =
     (let fromAt = (case atText of Some s \<Rightarrow> parseAbsoluteTimeMs env s | None \<Rightarrow> None) in
      case atMs of
        Some (Inl n) \<Rightarrow> if n > 0 then Some n else fromAt
      | Some (Inr s) \<Rightarrow> parseAbsoluteTimeMs env s
      | None \<Rightarrow> fromAt)"

subsection \<open>Next run\<close>

definition resolveCronTimezone :: "cron_env \<Rightarrow> string option \<Rightarrow> string" where
  "resolveCronTimezone env tz = (let t = trim (nullish tz []) in if t \<noteq> [] then t else ce_timezone env)"

definition next_second :: "int \<Rightarrow> int" where
  "next_second nowMs = nowMs div 1000 * 1000 + 1000"

text \<open>\<open>Inl\<close>: the evaluator threw. \<open>None\<close>: the schedule does not fire again.\<close>

definition nextExprRun :: "cron_env \<Rightarrow> string \<Rightarrow> string option \<Rightarrow> int \<Rightarrow> string + int option" where
  "nextExprRun env expr tz nowMs =
     (let expr = trim expr; run = ce_nextRun env expr (resolveCronTimezone env tz) in
      if expr = [] then Inr None
      else (case run nowMs of
          Inl e \<Rightarrow> Inl e
        | Inr None \<Rightarrow> Inr None
        | Inr (Some n) \<Rightarrow>
            if n > nowMs then Inr (Some n)
            else (case run (next_second nowMs) of
                Inl e \<Rightarrow> Inl e
              | Inr None \<Rightarrow> Inr None
              | Inr (Some r) \<Rightarrow> Inr (if r > nowMs then Some r else None))))"

definition nextEveryRun :: "int \<Rightarrow> int option \<Rightarrow> int \<Rightarrow> int" where
  "nextEveryRun everyMs anchorMs nowMs =
     (let everyMs = max 1 everyMs; anchor = max 0 (nullish anchorMs nowMs) in
      if nowMs < anchor then anchor
      else let elapsed = nowMs - anchor; steps = max 1 ((elapsed + everyMs - 1) div everyMs)
           in anchor + steps * everyMs)"

definition computeNextRunAtMs :: "cron_env \<Rightarrow> CronSchedule \<Rightarrow> int \<Rightarrow> string + int option" where
  "computeNextRunAtMs env schedule nowMs = (case schedule of
     AtSchedule atText atMs \<Rightarrow> Inr (case schedule_atMs env atText atMs of
         None \<Rightarrow> None | Some t \<Rightarrow> if t > nowMs then Some t else None)
   | EverySchedule everyMs anchorMs \<Rightarrow> Inr (Some (nextEveryRun everyMs anchorMs nowMs))
   | ExprSchedule expr tz _ \<Rightarrow> nextExprRun env expr tz nowMs)"

subsection \<open>Staggering\<close>

definition DEFAULT_TOP_OF_HOUR_STAGGER_MS :: int where
  "DEFAULT_TOP_OF_HOUR_STAGGER_MS = 5 * 60 * 1000"

text \<open>\<open>split(/\s+/).filter(Boolean)\<close>.\<close>

fun ws_fields :: "string \<Rightarrow> string \<Rightarrow> string list" where
  "ws_fields acc [] = (if acc = [] then [] else [acc])"
| "ws_fields acc (c # s) =
     (if is_ws c then (if acc = [] then ws_fields [] s else acc # ws_fields [] s) else ws_fields (acc @ [c]) s)"

definition parseCronFields :: "string \<Rightarrow> string list" where
  "parseCronFields expr = ws_fields [] (trim expr)"

definition isRecurringTopOfHourCronExpr :: "string \<Rightarrow> bool" where
  "isRecurringTopOfHourCronExpr expr = (case parseCronFields expr of
     [m, h, _, _, _] \<Rightarrow> m = ''0'' \<and> CHR ''*'' \<in> set h
   | [s, m, h, _, _, _] \<Rightarrow> s = ''0'' \<and> m = ''0'' \<and> CHR ''*'' \<in> set h
   | _ \<Rightarrow> False)"

text \<open>A stagger as it arrives: a number, a text, or something else.\<close>

datatype raw_number = RawNumber int | RawText string | RawOther

definition raw_number_of :: "int option \<Rightarrow> raw_number" where
  "raw_number_of n = (case n of Some k \<Rightarrow> RawNumber k | None \<Rightarrow> RawOther)"

definition normalizeCronStaggerMs :: "cron_env \<Rightarrow> raw_number \<Rightarrow> int option" where
  "normalizeCronStaggerMs env raw = (case raw of
     RawNumber n \<Rightarrow> Some (max 0 n)
   | RawText s \<Rightarrow> if trim s = [] then None else map_option (max 0) (ce_number env s)
   | RawOther \<Rightarrow> None)"

definition resolveDefaultCronStaggerMs :: "string \<Rightarrow> int option" where
  "resolveDefaultCronStaggerMs expr = (if isRecurringTopOfHourCronExpr expr then Some DEFAULT_TOP_OF_HOUR_STAGGER_MS else None)"

definition resolveCronStaggerMs :: "cron_env \<Rightarrow> string \<Rightarrow> int option \<Rightarrow> int" where
  "resolveCronStaggerMs env expr staggerMs = (case normalizeCronStaggerMs env (raw_number_of staggerMs) of
     Some n \<Rightarrow> n | None \<Rightarrow> nullish (resolveDefaultCronStaggerMs expr) 0)"

definition resolveStableCronOffsetMs :: "cron_env \<Rightarrow> string \<Rightarrow> int \<Rightarrow> int" where
  "resolveStableCronOffsetMs env jobId staggerMs =
     (if staggerMs \<le> 1 then 0 else uint (ce_digest32 env jobId) mod staggerMs)"

text \<open>The loop of \<open>computeStaggeredCronNextRunAtMs\<close>; the first argument is the number of attempts left.\<close>

fun staggerLoop :: "nat \<Rightarrow> (int \<Rightarrow> string + int option) \<Rightarrow> int \<Rightarrow> int \<Rightarrow> int \<Rightarrow> string + int option" where
  "staggerLoop 0 base offsetMs nowMs cursorMs = Inr None"
| "staggerLoop (Suc n) base offsetMs nowMs cursorMs = (case base cursorMs of
     Inl e \<Rightarrow> Inl e
   | Inr None \<Rightarrow> Inr None
   | Inr (Some b) \<Rightarrow>
       if b + offsetMs > nowMs then Inr (Some (b + offsetMs))
       else staggerLoop n base offsetMs nowMs (max (cursorMs + 1) (b + 1000)))"

definition computeStaggeredCronNextRunAtMs :: "cron_env \<Rightarrow> string \<Rightarrow> CronSchedule \<Rightarrow> int \<Rightarrow> string + int option" where
  "computeStaggeredCronNextRunAtMs env jobId schedule nowMs = (case schedule of
     ExprSchedule expr tz stagger \<Rightarrow>
       (let offsetMs = resolveStableCronOffsetMs env jobId (resolveCronStaggerMs env expr stagger) in
        if offsetMs \<le> 0 then computeNextRunAtMs env schedule nowMs
        else staggerLoop 4 (computeNextRunAtMs env schedule) offsetMs nowMs (max 0 (nowMs - offsetMs)))
   | _ \<Rightarrow> computeNextRunAtMs env schedule nowMs)"

subsection \<open>Validation of one-shot instants\<close>

datatype timestamp_validation = TimestampOk | TimestampInvalid | TimestampPast int | TimestampFuture int

definition ONE_MINUTE_MS :: int where "ONE_MINUTE_MS = 60 * 1000"
definition TEN_YEARS_MS :: int where "TEN_YEARS_MS = 3652 * 24 * 60 * 60 * 1000 + 12 * 60 * 60 * 1000"

text \<open>The result carries the minutes or years the message names. A year is 365.25 days, 31557600000 ms.\<close>

definition validateScheduleTimestamp :: "cron_env \<Rightarrow> CronSchedule \<Rightarrow> int \<Rightarrow> timestamp_validation" where
  "validateScheduleTimestamp env schedule nowMs = (case schedule of
     AtSchedule atText _ \<Rightarrow>
       (let atRaw = trim (nullish atText []) in
        case (if atRaw \<noteq> [] then parseAbsoluteTimeMs env atRaw else None) of
          None \<Rightarrow> TimestampInvalid
        | Some atMs \<Rightarrow>
            (let diffMs = atMs - nowMs in
             if diffMs < - ONE_MINUTE_MS then TimestampPast (- diffMs div ONE_MINUTE_MS)
             else if diffMs > TEN_YEARS_MS then TimestampFuture (diffMs div 31557600000)
             else TimestampOk))
   | _ \<Rightarrow> TimestampOk)"

section \<open>What the schedules compute\<close>

subsection \<open>Periods\<close>

text \<open>The rounded-up quotient is the least number of periods that reaches the elapsed time.\<close>

lemma ceil_div_least:
  fixes e x :: int
  assumes "0 < e"
  shows "x \<le> (x + e - 1) div e * e" and "x \<le> k * e \<Longrightarrow> (x + e - 1) div e \<le> k"
proof -
  have "(x + e - 1) div e * e = (x + e - 1) - (x + e - 1) mod e" by (simp add: minus_mod_eq_div_mult)
  moreover have "(x + e - 1) mod e < e" using assms by simp
  ultimately show "x \<le> (x + e - 1) div e * e" by linarith
next
  assume "x \<le> k * e"
  then have "(x + e - 1) div e \<le> (k * e + (e - 1)) div e" using assms by (intro zdiv_mono1) auto
  also have "\<dots> = k" using assms by (simp add: div_pos_pos_trivial)
  finally show "(x + e - 1) div e \<le> k" .
qed

lemma nextEveryRun_before: "nowMs < max 0 a \<Longrightarrow> nextEveryRun e (Some a) nowMs = max 0 a"
  by (simp add: nextEveryRun_def)

lemma nextEveryRun_after:
  assumes "max 0 a \<le> nowMs"
  obtains k where "1 \<le> k" "nextEveryRun e (Some a) nowMs = max 0 a + k * max 1 e"
    "nowMs \<le> nextEveryRun e (Some a) nowMs"
    "\<And>k'. 1 \<le> k' \<Longrightarrow> nowMs \<le> max 0 a + k' * max 1 e \<Longrightarrow> nextEveryRun e (Some a) nowMs \<le> max 0 a + k' * max 1 e"
proof -
  define b where "b = max 1 e"
  define k where "k = max 1 ((nowMs - max 0 a + b - 1) div b)"
  have b: "0 < b" by (simp add: b_def)
  have "\<not> nowMs < max 0 a" using assms by linarith
  then have eq: "nextEveryRun e (Some a) nowMs = max 0 a + k * b"
    by (simp only: nextEveryRun_def Let_def nullish_simps if_False k_def b_def)
  have "(nowMs - max 0 a + b - 1) div b * b \<le> k * b" using b by (intro mult_right_mono) (auto simp: k_def)
  then have ge: "nowMs \<le> max 0 a + k * b" using ceil_div_least(1) [OF b, of "nowMs - max 0 a"] by linarith
  have "k \<le> k'" if "1 \<le> k'" "nowMs \<le> max 0 a + k' * b" for k'
  proof -
    have "nowMs - max 0 a \<le> k' * b" using that(2) by linarith
    from ceil_div_least(2) [OF b this] show ?thesis using that(1) by (simp add: k_def)
  qed
  then have least: "max 0 a + k * b \<le> max 0 a + k' * b" if "1 \<le> k'" "nowMs \<le> max 0 a + k' * b" for k'
    using that b by (simp add: mult_right_mono)
  have "1 \<le> k" by (simp add: k_def)
  then show thesis using that [of k] eq ge least unfolding b_def by presburger
qed

subsection \<open>Evaluators of a schedule\<close>

lemma allI_shift: "(\<forall>m. P m) \<longleftrightarrow> (\<forall>u. P (u - d))" for d :: int
  by (metis diff_add_cancel add_diff_cancel_right')

text \<open>
  The contract of an evaluator: asked at \<open>t\<close> it returns the first instant after \<open>t\<close> at which the
  schedule fires, or nothing when it fires no more. Croner documents it for cron expressions; the
  one-shot schedule of the code satisfies it by construction.
\<close>

locale next_run =
  fixes fires :: "int \<Rightarrow> bool"
    and run :: "int \<Rightarrow> string + int option"
  assumes run_total: "run t \<noteq> Inl e"
    and run_fires: "run t = Inr (Some n) \<Longrightarrow> fires n \<and> t < n"
    and run_first: "run t = Inr (Some n) \<Longrightarrow> fires m \<Longrightarrow> t < m \<Longrightarrow> n \<le> m"
    and run_ends: "run t = Inr None \<Longrightarrow> fires m \<Longrightarrow> m \<le> t"
begin

lemma run_Some_iff: "run t = Inr (Some n) \<longleftrightarrow> fires n \<and> t < n \<and> (\<forall>m. fires m \<and> t < m \<longrightarrow> n \<le> m)"
proof
  assume *: "fires n \<and> t < n \<and> (\<forall>m. fires m \<and> t < m \<longrightarrow> n \<le> m)"
  show "run t = Inr (Some n)"
  proof (cases "run t")
    case (Inl e) then show ?thesis using run_total by blast
  next
    case (Inr r)
    then show ?thesis using * run_fires [of t] run_first [of t _ n] run_ends [of t n]
      by (cases r) (force intro: antisym)+
  qed
qed (use run_fires run_first in blast)

text \<open>One attempt of the staggering loop is enough, and it finds the first shifted instant after now.\<close>

lemma stagger_first:
  assumes "0 < off" and cur: "cur = max 0 (now - off)"
  shows "staggerLoop (Suc n) run off now cur = Inr (Some t) \<longleftrightarrow>
    fires (t - off) \<and> off < t \<and> now < t \<and> (\<forall>u. fires (u - off) \<and> off < u \<and> now < u \<longrightarrow> t \<le> u)"
proof -
  have after: "cur < u - off \<longleftrightarrow> off < u \<and> now < u" for u using assms by auto
  have "staggerLoop (Suc n) run off now cur = Inr (Some t) \<longleftrightarrow> run cur = Inr (Some (t - off))"
  proof (cases "run cur")
    case (Inl e) then show ?thesis using run_total by blast
  next
    case (Inr r)
    then show ?thesis using run_fires [of cur] cur by (cases r) force+
  qed
  also have "\<dots> \<longleftrightarrow> fires (t - off) \<and> cur < t - off \<and> (\<forall>u. fires (u - off) \<and> cur < u - off \<longrightarrow> t - off \<le> u - off)"
    unfolding run_Some_iff using allI_shift [of "\<lambda>m. fires m \<and> cur < m \<longrightarrow> t - off \<le> m" off] by simp
  finally show ?thesis by (simp add: after conj_assoc)
qed

lemma stagger_ends:
  assumes "staggerLoop (Suc n) run off now cur = Inr None" and "0 < off" and cur: "cur = max 0 (now - off)"
    and "fires (u - off)" "off < u"
  shows "u \<le> now"
proof -
  have "run cur = Inr None"
  proof (cases "run cur")
    case (Inl e) then show ?thesis using run_total by blast
  next
    case (Inr r)
    then show ?thesis using assms(1,2) run_fires [of cur] cur by (cases r) force+
  qed
  then have "u - off \<le> cur" using run_ends assms(4) by blast
  then show ?thesis using assms(2,5) cur by auto
qed

lemma stagger_total: "0 < off \<Longrightarrow> staggerLoop (Suc n) run off now (max 0 (now - off)) \<noteq> Inl e"
  using run_total run_fires [of "max 0 (now - off)"]
  by (cases "run (max 0 (now - off))") (force split: option.splits)+

end

interpretation at_run: next_run "\<lambda>t. schedule_atMs env atText atMs = Some t" "computeNextRunAtMs env (AtSchedule atText atMs)"
  by unfold_locales (auto simp: computeNextRunAtMs_def split: option.splits if_splits)

lemma next_run_cong: "next_run fires run \<Longrightarrow> (\<And>t. run' t = run t) \<Longrightarrow> next_run fires run'"
  by (simp add: next_run_def)

lemma nextExprRun_eq:
  assumes "next_run fires (ce_nextRun env (trim expr) (resolveCronTimezone env tz))" and "trim expr \<noteq> []"
  shows "nextExprRun env expr tz t = ce_nextRun env (trim expr) (resolveCronTimezone env tz) t"
  using assms(2) next_run.run_fires [OF assms(1), of t] by (auto simp: nextExprRun_def Let_def split: sum.splits option.splits)

text \<open>Whatever the evaluator returns, a computed run lies after the time it is computed for.\<close>

lemma nextExprRun_after: "nextExprRun env expr tz nowMs = Inr (Some t) \<Longrightarrow> nowMs < t"
  by (auto simp: nextExprRun_def Let_def split: if_splits sum.splits option.splits)

lemma staggerLoop_after:
  "staggerLoop n base off nowMs cur = Inr (Some t) \<Longrightarrow> nowMs < t \<and> (\<exists>c. base c = Inr (Some (t - off)))"
  by (induction n arbitrary: cur) (force split: sum.splits option.splits if_splits)+

lemma computeStaggered_after:
  assumes "computeStaggeredCronNextRunAtMs env jid (ExprSchedule expr tz st) nowMs = Inr (Some t)"
  shows "nowMs < t"
  using assms staggerLoop_after nextExprRun_after
  by (fastforce simp: computeStaggeredCronNextRunAtMs_def computeNextRunAtMs_def Let_def split: if_splits)

lemma stable_offset_range: "0 \<le> resolveStableCronOffsetMs env jid st" "resolveStableCronOffsetMs env jid st < max 1 st"
  by (auto simp: resolveStableCronOffsetMs_def max_def)

lemma next_second_after: "nowMs < next_second nowMs" "next_second nowMs \<le> nowMs + 1000"
proof -
  have "nowMs div 1000 * 1000 = nowMs - nowMs mod 1000" by (simp add: minus_mod_eq_div_mult)
  moreover have "0 \<le> nowMs mod 1000" "nowMs mod 1000 < 1000" by simp_all
  ultimately show "nowMs < next_second nowMs" "next_second nowMs \<le> nowMs + 1000"
    unfolding next_second_def by linarith+
qed

end
