(* ===== verification/Cron_Jobs.thy ===== *)
theory Cron_Jobs
  imports Cron_Schedule
begin

section \<open>Cron jobs (cron/types.ts, cron/service/jobs.ts, cron/service/normalize.ts, cron/delivery.ts)\<close>

text \<open>
  A job and the operations on one job: creating it, patching it, computing its next run, the
  bookkeeping of a timer tick, and where its output goes. The code changes job objects in place and
  may throw half-way; such an operation returns the object as the throw leaves it together with
  the error text, if any. A field of a patch that may be present with the value \<open>undefined\<close> is a
  nested option.
\<close>

subsection \<open>Data\<close>

datatype CronSessionTarget = TargetMain | TargetIsolated
datatype CronWakeMode = WakeNextHeartbeat | WakeNow
datatype CronRunStatus = StOk | StError | StSkipped

record CronDelivery =
  dl_mode :: "string option"
  dl_channel :: "string option"
  dl_to :: "string option"
  dl_bestEffort :: "bool option"

record CronDeliveryPatch =
  dp_mode :: "string option"
  dp_channel :: "string option option"
  dp_to :: "string option option"
  dp_bestEffort :: "bool option"

text \<open>The optional fields of an \<open>agentTurn\<close> payload, the same in a payload and in a patch.\<close>

record turn_fields =
  tf_model :: "string option"
  tf_thinking :: "string option"
  tf_timeoutSeconds :: "int option"
  tf_allowUnsafeExternalContent :: "bool option"
  tf_deliver :: "bool option"
  tf_channel :: "string option"
  tf_to :: "string option"
  tf_bestEffortDeliver :: "bool option"

datatype CronPayload = SystemEvent string | AgentTurn string turn_fields
datatype CronPayloadPatch = SystemEventPatch "string option" | AgentTurnPatch "string option" turn_fields

record CronJobState =
  js_nextRunAtMs :: "int option"
  js_runningAtMs :: "int option"
  js_lastRunAtMs :: "int option"
  js_lastStatus :: "CronRunStatus option"
  js_lastError :: "string option"
  js_lastDurationMs :: "int option"
  js_consecutiveErrors :: "int option"
  js_scheduleErrorCount :: "int option"

record CronJobStatePatch =
  sp_nextRunAtMs :: "int option option"
  sp_runningAtMs :: "int option option"
  sp_lastRunAtMs :: "int option option"
  sp_lastStatus :: "CronRunStatus option option"
  sp_lastError :: "string option option"
  sp_lastDurationMs :: "int option option"
  sp_consecutiveErrors :: "int option option"
  sp_scheduleErrorCount :: "int option option"

record CronJob =
  cj_id :: string
  cj_agentId :: "string option"
  cj_sessionKey :: "string option"
  cj_name :: string
  cj_description :: "string option"
  cj_enabled :: bool
  cj_deleteAfterRun :: "bool option"
  cj_createdAtMs :: int
  cj_updatedAtMs :: int
  cj_schedule :: CronSchedule
  cj_sessionTarget :: CronSessionTarget
  cj_wakeMode :: CronWakeMode
  cj_payload :: CronPayload
  cj_delivery :: "CronDelivery option"
  cj_state :: CronJobState

record CronJobCreate =
  cc_agentId :: "string option"
  cc_sessionKey :: "string option"
  cc_name :: "string option"
  cc_description :: "string option"
  cc_enabled :: "bool option"
  cc_deleteAfterRun :: "bool option"
  cc_schedule :: CronSchedule
  cc_sessionTarget :: CronSessionTarget
  cc_wakeMode :: CronWakeMode
  cc_payload :: CronPayload
  cc_delivery :: "CronDelivery option"
  cc_state :: CronJobStatePatch

record CronJobPatch =
  cp_agentId :: "string option option"
  cp_sessionKey :: "string option option"
  cp_name :: "string option option"
  cp_description :: "string option option"
  cp_enabled :: "bool option"
  cp_deleteAfterRun :: "bool option"
  cp_schedule :: "CronSchedule option"
  cp_sessionTarget :: "CronSessionTarget option"
  cp_wakeMode :: "CronWakeMode option"
  cp_payload :: "CronPayloadPatch option"
  cp_delivery :: "CronDeliveryPatch option"
  cp_state :: "CronJobStatePatch option"

definition emptyJobState :: CronJobState where
  "emptyJobState = \<lparr>js_nextRunAtMs = None, js_runningAtMs = None, js_lastRunAtMs = None, js_lastStatus = None,
     js_lastError = None, js_lastDurationMs = None, js_consecutiveErrors = None, js_scheduleErrorCount = None\<rparr>"

text \<open>\<open>{...state, ...patch}\<close>.\<close>

definition mergeJobState :: "CronJobState \<Rightarrow> CronJobStatePatch \<Rightarrow> CronJobState" where
  "mergeJobState s p = \<lparr>js_nextRunAtMs = nullish (sp_nextRunAtMs p) (js_nextRunAtMs s),
     js_runningAtMs = nullish (sp_runningAtMs p) (js_runningAtMs s),
     js_lastRunAtMs = nullish (sp_lastRunAtMs p) (js_lastRunAtMs s),
     js_lastStatus = nullish (sp_lastStatus p) (js_lastStatus s),
     js_lastError = nullish (sp_lastError p) (js_lastError s),
     js_lastDurationMs = nullish (sp_lastDurationMs p) (js_lastDurationMs s),
     js_consecutiveErrors = nullish (sp_consecutiveErrors p) (js_consecutiveErrors s),
     js_scheduleErrorCount = nullish (sp_scheduleErrorCount p) (js_scheduleErrorCount s)\<rparr>"

text \<open>A number that counts as true in a condition.\<close>

definition truthy_num :: "int option \<Rightarrow> bool" where
  "truthy_num n = (case n of None \<Rightarrow> False | Some k \<Rightarrow> k \<noteq> 0)"

text \<open>A statement that changes an object and may throw; the rest of the function runs when it did not.\<close>

type_synonym 'a mutation = "'a \<times> string option"

definition then_do :: "'a mutation \<Rightarrow> ('a \<Rightarrow> 'a mutation) \<Rightarrow> 'a mutation" where
  "then_do r f = (case snd r of None \<Rightarrow> f (fst r) | Some e \<Rightarrow> r)"

subsection \<open>Texts\<close>

definition normalizeRequiredName :: "string option \<Rightarrow> string + string" where
  "normalizeRequiredName raw = (case raw of
     None \<Rightarrow> Inl ''cron job name is required''
   | Some s \<Rightarrow> if trim s = [] then Inl ''cron job name is required'' else Inr (trim s))"

definition normalizeOptionalText :: "string option \<Rightarrow> string option" where
  "normalizeOptionalText raw = (case raw of None \<Rightarrow> None | Some s \<Rightarrow> if trim s = [] then None else Some (trim s))"

definition normalizeOptionalAgentId :: "string option \<Rightarrow> string option" where
  "normalizeOptionalAgentId raw = (case raw of
     None \<Rightarrow> None | Some s \<Rightarrow> if trim s = [] then None else Some (normalizeAgentId (Some (trim s))))"

definition normalizeOptionalSessionKey :: "string option \<Rightarrow> string option" where
  "normalizeOptionalSessionKey raw = (case raw of None \<Rightarrow> None | Some s \<Rightarrow> if trim s = [] then None else Some (trim s))"

definition normalizePayloadToSystemText :: "CronPayload \<Rightarrow> string" where
  "normalizePayloadToSystemText payload = (case payload of SystemEvent text \<Rightarrow> trim text | AgentTurn message _ \<Rightarrow> trim message)"

definition resolveJobPayloadTextForMain :: "CronJob \<Rightarrow> string option" where
  "resolveJobPayloadTextForMain job = (case cj_payload job of
     SystemEvent _ \<Rightarrow> (let text = normalizePayloadToSystemText (cj_payload job) in if trim text \<noteq> [] then Some text else None)
   | AgentTurn _ _ \<Rightarrow> None)"

definition isAllowedWebhookProtocol :: "string \<Rightarrow> bool" where
  "isAllowedWebhookProtocol protocol \<longleftrightarrow> protocol = ''http:'' \<or> protocol = ''https:''"

definition normalizeHttpWebhookUrl :: "cron_env \<Rightarrow> string option \<Rightarrow> string option" where
  "normalizeHttpWebhookUrl env value = (case value of
     None \<Rightarrow> None
   | Some v \<Rightarrow> (let trimmed = trim v in
       if trimmed = [] then None
       else (case ce_urlProtocol env trimmed of
           None \<Rightarrow> None | Some p \<Rightarrow> if isAllowedWebhookProtocol p then Some trimmed else None)))"

subsection \<open>Supported combinations\<close>

definition is_systemEvent :: "CronPayload \<Rightarrow> bool" where
  "is_systemEvent p = (case p of SystemEvent _ \<Rightarrow> True | _ \<Rightarrow> False)"

definition assertSupportedJobSpec :: "CronJob \<Rightarrow> string option" where
  "assertSupportedJobSpec job =
     (if cj_sessionTarget job = TargetMain \<and> \<not> is_systemEvent (cj_payload job)
      then Some ''main cron jobs require payload.kind=\"systemEvent\"''
      else if cj_sessionTarget job = TargetIsolated \<and> is_systemEvent (cj_payload job)
      then Some ''isolated cron jobs require payload.kind=\"agentTurn\"''
      else None)"

definition assertDeliverySupport :: "cron_env \<Rightarrow> CronJob \<Rightarrow> CronJob mutation" where
  "assertDeliverySupport env job = (case cj_delivery job of
     None \<Rightarrow> (job, None)
   | Some d \<Rightarrow>
       if dl_mode d = Some ''webhook''
       then (case normalizeHttpWebhookUrl env (dl_to d) of
           None \<Rightarrow> (job, Some ''cron webhook delivery requires delivery.to to be a valid http(s) URL'')
         | Some target \<Rightarrow> (job\<lparr>cj_delivery := Some (d\<lparr>dl_to := Some target\<rparr>)\<rparr>, None))
       else if cj_sessionTarget job \<noteq> TargetIsolated
       then (job, Some ''cron channel delivery config is only supported for sessionTarget=\"isolated\"'')
       else (job, None))"

subsection \<open>Next run of a job\<close>

definition resolveEveryAnchorMs :: "int option \<Rightarrow> int \<Rightarrow> int" where
  "resolveEveryAnchorMs anchorMs fallbackAnchorMs = max 0 (nullish anchorMs fallbackAnchorMs)"

definition computeJobNextRunAtMs :: "cron_env \<Rightarrow> CronJob \<Rightarrow> int \<Rightarrow> string + int option" where
  "computeJobNextRunAtMs env job nowMs =
     (if \<not> cj_enabled job then Inr None
      else (case cj_schedule job of
          EverySchedule everyMs anchorMs \<Rightarrow>
            computeNextRunAtMs env (EverySchedule everyMs (Some (resolveEveryAnchorMs anchorMs (cj_createdAtMs job)))) nowMs
        | AtSchedule atText atMs \<Rightarrow>
            if js_lastStatus (cj_state job) = Some StOk \<and> truthy_num (js_lastRunAtMs (cj_state job)) then Inr None
            else Inr (schedule_atMs env atText atMs)
        | ExprSchedule _ _ _ \<Rightarrow>
            (case computeStaggeredCronNextRunAtMs env (cj_id job) (cj_schedule job) nowMs of
                Inr None \<Rightarrow> computeStaggeredCronNextRunAtMs env (cj_id job) (cj_schedule job) (next_second nowMs)
              | r \<Rightarrow> r)))"

definition MAX_SCHEDULE_ERRORS :: int where "MAX_SCHEDULE_ERRORS = 3"
definition STUCK_RUN_MS :: int where "STUCK_RUN_MS = 2 * 60 * 60 * 1000"

definition recordScheduleComputeError :: "CronJob \<Rightarrow> string \<Rightarrow> CronJob" where
  "recordScheduleComputeError job err =
     (let errorCount = nullish (js_scheduleErrorCount (cj_state job)) 0 + 1;
          job = job\<lparr>cj_state := (cj_state job)\<lparr>js_scheduleErrorCount := Some errorCount, js_nextRunAtMs := None,
            js_lastError := Some (''schedule error: '' @ err)\<rparr>\<rparr>
      in if errorCount \<ge> MAX_SCHEDULE_ERRORS then job\<lparr>cj_enabled := False\<rparr> else job)"

text \<open>The results: the job, whether it changed, whether it is skipped.\<close>

definition normalizeJobTickState :: "int \<Rightarrow> CronJob \<Rightarrow> CronJob \<times> bool \<times> bool" where
  "normalizeJobTickState nowMs job =
     (let st = cj_state job in
      if \<not> cj_enabled job
      then (job\<lparr>cj_state := st\<lparr>js_nextRunAtMs := None, js_runningAtMs := None\<rparr>\<rparr>,
            js_nextRunAtMs st \<noteq> None \<or> js_runningAtMs st \<noteq> None, True)
      else (case js_runningAtMs st of
          Some r \<Rightarrow> if nowMs - r > STUCK_RUN_MS then (job\<lparr>cj_state := st\<lparr>js_runningAtMs := None\<rparr>\<rparr>, True, False)
                    else (job, False, False)
        | None \<Rightarrow> (job, False, False)))"

definition walkJob :: "(int \<Rightarrow> CronJob \<Rightarrow> CronJob \<times> bool) \<Rightarrow> int \<Rightarrow> CronJob \<Rightarrow> CronJob \<times> bool" where
  "walkJob fn now job =
     (let (job, changed, skip) = normalizeJobTickState now job in
      if skip then (job, changed) else let (job, c) = fn now job in (job, changed \<or> c))"

definition walkSchedulableJobs :: "(int \<Rightarrow> CronJob \<Rightarrow> CronJob \<times> bool) \<Rightarrow> int \<Rightarrow> CronJob list \<Rightarrow> CronJob list \<times> bool" where
  "walkSchedulableJobs fn now jobs =
     (map (\<lambda>j. fst (walkJob fn now j)) jobs, list_ex (\<lambda>j. snd (walkJob fn now j)) jobs)"

definition recomputeJobNextRunAtMs :: "cron_env \<Rightarrow> int \<Rightarrow> CronJob \<Rightarrow> CronJob \<times> bool" where
  "recomputeJobNextRunAtMs env nowMs job = (case computeJobNextRunAtMs env job nowMs of
     Inr newNext \<Rightarrow>
       (let st = cj_state job; counted = truthy_num (js_scheduleErrorCount st) in
        (job\<lparr>cj_state := st\<lparr>js_nextRunAtMs := newNext,
               js_scheduleErrorCount := (if counted then None else js_scheduleErrorCount st)\<rparr>\<rparr>,
         js_nextRunAtMs st \<noteq> newNext \<or> counted))
   | Inl err \<Rightarrow> (recordScheduleComputeError job err, True))"

definition recomputeNextRuns :: "cron_env \<Rightarrow> int \<Rightarrow> CronJob list \<Rightarrow> CronJob list \<times> bool" where
  "recomputeNextRuns env = walkSchedulableJobs (\<lambda>now job.
     (case js_nextRunAtMs (cj_state job) of
        None \<Rightarrow> recomputeJobNextRunAtMs env now job
      | Some nextRun \<Rightarrow> if now \<ge> nextRun then recomputeJobNextRunAtMs env now job else (job, False)))"

definition recomputeNextRunsForMaintenance :: "cron_env \<Rightarrow> int \<Rightarrow> CronJob list \<Rightarrow> CronJob list \<times> bool" where
  "recomputeNextRunsForMaintenance env = walkSchedulableJobs (\<lambda>now job.
     if js_nextRunAtMs (cj_state job) = None then recomputeJobNextRunAtMs env now job else (job, False))"

definition nextWakeAtMs :: "CronJob list \<Rightarrow> int option" where
  "nextWakeAtMs jobs =
     (case List.map_filter (\<lambda>j. if cj_enabled j then js_nextRunAtMs (cj_state j) else None) jobs of
        [] \<Rightarrow> None | t # ts \<Rightarrow> Some (foldl min t (t # ts)))"

definition isJobDue :: "CronJob \<Rightarrow> int \<Rightarrow> bool \<Rightarrow> bool" where
  "isJobDue job nowMs forced =
     (if js_runningAtMs (cj_state job) \<noteq> None then False
      else if forced then True
      else cj_enabled job \<and> (case js_nextRunAtMs (cj_state job) of Some t \<Rightarrow> nowMs \<ge> t | None \<Rightarrow> False))"

subsection \<open>Creating a job\<close>

definition withStagger :: "CronSchedule \<Rightarrow> int option \<Rightarrow> CronSchedule" where
  "withStagger schedule st = (case schedule of ExprSchedule e tz _ \<Rightarrow> ExprSchedule e tz st | s \<Rightarrow> s)"

definition createSchedule :: "cron_env \<Rightarrow> int \<Rightarrow> CronSchedule \<Rightarrow> CronSchedule" where
  "createSchedule env now schedule = (case schedule of
     EverySchedule everyMs anchorMs \<Rightarrow> EverySchedule everyMs (Some (resolveEveryAnchorMs anchorMs now))
   | ExprSchedule expr tz st \<Rightarrow>
       (case normalizeCronStaggerMs env (raw_number_of st) of
          Some n \<Rightarrow> withStagger schedule (Some n)
        | None \<Rightarrow> (case resolveDefaultCronStaggerMs expr of Some n \<Rightarrow> withStagger schedule (Some n) | None \<Rightarrow> schedule))
   | AtSchedule _ _ \<Rightarrow> schedule)"

definition is_at :: "CronSchedule \<Rightarrow> bool" where
  "is_at s = (case s of AtSchedule _ _ \<Rightarrow> True | _ \<Rightarrow> False)"

definition createJob :: "cron_env \<Rightarrow> string \<Rightarrow> int \<Rightarrow> CronJobCreate \<Rightarrow> string + CronJob" where
  "createJob env uuid now input =
     (let schedule = createSchedule env now (cc_schedule input);
          deleteAfterRun = (case cc_deleteAfterRun input of Some b \<Rightarrow> Some b | None \<Rightarrow> if is_at schedule then Some True else None)
      in case normalizeRequiredName (cc_name input) of
           Inl e \<Rightarrow> Inl e
         | Inr name \<Rightarrow>
             (let job = \<lparr>cj_id = uuid, cj_agentId = normalizeOptionalAgentId (cc_agentId input),
                    cj_sessionKey = normalizeOptionalSessionKey (cc_sessionKey input), cj_name = name,
                    cj_description = normalizeOptionalText (cc_description input), cj_enabled = nullish (cc_enabled input) True,
                    cj_deleteAfterRun = deleteAfterRun, cj_createdAtMs = now, cj_updatedAtMs = now,
                    cj_schedule = schedule, cj_sessionTarget = cc_sessionTarget input, cj_wakeMode = cc_wakeMode input,
                    cj_payload = cc_payload input, cj_delivery = cc_delivery input,
                    cj_state = mergeJobState emptyJobState (cc_state input)\<rparr>
              in case assertSupportedJobSpec job of
                   Some e \<Rightarrow> Inl e
                 | None \<Rightarrow> (case assertDeliverySupport env job of
                       (_, Some e) \<Rightarrow> Inl e
                     | (job, None) \<Rightarrow> (case computeJobNextRunAtMs env job now of
                           Inl e \<Rightarrow> Inl e
                         | Inr next \<Rightarrow> Inr (job\<lparr>cj_state := (cj_state job)\<lparr>js_nextRunAtMs := next\<rparr>\<rparr>)))))"

subsection \<open>Patching a job\<close>

definition buildPayloadFromPatch :: "CronPayloadPatch \<Rightarrow> string + CronPayload" where
  "buildPayloadFromPatch patch = (case patch of
     SystemEventPatch text \<Rightarrow> (case text of
         Some (c # s) \<Rightarrow> Inr (SystemEvent (c # s))
       | _ \<Rightarrow> Inl ''cron.update payload.kind=\"systemEvent\" requires text'')
   | AgentTurnPatch message fs \<Rightarrow> (case message of
         Some (c # s) \<Rightarrow> Inr (AgentTurn (c # s) fs)
       | _ \<Rightarrow> Inl ''cron.update payload.kind=\"agentTurn\" requires message''))"

definition mergeTurnFields :: "turn_fields \<Rightarrow> turn_fields \<Rightarrow> turn_fields" where
  "mergeTurnFields existing patch = \<lparr>tf_model = orelse (tf_model patch) (tf_model existing),
     tf_thinking = orelse (tf_thinking patch) (tf_thinking existing),
     tf_timeoutSeconds = orelse (tf_timeoutSeconds patch) (tf_timeoutSeconds existing),
     tf_allowUnsafeExternalContent = orelse (tf_allowUnsafeExternalContent patch) (tf_allowUnsafeExternalContent existing),
     tf_deliver = orelse (tf_deliver patch) (tf_deliver existing),
     tf_channel = orelse (tf_channel patch) (tf_channel existing),
     tf_to = orelse (tf_to patch) (tf_to existing),
     tf_bestEffortDeliver = orelse (tf_bestEffortDeliver patch) (tf_bestEffortDeliver existing)\<rparr>"

definition mergeCronPayload :: "CronPayload \<Rightarrow> CronPayloadPatch \<Rightarrow> string + CronPayload" where
  "mergeCronPayload existing patch = (case (existing, patch) of
     (SystemEvent text, SystemEventPatch text') \<Rightarrow> Inr (SystemEvent (nullish text' text))
   | (AgentTurn message fs, AgentTurnPatch message' fs') \<Rightarrow>
       Inr (AgentTurn (nullish message' message) (mergeTurnFields fs fs'))
   | _ \<Rightarrow> buildPayloadFromPatch patch)"

definition buildLegacyDeliveryPatch :: "turn_fields \<Rightarrow> CronDeliveryPatch option" where
  "buildLegacyDeliveryPatch payload =
     (let toRaw = trim (nullish (tf_to payload) []);
          hasLegacyHints = (tf_deliver payload \<noteq> None \<or> tf_bestEffortDeliver payload \<noteq> None \<or> toRaw \<noteq> []);
          mode = (if tf_deliver payload = Some False then Some ''none''
                  else if tf_deliver payload = Some True \<or> toRaw \<noteq> [] then Some ''announce'' else None);
          channel = map_option (\<lambda>c. let l = to_lower (trim c) in if l \<noteq> [] then Some l else None) (tf_channel payload);
          to = map_option (\<lambda>t. Some (trim t)) (tf_to payload)
      in if \<not> hasLegacyHints then None
         else if mode \<noteq> None \<or> channel \<noteq> None \<or> to \<noteq> None \<or> tf_bestEffortDeliver payload \<noteq> None
         then Some \<lparr>dp_mode = mode, dp_channel = channel, dp_to = to, dp_bestEffort = tf_bestEffortDeliver payload\<rparr>
         else None)"

definition trimmedOrNone :: "string option \<Rightarrow> string option" where
  "trimmedOrNone v = (let t = trim (nullish v []) in if t \<noteq> [] then Some t else None)"

definition mergeCronDelivery :: "CronDelivery option \<Rightarrow> CronDeliveryPatch \<Rightarrow> CronDelivery" where
  "mergeCronDelivery existing patch =
     \<lparr>dl_mode = (case dp_mode patch of
          Some m \<Rightarrow> Some (if m = ''deliver'' then ''announce'' else m)
        | None \<Rightarrow> Some (nullish (Option.bind existing dl_mode) ''none'')),
      dl_channel = (case dp_channel patch of Some c \<Rightarrow> trimmedOrNone c | None \<Rightarrow> Option.bind existing dl_channel),
      dl_to = (case dp_to patch of Some t \<Rightarrow> trimmedOrNone t | None \<Rightarrow> Option.bind existing dl_to),
      dl_bestEffort = orelse (dp_bestEffort patch) (Option.bind existing dl_bestEffort)\<rparr>"

definition patchSchedule :: "cron_env \<Rightarrow> CronSchedule \<Rightarrow> CronSchedule \<Rightarrow> CronSchedule" where
  "patchSchedule env existing schedule = (case schedule of
     ExprSchedule expr tz st \<Rightarrow>
       (case normalizeCronStaggerMs env (raw_number_of st) of
          Some n \<Rightarrow> withStagger schedule (Some n)
        | None \<Rightarrow> (case existing of
              ExprSchedule _ _ st' \<Rightarrow> withStagger schedule st'
            | _ \<Rightarrow> (case resolveDefaultCronStaggerMs expr of Some n \<Rightarrow> withStagger schedule (Some n) | None \<Rightarrow> schedule)))
   | _ \<Rightarrow> schedule)"

text \<open>The statements of \<open>applyJobPatch\<close> in their order; each group ends where the code may throw.\<close>

definition patchName :: "CronJobPatch \<Rightarrow> CronJob \<Rightarrow> CronJob mutation" where
  "patchName patch job = (case cp_name patch of
     None \<Rightarrow> (job, None)
   | Some raw \<Rightarrow> (case normalizeRequiredName raw of Inl e \<Rightarrow> (job, Some e) | Inr n \<Rightarrow> (job\<lparr>cj_name := n\<rparr>, None)))"

definition patchFields :: "cron_env \<Rightarrow> CronJobPatch \<Rightarrow> CronJob \<Rightarrow> CronJob mutation" where
  "patchFields env patch job =
     (job\<lparr>cj_description := (case cp_description patch of None \<Rightarrow> cj_description job | Some d \<Rightarrow> normalizeOptionalText d),
          cj_enabled := nullish (cp_enabled patch) (cj_enabled job),
          cj_deleteAfterRun := orelse (cp_deleteAfterRun patch) (cj_deleteAfterRun job),
          cj_schedule := (case cp_schedule patch of None \<Rightarrow> cj_schedule job | Some s \<Rightarrow> patchSchedule env (cj_schedule job) s),
          cj_sessionTarget := nullish (cp_sessionTarget patch) (cj_sessionTarget job),
          cj_wakeMode := nullish (cp_wakeMode patch) (cj_wakeMode job)\<rparr>, None)"

definition patchPayload :: "CronJobPatch \<Rightarrow> CronJob \<Rightarrow> CronJob mutation" where
  "patchPayload patch job = (case cp_payload patch of
     None \<Rightarrow> (job, None)
   | Some p \<Rightarrow> (case mergeCronPayload (cj_payload job) p of
         Inl e \<Rightarrow> (job, Some e) | Inr q \<Rightarrow> (job\<lparr>cj_payload := q\<rparr>, None)))"

definition patchLegacyDelivery :: "CronJobPatch \<Rightarrow> CronJob \<Rightarrow> CronJob" where
  "patchLegacyDelivery patch job = (case (cp_delivery patch, cp_payload patch) of
     (None, Some (AgentTurnPatch _ fs)) \<Rightarrow>
       (case buildLegacyDeliveryPatch fs of
          Some d \<Rightarrow> if cj_sessionTarget job = TargetIsolated \<and> \<not> is_systemEvent (cj_payload job)
                    then job\<lparr>cj_delivery := Some (mergeCronDelivery (cj_delivery job) d)\<rparr> else job
        | None \<Rightarrow> job)
   | _ \<Rightarrow> job)"

definition patchDelivery :: "CronJobPatch \<Rightarrow> CronJob \<Rightarrow> CronJob mutation" where
  "patchDelivery patch job =
     (let job = patchLegacyDelivery patch job;
          job = (case cp_delivery patch of
              None \<Rightarrow> job | Some d \<Rightarrow> job\<lparr>cj_delivery := Some (mergeCronDelivery (cj_delivery job) d)\<rparr>);
          job = (if cj_sessionTarget job = TargetMain \<and> Option.bind (cj_delivery job) dl_mode \<noteq> Some ''webhook''
                 then job\<lparr>cj_delivery := None\<rparr> else job)
      in (job\<lparr>cj_state := (case cp_state patch of None \<Rightarrow> cj_state job | Some p \<Rightarrow> mergeJobState (cj_state job) p),
              cj_agentId := (case cp_agentId patch of None \<Rightarrow> cj_agentId job | Some a \<Rightarrow> normalizeOptionalAgentId a),
              cj_sessionKey := (case cp_sessionKey patch of None \<Rightarrow> cj_sessionKey job | Some k \<Rightarrow> normalizeOptionalSessionKey k)\<rparr>, None))"

definition applyJobPatch :: "cron_env \<Rightarrow> CronJobPatch \<Rightarrow> CronJob \<Rightarrow> CronJob mutation" where
  "applyJobPatch env patch job =
     then_do (then_do (then_do (then_do (then_do (patchName patch job) (patchFields env patch)) (patchPayload patch)) (patchDelivery patch))
       (\<lambda>job. (job, assertSupportedJobSpec job))) (assertDeliverySupport env)"

subsection \<open>Where the output goes\<close>

datatype plan_source = FromDelivery | FromPayload

record CronDeliveryPlan =
  pl_mode :: string
  pl_channel :: "string option"
  pl_to :: "string option"
  pl_source :: plan_source
  pl_requested :: bool

definition normalizePlanChannel :: "string option \<Rightarrow> string option" where
  "normalizePlanChannel value = map_option to_lower (trimmedOrNone value)"

definition planMode :: "string option \<Rightarrow> string option" where
  "planMode rawMode = (case map_option (\<lambda>m. to_lower (trim m)) rawMode of
     None \<Rightarrow> None
   | Some m \<Rightarrow> if m = ''announce'' then Some ''announce'' else if m = ''webhook'' then Some ''webhook''
       else if m = ''none'' then Some ''none'' else if m = ''deliver'' then Some ''announce'' else None)"

definition resolveCronDeliveryPlan :: "CronJob \<Rightarrow> CronDeliveryPlan" where
  "resolveCronDeliveryPlan job =
     (let payload = (case cj_payload job of AgentTurn _ f \<Rightarrow> Some f | _ \<Rightarrow> None);
          delivery = cj_delivery job;
          payloadChannel = normalizePlanChannel (Option.bind payload tf_channel);
          payloadTo = trimmedOrNone (Option.bind payload tf_to);
          deliveryChannel = normalizePlanChannel (Option.bind delivery dl_channel);
          deliveryTo = trimmedOrNone (Option.bind delivery dl_to);
          channel = nullish (orelse deliveryChannel payloadChannel) ''last'';
          to = orelse deliveryTo payloadTo
      in case delivery of
           Some d \<Rightarrow>
             (let resolvedMode = nullish (planMode (dl_mode d)) ''announce'' in
              \<lparr>pl_mode = resolvedMode, pl_channel = (if resolvedMode = ''announce'' then Some channel else None), pl_to = to,
               pl_source = FromDelivery, pl_requested = (resolvedMode = ''announce'')\<rparr>)
         | None \<Rightarrow>
             (let deliver = Option.bind payload tf_deliver;
                  requested = (deliver = Some True \<or> deliver = None \<and> to \<noteq> None)
              in \<lparr>pl_mode = (if requested then ''announce'' else ''none''), pl_channel = Some channel, pl_to = to,
                  pl_source = FromPayload, pl_requested = requested\<rparr>))"

section \<open>What holds of jobs\<close>

subsection \<open>Next runs\<close>

text \<open>(C0) An enabled periodic job always has a next run: before its anchor it is the anchor; from then on
  it is the earliest whole number of periods after the anchor, at least one, that is not in the past. Anchors
  before 1970 count as 0 and periods below a millisecond as one millisecond.\<close>

theorem every_next_run_exact:
  assumes "cj_enabled job" and "cj_schedule job = EverySchedule e a"
    and "anchor = max 0 (nullish a (cj_createdAtMs job))" and "period = max 1 e"
  shows "\<exists>t. computeJobNextRunAtMs env job nowMs = Inr (Some t) \<and>
    (if nowMs < anchor then t = anchor
     else (\<exists>k \<ge> 1. t = anchor + k * period) \<and> nowMs \<le> t \<and>
          (\<forall>k \<ge> 1. nowMs \<le> anchor + k * period \<longrightarrow> t \<le> anchor + k * period))"
proof -
  have eq: "computeJobNextRunAtMs env job nowMs = Inr (Some (nextEveryRun e (Some anchor) nowMs))"
    using assms by (simp add: computeJobNextRunAtMs_def computeNextRunAtMs_def resolveEveryAnchorMs_def)
  have [simp]: "max 0 anchor = anchor" using assms(3) by simp
  show ?thesis
  proof (cases "nowMs < anchor")
    case True
    then show ?thesis using eq nextEveryRun_before [of nowMs anchor e] by simp
  next
    case False
    then have "max 0 anchor \<le> nowMs" by simp
    from nextEveryRun_after [OF this, of e] obtain k where "1 \<le> k"
      "nextEveryRun e (Some anchor) nowMs = anchor + k * period" "nowMs \<le> nextEveryRun e (Some anchor) nowMs"
      "\<And>k'. 1 \<le> k' \<Longrightarrow> nowMs \<le> anchor + k' * period \<Longrightarrow> nextEveryRun e (Some anchor) nowMs \<le> anchor + k' * period"
      unfolding assms(4) by auto
    then show ?thesis using eq False by auto
  qed
qed

lemma computeStaggered_exact:
  assumes c: "next_run fires (ce_nextRun env (trim expr) (resolveCronTimezone env tz))" and e: "trim expr \<noteq> []"
    and off: "off = resolveStableCronOffsetMs env jid (resolveCronStaggerMs env expr st)" and now: "0 \<le> nowMs"
  defines "slot \<equiv> \<lambda>t. fires (t - off) \<and> off < t"
  shows "computeStaggeredCronNextRunAtMs env jid (ExprSchedule expr tz st) nowMs = Inr (Some t) \<longleftrightarrow>
      slot t \<and> nowMs < t \<and> (\<forall>u. slot u \<and> nowMs < u \<longrightarrow> t \<le> u)" (is ?exact)
    and "computeStaggeredCronNextRunAtMs env jid (ExprSchedule expr tz st) nowMs = Inr None \<Longrightarrow> slot u \<Longrightarrow> u \<le> nowMs"
    and "computeStaggeredCronNextRunAtMs env jid (ExprSchedule expr tz st) nowMs \<noteq> Inl err"
proof -
  let ?run = "computeNextRunAtMs env (ExprSchedule expr tz st)"
  have r: "next_run fires ?run"
    by (rule next_run_cong [OF c]) (simp add: computeNextRunAtMs_def nextExprRun_eq [OF c e])
  have "0 \<le> off" using stable_offset_range(1) off by simp
  then consider (exact) "off = 0" | (shifted) "0 < off" by linarith
  then have *: "?exact \<and> (computeStaggeredCronNextRunAtMs env jid (ExprSchedule expr tz st) nowMs = Inr None \<longrightarrow> (\<forall>u. slot u \<longrightarrow> u \<le> nowMs)) \<and>
    (\<forall>err. computeStaggeredCronNextRunAtMs env jid (ExprSchedule expr tz st) nowMs \<noteq> Inl err)"
  proof cases
    case exact
    then have eq: "computeStaggeredCronNextRunAtMs env jid (ExprSchedule expr tz st) nowMs = ?run nowMs"
      using off by (simp add: computeStaggeredCronNextRunAtMs_def Let_def)
    show ?thesis
      unfolding eq slot_def exact using next_run.run_Some_iff [OF r, of nowMs t] next_run.run_ends [OF r, of nowMs]
        next_run.run_total [OF r, of nowMs] now by auto
  next
    case shifted
    then have eq: "computeStaggeredCronNextRunAtMs env jid (ExprSchedule expr tz st) nowMs =
        staggerLoop (Suc 3) ?run off nowMs (max 0 (nowMs - off))"
      using off by (simp add: computeStaggeredCronNextRunAtMs_def Let_def numeral_eq_Suc)
    show ?thesis
      unfolding eq slot_def using next_run.stagger_first [OF r shifted refl] next_run.stagger_ends [OF r _ shifted refl]
        next_run.stagger_total [OF r shifted] by blast
  qed
  show ?exact using * by blast
  show "computeStaggeredCronNextRunAtMs env jid (ExprSchedule expr tz st) nowMs = Inr None \<Longrightarrow> slot u \<Longrightarrow> u \<le> nowMs" using * by blast
  show "computeStaggeredCronNextRunAtMs env jid (ExprSchedule expr tz st) nowMs \<noteq> Inl err" using * by blast
qed

text \<open>Given an evaluator that returns the first firing instant after the time it is asked for, the next run of
  an enabled cron job is the first slot after now, where the slots are the firing instants shifted by the job's
  offset: no slot is skipped, none is repeated. The offset is fixed per job and below the stagger window.\<close>

theorem staggered_next_run_exact:
  assumes "cj_enabled job" and "cj_schedule job = ExprSchedule expr tz st"
    and c: "next_run fires (ce_nextRun env (trim expr) (resolveCronTimezone env tz))" and e: "trim expr \<noteq> []"
    and "off = resolveStableCronOffsetMs env (cj_id job) (resolveCronStaggerMs env expr st)" and "0 \<le> nowMs"
  shows "(computeJobNextRunAtMs env job nowMs = Inr (Some t) \<longleftrightarrow>
      fires (t - off) \<and> off < t \<and> nowMs < t \<and> (\<forall>u. fires (u - off) \<and> off < u \<and> nowMs < u \<longrightarrow> t \<le> u)) \<and>
    0 \<le> off \<and> off < max 1 (resolveCronStaggerMs env expr st)"
proof -
  let ?st = "computeStaggeredCronNextRunAtMs env (cj_id job) (cj_schedule job)"
  have later: "0 \<le> next_second nowMs" "nowMs < next_second nowMs" using next_second_after [of nowMs] assms(6) by auto
  note now = computeStaggered_exact(1,2) [OF c e assms(5) assms(6), of t, folded assms(2)]
  note after = computeStaggered_exact(1) [OF c e assms(5) later(1), of t, folded assms(2)]
  have "computeJobNextRunAtMs env job nowMs = Inr (Some t) \<longleftrightarrow> ?st nowMs = Inr (Some t)"
  proof (cases "?st nowMs = Inr None")
    case True
    then have "?st (next_second nowMs) \<noteq> Inr (Some t)" using now(2) after later(2) by fastforce
    then show ?thesis using True assms(1,2) by (simp add: computeJobNextRunAtMs_def)
  next
    case False
    then show ?thesis using assms(1,2) by (auto simp: computeJobNextRunAtMs_def split: sum.splits option.splits)
  qed
  then show ?thesis using now(1) stable_offset_range [of env "cj_id job" "resolveCronStaggerMs env expr st"] assms(5) by auto
qed

text \<open>A job that runs every minute from the epoch on, and an evaluator under which every expression fires on the hour.\<close>

definition sample_job :: CronJob where
  "sample_job = \<lparr>cj_id = ''j1'', cj_agentId = None, cj_sessionKey = None, cj_name = ''backup'', cj_description = None,
     cj_enabled = True, cj_deleteAfterRun = None, cj_createdAtMs = 0, cj_updatedAtMs = 0,
     cj_schedule = EverySchedule 60000 (Some 0), cj_sessionTarget = TargetMain, cj_wakeMode = WakeNow,
     cj_payload = SystemEvent ''run'', cj_delivery = None, cj_state = emptyJobState\<rparr>"

definition sample_env :: cron_env where
  "sample_env = \<lparr>ce_nextRun = (\<lambda>_ _ t. Inr (Some ((t div 3600000 + 1) * 3600000))), ce_timezone = ''UTC'',
     ce_dateParse = (\<lambda>_. None), ce_number = (\<lambda>_. None), ce_urlProtocol = (\<lambda>_. Some ''https:''), ce_digest32 = (\<lambda>_. 0)\<rparr>"

lemma periodic_next_run:
  fixes h :: int
  assumes h: "0 < h"
  shows "next_run (\<lambda>t. h dvd t) (\<lambda>t. Inr (Some ((t div h + 1) * h)))"
proof
  fix t n m :: int and e
  show "Inr (Some ((t div h + 1) * h)) \<noteq> Inl e" by simp
  have eq: "t div h * h = t - t mod h" by (simp add: minus_mod_eq_div_mult)
  show "h dvd n \<and> t < n" if "Inr (Some ((t div h + 1) * h)) = Inr (Some n)"
    using that eq pos_mod_bound [OF h, of t] by (auto simp: distrib_right)
  show "n \<le> m" if "Inr (Some ((t div h + 1) * h)) = Inr (Some n)" "h dvd m" "t < m"
  proof -
    from that(2) obtain q where q: "m = h * q" by (rule dvdE)
    have "t div h * h < q * h" using eq pos_mod_sign [OF h, of t] that(3) q by (simp add: mult.commute)
    then have "t div h + 1 \<le> q" using h by (simp add: mult_less_cancel_right)
    then have "(t div h + 1) * h \<le> q * h" using h by (simp add: mult_right_mono)
    then show ?thesis using that(1) q by (simp add: mult.commute)
  qed
  show "m \<le> t" if "Inr (Some ((t div h + 1) * h)) = Inr None" using that by simp
qed

theorem every_next_run_exact_witness:
  "\<exists>t. computeJobNextRunAtMs sample_env sample_job 150000 = Inr (Some t) \<and> 150000 \<le> t \<and> (\<exists>k \<ge> 1. t = 0 + k * 60000)"
  using every_next_run_exact [of sample_job 60000 "Some 0" 0 60000 sample_env 150000]
  by (simp add: sample_job_def) blast

theorem staggered_next_run_exact_witness:
  "computeJobNextRunAtMs sample_env (sample_job\<lparr>cj_schedule := ExprSchedule ''0 * * * *'' None None\<rparr>) 5000 = Inr (Some 3600000)"
proof -
  have t: "trim ''0 * * * *'' \<noteq> []" by code_simp
  have o: "0 = resolveStableCronOffsetMs sample_env (cj_id (sample_job\<lparr>cj_schedule := ExprSchedule ''0 * * * *'' None None\<rparr>))
      (resolveCronStaggerMs sample_env ''0 * * * *'' None)"
    by (simp add: resolveStableCronOffsetMs_def sample_env_def)
  have first: "3600000 \<le> u" if "3600000 dvd u" "0 < u" for u :: int
    using that by (rule zdvd_imp_le)
  show ?thesis
    using staggered_next_run_exact [OF _ _ _ t o, of None "\<lambda>t. 3600000 dvd t" 5000 3600000] periodic_next_run [of 3600000] first
    by (simp add: sample_job_def sample_env_def)
qed

subsection \<open>Properties of a job that bookkeeping cannot change\<close>

text \<open>
  The scheduler itself changes only three fields of a job: its state, when it was updated, and whether it is
  enabled, which it only ever takes back. What such changes keep survives every tick, recomputation and
  run; the lemmas of the locale say so, one per operation. It is interpreted below by the type invariant, by
  the kind of a job and by a job being disabled.
\<close>

locale job_property =
  fixes P :: "CronJob \<Rightarrow> bool"
  assumes bookkeeping: "P job \<Longrightarrow> (e \<Longrightarrow> cj_enabled job) \<Longrightarrow> P (job\<lparr>cj_enabled := e, cj_updatedAtMs := u, cj_state := st\<rparr>)"
begin

lemma set_state: "P job \<Longrightarrow> P (job\<lparr>cj_state := st\<rparr>)"
  using bookkeeping [where job = job and e = "cj_enabled job" and u = "cj_updatedAtMs job" and st = st] by simp

lemma set_disabled: "P job \<Longrightarrow> P (job\<lparr>cj_enabled := False\<rparr>)"
  using bookkeeping [where job = job and e = False and u = "cj_updatedAtMs job" and st = "cj_state job"] by simp

lemma set_updated: "P job \<Longrightarrow> P (job\<lparr>cj_updatedAtMs := u\<rparr>)"
  using bookkeeping [where job = job and e = "cj_enabled job" and u = u and st = "cj_state job"] by simp

lemmas changes = set_state set_disabled set_updated

lemma tick_state: "P job \<Longrightarrow> P (fst (normalizeJobTickState now job))"
  by (auto simp: normalizeJobTickState_def Let_def intro: changes split: option.splits)

lemma schedule_error: "P job \<Longrightarrow> P (recordScheduleComputeError job err)"
  by (simp add: recordScheduleComputeError_def Let_def changes)

lemma recompute_job: "P job \<Longrightarrow> P (fst (recomputeJobNextRunAtMs env now job))"
  by (auto simp: recomputeJobNextRunAtMs_def Let_def intro: changes schedule_error split: sum.splits)

lemma walk_job: "(\<And>j. P j \<Longrightarrow> P (fst (fn now j))) \<Longrightarrow> P job \<Longrightarrow> P (fst (walkJob fn now job))"
  using tick_state [of job now] by (simp add: walkJob_def Let_def case_prod_beta)

lemma walk_jobs: "(\<And>j. P j \<Longrightarrow> P (fst (fn now j))) \<Longrightarrow> list_all P jobs \<Longrightarrow> list_all P (fst (walkSchedulableJobs fn now jobs))"
  using walk_job by (auto simp: walkSchedulableJobs_def list_all_iff)

lemma recompute_jobs: "list_all P jobs \<Longrightarrow> list_all P (fst (recomputeNextRuns env now jobs))"
  unfolding recomputeNextRuns_def by (rule walk_jobs) (auto intro: recompute_job split: option.splits)

lemma maintain_jobs: "list_all P jobs \<Longrightarrow> list_all P (fst (recomputeNextRunsForMaintenance env now jobs))"
  unfolding recomputeNextRunsForMaintenance_def by (rule walk_jobs) (auto intro: recompute_job)

end

subsection \<open>Supported jobs\<close>

definition webhook_url :: "cron_env \<Rightarrow> string \<Rightarrow> bool" where
  "webhook_url env u \<longleftrightarrow> u \<noteq> [] \<and> trim u = u \<and> (ce_urlProtocol env u = Some ''http:'' \<or> ce_urlProtocol env u = Some ''https:'')"

text \<open>
  What the dispatcher relies on: jobs of the main session inject an event, isolated jobs run an agent turn;
  channel delivery belongs to isolated jobs; a webhook has a trimmed http or https URL.
\<close>

definition supported_job :: "cron_env \<Rightarrow> CronJob \<Rightarrow> bool" where
  "supported_job env job \<longleftrightarrow>
     (cj_sessionTarget job = TargetMain \<longleftrightarrow> is_systemEvent (cj_payload job)) \<and>
     (case cj_delivery job of
        None \<Rightarrow> True
      | Some d \<Rightarrow> if dl_mode d = Some ''webhook''
          then (case dl_to d of None \<Rightarrow> False | Some u \<Rightarrow> webhook_url env u)
          else cj_sessionTarget job = TargetIsolated)"

interpretation supported: job_property "supported_job env"
  by unfold_locales (auto simp: supported_job_def split: option.splits)

interpretation one_shot: job_property "\<lambda>job. cj_id job = i \<longrightarrow> is_at (cj_schedule job)"
  by unfold_locales simp

interpretation retired: job_property "\<lambda>job. cj_id job = i \<longrightarrow> \<not> cj_enabled job"
  by unfold_locales auto

lemma assertSupportedJobSpec_iff:
  "assertSupportedJobSpec job = None \<longleftrightarrow> (cj_sessionTarget job = TargetMain \<longleftrightarrow> is_systemEvent (cj_payload job))"
  by (cases "cj_sessionTarget job") (auto simp: assertSupportedJobSpec_def)

lemma normalizeHttpWebhookUrl_valid:
  "normalizeHttpWebhookUrl env v = Some u \<Longrightarrow> webhook_url env u"
  by (auto simp: webhook_url_def normalizeHttpWebhookUrl_def isAllowedWebhookProtocol_def Let_def split: option.splits if_splits)

lemma asserted_supported:
  assumes "assertSupportedJobSpec job = None" "assertDeliverySupport env job = (job', None)"
  shows "supported_job env job'"
  using assms normalizeHttpWebhookUrl_valid
  by (auto simp: assertSupportedJobSpec_iff assertDeliverySupport_def supported_job_def split: option.splits if_splits)

lemma createJob_supported: "createJob env uuid now input = Inr job \<Longrightarrow> supported_job env job"
  unfolding createJob_def Let_def
  by (clarsimp split: sum.splits option.splits prod.splits; rule supported.set_state, erule (1) asserted_supported)

lemma applyJobPatch_supported: "applyJobPatch env patch job = (job', None) \<Longrightarrow> supported_job env job'"
  using asserted_supported by (auto simp: applyJobPatch_def then_do_def split: option.splits)

text \<open>Neither bookkeeping nor a patch changes the id of a job.\<close>

interpretation named: job_property "\<lambda>job. cj_id job = i"
  by unfold_locales simp

lemma walkSchedulableJobs_ids:
  assumes "\<And>j. cj_id (fst (fn now j)) = cj_id j"
  shows "map cj_id (fst (walkSchedulableJobs fn now jobs)) = map cj_id jobs"
  using named.walk_job [of _ fn now] assms by (simp add: walkSchedulableJobs_def)

lemma recompute_ids [simp]:
  "map cj_id (fst (recomputeNextRuns env now jobs)) = map cj_id jobs"
  "map cj_id (fst (recomputeNextRunsForMaintenance env now jobs)) = map cj_id jobs"
  unfolding recomputeNextRuns_def recomputeNextRunsForMaintenance_def
  by (rule walkSchedulableJobs_ids, auto intro: named.recompute_job split: option.splits)+

lemma createJob_id: "createJob env uuid now input = Inr job \<Longrightarrow> cj_id job = uuid"
  unfolding createJob_def Let_def
  by (clarsimp simp: assertDeliverySupport_def split: sum.splits option.splits prod.splits if_splits)

lemma patchLegacyDelivery_id [simp]: "cj_id (patchLegacyDelivery patch job) = cj_id job"
  by (simp add: patchLegacyDelivery_def split: option.splits CronPayloadPatch.splits)

lemma applyJobPatch_id [simp]: "cj_id (fst (applyJobPatch env patch job)) = cj_id job"
proof -
  have then_id: "cj_id (fst (then_do r f)) = cj_id job" if "cj_id (fst r) = cj_id job" "\<And>j. cj_id (fst (f j)) = cj_id j"
    for r :: "CronJob mutation" and f using that by (simp add: then_do_def split: option.splits)
  show ?thesis unfolding applyJobPatch_def
    by (intro then_id) (auto simp: patchName_def patchFields_def patchPayload_def patchDelivery_def assertDeliverySupport_def Let_def
        split: option.splits sum.splits)
qed

end
