(* ===== verification/Cron_Service.thy ===== *)
theory Cron_Service
  imports Cron_Jobs Promise_Ledger
begin

section \<open>The cron service (cron/service/timer.ts, cron/service/ops.ts, cron/service/store.ts)\<close>

text \<open>
  The scheduler: the store of jobs in memory and in its file, one timer, the tick that runs due jobs, and
  the operations of the gateway (add, update, remove, run, list, status, start, stop, wake).

  Sections under the lock of \<open>locked.ts\<close> are atomic. A tick is not: it takes the lock to collect the due jobs, releases it
  while they run, and takes it again to apply their results; so it is four operations (\<open>cronTimerTick\<close>,
  \<open>dueJobStart\<close>, \<open>dueJobEnd\<close>, \<open>tickApply\<close>) and any other operation may come in between. The object of a due job
  is shared with the store, hence a change of a job also reaches the list of due jobs. The clock is read once per section;
  each operation takes the time it read. What others answer during a run (the heartbeat, the isolated
  agent) is an argument of the operation that ends the run. Writes of the file do not fail;
  reading it may, when its text is not JSON. Log messages are left out.
\<close>

subsection \<open>Data\<close>

record CronUsageSummary =
  us_input_tokens :: "int option"
  us_output_tokens :: "int option"
  us_total_tokens :: "int option"
  us_cache_read_tokens :: "int option"
  us_cache_write_tokens :: "int option"

record CronRunOutcome =
  co_status :: CronRunStatus
  co_error :: "string option"
  co_summary :: "string option"
  co_sessionId :: "string option"
  co_sessionKey :: "string option"
  co_model :: "string option"
  co_provider :: "string option"
  co_usage :: "CronUsageSummary option"

datatype CronAction = Added | Updated | Removed | Started | Finished

record CronEvent =
  ev_jobId :: string
  ev_action :: CronAction
  ev_runAtMs :: "int option"
  ev_durationMs :: "int option"
  ev_outcome :: "CronRunOutcome option"
  ev_nextRunAtMs :: "int option"

datatype cron_effect =
    Emit CronEvent
  | EnqueueSystemEvent string "string option" "string option" "string option"
  | RequestHeartbeatNow string "string option" "string option"

datatype HeartbeatRunResult = HbRan | HbSkipped string | HbFailed string

record isolated_result =
  ir_outcome :: CronRunOutcome
  ir_delivered :: "bool option"

text \<open>
  The answers during one run: the time at which waiting for the heartbeat began, each answer of
  \<open>runHeartbeatOnce\<close> with the time it arrived (\<open>Inl\<close>: it threw), and the answer of the isolated agent.
\<close>

record core_answers =
  ca_waitStartedAt :: int
  ca_heartbeats :: "((string + HeartbeatRunResult) \<times> int) list"
  ca_isolated :: "string + isolated_result"

record cron_deps =
  cd_cronEnabled :: bool
  cd_hasRunHeartbeatOnce :: bool
  cd_wakeNowHeartbeatBusyMaxWaitMs :: "int option"
  cd_storePath :: string
  cd_rewrites :: "CronJob list \<Rightarrow> bool"

record TimedCronRunOutcome =
  to_jobId :: string
  to_outcome :: CronRunOutcome
  to_startedAt :: int
  to_endedAt :: int

text \<open>
  \<open>cs_file\<close> is the store file (\<open>Inl\<close>: it cannot be parsed), \<open>cs_timer\<close> the time at which the armed timer fires;
  \<open>cs_due\<close>, \<open>cs_executing\<close> and \<open>cs_results\<close> are the local variables of a tick in progress. \<open>cd_rewrites\<close> of
  the dependencies tells whether the loader brought a file into the current format, in which case it saves it.
\<close>

record cron_state =
  cs_store :: "CronJob list option"
  cs_file :: "string + CronJob list"
  cs_timer :: "int option"
  cs_running :: bool
  cs_warnedDisabled :: bool
  cs_due :: "CronJob list"
  cs_executing :: "(CronJob \<times> int) option"
  cs_results :: "TimedCronRunOutcome list"

definition createCronServiceState :: "(string + CronJob list) \<Rightarrow> cron_state" where
  "createCronServiceState file = \<lparr>cs_store = None, cs_file = file, cs_timer = None, cs_running = False,
     cs_warnedDisabled = False, cs_due = [], cs_executing = None, cs_results = []\<rparr>"

definition cs_jobs :: "cron_state \<Rightarrow> CronJob list" where
  "cs_jobs s = nullish (cs_store s) []"

definition findJob :: "string \<Rightarrow> CronJob list \<Rightarrow> CronJob option" where
  "findJob i jobs = find (\<lambda>j. cj_id j = i) jobs"

text \<open>A change of the job object found under an id.\<close>

fun changeJob :: "string \<Rightarrow> (CronJob \<Rightarrow> CronJob) \<Rightarrow> CronJob list \<Rightarrow> CronJob list" where
  "changeJob i f [] = []"
| "changeJob i f (j # js) = (if cj_id j = i then f j # js else j # changeJob i f js)"

definition setJobState :: "(CronJobState \<Rightarrow> CronJobState) \<Rightarrow> CronJob \<Rightarrow> CronJob" where
  "setJobState f job = job\<lparr>cj_state := f (cj_state job)\<rparr>"

subsection \<open>Store\<close>

definition persist :: "cron_state \<Rightarrow> cron_state" where
  "persist s = (case cs_store s of None \<Rightarrow> s | Some jobs \<Rightarrow> s\<lparr>cs_file := Inr jobs\<rparr>)"

text \<open>The second result is the error \<open>ensureLoaded\<close> throws.\<close>

definition ensureLoaded :: "cron_env \<Rightarrow> cron_deps \<Rightarrow> bool \<Rightarrow> bool \<Rightarrow> int \<Rightarrow> cron_state \<Rightarrow> cron_state mutation" where
  "ensureLoaded env deps forceReload skipRecompute now s =
     (if cs_store s \<noteq> None \<and> \<not> forceReload then (s, None)
      else (case cs_file s of
          Inl e \<Rightarrow> (s, Some e)
        | Inr jobs \<Rightarrow>
            (let s = s\<lparr>cs_store := Some (if skipRecompute then jobs else fst (recomputeNextRuns env now jobs))\<rparr>
             in (if cd_rewrites deps jobs then persist s else s, None))))"

definition warnIfDisabled :: "cron_deps \<Rightarrow> cron_state \<Rightarrow> cron_state" where
  "warnIfDisabled deps s = (if cd_cronEnabled deps \<or> cs_warnedDisabled s then s else s\<lparr>cs_warnedDisabled := True\<rparr>)"

subsection \<open>The result of a run\<close>

definition MAX_TIMER_DELAY_MS :: int where "MAX_TIMER_DELAY_MS = 60000"
definition MIN_REFIRE_GAP_MS :: int where "MIN_REFIRE_GAP_MS = 2000"
definition DEFAULT_JOB_TIMEOUT_MS :: int where "DEFAULT_JOB_TIMEOUT_MS = 10 * 60000"

definition ERROR_BACKOFF_SCHEDULE_MS :: "int list" where
  "ERROR_BACKOFF_SCHEDULE_MS = [30000, 60000, 5 * 60000, 15 * 60000, 60 * 60000]"

definition errorBackoffMs :: "int \<Rightarrow> int" where
  "errorBackoffMs consecutiveErrors =
     ERROR_BACKOFF_SCHEDULE_MS ! nat (max 0 (min (consecutiveErrors - 1) (int (length ERROR_BACKOFF_SCHEDULE_MS) - 1)))"

definition is_expr :: "CronSchedule \<Rightarrow> bool" where
  "is_expr s = (case s of ExprSchedule _ _ _ \<Rightarrow> True | _ \<Rightarrow> False)"

definition setNext :: "int option \<Rightarrow> CronJob \<Rightarrow> CronJob" where
  "setNext t = setJobState (\<lambda>st. st\<lparr>js_nextRunAtMs := t\<rparr>)"

definition recordResult :: "CronRunStatus \<Rightarrow> string option \<Rightarrow> int \<Rightarrow> int \<Rightarrow> CronJob \<Rightarrow> CronJob" where
  "recordResult status error startedAt endedAt job =
     (setJobState (\<lambda>st. st\<lparr>js_runningAtMs := None, js_lastRunAtMs := Some startedAt, js_lastStatus := Some status,
          js_lastDurationMs := Some (max 0 (endedAt - startedAt)), js_lastError := error,
          js_consecutiveErrors := Some (if status = StError then nullish (js_consecutiveErrors st) 0 + 1 else 0)\<rparr>) job)
       \<lparr>cj_updatedAtMs := endedAt\<rparr>"

text \<open>\<open>Inl\<close>: computing the next run threw. Otherwise the result says whether the job is to be deleted.\<close>

definition applyJobResult ::
  "cron_env \<Rightarrow> CronRunStatus \<Rightarrow> string option \<Rightarrow> int \<Rightarrow> int \<Rightarrow> CronJob \<Rightarrow> CronJob \<times> (string + bool)" where
  "applyJobResult env status error startedAt endedAt job =
     (let job = recordResult status error startedAt endedAt job;
          shouldDelete = (is_at (cj_schedule job) \<and> cj_deleteAfterRun job = Some True \<and> status = StOk)
      in if shouldDelete then (job, Inr True)
         else if is_at (cj_schedule job) then (setNext None (job\<lparr>cj_enabled := False\<rparr>), Inr False)
         else if status = StError \<and> cj_enabled job then
           (let backoff = errorBackoffMs (nullish (js_consecutiveErrors (cj_state job)) 1)
            in case computeJobNextRunAtMs env job endedAt of
                 Inl e \<Rightarrow> (job, Inl e)
               | Inr normalNext \<Rightarrow>
                   (let backoffNext = endedAt + backoff
                    in (setNext (Some (case normalNext of None \<Rightarrow> backoffNext | Some n \<Rightarrow> max n backoffNext)) job, Inr False)))
         else if cj_enabled job then
           (case computeJobNextRunAtMs env job endedAt of
                Inl e \<Rightarrow> (job, Inl e)
              | Inr naturalNext \<Rightarrow>
                  if is_expr (cj_schedule job)
                  then (let minNext = endedAt + MIN_REFIRE_GAP_MS
                        in (setNext (Some (case naturalNext of None \<Rightarrow> minNext | Some n \<Rightarrow> max n minNext)) job, Inr False))
                  else (setNext naturalNext job, Inr False))
         else (setNext None job, Inr False))"

subsection \<open>Timer\<close>

definition armTimer :: "cron_deps \<Rightarrow> int \<Rightarrow> cron_state \<Rightarrow> cron_state" where
  "armTimer deps now s =
     s\<lparr>cs_timer :=
        (if \<not> cd_cronEnabled deps then None
         else (case nextWakeAtMs (cs_jobs s) of
             None \<Rightarrow> None
           | Some nextAt \<Rightarrow>
               if nextAt = 0 then None
               else Some (now + min (max (nextAt - now) 0) MAX_TIMER_DELAY_MS)))\<rparr>"

definition stopTimer :: "cron_state \<Rightarrow> cron_state" where
  "stopTimer s = s\<lparr>cs_timer := None\<rparr>"

definition isRunnableJob :: "string list \<Rightarrow> bool \<Rightarrow> int \<Rightarrow> CronJob \<Rightarrow> bool" where
  "isRunnableJob skipJobIds skipAtIfAlreadyRan nowMs job =
     (if \<not> cj_enabled job then False
      else if cj_id job \<in> set skipJobIds then False
      else if js_runningAtMs (cj_state job) \<noteq> None then False
      else if skipAtIfAlreadyRan \<and> is_at (cj_schedule job) \<and> js_lastStatus (cj_state job) \<noteq> None then False
      else (case js_nextRunAtMs (cj_state job) of None \<Rightarrow> False | Some next \<Rightarrow> nowMs \<ge> next))"

definition collectRunnableJobs :: "string list \<Rightarrow> bool \<Rightarrow> int \<Rightarrow> cron_state \<Rightarrow> CronJob list" where
  "collectRunnableJobs skipJobIds skipAtIfAlreadyRan nowMs s =
     filter (isRunnableJob skipJobIds skipAtIfAlreadyRan nowMs) (cs_jobs s)"

definition findDueJobs :: "int \<Rightarrow> cron_state \<Rightarrow> CronJob list" where
  "findDueJobs now s = collectRunnableJobs [] False now s"

subsection \<open>Events\<close>

definition plainEvent :: "string \<Rightarrow> CronAction \<Rightarrow> CronEvent" where
  "plainEvent jobId action = \<lparr>ev_jobId = jobId, ev_action = action, ev_runAtMs = None, ev_durationMs = None,
     ev_outcome = None, ev_nextRunAtMs = None\<rparr>"

definition emitStarted :: "string \<Rightarrow> int \<Rightarrow> cron_effect" where
  "emitStarted jobId startedAt = Emit ((plainEvent jobId Started)\<lparr>ev_runAtMs := Some startedAt\<rparr>)"

definition emitJobFinished :: "CronJob \<Rightarrow> CronRunOutcome \<Rightarrow> int \<Rightarrow> cron_effect" where
  "emitJobFinished job result runAtMs = Emit ((plainEvent (cj_id job) Finished)\<lparr>ev_runAtMs := Some runAtMs,
     ev_durationMs := js_lastDurationMs (cj_state job), ev_outcome := Some result,
     ev_nextRunAtMs := js_nextRunAtMs (cj_state job)\<rparr>)"

subsection \<open>Running one job\<close>

definition plainOutcome :: "CronRunStatus \<Rightarrow> string option \<Rightarrow> string option \<Rightarrow> CronRunOutcome" where
  "plainOutcome status error summary = \<lparr>co_status = status, co_error = error, co_summary = summary, co_sessionId = None,
     co_sessionKey = None, co_model = None, co_provider = None, co_usage = None\<rparr>"

definition cronReason :: "CronJob \<Rightarrow> string" where
  "cronReason job = ''cron:'' @ cj_id job"

definition requestHeartbeat :: "CronJob \<Rightarrow> cron_effect" where
  "requestHeartbeat job = RequestHeartbeatNow (cronReason job) (cj_agentId job) (cj_sessionKey job)"

definition heartbeatOutcome :: "string \<Rightarrow> HeartbeatRunResult \<Rightarrow> CronRunOutcome" where
  "heartbeatOutcome text r = (case r of
     HbRan \<Rightarrow> plainOutcome StOk None (Some text)
   | HbSkipped reason \<Rightarrow> plainOutcome StSkipped (Some reason) (Some text)
   | HbFailed reason \<Rightarrow> plainOutcome StError (Some reason) (Some text))"

text \<open>The retry loop of \<open>wakeMode=now\<close>. \<open>None\<close>: it is still waiting for the next answer.\<close>

fun heartbeatLoop :: "CronJob \<Rightarrow> string \<Rightarrow> int \<Rightarrow> int \<Rightarrow> ((string + HeartbeatRunResult) \<times> int) list \<Rightarrow>
    (cron_effect list \<times> (string + CronRunOutcome)) option" where
  "heartbeatLoop job text maxWaitMs waitStartedAt [] = None"
| "heartbeatLoop job text maxWaitMs waitStartedAt ((answer, now) # rest) = (case answer of
     Inl e \<Rightarrow> Some ([], Inl e)
   | Inr r \<Rightarrow>
       if r \<noteq> HbSkipped ''requests-in-flight'' then Some ([], Inr (heartbeatOutcome text r))
       else if now - waitStartedAt > maxWaitMs
       then Some ([requestHeartbeat job], Inr (plainOutcome StOk None (Some text)))
       else heartbeatLoop job text maxWaitMs waitStartedAt rest)"

definition executeMain :: "cron_deps \<Rightarrow> CronJob \<Rightarrow> core_answers \<Rightarrow> (cron_effect list \<times> (string + CronRunOutcome)) option" where
  "executeMain deps job answers = (case resolveJobPayloadTextForMain job of
     None \<Rightarrow> Some ([], Inr (plainOutcome StSkipped
       (Some (if is_systemEvent (cj_payload job) then ''main job requires non-empty systemEvent text''
              else ''main job requires payload.kind=\"systemEvent\"'')) None))
   | Some text \<Rightarrow>
       (let enqueue = EnqueueSystemEvent text (cj_agentId job) (cj_sessionKey job) (Some (cronReason job)) in
        if cj_wakeMode job = WakeNow \<and> cd_hasRunHeartbeatOnce deps
        then map_option (\<lambda>(effs, r). (enqueue # effs, r))
          (heartbeatLoop job text (nullish (cd_wakeNowHeartbeatBusyMaxWaitMs deps) (2 * 60000))
             (ca_waitStartedAt answers) (ca_heartbeats answers))
        else Some ([enqueue, requestHeartbeat job], Inr (plainOutcome StOk None (Some text)))))"

definition executeIsolated :: "CronJob \<Rightarrow> core_answers \<Rightarrow> cron_effect list \<times> (string + CronRunOutcome)" where
  "executeIsolated job answers = (case ca_isolated answers of
     Inl e \<Rightarrow> ([], Inl e)
   | Inr res \<Rightarrow>
       (let summaryText = trim (nullish (co_summary (ir_outcome res)) []);
            label = (if co_status (ir_outcome res) = StError then ''Cron (error): '' else ''Cron: '') @ summaryText;
            effs = (if summaryText \<noteq> [] \<and> pl_requested (resolveCronDeliveryPlan job) \<and> ir_delivered res \<noteq> Some True
                    then EnqueueSystemEvent label (cj_agentId job) (cj_sessionKey job) (Some (cronReason job)) #
                         (if cj_wakeMode job = WakeNow then [requestHeartbeat job] else [])
                    else [])
        in (effs, Inr (ir_outcome res))))"

definition executeJobCore :: "cron_deps \<Rightarrow> CronJob \<Rightarrow> core_answers \<Rightarrow> (cron_effect list \<times> (string + CronRunOutcome)) option" where
  "executeJobCore deps job answers =
     (if cj_sessionTarget job = TargetMain then executeMain deps job answers
      else if is_systemEvent (cj_payload job)
      then Some ([], Inr (plainOutcome StSkipped (Some ''isolated job requires payload.kind=agentTurn'') None))
      else Some (executeIsolated job answers))"

text \<open>A thrown error becomes an outcome; the text of an error is \<open>String(err)\<close>.\<close>

definition settleCore :: "string + CronRunOutcome \<Rightarrow> CronRunOutcome" where
  "settleCore r = (case r of Inl e \<Rightarrow> plainOutcome StError (Some e) None | Inr out \<Rightarrow> out)"

definition jobTimeoutMs :: "CronJob \<Rightarrow> int option" where
  "jobTimeoutMs job = (case cj_payload job of
     AgentTurn _ f \<Rightarrow> (case tf_timeoutSeconds f of
         Some t \<Rightarrow> if t * 1000 \<le> 0 then None else Some (t * 1000)
       | None \<Rightarrow> Some DEFAULT_JOB_TIMEOUT_MS)
   | SystemEvent _ \<Rightarrow> Some DEFAULT_JOB_TIMEOUT_MS)"

text \<open>A change of a job object reaches the store and the lists of the tick that share it.\<close>

definition changeJobs :: "string \<Rightarrow> (CronJob \<Rightarrow> CronJob) \<Rightarrow> cron_state \<Rightarrow> cron_state" where
  "changeJobs i f s = s\<lparr>cs_store := map_option (changeJob i f) (cs_store s), cs_due := changeJob i f (cs_due s),
     cs_executing := map_option (\<lambda>(j, t). (if cj_id j = i then f j else j, t)) (cs_executing s)\<rparr>"

text \<open>The end of a run, the same for \<open>executeJob\<close> and for the results of a tick.\<close>

definition finishJob :: "cron_env \<Rightarrow> string \<Rightarrow> CronRunOutcome \<Rightarrow> int \<Rightarrow> int \<Rightarrow> cron_state \<Rightarrow>
    cron_state \<times> cron_effect list \<times> string option" where
  "finishJob env jobId out startedAt endedAt s = (case findJob jobId (cs_jobs s) of
     None \<Rightarrow> (s, [], None)
   | Some job \<Rightarrow> (case applyJobResult env (co_status out) (co_error out) startedAt endedAt job of
         (job', Inl e) \<Rightarrow> (changeJobs jobId (\<lambda>_. job') s, [], Some e)
       | (job', Inr shouldDelete) \<Rightarrow>
           (let s = changeJobs jobId (\<lambda>_. job') s; done = emitJobFinished job' out startedAt in
            if shouldDelete
            then (s\<lparr>cs_store := map_option (filter (\<lambda>j. cj_id j \<noteq> jobId)) (cs_store s)\<rparr>,
                  [done, Emit (plainEvent jobId Removed)], None)
            else (s, [done], None))))"

text \<open>\<open>None\<close>: the run has not ended. The last result is the error of \<open>applyJobResult\<close>, which \<open>executeJob\<close> passes on.\<close>

definition executeJob :: "cron_env \<Rightarrow> cron_deps \<Rightarrow> string \<Rightarrow> int \<Rightarrow> core_answers \<Rightarrow> int \<Rightarrow> cron_state \<Rightarrow>
    (cron_state \<times> cron_effect list \<times> string option) option" where
  "executeJob env deps jobId startedAt answers endedAt s =
     (let s = changeJobs jobId (setJobState (\<lambda>st. st\<lparr>js_runningAtMs := Some startedAt, js_lastError := None\<rparr>)) s in
      case findJob jobId (cs_jobs s) of
        None \<Rightarrow> None
      | Some job \<Rightarrow> (case executeJobCore deps job answers of
            None \<Rightarrow> None
          | Some (effs, r) \<Rightarrow>
              (let (s, effs', err) = finishJob env jobId (settleCore r) startedAt endedAt s
               in Some (s, emitStarted jobId startedAt # effs @ effs', err))))"

subsection \<open>The tick\<close>

definition finishTick :: "cron_deps \<Rightarrow> int \<Rightarrow> cron_state \<Rightarrow> cron_state" where
  "finishTick deps now s =
     armTimer deps now (s\<lparr>cs_running := False, cs_due := [], cs_executing := None, cs_results := []\<rparr>)"

definition markDue :: "int \<Rightarrow> CronJob \<Rightarrow> CronJob" where
  "markDue now = setJobState (\<lambda>st. st\<lparr>js_runningAtMs := Some now, js_lastError := None\<rparr>)"

definition maintain :: "cron_env \<Rightarrow> int \<Rightarrow> cron_state \<Rightarrow> cron_state \<times> bool" where
  "maintain env now s = (case cs_store s of
     None \<Rightarrow> (s, False)
   | Some jobs \<Rightarrow> (let (jobs, changed) = recomputeNextRunsForMaintenance env now jobs in (s\<lparr>cs_store := Some jobs\<rparr>, changed)))"

definition maintainAndPersist :: "cron_env \<Rightarrow> int \<Rightarrow> cron_state \<Rightarrow> cron_state" where
  "maintainAndPersist env now s = (let (s, changed) = maintain env now s in if changed then persist s else s)"

definition cronTimerTick :: "cron_env \<Rightarrow> cron_deps \<Rightarrow> int \<Rightarrow> cron_state \<Rightarrow> cron_state" where
  "cronTimerTick env deps now s =
     (if cs_running s then s\<lparr>cs_timer := Some (now + MAX_TIMER_DELAY_MS)\<rparr>
      else (case ensureLoaded env deps True True now (s\<lparr>cs_running := True\<rparr>) of
          (s, Some e) \<Rightarrow> finishTick deps now s
        | (s, None) \<Rightarrow>
            (let due = findDueJobs now s in
             if due = [] then maintainAndPersist env now s
             else persist (s\<lparr>cs_store := map_option (map (\<lambda>j. if isRunnableJob [] False now j then markDue now j else j)) (cs_store s),
                             cs_due := map (markDue now) due\<rparr>))))"

definition dueJobStart :: "int \<Rightarrow> cron_state \<Rightarrow> cron_state \<times> cron_effect list" where
  "dueJobStart startedAt s = (case (cs_running s, cs_executing s, cs_due s) of
     (True, None, job # rest) \<Rightarrow>
       (changeJobs (cj_id job) (setJobState (\<lambda>st. st\<lparr>js_runningAtMs := Some startedAt\<rparr>))
          (s\<lparr>cs_due := rest, cs_executing := Some (job, startedAt)\<rparr>), [emitStarted (cj_id job) startedAt])
   | _ \<Rightarrow> (s, []))"

definition pushResult :: "CronJob \<Rightarrow> CronRunOutcome \<Rightarrow> int \<Rightarrow> int \<Rightarrow> cron_state \<Rightarrow> cron_state" where
  "pushResult job out startedAt endedAt s = s\<lparr>cs_executing := None, cs_results := cs_results s @
     [\<lparr>to_jobId = cj_id job, to_outcome = out, to_startedAt = startedAt, to_endedAt = endedAt\<rparr>]\<rparr>"

text \<open>\<open>answers = None\<close>: the timeout of the run fired first.\<close>

definition dueJobEnd :: "cron_deps \<Rightarrow> core_answers option \<Rightarrow> int \<Rightarrow> cron_state \<Rightarrow> cron_state \<times> cron_effect list" where
  "dueJobEnd deps answers endedAt s = (case cs_executing s of
     None \<Rightarrow> (s, [])
   | Some (job, startedAt) \<Rightarrow> (case answers of
         None \<Rightarrow> (case jobTimeoutMs job of
             Some t \<Rightarrow> if endedAt - startedAt \<ge> t
               then (pushResult job (settleCore (Inl ''Error: cron: job execution timed out'')) startedAt endedAt s, [])
               else (s, [])
           | None \<Rightarrow> (s, []))
       | Some a \<Rightarrow> (case executeJobCore deps job a of
             None \<Rightarrow> (s, [])
           | Some (effs, r) \<Rightarrow> (pushResult job (settleCore r) startedAt endedAt s, effs))))"

fun applyResults :: "cron_env \<Rightarrow> TimedCronRunOutcome list \<Rightarrow> cron_state \<Rightarrow> cron_state \<times> cron_effect list \<times> string option" where
  "applyResults env [] s = (s, [], None)"
| "applyResults env (r # rs) s =
     (case finishJob env (to_jobId r) (to_outcome r) (to_startedAt r) (to_endedAt r) s of
        (s, effs, Some e) \<Rightarrow> (s, effs, Some e)
      | (s, effs, None) \<Rightarrow> (let (s, effs', err) = applyResults env rs s in (s, effs @ effs', err)))"

definition tickApply :: "cron_env \<Rightarrow> cron_deps \<Rightarrow> int \<Rightarrow> cron_state \<Rightarrow> cron_state \<times> cron_effect list" where
  "tickApply env deps now s =
     (if \<not> cs_running s \<or> cs_due s \<noteq> [] \<or> cs_executing s \<noteq> None then (s, [])
      else if cs_results s = [] then (finishTick deps now s, [])
      else (case ensureLoaded env deps True True now s of
          (s, Some e) \<Rightarrow> (finishTick deps now s, [])
        | (s, None) \<Rightarrow> (case applyResults env (cs_results s) s of
              (s, effs, Some e) \<Rightarrow> (finishTick deps now s, effs)
            | (s, effs, None) \<Rightarrow> (finishTick deps now (persist (fst (maintain env now s))), effs))))"

definition timerFires :: "cron_env \<Rightarrow> cron_deps \<Rightarrow> int \<Rightarrow> cron_state \<Rightarrow> cron_state" where
  "timerFires env deps now s = (case cs_timer s of
     Some t \<Rightarrow> if t \<le> now then cronTimerTick env deps now (s\<lparr>cs_timer := None\<rparr>) else s
   | None \<Rightarrow> s)"

subsection \<open>Operations\<close>

datatype cron_reply =
    RDone | RThrew string | RPending
  | RStatus bool string nat "int option" | RJobs "CronJob list" | RJob CronJob
  | RRemoved bool bool | RRan | RNotDue | RAlreadyRunning | RWoke bool

type_synonym cron_result = "cron_state \<times> cron_effect list \<times> cron_reply"

definition ensureLoadedForRead :: "cron_env \<Rightarrow> cron_deps \<Rightarrow> int \<Rightarrow> cron_state \<Rightarrow> cron_state mutation" where
  "ensureLoadedForRead env deps now s = (case ensureLoaded env deps False True now s of
     (s, Some e) \<Rightarrow> (s, Some e) | (s, None) \<Rightarrow> (maintainAndPersist env now s, None))"

definition cron_status :: "cron_env \<Rightarrow> cron_deps \<Rightarrow> int \<Rightarrow> cron_state \<Rightarrow> cron_result" where
  "cron_status env deps now s = (case ensureLoadedForRead env deps now s of
     (s, Some e) \<Rightarrow> (s, [], RThrew e)
   | (s, None) \<Rightarrow> (s, [], RStatus (cd_cronEnabled deps) (cd_storePath deps) (length (cs_jobs s))
       (if cd_cronEnabled deps then nextWakeAtMs (cs_jobs s) else None)))"

definition cron_list :: "cron_env \<Rightarrow> cron_deps \<Rightarrow> bool \<Rightarrow> int \<Rightarrow> cron_state \<Rightarrow> cron_result" where
  "cron_list env deps includeDisabled now s = (case ensureLoadedForRead env deps now s of
     (s, Some e) \<Rightarrow> (s, [], RThrew e)
   | (s, None) \<Rightarrow> (s, [], RJobs (sort_key (\<lambda>j. nullish (js_nextRunAtMs (cj_state j)) 0)
       (filter (\<lambda>j. includeDisabled \<or> cj_enabled j) (cs_jobs s)))))"

definition recomputeStore :: "cron_env \<Rightarrow> int \<Rightarrow> cron_state \<Rightarrow> cron_state" where
  "recomputeStore env now s = s\<lparr>cs_store := map_option (\<lambda>jobs. fst (recomputeNextRuns env now jobs)) (cs_store s)\<rparr>"

definition cron_add :: "cron_env \<Rightarrow> cron_deps \<Rightarrow> string \<Rightarrow> CronJobCreate \<Rightarrow> int \<Rightarrow> cron_state \<Rightarrow> cron_result" where
  "cron_add env deps uuid input now s = (case ensureLoaded env deps False False now (warnIfDisabled deps s) of
     (s, Some e) \<Rightarrow> (s, [], RThrew e)
   | (s, None) \<Rightarrow> (case createJob env uuid now input of
         Inl e \<Rightarrow> (s, [], RThrew e)
       | Inr job \<Rightarrow>
           (let s = recomputeStore env now (s\<lparr>cs_store := map_option (\<lambda>jobs. jobs @ [job]) (cs_store s)\<rparr>);
                added = (if cs_jobs s = [] then job else last (cs_jobs s))
            in (armTimer deps now (persist s),
                [Emit ((plainEvent uuid Added)\<lparr>ev_nextRunAtMs := js_nextRunAtMs (cj_state added)\<rparr>)], RJob added))))"

definition fixAnchor :: "CronJobPatch \<Rightarrow> int \<Rightarrow> CronJob \<Rightarrow> CronJob" where
  "fixAnchor patch now job = (case cj_schedule job of
     EverySchedule e None \<Rightarrow>
       (let fallback = (case cp_schedule patch of Some (EverySchedule _ _) \<Rightarrow> now | _ \<Rightarrow> cj_createdAtMs job)
        in job\<lparr>cj_schedule := EverySchedule e (Some (max 0 fallback))\<rparr>)
   | _ \<Rightarrow> job)"

definition setNextOrThrow :: "cron_env \<Rightarrow> int \<Rightarrow> CronJob \<Rightarrow> CronJob mutation" where
  "setNextOrThrow env now job = (case computeJobNextRunAtMs env job now of
     Inl e \<Rightarrow> (job, Some e) | Inr next \<Rightarrow> (setNext next job, None))"

definition rescheduleUpdated :: "cron_env \<Rightarrow> CronJobPatch \<Rightarrow> int \<Rightarrow> CronJob \<Rightarrow> CronJob mutation" where
  "rescheduleUpdated env patch now job =
     (let job = (fixAnchor patch now job)\<lparr>cj_updatedAtMs := now\<rparr> in
      if cp_schedule patch \<noteq> None \<or> cp_enabled patch \<noteq> None
      then if cj_enabled job then setNextOrThrow env now job
           else (setJobState (\<lambda>st. st\<lparr>js_nextRunAtMs := None, js_runningAtMs := None\<rparr>) job, None)
      else if cj_enabled job \<and> js_nextRunAtMs (cj_state job) = None then setNextOrThrow env now job
      else (job, None))"

definition cron_update :: "cron_env \<Rightarrow> cron_deps \<Rightarrow> string \<Rightarrow> CronJobPatch \<Rightarrow> int \<Rightarrow> cron_state \<Rightarrow> cron_result" where
  "cron_update env deps i patch now s = (case ensureLoaded env deps False True now (warnIfDisabled deps s) of
     (s, Some e) \<Rightarrow> (s, [], RThrew e)
   | (s, None) \<Rightarrow> (case findJob i (cs_jobs s) of
         None \<Rightarrow> (s, [], RThrew (''unknown cron job id: '' @ i))
       | Some job \<Rightarrow>
           (let (job', err) = then_do (applyJobPatch env patch job) (rescheduleUpdated env patch now);
                s = changeJobs i (\<lambda>_. job') s
            in case err of
                 Some e \<Rightarrow> (s, [], RThrew e)
               | None \<Rightarrow> (armTimer deps now (persist s),
                   [Emit ((plainEvent i Updated)\<lparr>ev_nextRunAtMs := js_nextRunAtMs (cj_state job')\<rparr>)], RJob job'))))"

definition cron_remove :: "cron_env \<Rightarrow> cron_deps \<Rightarrow> string \<Rightarrow> int \<Rightarrow> cron_state \<Rightarrow> cron_result" where
  "cron_remove env deps i now s = (case ensureLoaded env deps False False now (warnIfDisabled deps s) of
     (s, Some e) \<Rightarrow> (s, [], RThrew e)
   | (s, None) \<Rightarrow> (case cs_store s of
         None \<Rightarrow> (s, [], RRemoved False False)
       | Some jobs \<Rightarrow>
           (let rest = filter (\<lambda>j. cj_id j \<noteq> i) jobs; removed = (length rest \<noteq> length jobs) in
            (armTimer deps now (persist (s\<lparr>cs_store := Some rest\<rparr>)),
             (if removed then [Emit (plainEvent i Removed)] else []), RRemoved True removed))))"

text \<open>\<open>startedAt\<close> is also the time at which the job is found due.\<close>

definition cron_run :: "cron_env \<Rightarrow> cron_deps \<Rightarrow> string \<Rightarrow> bool \<Rightarrow> int \<Rightarrow> core_answers \<Rightarrow> int \<Rightarrow> cron_state \<Rightarrow> cron_result" where
  "cron_run env deps i forced startedAt answers endedAt s =
     (case ensureLoaded env deps False True startedAt (warnIfDisabled deps s) of
        (s, Some e) \<Rightarrow> (s, [], RThrew e)
      | (s, None) \<Rightarrow> (case findJob i (cs_jobs s) of
            None \<Rightarrow> (s, [], RThrew (''unknown cron job id: '' @ i))
          | Some job \<Rightarrow>
              if js_runningAtMs (cj_state job) \<noteq> None then (s, [], RAlreadyRunning)
              else if \<not> isJobDue job startedAt forced then (s, [], RNotDue)
              else (case executeJob env deps i startedAt answers endedAt s of
                  None \<Rightarrow> (s, [], RPending)
                | Some (s, effs, Some e) \<Rightarrow> (s, effs, RThrew e)
                | Some (s, effs, None) \<Rightarrow> (armTimer deps endedAt (persist (recomputeStore env endedAt s)), effs, RRan))))"

fun executeMissed :: "cron_env \<Rightarrow> cron_deps \<Rightarrow> string list \<Rightarrow> (int \<times> core_answers \<times> int) list \<Rightarrow> cron_state \<Rightarrow>
    (cron_state \<times> cron_effect list \<times> string option) option" where
  "executeMissed env deps [] runs s = Some (s, [], None)"
| "executeMissed env deps (i # ids) [] s = None"
| "executeMissed env deps (i # ids) ((startedAt, answers, endedAt) # runs) s =
     (case executeJob env deps i startedAt answers endedAt s of
        None \<Rightarrow> None
      | Some (s, effs, Some e) \<Rightarrow> Some (s, effs, Some e)
      | Some (s, effs, None) \<Rightarrow> map_option (\<lambda>(s, effs', err). (s, effs @ effs', err)) (executeMissed env deps ids runs s))"

definition runMissedJobs :: "cron_env \<Rightarrow> cron_deps \<Rightarrow> string list \<Rightarrow> int \<Rightarrow> (int \<times> core_answers \<times> int) list \<Rightarrow> cron_state \<Rightarrow>
    (cron_state \<times> cron_effect list \<times> string option) option" where
  "runMissedJobs env deps skipJobIds now runs s =
     executeMissed env deps (map cj_id (collectRunnableJobs skipJobIds True now s)) runs s"

definition clearRunning :: "CronJob \<Rightarrow> CronJob" where
  "clearRunning = setJobState (\<lambda>st. st\<lparr>js_runningAtMs := None\<rparr>)"

definition cron_start :: "cron_env \<Rightarrow> cron_deps \<Rightarrow> int \<Rightarrow> (int \<times> core_answers \<times> int) list \<Rightarrow> int \<Rightarrow> cron_state \<Rightarrow> cron_result" where
  "cron_start env deps now runs endNow s =
     (if \<not> cd_cronEnabled deps then (s, [], RDone)
      else (case ensureLoaded env deps False True now s of
          (s, Some e) \<Rightarrow> (s, [], RThrew e)
        | (s, None) \<Rightarrow>
            (let interrupted = map cj_id (filter (\<lambda>j. js_runningAtMs (cj_state j) \<noteq> None) (cs_jobs s));
                 s = s\<lparr>cs_store := map_option (map clearRunning) (cs_store s)\<rparr>
             in case runMissedJobs env deps interrupted now runs s of
                  None \<Rightarrow> (s, [], RPending)
                | Some (s, effs, Some e) \<Rightarrow> (s, effs, RThrew e)
                | Some (s, effs, None) \<Rightarrow> (armTimer deps endNow (persist (recomputeStore env endNow s)), effs, RDone))))"

definition cron_wake :: "CronWakeMode \<Rightarrow> string \<Rightarrow> cron_effect list \<times> cron_reply" where
  "cron_wake mode text =
     (if trim text = [] then ([], RWoke False)
      else (EnqueueSystemEvent (trim text) None None None # (if mode = WakeNow then [RequestHeartbeatNow ''wake'' None None] else []),
            RWoke True))"

subsection \<open>Runs of the service\<close>

text \<open>\<open>FileEdited\<close> is another program writing the store file.\<close>

datatype cron_op =
    CStart int "(int \<times> core_answers \<times> int) list" int
  | CStop
  | CStatus int
  | CList bool int
  | CAdd string CronJobCreate int
  | CUpdate string CronJobPatch int
  | CRemove string int
  | CRun string bool int core_answers int
  | CWake CronWakeMode string
  | TimerFires int
  | DueJobStart int
  | DueJobEnd "core_answers option" int
  | TickApply int
  | FileEdited "string + CronJob list"

fun cron_exec :: "cron_env \<Rightarrow> cron_deps \<Rightarrow> cron_op \<Rightarrow> cron_state \<Rightarrow> cron_result" where
  "cron_exec env deps (CStart now runs endNow) s = cron_start env deps now runs endNow s"
| "cron_exec env deps CStop s = (stopTimer s, [], RDone)"
| "cron_exec env deps (CStatus now) s = cron_status env deps now s"
| "cron_exec env deps (CList includeDisabled now) s = cron_list env deps includeDisabled now s"
| "cron_exec env deps (CAdd uuid input now) s = cron_add env deps uuid input now s"
| "cron_exec env deps (CUpdate i patch now) s = cron_update env deps i patch now s"
| "cron_exec env deps (CRemove i now) s = cron_remove env deps i now s"
| "cron_exec env deps (CRun i forced startedAt answers endedAt) s = cron_run env deps i forced startedAt answers endedAt s"
| "cron_exec env deps (CWake mode text) s = (s, cron_wake mode text)"
| "cron_exec env deps (TimerFires now) s = (timerFires env deps now s, [], RDone)"
| "cron_exec env deps (DueJobStart now) s = (let (s, effs) = dueJobStart now s in (s, effs, RDone))"
| "cron_exec env deps (DueJobEnd answers now) s = (let (s, effs) = dueJobEnd deps answers now s in (s, effs, RDone))"
| "cron_exec env deps (TickApply now) s = (let (s, effs) = tickApply env deps now s in (s, effs, RDone))"
| "cron_exec env deps (FileEdited file) s = (s\<lparr>cs_file := file\<rparr>, [], RDone)"

definition cron_step :: "cron_env \<Rightarrow> cron_deps \<Rightarrow> cron_op \<Rightarrow> cron_state \<Rightarrow> cron_state \<times> cron_effect list" where
  "cron_step env deps x s = (let (s, effs, _) = cron_exec env deps x s in (s, effs))"

section \<open>What holds of the service\<close>

subsection \<open>Properties of all jobs\<close>

text \<open>All job objects the service holds: in memory, in the file, and in the tick in progress.\<close>

definition jobs_satisfy :: "(CronJob \<Rightarrow> bool) \<Rightarrow> cron_state \<Rightarrow> bool" where
  "jobs_satisfy P s \<longleftrightarrow> list_all P (cs_jobs s) \<and> (case cs_file s of Inl _ \<Rightarrow> True | Inr jobs \<Rightarrow> list_all P jobs) \<and>
     list_all P (cs_due s) \<and> (case cs_executing s of None \<Rightarrow> True | Some (job, _) \<Rightarrow> P job)"

lemma findJob_Some: "findJob i jobs = Some job \<Longrightarrow> job \<in> set jobs \<and> cj_id job = i"
  by (auto simp: findJob_def find_Some_iff)

lemma executeJobE:
  assumes "executeJob env deps i startedAt answers endedAt s = Some (s', effs, err)"
  obtains job core effs1 effs2 where
    "findJob i (cs_jobs (changeJobs i (setJobState (\<lambda>st. st\<lparr>js_runningAtMs := Some startedAt, js_lastError := None\<rparr>)) s)) = Some job"
    "executeJobCore deps job answers = Some (effs1, core)"
    "finishJob env i (settleCore core) startedAt endedAt
       (changeJobs i (setJobState (\<lambda>st. st\<lparr>js_runningAtMs := Some startedAt, js_lastError := None\<rparr>)) s) = (s', effs2, err)"
    "effs = emitStarted i startedAt # effs1 @ effs2"
  using assms by (auto simp: executeJob_def Let_def split: option.splits prod.splits)

lemma changeJob_all: "list_all P jobs \<Longrightarrow> (\<And>j. P j \<Longrightarrow> cj_id j = i \<Longrightarrow> P (f j)) \<Longrightarrow> list_all P (changeJob i f jobs)"
  by (induction jobs) auto

lemma changeJobs_satisfy:
  "jobs_satisfy P s \<Longrightarrow> (\<And>j. P j \<Longrightarrow> cj_id j = i \<Longrightarrow> P (f j)) \<Longrightarrow> jobs_satisfy P (changeJobs i f s)"
  by (auto simp: jobs_satisfy_def changeJobs_def cs_jobs_def intro: changeJob_all split: option.splits sum.splits)
    (cases "cs_store s"; auto intro: changeJob_all)+

lemma persist_satisfy: "jobs_satisfy P s \<Longrightarrow> jobs_satisfy P (persist s)"
  by (auto simp: jobs_satisfy_def persist_def cs_jobs_def split: option.splits)

lemma satisfy_fields [simp]:
  "jobs_satisfy P (armTimer deps now s) = jobs_satisfy P s"
  "jobs_satisfy P (stopTimer s) = jobs_satisfy P s"
  "jobs_satisfy P (s\<lparr>cs_timer := t\<rparr>) = jobs_satisfy P s"
  "jobs_satisfy P (s\<lparr>cs_running := b\<rparr>) = jobs_satisfy P s"
  "jobs_satisfy P (warnIfDisabled deps s) = jobs_satisfy P s"
  by (simp_all add: jobs_satisfy_def armTimer_def stopTimer_def warnIfDisabled_def cs_jobs_def)

lemma store_satisfy: "jobs_satisfy P s \<Longrightarrow> list_all P jobs \<Longrightarrow> jobs_satisfy P (s\<lparr>cs_store := Some jobs\<rparr>)"
  by (simp add: jobs_satisfy_def cs_jobs_def)

lemma finishTick_satisfy: "jobs_satisfy P s \<Longrightarrow> jobs_satisfy P (finishTick deps now s)"
  by (simp add: finishTick_def) (simp add: jobs_satisfy_def cs_jobs_def)

context job_property begin

lemma set_job_state: "P job \<Longrightarrow> P (setJobState f job)"
  by (simp add: setJobState_def set_state)

lemma job_result: "P job \<Longrightarrow> P (fst (applyJobResult env status err startedAt endedAt job))"
proof -
  assume "P job"
  then have "P (recordResult status err startedAt endedAt job)" by (simp add: recordResult_def set_updated set_job_state)
  then show ?thesis
    by (auto simp: applyJobResult_def setNext_def Let_def intro!: set_job_state changes split: sum.splits)
qed

lemma load: "jobs_satisfy P s \<Longrightarrow> jobs_satisfy P (fst (ensureLoaded env deps force skip now s))"
  by (auto simp: ensureLoaded_def Let_def intro!: persist_satisfy store_satisfy recompute_jobs split: sum.splits)
    (auto simp: jobs_satisfy_def)

lemma maintained: "jobs_satisfy P s \<Longrightarrow> jobs_satisfy P (fst (maintain env now s))"
  by (auto simp: maintain_def jobs_satisfy_def cs_jobs_def intro: maintain_jobs split: option.splits prod.splits)
    (metis fst_conv maintain_jobs)+

lemma maintained_persisted: "jobs_satisfy P s \<Longrightarrow> jobs_satisfy P (maintainAndPersist env now s)"
  using maintained [of s env now] by (auto simp: maintainAndPersist_def Let_def intro: persist_satisfy split: prod.splits)

lemma recomputed: "jobs_satisfy P s \<Longrightarrow> jobs_satisfy P (recomputeStore env now s)"
  by (cases "cs_store s") (auto simp: recomputeStore_def jobs_satisfy_def cs_jobs_def intro: recompute_jobs)

lemma finished:
  assumes "jobs_satisfy P s"
  shows "jobs_satisfy P (fst (finishJob env i out startedAt endedAt s))"
proof (cases "findJob i (cs_jobs s)")
  case (Some job)
  then have "P job" using assms findJob_Some [OF Some] by (auto simp: jobs_satisfy_def list_all_iff)
  obtain job' r where a: "applyJobResult env (co_status out) (co_error out) startedAt endedAt job = (job', r)" by fastforce
  then have "P job'" using job_result [OF \<open>P job\<close>, of env "co_status out" "co_error out" startedAt endedAt] by simp
  then have "jobs_satisfy P (changeJobs i (\<lambda>_. job') s)" by (intro changeJobs_satisfy assms)
  then show ?thesis using Some a
    by (cases r; cases "cs_store s") (auto simp: finishJob_def Let_def jobs_satisfy_def cs_jobs_def changeJobs_def list_all_iff)
qed (use assms in \<open>simp add: finishJob_def\<close>)

lemma executed:
  assumes "jobs_satisfy P s" and e: "executeJob env deps i startedAt answers endedAt s = Some (s', effs, err)"
  shows "jobs_satisfy P s'"
proof -
  let ?s = "changeJobs i (setJobState (\<lambda>st. st\<lparr>js_runningAtMs := Some startedAt, js_lastError := None\<rparr>)) s"
  have "jobs_satisfy P ?s" using assms(1) set_job_state by (rule changeJobs_satisfy)
  from finished [OF this] e show ?thesis by (metis executeJobE fst_conv)
qed

lemma executed_missed: "jobs_satisfy P s \<Longrightarrow> executeMissed env deps ids runs s = Some (s', effs, err) \<Longrightarrow> jobs_satisfy P s'"
  by (induction env deps ids runs s arbitrary: effs rule: executeMissed.induct) (auto split: option.splits prod.splits dest: executed)

lemma ticked: "jobs_satisfy P s \<Longrightarrow> jobs_satisfy P (cronTimerTick env deps now s)"
  using load [of "s\<lparr>cs_running := True\<rparr>" env deps True True now]
  by (auto simp: cronTimerTick_def Let_def intro!: finishTick_satisfy maintained_persisted persist_satisfy split: prod.splits option.splits)
    (cases "cs_store (fst (ensureLoaded env deps True True now (s\<lparr>cs_running := True\<rparr>)))";
     force simp: jobs_satisfy_def cs_jobs_def list_all_iff markDue_def findDueJobs_def collectRunnableJobs_def intro: set_job_state)

lemma due_started: "jobs_satisfy P s \<Longrightarrow> jobs_satisfy P (fst (dueJobStart now s))"
  by (auto simp: dueJobStart_def split: bool.splits option.splits list.splits intro!: changeJobs_satisfy set_job_state)
    (auto simp: jobs_satisfy_def cs_jobs_def)

lemma due_ended: "jobs_satisfy P s \<Longrightarrow> jobs_satisfy P (fst (dueJobEnd deps answers now s))"
  by (auto simp: dueJobEnd_def pushResult_def jobs_satisfy_def cs_jobs_def split: option.splits)

lemma results_applied: "jobs_satisfy P s \<Longrightarrow> jobs_satisfy P (fst (applyResults env rs s))"
proof (induction rs arbitrary: s)
  case (Cons r rs)
  from finished [OF Cons.prems] have "jobs_satisfy P (fst (finishJob env (to_jobId r) (to_outcome r) (to_startedAt r) (to_endedAt r) s))" .
  then show ?case using Cons.IH by (fastforce split: prod.splits option.splits)
qed simp

lemma tick_applied:
  assumes "jobs_satisfy P s"
  shows "jobs_satisfy P (fst (tickApply env deps now s))"
  using load [OF assms, of env deps True True now] assms results_applied
  by (auto simp: tickApply_def intro!: finishTick_satisfy persist_satisfy maintained split: prod.splits option.splits) (metis fst_conv)+

end

context job_property begin

lemma rescheduled: "P job \<Longrightarrow> (\<And>j sch. P j \<Longrightarrow> P (j\<lparr>cj_schedule := sch\<rparr>)) \<Longrightarrow> P (fst (rescheduleUpdated env patch now job))"
  by (auto simp: rescheduleUpdated_def fixAnchor_def setNextOrThrow_def setNext_def Let_def intro!: set_job_state set_updated
      split: CronSchedule.splits option.splits sum.splits)

lemma updated:
  assumes s: "jobs_satisfy P s" and u: "cron_update env deps i patch now s = (s', effs, r)"
    and P: "\<And>j j' err. P j \<Longrightarrow> cj_id j = i \<Longrightarrow> then_do (applyJobPatch env patch j) (rescheduleUpdated env patch now) = (j', err) \<Longrightarrow>
      err = None \<or> (\<exists>e. r = RThrew e) \<Longrightarrow> P j'"
  shows "jobs_satisfy P s'"
proof -
  obtain s1 err1 where l: "ensureLoaded env deps False True now (warnIfDisabled deps s) = (s1, err1)" by fastforce
  then have s1: "jobs_satisfy P s1" using load [of "warnIfDisabled deps s" env deps False True now] s by simp
  show ?thesis
  proof (cases "err1 = None \<and> findJob i (cs_jobs s1) \<noteq> None")
    case False
    then show ?thesis using u l s1 by (auto simp: cron_update_def split: option.splits)
  next
    case True
    then obtain job where job: "err1 = None" "findJob i (cs_jobs s1) = Some job" by auto
    obtain job' err where j': "then_do (applyJobPatch env patch job) (rescheduleUpdated env patch now) = (job', err)" by fastforce
    have "P job" "cj_id job = i" using findJob_Some [OF job(2)] s1 by (auto simp: jobs_satisfy_def list_all_iff)
    moreover have "err = None \<or> (\<exists>e. r = RThrew e)" using u l job j' by (auto simp: cron_update_def Let_def split: option.splits)
    ultimately have "P job'" using P j' by blast
    then have "jobs_satisfy P (changeJobs i (\<lambda>_. job') s1)" by (intro changeJobs_satisfy s1)
    then show ?thesis using u l job j' by (auto simp: cron_update_def Let_def intro: persist_satisfy split: option.splits)
  qed
qed

lemma added:
  assumes s: "jobs_satisfy P s" and a: "cron_add env deps uuid input now s = (s', effs, r)"
    and P: "\<And>j. createJob env uuid now input = Inr j \<Longrightarrow> P j"
  shows "jobs_satisfy P s'"
proof -
  obtain s1 err1 where l: "ensureLoaded env deps False False now (warnIfDisabled deps s) = (s1, err1)" by fastforce
  then have s1: "jobs_satisfy P s1" using load [of "warnIfDisabled deps s" env deps False False now] s by simp
  show ?thesis
  proof (cases "\<exists>j. err1 = None \<and> createJob env uuid now input = Inr j")
    case True
    then obtain j where j: "err1 = None" "createJob env uuid now input = Inr j" by auto
    have "jobs_satisfy P (s1\<lparr>cs_store := map_option (\<lambda>jobs. jobs @ [j]) (cs_store s1)\<rparr>)"
      using s1 P [OF j(2)] by (cases "cs_store s1") (auto simp: jobs_satisfy_def cs_jobs_def)
    then show ?thesis using a l j by (auto simp: cron_add_def Let_def intro!: persist_satisfy recomputed)
  qed (use a l s1 in \<open>auto simp: cron_add_def split: option.splits sum.splits\<close>)
qed

lemma removed: "jobs_satisfy P s \<Longrightarrow> cron_remove env deps i now s = (s', effs, r) \<Longrightarrow> jobs_satisfy P s'"
  using load [of "warnIfDisabled deps s" env deps False False now]
  by (auto simp: cron_remove_def Let_def intro!: persist_satisfy store_satisfy split: prod.splits option.splits)
    (auto simp: jobs_satisfy_def cs_jobs_def list_all_iff)

lemma ran: "jobs_satisfy P s \<Longrightarrow> cron_run env deps i forced startedAt answers endedAt s = (s', effs, r) \<Longrightarrow> jobs_satisfy P s'"
  using load [of "warnIfDisabled deps s" env deps False True startedAt]
  by (auto simp: cron_run_def intro!: persist_satisfy recomputed split: prod.splits option.splits if_splits dest: executed)

lemma service_started: "jobs_satisfy P s \<Longrightarrow> cron_start env deps now runs endNow s = (s', effs, r) \<Longrightarrow> jobs_satisfy P s'"
proof -
  assume s: "jobs_satisfy P s" and c: "cron_start env deps now runs endNow s = (s', effs, r)"
  obtain s1 err1 where l: "ensureLoaded env deps False True now s = (s1, err1)" by fastforce
  then have s1: "jobs_satisfy P s1" using load [OF s, of env deps False True now] by simp
  let ?s = "s1\<lparr>cs_store := map_option (map clearRunning) (cs_store s1)\<rparr>"
  have "jobs_satisfy P ?s" using s1
    by (cases "cs_store s1") (auto simp: jobs_satisfy_def cs_jobs_def list_all_iff clearRunning_def intro: set_job_state)
  then show ?thesis using c l s1 s
    by (auto simp: cron_start_def runMissedJobs_def Let_def intro!: persist_satisfy recomputed dest: executed_missed
        split: if_splits option.splits prod.splits)
qed

lemma read_loaded: "jobs_satisfy P s \<Longrightarrow> jobs_satisfy P (fst (ensureLoadedForRead env deps now s))"
  using load [of s env deps False True now] by (auto simp: ensureLoadedForRead_def intro: maintained_persisted split: prod.splits option.splits)

text \<open>The obligations that are left for an operation to preserve the property.\<close>

lemma exec_satisfy:
  assumes "jobs_satisfy P s" and "cron_exec env deps x s = (s', effs, r)"
    and "\<And>uuid input now j. x = CAdd uuid input now \<Longrightarrow> createJob env uuid now input = Inr j \<Longrightarrow> P j"
    and "\<And>i patch now j j' err. x = CUpdate i patch now \<Longrightarrow> P j \<Longrightarrow> cj_id j = i \<Longrightarrow>
      then_do (applyJobPatch env patch j) (rescheduleUpdated env patch now) = (j', err) \<Longrightarrow> err = None \<or> (\<exists>e. r = RThrew e) \<Longrightarrow> P j'"
    and "\<And>jobs. x = FileEdited (Inr jobs) \<Longrightarrow> list_all P jobs"
  shows "jobs_satisfy P s'"
proof (cases x)
  case (CUpdate i patch now)
  with assms(2) have u: "cron_update env deps i patch now s = (s', effs, r)" by simp
  show ?thesis by (rule updated [OF assms(1) u assms(4)]) (use CUpdate in auto)
next
  case (CStatus now)
  then show ?thesis using assms(2) read_loaded [OF assms(1), of env deps now]
    by (auto simp: cron_status_def split: prod.splits option.splits)
next
  case (CList b now)
  then show ?thesis using assms(2) read_loaded [OF assms(1), of env deps now]
    by (auto simp: cron_list_def split: prod.splits option.splits)
next
  case (FileEdited contents)
  then show ?thesis using assms(1,2,5) by (auto simp: jobs_satisfy_def cs_jobs_def split: sum.splits)
next
  case (TimerFires now)
  then show ?thesis using assms(1,2) ticked [of "s\<lparr>cs_timer := None\<rparr>" env deps now]
    by (auto simp: timerFires_def split: option.splits if_splits)
next
  case (DueJobStart now)
  then show ?thesis using assms(2) due_started [OF assms(1), of now] by (auto split: prod.splits)
next
  case (DueJobEnd a now)
  then show ?thesis using assms(2) due_ended [OF assms(1), of deps a now] by (auto split: prod.splits)
next
  case (TickApply now)
  then show ?thesis using assms(2) tick_applied [OF assms(1), of env deps now] by (auto split: prod.splits)
qed (use assms(1,2) added [OF assms(1) _ assms(3)] removed [OF assms(1)] ran [OF assms(1)] service_started [OF assms(1)] in auto)

end

lemma reschedule_supported: "supported_job env job \<Longrightarrow> supported_job env (fst (rescheduleUpdated env patch now job))"
  by (rule supported.rescheduled) (auto simp: supported_job_def split: option.splits)

lemma update_supported:
  assumes "then_do (applyJobPatch env patch job) (rescheduleUpdated env patch now) = (job', None)"
  shows "supported_job env job'"
proof -
  obtain job1 where p: "applyJobPatch env patch job = (job1, None)"
    using assms by (cases "applyJobPatch env patch job") (auto simp: then_do_def split: option.splits)
  then show ?thesis using assms reschedule_supported [OF applyJobPatch_supported [OF p], of patch now] by (simp add: then_do_def)
qed

text \<open>(C15) Every operation of the service keeps all its jobs (in memory, in the file and in the tick in progress) of a
  supported kind: main-session jobs carry an event, isolated jobs an agent turn, channel delivery belongs to
  isolated jobs and a webhook has an http or https URL. Two operations are excepted: an edit of the store file
  by another program, and an update that is refused, which is not undone in memory.\<close>

theorem cron_jobs_supported:
  assumes "jobs_satisfy (supported_job env) s" and "cron_exec env deps x s = (s', effs, r)"
    and "\<And>i patch now e. (x, r) \<noteq> (CUpdate i patch now, RThrew e)" and "\<And>file. x \<noteq> FileEdited file"
  shows "jobs_satisfy (supported_job env) s'"
proof (rule supported.exec_satisfy [OF assms(1,2)])
  fix i patch now j j' err
  assume "x = CUpdate i patch now" "then_do (applyJobPatch env patch j) (rescheduleUpdated env patch now) = (j', err)"
    "err = None \<or> (\<exists>e. r = RThrew e)"
  then show "supported_job env j'" using assms(3) update_supported by blast
qed (use assms(4) createJob_supported in auto)

text \<open>An empty service with the sample job in its file.\<close>

definition sample_deps :: cron_deps where
  "sample_deps = \<lparr>cd_cronEnabled = True, cd_hasRunHeartbeatOnce = False, cd_wakeNowHeartbeatBusyMaxWaitMs = None,
     cd_storePath = ''/cron/jobs.json'', cd_rewrites = (\<lambda>_. False)\<rparr>"

theorem cron_jobs_supported_witness:
  "jobs_satisfy (supported_job sample_env)
     (fst (cron_exec sample_env sample_deps (CRemove ''other'' 5) (createCronServiceState (Inr [sample_job]))))"
proof -
  let ?s = "createCronServiceState (Inr [sample_job])"
  have ok: "jobs_satisfy (supported_job sample_env) ?s"
    by (simp add: jobs_satisfy_def createCronServiceState_def cs_jobs_def sample_job_def supported_job_def is_systemEvent_def)
  obtain s' effs r where "cron_exec sample_env sample_deps (CRemove ''other'' 5) ?s = (s', effs, r)" by (metis prod.exhaust)
  from cron_jobs_supported [OF ok this] this show ?thesis by simp
qed

subsection \<open>After a run\<close>

lemma errorBackoffMs_values:
  "n \<le> 1 \<Longrightarrow> errorBackoffMs n = 30000" "errorBackoffMs 2 = 60000" "errorBackoffMs 3 = 300000" "errorBackoffMs 4 = 900000"
  "5 \<le> n \<Longrightarrow> errorBackoffMs n = 3600000"
  by (simp_all add: errorBackoffMs_def ERROR_BACKOFF_SCHEDULE_MS_def min_def max_def)

lemma errorBackoffMs_range: "30000 \<le> errorBackoffMs n \<and> errorBackoffMs n \<le> 3600000"
proof -
  consider "n \<le> 1" | "n = 2" | "n = 3" | "n = 4" | "5 \<le> n" by linarith
  then show ?thesis by cases (simp_all add: errorBackoffMs_values)
qed

lemma errorBackoffMs_mono: "m \<le> n \<Longrightarrow> errorBackoffMs m \<le> errorBackoffMs n"
proof -
  assume "m \<le> n"
  consider "n \<le> 1" | "n = 2" | "n = 3" | "n = 4" | "5 \<le> n" by linarith
  then show ?thesis
  proof cases
    case 5 then show ?thesis using errorBackoffMs_range [of m] by (simp add: errorBackoffMs_values)
  next
    case 1 with \<open>m \<le> n\<close> show ?thesis by (simp add: errorBackoffMs_values)
  qed (use \<open>m \<le> n\<close> in \<open>cases "m \<le> 1"; cases "m = 2"; cases "m = 3"; cases "m = 4"; simp add: errorBackoffMs_values\<close>)+
qed

lemma recordResult_fields [simp]:
  "cj_schedule (recordResult st e t u job) = cj_schedule job" "cj_enabled (recordResult st e t u job) = cj_enabled job"
  "cj_deleteAfterRun (recordResult st e t u job) = cj_deleteAfterRun job" "cj_createdAtMs (recordResult st e t u job) = cj_createdAtMs job"
  "cj_id (recordResult st e t u job) = cj_id job"
  by (simp_all add: recordResult_def setJobState_def)

lemma setNext_fields [simp]:
  "cj_schedule (setNext n job) = cj_schedule job" "cj_enabled (setNext n job) = cj_enabled job" "cj_id (setNext n job) = cj_id job"
  "js_nextRunAtMs (cj_state (setNext n job)) = n" "js_runningAtMs (cj_state (setNext n job)) = js_runningAtMs (cj_state job)"
  "js_consecutiveErrors (cj_state (setNext n job)) = js_consecutiveErrors (cj_state job)"
  by (simp_all add: setNext_def setJobState_def)

lemma recordResult_state:
  "js_runningAtMs (cj_state (recordResult st e t u job)) = None"
  "js_consecutiveErrors (cj_state (recordResult st e t u job)) =
     Some (if st = StError then nullish (js_consecutiveErrors (cj_state job)) 0 + 1 else 0)"
  by (simp_all add: recordResult_def setJobState_def)

lemma computeJob_every:
  assumes "cj_enabled job" "cj_schedule job = EverySchedule e a"
  obtains t where "computeJobNextRunAtMs env job nowMs = Inr (Some t)" "nowMs \<le> t"
proof -
  let ?a = "resolveEveryAnchorMs a (cj_createdAtMs job)"
  have "nowMs \<le> nextEveryRun e (Some ?a) nowMs"
  proof (cases "nowMs < max 0 ?a")
    case False
    then have "max 0 ?a \<le> nowMs" by linarith
    then show ?thesis by (rule nextEveryRun_after [of ?a nowMs e])
  qed (simp add: nextEveryRun_before)
  then show thesis using that assms by (simp add: computeJobNextRunAtMs_def computeNextRunAtMs_def)
qed

text \<open>What is left of a job after a run. A one-shot job is deleted or disabled with no next run, whatever the
  outcome. Any other enabled job has a next run, which keeps its distance from the end of this one: after the n-th failure in
  a row at least 30 seconds, 1, 5, 15 minutes or an hour, after another outcome of a cron expression at least two
  seconds, and never in the past; a success resets the count of failures. The job is no longer marked as running.\<close>

theorem job_after_result:
  assumes "applyJobResult env status err startedAt endedAt job = (job', Inr delete)"
    and "fails = (if status = StError then nullish (js_consecutiveErrors (cj_state job)) 0 + 1 else 0)"
  shows "js_runningAtMs (cj_state job') = None \<and> js_consecutiveErrors (cj_state job') = Some fails \<and>
    (if is_at (cj_schedule job) then delete \<or> \<not> cj_enabled job' \<and> js_nextRunAtMs (cj_state job') = None
     else \<not> delete \<and> cj_enabled job' = cj_enabled job \<and>
       (if \<not> cj_enabled job then js_nextRunAtMs (cj_state job') = None
        else (\<exists>t. js_nextRunAtMs (cj_state job') = Some t \<and> endedAt \<le> t \<and>
          (status = StError \<longrightarrow> endedAt + errorBackoffMs fails \<le> t) \<and>
          (is_expr (cj_schedule job) \<longrightarrow> endedAt + 2000 \<le> t))))"
proof (cases "is_at (cj_schedule job) \<or> \<not> cj_enabled job")
  case True
  then show ?thesis using assms recordResult_state [of status err startedAt endedAt job]
    by (auto simp: applyJobResult_def Let_def split: if_splits)
next
  case False
  let ?job = "recordResult status err startedAt endedAt job"
  from False assms(1) obtain n where n: "computeJobNextRunAtMs env ?job endedAt = Inr n"
    by (auto simp: applyJobResult_def Let_def split: if_splits sum.splits)
  show ?thesis
  proof (cases "is_expr (cj_schedule job)")
    case True
    then show ?thesis using False assms n recordResult_state [of status err startedAt endedAt job] errorBackoffMs_range [of fails]
      by (auto simp: applyJobResult_def Let_def MIN_REFIRE_GAP_MS_def split: if_splits option.splits)
  next
    case notexpr: False
    then obtain e a where "cj_schedule job = EverySchedule e a"
      using False by (cases "cj_schedule job") (auto simp: is_at_def is_expr_def)
    then obtain t where "n = Some t" "endedAt \<le> t"
      using computeJob_every [of ?job e a env endedAt] n False by auto
    then show ?thesis using False notexpr assms n recordResult_state [of status err startedAt endedAt job]
      by (auto simp: applyJobResult_def Let_def split: if_splits)
  qed
qed

theorem job_after_result_witness:
  "\<exists>t. js_nextRunAtMs (cj_state (fst (applyJobResult sample_env StError (Some ''x'') 60000 60500 sample_job))) = Some t \<and> 60500 + 30000 \<le> t"
proof -
  have "\<exists>job'. applyJobResult sample_env StError (Some ''x'') 60000 60500 sample_job = (job', Inr False)"
    by (simp add: applyJobResult_def Let_def sample_job_def is_at_def computeJobNextRunAtMs_def computeNextRunAtMs_def
        recordResult_def setJobState_def)
  then obtain job' where a: "applyJobResult sample_env StError (Some ''x'') 60000 60500 sample_job = (job', Inr False)" ..
  from job_after_result [OF a refl] show ?thesis unfolding a fst_conv
    by (auto simp: sample_job_def is_at_def errorBackoffMs_values emptyJobState_def)
qed

subsection \<open>Reading never skips a run\<close>

text \<open>What maintenance leaves alone: the next run of an enabled job, and the mark of a run that is not older than two hours.\<close>

definition keeps_run :: "int \<Rightarrow> CronJob \<Rightarrow> CronJob \<Rightarrow> bool" where
  "keeps_run now job job' \<longleftrightarrow> cj_id job' = cj_id job \<and>
     (cj_enabled job \<and> js_nextRunAtMs (cj_state job) \<noteq> None \<longrightarrow>
        cj_enabled job' \<and> js_nextRunAtMs (cj_state job') = js_nextRunAtMs (cj_state job)) \<and>
     (cj_enabled job \<longrightarrow> js_runningAtMs (cj_state job') = js_runningAtMs (cj_state job) \<or>
        (\<exists>t. js_runningAtMs (cj_state job) = Some t \<and> STUCK_RUN_MS < now - t))"

lemma recompute_keeps_running [simp]: "js_runningAtMs (cj_state (fst (recomputeJobNextRunAtMs env now job))) = js_runningAtMs (cj_state job)"
  by (auto simp: recomputeJobNextRunAtMs_def recordScheduleComputeError_def Let_def split: sum.splits)

lemma maintenance_keeps_run:
  "list_all2 (keeps_run now) jobs (fst (recomputeNextRunsForMaintenance env now jobs))"
proof -
  have "keeps_run now j (fst (walkJob (\<lambda>now job. if js_nextRunAtMs (cj_state job) = None then recomputeJobNextRunAtMs env now job else (job, False)) now j))" for j
    using named.recompute_job [of j "cj_id j" env now] named.recompute_job [of "j\<lparr>cj_state := (cj_state j)\<lparr>js_runningAtMs := None\<rparr>\<rparr>" "cj_id j" env now]
    by (auto simp: walkJob_def keeps_run_def normalizeJobTickState_def Let_def case_prod_beta split: option.splits)
  then show ?thesis
    by (simp add: recomputeNextRunsForMaintenance_def walkSchedulableJobs_def list.rel_map list_all2_same)
qed

lemma keeps_run_refl [simp]: "keeps_run now j j" by (simp add: keeps_run_def)

text \<open>Listing the jobs or asking for the status never moves the next run of an enabled job: each job
  of the store is still there under its id, with the same next run and mark (a mark older than two hours excepted),
  so what was due stays due. Nothing is announced, and the file is either untouched or equal to the store.\<close>

theorem reads_keep_runs:
  assumes "cs_store s = Some jobs" and "x = CStatus now \<or> x = CList b now"
    and "cron_exec env deps x s = (s', effs, r)"
  shows "effs = [] \<and> (\<exists>jobs'. cs_store s' = Some jobs' \<and> list_all2 (keeps_run now) jobs jobs' \<and>
    (cs_file s' = cs_file s \<or> cs_file s' = Inr jobs')) \<and> cs_timer s' = cs_timer s"
proof -
  have l: "ensureLoadedForRead env deps now s = (maintainAndPersist env now s, None)"
    using assms(1) by (simp add: ensureLoadedForRead_def ensureLoaded_def)
  have "s' = maintainAndPersist env now s" "effs = []"
    using assms(2,3) by (auto simp: cron_status_def cron_list_def l)
  then show ?thesis using assms(1) maintenance_keeps_run [of now jobs env]
    by (auto simp: maintainAndPersist_def maintain_def persist_def Let_def split: prod.splits)
qed

theorem reads_keep_runs_witness:
  "\<exists>jobs'. cs_store (fst (cron_exec sample_env sample_deps (CList True 90000)
      ((createCronServiceState (Inr []))\<lparr>cs_store := Some [setNext (Some 60000) sample_job]\<rparr>))) = Some jobs' \<and>
    list_all2 (keeps_run 90000) [setNext (Some 60000) sample_job] jobs'"
proof -
  let ?s = "(createCronServiceState (Inr []))\<lparr>cs_store := Some [setNext (Some 60000) sample_job]\<rparr>"
  obtain s' effs r where e: "cron_exec sample_env sample_deps (CList True 90000) ?s = (s', effs, r)" by (metis prod.exhaust)
  have "cs_store ?s = Some [setNext (Some 60000) sample_job]" by simp
  from reads_keep_runs [OF this _ e, of 90000 True] show ?thesis unfolding e by auto
qed

subsection \<open>The timer\<close>









subsection \<open>One-shot jobs run once\<close>

definition starts :: "string \<Rightarrow> cron_effect list \<Rightarrow> nat" where
  "starts i effs = length (filter (\<lambda>e. case e of Emit ev \<Rightarrow> ev_jobId ev = i \<and> ev_action ev = Started | _ \<Rightarrow> False) effs)"

text \<open>The operations by which someone else interferes with the job: an update or a run of it, a file edit, a restart.\<close>

fun interferes :: "string \<Rightarrow> cron_op \<Rightarrow> bool" where
  "interferes i (CStart _ _ _) = True"
| "interferes i (CAdd uuid _ _) = (uuid = i)"
| "interferes i (CUpdate j _ _) = (j = i)"
| "interferes i (CRun j _ _ _ _) = (j = i)"
| "interferes i (FileEdited _) = True"
| "interferes i _ = False"

definition never_throws :: "cron_env \<Rightarrow> bool" where
  "never_throws env \<longleftrightarrow> (\<forall>expr tz t e. ce_nextRun env expr tz t \<noteq> Inl e)"

lemma starts_simps [simp]:
  "starts i [] = 0" "starts i (xs @ ys) = starts i xs + starts i ys"
  "starts i (emitStarted j t # effs) = (if j = i then 1 else 0) + starts i effs"
  "starts i (emitJobFinished job out t # effs) = starts i effs"
  "starts i (requestHeartbeat job # effs) = starts i effs"
  "starts i (EnqueueSystemEvent a b c d # effs) = starts i effs" "starts i (RequestHeartbeatNow a b c # effs) = starts i effs"
  "ev_action ev \<noteq> Started \<Longrightarrow> starts i (Emit ev # effs) = starts i effs"
  by (auto simp: starts_def emitStarted_def emitJobFinished_def plainEvent_def requestHeartbeat_def)

lemma plainEvent_action [simp]: "ev_action (plainEvent i a) = a" "ev_action (plainEvent i a\<lparr>ev_nextRunAtMs := t\<rparr>) = a"
  by (simp_all add: plainEvent_def)

lemma heartbeatLoop_starts: "heartbeatLoop job tx m w hs = Some (effs, r) \<Longrightarrow> starts i effs = 0"
  by (induction job tx m w hs rule: heartbeatLoop.induct) (auto split: sum.splits if_splits)

lemma executeJobCore_starts: "executeJobCore deps job answers = Some (effs, r) \<Longrightarrow> starts i effs = 0"
  by (auto simp: executeJobCore_def executeMain_def executeIsolated_def Let_def dest: heartbeatLoop_starts
      split: if_splits option.splits sum.splits)

lemma finishJob_starts: "finishJob env j out t u s = (s', effs, err) \<Longrightarrow> starts i effs = 0"
  by (auto simp: finishJob_def Let_def split: option.splits prod.splits sum.splits if_splits)

lemma applyResults_starts: "applyResults env rs s = (s', effs, err) \<Longrightarrow> starts i effs = 0"
proof (induction rs arbitrary: s effs)
  case (Cons r rs)
  then show ?case by (auto split: prod.splits option.splits dest: finishJob_starts)
qed simp

lemma executeJob_starts: "executeJob env deps j t a u s = Some (s', effs, err) \<Longrightarrow> starts i effs = (if j = i then 1 else 0)"
  by (erule executeJobE) (auto dest: finishJob_starts executeJobCore_starts)

text \<open>An evaluator that does not throw: no result is lost.\<close>

lemma computeJob_total: "never_throws env \<Longrightarrow> computeJobNextRunAtMs env job t \<noteq> Inl err"
proof -
  assume n: "never_throws env"
  have e: "nextExprRun env expr tz u \<noteq> Inl x" for expr tz u x
    using n by (auto simp: never_throws_def nextExprRun_def Let_def split: sum.splits option.splits)
  have l: "staggerLoop k (computeNextRunAtMs env (ExprSchedule expr tz st)) off u c \<noteq> Inl x" for k expr tz st off u c x
    using e by (induction k arbitrary: c) (auto simp: computeNextRunAtMs_def split: sum.splits option.splits)
  have "computeStaggeredCronNextRunAtMs env i (ExprSchedule expr tz st) u \<noteq> Inl x" for i expr tz st u x
    using e l [of 4] by (auto simp: computeStaggeredCronNextRunAtMs_def Let_def computeNextRunAtMs_def [of env _ u])
  then show ?thesis
    by (auto simp: computeJobNextRunAtMs_def computeNextRunAtMs_def split: CronSchedule.splits sum.splits option.splits)
qed

lemma applyJobResult_total: "never_throws env \<Longrightarrow> applyJobResult env st e t u job \<noteq> (job', Inl err)"
  using computeJob_total [of env] by (auto simp: applyJobResult_def Let_def split: sum.splits)

lemma finishJob_total: "never_throws env \<Longrightarrow> finishJob env j out t u s = (s', effs, err) \<Longrightarrow> err = None"
  using applyJobResult_total [of env]
  by (auto simp: finishJob_def Let_def split: option.splits prod.splits sum.splits if_splits)

lemma applyResults_total: "never_throws env \<Longrightarrow> applyResults env rs s = (s', effs, err) \<Longrightarrow> err = None"
proof (induction rs arbitrary: s effs)
  case (Cons r rs)
  then show ?case by (auto split: prod.splits option.splits dest: finishJob_total)
qed simp

text \<open>At most one job of a list has the id; operations keep the ids or drop some.\<close>

definition once :: "string \<Rightarrow> CronJob list \<Rightarrow> bool" where
  "once i jobs \<longleftrightarrow> count_list (map cj_id jobs) i \<le> 1"

lemma once_ids: "map cj_id jobs = map cj_id jobs' \<Longrightarrow> once i jobs = once i jobs'"
  by (simp add: once_def)

lemma once_Nil [simp]: "once i []" by (simp add: once_def)

lemma once_recompute [simp]:
  "once i (fst (recomputeNextRuns env now jobs)) = once i jobs"
  "once i (fst (recomputeNextRunsForMaintenance env now jobs)) = once i jobs"
  by (simp_all add: once_def)

lemma changeJob_ids: "(\<And>j. cj_id j = i \<Longrightarrow> cj_id (f j) = i) \<Longrightarrow> map cj_id (changeJob i f jobs) = map cj_id jobs"
  by (induction jobs) auto

lemma once_map [simp]: "(\<And>j. cj_id (f j) = cj_id j) \<Longrightarrow> once i (map f jobs) = once i jobs"
  by (simp add: once_def comp_def)

lemma once_filter: "once i jobs \<Longrightarrow> once i (filter p jobs)"
proof -
  have "count_list (map cj_id (filter p jobs)) i \<le> count_list (map cj_id jobs) i" by (induction jobs) auto
  then show "once i jobs \<Longrightarrow> ?thesis" by (simp add: once_def)
qed

lemma once_append: "once i jobs \<Longrightarrow> cj_id job \<noteq> i \<Longrightarrow> once i (jobs @ [job])"
  by (simp add: once_def)

lemma once_Cons: "once i (job # jobs) \<Longrightarrow> once i jobs \<and> (cj_id job = i \<longrightarrow> i \<notin> cj_id ` set jobs)"
  by (auto simp: once_def count_list_0_iff split: if_splits)

lemma setJobState_id [simp]: "cj_id (setJobState f job) = cj_id job" by (simp add: setJobState_def)

lemma applyJobResult_id: "applyJobResult env st e t u job = (job', r) \<Longrightarrow> cj_id job' = cj_id job"
  using named.job_result [of job "cj_id job" env st e t u] by simp

lemma rescheduleUpdated_id [simp]: "cj_id (fst (rescheduleUpdated env patch now job)) = cj_id job"
  by (rule named.rescheduled) simp_all

lemma update_id:
  assumes "then_do (applyJobPatch env patch job) (rescheduleUpdated env patch now) = (job', err)"
  shows "cj_id job' = cj_id job"
proof -
  have "cj_id (fst (then_do (applyJobPatch env patch job) (rescheduleUpdated env patch now))) = cj_id job"
    unfolding then_do_def by (cases "snd (applyJobPatch env patch job)") simp_all
  then show ?thesis using assms by simp
qed

text \<open>What a tick in progress holds, by id.\<close>

definition flight :: "cron_state \<Rightarrow> bool \<times> string list \<times> string option \<times> string list" where
  "flight s = (cs_running s, map cj_id (cs_due s), map_option (\<lambda>(j, _). cj_id j) (cs_executing s), map to_jobId (cs_results s))"

definition tidy :: "string \<Rightarrow> cron_state \<Rightarrow> bool" where
  "tidy i s \<longleftrightarrow> once i (cs_jobs s) \<and> (case cs_file s of Inl _ \<Rightarrow> False | Inr jobs \<Rightarrow> once i jobs)"

lemma tidy_flight_fields [simp]:
  "tidy i (armTimer deps now s) = tidy i s" "flight (armTimer deps now s) = flight s"
  "tidy i (stopTimer s) = tidy i s" "flight (stopTimer s) = flight s"
  "tidy i (warnIfDisabled deps s) = tidy i s" "flight (warnIfDisabled deps s) = flight s"
  "tidy i (s\<lparr>cs_timer := t\<rparr>) = tidy i s" "flight (s\<lparr>cs_timer := t\<rparr>) = flight s"
  "tidy i (s\<lparr>cs_running := b\<rparr>) = tidy i s" "flight (s\<lparr>cs_store := st\<rparr>) = flight s" "flight (persist s) = flight s"
  by (auto simp: tidy_def flight_def armTimer_def stopTimer_def warnIfDisabled_def cs_jobs_def persist_def split: option.splits)

lemma tidy_persist: "tidy i s \<Longrightarrow> tidy i (persist s)"
  by (auto simp: tidy_def persist_def cs_jobs_def split: option.splits)

lemma changeJobs_flight [simp]: "(\<And>j. cj_id j = i \<Longrightarrow> cj_id (f j) = i) \<Longrightarrow> flight (changeJobs i f s) = flight s"
  by (auto simp: flight_def changeJobs_def changeJob_ids option.map_comp comp_def split: prod.splits intro!: option.map_cong)

lemma changeJobs_tidy [simp]: "(\<And>j. cj_id j = k \<Longrightarrow> cj_id (f j) = k) \<Longrightarrow> tidy i (changeJobs k f s) = tidy i s"
  by (cases "cs_store s") (simp_all add: tidy_def changeJobs_def cs_jobs_def once_def changeJob_ids)

lemma load_tidy: "tidy i s \<Longrightarrow> tidy i (fst (ensureLoaded env deps force skip now s))"
  by (auto simp: ensureLoaded_def Let_def tidy_def cs_jobs_def persist_def split: sum.splits)

lemma load_flight [simp]: "flight (fst (ensureLoaded env deps force skip now s)) = flight s"
  by (simp add: ensureLoaded_def Let_def split: sum.splits)

lemma load_total: "tidy i s \<Longrightarrow> ensureLoaded env deps force skip now s = (s', err) \<Longrightarrow> err = None"
  by (auto simp: ensureLoaded_def tidy_def Let_def split: sum.splits if_splits)

lemma maintain_tidy: "tidy i s \<Longrightarrow> tidy i (fst (maintain env now s)) \<and> flight (fst (maintain env now s)) = flight s"
  by (auto simp: maintain_def tidy_def cs_jobs_def split: option.splits prod.splits) (metis fst_conv once_recompute(2))+

lemma maintainAndPersist_tidy:
  "tidy i s \<Longrightarrow> tidy i (maintainAndPersist env now s) \<and> flight (maintainAndPersist env now s) = flight s"
  using maintain_tidy [of i s env now] by (auto simp: maintainAndPersist_def Let_def tidy_persist split: prod.splits)

lemma recomputeStore_tidy: "tidy i (recomputeStore env now s) = tidy i s" "flight (recomputeStore env now s) = flight s"
  by (cases "cs_store s"; simp add: recomputeStore_def tidy_def cs_jobs_def) (simp add: recomputeStore_def)

lemma filter_tidy: "tidy i s \<Longrightarrow> tidy i (s\<lparr>cs_store := map_option (filter p) (cs_store s)\<rparr>)"
  by (cases "cs_store s") (simp_all add: tidy_def cs_jobs_def once_filter)

lemma finishJob_tidy:
  assumes "finishJob env k out t u s = (s', effs, err)"
  shows "(tidy i s \<longrightarrow> tidy i s') \<and> flight s' = flight s"
  using assms
  by (auto simp: finishJob_def Let_def split: option.splits prod.splits sum.splits if_splits
      intro!: filter_tidy dest!: findJob_Some applyJobResult_id)

lemma executeJob_tidy: "executeJob env deps k t a u s = Some (s', effs, err) \<Longrightarrow> (tidy i s \<longrightarrow> tidy i s') \<and> flight s' = flight s"
  by (erule executeJobE) (auto dest!: finishJob_tidy [where i = i])

lemma applyResults_tidy: "applyResults env rs s = (s', effs, err) \<Longrightarrow> (tidy i s \<longrightarrow> tidy i s') \<and> flight s' = flight s"
proof (induction rs arbitrary: s effs)
  case (Cons r rs)
  then show ?case by (auto split: prod.splits option.splits dest: finishJob_tidy)
qed simp

lemma changeJobs_jobs: "cs_jobs (changeJobs k f s) = changeJob k f (cs_jobs s)"
  by (cases "cs_store s") (simp_all add: changeJobs_def cs_jobs_def)

context job_property begin

lemma finished_store:
  assumes "list_all P (cs_jobs s)" and "finishJob env k out t u s = (s', effs, err)"
  shows "list_all P (cs_jobs s')"
proof (cases "findJob k (cs_jobs s)")
  case (Some job)
  then have "P job" using assms findJob_Some [OF Some] by (auto simp: list_all_iff)
  obtain job' r where a: "applyJobResult env (co_status out) (co_error out) t u job = (job', r)" by fastforce
  then have "P job'" using job_result [OF \<open>P job\<close>, of env "co_status out" "co_error out" t u] by simp
  then have "list_all P (cs_jobs (changeJobs k (\<lambda>_. job') s))"
    unfolding changeJobs_jobs by (intro changeJob_all assms)
  then show ?thesis using assms(2) Some a
    by (cases r; cases "cs_store s") (auto simp: finishJob_def Let_def cs_jobs_def changeJobs_def list_all_iff split: if_splits)
qed (use assms in \<open>simp add: finishJob_def\<close>)

lemma results_applied_store: "list_all P (cs_jobs s) \<Longrightarrow> applyResults env rs s = (s', effs, err) \<Longrightarrow> list_all P (cs_jobs s')"
proof (induction rs arbitrary: s effs)
  case (Cons r rs)
  then show ?case by (auto split: prod.splits option.splits dest: finished_store)
qed simp

lemma maintained_store: "list_all P (cs_jobs s) \<Longrightarrow> list_all P (cs_jobs (fst (maintain env now s)))"
  using maintain_jobs [of "cs_jobs s" env now] by (auto simp: maintain_def cs_jobs_def case_prod_beta split: option.splits)

end

text \<open>A result retires the one-shot job it belongs to.\<close>

lemma changeJob_once:
  "once i jobs \<Longrightarrow> job \<in> set (changeJob i f jobs) \<Longrightarrow> cj_id job = i \<Longrightarrow> \<exists>j. cj_id j = i \<and> job = f j"
proof (induction jobs)
  case (Cons j jobs)
  then show ?case using once_Cons [OF Cons.prems(1)] by (auto split: if_splits)
qed simp

lemma finishJob_retires:
  assumes n: "never_throws env" and o: "once i (cs_jobs s)" and at: "list_all (\<lambda>j. cj_id j = i \<longrightarrow> is_at (cj_schedule j)) (cs_jobs s)"
    and f: "finishJob env i out t u s = (s', effs, err)"
  shows "list_all (\<lambda>j. cj_id j = i \<longrightarrow> \<not> cj_enabled j) (cs_jobs s')"
proof (cases "findJob i (cs_jobs s)")
  case None
  then have "s' = s" using f by (simp add: finishJob_def)
  then show ?thesis using None by (auto simp: findJob_def find_None_iff list_all_iff)
next
  case (Some job)
  then have job: "job \<in> set (cs_jobs s)" "cj_id job = i" by (auto dest: findJob_Some)
  obtain job' r where a: "applyJobResult env (co_status out) (co_error out) t u job = (job', r)" by fastforce
  then obtain del where r: "r = Inr del" using applyJobResult_total [OF n] by (cases r) auto
  have "is_at (cj_schedule job)" using at job by (auto simp: list_all_iff)
  then have "del \<or> \<not> cj_enabled job'" using a r by (auto simp: applyJobResult_def Let_def split: if_splits)
  moreover have "list_all (\<lambda>j. cj_id j = i \<longrightarrow> j = job') (cs_jobs (changeJobs i (\<lambda>_. job') s))"
    using changeJob_once [OF o, of _ "\<lambda>_. job'"] by (auto simp: changeJobs_jobs list_all_iff)
  moreover have "s' = (if del then (changeJobs i (\<lambda>_. job') s)\<lparr>cs_store := map_option (filter (\<lambda>j. cj_id j \<noteq> i)) (cs_store (changeJobs i (\<lambda>_. job') s))\<rparr>
      else changeJobs i (\<lambda>_. job') s)"
    using f Some a r by (auto simp: finishJob_def Let_def split: if_splits)
  ultimately show ?thesis
    by (cases del; cases "cs_store s") (auto simp: cs_jobs_def changeJobs_def list_all_iff)
qed

lemma applyResults_retires:
  assumes "never_throws env" and "tidy i s" and "list_all (\<lambda>j. cj_id j = i \<longrightarrow> is_at (cj_schedule j)) (cs_jobs s)"
    and "i \<in> set (map to_jobId rs)" and "applyResults env rs s = (s', effs, err)"
  shows "list_all (\<lambda>j. cj_id j = i \<longrightarrow> \<not> cj_enabled j) (cs_jobs s')"
  using assms
proof (induction rs arbitrary: s effs)
  case (Cons r rs)
  obtain s1 effs1 err1 where f: "finishJob env (to_jobId r) (to_outcome r) (to_startedAt r) (to_endedAt r) s = (s1, effs1, err1)"
    by (metis prod.exhaust)
  then have e: "err1 = None" using finishJob_total [OF Cons.prems(1)] by blast
  then obtain effs2 where rest: "applyResults env rs s1 = (s', effs2, err)" using Cons.prems(5) f by (auto split: prod.splits)
  show ?case
  proof (cases "to_jobId r = i")
    case True
    have "once i (cs_jobs s)" using Cons.prems(2) by (simp add: tidy_def)
    from finishJob_retires [OF Cons.prems(1) this Cons.prems(3) f [unfolded True]] show ?thesis
      using retired.results_applied_store rest by blast
  next
    case False
    have "tidy i s1" using finishJob_tidy [OF f, of i] Cons.prems(2) by blast
    then show ?thesis using Cons.IH [OF Cons.prems(1) _ one_shot.finished_store [OF Cons.prems(3) f] _ rest] Cons.prems(4) False by simp
  qed
qed simp

text \<open>
  The life of a one-shot job \<open>i\<close>: not started (\<open>n = 0\<close>), started by the tick in progress and not yet
  applied, or retired, which means disabled or gone wherever the service holds it.
\<close>

definition in_flight :: "string \<Rightarrow> cron_state \<Rightarrow> bool" where
  "in_flight i s \<longleftrightarrow> (case flight s of (_, _, exec, results) \<Rightarrow> exec = Some i \<or> i \<in> set results)"

definition lifecycle :: "string \<Rightarrow> nat \<Rightarrow> cron_state \<Rightarrow> bool" where
  "lifecycle i n s \<longleftrightarrow> tidy i s \<and> jobs_satisfy (\<lambda>j. cj_id j = i \<longrightarrow> is_at (cj_schedule j)) s \<and> once i (cs_due s) \<and>
     (\<not> cs_running s \<longrightarrow> cs_due s = [] \<and> cs_executing s = None \<and> cs_results s = []) \<and>
     (if n = 0 then \<not> in_flight i s
      else n = 1 \<and> i \<notin> cj_id ` set (cs_due s) \<and>
        (in_flight i s \<or> jobs_satisfy (\<lambda>j. cj_id j = i \<longrightarrow> \<not> cj_enabled j) s))"

definition tick_op :: "cron_op \<Rightarrow> bool" where
  "tick_op x \<longleftrightarrow> (case x of TimerFires _ \<Rightarrow> True | DueJobStart _ \<Rightarrow> True | DueJobEnd _ _ \<Rightarrow> True | TickApply _ \<Rightarrow> True | _ \<Rightarrow> False)"

lemma in_flight_flight: "flight s' = flight s \<Longrightarrow> in_flight i s' = in_flight i s"
  by (simp add: in_flight_def)

lemma load_ok:
  assumes "ensureLoaded env deps force skip now s = (s1, err)" and "tidy i s"
  shows "tidy i s1" "flight s1 = flight s" "err = None"
  using load_tidy [OF assms(2), of env deps force skip now] load_flight [of env deps force skip now s] load_total [OF assms(2,1)]
  by (simp_all add: assms(1))

text \<open>Operations outside the tick leave it alone and start only what they are asked to run.\<close>

lemma outside_tick:
  assumes e: "cron_exec env deps x s = (s', effs, r)" and x: "\<not> tick_op x" "\<not> interferes i x" and t: "tidy i s"
  shows "tidy i s' \<and> flight s' = flight s \<and> starts i effs = 0"
proof (cases x)
  case (CStatus now)
  obtain s1 err where l: "ensureLoaded env deps False True now s = (s1, err)" by fastforce
  note s1 = load_ok [OF l t]
  then show ?thesis using CStatus e l maintainAndPersist_tidy [of i s1 env now] by (auto simp: cron_status_def ensureLoadedForRead_def)
next
  case (CList b now)
  obtain s1 err where l: "ensureLoaded env deps False True now s = (s1, err)" by fastforce
  note s1 = load_ok [OF l t]
  then show ?thesis using CList e l maintainAndPersist_tidy [of i s1 env now] by (auto simp: cron_list_def ensureLoadedForRead_def)
next
  case (CAdd uuid input now)
  obtain s1 err where l: "ensureLoaded env deps False False now (warnIfDisabled deps s) = (s1, err)" by fastforce
  then have s1: "tidy i s1" "flight s1 = flight s" "err = None" using load_ok [OF l, of i] t by simp_all
  show ?thesis
  proof (cases "createJob env uuid now input")
    case (Inr job)
    then have "tidy i (s1\<lparr>cs_store := map_option (\<lambda>jobs. jobs @ [job]) (cs_store s1)\<rparr>)"
      using s1(1) x(2) CAdd createJob_id [OF Inr] by (cases "cs_store s1") (auto simp: tidy_def cs_jobs_def once_append)
    then show ?thesis using CAdd e l s1 Inr
      by (auto simp: cron_add_def Let_def recomputeStore_tidy intro!: tidy_persist)
  qed (use CAdd e l s1 in \<open>auto simp: cron_add_def\<close>)
next
  case (CUpdate k patch now)
  obtain s1 err where l: "ensureLoaded env deps False True now (warnIfDisabled deps s) = (s1, err)" by fastforce
  then have s1: "tidy i s1" "flight s1 = flight s" "err = None" using load_ok [OF l, of i] t by simp_all
  then show ?thesis using CUpdate e l
    by (auto simp: cron_update_def Let_def intro!: tidy_persist dest!: findJob_Some update_id split: option.splits prod.splits)
next
  case (CRemove k now)
  obtain s1 err where l: "ensureLoaded env deps False False now (warnIfDisabled deps s) = (s1, err)" by fastforce
  then have s1: "tidy i s1" "flight s1 = flight s" "err = None" using load_ok [OF l, of i] t by simp_all
  then show ?thesis using CRemove e l filter_tidy [OF s1(1), of "\<lambda>j. cj_id j \<noteq> k"]
    by (auto simp: cron_remove_def Let_def intro!: tidy_persist split: option.splits)
next
  case (CRun k forced a answers u)
  obtain s1 err where l: "ensureLoaded env deps False True a (warnIfDisabled deps s) = (s1, err)" by fastforce
  then have s1: "tidy i s1" "flight s1 = flight s" "err = None" using load_ok [OF l, of i] t by simp_all
  then show ?thesis using CRun e l x(2) executeJob_starts [of env deps k a answers u s1 _ _ _ i] executeJob_tidy [of env deps k a answers u s1 _ _ _ i]
    by (auto simp: cron_run_def recomputeStore_tidy intro!: tidy_persist split: option.splits prod.splits if_splits)
next
  case (CWake mode tx)
  then show ?thesis using e t by (auto simp: cron_wake_def split: if_splits)
qed (use e x t in \<open>auto simp: tick_op_def\<close>)

lemma quiet_one_shot:
  assumes "jobs_satisfy (\<lambda>j. cj_id j = i \<longrightarrow> is_at (cj_schedule j)) s" and "cron_exec env deps x s = (s', effs, r)"
    and "\<not> interferes i x"
  shows "jobs_satisfy (\<lambda>j. cj_id j = i \<longrightarrow> is_at (cj_schedule j)) s'"
  by (rule one_shot.exec_satisfy [OF assms(1,2)]) (use assms(3) in \<open>auto dest: createJob_id update_id\<close>)

lemma quiet_retired:
  assumes "jobs_satisfy (\<lambda>j. cj_id j = i \<longrightarrow> \<not> cj_enabled j) s" and "cron_exec env deps x s = (s', effs, r)"
    and "\<not> interferes i x"
  shows "jobs_satisfy (\<lambda>j. cj_id j = i \<longrightarrow> \<not> cj_enabled j) s'"
  by (rule retired.exec_satisfy [OF assms(1,2)]) (use assms(3) in \<open>auto dest: createJob_id update_id\<close>)

lemma finishJob_store: "finishJob env k out t u s = (s', effs, err) \<Longrightarrow> cs_store s' = None \<longleftrightarrow> cs_store s = None"
  by (auto simp: finishJob_def changeJobs_def Let_def split: option.splits prod.splits sum.splits if_splits)

lemma applyResults_store: "applyResults env rs s = (s', effs, err) \<Longrightarrow> cs_store s' = None \<longleftrightarrow> cs_store s = None"
proof (induction rs arbitrary: s effs)
  case (Cons r rs)
  then show ?case by (auto split: prod.splits option.splits dest: finishJob_store)
qed simp

lemma in_flight_parts: "in_flight i s \<longleftrightarrow> (\<exists>j t. cs_executing s = Some (j, t) \<and> cj_id j = i) \<or> i \<in> to_jobId ` set (cs_results s)"
  by (auto simp: in_flight_def flight_def)

lemma finishTick_parts [simp]:
  "cs_running (finishTick deps now s) = False" "cs_due (finishTick deps now s) = []" "cs_executing (finishTick deps now s) = None"
  "cs_results (finishTick deps now s) = []" "tidy i (finishTick deps now s) = tidy i s"
  by (simp_all add: finishTick_def armTimer_def tidy_def cs_jobs_def)

lemma persist_parts [simp]:
  "cs_running (persist s) = cs_running s" "cs_due (persist s) = cs_due s" "cs_executing (persist s) = cs_executing s"
  "cs_results (persist s) = cs_results s"
  by (simp_all add: persist_def split: option.splits)

text \<open>Collecting the due jobs: a disabled job is not among them.\<close>

lemma tick_collects:
  assumes t: "tidy i s" and idle: "\<not> cs_running s" "cs_due s = []" "cs_executing s = None" "cs_results s = []"
  shows "tidy i (cronTimerTick env deps now s) \<and> once i (cs_due (cronTimerTick env deps now s)) \<and> cs_running (cronTimerTick env deps now s) \<and>
    cs_executing (cronTimerTick env deps now s) = None \<and> cs_results (cronTimerTick env deps now s) = [] \<and>
    (jobs_satisfy (\<lambda>j. cj_id j = i \<longrightarrow> \<not> cj_enabled j) s \<longrightarrow> i \<notin> cj_id ` set (cs_due (cronTimerTick env deps now s)))"
proof -
  obtain s1 err where l: "ensureLoaded env deps True True now (s\<lparr>cs_running := True\<rparr>) = (s1, err)" by fastforce
  then have s1: "tidy i s1" "flight s1 = flight (s\<lparr>cs_running := True\<rparr>)" "err = None" using load_ok [OF l, of i] t by simp_all
  then have parts: "cs_running s1" "cs_due s1 = []" "cs_executing s1 = None" "cs_results s1 = []"
    using idle by (auto simp: flight_def)
  have dis: "list_all (\<lambda>j. cj_id j = i \<longrightarrow> \<not> cj_enabled j) (cs_jobs s1)" if "jobs_satisfy (\<lambda>j. cj_id j = i \<longrightarrow> \<not> cj_enabled j) s"
  proof -
    have "jobs_satisfy (\<lambda>j. cj_id j = i \<longrightarrow> \<not> cj_enabled j) s1"
      using retired.load [of i "s\<lparr>cs_running := True\<rparr>" env deps True True now] that l by simp
    then show ?thesis by (simp add: jobs_satisfy_def)
  qed
  show ?thesis
  proof (cases "findDueJobs now s1 = []")
    case True
    then have "cronTimerTick env deps now s = maintainAndPersist env now s1" using idle(1) l s1(3) by (simp add: cronTimerTick_def)
    then show ?thesis using maintainAndPersist_tidy [OF s1(1), of env now] parts by (auto simp: flight_def)
  next
    case False
    let ?s = "s1\<lparr>cs_store := map_option (map (\<lambda>j. if isRunnableJob [] False now j then markDue now j else j)) (cs_store s1),
       cs_due := map (markDue now) (findDueJobs now s1)\<rparr>"
    have eq: "cronTimerTick env deps now s = persist ?s" using False idle(1) l s1(3) by (simp add: cronTimerTick_def Let_def)
    have "tidy i (persist ?s)" using s1(1) by (intro tidy_persist, cases "cs_store s1") (simp_all add: tidy_def cs_jobs_def markDue_def)
    moreover have "once i (cs_due ?s)" using s1(1)
      by (simp add: markDue_def findDueJobs_def collectRunnableJobs_def tidy_def once_filter)
    moreover have "i \<notin> cj_id ` set (cs_due ?s)" if "jobs_satisfy (\<lambda>j. cj_id j = i \<longrightarrow> \<not> cj_enabled j) s"
      using dis [OF that] by (auto simp: markDue_def findDueJobs_def collectRunnableJobs_def isRunnableJob_def list_all_iff)
    ultimately show ?thesis using parts unfolding eq by simp
  qed
qed

text \<open>Applying the results retires what was in flight.\<close>

lemma tickApply_retires:
  assumes n: "never_throws env" and t: "tidy i s" and at: "jobs_satisfy (\<lambda>j. cj_id j = i \<longrightarrow> is_at (cj_schedule j)) s"
    and ready: "cs_running s" "cs_due s = []" "cs_executing s = None" and "i \<in> to_jobId ` set (cs_results s)"
    and e: "tickApply env deps now s = (s', effs)"
  shows "jobs_satisfy (\<lambda>j. cj_id j = i \<longrightarrow> \<not> cj_enabled j) s'"
proof -
  obtain s1 err where l: "ensureLoaded env deps True True now s = (s1, err)" by fastforce
  note s1 = load_ok [OF l t]
  have res: "cs_results s1 = cs_results s" using l by (auto simp: ensureLoaded_def Let_def persist_def split: sum.splits if_splits)
  have at1: "list_all (\<lambda>j. cj_id j = i \<longrightarrow> is_at (cj_schedule j)) (cs_jobs s1)"
    using one_shot.load [OF at, of env deps True True now] l by (simp add: jobs_satisfy_def)
  obtain s2 effs2 err2 where a: "applyResults env (cs_results s1) s1 = (s2, effs2, err2)" by (metis prod.exhaust)
  then have "err2 = None" using applyResults_total [OF n] by blast
  then have s': "s' = finishTick deps now (persist (fst (maintain env now s2)))"
    using e ready l s1(3) a assms(7) res by (auto simp: tickApply_def split: if_splits)
  have "list_all (\<lambda>j. cj_id j = i \<longrightarrow> \<not> cj_enabled j) (cs_jobs s2)"
    by (rule applyResults_retires [OF n s1(1) at1 _ a]) (use assms(7) res in simp)
  then have "list_all (\<lambda>j. cj_id j = i \<longrightarrow> \<not> cj_enabled j) (cs_jobs (fst (maintain env now s2)))"
    by (rule retired.maintained_store)
  moreover have "cs_store s1 \<noteq> None" using l s1(3) by (auto simp: ensureLoaded_def Let_def persist_def split: sum.splits if_splits)
  then have "cs_store (fst (maintain env now s2)) \<noteq> None" using applyResults_store [OF a]
    by (auto simp: maintain_def case_prod_beta)
  ultimately show ?thesis unfolding s'
    by (auto simp: jobs_satisfy_def finishTick_def armTimer_def persist_def cs_jobs_def)
qed

lemma lifecycle_tick:
  assumes n: "never_throws env" and lc: "lifecycle i k s" and x: "tick_op x" and e: "cron_exec env deps x s = (s', effs, r)"
  shows "lifecycle i (k + starts i effs) s'"
proof -
  let ?at = "jobs_satisfy (\<lambda>j. cj_id j = i \<longrightarrow> is_at (cj_schedule j))"
  let ?off = "jobs_satisfy (\<lambda>j. cj_id j = i \<longrightarrow> \<not> cj_enabled j)"
  have q: "\<not> interferes i x" using x by (cases x) (auto simp: tick_op_def)
  have t: "tidy i s" and at: "?at s" and at': "?at s'" and off: "?off s \<Longrightarrow> ?off s'"
    using lc quiet_one_shot [OF _ e q] quiet_retired [OF _ e q] by (auto simp: lifecycle_def)
  show ?thesis
  proof (cases x)
    case (TimerFires now)
    then have s': "s' = timerFires env deps now s" and effs: "effs = []" using e by auto
    show ?thesis
    proof (cases "(\<exists>w. cs_timer s = Some w \<and> w \<le> now) \<and> \<not> cs_running s")
      case True
      then have eq: "s' = cronTimerTick env deps now (s\<lparr>cs_timer := None\<rparr>)" using s' by (auto simp: timerFires_def)
      note c = tick_collects [of i "s\<lparr>cs_timer := None\<rparr>" env deps now, folded eq]
      show ?thesis using lc True c t at' off unfolding lifecycle_def effs by (auto simp: in_flight_parts)
    next
      case False
      then have "\<exists>t. s' = s\<lparr>cs_timer := t\<rparr>"
        using s' by (cases s) (auto simp: timerFires_def cronTimerTick_def split: option.splits)
      then show ?thesis using lc at' off unfolding lifecycle_def effs by (auto simp: in_flight_parts)
    qed
  next
    case (DueJobStart now)
    then have d: "dueJobStart now s = (s', effs)" using e by (auto split: prod.splits)
    show ?thesis
    proof (cases "cs_running s \<and> cs_executing s = None \<and> cs_due s \<noteq> []")
      case True
      then obtain j rest where j: "cs_due s = j # rest" by (cases "cs_due s") auto
      let ?s = "s\<lparr>cs_due := rest, cs_executing := Some (j, now)\<rparr>"
      have s': "s' = changeJobs (cj_id j) (setJobState (\<lambda>st. st\<lparr>js_runningAtMs := Some now\<rparr>)) ?s" and effs: "effs = [emitStarted (cj_id j) now]"
        using d True j by (auto simp: dueJobStart_def)
      have f: "flight s' = flight ?s" unfolding s' by simp
      have "tidy i ?s" using t by (simp add: tidy_def cs_jobs_def)
      then have t': "tidy i s'" unfolding s' by simp
      have ids: "map cj_id (cs_due s') = map cj_id rest" "cs_running s'" "cs_results s' = cs_results s"
        and fl: "in_flight i s' \<longleftrightarrow> cj_id j = i \<or> i \<in> to_jobId ` set (cs_results s)"
        using f True by (auto simp: flight_def in_flight_flight [OF f] in_flight_parts s' changeJobs_def)
      have o: "once i (cs_due s')" "i \<in> cj_id ` set (cs_due s') \<longleftrightarrow> i \<in> cj_id ` set rest"
        using ids(1) lc j once_Cons [of i j rest] once_ids [OF ids(1), of i] by (auto simp: lifecycle_def simp flip: set_map)
      show ?thesis using lc j ids o fl t' at' off True once_Cons [of i j rest]
        unfolding lifecycle_def effs by (auto simp: in_flight_parts split: if_splits)
    next
      case False
      then have "s' = s" "effs = []" using d by (auto simp: dueJobStart_def split: bool.splits option.splits list.splits)
      then show ?thesis using lc by simp
    qed
  next
    case (DueJobEnd answers now)
    then have d: "dueJobEnd deps answers now s = (s', effs)" using e by (auto split: prod.splits)
    have "s' = s \<and> effs = [] \<or> (\<exists>j w out. cs_executing s = Some (j, w) \<and> s' = pushResult j out w now s \<and> starts i effs = 0)"
      using d by (auto simp: dueJobEnd_def split: option.splits prod.splits if_splits dest: executeJobCore_starts [where i = i])
    then show ?thesis using lc at' off
      by (auto simp: lifecycle_def pushResult_def in_flight_parts tidy_def cs_jobs_def split: if_splits)
  next
    case (TickApply now)
    then have d: "tickApply env deps now s = (s', effs)" using e by (auto split: prod.splits)
    show ?thesis
    proof (cases "cs_running s \<and> cs_due s = [] \<and> cs_executing s = None")
      case True
      obtain s1 err where l: "ensureLoaded env deps True True now s = (s1, err)" by fastforce
      note s1 = load_ok [OF l t]
      obtain s2 effs2 err2 where a: "applyResults env (cs_results s) s1 = (s2, effs2, err2)" by (metis prod.exhaust)
      have res: "cs_results s1 = cs_results s" using s1(2) l
        by (auto simp: ensureLoaded_def Let_def split: sum.splits if_splits)
      have s2: "tidy i s2" "err2 = None" using applyResults_tidy [OF a, of i] s1(1) applyResults_total [OF n a] by auto
      have "tidy i s' \<and> starts i effs = 0 \<and> \<not> cs_running s' \<and> cs_due s' = [] \<and> cs_executing s' = None \<and> cs_results s' = []"
        using d True l s1(3) a s2 res t applyResults_starts [OF a, of i] maintain_tidy [OF s2(1), of env now]
        by (auto simp: tickApply_def tidy_persist split: if_splits)
      moreover have "?off s'" if "in_flight i s"
        using tickApply_retires [OF n t at _ _ _ _ d] that True by (auto simp: in_flight_parts)
      ultimately show ?thesis using lc at' off True unfolding lifecycle_def by (auto simp: in_flight_parts split: if_splits)
    qed (use d lc in \<open>auto simp: tickApply_def\<close>)
  qed (use x in \<open>auto simp: tick_op_def\<close>)
qed

lemma lifecycle_outside:
  assumes lc: "lifecycle i k s" and x: "\<not> tick_op x" "\<not> interferes i x" and e: "cron_exec env deps x s = (s', effs, r)"
  shows "lifecycle i (k + starts i effs) s'"
proof -
  have t: "tidy i s" using lc by (simp add: lifecycle_def)
  note o = outside_tick [OF e x t]
  have f: "flight s' = flight s" using o by blast
  have ids: "map cj_id (cs_due s') = map cj_id (cs_due s)" "cs_running s' = cs_running s"
    "(cs_executing s' = None) = (cs_executing s = None)" "(cs_results s' = []) = (cs_results s = [])"
    using f by (auto simp: flight_def)
  have d: "(cs_due s' = []) = (cs_due s = [])" "(i \<in> cj_id ` set (cs_due s')) = (i \<in> cj_id ` set (cs_due s))"
    using ids(1) by (metis map_is_Nil_conv, metis set_map)
  show ?thesis using lc o ids d quiet_one_shot [OF _ e x(2)] quiet_retired [OF _ e x(2)] once_ids [OF ids(1), of i]
    in_flight_flight [OF f, of i] by (auto simp: lifecycle_def split: if_splits)
qed

lemma lifecycle_run:
  "never_throws env \<Longrightarrow> lifecycle i k s \<Longrightarrow> list_all (\<lambda>x. \<not> interferes i x) ops \<Longrightarrow>
   run_ops (cron_step env deps) ops s = (s', effs) \<Longrightarrow> lifecycle i (k + starts i effs) s'"
proof (induction ops arbitrary: k s effs)
  case (Cons x ops)
  obtain s1 e1 r1 where e: "cron_exec env deps x s = (s1, e1, r1)" by (metis prod.exhaust)
  then have "cron_step env deps x s = (s1, e1)" by (simp add: cron_step_def)
  then obtain e2 where rest: "run_ops (cron_step env deps) ops s1 = (s', e2)" "effs = e1 @ e2"
    using Cons.prems(4) by (auto split: prod.splits)
  have "lifecycle i (k + starts i e1) s1"
    using lifecycle_tick [OF Cons.prems(1,2) _ e] lifecycle_outside [OF Cons.prems(2) _ _ e] Cons.prems(3) by (cases "tick_op x") auto
  from Cons.IH [OF Cons.prems(1) this _ rest(1)] Cons.prems(3) rest(2) show ?case by (simp add: add.assoc)
qed simp

text \<open>(C14) A one-shot job runs at most once, provided the evaluator of cron expressions does not throw (when it throws,
  the results of a tick are lost and the job is due again). Take any state between two ticks, with at most one job of this id in memory and in
  the file, and any sequence of timer firings, steps of ticks, listings and operations on other jobs: the
  job is announced as started at most once, whatever its run answers, however long it takes and however its operations
  interleave. Excepted are a restart, an edit of the file, an update or a run of the very job, and a new job under its id.\<close>

theorem one_shot_runs_once:
  assumes "never_throws env"
    and "\<not> cs_running s" "cs_due s = []" "cs_executing s = None" "cs_results s = []"
    and "cs_file s = Inr jobs" "once i jobs" "once i (cs_jobs s)"
    and "\<forall>job \<in> set jobs \<union> set (cs_jobs s). cj_id job = i \<longrightarrow> is_at (cj_schedule job)"
    and "list_all (\<lambda>x. \<not> interferes i x) ops" and "run_ops (cron_step env deps) ops s = (s', effs)"
  shows "starts i effs \<le> 1"
proof -
  have "lifecycle i 0 s"
    using assms(2-9) by (auto simp: lifecycle_def tidy_def jobs_satisfy_def in_flight_parts list_all_iff)
  from lifecycle_run [OF assms(1) this assms(10,11)] show ?thesis by (auto simp: lifecycle_def split: if_splits)
qed

subsection \<open>Concrete runs\<close>

text \<open>A one-shot job, an expression the evaluator rejects, a job that is due, and a service with an armed timer.\<close>

definition one_shot_job :: CronJob where
  "one_shot_job = sample_job\<lparr>cj_schedule := AtSchedule None (Some (Inl 60000)), cj_state := emptyJobState\<lparr>js_nextRunAtMs := Some 60000\<rparr>\<rparr>"

definition bad_env :: cron_env where
  "bad_env = sample_env\<lparr>ce_nextRun := (\<lambda>_ _ _. Inl ''Invalid pattern'')\<rparr>"

definition bad_job :: CronJob where
  "bad_job = sample_job\<lparr>cj_id := ''bad'', cj_schedule := ExprSchedule ''nonsense'' None None,
     cj_state := emptyJobState\<lparr>js_nextRunAtMs := Some 50000\<rparr>\<rparr>"

definition due_job :: CronJob where "due_job = setNext (Some 60000) sample_job"

definition armed :: "CronJob list \<Rightarrow> cron_state" where
  "armed jobs = (createCronServiceState (Inr jobs))\<lparr>cs_timer := Some 60000\<rparr>"

definition quiet_answers :: core_answers where
  "quiet_answers = \<lparr>ca_waitStartedAt = 0, ca_heartbeats = [], ca_isolated = Inl ''none''\<rparr>"

definition one_tick :: "cron_op list" where
  "one_tick = [TimerFires 60000, DueJobStart 60001, DueJobEnd (Some quiet_answers) 60002, TickApply 60003]"

definition no_patch :: CronJobPatch where
  "no_patch = \<lparr>cp_agentId = None, cp_sessionKey = None, cp_name = None, cp_description = None, cp_enabled = None,
     cp_deleteAfterRun = None, cp_schedule = None, cp_sessionTarget = None, cp_wakeMode = None, cp_payload = None,
     cp_delivery = None, cp_state = None\<rparr>"

definition threw :: "cron_reply \<Rightarrow> bool" where
  "threw r = (case r of RThrew _ \<Rightarrow> True | _ \<Rightarrow> False)"

theorem one_shot_runs_once_witness:
  "starts ''j1'' (snd (run_ops (cron_step sample_env sample_deps) (one_tick @ one_tick) (armed [one_shot_job]))) \<le> 1 \<and>
   starts ''j1'' (snd (run_ops (cron_step sample_env sample_deps) (one_tick @ one_tick) (armed [one_shot_job]))) \<noteq> 0"
proof
  obtain s' effs where r: "run_ops (cron_step sample_env sample_deps) (one_tick @ one_tick) (armed [one_shot_job]) = (s', effs)"
    by fastforce
  have n: "never_throws sample_env" by (simp add: never_throws_def sample_env_def)
  show "starts ''j1'' (snd (run_ops (cron_step sample_env sample_deps) (one_tick @ one_tick) (armed [one_shot_job]))) \<le> 1"
    using one_shot_runs_once [OF n _ _ _ _ _ _ _ _ _ r, of "[one_shot_job]" "''j1''"] r
    by (simp add: armed_def createCronServiceState_def once_def cs_jobs_def one_shot_job_def sample_job_def is_at_def one_tick_def)
  show "starts ''j1'' (snd (run_ops (cron_step sample_env sample_deps) (one_tick @ one_tick) (armed [one_shot_job]))) \<noteq> 0"
    by code_simp
qed

text \<open>
  What the exceptions of the theorems stand for. An update that is refused stays in memory, and the next
  operation that saves the store writes it to the file.
\<close>

theorem refused_update_is_saved:
  "case cron_exec sample_env sample_deps (CUpdate ''j1'' (no_patch\<lparr>cp_sessionTarget := Some TargetIsolated\<rparr>) 60000) (armed [sample_job]) of
     (s, effs, r) \<Rightarrow> threw r \<and> \<not> list_all (supported_job sample_env)
       (case cs_file (fst (cron_step sample_env sample_deps (CRemove ''other'' 60001) s)) of Inr jobs \<Rightarrow> jobs | Inl _ \<Rightarrow> [])"
  by code_simp

text \<open>
  A job whose expression cannot be evaluated stops the service from starting: the missed run of that job throws, no
  other job runs, and no timer is armed.
\<close>

theorem bad_expression_stops_start:
  "case cron_exec bad_env sample_deps (CStart 70000 [(70000, quiet_answers, 70001), (70001, quiet_answers, 70002)] 70003)
     (createCronServiceState (Inr [bad_job, due_job])) of (s, effs, r) \<Rightarrow> threw r \<and> cs_timer s = None \<and> starts ''j1'' effs = 0"
  by code_simp

text \<open>
  In a tick such a job loses the results of the others: both jobs ran, and in the file both are
  still marked as running, as the beginning of the tick left them.
\<close>

theorem bad_expression_loses_results:
  "cs_file (fst (run_ops (cron_step bad_env sample_deps)
     [TimerFires 60000, DueJobStart 60001, DueJobEnd (Some quiet_answers) 60002, DueJobStart 60003, DueJobEnd (Some quiet_answers) 60004,
      TickApply 60005] (armed [bad_job, due_job]))) = Inr [markDue 60000 bad_job, markDue 60000 due_job]"
  by code_simp

text \<open>Disabling a job that is running drops its mark, and a forced run starts it a second time while the first goes on.\<close>

theorem disabled_while_running_runs_twice:
  "starts ''j1'' (snd (run_ops (cron_step sample_env sample_deps)
     [TimerFires 60000, DueJobStart 60001, CUpdate ''j1'' (no_patch\<lparr>cp_enabled := Some False\<rparr>) 60002,
      CRun ''j1'' True 60003 quiet_answers 60004] (armed [due_job]))) = 2"
  by code_simp

text \<open>The end of a tick arms the timer of a service that was stopped meanwhile.\<close>

theorem stop_undone_by_tick:
  "cs_timer (fst (run_ops (cron_step sample_env sample_deps)
     [TimerFires 60000, DueJobStart 60001, CStop, DueJobEnd (Some quiet_answers) 60002, TickApply 60003] (armed [due_job]))) = Some 120000"
  by code_simp

end
