(* ===== verification/Net_Guard.thy ===== *)
theory Net_Guard
  imports Gateway_Net
begin

section \<open>Outgoing requests (infra/net/ssrf.ts, infra/net/fetch-guard.ts)\<close>

text \<open>
  The agent fetches URLs that strangers may have written. Before each request, and before each redirect
  it follows, the guard checks the host name, resolves it, refuses private and internal addresses, and pins
  the connection to the addresses it has checked.

  Addresses are parsed from their text; the eight groups of an IPv6 address are 16-bit words. Name
  resolution, the URL parser and the answers of the servers are arguments. Time limits, abort signals and the closing
  of connections are left out.
\<close>

unbundle bit_operations_syntax

subsection \<open>Host names\<close>

definition unbracket :: "string \<Rightarrow> string" where
  "unbracket s = (if starts_with s ''['' \<and> ends_with s '']'' then butlast (tl s) else s)"

definition strip_dot :: "string \<Rightarrow> string" where
  "strip_dot s = (if ends_with s ''.'' then butlast s else s)"

definition normalizeHostname :: "string \<Rightarrow> string" where
  "normalizeHostname hostname = unbracket (strip_dot (to_lower (trim hostname)))"

record SsrFPolicy =
  sp_allowPrivateNetwork :: bool
  sp_allowedHostnames :: "string list"
  sp_hostnameAllowlist :: "string list"

definition BLOCKED_HOSTNAMES :: "string list" where
  "BLOCKED_HOSTNAMES = [''localhost'', ''localhost.localdomain'', ''metadata.google.internal'']"

definition normalizeHostnameSet :: "string list \<Rightarrow> string list" where
  "normalizeHostnameSet values = set_of_list (filter (\<lambda>v. v \<noteq> []) (map normalizeHostname values))"

definition normalizeHostnameAllowlist :: "string list \<Rightarrow> string list" where
  "normalizeHostnameAllowlist values =
     set_of_list (filter (\<lambda>v. v \<noteq> ''*'' \<and> v \<noteq> ''*.'' \<and> v \<noteq> []) (map normalizeHostname values))"

definition isHostnameAllowedByPattern :: "string \<Rightarrow> string \<Rightarrow> bool" where
  "isHostnameAllowedByPattern hostname pattern =
     (if starts_with pattern ''*.'' then
        (let suffix = drop 2 pattern in
         if suffix = [] \<or> hostname = suffix then False else ends_with hostname (CHR ''.'' # suffix))
      else hostname = pattern)"

definition matchesHostnameAllowlist :: "string \<Rightarrow> string list \<Rightarrow> bool" where
  "matchesHostnameAllowlist hostname allowlist =
     (if allowlist = [] then True else list_ex (isHostnameAllowedByPattern hostname) allowlist)"

definition isBlockedHostnameNormalized :: "string \<Rightarrow> bool" where
  "isBlockedHostnameNormalized normalized =
     (if normalized \<in> set BLOCKED_HOSTNAMES then True
      else ends_with normalized ''.localhost'' \<or> ends_with normalized ''.local'' \<or> ends_with normalized ''.internal'')"

definition isBlockedHostname :: "string \<Rightarrow> bool" where
  "isBlockedHostname hostname =
     (let normalized = normalizeHostname hostname in if normalized = [] then False else isBlockedHostnameNormalized normalized)"

subsection \<open>IPv4 literals\<close>

definition parseStrictIpv4Octet :: "string \<Rightarrow> nat option" where
  "parseStrictIpv4Octet part =
     (if part = [] \<or> \<not> list_all is_digit part then None
      else (let value = digits_value part in
            if value > 255 then None else if part \<noteq> dec value then None else Some value))"

definition parseIpv4 :: "string \<Rightarrow> nat list option" where
  "parseIpv4 address =
     (let parts = split_on CHR ''.'' address in
      if length parts \<noteq> 4 then None
      else if list_ex (\<lambda>p. parseStrictIpv4Octet p = None) parts then None
      else Some (map digits_value parts))"

datatype ipv4_part = PartDecimal | PartHex | PartInvalidHex | PartNonNumeric

definition hex_prefixed :: "string \<Rightarrow> bool" where
  "hex_prefixed part \<longleftrightarrow> starts_with (to_lower part) ''0x''"

definition classifyIpv4Part :: "string \<Rightarrow> ipv4_part" where
  "classifyIpv4Part part =
     (if hex_prefixed part \<and> drop 2 part \<noteq> [] \<and> list_all is_hex (drop 2 part) then PartHex
      else if hex_prefixed part then PartInvalidHex
      else if part \<noteq> [] \<and> list_all is_digit part then PartDecimal
      else PartNonNumeric)"

definition isUnsupportedLegacyIpv4Literal :: "string \<Rightarrow> bool" where
  "isUnsupportedLegacyIpv4Literal address =
     (let parts = split_on CHR ''.'' address; partKinds = map classifyIpv4Part parts in
      if parts = [] \<or> length parts > 4 then False
      else if [] \<in> set parts then True
      else if PartNonNumeric \<in> set partKinds then False
      else if PartInvalidHex \<in> set partKinds then True
      else if length parts \<noteq> 4 then True
      else list_ex (\<lambda>part. hex_prefixed part \<or> digits_value part > 255 \<or> part \<noteq> dec (digits_value part)) parts)"

definition isPrivateIpv4 :: "nat list \<Rightarrow> bool" where
  "isPrivateIpv4 parts =
     (let octet1 = parts ! 0; octet2 = parts ! 1 in
      if octet1 = 0 then True
      else if octet1 = 10 then True
      else if octet1 = 127 then True
      else if octet1 = 169 \<and> octet2 = 254 then True
      else if octet1 = 172 \<and> octet2 \<ge> 16 \<and> octet2 \<le> 31 then True
      else if octet1 = 192 \<and> octet2 = 168 then True
      else if octet1 = 100 \<and> octet2 \<ge> 64 \<and> octet2 \<le> 127 then True
      else False)"

subsection \<open>IPv6 literals\<close>

definition hexit :: "nat \<Rightarrow> char" where
  "hexit n = (if n < 10 then char_of (48 + n) else char_of (87 + n))"

text \<open>\<open>n.toString(16)\<close>.\<close>

fun hex :: "nat \<Rightarrow> string" where
  "hex n = (if n < 16 then [hexit n] else hex (n div 16) @ [hexit (n mod 16)])"

declare hex.simps [simp del]

definition hexit_value :: "char \<Rightarrow> nat" where
  "hexit_value c = (if is_digit c then digit_value c else of_char (lower_char c) - 87)"

definition hexits_value :: "string \<Rightarrow> nat" where
  "hexits_value ds = foldl (\<lambda>a c. a * 16 + hexit_value c) 0 ds"

text \<open>\<open>parseInt(s, 16)\<close>: blanks, a sign, an optional \<open>0x\<close>, the longest run of hexadecimal digits; \<open>None\<close> is \<open>NaN\<close>.\<close>

definition parse_hex :: "string \<Rightarrow> int option" where
  "parse_hex s =
     (let t = dropWhile is_ws s;
          (sign, r) = (case t of [] \<Rightarrow> (1, [])
             | c # r \<Rightarrow> if c = CHR ''-'' then (- 1, r) else if c = CHR ''+'' then (1, r) else (1, t));
          r = (if starts_with r ''0x'' \<or> starts_with r ''0X'' then drop 2 r else r);
          ds = takeWhile is_hex r
      in if ds = [] then None else Some (sign * int (hexits_value ds)))"

text \<open>\<open>s.split("::")\<close>.\<close>

fun split_colons :: "string \<Rightarrow> string list" where
  "split_colons (a # b # s) =
     (if a = CHR '':'' \<and> b = CHR '':'' then [] # split_colons s
      else (case split_colons (b # s) of [] \<Rightarrow> [[a]] | w # ws \<Rightarrow> (a # w) # ws))"
| "split_colons s = [s]"

definition stripIpv6ZoneId :: "string \<Rightarrow> string" where
  "stripIpv6ZoneId address = takeWhile (\<lambda>c. c \<noteq> CHR ''%'') address"

definition after_last_colon :: "string \<Rightarrow> string" where
  "after_last_colon s = rev (takeWhile (\<lambda>c. c \<noteq> CHR '':'') (rev s))"

definition before_last_colon :: "string \<Rightarrow> string" where
  "before_last_colon s = take (length s - length (after_last_colon s) - 1) s"

text \<open>An IPv4 tail becomes two groups.\<close>

definition expandIpv4Tail :: "string \<Rightarrow> string option" where
  "expandIpv4Tail input =
     (if CHR ''.'' \<notin> set input then Some input
      else if CHR '':'' \<notin> set input then None
      else (case parseIpv4 (after_last_colon input) of
          None \<Rightarrow> None
        | Some v4 \<Rightarrow> Some (before_last_colon input @ '':'' @ hex (v4 ! 0 * 256 + v4 ! 1) @ '':'' @ hex (v4 ! 2 * 256 + v4 ! 3))))"

definition groups_of :: "string \<Rightarrow> string list" where
  "groups_of s = (if s = [] then [] else filter (\<lambda>p. p \<noteq> []) (split_on CHR '':'' s))"

definition parseGroup :: "string \<Rightarrow> 16 word option" where
  "parseGroup part =
     (if part = [] then None
      else (case parse_hex part of
          None \<Rightarrow> None | Some v \<Rightarrow> if v < 0 \<or> v > 0xffff then None else Some (word_of_int v)))"

fun parseGroups :: "string list \<Rightarrow> 16 word list option" where
  "parseGroups [] = Some []"
| "parseGroups (p # ps) = (case parseGroup p of None \<Rightarrow> None | Some w \<Rightarrow> map_option ((#) w) (parseGroups ps))"

definition fillGroups :: "string \<Rightarrow> string list option" where
  "fillGroups input =
     (let doubleColonParts = split_colons input in
      if length doubleColonParts > 2 then None
      else (let headParts = groups_of (doubleColonParts ! 0);
                tailParts = (if length doubleColonParts = 2 then groups_of (doubleColonParts ! 1) else [])
            in if length headParts + length tailParts > 8 then None
               else (let fullParts = (if length doubleColonParts = 1 then split_on CHR '':'' input
                        else headParts @ replicate (8 - length headParts - length tailParts) ''0'' @ tailParts)
                     in if length fullParts \<noteq> 8 then None else Some fullParts)))"

definition parseIpv6Hextets :: "string \<Rightarrow> 16 word list option" where
  "parseIpv6Hextets address =
     (let input = stripIpv6ZoneId (to_lower (trim address)) in
      if input = [] then None
      else Option.bind (expandIpv4Tail input) (\<lambda>input. Option.bind (fillGroups input) parseGroups))"

definition decodeIpv4FromHextets :: "16 word \<Rightarrow> 16 word \<Rightarrow> nat list" where
  "decodeIpv4FromHextets high low =
     [unat (drop_bit 8 high AND 0xff), unat (high AND 0xff), unat (drop_bit 8 low AND 0xff), unat (low AND 0xff)]"

text \<open>The rules: where an IPv6 address carries an IPv4 address, and which two groups it is in.\<close>

type_synonym hextets = "16 word list"

definition EMBEDDED_IPV4_RULES :: "((hextets \<Rightarrow> bool) \<times> (hextets \<Rightarrow> 16 word \<times> 16 word)) list" where
  "EMBEDDED_IPV4_RULES =
     [(\<lambda>h. h ! 0 = 0 \<and> h ! 1 = 0 \<and> h ! 2 = 0 \<and> h ! 3 = 0 \<and> h ! 4 = 0 \<and> (h ! 5 = 0xffff \<or> h ! 5 = 0), \<lambda>h. (h ! 6, h ! 7)),
      (\<lambda>h. h ! 0 = 0x64 \<and> h ! 1 = 0xff9b \<and> h ! 2 = 0 \<and> h ! 3 = 0 \<and> h ! 4 = 0 \<and> h ! 5 = 0, \<lambda>h. (h ! 6, h ! 7)),
      (\<lambda>h. h ! 0 = 0x64 \<and> h ! 1 = 0xff9b \<and> h ! 2 = 1 \<and> h ! 3 = 0 \<and> h ! 4 = 0 \<and> h ! 5 = 0, \<lambda>h. (h ! 6, h ! 7)),
      (\<lambda>h. h ! 0 = 0x2002, \<lambda>h. (h ! 1, h ! 2)),
      (\<lambda>h. h ! 0 = 0x2001 \<and> h ! 1 = 0, \<lambda>h. (h ! 6 XOR 0xffff, h ! 7 XOR 0xffff)),
      (\<lambda>h. h ! 4 AND 0xfcff = 0 \<and> h ! 5 = 0x5efe, \<lambda>h. (h ! 6, h ! 7))]"

definition extractIpv4FromEmbeddedIpv6 :: "hextets \<Rightarrow> nat list option" where
  "extractIpv4FromEmbeddedIpv6 hextets =
     map_option (\<lambda>(_, extract). case extract hextets of (high, low) \<Rightarrow> decodeIpv4FromHextets high low)
       (find (\<lambda>(matches, _). matches hextets) EMBEDDED_IPV4_RULES)"

definition isPrivateHextets :: "hextets \<Rightarrow> bool" where
  "isPrivateHextets h =
     (let isUnspecified = (h = [0, 0, 0, 0, 0, 0, 0, 0]); isLoopback = (h = [0, 0, 0, 0, 0, 0, 0, 1]) in
      if isUnspecified \<or> isLoopback then True
      else (case extractIpv4FromEmbeddedIpv6 h of
          Some v4 \<Rightarrow> isPrivateIpv4 v4
        | None \<Rightarrow>
            (let first = h ! 0 in
             if first AND 0xffc0 = 0xfe80 then True
             else if first AND 0xffc0 = 0xfec0 then True
             else if first AND 0xfe00 = 0xfc00 then True
             else False)))"

definition isPrivateIpAddress :: "string \<Rightarrow> bool" where
  "isPrivateIpAddress address =
     (let normalized = unbracket (to_lower (trim address)) in
      if normalized = [] then False
      else if CHR '':'' \<in> set normalized then
        (case parseIpv6Hextets normalized of None \<Rightarrow> True | Some h \<Rightarrow> isPrivateHextets h)
      else (case parseIpv4 normalized of
          Some v4 \<Rightarrow> isPrivateIpv4 v4
        | None \<Rightarrow> if isUnsupportedLegacyIpv4Literal normalized then True else False))"

definition isBlockedHostnameOrIp :: "string \<Rightarrow> bool" where
  "isBlockedHostnameOrIp hostname =
     (let normalized = normalizeHostname hostname in
      if normalized = [] then False else isBlockedHostnameNormalized normalized \<or> isPrivateIpAddress normalized)"

subsection \<open>Resolving and pinning\<close>

datatype ssrf_error = SsrFBlocked string | OtherError string

record PinnedHostname =
  ph_hostname :: string
  ph_addresses :: "string list"

text \<open>\<open>lookup\<close> gives the addresses of a name, or the error of the resolver. \<open>policy\<close> stands for the policy with its
  absent fields filled in by \<open>false\<close> and empty lists, which the code treats alike.\<close>

definition resolvePinnedHostnameWithPolicy ::
  "(string \<Rightarrow> string + string list) \<Rightarrow> SsrFPolicy \<Rightarrow> string \<Rightarrow> ssrf_error + PinnedHostname" where
  "resolvePinnedHostnameWithPolicy lookup policy hostname =
     (let normalized = normalizeHostname hostname in
      if normalized = [] then Inl (OtherError ''Invalid hostname'')
      else
        (let allowPrivateNetwork = sp_allowPrivateNetwork policy;
             allowedHostnames = normalizeHostnameSet (sp_allowedHostnames policy);
             hostnameAllowlist = normalizeHostnameAllowlist (sp_hostnameAllowlist policy);
             isExplicitAllowed = (normalized \<in> set allowedHostnames)
         in if \<not> matchesHostnameAllowlist normalized hostnameAllowlist
            then Inl (SsrFBlocked (''Blocked hostname (not in allowlist): '' @ hostname))
            else if \<not> allowPrivateNetwork \<and> \<not> isExplicitAllowed \<and> isBlockedHostnameOrIp normalized
            then Inl (SsrFBlocked ''Blocked hostname or private/internal IP address'')
            else (case lookup normalized of
                Inl e \<Rightarrow> Inl (OtherError e)
              | Inr results \<Rightarrow>
                  if results = [] then Inl (OtherError (''Unable to resolve hostname: '' @ hostname))
                  else if \<not> allowPrivateNetwork \<and> \<not> isExplicitAllowed \<and> list_ex isPrivateIpAddress results
                  then Inl (SsrFBlocked ''Blocked: resolves to private/internal IP address'')
                  else Inr \<lparr>ph_hostname = normalized, ph_addresses = set_of_list results\<rparr>)))"

definition noPolicy :: SsrFPolicy where
  "noPolicy = \<lparr>sp_allowPrivateNetwork = False, sp_allowedHostnames = [], sp_hostnameAllowlist = []\<rparr>"

definition resolvePinnedHostname :: "(string \<Rightarrow> string + string list) \<Rightarrow> string \<Rightarrow> ssrf_error + PinnedHostname" where
  "resolvePinnedHostname lookup hostname = resolvePinnedHostnameWithPolicy lookup noPolicy hostname"

definition assertPublicHostname :: "(string \<Rightarrow> string + string list) \<Rightarrow> string \<Rightarrow> ssrf_error option" where
  "assertPublicHostname lookup hostname = (case resolvePinnedHostname lookup hostname of Inl e \<Rightarrow> Some e | Inr _ \<Rightarrow> None)"

text \<open>The lookup function handed to the connection: the family asked for (0: any), all addresses or one, and the counter
  of the rotation. \<open>None\<close>: the question is passed on to the system resolver.\<close>

datatype lookup_answer = AllAddresses "(string \<times> nat) list" | OneAddress string nat | NoAddress

definition pinned_records :: "string list \<Rightarrow> (string \<times> nat) list" where
  "pinned_records addresses = map (\<lambda>a. (a, if CHR '':'' \<in> set a then 6 else 4)) addresses"

definition pinnedLookup :: "PinnedHostname \<Rightarrow> nat \<Rightarrow> string \<Rightarrow> nat \<Rightarrow> bool \<Rightarrow> nat \<times> lookup_answer option" where
  "pinnedLookup pinned index host family all =
     (let normalized = normalizeHostname host; records = pinned_records (ph_addresses pinned) in
      if normalized = [] \<or> normalized \<noteq> normalizeHostname (ph_hostname pinned) then (index, None)
      else
        (let candidates = (if family = 4 \<or> family = 6 then filter (\<lambda>r. snd r = family) records else records);
             usable = (if candidates \<noteq> [] then candidates else records)
         in if all then (index, Some (AllAddresses usable))
            else if usable = [] then (index, Some NoAddress)
            else (index + 1, Some (OneAddress (fst (usable ! (index mod length usable))) (snd (usable ! (index mod length usable)))))))"

subsection \<open>The guarded fetch\<close>

record url_parts =
  ur_protocol :: string
  ur_hostname :: string
  ur_origin :: string
  ur_href :: string

datatype fetch_response = ResponseError string | Response nat "string option"

text \<open>
  What is outside: the URL parser (\<open>None\<close>: it throws) with and without a base, the resolver (which may answer
  differently each time; the number is that of the request) and the servers.
\<close>

record fetch_env =
  fe_parse :: "string \<Rightarrow> url_parts option"
  fe_resolve :: "string \<Rightarrow> url_parts \<Rightarrow> url_parts option"
  fe_lookup :: "nat \<Rightarrow> string \<Rightarrow> string + string list"
  fe_respond :: "nat \<Rightarrow> fetch_response"

type_synonym fetch_headers = "(string \<times> string) list option"

record GuardedFetchOptions =
  gf_url :: string
  gf_headers :: fetch_headers
  gf_maxRedirects :: "int option"
  gf_policy :: SsrFPolicy
  gf_pinDns :: "bool option"

text \<open>A request as it leaves. The dispatcher of a pinned request is known by the host it was made for; without one the
  connection asks the system resolver.\<close>

record fetch_request =
  rq_url :: url_parts
  rq_headers :: fetch_headers
  rq_checked :: PinnedHostname
  rq_dispatcher :: "PinnedHostname option"

text \<open>How the connection of a request finds the addresses of its host: \<open>system\<close> is the system resolver.\<close>

definition connectLookup :: "(string \<Rightarrow> nat \<Rightarrow> bool \<Rightarrow> lookup_answer) \<Rightarrow> fetch_request \<Rightarrow> nat \<Rightarrow> string \<Rightarrow> nat \<Rightarrow> bool \<Rightarrow> nat \<times> lookup_answer" where
  "connectLookup system rq index host family all =
     (case rq_dispatcher rq of
        None \<Rightarrow> (index, system host family all)
      | Some pinned \<Rightarrow>
          (case pinnedLookup pinned index host family all of
             (index', None) \<Rightarrow> (index', system host family all)
           | (index', Some answer) \<Rightarrow> (index', answer)))"

datatype fetch_result = Fetched string nat | FetchThrew ssrf_error

definition DEFAULT_MAX_REDIRECTS :: nat where "DEFAULT_MAX_REDIRECTS = 3"

definition CROSS_ORIGIN_REDIRECT_SENSITIVE_HEADERS :: "string list" where
  "CROSS_ORIGIN_REDIRECT_SENSITIVE_HEADERS = [''authorization'', ''proxy-authorization'', ''cookie'', ''cookie2'']"

definition isRedirectStatus :: "nat \<Rightarrow> bool" where
  "isRedirectStatus status \<longleftrightarrow> status = 301 \<or> status = 302 \<or> status = 303 \<or> status = 307 \<or> status = 308"

definition stripSensitiveHeadersForCrossOriginRedirect :: "fetch_headers \<Rightarrow> fetch_headers" where
  "stripSensitiveHeadersForCrossOriginRedirect headers =
     map_option (\<lambda>hs. filter (\<lambda>h. fst h \<notin> set CROSS_ORIGIN_REDIRECT_SENSITIVE_HEADERS) (map (\<lambda>(k, v). (to_lower k, v)) hs)) headers"

definition isHttpUrl :: "url_parts \<Rightarrow> bool" where
  "isHttpUrl u \<longleftrightarrow> ur_protocol u = ''http:'' \<or> ur_protocol u = ''https:''"

text \<open>The request of one turn of the loop: the URL must be http or https and its host pass the policy.\<close>

definition guardRequest ::
  "fetch_env \<Rightarrow> SsrFPolicy \<Rightarrow> bool option \<Rightarrow> nat \<Rightarrow> string \<Rightarrow> fetch_headers \<Rightarrow> ssrf_error + fetch_request" where
  "guardRequest env policy pinDns n currentUrl headers = (case fe_parse env currentUrl of
     None \<Rightarrow> Inl (OtherError ''Invalid URL: must be http or https'')
   | Some u \<Rightarrow>
       if \<not> isHttpUrl u then Inl (OtherError ''Invalid URL: must be http or https'')
       else (case resolvePinnedHostnameWithPolicy (fe_lookup env n) policy (ur_hostname u) of
           Inl e \<Rightarrow> Inl e
         | Inr pinned \<Rightarrow> Inr \<lparr>rq_url = u, rq_headers = headers, rq_checked = pinned,
             rq_dispatcher = (if pinDns \<noteq> Some False then Some pinned else None)\<rparr>))"

text \<open>The loop; \<open>redirectCount\<close> is also the number of requests made so far.\<close>

function fetchLoop ::
  "fetch_env \<Rightarrow> SsrFPolicy \<Rightarrow> bool option \<Rightarrow> nat \<Rightarrow> string \<Rightarrow> fetch_headers \<Rightarrow> nat \<Rightarrow> string list \<Rightarrow> fetch_request list \<times> fetch_result" where
  "fetchLoop env policy pinDns maxRedirects currentUrl headers redirectCount visited =
     (case guardRequest env policy pinDns redirectCount currentUrl headers of
        Inl e \<Rightarrow> ([], FetchThrew e)
      | Inr rq \<Rightarrow>
          (case fe_respond env redirectCount of
             ResponseError e \<Rightarrow> ([rq], FetchThrew (OtherError e))
           | Response status location \<Rightarrow>
               if \<not> isRedirectStatus status then ([rq], Fetched currentUrl status)
               else (case truthy location of
                   None \<Rightarrow> ([rq], FetchThrew (OtherError (''Redirect missing location header ('' @ dec status @ '')'')))
                 | Some loc \<Rightarrow>
                     if Suc redirectCount > maxRedirects then ([rq], FetchThrew (OtherError (''Too many redirects (limit: '' @ dec maxRedirects @ '')'')))
                     else (case fe_resolve env loc (rq_url rq) of
                         None \<Rightarrow> ([rq], FetchThrew (OtherError ''Invalid URL''))
                       | Some next \<Rightarrow>
                           if ur_href next \<in> set visited then ([rq], FetchThrew (OtherError ''Redirect loop detected''))
                           else
                             (let headers = (if ur_origin next \<noteq> ur_origin (rq_url rq)
                                  then stripSensitiveHeadersForCrossOriginRedirect headers else headers);
                                  (rqs, res) = fetchLoop env policy pinDns maxRedirects (ur_href next) headers (Suc redirectCount) (ur_href next # visited)
                              in (rq # rqs, res))))))"
  by pat_completeness auto

termination
  by (relation "measure (\<lambda>(env, policy, pinDns, maxRedirects, currentUrl, headers, redirectCount, visited). maxRedirects - redirectCount)") auto

declare fetchLoop.simps [simp del]

definition fetchWithSsrFGuard :: "fetch_env \<Rightarrow> GuardedFetchOptions \<Rightarrow> fetch_request list \<times> fetch_result" where
  "fetchWithSsrFGuard env params =
     (let maxRedirects = (case gf_maxRedirects params of Some n \<Rightarrow> nat (max 0 n) | None \<Rightarrow> DEFAULT_MAX_REDIRECTS)
      in fetchLoop env (gf_policy params) (gf_pinDns params) maxRedirects (gf_url params) (gf_headers params) 0 [])"

section \<open>What the guard guarantees\<close>

subsection \<open>Texts of addresses\<close>

lemma hexit_code: "n < 16 \<Longrightarrow> (of_char (hexit n) :: nat) = (if n < 10 then 48 + n else 87 + n)"
  by (simp add: hexit_def)

lemma hexit_facts: "n < 16 \<Longrightarrow> is_hex (hexit n) \<and> hexit_value (hexit n) = n"
  by (simp add: is_hex_def is_digit_def hexit_value_def digit_value_def lower_code hexit_code Let_def)

lemma hex_facts: "list_all is_hex (hex n) \<and> hex n \<noteq> [] \<and> hexits_value (hex n) = n"
proof (induction n rule: hex.induct)
  case (1 n)
  then show ?case by (subst (1 2 3) hex.simps) (auto simp: hexit_facts hexits_value_def)
qed

lemma hex_code: "is_hex c \<longleftrightarrow> (let n = (of_char c :: nat) in 48 \<le> n \<and> n \<le> 57 \<or> 65 \<le> n \<and> n \<le> 70 \<or> 97 \<le> n \<and> n \<le> 102)"
  by (auto simp: is_hex_def is_digit_def lower_code Let_def split: if_splits)

lemma hex_char:
  assumes "is_hex c"
  shows "\<not> is_ws c" "c \<noteq> CHR '':''" "c \<noteq> CHR ''-''" "c \<noteq> CHR ''+''" "c \<noteq> CHR ''x''" "c \<noteq> CHR ''X''" "c \<noteq> CHR ''%''"
  using assms by (auto simp: hex_code is_ws_code Let_def)

lemma parse_hex_hexits:
  assumes "list_all is_hex ds" "ds \<noteq> []"
  shows "parse_hex ds = Some (int (hexits_value ds))"
proof -
  obtain c r where ds: "ds = c # r" using assms(2) by (cases ds) auto
  have c: "\<not> is_ws c" "c \<noteq> CHR ''-''" "c \<noteq> CHR ''+''" using assms(1) hex_char [of c] by (auto simp: ds)
  have "\<not> (starts_with ds ''0x'' \<or> starts_with ds ''0X'')"
    using assms(1) hex_char by (cases r) (auto simp: ds starts_with_def)
  moreover have "takeWhile is_hex ds = ds" using assms(1) by (simp add: list_all_iff)
  ultimately show ?thesis using c by (simp add: parse_hex_def ds Let_def)
qed

lemma parseGroup_hex: "n < 65536 \<Longrightarrow> parseGroup (hex n) = Some (of_nat n)"
  using hex_facts [of n] by (simp add: parseGroup_def parse_hex_hexits)

lemma hex_no_colon: "CHR '':'' \<notin> set (hex n)" "CHR ''%'' \<notin> set (hex n)"
  using hex_facts [of n] hex_char(2) [of "CHR '':''"] hex_char(7) [of "CHR ''%''"] by (auto simp: list_all_iff)

lemma split_hex_pair: "split_on CHR '':'' (hex m @ '':'' @ hex n) = [hex m, hex n]"
  using split_on_step [OF hex_no_colon(1), of m "hex n"] split_on_word [OF hex_no_colon(1), of n] by simp

lemma parseIpv4_dotted:
  assumes "a \<le> 255" "b \<le> 255" "c \<le> 255" "d \<le> 255"
  shows "parseIpv4 (dotted a b c d) = Some [a, b, c, d]"
proof -
  have o: "parseStrictIpv4Octet (dec n) = Some n" if "n \<le> 255" for n
    using that by (simp add: parseStrictIpv4Octet_def dec_digits)
  show ?thesis using assms by (simp add: parseIpv4_def split_dotted o dec_digits)
qed

lemma dotted_chars: "ch \<in> set (dotted a b c d) \<Longrightarrow> is_digit ch \<or> ch = CHR ''.''"
  using dec_digits(1) by (auto simp: dotted_def list_all_iff)

lemma dotted_ends: "dotted a b c d \<noteq> []" "is_digit (hd (dotted a b c d))" "is_digit (last (dotted a b c d))"
  using dec_digits [of a] dec_digits [of d] by (auto simp: dotted_def list_all_iff)

lemma digit_plain:
  assumes "is_digit ch \<or> ch = CHR ''.''"
  shows "\<not> is_ws ch" "lower_char ch = ch" "ch \<noteq> CHR '':''" "ch \<noteq> CHR ''[''" "ch \<noteq> CHR ''%''"
  using assms by (auto simp: is_digit_def is_ws_code char_code_eq lower_code Let_def)

subsection \<open>The classification of addresses\<close>

text \<open>A block of addresses, compared as the quotients of the 32-bit values by the size of the block.\<close>

definition in_block :: "nat \<Rightarrow> nat \<times> nat \<Rightarrow> bool" where
  "in_block v blk \<longleftrightarrow> (case blk of (base, bits) \<Rightarrow> v div 2 ^ (32 - bits) = base div 2 ^ (32 - bits))"

text \<open>This network, the private, shared, loopback and link-local blocks of RFC 1122, 1918, 3927 and 6598.\<close>

definition INTERNAL_BLOCKS :: "(nat \<times> nat) list" where
  "INTERNAL_BLOCKS = [(ipv4_value 0 0 0 0, 8), (ipv4_value 10 0 0 0, 8), (ipv4_value 127 0 0 0, 8), (ipv4_value 169 254 0 0, 16),
     (ipv4_value 172 16 0 0, 12), (ipv4_value 192 168 0 0, 16), (ipv4_value 100 64 0 0, 10)]"

lemma block_quotients:
  assumes "a \<le> 255" "b \<le> 255" "c \<le> 255" "d \<le> 255"
  shows "ipv4_value a b c d div 16777216 = a" "ipv4_value a b c d div 65536 = a * 256 + b"
    "ipv4_value a b c d div 1048576 = a * 16 + b div 16" "ipv4_value a b c d div 4194304 = a * 4 + b div 64"
proof -
  show "ipv4_value a b c d div 16777216 = a" using assms unfolding ipv4_value_def by simp
  show q: "ipv4_value a b c d div 65536 = a * 256 + b" using assms unfolding ipv4_value_def by simp
  have "ipv4_value a b c d div 1048576 = ipv4_value a b c d div 65536 div 16" by (simp add: div_mult2_eq [symmetric])
  then show "ipv4_value a b c d div 1048576 = a * 16 + b div 16" unfolding q by simp
  have "ipv4_value a b c d div 4194304 = ipv4_value a b c d div 65536 div 64" by (simp add: div_mult2_eq [symmetric])
  then show "ipv4_value a b c d div 4194304 = a * 4 + b div 64" unfolding q by simp
qed

lemma digit_pair: "(y::nat) < k \<Longrightarrow> v < k \<Longrightarrow> x * k + y = u * k + v \<longleftrightarrow> x = u \<and> y = v"
  by (metis div_mult_self3 mod_mult_self3 div_less mod_less add.right_neutral less_nat_zero_code)

lemma div_eq_one:
  assumes "0 < k"
  shows "(n::nat) div k = 1 \<longleftrightarrow> k \<le> n \<and> n < 2 * k"
proof
  assume "n div k = 1"
  then have "n = k + n mod k" using div_mult_mod_eq [of n k] by simp
  then show "k \<le> n \<and> n < 2 * k" using mod_less_divisor [OF assms, of n] by linarith
next
  assume "k \<le> n \<and> n < 2 * k"
  then show "n div k = 1" by (intro div_nat_eqI) auto
qed

lemma isPrivateIpv4_blocks:
  assumes "a \<le> 255" "b \<le> 255" "c \<le> 255" "d \<le> 255"
  shows "isPrivateIpv4 [a, b, c, d] \<longleftrightarrow> list_ex (in_block (ipv4_value a b c d)) INTERNAL_BLOCKS"
proof -
  have "list_ex (in_block (ipv4_value a b c d)) INTERNAL_BLOCKS \<longleftrightarrow>
      a = 0 \<or> a = 10 \<or> a = 127 \<or> a * 256 + b = 169 * 256 + 254 \<or> a * 16 + b div 16 = 172 * 16 + 1 \<or>
      a * 256 + b = 192 * 256 + 168 \<or> a * 4 + b div 64 = 100 * 4 + 1"
    by (simp add: INTERNAL_BLOCKS_def in_block_def block_quotients [OF assms]) (simp add: ipv4_value_def)
  moreover have "a * 256 + b = 169 * 256 + 254 \<longleftrightarrow> a = 169 \<and> b = 254" "a * 256 + b = 192 * 256 + 168 \<longleftrightarrow> a = 192 \<and> b = 168"
    using assms(2) by (intro digit_pair; simp)+
  moreover have "a * 16 + b div 16 = 172 * 16 + 1 \<longleftrightarrow> a = 172 \<and> b div 16 = 1" "a * 4 + b div 64 = 100 * 4 + 1 \<longleftrightarrow> a = 100 \<and> b div 64 = 1"
    using assms(2) by (intro digit_pair; linarith)+
  moreover have "b div 16 = 1 \<longleftrightarrow> 16 \<le> b \<and> b \<le> 31" "b div 64 = 1 \<longleftrightarrow> 64 \<le> b \<and> b \<le> 127"
    by (auto simp: div_eq_one)
  moreover have "isPrivateIpv4 [a, b, c, d] \<longleftrightarrow> a = 0 \<or> a = 10 \<or> a = 127 \<or> a = 169 \<and> b = 254 \<or> a = 172 \<and> 16 \<le> b \<and> b \<le> 31 \<or>
      a = 192 \<and> b = 168 \<or> a = 100 \<and> 64 \<le> b \<and> b \<le> 127"
    by (simp add: isPrivateIpv4_def)
  ultimately show ?thesis by (simp only:)
qed

lemma hextet_octets:
  assumes "x \<le> 255" "y \<le> 255"
  shows "unat (drop_bit 8 (of_nat (x * 256 + y) :: 16 word) AND 0xff) = x" "unat ((of_nat (x * 256 + y) :: 16 word) AND 0xff) = y"
proof -
  define n where "n = x * 256 + y"
  have "n < 65536" using assms by (simp add: n_def)
  then have u: "unat (of_nat n :: 16 word) = n" by (simp add: unat_of_nat take_bit_nat_eq_self)
  have m: "w AND 0xff = take_bit 8 w" for w :: "16 word"
    by (simp add: take_bit_eq_mask mask_eq_exp_minus_1)
  have "n div 256 = x" "n mod 256 = y" using assms by (simp_all add: n_def)
  then show "unat (drop_bit 8 (of_nat (x * 256 + y) :: 16 word) AND 0xff) = x" "unat ((of_nat (x * 256 + y) :: 16 word) AND 0xff) = y"
    using assms unfolding m n_def [symmetric] unsigned_take_bit_eq unat_drop_bit_eq u
    by (simp_all add: take_bit_eq_mod drop_bit_eq_div)
qed

lemma decode_of_nat:
  assumes "a \<le> 255" "b \<le> 255" "c \<le> 255" "d \<le> 255"
  shows "decodeIpv4FromHextets (of_nat (a * 256 + b)) (of_nat (c * 256 + d)) = [a, b, c, d]"
  using assms by (simp only: decodeIpv4FromHextets_def hextet_octets)

lemma split_colons_words: "[] \<notin> set (tl (split_on CHR '':'' s)) \<Longrightarrow> split_colons s = [s]"
proof (induction s rule: split_colons.induct)
  case (1 a b s)
  obtain w ws where sp: "split_on CHR '':'' (b # s) = w # ws" by (cases "split_on CHR '':'' (b # s)") (auto split: if_splits list.splits)
  have b: "b = CHR '':'' \<Longrightarrow> w = []" using sp by auto
  from "1.prems" sp b have "\<not> (a = CHR '':'' \<and> b = CHR '':'')" "[] \<notin> set ws" by (auto split: if_splits)
  then show ?case using "1.IH"(2) sp by auto
qed auto

lemma after_last_colon: "CHR '':'' \<notin> set t \<Longrightarrow> after_last_colon (u @ '':'' @ t) = t"
  by (simp add: after_last_colon_def takeWhile_append)

lemma expandIpv4Tail_dotted:
  assumes "a \<le> 255" "b \<le> 255" "c \<le> 255" "d \<le> 255"
  shows "expandIpv4Tail (u @ '':'' @ dotted a b c d) = Some (u @ '':'' @ hex (a * 256 + b) @ '':'' @ hex (c * 256 + d))"
proof -
  have "CHR '':'' \<notin> set (dotted a b c d)" using dotted_chars digit_plain(3) by blast
  then have l: "after_last_colon (u @ '':'' @ dotted a b c d) = dotted a b c d" by (rule after_last_colon)
  have "CHR ''.'' \<in> set (dotted a b c d)" by (simp add: dotted_def)
  then show ?thesis by (simp add: expandIpv4Tail_def l parseIpv4_dotted [OF assms] before_last_colon_def del: append.simps)
qed

lemma hex_pair_groups: "split_colons (hex m @ '':'' @ hex n) = [hex m @ '':'' @ hex n]" "groups_of (hex m @ '':'' @ hex n) = [hex m, hex n]"
  "split_colons (''ffff:'' @ hex m @ '':'' @ hex n) = [''ffff:'' @ hex m @ '':'' @ hex n]"
  "groups_of (''ffff:'' @ hex m @ '':'' @ hex n) = [''ffff'', hex m, hex n]"
proof -
  have f: "split_on CHR '':'' (''ffff:'' @ hex m @ '':'' @ hex n) = [''ffff'', hex m, hex n]"
    using split_on_step [of "CHR '':''" "''ffff''" "hex m @ '':'' @ hex n"] split_hex_pair [of m n] by simp
  have ne: "hex n \<noteq> []" "hex m \<noteq> []" "[] \<noteq> hex n" "[] \<noteq> hex m" using hex_facts [of n] hex_facts [of m] by auto
  show "split_colons (hex m @ '':'' @ hex n) = [hex m @ '':'' @ hex n]"
    by (rule split_colons_words) (simp only: split_hex_pair, simp add: ne)
  show "split_colons (''ffff:'' @ hex m @ '':'' @ hex n) = [''ffff:'' @ hex m @ '':'' @ hex n]"
    by (rule split_colons_words) (simp only: f, simp add: ne)
  show "groups_of (hex m @ '':'' @ hex n) = [hex m, hex n]" "groups_of (''ffff:'' @ hex m @ '':'' @ hex n) = [''ffff'', hex m, hex n]"
    using ne by (simp_all add: groups_of_def split_hex_pair f del: append.simps)
qed

text \<open>The texts in front of a dotted address, and the six groups they stand for.\<close>

definition embedding_prefixes :: "(string \<times> 16 word list) list" where
  "embedding_prefixes = [(''::'', [0, 0, 0, 0, 0, 0]), (''::ffff:'', [0, 0, 0, 0, 0, 0xffff]),
     (''64:ff9b::'', [0x64, 0xff9b, 0, 0, 0, 0]), (''64:ff9b:1::'', [0x64, 0xff9b, 1, 0, 0, 0])]"

lemma group_consts: "parseGroup ''0'' = Some 0" "parseGroup ''1'' = Some 1" "parseGroup ''64'' = Some 0x64" "parseGroup ''ff9b'' = Some 0xff9b" "parseGroup ''ffff'' = Some 0xffff"
proof -
  have h: "hex 0 = ''0''" "hex 1 = ''1''" "hex 100 = ''64''" "hex 65435 = ''ff9b''" "hex 65535 = ''ffff''"
    by (simp_all add: hex.simps [of 0] hex.simps [of "Suc 0"] hex.simps [of 100] hex.simps [of 6] hex.simps [of 65435] hex.simps [of 4089] hex.simps [of 255] hex.simps [of 15] hex.simps [of 65535] hex.simps [of 4095] hexit_def char_of_def bit_iff_odd)
  show "parseGroup ''0'' = Some 0" "parseGroup ''1'' = Some 1" "parseGroup ''64'' = Some 0x64" "parseGroup ''ff9b'' = Some 0xff9b" "parseGroup ''ffff'' = Some 0xffff"
    using parseGroup_hex [of 0] parseGroup_hex [of 1] parseGroup_hex [of 100] parseGroup_hex [of 65435] parseGroup_hex [of 65535] by (simp_all only: h) simp_all
qed

lemma prefix_groups: "groups_of [] = []" "groups_of ''64:ff9b'' = [''64'', ''ff9b'']" "groups_of ''64:ff9b:1'' = [''64'', ''ff9b'', ''1'']"
  by code_simp+

lemma fillGroups_prefix:
  fixes m n
  defines "x \<equiv> hex m @ '':'' @ hex n"
  shows "fillGroups (''::'' @ x) = Some (replicate 6 ''0'' @ [hex m, hex n])"
    "fillGroups (''::ffff:'' @ x) = Some (replicate 5 ''0'' @ [''ffff'', hex m, hex n])"
    "fillGroups (''64:ff9b::'' @ x) = Some ([''64'', ''ff9b''] @ replicate 4 ''0'' @ [hex m, hex n])"
    "fillGroups (''64:ff9b:1::'' @ x) = Some ([''64'', ''ff9b'', ''1''] @ replicate 3 ''0'' @ [hex m, hex n])"
proof -
  have s: "split_colons (''::'' @ x) = [[], x]" "split_colons (''::ffff:'' @ x) = [[], ''ffff:'' @ x]"
    "split_colons (''64:ff9b::'' @ x) = [''64:ff9b'', x]" "split_colons (''64:ff9b:1::'' @ x) = [''64:ff9b:1'', x]"
    using hex_pair_groups(1,3) [of m n] by (simp_all add: x_def)
  have g: "groups_of x = [hex m, hex n]" "groups_of (''ffff:'' @ x) = [''ffff'', hex m, hex n]"
    unfolding x_def by (rule hex_pair_groups)+
  show "fillGroups (''::'' @ x) = Some (replicate 6 ''0'' @ [hex m, hex n])" unfolding fillGroups_def s by (simp add: g prefix_groups)
  show "fillGroups (''::ffff:'' @ x) = Some (replicate 5 ''0'' @ [''ffff'', hex m, hex n])" using g(2) unfolding fillGroups_def s by (simp add: prefix_groups)
  show "fillGroups (''64:ff9b::'' @ x) = Some ([''64'', ''ff9b''] @ replicate 4 ''0'' @ [hex m, hex n])" unfolding fillGroups_def s by (simp add: g prefix_groups)
  show "fillGroups (''64:ff9b:1::'' @ x) = Some ([''64'', ''ff9b'', ''1''] @ replicate 3 ''0'' @ [hex m, hex n])" unfolding fillGroups_def s by (simp add: g prefix_groups)
qed

lemma fillGroups_embedding:
  assumes "(p, ws) \<in> set embedding_prefixes" "m < 65536" "n < 65536"
  shows "Option.bind (fillGroups (p @ hex m @ '':'' @ hex n)) parseGroups = Some (ws @ [of_nat m, of_nat n])"
  using assms(1) fillGroups_prefix [of m n]
  by (auto simp: embedding_prefixes_def group_consts parseGroup_hex [OF assms(2)] parseGroup_hex [OF assms(3)] eval_nat_numeral)

definition plain_char :: "char \<Rightarrow> bool" where
  "plain_char ch \<longleftrightarrow> \<not> is_ws ch \<and> lower_char ch = ch \<and> ch \<noteq> CHR ''['' \<and> ch \<noteq> CHR ''%''"

lemma plain_text:
  assumes "list_all plain_char s" "s \<noteq> []"
  shows "trim s = s" "to_lower s = s" "unbracket s = s" "stripIpv6ZoneId s = s"
proof -
  show "trim s = s" using assms by (intro trim_eq_self) (auto simp: plain_char_def list_all_iff)
  show "to_lower s = s" using assms(1) by (simp add: to_lower_def plain_char_def list_all_iff map_idI)
  show "unbracket s = s" using assms by (cases s) (auto simp: unbracket_def starts_with_def plain_char_def)
  show "stripIpv6ZoneId s = s" using assms(1) by (auto simp: stripIpv6ZoneId_def takeWhile_eq_all_conv plain_char_def list_all_iff)
qed

lemma plain_dotted: "list_all plain_char (dotted a b c d)"
  unfolding list_all_iff plain_char_def
proof (intro ballI)
  fix ch assume "ch \<in> set (dotted a b c d)"
  then have "is_digit ch \<or> ch = CHR ''.''" by (rule dotted_chars)
  then show "\<not> is_ws ch \<and> lower_char ch = ch \<and> ch \<noteq> CHR ''['' \<and> ch \<noteq> CHR ''%''" using digit_plain by simp
qed

lemma plain_code: "38 \<le> (of_char c :: nat) \<and> (of_char c :: nat) \<le> 64 \<or> 92 \<le> (of_char c :: nat) \<and> (of_char c :: nat) < 128 \<Longrightarrow> plain_char c"
  by (auto simp: plain_char_def is_ws_code char_code_eq lower_code Let_def)

lemma plain_prefixes: "(p, ws) \<in> set embedding_prefixes \<Longrightarrow> list_all plain_char p \<and> p \<noteq> [] \<and> last p = CHR '':''"
proof -
  have c: "plain_char CHR '':''" "plain_char CHR ''f''" "plain_char CHR ''6''" "plain_char CHR ''4''" "plain_char CHR ''9''" "plain_char CHR ''b''" "plain_char CHR ''1''"
    by (simp_all add: plain_code)
  assume "(p, ws) \<in> set embedding_prefixes"
  then show ?thesis by (auto simp: embedding_prefixes_def c)
qed

lemma parseIpv6_embedded:
  assumes "a \<le> 255" "b \<le> 255" "c \<le> 255" "d \<le> 255" and p: "(p, ws) \<in> set embedding_prefixes"
  shows "parseIpv6Hextets (p @ dotted a b c d) = Some (ws @ [of_nat (a * 256 + b), of_nat (c * 256 + d)])"
proof -
  obtain u where u: "p = u @ '':''" using plain_prefixes [OF p] by (metis append_butlast_last_id)
  have pl: "list_all plain_char (p @ dotted a b c d)" "p @ dotted a b c d \<noteq> []"
    using plain_prefixes [OF p] plain_dotted dotted_ends(1) by auto
  have "expandIpv4Tail (p @ dotted a b c d) = Some (p @ hex (a * 256 + b) @ '':'' @ hex (c * 256 + d))"
    using expandIpv4Tail_dotted [OF assms(1-4), of u] by (simp add: u)
  moreover have "a * 256 + b < 65536" "c * 256 + d < 65536" using assms(1-4) by linarith+
  ultimately show ?thesis
    using fillGroups_embedding [OF p, of "a * 256 + b" "c * 256 + d"] pl
    by (simp only: parseIpv6Hextets_def Let_def plain_text(1,2,4) [OF pl] bind.simps if_False)
qed

lemma extract_embedded:
  assumes "(p, ws) \<in> set embedding_prefixes"
  shows "extractIpv4FromEmbeddedIpv6 (ws @ [hi, lo]) = Some (decodeIpv4FromHextets hi lo)"
proof -
  consider "ws = [0, 0, 0, 0, 0, 0]" | "ws = [0, 0, 0, 0, 0, 0xffff]" | "ws = [0x64, 0xff9b, 0, 0, 0, 0]" | "ws = [0x64, 0xff9b, 1, 0, 0, 0]"
    using assms by (auto simp: embedding_prefixes_def)
  then show ?thesis by cases (simp_all add: extractIpv4FromEmbeddedIpv6_def EMBEDDED_IPV4_RULES_def)
qed

lemma isPrivateHextets_embedded:
  assumes "(p, ws) \<in> set embedding_prefixes"
  shows "isPrivateHextets (ws @ [hi, lo]) \<longleftrightarrow> isPrivateIpv4 (decodeIpv4FromHextets hi lo)"
proof -
  have "hi = 0 \<Longrightarrow> isPrivateIpv4 (decodeIpv4FromHextets hi lo)" by (simp add: decodeIpv4FromHextets_def isPrivateIpv4_def)
  moreover have "ws @ [hi, lo] = [0, 0, 0, 0, 0, 0, 0, k] \<Longrightarrow> hi = 0" for k
  proof -
    assume "ws @ [hi, lo] = [0, 0, 0, 0, 0, 0, 0, k]"
    then have "(ws @ [hi, lo]) ! 6 = 0" by simp
    moreover have "length ws = 6" using assms by (auto simp: embedding_prefixes_def)
    ultimately show "hi = 0" by (simp add: nth_append)
  qed
  ultimately show ?thesis by (auto simp only: isPrivateHextets_def Let_def extract_embedded [OF assms] option.case if_True if_False split: if_split)
qed

text \<open>(C36) Private IPv4 addresses are recognised exactly: for every four octets, the dotted text, and the IPv6 texts that carry it
  as an IPv4-compatible, IPv4-mapped or NAT64 address, are classified private if and only if the
  32-bit value lies in one of the internal blocks, compared by their leading bits.
\<close>

theorem private_ipv4_exact:
  assumes "a \<le> 255" "b \<le> 255" "c \<le> 255" "d \<le> 255"
    and "p \<in> {'''', ''::'', ''::ffff:'', ''64:ff9b::'', ''64:ff9b:1::''}"
  shows "isPrivateIpAddress (p @ dotted a b c d) \<longleftrightarrow> list_ex (in_block (ipv4_value a b c d)) INTERNAL_BLOCKS"
proof (cases "p = []")
  case True
  have "CHR '':'' \<notin> set (dotted a b c d)" using dotted_chars digit_plain(3) by blast
  then show ?thesis using True plain_text(1-3) [OF plain_dotted dotted_ends(1)] dotted_ends(1)
    by (simp add: isPrivateIpAddress_def parseIpv4_dotted [OF assms(1-4)] isPrivateIpv4_blocks [OF assms(1-4)])
next
  case False
  then obtain ws where p: "(p, ws) \<in> set embedding_prefixes" using assms(5) by (auto simp: embedding_prefixes_def)
  have pl: "list_all plain_char (p @ dotted a b c d)" "p @ dotted a b c d \<noteq> []" "CHR '':'' \<in> set (p @ dotted a b c d)"
    using plain_prefixes [OF p] last_in_set [of p] plain_dotted dotted_ends(1) by auto
  show ?thesis using pl(2,3)
    by (simp only: isPrivateIpAddress_def Let_def plain_text(1-3) [OF pl(1,2)] parseIpv6_embedded [OF assms(1-4) p] option.simps
        isPrivateHextets_embedded [OF p] decode_of_nat [OF assms(1-4)] isPrivateIpv4_blocks [OF assms(1-4)] if_False if_True)
qed

lemma private_ipv4_exact_witness:
  "isPrivateIpAddress (''::ffff:'' @ dotted 172 31 0 1) \<longleftrightarrow> list_ex (in_block (ipv4_value 172 31 0 1)) INTERNAL_BLOCKS"
  by (rule private_ipv4_exact) simp_all

subsection \<open>The loop of requests\<close>

lemma resolvePinned_Inr:
  assumes "resolvePinnedHostnameWithPolicy lookup policy hostname = Inr pinned"
  shows "ph_hostname pinned = normalizeHostname hostname" "normalizeHostname hostname \<noteq> []"
    "matchesHostnameAllowlist (normalizeHostname hostname) (normalizeHostnameAllowlist (sp_hostnameAllowlist policy))"
    "\<exists>results. lookup (normalizeHostname hostname) = Inr results \<and> results \<noteq> [] \<and> ph_addresses pinned = set_of_list results"
    "sp_allowPrivateNetwork policy \<or> normalizeHostname hostname \<in> set (normalizeHostnameSet (sp_allowedHostnames policy)) \<or>
       \<not> isBlockedHostnameOrIp (normalizeHostname hostname) \<and> \<not> list_ex isPrivateIpAddress (ph_addresses pinned)"
  using assms by (auto simp: resolvePinnedHostnameWithPolicy_def Let_def list_ex_iff split: if_splits sum.splits)

text \<open>What a request promises: where it goes was checked, and to which addresses.\<close>

definition exempt :: "SsrFPolicy \<Rightarrow> string \<Rightarrow> bool" where
  "exempt policy host \<longleftrightarrow> sp_allowPrivateNetwork policy \<or> host \<in> set (normalizeHostnameSet (sp_allowedHostnames policy))"

definition request_ok :: "SsrFPolicy \<Rightarrow> bool option \<Rightarrow> fetch_request \<Rightarrow> bool" where
  "request_ok policy pinDns rq \<longleftrightarrow>
     (let host = normalizeHostname (ur_hostname (rq_url rq)) in
      isHttpUrl (rq_url rq) \<and> host \<noteq> [] \<and> ph_hostname (rq_checked rq) = host \<and> ph_addresses (rq_checked rq) \<noteq> [] \<and>
      matchesHostnameAllowlist host (normalizeHostnameAllowlist (sp_hostnameAllowlist policy)) \<and>
      (exempt policy host \<or> \<not> isBlockedHostnameOrIp host \<and> \<not> list_ex isPrivateIpAddress (ph_addresses (rq_checked rq))) \<and>
      rq_dispatcher rq = (if pinDns = Some False then None else Some (rq_checked rq)))"

lemma guardRequest_Inr:
  assumes "guardRequest env policy pinDns n url hs = Inr rq"
  shows "request_ok policy pinDns rq" "rq_headers rq = hs" "fe_parse env url = Some (rq_url rq)"
proof -
  from assms obtain u pinned where u: "fe_parse env url = Some u" "isHttpUrl u"
    and r: "resolvePinnedHostnameWithPolicy (fe_lookup env n) policy (ur_hostname u) = Inr pinned"
    and rq: "rq = \<lparr>rq_url = u, rq_headers = hs, rq_checked = pinned, rq_dispatcher = (if pinDns \<noteq> Some False then Some pinned else None)\<rparr>"
    by (auto simp: guardRequest_def split: option.splits if_splits sum.splits)
  have "ph_addresses pinned \<noteq> []" using resolvePinned_Inr(4) [OF r] by (metis set_empty set_set_of_list)
  then show "request_ok policy pinDns rq" using resolvePinned_Inr(1-3,5) [OF r] u(2)
    by (auto simp: request_ok_def exempt_def Let_def rq)
  show "rq_headers rq = hs" "fe_parse env url = Some (rq_url rq)" using u(1) by (simp_all add: rq)
qed

lemma fetchLoop_cases:
  assumes "fetchLoop env policy pinDns m url hs n vis = (rqs, res)"
  obtains (refused) "rqs = []"
  | (last) rq where "guardRequest env policy pinDns n url hs = Inr rq" "rqs = [rq]"
  | (redirect) rq loc nxt rqs' where "guardRequest env policy pinDns n url hs = Inr rq" "Suc n \<le> m"
      "fe_resolve env loc (rq_url rq) = Some nxt" "ur_href nxt \<notin> set vis" "rqs = rq # rqs'"
      "fetchLoop env policy pinDns m (ur_href nxt)
         (if ur_origin nxt \<noteq> ur_origin (rq_url rq) then stripSensitiveHeadersForCrossOriginRedirect hs else hs)
         (Suc n) (ur_href nxt # vis) = (rqs', res)"
  using assms by (subst (asm) fetchLoop.simps)
    (auto simp: Let_def split: sum.splits fetch_response.splits if_splits option.splits prod.splits)

lemma fetchLoop_requests:
  assumes "fetchLoop env policy pinDns m url hs n vis = (rqs, res)" "n \<le> m"
  shows "list_all (request_ok policy pinDns) rqs \<and> length rqs \<le> Suc (m - n)"
  using assms
proof (induction rqs arbitrary: url hs n vis)
  case (Cons r rqs)
  from Cons.prems(1) show ?case
  proof (cases rule: fetchLoop_cases)
    case (last rq)
    then show ?thesis using guardRequest_Inr(1) by auto
  next
    case (redirect rq loc nxt rqs')
    then have "list_all (request_ok policy pinDns) rqs \<and> length rqs \<le> Suc (m - Suc n)" by (intro Cons.IH) auto
    then show ?thesis using redirect guardRequest_Inr(1) [OF redirect(1)] by auto
  qed auto
qed auto

text \<open>(C16) Every request that leaves, the first and those after redirects, is checked: it is http or https, its host is in the
  allowlist when there is one, and, unless the policy exempts it, the host is not blocked and no address found for it by this check
  is private. At most \<open>maxRedirects + 1\<close> requests leave. A request goes out with a dispatcher made for the host and the addresses checked, unless
  pinning is turned off; which addresses its connection then uses is the subject of \<open>pinned_connection_checked\<close>.
\<close>

theorem guarded_fetch_contained:
  assumes "fetchWithSsrFGuard env params = (rqs, res)"
  shows "list_all (request_ok (gf_policy params) (gf_pinDns params)) rqs \<and>
    length rqs \<le> Suc (case gf_maxRedirects params of Some n \<Rightarrow> nat n | None \<Rightarrow> 3)"
proof -
  have "nat (max 0 n) = nat n" for n :: int by simp
  then show ?thesis using fetchLoop_requests [OF assms [unfolded fetchWithSsrFGuard_def Let_def]]
    by (simp add: DEFAULT_MAX_REDIRECTS_def split: option.splits)
qed

text \<open>An example: a page of one site redirects to another site, which answers.\<close>

definition ex_url :: "string \<Rightarrow> url_parts" where
  "ex_url host = \<lparr>ur_protocol = ''https:'', ur_hostname = host, ur_origin = ''https://'' @ host, ur_href = ''https://'' @ host @ ''/''\<rparr>"

definition ex_env :: fetch_env where
  "ex_env = \<lparr>fe_parse = (\<lambda>s. if s = ''https://a.org/'' then Some (ex_url ''a.org'') else if s = ''https://b.org/'' then Some (ex_url ''b.org'') else None),
     fe_resolve = (\<lambda>s u. if s = ''https://b.org/'' then Some (ex_url ''b.org'') else None),
     fe_lookup = (\<lambda>n h. Inr [''8.8.8.8'']),
     fe_respond = (\<lambda>n. if n = 0 then Response 302 (Some ''https://b.org/'') else Response 200 None)\<rparr>"

definition ex_params :: GuardedFetchOptions where
  "ex_params = \<lparr>gf_url = ''https://a.org/'', gf_headers = Some [(''Authorization'', ''s''), (''Accept'', ''x'')],
     gf_maxRedirects = Some 2, gf_policy = noPolicy, gf_pinDns = None\<rparr>"

lemma ex_fetch: "map (\<lambda>rq. (ur_hostname (rq_url rq), rq_headers rq)) (fst (fetchWithSsrFGuard ex_env ex_params)) =
   [(''a.org'', Some [(''Authorization'', ''s''), (''Accept'', ''x'')]), (''b.org'', Some [(''accept'', ''x'')])]"
  by code_simp

lemma guarded_fetch_contained_witness:
  "let (rqs, res) = fetchWithSsrFGuard ex_env ex_params in
   map (ur_hostname \<circ> rq_url) rqs = [''a.org'', ''b.org''] \<and> list_all (request_ok noPolicy None) rqs \<and> length rqs \<le> 3"
proof -
  obtain rqs res where f: "fetchWithSsrFGuard ex_env ex_params = (rqs, res)" by (cases "fetchWithSsrFGuard ex_env ex_params")
  have "map fst (map (\<lambda>rq. (ur_hostname (rq_url rq), rq_headers rq)) rqs) = [''a.org'', ''b.org'']" using ex_fetch by (simp add: f)
  then show ?thesis using guarded_fetch_contained [OF f] by (simp add: f comp_def) (simp add: ex_params_def)
qed

definition clean_headers :: "fetch_headers \<Rightarrow> bool" where
  "clean_headers hs \<longleftrightarrow> (case hs of None \<Rightarrow> True | Some hs \<Rightarrow> list_all (\<lambda>(k, v). to_lower k \<notin> set CROSS_ORIGIN_REDIRECT_SENSITIVE_HEADERS) hs)"

lemma clean_strip [simp]: "clean_headers (stripSensitiveHeadersForCrossOriginRedirect hs)"
  by (cases hs) (auto simp: clean_headers_def stripSensitiveHeadersForCrossOriginRedirect_def list_all_iff)

definition reparses :: "fetch_env \<Rightarrow> bool" where
  "reparses env \<longleftrightarrow> (\<forall>s u v. fe_resolve env s u = Some v \<longrightarrow> fe_parse env (ur_href v) = Some v)"

lemma fetchLoop_first:
  assumes "fetchLoop env policy pinDns m url hs n vis = (r # rqs, res)"
  shows "fe_parse env url = Some (rq_url r)" "rq_headers r = hs"
proof -
  from assms have "guardRequest env policy pinDns n url hs = Inr r" by (cases rule: fetchLoop_cases) simp_all
  then show "fe_parse env url = Some (rq_url r)" "rq_headers r = hs" by (rule guardRequest_Inr)+
qed

lemma fetchLoop_clean:
  assumes "fetchLoop env policy pinDns m url hs n vis = (rqs, res)" "clean_headers hs"
  shows "list_all (\<lambda>rq. clean_headers (rq_headers rq)) rqs"
  using assms
proof (induction rqs arbitrary: url hs n vis)
  case (Cons r rqs)
  from Cons.prems(1) show ?case
  proof (cases rule: fetchLoop_cases)
    case (redirect rq loc nxt rqs')
    have "rqs' = rqs" using redirect(5) by simp
    from Cons.IH [OF redirect(6) [unfolded this]] Cons.prems(2)
    have "list_all (\<lambda>rq. clean_headers (rq_headers rq)) rqs" by auto
    then show ?thesis using fetchLoop_first(2) [OF Cons.prems(1)] Cons.prems(2) by simp
  qed (use fetchLoop_first(2) [OF Cons.prems(1)] Cons.prems(2) in auto)
qed simp

lemma fetchLoop_left:
  assumes "reparses env" "fetchLoop env policy pinDns m url hs n vis = (us @ rq # vs, res)"
    "ur_origin (rq_url (hd (us @ [rq]))) = o1" "r \<in> set (us @ [rq])" "ur_origin (rq_url r) \<noteq> o1"
  shows "clean_headers (rq_headers rq)"
  using assms(2-)
proof (induction us arbitrary: url hs n vis)
  case (Cons f us)
  from Cons.prems(1) show ?case
  proof (cases rule: fetchLoop_cases)
    case (redirect first loc nxt rqs')
    have f: "first = f" and rqs': "rqs' = us @ rq # vs" using redirect(5) by auto
    let ?hs = "if ur_origin nxt \<noteq> ur_origin (rq_url f) then stripSensitiveHeadersForCrossOriginRedirect hs else hs"
    have first: "rq_url (hd (us @ [rq])) = nxt"
      using fetchLoop_first(1) [of env policy pinDns m "ur_href nxt"] redirect(3,6) assms(1)
      by (cases us) (fastforce simp: reparses_def rqs' f)+
    show ?thesis
    proof (cases "ur_origin nxt = o1")
      case True
      then show ?thesis using Cons.IH [OF redirect(6) [unfolded rqs' f]] first Cons.prems(2-4) by auto
    next
      case False
      then have "clean_headers ?hs" using Cons.prems(2) by simp
      then show ?thesis using fetchLoop_clean [OF redirect(6) [unfolded rqs' f]] by simp
    qed
  qed auto
qed auto

lemma fetchLoop_distinct:
  assumes "reparses env" "fetchLoop env policy pinDns m url hs n vis = (rqs, res)"
  shows "distinct (map (ur_href \<circ> rq_url) (tl rqs)) \<and> set (map (ur_href \<circ> rq_url) (tl rqs)) \<inter> set vis = {}"
  using assms(2)
proof (induction rqs arbitrary: url hs n vis)
  case (Cons r rqs)
  from Cons.prems show ?case
  proof (cases rule: fetchLoop_cases)
    case (redirect rq loc nxt rqs')
    then have ih: "distinct (map (ur_href \<circ> rq_url) (tl rqs)) \<and> set (map (ur_href \<circ> rq_url) (tl rqs)) \<inter> set (ur_href nxt # vis) = {}"
      by (intro Cons.IH) auto
    show ?thesis
    proof (cases rqs)
      case (Cons r' rest)
      then have "rq_url r' = nxt" using fetchLoop_first(1) [of env policy pinDns m "ur_href nxt"] redirect(3,5,6) assms(1)
        by (fastforce simp: reparses_def)
      then show ?thesis using ih redirect(4) Cons by (auto simp: comp_def)
    qed simp
  qed auto
qed simp

text \<open>(C17) Credentials stay with the site they were meant for: once a redirect has left the origin of the first request, no later request
  carries an authorization or cookie header, not even after a redirect back. No redirect is followed to a URL twice. The hypothesis is that the URL parser reads back what it prints.
\<close>

theorem credentials_stay_home:
  assumes "\<forall>s u v. fe_resolve env s u = Some v \<longrightarrow> fe_parse env (ur_href v) = Some v"
    and "fetchWithSsrFGuard env params = (rqs, res)"
  shows "(\<forall>us rq vs r. rqs = us @ rq # vs \<longrightarrow> r \<in> set (us @ [rq]) \<longrightarrow> ur_origin (rq_url r) \<noteq> ur_origin (rq_url (hd rqs)) \<longrightarrow>
      clean_headers (rq_headers rq)) \<and> distinct (map (ur_href \<circ> rq_url) (tl rqs))"
proof (intro conjI allI impI)
  note loop = assms(2) [unfolded fetchWithSsrFGuard_def Let_def]
  have re: "reparses env" using assms(1) by (simp add: reparses_def)
  show "distinct (map (ur_href \<circ> rq_url) (tl rqs))" using fetchLoop_distinct [OF re loop] by blast
  fix us rq vs r
  assume h: "rqs = us @ rq # vs" "r \<in> set (us @ [rq])" "ur_origin (rq_url r) \<noteq> ur_origin (rq_url (hd rqs))"
  then have "hd rqs = hd (us @ [rq])" by (cases us) auto
  then show "clean_headers (rq_headers rq)" using fetchLoop_left [OF re loop [unfolded h(1)] refl h(2)] h(3) by simp
qed

lemma credentials_stay_home_witness:
  "distinct (map (ur_href \<circ> rq_url) (tl (fst (fetchWithSsrFGuard ex_env ex_params)))) \<and>
   clean_headers (rq_headers (fst (fetchWithSsrFGuard ex_env ex_params) ! 1))"
proof -
  obtain rqs res where f: "fetchWithSsrFGuard ex_env ex_params = (rqs, res)" by (cases "fetchWithSsrFGuard ex_env ex_params")
  have re: "\<forall>s u v. fe_resolve ex_env s u = Some v \<longrightarrow> fe_parse ex_env (ur_href v) = Some v" by (simp add: ex_env_def ex_url_def)
  obtain r1 r2 where rqs: "rqs = [r1, r2]"
    using arg_cong [OF ex_fetch, of length] unfolding f by (auto simp: length_Suc_conv numeral_2_eq_2)
  have "map (\<lambda>rq. ur_origin (rq_url rq)) (fst (fetchWithSsrFGuard ex_env ex_params)) = [''https://a.org'', ''https://b.org'']" by code_simp
  then have "ur_origin (rq_url r2) \<noteq> ur_origin (rq_url r1)" unfolding f rqs by simp
  then show ?thesis using credentials_stay_home [OF re f] unfolding f rqs by (auto dest!: spec [of _ "[r1]"])
qed

subsection \<open>The connection of a request\<close>

definition answer_addresses :: "lookup_answer \<Rightarrow> string list" where
  "answer_addresses ans = (case ans of AllAddresses rs \<Rightarrow> map fst rs | OneAddress a _ \<Rightarrow> [a] | NoAddress \<Rightarrow> [])"

lemma pinnedLookup_pinned:
  assumes "normalizeHostname host \<noteq> []" "normalizeHostname host = normalizeHostname (ph_hostname pinned)" "ph_addresses pinned \<noteq> []"
  shows "\<exists>ans. snd (pinnedLookup pinned i host family all) = Some ans \<and> answer_addresses ans \<noteq> [] \<and>
    set (answer_addresses ans) \<subseteq> set (ph_addresses pinned)"
proof -
  define records where "records = pinned_records (ph_addresses pinned)"
  define candidates where "candidates = (if family = 4 \<or> family = 6 then filter (\<lambda>r. snd r = family) records else records)"
  define usable where "usable = (if candidates \<noteq> [] then candidates else records)"
  have u: "usable \<noteq> []" "fst ` set usable \<subseteq> set (ph_addresses pinned)"
    using assms(3) by (auto simp: usable_def candidates_def records_def pinned_records_def)
  then have "usable ! (i mod length usable) \<in> set usable" by simp
  moreover have "pinnedLookup pinned i host family all =
      (if all then (i, Some (AllAddresses usable)) else (i + 1, Some (OneAddress (fst (usable ! (i mod length usable))) (snd (usable ! (i mod length usable))))))"
    using u(1) assms(1,2) unfolding pinnedLookup_def Let_def
    by (simp only: records_def [symmetric] candidates_def [symmetric] usable_def [symmetric]) simp
  ultimately show ?thesis using u by (auto simp: answer_addresses_def)
qed

text \<open>A normalised host that normalising leaves alone: no blanks, no dot at the end (there were two), not in brackets (there were two pairs).\<close>

definition settled_host :: "string \<Rightarrow> bool" where
  "settled_host n \<longleftrightarrow> list_all (\<lambda>c. \<not> is_ws c) n \<and> \<not> ends_with n ''.'' \<and> \<not> (starts_with n ''['' \<and> ends_with n '']'')"

lemma to_lower_unbracket: "to_lower s = s \<Longrightarrow> to_lower (unbracket s) = unbracket s"
  by (auto simp: unbracket_def to_lower_def map_butlast map_tl)

lemma to_lower_strip_dot: "to_lower s = s \<Longrightarrow> to_lower (strip_dot s) = strip_dot s"
  by (auto simp: strip_dot_def to_lower_def map_butlast)

lemma settled_normal:
  assumes "settled_host (normalizeHostname host)"
  shows "normalizeHostname (normalizeHostname host) = normalizeHostname host"
proof -
  let ?n = "normalizeHostname host"
  have "to_lower ?n = ?n" by (simp add: normalizeHostname_def to_lower_unbracket to_lower_strip_dot)
  moreover have "trim ?n = ?n" using assms by (cases "?n = []") (auto simp: settled_host_def list_all_iff intro!: trim_eq_self)
  ultimately have "normalizeHostname ?n = unbracket (strip_dot ?n)" by (simp add: normalizeHostname_def)
  then show ?thesis using assms by (auto simp: settled_host_def strip_dot_def unbracket_def)
qed

text \<open>(C37) No second resolution. Let pinning not be turned off, and let the host of a request, normalised, have no blanks, not end in a dot and not be
  bracketed (see \<open>trailing_dots_unpinned\<close> for one that does). When the connection asks for that host, whatever family it asks for and however
  often, it gets addresses that were checked for this request, whatever the system resolver would say, and none of them is private
  unless the policy exempts the host.
\<close>

theorem pinned_connection_checked:
  assumes "fetchWithSsrFGuard env params = (rqs, res)" and "rq \<in> set rqs"
    and "gf_pinDns params \<noteq> Some False" and "settled_host (normalizeHostname (ur_hostname (rq_url rq)))"
  shows "answer_addresses (snd (connectLookup system rq i (ur_hostname (rq_url rq)) family all)) \<noteq> [] \<and>
    set (answer_addresses (snd (connectLookup system rq i (ur_hostname (rq_url rq)) family all))) \<subseteq> set (ph_addresses (rq_checked rq)) \<and>
    (exempt (gf_policy params) (normalizeHostname (ur_hostname (rq_url rq))) \<or>
     \<not> list_ex isPrivateIpAddress (answer_addresses (snd (connectLookup system rq i (ur_hostname (rq_url rq)) family all))))"
proof -
  have ok: "request_ok (gf_policy params) (gf_pinDns params) rq"
    using fetchLoop_requests [OF assms(1) [unfolded fetchWithSsrFGuard_def Let_def]] assms(2) by (simp add: list_all_iff)
  then have host: "normalizeHostname (ur_hostname (rq_url rq)) \<noteq> []" "ph_hostname (rq_checked rq) = normalizeHostname (ur_hostname (rq_url rq))"
      "ph_addresses (rq_checked rq) \<noteq> []"
    and safe: "exempt (gf_policy params) (normalizeHostname (ur_hostname (rq_url rq))) \<or> \<not> list_ex isPrivateIpAddress (ph_addresses (rq_checked rq))"
    unfolding request_ok_def Let_def by blast+
  have "normalizeHostname (ur_hostname (rq_url rq)) = normalizeHostname (ph_hostname (rq_checked rq))"
    by (simp only: host(2) settled_normal [OF assms(4)])
  from pinnedLookup_pinned [OF host(1) this host(3)] obtain ans where
      ans: "snd (pinnedLookup (rq_checked rq) i (ur_hostname (rq_url rq)) family all) = Some ans" "answer_addresses ans \<noteq> []"
      "set (answer_addresses ans) \<subseteq> set (ph_addresses (rq_checked rq))" by blast
  have d: "rq_dispatcher rq = Some (rq_checked rq)" using ok assms(3) by (simp add: request_ok_def Let_def)
  have c: "snd (connectLookup system rq i (ur_hostname (rq_url rq)) family all) = ans"
    using ans(1) by (cases "pinnedLookup (rq_checked rq) i (ur_hostname (rq_url rq)) family all") (simp add: connectLookup_def d)
  have "list_ex isPrivateIpAddress (answer_addresses ans) \<Longrightarrow> list_ex isPrivateIpAddress (ph_addresses (rq_checked rq))"
    using ans(3) unfolding list_ex_iff by blast
  then show ?thesis using safe ans(2,3) unfolding c by blast
qed

lemma pinned_connection_checked_witness:
  "\<exists>rq. rq \<in> set (fst (fetchWithSsrFGuard ex_env ex_params)) \<and> ur_hostname (rq_url rq) = ''a.org'' \<and>
     set (answer_addresses (snd (connectLookup (\<lambda>_ _ _. OneAddress ''10.0.0.1'' 4) rq 5 ''a.org'' 6 False))) \<subseteq> set (ph_addresses (rq_checked rq))"
proof -
  obtain rqs res where f: "fetchWithSsrFGuard ex_env ex_params = (rqs, res)" by (cases "fetchWithSsrFGuard ex_env ex_params")
  obtain r1 r2 where rqs: "rqs = [r1, r2]" and h: "ur_hostname (rq_url r1) = ''a.org''"
    using ex_fetch unfolding f by (auto simp: Cons_eq_map_conv map_eq_Cons_conv)
  have "settled_host (normalizeHostname ''a.org'')" by code_simp
  moreover have "gf_pinDns ex_params \<noteq> Some False" by (simp add: ex_params_def)
  ultimately have "set (answer_addresses (snd (connectLookup (\<lambda>_ _ _. OneAddress ''10.0.0.1'' 4) r1 5 ''a.org'' 6 False))) \<subseteq> set (ph_addresses (rq_checked r1))"
    using pinned_connection_checked [OF f, of r1 "\<lambda>_ _ _. OneAddress ''10.0.0.1'' 4" 5 6 False] unfolding rqs h by simp
  then show ?thesis unfolding f rqs using h by (intro exI [of _ r1] conjI) simp_all
qed

subsection \<open>Where the guard falls short\<close>

text \<open>A link-local or unique-local address whose interface identifier has the ISATAP form is judged by the IPv4 address in it alone.\<close>

lemma isatap_hides_local:
  "\<not> isPrivateHextets [0xfe80, 0, 0, 0, 0, 0x5efe, 0x0808, 0x0808]" "\<not> isPrivateHextets [0xfd00, 0, 0, 0, 0, 0x5efe, 0x0808, 0x0808]"
  "isPrivateHextets [0xfe80, 0, 0, 0, 0, 0, 0x0808, 0x0808]" "isPrivateHextets [0xfd00, 0, 0, 0, 0, 0, 0x0808, 0x0808]"
  by (simp_all add: isPrivateHextets_def extractIpv4FromEmbeddedIpv6_def EMBEDDED_IPV4_RULES_def decodeIpv4FromHextets_def isPrivateIpv4_def)

text \<open>A local-use NAT64 address outside the first /96 of the /48 is not recognised as carrying an IPv4 address.\<close>

lemma nat64_local_use_missed:
  "isPrivateHextets [0x64, 0xff9b, 1, 0, 0, 0, 0x0a00, 1]" "\<not> isPrivateHextets [0x64, 0xff9b, 1, 0xa00, 0, 0x100, 0, 0]"
  by (simp_all add: isPrivateHextets_def extractIpv4FromEmbeddedIpv6_def EMBEDDED_IPV4_RULES_def decodeIpv4FromHextets_def isPrivateIpv4_def)

text \<open>A group with characters that are no digits is read up to the first of them.\<close>

lemma malformed_group_accepted: "parseGroup ''1ggg'' = Some 1"
proof -
  have "takeWhile is_hex ''1ggg'' = ''1''" by (simp add: hex_code)
  then have "parse_hex ''1ggg'' = Some (int (hexits_value ''1''))"
    by (simp add: parse_hex_def starts_with_def is_ws_code)
  then show ?thesis by (simp add: parseGroup_def hexits_value_def hexit_value_def is_digit_def digit_value_def)
qed

text \<open>A host with two trailing dots is not in the form normalising leaves alone, and its connection asks the system resolver.\<close>

lemma trailing_dots_unpinned:
  "\<exists>pinned. resolvePinnedHostname (\<lambda>_. Inr [''8.8.8.8'']) ''a.org..'' = Inr pinned \<and>
     connectLookup system \<lparr>rq_url = u, rq_headers = None, rq_checked = pinned, rq_dispatcher = Some pinned\<rparr> 0 ''a.org..'' 0 False = (0, system ''a.org..'' 0 False)"
proof -
  have "resolvePinnedHostname (\<lambda>_. Inr [''8.8.8.8'']) ''a.org..'' = Inr \<lparr>ph_hostname = ''a.org.'', ph_addresses = [''8.8.8.8'']\<rparr>" by code_simp
  moreover have "pinnedLookup \<lparr>ph_hostname = ''a.org.'', ph_addresses = [''8.8.8.8'']\<rparr> 0 ''a.org..'' 0 False = (0, None)" by code_simp
  ultimately show ?thesis by (simp add: connectLookup_def)
qed

end
