(* ===== verification/Pairing_Store.thy ===== *)
theory Pairing_Store
  imports Simulation
begin

section \<open>Pairing senders of a channel (pairing/pairing-store.ts)\<close>

text \<open>
  A stranger who writes to the agent over a messaging channel is answered with a code; the operator
  approves the code, and the sender joins the channel's allow-list. Each channel has a file of open requests, each
  channel and account a file of allowed senders. Every operation holds the lock of its file from the read
  to the write, so it is one step.

  A file is the value its JSON stands for: request fields that the code allows to be missing are options, an absent or unreadable file is
  \<open>None\<close>. The clock, the random numbers, the two conversions of timestamps, the channel's own normalisation of entries and
  locale comparison are arguments.
\<close>

subsection \<open>Text\<close>

text \<open>\<open>toUpperCase\<close>. The two letters whose capitals lie outside the modelled code units stand for them.\<close>

definition upper_char :: "char \<Rightarrow> string" where
  "upper_char c = (let n = (of_char c :: nat) in
     if 97 \<le> n \<and> n \<le> 122 \<or> 224 \<le> n \<and> n \<le> 254 \<and> n \<noteq> 247 then [char_of (n - 32)]
     else if n = 223 then ''SS'' else [c])"

definition to_upper :: "string \<Rightarrow> string" where
  "to_upper s = concat (map upper_char s)"

definition unsafe_file_char :: "char \<Rightarrow> bool" where
  "unsafe_file_char c \<longleftrightarrow> c \<in> set (BSL # DQ # ''/:*?<>|'')"

text \<open>\<open>replace(/\.\./g, "_")\<close>.\<close>

fun replace_dots :: "string \<Rightarrow> string" where
  "replace_dots (a # b # s) = (if a = CHR ''.'' \<and> b = CHR ''.'' then CHR ''_'' # replace_dots s else a # replace_dots (b # s))"
| "replace_dots s = s"

datatype pairing_error = InvalidChannel | InvalidAccountId | NoUniqueCode

definition safeKey :: "pairing_error \<Rightarrow> string \<Rightarrow> pairing_error + string" where
  "safeKey err s =
     (let raw = to_lower (trim s) in
      if raw = [] then Inl err
      else (let safe = replace_dots (map (\<lambda>c. if unsafe_file_char c then CHR ''_'' else c) raw) in
            if safe = [] \<or> safe = ''_'' then Inl err else Inr safe))"

definition safeChannelKey :: "string \<Rightarrow> pairing_error + string" where
  "safeChannelKey channel = safeKey InvalidChannel channel"

definition safeAccountKey :: "string \<Rightarrow> pairing_error + string" where
  "safeAccountKey accountId = safeKey InvalidAccountId accountId"

text \<open>The names of the files inside the credentials directory.\<close>

definition resolvePairingPath :: "string \<Rightarrow> pairing_error + string" where
  "resolvePairingPath channel = map_sum id (\<lambda>k. k @ ''-pairing.json'') (safeChannelKey channel)"

definition resolveAllowFromPath :: "string \<Rightarrow> string option \<Rightarrow> pairing_error + string" where
  "resolveAllowFromPath channel accountId =
     (case safeChannelKey channel of
        Inl e \<Rightarrow> Inl e
      | Inr base \<Rightarrow>
          (let normalizedAccountId = (case accountId of Some a \<Rightarrow> trim a | None \<Rightarrow> []) in
           if normalizedAccountId = [] then Inr (base @ ''-allowFrom.json'')
           else (case safeAccountKey normalizedAccountId of
               Inl e \<Rightarrow> Inl e | Inr account \<Rightarrow> Inr (base @ ''-'' @ account @ ''-allowFrom.json''))))"

subsection \<open>Requests\<close>

definition PAIRING_CODE_LENGTH :: nat where "PAIRING_CODE_LENGTH = 8"
definition PAIRING_CODE_ALPHABET :: string where "PAIRING_CODE_ALPHABET = ''ABCDEFGHJKLMNPQRSTUVWXYZ23456789''"
definition PAIRING_PENDING_TTL_MS :: int where "PAIRING_PENDING_TTL_MS = 60 * 60 * 1000"
definition PAIRING_PENDING_MAX :: nat where "PAIRING_PENDING_MAX = 3"

record PairingRequest =
  pr_id :: string
  pr_code :: "string option"
  pr_createdAt :: "string option"
  pr_lastSeenAt :: "string option"
  pr_meta :: "(string \<times> string) list option"

record pairing_files =
  pf_requests :: "string \<Rightarrow> PairingRequest list option"
  pf_allowFrom :: "string \<Rightarrow> string list option"

record pairing_host =
  ph_iso :: "int \<Rightarrow> string"
  ph_parse :: "string \<Rightarrow> int option"
  ph_entry :: "string \<Rightarrow> (string \<Rightarrow> string) option"
  ph_locale :: "string \<Rightarrow> string \<Rightarrow> int"

definition parseTimestamp :: "pairing_host \<Rightarrow> string option \<Rightarrow> int option" where
  "parseTimestamp h v = (case truthy v of None \<Rightarrow> None | Some s \<Rightarrow> ph_parse h s)"

definition isExpired :: "pairing_host \<Rightarrow> PairingRequest \<Rightarrow> int \<Rightarrow> bool" where
  "isExpired h entry nowMs =
     (case parseTimestamp h (pr_createdAt entry) of
        None \<Rightarrow> True
      | Some createdAt \<Rightarrow> if createdAt = 0 then True else nowMs - createdAt > PAIRING_PENDING_TTL_MS)"

definition pruneExpiredRequests :: "pairing_host \<Rightarrow> PairingRequest list \<Rightarrow> int \<Rightarrow> PairingRequest list \<times> bool" where
  "pruneExpiredRequests h reqs nowMs =
     (filter (\<lambda>r. \<not> isExpired h r nowMs) reqs, list_ex (\<lambda>r. isExpired h r nowMs) reqs)"

definition resolveLastSeenAt :: "pairing_host \<Rightarrow> PairingRequest \<Rightarrow> int" where
  "resolveLastSeenAt h entry =
     nullish (orelse (parseTimestamp h (pr_lastSeenAt entry)) (parseTimestamp h (pr_createdAt entry))) 0"

definition pruneExcessRequests :: "pairing_host \<Rightarrow> PairingRequest list \<Rightarrow> nat \<Rightarrow> PairingRequest list \<times> bool" where
  "pruneExcessRequests h reqs maxPending =
     (if maxPending = 0 \<or> length reqs \<le> maxPending then (reqs, False)
      else (drop (length reqs - maxPending) (sort_key (resolveLastSeenAt h) reqs), True))"

text \<open>\<open>rnd n\<close> is the \<open>n\<close>-th answer of \<open>crypto.randomInt(0, 32)\<close> during the operation.\<close>

definition randomCode :: "(nat \<Rightarrow> nat) \<Rightarrow> nat \<Rightarrow> string" where
  "randomCode rnd attempt = map (\<lambda>i. PAIRING_CODE_ALPHABET ! rnd (PAIRING_CODE_LENGTH * attempt + i)) [0..<PAIRING_CODE_LENGTH]"

fun uniqueCodeFrom :: "(nat \<Rightarrow> nat) \<Rightarrow> string list \<Rightarrow> nat \<Rightarrow> nat \<Rightarrow> pairing_error + string" where
  "uniqueCodeFrom rnd existing attempt 0 = Inl NoUniqueCode"
| "uniqueCodeFrom rnd existing attempt (Suc left) =
     (let code = randomCode rnd attempt in
      if code \<notin> set existing then Inr code else uniqueCodeFrom rnd existing (Suc attempt) left)"

definition generateUniqueCode :: "(nat \<Rightarrow> nat) \<Rightarrow> string list \<Rightarrow> pairing_error + string" where
  "generateUniqueCode rnd existing = uniqueCodeFrom rnd existing 0 500"

definition normalizePairingAccountId :: "string option \<Rightarrow> string" where
  "normalizePairingAccountId accountId = (case accountId of None \<Rightarrow> [] | Some a \<Rightarrow> to_lower (trim a))"

definition meta_account :: "PairingRequest \<Rightarrow> string" where
  "meta_account entry = (case pr_meta entry of None \<Rightarrow> [] | Some m \<Rightarrow> nullish (map_of m ''accountId'') [])"

definition requestMatchesAccountId :: "PairingRequest \<Rightarrow> string \<Rightarrow> bool" where
  "requestMatchesAccountId entry normalizedAccountId =
     (if normalizedAccountId = [] then True else to_lower (trim (meta_account entry)) = normalizedAccountId)"

subsection \<open>Allow-lists\<close>

definition normalizeAllowEntry :: "pairing_host \<Rightarrow> string \<Rightarrow> string \<Rightarrow> string" where
  "normalizeAllowEntry h channel entry =
     (let trimmed = trim entry in
      if trimmed = [] then [] else if trimmed = ''*'' then []
      else trim (case ph_entry h channel of Some f \<Rightarrow> f trimmed | None \<Rightarrow> trimmed))"

definition normalizeAllowFromList :: "pairing_host \<Rightarrow> string \<Rightarrow> string list option \<Rightarrow> string list" where
  "normalizeAllowFromList h channel allowFrom =
     filter (\<lambda>v. v \<noteq> []) (map (normalizeAllowEntry h channel) (nullish allowFrom []))"

definition normalizeAllowFromInput :: "pairing_host \<Rightarrow> string \<Rightarrow> string \<Rightarrow> string" where
  "normalizeAllowFromInput h channel entry = normalizeAllowEntry h channel (trim entry)"

fun dedupe :: "string list \<Rightarrow> string list \<Rightarrow> string list" where
  "dedupe seen [] = []"
| "dedupe seen (e # es) = (let n = trim e in if n = [] \<or> n \<in> set seen then dedupe seen es else n # dedupe (n # seen) es)"

definition dedupePreserveOrder :: "string list \<Rightarrow> string list" where
  "dedupePreserveOrder entries = dedupe [] entries"

text \<open>The result of a change: whether it was one, and the list.\<close>

definition updateAllowFromStoreEntry ::
  "pairing_host \<Rightarrow> (string list \<Rightarrow> string \<Rightarrow> string list option) \<Rightarrow> string \<Rightarrow> string \<Rightarrow> string option \<Rightarrow> pairing_files \<Rightarrow>
     pairing_files \<times> (pairing_error + bool \<times> string list)" where
  "updateAllowFromStoreEntry h apply channel entry accountId s =
     (case resolveAllowFromPath channel accountId of
        Inl e \<Rightarrow> (s, Inl e)
      | Inr filePath \<Rightarrow>
          (let s = s\<lparr>pf_allowFrom := (pf_allowFrom s)(filePath := Some (nullish (pf_allowFrom s filePath) []))\<rparr>;
               current = normalizeAllowFromList h channel (pf_allowFrom s filePath);
               normalized = normalizeAllowFromInput h channel entry
           in if normalized = [] then (s, Inr (False, current))
              else (case apply current normalized of
                  None \<Rightarrow> (s, Inr (False, current))
                | Some nxt \<Rightarrow> (s\<lparr>pf_allowFrom := (pf_allowFrom s)(filePath := Some nxt)\<rparr>, Inr (True, nxt)))))"

definition addChannelAllowFromStoreEntry ::
  "pairing_host \<Rightarrow> string \<Rightarrow> string \<Rightarrow> string option \<Rightarrow> pairing_files \<Rightarrow> pairing_files \<times> (pairing_error + bool \<times> string list)" where
  "addChannelAllowFromStoreEntry h =
     updateAllowFromStoreEntry h (\<lambda>current normalized. if normalized \<in> set current then None else Some (current @ [normalized]))"

definition removeChannelAllowFromStoreEntry ::
  "pairing_host \<Rightarrow> string \<Rightarrow> string \<Rightarrow> string option \<Rightarrow> pairing_files \<Rightarrow> pairing_files \<times> (pairing_error + bool \<times> string list)" where
  "removeChannelAllowFromStoreEntry h =
     updateAllowFromStoreEntry h (\<lambda>current normalized.
       let nxt = filter (\<lambda>e. e \<noteq> normalized) current in if length nxt = length current then None else Some nxt)"

text \<open>The senders allowed for an account: those of its own file and those of the channel's.\<close>

definition readChannelAllowFromStore :: "pairing_host \<Rightarrow> string \<Rightarrow> string option \<Rightarrow> pairing_files \<Rightarrow> pairing_error + string list" where
  "readChannelAllowFromStore h channel accountId s =
     (if normalizePairingAccountId accountId = [] then
        map_sum id (\<lambda>p. normalizeAllowFromList h channel (pf_allowFrom s p)) (resolveAllowFromPath channel None)
      else (case resolveAllowFromPath channel accountId of
          Inl e \<Rightarrow> Inl e
        | Inr scopedPath \<Rightarrow> (case resolveAllowFromPath channel None of
            Inl e \<Rightarrow> Inl e
          | Inr legacyPath \<Rightarrow> Inr (dedupePreserveOrder
              (normalizeAllowFromList h channel (pf_allowFrom s scopedPath) @ normalizeAllowFromList h channel (pf_allowFrom s legacyPath))))))"

subsection \<open>The operations\<close>

definition load_requests :: "string \<Rightarrow> pairing_files \<Rightarrow> PairingRequest list" where
  "load_requests filePath s = nullish (pf_requests s filePath) []"

definition write_requests :: "string \<Rightarrow> PairingRequest list \<Rightarrow> pairing_files \<Rightarrow> pairing_files" where
  "write_requests filePath reqs s = s\<lparr>pf_requests := (pf_requests s)(filePath := Some reqs)\<rparr>"

text \<open>\<open>withFileLock\<close> makes sure the file is there.\<close>

definition ensure_requests :: "string \<Rightarrow> pairing_files \<Rightarrow> pairing_files" where
  "ensure_requests filePath s = write_requests filePath (load_requests filePath s) s"

text \<open>\<open>toSorted((a, b) => a.createdAt.localeCompare(b.createdAt))\<close>.\<close>

fun insertByCreated :: "pairing_host \<Rightarrow> PairingRequest \<Rightarrow> PairingRequest list \<Rightarrow> PairingRequest list" where
  "insertByCreated h x [] = [x]"
| "insertByCreated h x (y # ys) =
     (if ph_locale h (nullish (pr_createdAt x) []) (nullish (pr_createdAt y) []) \<le> 0 then x # y # ys else y # insertByCreated h x ys)"

definition sortByCreated :: "pairing_host \<Rightarrow> PairingRequest list \<Rightarrow> PairingRequest list" where
  "sortByCreated h rs = foldr (insertByCreated h) rs []"

definition listChannelPairingRequests ::
  "pairing_host \<Rightarrow> int \<Rightarrow> string \<Rightarrow> string option \<Rightarrow> pairing_files \<Rightarrow> pairing_files \<times> (pairing_error + PairingRequest list)" where
  "listChannelPairingRequests h nowMs channel accountId s =
     (case resolvePairingPath channel of
        Inl e \<Rightarrow> (s, Inl e)
      | Inr filePath \<Rightarrow>
          (let s = ensure_requests filePath s;
               (prunedExpired, expiredRemoved) = pruneExpiredRequests h (load_requests filePath s) nowMs;
               (pruned, cappedRemoved) = pruneExcessRequests h prunedExpired PAIRING_PENDING_MAX;
               s = (if expiredRemoved \<or> cappedRemoved then write_requests filePath pruned s else s);
               normalizedAccountId = normalizePairingAccountId accountId;
               filtered = (if normalizedAccountId = [] then pruned else filter (\<lambda>e. requestMatchesAccountId e normalizedAccountId) pruned)
           in (s, Inr (sortByCreated h (filter (\<lambda>r. pr_code r \<noteq> None \<and> pr_createdAt r \<noteq> None) filtered)))))"

text \<open>The metadata of a request: trimmed, without empty values, with the account it is for.\<close>

definition baseMeta :: "(string \<times> string option) list option \<Rightarrow> (string \<times> string) list option" where
  "baseMeta meta = map_option (\<lambda>m. filter (\<lambda>(k, v). v \<noteq> []) (map (\<lambda>(k, v). (k, trim (nullish v []))) m)) meta"

definition requestMeta :: "string option \<Rightarrow> (string \<times> string option) list option \<Rightarrow> (string \<times> string) list option" where
  "requestMeta accountId meta =
     (case truthy (map_option trim accountId) of
        None \<Rightarrow> baseMeta meta
      | Some a \<Rightarrow> Some (AList.update ''accountId'' a (nullish (baseMeta meta) [])))"

fun find_index :: "('a \<Rightarrow> bool) \<Rightarrow> 'a list \<Rightarrow> nat option" where
  "find_index P [] = None"
| "find_index P (x # xs) = (if P x then Some 0 else map_option Suc (find_index P xs))"

text \<open>A sender asks. \<open>Inr (code, created)\<close>; the empty code when too many requests are open.\<close>

definition upsertChannelPairingRequest ::
  "pairing_host \<Rightarrow> int \<Rightarrow> (nat \<Rightarrow> nat) \<Rightarrow> string \<Rightarrow> string \<Rightarrow> string option \<Rightarrow> (string \<times> string option) list option \<Rightarrow> pairing_files \<Rightarrow>
     pairing_files \<times> (pairing_error + string \<times> bool)" where
  "upsertChannelPairingRequest h nowMs rnd channel rawId accountId rawMeta s =
     (case resolvePairingPath channel of
        Inl e \<Rightarrow> (s, Inl e)
      | Inr filePath \<Rightarrow>
          (let s = ensure_requests filePath s;
               now = ph_iso h nowMs;
               sender = trim rawId;
               meta = requestMeta accountId rawMeta;
               (reqs, expiredRemoved) = pruneExpiredRequests h (load_requests filePath s) nowMs;
               existingCodes = map (\<lambda>r. to_upper (trim (nullish (pr_code r) []))) reqs
           in (case find_index (\<lambda>r. pr_id r = sender) reqs of
               Some idx \<Rightarrow>
                 (let existing = reqs ! idx;
                      existingCode = trim (nullish (pr_code existing) [])
                  in (case (if existingCode \<noteq> [] then Inr existingCode else generateUniqueCode rnd existingCodes) of
                      Inl e \<Rightarrow> (s, Inl e)
                    | Inr code \<Rightarrow>
                        (let nxt = \<lparr>pr_id = sender, pr_code = Some code, pr_createdAt = Some (nullish (pr_createdAt existing) now),
                               pr_lastSeenAt = Some now, pr_meta = orelse meta (pr_meta existing)\<rparr>
                         in (write_requests filePath (fst (pruneExcessRequests h (reqs[idx := nxt]) PAIRING_PENDING_MAX)) s, Inr (code, False)))))
             | None \<Rightarrow>
                 (let (reqs, cappedRemoved) = pruneExcessRequests h reqs PAIRING_PENDING_MAX in
                  if PAIRING_PENDING_MAX > 0 \<and> length reqs \<ge> PAIRING_PENDING_MAX
                  then (if expiredRemoved \<or> cappedRemoved then write_requests filePath reqs s else s, Inr ([], False))
                  else (case generateUniqueCode rnd existingCodes of
                      Inl e \<Rightarrow> (s, Inl e)
                    | Inr code \<Rightarrow>
                        (let nxt = \<lparr>pr_id = sender, pr_code = Some code, pr_createdAt = Some now, pr_lastSeenAt = Some now, pr_meta = meta\<rparr>
                         in (write_requests filePath (reqs @ [nxt]) s, Inr (code, True))))))))"

text \<open>The operator approves a code.\<close>

definition approveChannelPairingCode ::
  "pairing_host \<Rightarrow> int \<Rightarrow> string \<Rightarrow> string \<Rightarrow> string option \<Rightarrow> pairing_files \<Rightarrow> pairing_files \<times> (pairing_error + PairingRequest option)" where
  "approveChannelPairingCode h nowMs channel rawCode accountId s =
     (let code = to_upper (trim rawCode) in
      if code = [] then (s, Inr None)
      else (case resolvePairingPath channel of
        Inl e \<Rightarrow> (s, Inl e)
      | Inr filePath \<Rightarrow>
          (let s = ensure_requests filePath s;
               (pruned, removed) = pruneExpiredRequests h (load_requests filePath s) nowMs;
               normalizedAccountId = normalizePairingAccountId accountId
           in (case find_index (\<lambda>r. to_upper (nullish (pr_code r) []) = code \<and> requestMatchesAccountId r normalizedAccountId) pruned of
               None \<Rightarrow> (if removed then write_requests filePath pruned s else s, Inr None)
             | Some idx \<Rightarrow>
                 (let entry = pruned ! idx;
                      s = write_requests filePath (take idx pruned @ drop (Suc idx) pruned) s;
                      entryAccountId = truthy (Some (trim (meta_account entry)));
                      (s, res) = addChannelAllowFromStoreEntry h channel (pr_id entry) (orelse (truthy (map_option trim accountId)) entryAccountId) s
                  in (case res of Inl e \<Rightarrow> (s, Inl e) | Inr _ \<Rightarrow> (s, Inr (Some entry))))))))"

subsection \<open>Runs\<close>

datatype pairing_op =
    PairingAsk int "nat \<Rightarrow> nat" string string "string option" "(string \<times> string option) list option"
  | PairingApprove int string string "string option"
  | PairingList int string "string option"
  | AllowAdd string string "string option"
  | AllowRemove string string "string option"

text \<open>
  What a run leaves to see: a code was issued to a sender (file, time, sender, code); a code was approved (file, time, code typed,
  sender, allow file); the operator added a sender (allow file, entry as normalised).
\<close>

datatype pairing_event =
    CodeIssued string int string string
  | CodeApproved string int string string "pairing_error + string"
  | SenderAdded "pairing_error + string" string

definition pairing_exec :: "pairing_host \<Rightarrow> pairing_op \<Rightarrow> pairing_files \<Rightarrow> pairing_files \<times> pairing_event list" where
  "pairing_exec h x s = (case x of
     PairingAsk now rnd channel sender accountId meta \<Rightarrow>
       (let (s', res) = upsertChannelPairingRequest h now rnd channel sender accountId meta s in
        (s', case (res, resolvePairingPath channel) of (Inr (code, True), Inr p) \<Rightarrow> [CodeIssued p now (trim sender) code] | _ \<Rightarrow> []))
   | PairingApprove now channel code accountId \<Rightarrow>
       (let (s', res) = approveChannelPairingCode h now channel code accountId s in
        (s', case (res, resolvePairingPath channel) of
           (Inr (Some entry), Inr p) \<Rightarrow> [CodeApproved p now (to_upper (trim code)) (normalizeAllowFromInput h channel (pr_id entry))
               (resolveAllowFromPath channel (orelse (truthy (map_option trim accountId)) (truthy (Some (trim (meta_account entry))))))]
         | _ \<Rightarrow> []))
   | PairingList now channel accountId \<Rightarrow> (fst (listChannelPairingRequests h now channel accountId s), [])
   | AllowAdd channel entry accountId \<Rightarrow>
       (fst (addChannelAllowFromStoreEntry h channel entry accountId s),
        [SenderAdded (resolveAllowFromPath channel accountId) (normalizeAllowFromInput h channel entry)])
   | AllowRemove channel entry accountId \<Rightarrow> (fst (removeChannelAllowFromStoreEntry h channel entry accountId s), []))"

section \<open>What pairing guarantees\<close>

subsection \<open>Codes\<close>

definition code_ok :: "string \<Rightarrow> bool" where
  "code_ok c \<longleftrightarrow> length c = 8 \<and> set c \<subseteq> set PAIRING_CODE_ALPHABET"

lemma alphabet_plain: "list_all (\<lambda>ch. upper_char ch = [ch] \<and> \<not> is_ws ch) PAIRING_CODE_ALPHABET"
  by code_simp

lemma to_upper_same: "list_all (\<lambda>ch. upper_char ch = [ch]) s \<Longrightarrow> to_upper s = s"
  by (induction s) (auto simp: to_upper_def)

lemma code_facts:
  assumes "code_ok c"
  shows "c \<noteq> []" "trim c = c" "to_upper c = c"
proof -
  show c: "c \<noteq> []" using assms by (auto simp: code_ok_def)
  have "list_all (\<lambda>ch. upper_char ch = [ch] \<and> \<not> is_ws ch) c" using assms alphabet_plain unfolding code_ok_def list_all_iff by blast
  then show "trim c = c" "to_upper c = c" using c by (auto intro: trim_eq_self to_upper_same simp: list_all_iff)
qed

lemma randomCode_ok:
  assumes "\<And>n. rnd n < 32"
  shows "code_ok (randomCode rnd k)"
proof -
  have "length PAIRING_CODE_ALPHABET = 32" by (simp add: PAIRING_CODE_ALPHABET_def)
  then have "PAIRING_CODE_ALPHABET ! rnd n \<in> set PAIRING_CODE_ALPHABET" for n using assms by simp
  then show ?thesis by (auto simp: code_ok_def randomCode_def PAIRING_CODE_LENGTH_def)
qed

lemma uniqueCodeFrom_new:
  "uniqueCodeFrom rnd existing k left = Inr code \<Longrightarrow> code \<notin> set existing \<and> (\<exists>k. code = randomCode rnd k)"
  by (induction rnd existing k left rule: uniqueCodeFrom.induct) (auto simp: Let_def split: if_splits)

lemma uniqueCodeFrom_error: "uniqueCodeFrom rnd existing k left = Inl e \<Longrightarrow> e = NoUniqueCode"
  by (induction rnd existing k left rule: uniqueCodeFrom.induct) (auto simp: Let_def split: if_splits)

lemma generateUniqueCode_ok:
  assumes "\<And>n. rnd n < 32" "generateUniqueCode rnd existing = Inr code"
  shows "code_ok code" "code \<notin> set existing"
  using uniqueCodeFrom_new [OF assms(2) [unfolded generateUniqueCode_def]] randomCode_ok [OF assms(1)] by auto

lemma find_index_Some: "find_index P xs = Some i \<Longrightarrow> \<exists>us x vs. xs = us @ x # vs \<and> length us = i \<and> P x \<and> list_all (\<lambda>u. \<not> P u) us"
proof (induction xs arbitrary: i)
  case (Cons y ys)
  show ?case
  proof (cases "P y")
    case True
    then show ?thesis using Cons.prems by (intro exI [of _ "[]"]) auto
  next
    case False
    then obtain j where j: "find_index P ys = Some j" "i = Suc j" using Cons.prems by auto
    from Cons.IH [OF j(1)] obtain us x vs where "ys = us @ x # vs \<and> length us = j \<and> P x \<and> list_all (\<lambda>u. \<not> P u) us" by blast
    then show ?thesis using False j(2) by (intro exI [of _ "y # us"]) auto
  qed
qed simp

lemma find_index_None: "find_index P xs = None \<longleftrightarrow> list_all (\<lambda>x. \<not> P x) xs"
  by (induction xs) auto

subsection \<open>The open requests\<close>

definition request_wf :: "PairingRequest \<Rightarrow> bool" where
  "request_wf r \<longleftrightarrow> (\<exists>c. pr_code r = Some c \<and> code_ok c)"

definition requests_wf :: "PairingRequest list \<Rightarrow> bool" where
  "requests_wf rs \<longleftrightarrow> length rs \<le> 3 \<and> distinct (map pr_id rs) \<and> distinct (map pr_code rs) \<and> list_all request_wf rs"

definition live :: "pairing_host \<Rightarrow> int \<Rightarrow> PairingRequest list \<Rightarrow> PairingRequest list" where
  "live h now rs = filter (\<lambda>r. \<not> isExpired h r now) rs"

lemma requests_wf_filter: "requests_wf rs \<Longrightarrow> requests_wf (filter P rs)"
  unfolding requests_wf_def by (auto simp: distinct_map_filter list_all_iff intro: order.trans [OF length_filter_le])

lemma requests_wf_live: "requests_wf rs \<Longrightarrow> requests_wf (live h now rs)"
  unfolding live_def by (rule requests_wf_filter)

lemma prune_live: "pruneExpiredRequests h rs now = (live h now rs, list_ex (\<lambda>r. isExpired h r now) rs)"
  by (simp add: pruneExpiredRequests_def live_def)

lemma live_all: "\<not> list_ex (\<lambda>r. isExpired h r now) rs \<Longrightarrow> live h now rs = rs"
  by (auto simp: live_def list_ex_iff filter_id_conv)

lemma excess_none: "length rs \<le> 3 \<Longrightarrow> pruneExcessRequests h rs PAIRING_PENDING_MAX = (rs, False)"
  by (simp add: pruneExcessRequests_def PAIRING_PENDING_MAX_def)

lemma load_write [simp]: "load_requests q (write_requests p rs s) = (if q = p then rs else load_requests q s)"
  by (simp add: load_requests_def write_requests_def)

lemma load_ensure [simp]: "load_requests q (ensure_requests p s) = load_requests q s"
  by (simp add: ensure_requests_def)

lemma allow_write [simp]: "pf_allowFrom (write_requests p rs s) = pf_allowFrom s" "pf_allowFrom (ensure_requests p s) = pf_allowFrom s"
  by (simp_all add: ensure_requests_def write_requests_def)

lemma update_requests:
  assumes "updateAllowFromStoreEntry h f channel entry accountId s = (s', res)"
  shows "load_requests p s' = load_requests p s"
  using assms unfolding updateAllowFromStoreEntry_def load_requests_def by (auto simp: Let_def split: sum.splits if_splits option.splits)

lemma update_requests_fst: "load_requests p (fst (updateAllowFromStoreEntry h f channel entry accountId s)) = load_requests p s"
  by (rule update_requests [OF surjective_pairing])

lemma list_effect:
  assumes "listChannelPairingRequests h now channel accountId s = (s', res)" "\<And>q. requests_wf (load_requests q s)"
  shows "pf_allowFrom s' = pf_allowFrom s"
    "load_requests p s' = (if resolvePairingPath channel = Inr p then live h now (load_requests p s) else load_requests p s)"
proof -
  have "length (live h now (load_requests q s)) \<le> 3" for q using assms(2) requests_wf_live [of "load_requests q s"] by (auto simp: requests_wf_def)
  then show "pf_allowFrom s' = pf_allowFrom s"
    "load_requests p s' = (if resolvePairingPath channel = Inr p then live h now (load_requests p s) else load_requests p s)"
    using assms(1) live_all by (auto simp: listChannelPairingRequests_def Let_def prune_live excess_none split: sum.splits if_splits)
qed

text \<open>What an asking sender can do: refresh its own request, be refused, or join the queue with a new code.\<close>

lemma upsert_effect:
  assumes up: "upsertChannelPairingRequest h now rnd channel sender accountId meta s = (s', res)" and wf: "\<And>q. requests_wf (load_requests q s)"
    and rnd: "\<And>n. rnd n < 32"
  obtains (invalid) e where "resolvePairingPath channel = Inl e" "s' = s" "res = Inl e"
  | (refreshed) p us r r' vs code where "resolvePairingPath channel = Inr p" "live h now (load_requests p s) = us @ r # vs"
      "pr_id r = trim sender" "pr_id r' = pr_id r" "pr_code r' = pr_code r" "pr_createdAt r' = pr_createdAt r"
      "load_requests p s' = us @ r' # vs" "res = Inr (code, False)"
  | (refused) p where "resolvePairingPath channel = Inr p" "load_requests p s' = live h now (load_requests p s)" "res = Inr ([], False)"
  | (failed) p where "resolvePairingPath channel = Inr p" "load_requests p s' = load_requests p s" "res = Inl NoUniqueCode"
  | (created) p code r where "resolvePairingPath channel = Inr p" "load_requests p s' = live h now (load_requests p s) @ [r]"
      "length (live h now (load_requests p s)) < 3" "trim sender \<notin> set (map pr_id (live h now (load_requests p s)))"
      "Some code \<notin> set (map pr_code (live h now (load_requests p s)))" "code_ok code"
      "pr_id r = trim sender" "pr_code r = Some code" "pr_createdAt r = Some (ph_iso h now)" "res = Inr (code, True)"
proof (cases "resolvePairingPath channel")
  case (Inl e)
  then show thesis using up by (intro invalid) (auto simp: upsertChannelPairingRequest_def)
next
  case (Inr p)
  define rs where "rs = live h now (load_requests p s)"
  define codes where "codes = map (\<lambda>r. to_upper (trim (nullish (pr_code r) []))) rs"
  have rs: "requests_wf rs" "length rs \<le> 3" using wf requests_wf_live by (auto simp: rs_def requests_wf_def)
  have codes: "codes = map (\<lambda>r. nullish (pr_code r) []) rs"
    using rs(1) code_facts by (auto simp: codes_def requests_wf_def list_all_iff request_wf_def)
  note up' = up [unfolded upsertChannelPairingRequest_def Inr sum.case Let_def prune_live load_ensure prod.case rs_def [symmetric] codes_def [symmetric]]
  show thesis
  proof (cases "find_index (\<lambda>r. pr_id r = trim sender) rs")
    case (Some idx)
    then obtain us r vs where r: "rs = us @ r # vs" "length us = idx" "pr_id r = trim sender" using find_index_Some [OF Some] by blast
    then obtain c where c: "pr_code r = Some c" "code_ok c" using rs(1) by (auto simp: requests_wf_def request_wf_def)
    have at: "rs ! idx = r" "\<And>x. rs[idx := x] = us @ x # vs" using r(1,2) by (auto simp: nth_append list_update_append)
    have "r \<in> set rs" using r(1) by simp
    then have "\<not> isExpired h r now" by (simp add: rs_def live_def)
    then obtain t where t: "pr_createdAt r = Some t" by (cases "pr_createdAt r") (auto simp: isExpired_def parseTimestamp_def truthy_def)
    let ?nxt = "\<lparr>pr_id = trim sender, pr_code = Some c, pr_createdAt = Some t, pr_lastSeenAt = Some (ph_iso h now),
      pr_meta = orelse (requestMeta accountId meta) (pr_meta r)\<rparr>"
    have len: "length (us @ ?nxt # vs) \<le> 3" using rs(2) r(1) by simp
    have "s' = write_requests p (us @ ?nxt # vs) (ensure_requests p s)" "res = Inr (c, False)"
      using up' unfolding Some option.case at c(1) t nullish_simps code_facts(2) [OF c(2)]
      by (simp_all add: code_facts(1) [OF c(2)] excess_none [OF len])
    then show thesis using r c t by (intro refreshed [OF Inr, where r' = ?nxt]) (auto simp: rs_def [symmetric])
  next
    case None
    note up' = up' [unfolded None option.case PAIRING_PENDING_MAX_def excess_none [OF rs(2), unfolded PAIRING_PENDING_MAX_def] prod.case]
    from None have new: "trim sender \<notin> set (map pr_id rs)" by (auto simp: find_index_None list_all_iff)
    show thesis
    proof (cases "length rs \<ge> 3")
      case True
      have "list_ex (\<lambda>r. isExpired h r now) (load_requests p s) \<or> rs = load_requests p s" using live_all by (auto simp: rs_def)
      then show thesis using up' True
        by (intro refused [OF Inr]) (auto simp: rs_def [symmetric] split: if_splits)
    next
      case False
      show thesis
      proof (cases "generateUniqueCode rnd codes")
        case (Inl e)
        then have "e = NoUniqueCode" by (auto simp: generateUniqueCode_def uniqueCodeFrom_error)
        then show thesis using up' False Inl by (intro failed [OF Inr]) auto
      next
        case gen: (Inr code)
        have "Some code \<notin> set (map pr_code rs)" 
        proof
          assume "Some code \<in> set (map pr_code rs)"
          then obtain r where "r \<in> set rs" "pr_code r = Some code" by auto
          then have "code \<in> set codes" by (auto simp: codes intro!: image_eqI [of _ _ r])
          then show False using generateUniqueCode_ok(2) [OF rnd gen] by blast
        qed
        then show thesis using up' False new generateUniqueCode_ok(1) [OF rnd gen]
          by (intro created [OF Inr]) (auto simp: gen rs_def [symmetric])
      qed
    qed
  qed
qed

text \<open>What approving a code does.\<close>

lemma approve_effect:
  assumes ap: "approveChannelPairingCode h now channel code accountId s = (s', res)"
  obtains (untouched) "\<forall>e. res \<noteq> Inr (Some e)" "pf_allowFrom s' = pf_allowFrom s" "\<forall>p. load_requests p s' = load_requests p s"
  | (unknown) p where "resolvePairingPath channel = Inr p" "res = Inr None" "pf_allowFrom s' = pf_allowFrom s"
      "\<forall>q. load_requests q s' = (if q = p then live h now (load_requests p s) else load_requests q s)"
  | (approved) p us r vs s2 res2 where "resolvePairingPath channel = Inr p" "live h now (load_requests p s) = us @ r # vs"
      "to_upper (nullish (pr_code r) []) = to_upper (trim code)" "requestMatchesAccountId r (normalizePairingAccountId accountId)"
      "list_all (\<lambda>u. \<not> (to_upper (nullish (pr_code u) []) = to_upper (trim code) \<and> requestMatchesAccountId u (normalizePairingAccountId accountId))) us"
      "\<forall>q. load_requests q s' = (if q = p then us @ vs else load_requests q s)" "pf_allowFrom s2 = pf_allowFrom s"
      "addChannelAllowFromStoreEntry h channel (pr_id r)
         (orelse (truthy (map_option trim accountId)) (truthy (Some (trim (meta_account r))))) s2 = (s', res2)"
      "res = map_sum id (\<lambda>_. Some r) res2"
proof -
  let ?code = "to_upper (trim code)"
  show thesis
  proof (cases "?code = []")
    case True
    then have "s' = s \<and> res = Inr None" using ap by (simp add: approveChannelPairingCode_def)
    then show thesis by (intro untouched) simp_all
  next
    case False
    show thesis
    proof (cases "resolvePairingPath channel")
      case (Inl e)
      then have "s' = s \<and> res = Inl e" using ap False by (simp add: approveChannelPairingCode_def Let_def)
      then show thesis by (intro untouched) simp_all
    next
      case (Inr p)
      define rs where "rs = live h now (load_requests p s)"
      let ?P = "\<lambda>r. to_upper (nullish (pr_code r) []) = ?code \<and> requestMatchesAccountId r (normalizePairingAccountId accountId)"
      note ap' = ap [unfolded approveChannelPairingCode_def Inr sum.case Let_def prune_live load_ensure prod.case rs_def [symmetric] if_not_P [OF False]]
      show thesis
      proof (cases "find_index ?P rs")
        case None
        have "list_ex (\<lambda>r. isExpired h r now) (load_requests p s) \<or> rs = load_requests p s" using live_all by (auto simp: rs_def)
        then show thesis using ap' None by (intro unknown [OF Inr]) (auto simp: rs_def [symmetric] split: if_splits)
      next
        case (Some idx)
        then obtain us r vs where r: "rs = us @ r # vs" "length us = idx" "?P r" "list_all (\<lambda>u. \<not> ?P u) us"
          using find_index_Some [OF Some] by blast
        then have at: "rs ! idx = r" "take idx rs @ drop (Suc idx) rs = us @ vs" by (auto simp: nth_append)
        define s2 where "s2 = write_requests p (us @ vs) (ensure_requests p s)"
        let ?acc = "orelse (truthy (map_option trim accountId)) (truthy (Some (trim (meta_account r))))"
        obtain s3 res2 where add: "addChannelAllowFromStoreEntry h channel (pr_id r) ?acc s2 = (s3, res2)" by fastforce
        have s': "s' = s3" "res = map_sum id (\<lambda>_. Some r) res2"
          using ap' add unfolding Some option.case at s2_def [symmetric] by (cases res2; simp)+
        have "load_requests q s3 = (if q = p then us @ vs else load_requests q s)" for q
          using update_requests [OF add [unfolded addChannelAllowFromStoreEntry_def]] by (simp add: s2_def)
        then show thesis using r add s' by (intro approved [OF Inr, where r = r]) (auto simp: rs_def [symmetric] s2_def)
      qed
    qed
  qed
qed

lemma requests_wf_parts:
  assumes "requests_wf (us @ r # vs)"
  shows "requests_wf (us @ vs)" "pr_id r' = pr_id r \<Longrightarrow> pr_code r' = pr_code r \<Longrightarrow> requests_wf (us @ r' # vs)"
  using assms by (auto simp: requests_wf_def request_wf_def)

definition pairing_wf :: "pairing_files \<Rightarrow> bool" where
  "pairing_wf s \<longleftrightarrow> (\<forall>p. requests_wf (load_requests p s))"

text \<open>The numbers handed to an operation are those \<open>randomInt\<close> may give.\<close>

definition fair_op :: "pairing_op \<Rightarrow> bool" where
  "fair_op x \<longleftrightarrow> (case x of PairingAsk now rnd channel sender accountId meta \<Rightarrow> \<forall>n. rnd n < 32 | _ \<Rightarrow> True)"

lemma exec_wf:
  assumes "pairing_wf s" "fair_op x"
  shows "pairing_wf (fst (pairing_exec h x s))"
proof -
  have wf: "requests_wf (load_requests q s)" for q using assms(1) by (simp add: pairing_wf_def)
  have live: "requests_wf (live h now (load_requests q s))" for q now using requests_wf_live [OF wf] .
  show ?thesis
  proof (cases x)
    case (PairingAsk now rnd channel sender accountId meta)
    obtain s' res where up: "upsertChannelPairingRequest h now rnd channel sender accountId meta s = (s', res)" by fastforce
    have rnd: "rnd n < 32" for n using assms(2) by (simp add: fair_op_def PairingAsk)
    have other: "load_requests q s' = load_requests q s" if "resolvePairingPath channel \<noteq> Inr q" for q
      using up that by (auto simp: upsertChannelPairingRequest_def Let_def split: sum.splits option.splits if_splits prod.splits)
    have "requests_wf (load_requests q s')" for q
    proof (cases "resolvePairingPath channel = Inr q")
      case True
      from up wf rnd show ?thesis
      proof (cases rule: upsert_effect)
        case (refreshed p us r r' vs code)
        then show ?thesis using live [of now q] True requests_wf_parts(2) [of us r vs r'] by simp
      next
        case (created p code r)
        then show ?thesis using live [of now q] True by (auto simp: requests_wf_def request_wf_def)
      qed (use True wf live in auto)
    qed (use other wf in auto)
    then show ?thesis by (simp add: PairingAsk pairing_exec_def up pairing_wf_def)
  next
    case (PairingApprove now channel code accountId)
    obtain s' res where ap: "approveChannelPairingCode h now channel code accountId s = (s', res)" by fastforce
    have "requests_wf (load_requests q s')" for q
      using ap
    proof (cases rule: approve_effect)
      case (approved p us r vs s2 res2)
      then show ?thesis using wf requests_wf_parts(1) [of us r vs] live [of now p] by simp
    qed (use wf live in auto)
    then show ?thesis by (simp add: PairingApprove pairing_exec_def ap pairing_wf_def)
  next
    case (PairingList now channel accountId)
    obtain s' res where li: "listChannelPairingRequests h now channel accountId s = (s', res)" by fastforce
    show ?thesis using list_effect(2) [OF li wf] wf live by (simp add: PairingList pairing_exec_def li pairing_wf_def)
  next
    case (AllowAdd channel entry accountId)
    then show ?thesis using assms(1)
      by (simp add: pairing_exec_def pairing_wf_def addChannelAllowFromStoreEntry_def update_requests_fst)
  next
    case (AllowRemove channel entry accountId)
    then show ?thesis using assms(1)
      by (simp add: pairing_exec_def pairing_wf_def removeChannelAllowFromStoreEntry_def update_requests_fst)
  qed
qed

subsection \<open>Runs keep the store in order\<close>

definition no_files :: pairing_files where
  "no_files = \<lparr>pf_requests = \<lambda>_. None, pf_allowFrom = \<lambda>_. None\<rparr>"

lemma no_files_wf: "pairing_wf no_files"
  by (simp add: pairing_wf_def no_files_def load_requests_def requests_wf_def)

interpretation pairing_store: step_invariant "pairing_exec h" pairing_wf fair_op for h
  by unfold_locales (rule exec_wf)

text \<open>(C38) Open requests stay few and told apart: whatever senders and operators do, in any order and for any channels, a channel has at most three open
  requests, no two of the same sender and no two with the same code, and every code has eight letters of the alphabet.
\<close>

theorem pairing_requests_wf:
  assumes "\<forall>p. requests_wf (load_requests p s)" and "list_all fair_op xs"
  shows "\<forall>p. requests_wf (load_requests p (fst (run_ops (pairing_exec h) xs s)))"
  using pairing_store.run_inv [of xs s h] assms by (simp add: pairing_wf_def)

subsection \<open>Who gets in\<close>

definition load_allowFrom :: "string \<Rightarrow> pairing_files \<Rightarrow> string list" where
  "load_allowFrom g s = nullish (pf_allowFrom s g) []"

text \<open>Every write normalises the entries of the file once more.\<close>

definition renormal :: "pairing_host \<Rightarrow> (string \<times> string) set" where
  "renormal h = {(a, normalizeAllowEntry h c a) | a c. True}\<^sup>*"

lemma renormal_step: "(a, b) \<in> renormal h \<Longrightarrow> (a, normalizeAllowEntry h c b) \<in> renormal h"
  unfolding renormal_def by (rule rtrancl_into_rtrancl) auto

lemma renormal_refl: "(a, a) \<in> renormal h"
  by (simp add: renormal_def)

lemma add_effect:
  assumes "addChannelAllowFromStoreEntry h channel entry accountId s = (s', res)" "e \<in> set (load_allowFrom g s')"
  shows "e \<in> set (load_allowFrom g s) \<or> resolveAllowFromPath channel accountId = Inr g \<and>
    ((\<exists>e1 \<in> set (load_allowFrom g s). e = normalizeAllowEntry h channel e1) \<or> e = normalizeAllowFromInput h channel entry)"
  using assms unfolding addChannelAllowFromStoreEntry_def updateAllowFromStoreEntry_def load_allowFrom_def normalizeAllowFromList_def
  by (auto simp: Let_def split: sum.splits if_splits option.splits)

lemma remove_effect:
  assumes "removeChannelAllowFromStoreEntry h channel entry accountId s = (s', res)" "e \<in> set (load_allowFrom g s')"
  shows "e \<in> set (load_allowFrom g s) \<or> (\<exists>e1 \<in> set (load_allowFrom g s). e = normalizeAllowEntry h channel e1)"
  using assms unfolding removeChannelAllowFromStoreEntry_def updateAllowFromStoreEntry_def load_allowFrom_def normalizeAllowFromList_def
  by (auto simp: Let_def split: sum.splits if_splits option.splits)

text \<open>Why an entry may be there: the operator added it, or approved in time a code that had been issued to this sender.\<close>

definition vouched :: "pairing_host \<Rightarrow> pairing_event list \<Rightarrow> string \<Rightarrow> string \<Rightarrow> bool" where
  "vouched h evs g e0 \<longleftrightarrow> SenderAdded (Inr g) e0 \<in> set evs \<or>
     (\<exists>us vs ws p t t' sender c channel. evs = us @ CodeIssued p t sender c # vs @ CodeApproved p t' c e0 (Inr g) # ws \<and>
        t' - t \<le> PAIRING_PENDING_TTL_MS \<and> resolvePairingPath channel = Inr p \<and> e0 = normalizeAllowFromInput h channel sender)"

lemma vouched_append: "vouched h evs g e0 \<Longrightarrow> vouched h (evs @ evs') g e0"
  unfolding vouched_def by (elim disjE exE) (auto, metis append.assoc append_Cons)

definition accounted :: "pairing_host \<Rightarrow> pairing_event list \<Rightarrow> pairing_files \<Rightarrow> bool" where
  "accounted h evs s \<longleftrightarrow> pairing_wf s \<and>
     (\<forall>p. \<forall>r \<in> set (load_requests p s). \<exists>t c. CodeIssued p t (pr_id r) c \<in> set evs \<and> pr_code r = Some c \<and> pr_createdAt r = Some (ph_iso h t)) \<and>
     (\<forall>g. \<forall>e \<in> set (load_allowFrom g s). \<exists>e0. (e0, e) \<in> renormal h \<and> vouched h evs g e0)"

lemma accounted_requests:
  assumes "accounted h evs s" "r \<in> set (load_requests p s)"
  obtains t c where "CodeIssued p t (pr_id r) c \<in> set evs" "pr_code r = Some c" "pr_createdAt r = Some (ph_iso h t)" "code_ok c"
proof -
  from assms obtain t c where 1: "CodeIssued p t (pr_id r) c \<in> set evs" "pr_code r = Some c" "pr_createdAt r = Some (ph_iso h t)"
    unfolding accounted_def by blast
  have "request_wf r" using assms by (auto simp: accounted_def pairing_wf_def requests_wf_def list_all_iff)
  then show thesis using 1 by (intro that [OF 1]) (simp add: request_wf_def)
qed

lemma accountedI:
  assumes "accounted h evs s" "pairing_wf s'"
    and "\<And>p r. r \<in> set (load_requests p s') \<Longrightarrow> r \<in> set (load_requests p s) \<or>
       (\<exists>r0 \<in> set (load_requests p s). pr_id r = pr_id r0 \<and> pr_code r = pr_code r0 \<and> pr_createdAt r = pr_createdAt r0) \<or>
       (\<exists>t c. CodeIssued p t (pr_id r) c \<in> set evs' \<and> pr_code r = Some c \<and> pr_createdAt r = Some (ph_iso h t))"
    and "\<And>g e. e \<in> set (load_allowFrom g s') \<Longrightarrow> e \<in> set (load_allowFrom g s) \<or>
       (\<exists>e1 \<in> set (load_allowFrom g s). \<exists>c. e = normalizeAllowEntry h c e1) \<or> vouched h (evs @ evs') g e"
  shows "accounted h (evs @ evs') s'"
  unfolding accounted_def
proof (intro conjI allI ballI)
  fix p r assume "r \<in> set (load_requests p s')"
  from assms(3) [OF this] assms(1)
  show "\<exists>t c. CodeIssued p t (pr_id r) c \<in> set (evs @ evs') \<and> pr_code r = Some c \<and> pr_createdAt r = Some (ph_iso h t)"
    unfolding accounted_def by (elim disjE bexE) (fastforce, fastforce, auto)
next
  fix g e assume e: "e \<in> set (load_allowFrom g s')"
  have old: "\<exists>e0. (e0, e1) \<in> renormal h \<and> vouched h (evs @ evs') g e0" if "e1 \<in> set (load_allowFrom g s)" for e1
    using assms(1) that vouched_append unfolding accounted_def by blast
  from assms(4) [OF e] show "\<exists>e0. (e0, e) \<in> renormal h \<and> vouched h (evs @ evs') g e0"
    using old renormal_step renormal_refl by blast
qed (use assms(2) in simp)

lemma upsert_other:
  assumes "upsertChannelPairingRequest h now rnd channel sender accountId meta s = (s', res)"
  shows "resolvePairingPath channel \<noteq> Inr q \<Longrightarrow> load_requests q s' = load_requests q s" "pf_allowFrom s' = pf_allowFrom s"
  using assms by (auto simp: upsertChannelPairingRequest_def Let_def split: sum.splits option.splits if_splits prod.splits)

lemma in_live: "r \<in> set (live h now rs) \<longleftrightarrow> r \<in> set rs \<and> \<not> isExpired h r now"
  by (auto simp: live_def)

lemma step_ask:
  assumes acc: "accounted h evs s" and "fair_op (PairingAsk now rnd channel sender accountId meta)"
    and up: "upsertChannelPairingRequest h now rnd channel sender accountId meta s = (s', res)"
    and evs': "evs' = snd (pairing_exec h (PairingAsk now rnd channel sender accountId meta) s)"
  shows "accounted h (evs @ evs') s'"
proof (rule accountedI [OF acc])
  have wf: "requests_wf (load_requests q s)" for q using acc by (simp add: accounted_def pairing_wf_def)
  have rnd: "rnd n < 32" for n using assms(2) by (simp add: fair_op_def)
  show "pairing_wf s'" using exec_wf [of s, OF _ assms(2), of h] acc up by (simp add: accounted_def pairing_exec_def)
  show "e \<in> set (load_allowFrom g s') \<Longrightarrow> e \<in> set (load_allowFrom g s) \<or> (\<exists>e1 \<in> set (load_allowFrom g s). \<exists>c. e = normalizeAllowEntry h c e1)
      \<or> vouched h (evs @ evs') g e" for g e using upsert_other(2) [OF up] by (simp add: load_allowFrom_def)
  fix q r assume r: "r \<in> set (load_requests q s')"
  show "r \<in> set (load_requests q s) \<or> (\<exists>r0 \<in> set (load_requests q s). pr_id r = pr_id r0 \<and> pr_code r = pr_code r0 \<and> pr_createdAt r = pr_createdAt r0) \<or>
      (\<exists>t c. CodeIssued q t (pr_id r) c \<in> set evs' \<and> pr_code r = Some c \<and> pr_createdAt r = Some (ph_iso h t))"
  proof (cases "resolvePairingPath channel = Inr q")
    case True
    from up wf rnd show ?thesis
    proof (cases rule: upsert_effect)
      case (refreshed p us r0 r1 vs code)
      have old: "u \<in> set (us @ r0 # vs) \<Longrightarrow> u \<in> set (load_requests q s)" for u using refreshed(1,2) True in_live by (metis Inr_inject)
      from this [of r0] have "r0 \<in> set (load_requests q s)" by simp
      moreover from refreshed True r have "r \<in> set (us @ vs) \<or> r = r1" by auto
      ultimately show ?thesis using refreshed(4-6) old [of r] by auto
    next
      case (created p code r1)
      then have "CodeIssued q now (pr_id r1) code \<in> set evs'" using True by (simp add: evs' pairing_exec_def up)
      then show ?thesis using r created True by (auto simp: in_live)
    qed (use r True in \<open>auto simp: in_live\<close>)
  qed (use r upsert_other(1) [OF up] in simp)
qed

lemma vouched_approval:
  assumes acc: "accounted h evs s" and iso: "\<And>t. ph_parse h (ph_iso h t) = Some t"
    and r: "r \<in> set (live h now (load_requests p s))" and "resolvePairingPath channel = Inr p"
    and code: "to_upper (nullish (pr_code r) []) = c"
  shows "vouched h (evs @ [CodeApproved p now c (normalizeAllowFromInput h channel (pr_id r)) (Inr g)]) g (normalizeAllowFromInput h channel (pr_id r))"
proof -
  obtain t c0 where t: "CodeIssued p t (pr_id r) c0 \<in> set evs" "pr_code r = Some c0" "pr_createdAt r = Some (ph_iso h t)" "code_ok c0"
    using accounted_requests [OF acc] r by (metis in_live)
  have "c = c0" using code t(2) code_facts [OF t(4)] by simp
  moreover have "now - t \<le> PAIRING_PENDING_TTL_MS"
    using r t(3) iso by (auto simp: in_live isExpired_def parseTimestamp_def truthy_def split: if_splits)
  moreover obtain us vs where "evs = us @ CodeIssued p t (pr_id r) c0 # vs" using t(1) by (meson split_list)
  ultimately show ?thesis using assms(4) unfolding vouched_def by (intro disjI2) (auto, blast)
qed

lemma step_approve:
  assumes acc: "accounted h evs s" and iso: "\<And>t. ph_parse h (ph_iso h t) = Some t"
    and ap: "approveChannelPairingCode h now channel code accountId s = (s', res)"
    and evs': "evs' = snd (pairing_exec h (PairingApprove now channel code accountId) s)"
  shows "accounted h (evs @ evs') s'"
proof (rule accountedI [OF acc])
  have "pairing_wf s" using acc by (simp add: accounted_def)
  from exec_wf [OF this, of "PairingApprove now channel code accountId" h] show "pairing_wf s'"
    by (simp add: pairing_exec_def fair_op_def ap)
  show "r \<in> set (load_requests q s) \<or> (\<exists>r0 \<in> set (load_requests q s). pr_id r = pr_id r0 \<and> pr_code r = pr_code r0 \<and> pr_createdAt r = pr_createdAt r0) \<or>
      (\<exists>t c. CodeIssued q t (pr_id r) c \<in> set evs' \<and> pr_code r = Some c \<and> pr_createdAt r = Some (ph_iso h t))"
    if "r \<in> set (load_requests q s')" for q r
    using ap
  proof (cases rule: approve_effect)
    case (approved p us r0 vs s2 res2)
    then have "u \<in> set (us @ r0 # vs) \<Longrightarrow> u \<in> set (load_requests p s)" for u using in_live by metis
    then show ?thesis using that approved(6) by (auto split: if_splits)
  qed (use that in \<open>auto simp: in_live split: if_splits\<close>)
  show "e \<in> set (load_allowFrom g s) \<or> (\<exists>e1 \<in> set (load_allowFrom g s). \<exists>c. e = normalizeAllowEntry h c e1) \<or> vouched h (evs @ evs') g e"
    if e: "e \<in> set (load_allowFrom g s')" for g e
    using ap
  proof (cases rule: approve_effect)
    case (approved p us r vs s2 res2)
    let ?acc = "orelse (truthy (map_option trim accountId)) (truthy (Some (trim (meta_account r))))"
    have s2: "load_allowFrom g s2 = load_allowFrom g s" using approved(7) by (simp add: load_allowFrom_def)
    show ?thesis
    proof (cases "e \<in> set (load_allowFrom g s) \<or> (\<exists>e1 \<in> set (load_allowFrom g s). e = normalizeAllowEntry h channel e1)")
      case False
      then have g: "resolveAllowFromPath channel ?acc = Inr g" "e = normalizeAllowFromInput h channel (pr_id r)"
        using add_effect [OF approved(8) e] unfolding s2 by blast+
      then have "res = Inr (Some r)" using approved(8,9)
        by (auto simp: addChannelAllowFromStoreEntry_def updateAllowFromStoreEntry_def Let_def split: if_splits option.splits)
      then have "evs' = [CodeApproved p now (to_upper (trim code)) e (Inr g)]" using g approved(1) ap by (simp add: evs' pairing_exec_def)
      then show ?thesis using vouched_approval [OF acc iso, of r now p channel "to_upper (trim code)" g] approved(1-3) g(2) by simp
    qed blast
  qed (use e in \<open>auto simp: load_allowFrom_def\<close>)
qed

lemma step_accounted:
  assumes "accounted h evs s" and iso: "\<And>t. ph_parse h (ph_iso h t) = Some t" and "fair_op x"
  shows "accounted h (evs @ snd (pairing_exec h x s)) (fst (pairing_exec h x s))"
proof (cases x)
  case (PairingAsk now rnd channel sender accountId meta)
  then show ?thesis using step_ask [OF assms(1) _ surjective_pairing refl] assms(3) by (simp add: pairing_exec_def case_prod_beta)
next
  case (PairingApprove now channel code accountId)
  then show ?thesis using step_approve [OF assms(1) iso surjective_pairing refl] by (simp add: pairing_exec_def case_prod_beta)
next
  case (PairingList now channel accountId)
  have wf: "requests_wf (load_requests q s)" for q using assms(1) by (simp add: accounted_def pairing_wf_def)
  obtain s' res where li: "listChannelPairingRequests h now channel accountId s = (s', res)" by fastforce
  note eff = list_effect [OF li wf]
  show ?thesis
  proof (rule accountedI [OF assms(1)])
    show "pairing_wf (fst (pairing_exec h x s))" using exec_wf [of s x h] assms by (simp add: accounted_def)
  qed (auto simp: PairingList pairing_exec_def li eff load_allowFrom_def in_live split: if_splits)
next
  case (AllowAdd channel entry accountId)
  obtain s' res where add: "addChannelAllowFromStoreEntry h channel entry accountId s = (s', res)" by fastforce
  show ?thesis
  proof (rule accountedI [OF assms(1)])
    show "pairing_wf (fst (pairing_exec h x s))" using exec_wf [of s x h] assms by (simp add: accounted_def)
    show "e \<in> set (load_allowFrom g s) \<or> (\<exists>e1 \<in> set (load_allowFrom g s). \<exists>c. e = normalizeAllowEntry h c e1) \<or>
        vouched h (evs @ snd (pairing_exec h x s)) g e" if "e \<in> set (load_allowFrom g (fst (pairing_exec h x s)))" for g e
      using add_effect [OF add, of e g] that by (auto simp: AllowAdd pairing_exec_def add vouched_def)
  qed (auto simp: AllowAdd pairing_exec_def addChannelAllowFromStoreEntry_def update_requests_fst)
next
  case (AllowRemove channel entry accountId)
  obtain s' res where rem: "removeChannelAllowFromStoreEntry h channel entry accountId s = (s', res)" by fastforce
  show ?thesis
  proof (rule accountedI [OF assms(1)])
    show "pairing_wf (fst (pairing_exec h x s))" using exec_wf [of s x h] assms by (simp add: accounted_def)
    show "e \<in> set (load_allowFrom g s) \<or> (\<exists>e1 \<in> set (load_allowFrom g s). \<exists>c. e = normalizeAllowEntry h c e1) \<or>
        vouched h (evs @ snd (pairing_exec h x s)) g e" if "e \<in> set (load_allowFrom g (fst (pairing_exec h x s)))" for g e
      using remove_effect [OF rem, of e g] that by (auto simp: AllowRemove pairing_exec_def rem)
  qed (auto simp: AllowRemove pairing_exec_def removeChannelAllowFromStoreEntry_def update_requests_fst)
qed

text \<open>Timestamps are read as they were written.\<close>

definition faithful_clock :: "pairing_host \<Rightarrow> bool" where
  "faithful_clock h \<longleftrightarrow> (\<forall>t. ph_parse h (ph_iso h t) = Some t)"

interpretation vouching: history_invariant "pairing_exec h" "\<lambda>evs s. faithful_clock h \<and> accounted h evs s" fair_op for h
  by unfold_locales (simp add: step_accounted faithful_clock_def)

text \<open>(C9) Nobody lets himself in: after any run of requests, approvals, listings, additions and removals from empty files, each entry of each allow file was
  added by the operator for that file, or belongs to a sender to whom a code had been issued, and that code was later approved for that file, within an
  hour of being issued. (Later writes may have normalised the entry again.) The hypothesis on timestamps is that \<open>Date.parse\<close> reads what \<open>toISOString\<close> wrote.
\<close>

theorem allowed_after_approval:
  assumes "\<forall>t. ph_parse h (ph_iso h t) = Some t" and "list_all fair_op xs"
    and "run_ops (pairing_exec h) xs no_files = (s, evs)" and "pf_allowFrom s g = Some es" and "e \<in> set es"
  shows "\<exists>e0. (e0, e) \<in> {(a, normalizeAllowEntry h c a) | a c. True}\<^sup>* \<and>
    (SenderAdded (Inr g) e0 \<in> set evs \<or>
     (\<exists>us vs ws p t t' sender c channel. evs = us @ CodeIssued p t sender c # vs @ CodeApproved p t' c e0 (Inr g) # ws \<and>
        t' - t \<le> PAIRING_PENDING_TTL_MS \<and> resolvePairingPath channel = Inr p \<and> e0 = normalizeAllowFromInput h channel sender))"
proof -
  have "accounted h [] no_files"
    unfolding accounted_def using no_files_wf by (simp add: no_files_def load_requests_def load_allowFrom_def)
  then have "faithful_clock h \<and> accounted h [] no_files" using assms(1) by (simp add: faithful_clock_def)
  from vouching.run_holds [OF assms(2) this] assms(3) have "accounted h evs s" by simp
  moreover have "e \<in> set (load_allowFrom g s)" using assms(4,5) by (simp add: load_allowFrom_def)
  ultimately show ?thesis unfolding accounted_def renormal_def vouched_def by blast
qed

text \<open>An example: a sender asks, the operator approves what he was told.\<close>

definition ex_host :: pairing_host where
  "ex_host = \<lparr>ph_iso = \<lambda>t. (if t < 0 then CHR ''-'' else CHR ''+'') # replicate (nat (abs t)) CHR ''1'',
     ph_parse = \<lambda>s. if s = [] then None else Some ((if hd s = CHR ''-'' then - 1 else 1) * int (length s - 1)),
     ph_entry = \<lambda>_. None, ph_locale = \<lambda>a b. int (length a) - int (length b)\<rparr>"

definition ex_ask :: "int \<Rightarrow> string \<Rightarrow> pairing_op" where
  "ex_ask now sender = PairingAsk now (\<lambda>n. n mod 32) ''Telegram'' sender None None"

lemma ex_iso: "\<forall>t. ph_parse ex_host (ph_iso ex_host t) = Some t"
  by (auto simp: ex_host_def)

lemma ex_fair: "fair_op (ex_ask now sender)"
  by (simp add: ex_ask_def fair_op_def)

lemma ex_approved:
  "pf_allowFrom (fst (run_ops (pairing_exec ex_host) [ex_ask 1 ''bob'', PairingApprove 2 ''telegram'' '' abcdefgh'' None] no_files))
     ''telegram-allowFrom.json'' = Some [''bob'']"
  by code_simp

lemma pairing_requests_wf_witness:
  "\<forall>p. requests_wf (load_requests p (fst (run_ops (pairing_exec ex_host) [ex_ask 1 ''bob'', ex_ask 2 ''eve'', ex_ask 3 ''bob''] no_files)))"
  by (rule pairing_requests_wf) (use no_files_wf in \<open>simp_all add: pairing_wf_def ex_fair\<close>)

lemma allowed_after_approval_witness:
  "\<exists>e0. (e0, ''bob'') \<in> {(a, normalizeAllowEntry ex_host c a) | a c. True}\<^sup>* \<and>
    (let evs = snd (run_ops (pairing_exec ex_host) [ex_ask 1 ''bob'', PairingApprove 2 ''telegram'' '' abcdefgh'' None] no_files) in
     SenderAdded (Inr ''telegram-allowFrom.json'') e0 \<in> set evs \<or>
     (\<exists>us vs ws p t t' sender c channel. evs = us @ CodeIssued p t sender c # vs @ CodeApproved p t' c e0 (Inr ''telegram-allowFrom.json'') # ws \<and>
        t' - t \<le> PAIRING_PENDING_TTL_MS \<and> resolvePairingPath channel = Inr p \<and> e0 = normalizeAllowFromInput ex_host channel sender))"
proof -
  let ?xs = "[ex_ask 1 ''bob'', PairingApprove 2 ''telegram'' '' abcdefgh'' None]"
  have "list_all fair_op ?xs" by (simp add: ex_fair) (simp add: fair_op_def)
  from allowed_after_approval [OF ex_iso this prod.collapse [symmetric] ex_approved, of "''bob''"] show ?thesis
    unfolding Let_def by simp
qed

subsection \<open>A code stays good\<close>

lemma add_succeeds:
  assumes "resolveAllowFromPath channel accountId = Inr g"
  shows "\<exists>v. snd (addChannelAllowFromStoreEntry h channel entry accountId s) = Inr v"
  by (auto simp: addChannelAllowFromStoreEntry_def updateAllowFromStoreEntry_def assms Let_def split: option.split)

text \<open>What may happen meanwhile: other senders ask, other codes are tried and approved, requests are listed, allow files change, all before \<open>r\<close> expires.\<close>

definition bystanding :: "pairing_host \<Rightarrow> PairingRequest \<Rightarrow> pairing_op \<Rightarrow> bool" where
  "bystanding h r x \<longleftrightarrow> (case x of
     PairingAsk now rnd channel sender accountId meta \<Rightarrow> (\<forall>n. rnd n < 32) \<and> trim sender \<noteq> pr_id r \<and> \<not> isExpired h r now
   | PairingList now channel accountId \<Rightarrow> \<not> isExpired h r now
   | PairingApprove now channel code accountId \<Rightarrow> to_upper (trim code) \<noteq> to_upper (nullish (pr_code r) []) \<and> \<not> isExpired h r now
   | _ \<Rightarrow> True)"

lemma step_keeps:
  assumes "pairing_wf s" "r \<in> set (load_requests p s)" "bystanding h r x"
  shows "r \<in> set (load_requests p (fst (pairing_exec h x s)))"
proof (cases x)
  case (PairingAsk now rnd channel sender accountId meta)
  have wf: "requests_wf (load_requests q s)" for q using assms(1) by (simp add: pairing_wf_def)
  have rnd: "rnd n < 32" for n using assms(3) by (simp add: bystanding_def PairingAsk)
  have live: "r \<in> set (live h now (load_requests p s))" "trim sender \<noteq> pr_id r" using assms(2,3) by (auto simp: in_live bystanding_def PairingAsk)
  obtain s' res where up: "upsertChannelPairingRequest h now rnd channel sender accountId meta s = (s', res)" by fastforce
  have "r \<in> set (load_requests p s')"
  proof (cases "resolvePairingPath channel = Inr p")
    case True
    from up wf rnd show ?thesis by (cases rule: upsert_effect) (use True live assms(2) in auto)
  qed (use upsert_other(1) [OF up] assms(2) in simp)
  then show ?thesis by (simp add: PairingAsk pairing_exec_def up)
next
  case (PairingList now channel accountId)
  have wf: "requests_wf (load_requests q s)" for q using assms(1) by (simp add: pairing_wf_def)
  obtain s' res where li: "listChannelPairingRequests h now channel accountId s = (s', res)" by fastforce
  show ?thesis using list_effect(2) [OF li wf, of p] assms(2,3) by (simp add: PairingList pairing_exec_def li in_live bystanding_def)
next
  case (PairingApprove now channel code accountId)
  have live: "r \<in> set (live h now (load_requests p s))" and other: "to_upper (trim code) \<noteq> to_upper (nullish (pr_code r) [])"
    using assms(2,3) by (auto simp: in_live bystanding_def PairingApprove)
  obtain s' res where ap: "approveChannelPairingCode h now channel code accountId s = (s', res)" by fastforce
  then have "r \<in> set (load_requests p s')"
  proof (cases rule: approve_effect)
    case (approved q us r' vs s2 res2)
    then have "r' \<noteq> r" using other by auto
    then show ?thesis using approved(2,6) live assms(2) by (cases "p = q") auto
  qed (use assms(2) live in auto)
  then show ?thesis by (simp add: PairingApprove pairing_exec_def ap)
qed (use assms in \<open>simp_all add: bystanding_def pairing_exec_def addChannelAllowFromStoreEntry_def removeChannelAllowFromStoreEntry_def update_requests_fst\<close>)

lemma bystanding_fair: "bystanding h r x \<Longrightarrow> fair_op x"
  by (auto simp: bystanding_def fair_op_def split: pairing_op.splits)

interpretation bystanders: step_invariant "pairing_exec h" "\<lambda>s. pairing_wf s \<and> r \<in> set (load_requests p s)" "bystanding h r" for h r p
  by unfold_locales (simp add: exec_wf step_keeps bystanding_fair)

lemma code_identifies:
  assumes "requests_wf rs" "r \<in> set rs" "r' \<in> set rs" "to_upper (nullish (pr_code r') []) = to_upper (nullish (pr_code r) [])"
  shows "r' = r"
proof -
  have "request_wf r" "request_wf r'" using assms(1-3) by (auto simp: requests_wf_def list_all_iff)
  then have "pr_code r' = pr_code r" using assms(4) code_facts(3) by (auto simp: request_wf_def)
  then show ?thesis using assms(1-3) by (auto simp: requests_wf_def distinct_map dest: inj_onD)
qed

text \<open>(C18) Strangers cannot spoil a request: as long as it has not expired, no matter how many other senders ask meanwhile for whichever channel, which other codes
  are typed and approved, and what is listed, added or removed, an open request stays, and the operator who types its code, in any case and with blanks around
  it, approves exactly this request. The account of the request must be one that can be part of a file name; for another the approval fails (the last lemma of this file).
\<close>

theorem pending_code_stays_good:
  assumes "\<forall>p. requests_wf (load_requests p s)" and "resolvePairingPath channel = Inr p" and "r \<in> set (load_requests p s)"
    and "list_all (bystanding h r) xs" and "\<not> isExpired h r now"
    and "to_upper (trim typed) = nullish (pr_code r) []"
    and "resolveAllowFromPath channel (truthy (Some (trim (meta_account r)))) = Inr g"
  shows "snd (approveChannelPairingCode h now channel typed None (fst (run_ops (pairing_exec h) xs s))) = Inr (Some r)"
proof -
  let ?s = "fst (run_ops (pairing_exec h) xs s)"
  have keep: "requests_wf (load_requests p ?s)" "r \<in> set (load_requests p ?s)"
    using bystanders.run_inv [OF assms(4), of s p] assms(1,3) by (auto simp: pairing_wf_def)
  then have live: "r \<in> set (live h now (load_requests p ?s))" "requests_wf (live h now (load_requests p ?s))"
    using assms(5) requests_wf_live by (auto simp: in_live)
  obtain c where c: "pr_code r = Some c" "code_ok c" using keep by (auto simp: requests_wf_def list_all_iff request_wf_def)
  then have typed: "to_upper (nullish (pr_code r) []) = to_upper (trim typed)" "to_upper (trim typed) \<noteq> []"
    using assms(6) code_facts [OF c(2)] by auto
  obtain s' res where ap: "approveChannelPairingCode h now channel typed None ?s = (s', res)" by fastforce
  let ?P = "\<lambda>r. to_upper (nullish (pr_code r) []) = to_upper (trim typed) \<and> requestMatchesAccountId r (normalizePairingAccountId None)"
  have m: "?P r" using typed(1) by (simp add: requestMatchesAccountId_def normalizePairingAccountId_def)
  then obtain i where i: "find_index ?P (live h now (load_requests p ?s)) = Some i"
    using live(1) find_index_None [of ?P] by (cases "find_index ?P (live h now (load_requests p ?s))") (auto simp: list_all_iff)
  then obtain us r' vs where r': "live h now (load_requests p ?s) = us @ r' # vs" "length us = i" "?P r'" using find_index_Some [OF i] by blast
  then have "r' = r" using code_identifies [OF live(2) live(1), of r'] typed(1) by simp
  then have at: "live h now (load_requests p ?s) ! i = r" using r'(1,2) by (simp add: nth_append)
  have "truthy None = (None :: string option)" by (simp add: truthy_def)
  then have acc: "orelse (truthy (map_option trim None)) (truthy (Some (trim (meta_account r)))) = truthy (Some (trim (meta_account r)))" by simp
  obtain v where v: "\<And>s. snd (addChannelAllowFromStoreEntry h channel (pr_id r) (truthy (Some (trim (meta_account r)))) s) = Inr (v s)"
    using add_succeeds [OF assms(7)] by metis
  show ?thesis using typed(2) i at
    by (simp only: approveChannelPairingCode_def Let_def assms(2) prune_live load_ensure case_prod_beta sum.case option.case if_False fst_conv snd_conv acc v)
qed

lemma pending_code_stays_good_witness:
  "let s1 = fst (run_ops (pairing_exec ex_host) [ex_ask 1 ''bob''] no_files);
       r = hd (load_requests ''telegram-pairing.json'' s1)
   in pr_id r = ''bob'' \<and> snd (approveChannelPairingCode ex_host 9 ''telegram'' '' abcdefgh '' None
        (fst (run_ops (pairing_exec ex_host) [ex_ask 2 ''eve'', PairingApprove 3 ''telegram'' ''xyz'' None] s1))) = Inr (Some r)"
proof -
  let ?s = "fst (run_ops (pairing_exec ex_host) [ex_ask 1 ''bob''] no_files)"
  let ?r = "\<lparr>pr_id = ''bob'', pr_code = Some ''ABCDEFGH'', pr_createdAt = Some ''+1'', pr_lastSeenAt = Some ''+1'', pr_meta = None\<rparr>"
  have load: "load_requests ''telegram-pairing.json'' ?s = [?r]" by code_simp
  have wf: "\<forall>p. requests_wf (load_requests p ?s)" using pairing_store.run_inv [OF _ no_files_wf, of "[ex_ask 1 ''bob'']" ex_host] by (simp add: pairing_wf_def ex_fair)
  have p: "resolvePairingPath ''telegram'' = Inr ''telegram-pairing.json''" by code_simp
  have mem: "?r \<in> set (load_requests ''telegram-pairing.json'' ?s)" unfolding load by simp
  have t: "to_upper (trim '' abcdefgh '') = ''ABCDEFGH''" by code_simp
  have g: "resolveAllowFromPath ''telegram'' None = Inr ''telegram-allowFrom.json''" by code_simp
  have live: "\<not> isExpired ex_host ?r 2" "\<not> isExpired ex_host ?r 9" "\<not> isExpired ex_host ?r 3" by code_simp+
  have b: "list_all (bystanding ex_host ?r) [ex_ask 2 ''eve'', PairingApprove 3 ''telegram'' ''xyz'' None]"
  proof -
    have "trim ''eve'' \<noteq> ''bob''" by code_simp
    moreover have "to_upper (trim ''xyz'') \<noteq> to_upper ''ABCDEFGH''" by code_simp
    ultimately show ?thesis using live by (simp add: bystanding_def ex_ask_def)
  qed
  have "snd (approveChannelPairingCode ex_host 9 ''telegram'' '' abcdefgh '' None
      (fst (run_ops (pairing_exec ex_host) [ex_ask 2 ''eve'', PairingApprove 3 ''telegram'' ''xyz'' None] ?s))) = Inr (Some ?r)"
    by (rule pending_code_stays_good [OF wf p mem b live(2), of _ "''telegram-allowFrom.json''"])
      (simp_all add: t g meta_account_def truthy_def)
  then show ?thesis unfolding Let_def load by simp
qed

subsection \<open>Where pairing falls short\<close>

text \<open>The file of a channel and that of an account of another channel can be the same.\<close>

lemma allow_files_collide:
  "resolveAllowFromPath ''matrix'' (Some ''work'') = Inr ''matrix-work-allowFrom.json''"
  "resolveAllowFromPath ''matrix-work'' None = Inr ''matrix-work-allowFrom.json''"
  by code_simp+

text \<open>A sender who asks for a second account takes its request, code and all, away from the first.\<close>

lemma second_account_takes_request:
  "let ask = (\<lambda>t a. PairingAsk t (\<lambda>n. n mod 32) ''telegram'' ''bob'' (Some a) None);
       s = fst (run_ops (pairing_exec ex_host) [ask 1 ''home'', ask 2 ''work''] no_files)
   in snd (approveChannelPairingCode ex_host 3 ''telegram'' ''ABCDEFGH'' (Some ''home'') s) = Inr None \<and>
      length (load_requests ''telegram-pairing.json'' s) = 1"
  by code_simp

text \<open>A request whose account cannot be part of a file name is spent by its approval, which then fails.\<close>

lemma approval_spends_request:
  "let s = fst (run_ops (pairing_exec ex_host) [PairingAsk 1 (\<lambda>n. n mod 32) ''telegram'' ''bob'' (Some ''*'') None] no_files);
       (s', res) = approveChannelPairingCode ex_host 2 ''telegram'' ''ABCDEFGH'' None s
   in res = Inl InvalidAccountId \<and> load_requests ''telegram-pairing.json'' s' = []"
  by code_simp

end
