(* ===== verification/Sandbox_Guard.thy ===== *)
theory Sandbox_Guard
  imports Node_Host Gateway_Net
begin

section \<open>What a sandbox may see (agents/sandbox, agents/sandbox-paths.ts)\<close>

text \<open>
  Agents run in containers. Before a container is created its bind mounts, network and profiles are checked
  (agents/sandbox/validate-sandbox-security.ts) and its environment is stripped of credentials (agents/sandbox/sanitize-env-vars.ts); the file
  tools map the paths an agent names to host paths inside its mounts (agents/sandbox/fs-paths.ts) or its workspace, without
  following symbolic links out of it (agents/sandbox-paths.ts).

  The host is a POSIX system. The file system, the home directory and the parser of \<open>file:\<close> URLs are arguments.
\<close>

subsection \<open>Bind mounts\<close>

definition BLOCKED_HOST_PATHS :: "string list" where
  "BLOCKED_HOST_PATHS = [''/etc'', ''/private/etc'', ''/proc'', ''/sys'', ''/dev'', ''/root'', ''/boot'', ''/run'', ''/var/run'', ''/private/var/run'',
     ''/var/run/docker.sock'', ''/private/var/run/docker.sock'', ''/run/docker.sock'']"

datatype BlockedBindReason = BindTargets string | BindCovers string | BindNonAbsolute string

definition parseBindSourcePath :: "string \<Rightarrow> string" where
  "parseBindSourcePath bind =
     (let trimmed = trim bind in
      case index_of CHR '':'' trimmed of
        None \<Rightarrow> trimmed
      | Some firstColon \<Rightarrow> if firstColon = 0 then trimmed else take firstColon trimmed)"

definition normalizeHostPath :: "string \<Rightarrow> string" where
  "normalizeHostPath raw = or_string (strip_slashes (posix_normalize (trim raw))) ''/''"

definition getBlockedReasonForSourcePath :: "string \<Rightarrow> BlockedBindReason option" where
  "getBlockedReasonForSourcePath sourceNormalized =
     (if sourceNormalized = ''/'' then Some (BindCovers ''/'')
      else map_option BindTargets
        (find (\<lambda>blocked. sourceNormalized = blocked \<or> starts_with sourceNormalized (blocked @ ''/'')) BLOCKED_HOST_PATHS))"

definition getBlockedBindReason :: "string \<Rightarrow> BlockedBindReason option" where
  "getBlockedBindReason bind =
     (let sourceRaw = parseBindSourcePath bind in
      if \<not> starts_with sourceRaw ''/'' then Some (BindNonAbsolute sourceRaw)
      else getBlockedReasonForSourcePath (normalizeHostPath sourceRaw))"

text \<open>\<open>realpath\<close> gives \<open>None\<close> where the path does not exist or cannot be resolved.\<close>

definition tryRealpathAbsolute :: "(string \<Rightarrow> string option) \<Rightarrow> string \<Rightarrow> string" where
  "tryRealpathAbsolute realpath p =
     (if \<not> starts_with p ''/'' then p else case realpath p of None \<Rightarrow> p | Some r \<Rightarrow> normalizeHostPath r)"

text \<open>The first bind that is refused, with the reason; \<open>None\<close>: all pass.\<close>

definition bindReason :: "(string \<Rightarrow> string option) \<Rightarrow> string \<Rightarrow> BlockedBindReason option" where
  "bindReason realpath bind =
     (case getBlockedBindReason bind of
        Some reason \<Rightarrow> Some reason
      | None \<Rightarrow>
          (let sourceNormalized = normalizeHostPath (parseBindSourcePath bind);
               sourceReal = tryRealpathAbsolute realpath sourceNormalized
           in if sourceReal \<noteq> sourceNormalized then getBlockedReasonForSourcePath sourceReal else None))"

fun validateBinds :: "(string \<Rightarrow> string option) \<Rightarrow> string list \<Rightarrow> (string \<times> BlockedBindReason) option" where
  "validateBinds realpath [] = None"
| "validateBinds realpath (rawBind # binds) =
     (let bind = trim rawBind in
      if bind = [] then validateBinds realpath binds
      else (case bindReason realpath bind of Some reason \<Rightarrow> Some (bind, reason) | None \<Rightarrow> validateBinds realpath binds))"

definition validateBindMounts :: "(string \<Rightarrow> string option) \<Rightarrow> string list option \<Rightarrow> (string \<times> BlockedBindReason) option" where
  "validateBindMounts realpath binds = validateBinds realpath (nullish binds [])"

datatype sandbox_refusal = RefusedBind string BlockedBindReason | RefusedNetwork string | RefusedSeccomp string | RefusedApparmor string

definition blockedValue :: "string list \<Rightarrow> string option \<Rightarrow> string option" where
  "blockedValue blocked v = (case truthy v of Some s \<Rightarrow> if to_lower (trim s) \<in> set blocked then Some s else None | None \<Rightarrow> None)"

definition validateNetworkMode :: "string option \<Rightarrow> sandbox_refusal option" where
  "validateNetworkMode network = map_option RefusedNetwork (blockedValue [''host''] network)"

definition validateSeccompProfile :: "string option \<Rightarrow> sandbox_refusal option" where
  "validateSeccompProfile profile = map_option RefusedSeccomp (blockedValue [''unconfined''] profile)"

definition validateApparmorProfile :: "string option \<Rightarrow> sandbox_refusal option" where
  "validateApparmorProfile profile = map_option RefusedApparmor (blockedValue [''unconfined''] profile)"

record SandboxDockerConfig =
  sd_binds :: "string list option"
  sd_network :: "string option"
  sd_seccompProfile :: "string option"
  sd_apparmorProfile :: "string option"

definition validateSandboxSecurity :: "(string \<Rightarrow> string option) \<Rightarrow> SandboxDockerConfig \<Rightarrow> sandbox_refusal option" where
  "validateSandboxSecurity realpath cfg =
     orelse (map_option (\<lambda>(bind, reason). RefusedBind bind reason) (validateBindMounts realpath (sd_binds cfg)))
       (orelse (validateNetworkMode (sd_network cfg))
         (orelse (validateSeccompProfile (sd_seccompProfile cfg)) (validateApparmorProfile (sd_apparmorProfile cfg))))"

subsection \<open>The environment\<close>

text \<open>The patterns. Without the \<open>m\<close> flag \<open>$\<close> is the end of the text, and with \<open>i\<close> the case of letters is ignored.\<close>

definition BLOCKED_ENV_VAR_NAMES :: "string list" where
  "BLOCKED_ENV_VAR_NAMES = [''anthropic_api_key'', ''openai_api_key'', ''gemini_api_key'', ''openrouter_api_key'', ''minimax_api_key'',
     ''elevenlabs_api_key'', ''synthetic_api_key'', ''telegram_bot_token'', ''discord_bot_token'', ''slack_bot_token'', ''slack_app_token'',
     ''line_channel_secret'', ''line_channel_access_token'', ''openclaw_gateway_token'', ''openclaw_gateway_password'',
     ''aws_secret_access_key'', ''aws_secret_key'', ''aws_session_token'', ''gh_token'', ''github_token'',
     ''azure_api_key'', ''azure_openai_api_key'', ''cohere_api_key'', ''ai_gateway_api_key'']"

definition BLOCKED_ENV_VAR_SUFFIXES :: "string list" where
  "BLOCKED_ENV_VAR_SUFFIXES = [''api_key'', ''token'', ''password'', ''private_key'', ''secret'']"

definition matchesBlockedPattern :: "string \<Rightarrow> bool" where
  "matchesBlockedPattern key \<longleftrightarrow>
     to_lower key \<in> set BLOCKED_ENV_VAR_NAMES \<or> list_ex (ends_with (to_lower key)) BLOCKED_ENV_VAR_SUFFIXES"

definition matchesAllowedPattern :: "string \<Rightarrow> bool" where
  "matchesAllowedPattern key \<longleftrightarrow>
     key = ''LANG'' \<or> (starts_with (to_lower key) ''lc_'' \<and> NL \<notin> set key \<and> CR \<notin> set key) \<or>
     to_lower key \<in> {''path'', ''home'', ''user'', ''shell'', ''term'', ''tz'', ''node_env''}"

definition is_base64_char :: "char \<Rightarrow> bool" where
  "is_base64_char c \<longleftrightarrow> is_digit c \<or> c \<in> set ''ABCDEFGHIJKLMNOPQRSTUVWXYZabcdefghijklmnopqrstuvwxyz+/=''"

datatype env_warning = NullBytes | TooLong | LooksLikeCredential

definition validateEnvVarValue :: "string \<Rightarrow> env_warning option" where
  "validateEnvVarValue v =
     (if CHR 0x00 \<in> set v then Some NullBytes
      else if length v > 32768 then Some TooLong
      else if length v \<ge> 80 \<and> list_all is_base64_char v then Some LooksLikeCredential
      else None)"

record EnvVarSanitizationResult =
  ev_allowed :: "(string \<times> string) list"
  ev_blocked :: "string list"
  ev_warnings :: "(string \<times> env_warning) list"

record EnvSanitizationOptions =
  eo_strictMode :: bool
  eo_blocked :: "(string \<Rightarrow> bool) list"
  eo_allowed :: "(string \<Rightarrow> bool) list"

definition sanitizeEnvVar :: "EnvSanitizationOptions \<Rightarrow> string \<times> string \<Rightarrow> EnvVarSanitizationResult \<Rightarrow> EnvVarSanitizationResult" where
  "sanitizeEnvVar opts = (\<lambda>(rawKey, v) res.
     (let key = trim rawKey; block = res\<lparr>ev_blocked := ev_blocked res @ [key]\<rparr> in
      if key = [] then res
      else if list_ex (\<lambda>p. p key) (matchesBlockedPattern # eo_blocked opts) then block
      else if eo_strictMode opts \<and> \<not> list_ex (\<lambda>p. p key) (matchesAllowedPattern # eo_allowed opts) then block
      else (case validateEnvVarValue v of
          Some NullBytes \<Rightarrow> block
        | Some w \<Rightarrow> res\<lparr>ev_warnings := ev_warnings res @ [(key, w)], ev_allowed := AList.update key v (ev_allowed res)\<rparr>
        | None \<Rightarrow> res\<lparr>ev_allowed := AList.update key v (ev_allowed res)\<rparr>)))"

definition sanitizeEnvVars :: "(string \<times> string) list \<Rightarrow> EnvSanitizationOptions \<Rightarrow> EnvVarSanitizationResult" where
  "sanitizeEnvVars envVars opts = fold (sanitizeEnvVar opts) envVars \<lparr>ev_allowed = [], ev_blocked = [], ev_warnings = []\<rparr>"

subsection \<open>Paths in the workspace\<close>

datatype lstat_answer = Missing | SymbolicLink | OtherFile | StatFails string

record sandbox_host =
  sh_cwd :: string
  sh_homedir :: string
  sh_lstat :: "string \<Rightarrow> lstat_answer"
  sh_realpath :: "string \<Rightarrow> string option"
  sh_fileURLToPath :: "string \<Rightarrow> string option"

text \<open>The segments of a path, from the rootDir. \<open>path.relative\<close> climbs from the one to the common part and descends to the other.\<close>

definition segs :: "sandbox_host \<Rightarrow> string \<Rightarrow> string list" where
  "segs h p = path_segments True (posix_resolve_from (sh_cwd h) [p])"

definition relative_segs :: "string list \<Rightarrow> string list \<Rightarrow> string list" where
  "relative_segs f t = (let k = length (longest_common_prefix f t) in replicate (length f - k) ''..'' @ drop k t)"

definition posix_relative :: "sandbox_host \<Rightarrow> string \<Rightarrow> string \<Rightarrow> string" where
  "posix_relative h f t = join ''/'' (relative_segs (segs h f) (segs h t))"

definition normalizeUnicodeSpaces :: "string \<Rightarrow> string" where
  "normalizeUnicodeSpaces s = map (\<lambda>c. if c = CHR 0xA0 then SPACE else c) s"

definition expandPath :: "sandbox_host \<Rightarrow> string \<Rightarrow> string" where
  "expandPath h filePath =
     (let normalized = normalizeUnicodeSpaces filePath in
      if normalized = ''~'' then sh_homedir h
      else if starts_with normalized ''~/'' then sh_homedir h @ tl normalized
      else normalized)"

definition resolveSandboxInputPath :: "sandbox_host \<Rightarrow> string \<Rightarrow> string \<Rightarrow> string" where
  "resolveSandboxInputPath h filePath cwd =
     (let expanded = expandPath h filePath in
      if posix_isAbsolute expanded then expanded else posix_resolve (sh_cwd h) [cwd, expanded])"

datatype sandbox_error = PathEscapes string string | SymlinkEscapes string string | StatError string | InvalidFileUrl string

definition resolveSandboxPath :: "sandbox_host \<Rightarrow> string \<Rightarrow> string \<Rightarrow> string \<Rightarrow> sandbox_error + string \<times> string" where
  "resolveSandboxPath h filePath cwd rootDir =
     (let resolved = resolveSandboxInputPath h filePath cwd;
          rootResolved = posix_resolve (sh_cwd h) [rootDir];
          relative = posix_relative h rootResolved resolved
      in if relative = [] then Inr (resolved, [])
         else if starts_with relative ''..'' \<or> posix_isAbsolute relative then Inl (PathEscapes rootResolved filePath)
         else Inr (resolved, relative))"

definition tryRealpath :: "sandbox_host \<Rightarrow> string \<Rightarrow> string" where
  "tryRealpath h v = (case sh_realpath h v of Some r \<Rightarrow> r | None \<Rightarrow> posix_resolve (sh_cwd h) [v])"

definition isPathInside :: "sandbox_host \<Rightarrow> string \<Rightarrow> string \<Rightarrow> bool" where
  "isPathInside h rootDir target =
     (let relative = posix_relative h rootDir target in
      if relative = [] then True else \<not> (starts_with relative ''..'' \<or> posix_isAbsolute relative))"

text \<open>The walk down the parts of the relative path. Where the code returns nothing, the model gives the place the walk has reached.\<close>

fun walkParts :: "sandbox_host \<Rightarrow> string \<Rightarrow> bool \<Rightarrow> string \<Rightarrow> string list \<Rightarrow> sandbox_error + string" where
  "walkParts h rootReal allowFinalSymlink current [] = Inr current"
| "walkParts h rootReal allowFinalSymlink current (part # parts) =
     (let current = posix_join current part in
      case sh_lstat h current of
        Missing \<Rightarrow> Inr current
      | StatFails e \<Rightarrow> Inl (StatError e)
      | OtherFile \<Rightarrow> walkParts h rootReal allowFinalSymlink current parts
      | SymbolicLink \<Rightarrow>
          if allowFinalSymlink \<and> parts = [] then Inr current
          else (let target = tryRealpath h current in
            if \<not> isPathInside h rootReal target then Inl (SymlinkEscapes rootReal current)
            else walkParts h rootReal allowFinalSymlink target parts))"

definition assertNoSymlinkEscape :: "sandbox_host \<Rightarrow> string \<Rightarrow> string \<Rightarrow> bool \<Rightarrow> sandbox_error + string" where
  "assertNoSymlinkEscape h relative rootDir allowFinalSymlink =
     (if relative = [] then Inr rootDir
      else walkParts h (tryRealpath h rootDir) allowFinalSymlink rootDir (filter (\<lambda>p. p \<noteq> []) (split_on SLASH relative)))"

definition assertSandboxPath :: "sandbox_host \<Rightarrow> string \<Rightarrow> string \<Rightarrow> string \<Rightarrow> bool \<Rightarrow> sandbox_error + string \<times> string" where
  "assertSandboxPath h filePath cwd rootDir allowFinalSymlink =
     (case resolveSandboxPath h filePath cwd rootDir of
        Inl e \<Rightarrow> Inl e
      | Inr (resolved, relative) \<Rightarrow>
          (case assertNoSymlinkEscape h relative (posix_resolve (sh_cwd h) [rootDir]) allowFinalSymlink of
             Inl e \<Rightarrow> Inl e | Inr _ \<Rightarrow> Inr (resolved, relative)))"

definition isDataUrl :: "string \<Rightarrow> bool" where
  "isDataUrl media = starts_with (to_lower (trim media)) ''data:''"

definition resolveSandboxedMediaSource :: "sandbox_host \<Rightarrow> string \<Rightarrow> string \<Rightarrow> sandbox_error + string" where
  "resolveSandboxedMediaSource h media sandboxRoot =
     (let raw = trim media; l = to_lower raw in
      if raw = [] then Inr raw
      else if starts_with l ''http://'' \<or> starts_with l ''https://'' then Inr raw
      else (case (if starts_with l ''file://'' then sh_fileURLToPath h raw else Some raw) of
          None \<Rightarrow> Inl (InvalidFileUrl raw)
        | Some candidate \<Rightarrow> map_sum id fst (assertSandboxPath h candidate sandboxRoot sandboxRoot False)))"

subsection \<open>Paths through mounts\<close>

datatype mount_source = MountWorkspace | MountAgent | MountBind

record SandboxFsMount =
  sm_hostRoot :: string
  sm_containerRoot :: string
  sm_writable :: bool
  sm_source :: mount_source

record SandboxResolvedFsPath =
  rp_hostPath :: string
  rp_relativePath :: string
  rp_containerPath :: string
  rp_writable :: bool

definition isDriveLetter :: "char \<Rightarrow> bool" where
  "isDriveLetter c \<longleftrightarrow> (let n = (of_char (lower_char c) :: nat) in (of_char c :: nat) < 128 \<and> 97 \<le> n \<and> n \<le> 122)"

definition getHostContainerSeparatorIndex :: "string \<Rightarrow> nat option" where
  "getHostContainerSeparatorIndex spec =
     (if length spec \<ge> 3 \<and> isDriveLetter (spec ! 0) \<and> spec ! 1 = CHR '':'' \<and> (spec ! 2 = BSL \<or> spec ! 2 = SLASH)
      then map_option (\<lambda>i. i + 2) (index_of CHR '':'' (drop 2 spec))
      else index_of CHR '':'' spec)"

text \<open>Host, container and options of a bind.\<close>

definition splitBindSpec :: "string \<Rightarrow> (string \<times> string \<times> string) option" where
  "splitBindSpec spec =
     (case getHostContainerSeparatorIndex spec of
        None \<Rightarrow> None
      | Some separator \<Rightarrow>
          (let host = take separator spec; rest = drop (Suc separator) spec in
           case index_of CHR '':'' rest of
             None \<Rightarrow> Some (host, rest, [])
           | Some optionsStart \<Rightarrow> Some (host, take optionsStart rest, drop (Suc optionsStart) rest)))"

definition normalizeContainerPath :: "string \<Rightarrow> string" where
  "normalizeContainerPath v = (let normalized = posix_normalize v in if normalized = ''.'' then ''/'' else normalized)"

definition parseSandboxBindMount :: "sandbox_host \<Rightarrow> string \<Rightarrow> SandboxFsMount option" where
  "parseSandboxBindMount h spec =
     (if trim spec = [] then None
      else (case splitBindSpec (trim spec) of
          None \<Rightarrow> None
        | Some (host, container, options) \<Rightarrow>
            (let hostToken = trim host; containerToken = trim container in
             if hostToken = [] \<or> containerToken = [] \<or> \<not> posix_isAbsolute containerToken then None
             else (let optionsToken = to_lower (trim options);
                       optionParts = (if optionsToken = [] then [] else map trim (split_on CHR '','' optionsToken))
                   in Some \<lparr>sm_hostRoot = posix_resolve (sh_cwd h) [hostToken], sm_containerRoot = normalizeContainerPath containerToken,
                        sm_writable = (''ro'' \<notin> set optionParts), sm_source = MountBind\<rparr>))))"

datatype workspace_access = AccessNone | AccessRo | AccessRw

record SandboxContext =
  sc_workspaceDir :: string
  sc_agentWorkspaceDir :: string
  sc_workspaceAccess :: workspace_access
  sc_containerWorkdir :: string
  sc_binds :: "string list option"

definition SANDBOX_AGENT_WORKSPACE_MOUNT :: string where "SANDBOX_AGENT_WORKSPACE_MOUNT = ''/agent''"

definition mountKey :: "SandboxFsMount \<Rightarrow> string" where
  "mountKey m = sm_hostRoot m @ ''=>'' @ sm_containerRoot m"

fun dedupeMountsFrom :: "string list \<Rightarrow> SandboxFsMount list \<Rightarrow> SandboxFsMount list" where
  "dedupeMountsFrom seen [] = []"
| "dedupeMountsFrom seen (m # ms) =
     (if mountKey m \<in> set seen then dedupeMountsFrom seen ms else m # dedupeMountsFrom (mountKey m # seen) ms)"

definition dedupeMounts :: "SandboxFsMount list \<Rightarrow> SandboxFsMount list" where
  "dedupeMounts mounts = dedupeMountsFrom [] mounts"

definition buildSandboxFsMounts :: "sandbox_host \<Rightarrow> SandboxContext \<Rightarrow> SandboxFsMount list" where
  "buildSandboxFsMounts h sandbox =
     (let workspace = posix_resolve (sh_cwd h) [sc_workspaceDir sandbox]; agent = posix_resolve (sh_cwd h) [sc_agentWorkspaceDir sandbox];
          rw = (sc_workspaceAccess sandbox = AccessRw)
      in dedupeMounts
        (\<lparr>sm_hostRoot = workspace, sm_containerRoot = normalizeContainerPath (sc_containerWorkdir sandbox), sm_writable = rw, sm_source = MountWorkspace\<rparr> #
         (if sc_workspaceAccess sandbox \<noteq> AccessNone \<and> agent \<noteq> workspace
          then [\<lparr>sm_hostRoot = agent, sm_containerRoot = SANDBOX_AGENT_WORKSPACE_MOUNT, sm_writable = rw, sm_source = MountAgent\<rparr>] else []) @
         List.map_filter (parseSandboxBindMount h) (nullish (sc_binds sandbox) [])))"

definition normalizePosixInput :: "string \<Rightarrow> string" where
  "normalizePosixInput v = trim (map (\<lambda>c. if c = BSL then SLASH else c) v)"

definition toDisplayRelative :: "sandbox_host \<Rightarrow> string \<Rightarrow> string \<Rightarrow> string" where
  "toDisplayRelative h containerPath defaultContainerRoot =
     (let rel = posix_relative h defaultContainerRoot containerPath in
      if rel = [] then [] else if \<not> starts_with rel ''..'' \<and> \<not> posix_isAbsolute rel then rel else containerPath)"

text \<open>\<open>toSorted((a, b) => b.x.length - a.x.length)\<close> is stable and puts the longest first.\<close>

definition sortByLength :: "(SandboxFsMount \<Rightarrow> string) \<Rightarrow> SandboxFsMount list \<Rightarrow> SandboxFsMount list" where
  "sortByLength f mounts = sort_key (\<lambda>m. - int (length (f m))) mounts"

definition findMount :: "sandbox_host \<Rightarrow> (SandboxFsMount \<Rightarrow> string) \<Rightarrow> SandboxFsMount list \<Rightarrow> string \<Rightarrow> SandboxFsMount option" where
  "findMount h f mounts target = find (\<lambda>m. isPathInside h (f m) target) mounts"

definition resolveSandboxFsPathWithMounts ::
  "sandbox_host \<Rightarrow> string \<Rightarrow> string \<Rightarrow> string \<Rightarrow> string \<Rightarrow> SandboxFsMount list \<Rightarrow> sandbox_error + SandboxResolvedFsPath" where
  "resolveSandboxFsPathWithMounts h input cwd defaultWorkspaceRoot defaultContainerRoot mounts =
     (let inputPosix = normalizePosixInput input in
      case (if posix_isAbsolute inputPosix then findMount h sm_containerRoot (sortByLength sm_containerRoot mounts) inputPosix else None) of
        Some m \<Rightarrow>
          (let rel = posix_relative h (sm_containerRoot m) inputPosix;
               containerPath = (if rel = [] then sm_containerRoot m else posix_join (sm_containerRoot m) rel)
           in Inr \<lparr>rp_hostPath = (if rel = [] then sm_hostRoot m
                 else posix_resolve (sh_cwd h) (sm_hostRoot m # filter (\<lambda>p. p \<noteq> []) (split_on SLASH rel))),
               rp_relativePath = toDisplayRelative h containerPath defaultContainerRoot, rp_containerPath = containerPath, rp_writable = sm_writable m\<rparr>)
      | None \<Rightarrow>
          (let hostResolved = resolveSandboxInputPath h input cwd in
           case findMount h sm_hostRoot (sortByLength sm_hostRoot mounts) hostResolved of
             Some m \<Rightarrow>
               (let rel = posix_relative h (sm_hostRoot m) hostResolved;
                    containerPath = (if rel = [] then sm_containerRoot m else posix_join (sm_containerRoot m) rel)
                in Inr \<lparr>rp_hostPath = hostResolved, rp_relativePath = toDisplayRelative h containerPath defaultContainerRoot,
                    rp_containerPath = containerPath, rp_writable = sm_writable m\<rparr>)
           | None \<Rightarrow> (case resolveSandboxPath h input cwd defaultWorkspaceRoot of
               Inl e \<Rightarrow> Inl e | Inr _ \<Rightarrow> Inl (PathEscapes defaultWorkspaceRoot input))))"

section \<open>What the checks guarantee\<close>

subsection \<open>Paths as lists of segments\<close>

lemma split_on_append: "split_on x (a @ x # b) = split_on x a @ split_on x b"
  by (induction a) (auto split: list.splits)

lemma join_append: "us \<noteq> [] \<Longrightarrow> vs \<noteq> [] \<Longrightarrow> join sep (us @ vs) = join sep us @ sep @ join sep vs"
proof (induction us)
  case (Cons u us)
  then show ?case by (cases us; cases vs) auto
qed simp

lemma split_join:
  assumes "ss \<noteq> []" "\<forall>s \<in> set ss. SLASH \<notin> set s"
  shows "split_on SLASH (join ''/'' ss) = ss"
  using assms
proof (induction ss)
  case (Cons s ss)
  then show ?case by (cases ss) (simp_all add: split_on_word split_on_step)
qed simp

abbreviation clean_segs :: "string list \<Rightarrow> bool" where
  "clean_segs ss \<equiv> \<forall>s \<in> set ss. clean_seg s"

lemma split_join_clean: "ss \<noteq> [] \<Longrightarrow> clean_segs ss \<Longrightarrow> split_on SLASH (join ''/'' ss) = ss"
  by (rule split_join) (auto simp: clean_seg_def)

lemma push_clean: "clean_seg s \<Longrightarrow> path_push True acc s = s # acc"
  by (simp add: path_push_def clean_seg_def)

lemma push_clean_list: "clean_segs ss \<Longrightarrow> foldl (path_push True) acc ss = rev ss @ acc"
  by (induction ss arbitrary: acc) (auto simp: push_clean)

lemma path_segments_append:
  "path_segments True (a @ SLASH # b) = rev (foldl (path_push True) (rev (path_segments True a)) (split_on SLASH b))"
  by (simp add: path_segments_def split_on_append)

lemma path_segments_Nil [simp]: "path_segments True [] = []"
  by (simp add: path_segments_def path_push_def)

lemma path_segments_join: "clean_segs ss \<Longrightarrow> path_segments True (SLASH # join ''/'' ss) = ss"
  using path_segments_append [of "[]" "join ''/'' ss"]
  by (cases "ss = []") (simp_all add: split_join_clean push_clean_list, simp add: path_push_def)

lemma path_segments_trailing: "path_segments True (a @ ''/'') = path_segments True a"
  using path_segments_append [of a "[]"] by (simp add: path_push_def)

lemma join_clean_facts:
  assumes "clean_segs ss" "ss \<noteq> []"
  shows "join ''/'' ss \<noteq> []" "hd (join ''/'' ss) \<noteq> SLASH" "last (join ''/'' ss) \<noteq> SLASH"
proof -
  obtain s r where s: "ss = s # r" using assms(2) by (cases ss) auto
  have c: "s \<noteq> []" "SLASH \<notin> set s" using assms(1) by (auto simp: s clean_seg_def)
  then show "join ''/'' ss \<noteq> []" "hd (join ''/'' ss) \<noteq> SLASH" by (cases r; cases s; auto simp: s)+
  obtain i l where l: "ss = i @ [l]" using assms(2) by (metis append_butlast_last_id)
  have d: "l \<noteq> []" "SLASH \<notin> set l" using assms(1) by (auto simp: l clean_seg_def)
  then have "last l \<noteq> SLASH" by (metis last_in_set)
  then show "last (join ''/'' ss) \<noteq> SLASH" using d(1) by (cases "i = []") (simp_all add: l join_append)
qed

lemma posix_normalize_absolute:
  assumes "posix_isAbsolute p"
  shows "posix_normalize p = (if path_segments True p = [] then ''/''
     else SLASH # join ''/'' (path_segments True p) @ (if last p = SLASH then ''/'' else []))"
proof -
  have "p \<noteq> []" using assms by (auto simp: posix_isAbsolute_def starts_with_def)
  moreover have "join ''/'' (path_segments True p) = [] \<longleftrightarrow> path_segments True p = []"
    using join_clean_facts(1) [OF posix_resolve_clean, of p] by auto
  ultimately show ?thesis using assms by (simp add: posix_normalize_def Let_def)
qed

lemma normalize_absolute:
  assumes "posix_isAbsolute p"
  shows "posix_isAbsolute (posix_normalize p)" "path_segments True (posix_normalize p) = path_segments True p"
proof -
  note n = posix_normalize_absolute [OF assms]
  show "posix_isAbsolute (posix_normalize p)" by (simp add: n posix_isAbsolute_def starts_with_def)
  let ?ss = "path_segments True p"
  have j: "path_segments True (SLASH # join ''/'' ?ss) = ?ss" by (rule path_segments_join [OF posix_resolve_clean])
  have "path_segments True ((SLASH # join ''/'' ?ss) @ ''/'') = ?ss" unfolding path_segments_trailing by (rule j)
  then show "path_segments True (posix_normalize p) = ?ss"
    using j path_segments_join [of "[]"] by (auto simp: n)
qed

lemma posix_resolve_segs: "path_segments True (posix_resolve cwd ps) = path_segments True (posix_resolve_from cwd ps)"
  "posix_isAbsolute (posix_resolve cwd ps)"
  using path_segments_join [OF posix_resolve_clean] by (simp_all add: posix_resolve_def posix_isAbsolute_def starts_with_def)

lemma segs_absolute: "posix_isAbsolute p \<Longrightarrow> segs h p = path_segments True p"
  by (cases p) (auto simp: segs_def posix_isAbsolute_def starts_with_def)

lemma segs_clean: "clean_segs (segs h p)"
  unfolding segs_def by (rule posix_resolve_clean)

lemma segs_resolve: "segs h (posix_resolve (sh_cwd h) [p]) = segs h p"
  using segs_absolute [OF posix_resolve_segs(2)] posix_resolve_segs(1) by (simp add: segs_def)

lemma join_absolute:
  assumes "posix_isAbsolute a" "b \<noteq> []"
  shows "posix_isAbsolute (posix_join a b)"
    "path_segments True (posix_join a b) = rev (foldl (path_push True) (rev (path_segments True a)) (split_on SLASH b))"
proof -
  have a: "a \<noteq> []" "posix_isAbsolute (a @ ''/'' @ b)" using assms(1) by (cases a; auto simp: posix_isAbsolute_def starts_with_def)+
  then show "posix_isAbsolute (posix_join a b)" using assms(2) normalize_absolute(1) by (simp add: posix_join_def)
  show "path_segments True (posix_join a b) = rev (foldl (path_push True) (rev (path_segments True a)) (split_on SLASH b))"
    using a assms(2) normalize_absolute(2) path_segments_append [of a b] by (simp add: posix_join_def)
qed

lemma join_clean_seg:
  assumes "posix_isAbsolute a" "clean_seg s"
  shows "segs h (posix_join a s) = segs h a @ [s]" "posix_isAbsolute (posix_join a s)"
proof -
  have s: "s \<noteq> []" "split_on SLASH s = [s]" using assms(2) by (auto simp: clean_seg_def split_on_word)
  then show "segs h (posix_join a s) = segs h a @ [s]"
    using join_absolute [OF assms(1) s(1)] assms by (simp add: segs_absolute push_clean)
  show "posix_isAbsolute (posix_join a s)" by (rule join_absolute(1) [OF assms(1) s(1)])
qed

subsection \<open>Relative paths\<close>

lemma lcp_prefix: "prefix f t \<Longrightarrow> longest_common_prefix f t = f"
  by (induction f t rule: longest_common_prefix.induct) auto

lemma lcp_not_prefix: "\<not> prefix f t \<Longrightarrow> length (longest_common_prefix f t) < length f"
  by (induction f t rule: longest_common_prefix.induct) auto

lemma relative_prefix: "prefix f t \<Longrightarrow> relative_segs f t = drop (length f) t"
  by (simp add: relative_segs_def lcp_prefix Let_def)

lemma relative_climbs:
  assumes "\<not> prefix f t"
  shows "\<exists>r. relative_segs f t = ''..'' # r"
proof -
  obtain n where "length f - length (longest_common_prefix f t) = Suc n" using lcp_not_prefix [OF assms] by (metis Suc_diff_Suc)
  then show ?thesis by (simp add: relative_segs_def Let_def)
qed

lemma join_dots: "starts_with (join ''/'' (''..'' # r)) ''..''"
  by (cases r) (simp_all add: starts_with_def)

text \<open>When the relative path does not climb, the target lies below, and the path leads there.\<close>

lemma inside_prefix:
  assumes "posix_relative h f t = [] \<or> \<not> (starts_with (posix_relative h f t) ''..'' \<or> posix_isAbsolute (posix_relative h f t))"
  shows "prefix (segs h f) (segs h t)" "posix_relative h f t = join ''/'' (drop (length (segs h f)) (segs h t))"
proof -
  show p: "prefix (segs h f) (segs h t)"
  proof (rule ccontr)
    assume n: "\<not> prefix (segs h f) (segs h t)"
    then obtain r where "relative_segs (segs h f) (segs h t) = ''..'' # r" using relative_climbs [OF n] by auto
    then have "starts_with (posix_relative h f t) ''..''" by (simp add: posix_relative_def join_dots)
    then show False using assms by (auto simp: starts_with_def)
  qed
  show "posix_relative h f t = join ''/'' (drop (length (segs h f)) (segs h t))" by (simp add: posix_relative_def relative_prefix [OF p])
qed

lemma drop_clean: "clean_segs ss \<Longrightarrow> clean_segs (drop n ss)"
  by (meson in_set_dropD)

lemma parts_of_join: "clean_segs ss \<Longrightarrow> filter (\<lambda>p. p \<noteq> []) (split_on SLASH (join ''/'' ss)) = ss"
  by (cases "ss = []") (auto simp: split_join_clean clean_seg_def filter_id_conv)

subsection \<open>Bind mounts\<close>

definition host_path :: "string list \<Rightarrow> string" where
  "host_path ss = SLASH # join ''/'' ss"

lemma normalizeHostPath_absolute:
  assumes "posix_isAbsolute (trim p)"
  shows "normalizeHostPath p = host_path (path_segments True (trim p))"
proof -
  let ?ss = "path_segments True (trim p)"
  have cl: "clean_segs ?ss" by (rule posix_resolve_clean)
  show ?thesis
  proof (cases "?ss = []")
    case True
    then show ?thesis using posix_normalize_absolute [OF assms] by (simp add: normalizeHostPath_def host_path_def strip_slashes_def or_string_def)
  next
    case False
    define j where "j = join ''/'' ?ss"
    have j: "j \<noteq> []" "last j \<noteq> SLASH" using join_clean_facts(1,3) [OF cl False] by (simp_all add: j_def)
    then obtain k x where k: "j = k @ [x]" "x \<noteq> SLASH" by (metis append_butlast_last_id)
    then have body: "strip_slashes (SLASH # j) = SLASH # j" "strip_slashes (SLASH # j @ ''/'') = SLASH # j"
      by (simp_all add: strip_slashes_def)
    show ?thesis using posix_normalize_absolute [OF assms] False body
      by (auto simp: normalizeHostPath_def host_path_def or_string_def j_def [symmetric])
  qed
qed

lemma host_path_facts:
  assumes "clean_segs ss"
  shows "posix_isAbsolute (host_path ss)" "trim (host_path ss) = host_path ss \<Longrightarrow> normalizeHostPath (host_path ss) = host_path ss"
proof -
  show "posix_isAbsolute (host_path ss)" by (simp add: host_path_def posix_isAbsolute_def starts_with_def)
  then show "trim (host_path ss) = host_path ss \<Longrightarrow> normalizeHostPath (host_path ss) = host_path ss"
    using normalizeHostPath_absolute [of "host_path ss"] path_segments_join [OF assms] by (simp add: host_path_def)
qed

lemma host_path_below:
  assumes "clean_segs ss" "clean_segs bs" "bs \<noteq> []"
  shows "host_path ss = host_path bs \<or> starts_with (host_path ss) (host_path bs @ ''/'') \<longleftrightarrow> prefix bs ss"
proof
  assume "prefix bs ss"
  then obtain rest where r: "ss = bs @ rest" by (auto simp: prefix_def)
  show "host_path ss = host_path bs \<or> starts_with (host_path ss) (host_path bs @ ''/'')"
    using assms(3) by (cases "rest = []") (simp_all add: r host_path_def join_append starts_with_iff)
next
  assume "host_path ss = host_path bs \<or> starts_with (host_path ss) (host_path bs @ ''/'')"
  then show "prefix bs ss"
  proof
    assume "host_path ss = host_path bs"
    then have "path_segments True (host_path ss) = path_segments True (host_path bs)" by simp
    then show ?thesis using path_segments_join [OF assms(1)] path_segments_join [OF assms(2)] by (simp add: host_path_def)
  next
    assume "starts_with (host_path ss) (host_path bs @ ''/'')"
    then obtain z where z: "join ''/'' ss = join ''/'' bs @ SLASH # z" by (auto simp: starts_with_iff host_path_def)
    then have "ss \<noteq> []" by auto
    then have "ss = bs @ split_on SLASH z"
      using arg_cong [OF z, of "split_on SLASH"] assms by (simp add: split_on_append split_join_clean)
    then show ?thesis by simp
  qed
qed

text \<open>A place that must not be mounted: the root of the system, or a blocked directory or anything in it.\<close>

definition off_limits :: "string list \<Rightarrow> bool" where
  "off_limits ss \<longleftrightarrow> ss = [] \<or> (\<exists>b \<in> set BLOCKED_HOST_PATHS. prefix (path_segments True b) ss)"

lemma blocked_paths: "list_all (\<lambda>b. b = host_path (path_segments True b) \<and> path_segments True b \<noteq> []) BLOCKED_HOST_PATHS"
  by code_simp

lemma getBlockedReason_iff:
  assumes "clean_segs ss"
  shows "getBlockedReasonForSourcePath (host_path ss) = None \<longleftrightarrow> \<not> off_limits ss"
proof -
  have r: "host_path ss = ''/'' \<longleftrightarrow> ss = []" using join_clean_facts(1) [OF assms] by (auto simp: host_path_def)
  have b: "host_path ss = b \<or> starts_with (host_path ss) (b @ ''/'') \<longleftrightarrow> prefix (path_segments True b) ss" if "b \<in> set BLOCKED_HOST_PATHS" for b
    using blocked_paths that host_path_below [OF assms posix_resolve_clean, of b] unfolding list_all_iff by metis
  show ?thesis using r b by (auto simp: getBlockedReasonForSourcePath_def off_limits_def find_None_iff)
qed

lemma trim_absolute: "posix_isAbsolute s \<Longrightarrow> posix_isAbsolute (trim s)"
proof -
  assume "posix_isAbsolute s"
  then obtain r where s: "s = SLASH # r" by (cases s) (auto simp: posix_isAbsolute_def starts_with_def)
  have "\<not> is_ws SLASH" by (simp add: is_ws_code)
  then have "trim s = SLASH # rev (dropWhile is_ws (rev r))" by (auto simp: s trim_def dropWhile_append)
  then show "posix_isAbsolute (trim s)" by (auto simp: posix_isAbsolute_def starts_with_def)
qed

lemma parse_trim: "parseBindSourcePath (trim b) = parseBindSourcePath b"
  by (simp add: parseBindSourcePath_def)

definition source_segs :: "string \<Rightarrow> string list" where
  "source_segs bind = path_segments True (trim (parseBindSourcePath bind))"

lemma bindReason_iff:
  assumes "\<And>p r. realpath p = Some r \<Longrightarrow> posix_isAbsolute r"
  shows "bindReason realpath bind = None \<longleftrightarrow> posix_isAbsolute (parseBindSourcePath bind) \<and> \<not> off_limits (source_segs bind) \<and>
    (\<forall>r. realpath (host_path (source_segs bind)) = Some r \<longrightarrow> \<not> off_limits (path_segments True (trim r)))"
proof (cases "posix_isAbsolute (parseBindSourcePath bind)")
  case True
  let ?n = "host_path (source_segs bind)"
  have n: "normalizeHostPath (parseBindSourcePath bind) = ?n"
    using normalizeHostPath_absolute [OF trim_absolute [OF True]] by (simp add: source_segs_def)
  have cl: "clean_segs (source_segs bind)" unfolding source_segs_def by (rule posix_resolve_clean)
  have g: "getBlockedBindReason bind = getBlockedReasonForSourcePath ?n" using True n by (simp add: getBlockedBindReason_def posix_isAbsolute_def)
  have abs: "starts_with ?n ''/''" using host_path_facts(1) [OF cl] by (simp add: posix_isAbsolute_def)
  show ?thesis
  proof (cases "realpath ?n")
    case None
    then show ?thesis using True abs getBlockedReason_iff [OF cl] by (auto simp: bindReason_def g n Let_def tryRealpathAbsolute_def split: option.split)
  next
    case (Some r)
    let ?rs = "path_segments True (trim r)"
    have real: "tryRealpathAbsolute realpath ?n = host_path ?rs"
      using abs Some normalizeHostPath_absolute [OF trim_absolute [OF assms [OF Some]]] by (simp add: tryRealpathAbsolute_def)
    have "host_path ?rs = ?n \<Longrightarrow> off_limits ?rs = off_limits (source_segs bind)"
      using path_segments_join [OF cl] path_segments_join [OF posix_resolve_clean, of "trim r"] by (metis host_path_def)
    then show ?thesis using True Some getBlockedReason_iff [OF cl] getBlockedReason_iff [OF posix_resolve_clean, of "trim r"]
      by (auto simp: bindReason_def g n Let_def real split: option.split)
  qed
qed (simp add: bindReason_def getBlockedBindReason_def posix_isAbsolute_def)

lemma bindReason_trim: "bindReason realpath (trim b) = bindReason realpath b"
  unfolding bindReason_def getBlockedBindReason_def parse_trim ..

text \<open>(C39) What the bind check refuses, exactly: the binds pass if and only if the source of each is absolute, is not the root of the system and lies neither at
  nor below a blocked directory, segment by segment and after dots and doubled slashes are resolved, and, when the source exists, the same holds of the place it
  really leads to. So apart from the root of the system a directory above a blocked one passes, contrary to the comment in the code, and a source that does
  not exist yet is judged by its text alone. The hypothesis is that \<open>realpath\<close> answers with absolute paths.
\<close>

theorem bind_check_exact:
  assumes "\<forall>p r. realpath p = Some r \<longrightarrow> posix_isAbsolute r"
  shows "validateBindMounts realpath binds = None \<longleftrightarrow> (\<forall>bind \<in> set (nullish binds []). trim bind = [] \<or>
    posix_isAbsolute (parseBindSourcePath bind) \<and> \<not> off_limits (source_segs bind) \<and>
    (\<forall>r. realpath (host_path (source_segs bind)) = Some r \<longrightarrow> \<not> off_limits (path_segments True (trim r))))"
proof -
  have "validateBinds realpath bs = None \<longleftrightarrow> (\<forall>bind \<in> set bs. trim bind = [] \<or> bindReason realpath bind = None)" for bs
    by (induction bs) (auto simp: Let_def bindReason_trim split: option.split)
  then show ?thesis using bindReason_iff [of realpath] assms by (simp add: validateBindMounts_def)
qed

text \<open>An example: a project directory, and a symbolic link to the Docker socket.\<close>

definition ex_links :: "string \<Rightarrow> string option" where
  "ex_links p = (if p = ''/home/me/sock'' then Some ''/var/run/docker.sock'' else None)"

lemma bind_check_exact_witness:
  "validateBindMounts ex_links (Some [''/home/me/project:/work:rw'']) = None \<and>
   (validateBindMounts ex_links (Some [''/home/me/sock:/sock'']) = None \<longleftrightarrow> (\<forall>bind \<in> set (nullish (Some [''/home/me/sock:/sock'']) []). trim bind = [] \<or>
    posix_isAbsolute (parseBindSourcePath bind) \<and> \<not> off_limits (source_segs bind) \<and>
    (\<forall>r. ex_links (host_path (source_segs bind)) = Some r \<longrightarrow> \<not> off_limits (path_segments True (trim r)))))"
proof -
  have "\<forall>p r. ex_links p = Some r \<longrightarrow> posix_isAbsolute r" by (simp add: ex_links_def posix_isAbsolute_def starts_with_def)
  moreover have "validateBindMounts ex_links (Some [''/home/me/project:/work:rw'']) = None" by code_simp
  ultimately show ?thesis using bind_check_exact [of ex_links "Some [''/home/me/sock:/sock'']"] by blast
qed

text \<open>A directory that contains a blocked one is not refused.\<close>

lemma ancestors_pass: "getBlockedBindReason ''/var:/host'' = None" "getBlockedBindReason ''/private:/host'' = None"
  "getBlockedBindReason ''/var/run:/host'' \<noteq> None"
  by code_simp+

text \<open>A new path below a link to a blocked directory passes: it does not exist, so its real place is not looked at, and the container
  runtime creates it below the link's target.\<close>

lemma new_path_under_link_passes:
  "bindReason (\<lambda>p. if p = ''/home/u/link'' then Some ''/etc'' else None) ''/home/u/link:/x'' \<noteq> None \<and>
   validateBindMounts (\<lambda>p. if p = ''/home/u/link'' then Some ''/etc'' else None) (Some [''/home/u/link/new:/x'']) = None"
  by code_simp

subsection \<open>The environment\<close>

definition harmless_vars :: "(string \<times> string) list \<Rightarrow> bool" where
  "harmless_vars vars \<longleftrightarrow> list_all (\<lambda>(k, v). \<not> matchesBlockedPattern k \<and> CHR 0x00 \<notin> set v) vars"

lemma harmless_update: "harmless_vars vars \<Longrightarrow> \<not> matchesBlockedPattern k \<Longrightarrow> CHR 0x00 \<notin> set v \<Longrightarrow> harmless_vars (AList.update k v vars)"
  unfolding harmless_vars_def by (induction vars) auto

lemma value_without_null: "validateEnvVarValue v \<noteq> Some NullBytes \<Longrightarrow> CHR 0x00 \<notin> set v"
  by (auto simp: validateEnvVarValue_def)

lemma sanitizeEnvVar_harmless:
  assumes "harmless_vars (ev_allowed res)"
  shows "harmless_vars (ev_allowed (sanitizeEnvVar opts kv res))"
proof -
  obtain k v where kv: "kv = (k, v)" by fastforce
  show ?thesis
  proof (cases "matchesBlockedPattern (trim k)")
    case False
    have "validateEnvVarValue v \<noteq> Some NullBytes \<Longrightarrow> harmless_vars (AList.update (trim k) v (ev_allowed res))"
      using harmless_update [OF assms False value_without_null] .
    then show ?thesis using assms unfolding kv sanitizeEnvVar_def Let_def prod.case
      by (cases "validateEnvVarValue v" rule: option.exhaust) (simp_all split: env_warning.split)
  qed (use assms in \<open>simp add: kv sanitizeEnvVar_def Let_def\<close>)
qed

text \<open>No variable with the name of a credential enters the sandbox, and no value with a null byte.\<close>

lemma sanitizeEnvVars_no_credentials: "harmless_vars (ev_allowed (sanitizeEnvVars envVars opts))"
proof -
  have "harmless_vars (ev_allowed res) \<Longrightarrow> harmless_vars (ev_allowed (fold (sanitizeEnvVar opts) envVars res))" for res
    by (induction envVars arbitrary: res) (simp_all add: sanitizeEnvVar_harmless)
  then show ?thesis by (simp add: sanitizeEnvVars_def harmless_vars_def)
qed

subsection \<open>The workspace\<close>

lemma isPathInside_prefix: "isPathInside h f t \<Longrightarrow> prefix (segs h f) (segs h t)"
  by (rule inside_prefix(1)) (auto simp: isPathInside_def Let_def split: if_splits)

lemma resolveSandboxPath_Inr:
  assumes "resolveSandboxPath h filePath cwd rootDir = Inr (resolved, rel)"
  shows "prefix (segs h rootDir) (segs h resolved)" "rel = join ''/'' (drop (length (segs h rootDir)) (segs h resolved))"
proof -
  let ?r = "posix_resolve (sh_cwd h) [rootDir]"
  from assms have r: "rel = posix_relative h ?r resolved" "rel = [] \<or> \<not> (starts_with rel ''..'' \<or> posix_isAbsolute rel)"
    by (auto simp: resolveSandboxPath_def Let_def split: if_splits)
  then show "prefix (segs h rootDir) (segs h resolved)" "rel = join ''/'' (drop (length (segs h rootDir)) (segs h resolved))"
    using inside_prefix [of h ?r resolved] by (simp_all add: segs_resolve)
qed

text \<open>
  An independent account of a file system. A node is absent, plain (a file or a directory) or a link, given with the place where it finally
  leads, or none when it leads nowhere. A place is a list of segments from the root of the system without links in it, and the real location
  of a path is found by walking it and following every link, without any check.
\<close>

datatype fs_node = Absent | Plain | Link "string list option"

definition real_step :: "(string list \<Rightarrow> fs_node) \<Rightarrow> string list \<Rightarrow> string \<Rightarrow> string list option" where
  "real_step node q s =
     (if s = [] \<or> s = ''.'' then Some q else if s = ''..'' then Some (butlast q)
      else case node (q @ [s]) of Absent \<Rightarrow> None | Plain \<Rightarrow> Some (q @ [s]) | Link t \<Rightarrow> t)"

definition real_location :: "(string list \<Rightarrow> fs_node) \<Rightarrow> string list \<Rightarrow> string list option" where
  "real_location node ss = foldl (\<lambda>loc s. Option.bind loc (\<lambda>q. real_step node q s)) (Some []) ss"

text \<open>What \<open>lstat\<close> says of a path: the links on the way are followed, the last segment is not.\<close>

definition fs_lstat :: "(string list \<Rightarrow> fs_node) \<Rightarrow> string list \<Rightarrow> lstat_answer" where
  "fs_lstat node ss =
     (if ss = [] then OtherFile
      else case real_location node (butlast ss) of None \<Rightarrow> Missing
        | Some q \<Rightarrow> (case node (q @ [last ss]) of Absent \<Rightarrow> Missing | Plain \<Rightarrow> OtherFile | Link _ \<Rightarrow> SymbolicLink))"

text \<open>The host answers from this file system, but may refuse to answer \<open>lstat\<close>; links are given with their final places.\<close>

definition serves :: "sandbox_host \<Rightarrow> (string list \<Rightarrow> fs_node) \<Rightarrow> bool" where
  "serves h node \<longleftrightarrow> (\<forall>ss. clean_segs ss \<longrightarrow> sh_realpath h (host_path ss) = map_option host_path (real_location node ss) \<and>
     (sh_lstat h (host_path ss) = fs_lstat node ss \<or> (\<exists>e. sh_lstat h (host_path ss) = StatFails e)))"

definition final_links :: "(string list \<Rightarrow> fs_node) \<Rightarrow> bool" where
  "final_links node \<longleftrightarrow> (\<forall>q s t. node (q @ [s]) = Link (Some t) \<longrightarrow> clean_segs t \<and> real_location node t = Some t)"

lemma real_location_simps [simp]:
  "real_location node [] = Some []"
  "real_location node (ss @ [s]) = Option.bind (real_location node ss) (\<lambda>q. real_step node q s)"
  by (simp_all add: real_location_def)

lemma real_location_append:
  "real_location node (ss @ ts) = foldl (\<lambda>loc s. Option.bind loc (\<lambda>q. real_step node q s)) (real_location node ss) ts"
  by (simp add: real_location_def)

lemma real_location_cong: "real_location node ss = real_location node ss' \<Longrightarrow> real_location node (ss @ ts) = real_location node (ss' @ ts)"
  by (simp add: real_location_append)

lemma real_location_None: "real_location node ss = None \<Longrightarrow> real_location node (ss @ ts) = None"
  unfolding real_location_append by (induction ts) simp_all

lemma real_step_clean:
  "clean_seg s \<Longrightarrow> real_step node q s = (case node (q @ [s]) of Absent \<Rightarrow> None | Plain \<Rightarrow> Some (q @ [s]) | Link t \<Rightarrow> t)"
  by (auto simp: real_step_def clean_seg_def)

lemma real_location_final:
  assumes "final_links node"
  shows "clean_segs ss \<Longrightarrow> real_location node ss = Some q \<Longrightarrow> clean_segs q \<and> real_location node q = Some q"
proof (induction ss arbitrary: q rule: rev_induct)
  case (snoc s ss)
  obtain p where p: "real_location node ss = Some p" "real_step node p s = Some q"
    using snoc.prems(2) by (cases "real_location node ss") simp_all
  have ss: "clean_segs ss" "clean_seg s" using snoc.prems(1) by simp_all
  note c = conjunct1 [OF snoc.IH [OF ss(1) p(1)]] conjunct2 [OF snoc.IH [OF ss(1) p(1)]] ss(2)
  show ?case
  proof (cases "node (p @ [s])")
    case Plain
    with c p(2) have "q = p @ [s]" by (simp add: real_step_clean)
    with c Plain show ?thesis by (simp add: real_step_clean)
  next
    case (Link t)
    with c p(2) have "t = Some q" by (simp add: real_step_clean)
    with Link assms show ?thesis by (simp add: final_links_def)
  qed (use c p(2) in \<open>simp add: real_step_clean\<close>)
qed simp

lemma fs_lstat_snoc:
  "fs_lstat node (ss @ [s]) = (case real_location node ss of None \<Rightarrow> Missing
     | Some q \<Rightarrow> (case node (q @ [s]) of Absent \<Rightarrow> Missing | Plain \<Rightarrow> OtherFile | Link _ \<Rightarrow> SymbolicLink))"
  by (cases "real_location node ss") (simp_all add: fs_lstat_def)

lemma fs_lstat_cong:
  assumes "real_location node ss = real_location node ss'" "ts \<noteq> []"
  shows "fs_lstat node (ss @ ts) = fs_lstat node (ss' @ ts)"
proof -
  have "last (ss @ ts) = last ts" "last (ss' @ ts) = last ts" using assms(2) by simp_all
  with real_location_cong [OF assms(1), of "butlast ts"] assms(2) show ?thesis by (simp only: fs_lstat_def butlast_append append_is_Nil_conv simp_thms if_False)
qed

lemma segs_host_path: "clean_segs ss \<Longrightarrow> segs h (host_path ss) = ss"
  using segs_absolute host_path_facts(1) path_segments_join by (metis host_path_def)

lemma join_host_path:
  assumes "clean_segs ss" "clean_seg s"
  shows "posix_join (host_path ss) s = host_path (ss @ [s])"
proof -
  have s: "s \<noteq> []" "last s \<noteq> SLASH" "host_path ss \<noteq> []" "posix_isAbsolute (host_path ss)"
    using assms(2) host_path_facts(1) [OF assms(1)] by (auto simp: clean_seg_def host_path_def) (metis last_in_set)
  have a: "posix_isAbsolute (host_path ss @ ''/'' @ s)" by (simp add: host_path_def posix_isAbsolute_def starts_with_def)
  have "path_segments True (host_path ss @ ''/'' @ s) = ss @ [s]"
    using path_segments_append [of "host_path ss" s] path_segments_join [OF assms(1)] assms(2)
    by (simp add: host_path_def split_on_word clean_seg_def push_clean)
  then show ?thesis using posix_normalize_absolute [OF a] s by (simp add: posix_join_def host_path_def)
qed

text \<open>The code's walk keeps the real location of the path it has read, and every place reached is inside.\<close>

lemma walk_inside:
  assumes "serves h node" "final_links node" "clean_segs R"
  shows "clean_segs cs \<Longrightarrow> clean_segs parts \<Longrightarrow> (\<And>q. real_location node cs = Some q \<Longrightarrow> prefix R q) \<Longrightarrow>
    walkParts h (host_path R) allowFinal (host_path cs) parts = Inr final \<Longrightarrow> k \<le> length parts \<Longrightarrow>
    \<not> (allowFinal \<and> k = length parts \<and> 0 < k \<and> fs_lstat node (cs @ parts) = SymbolicLink) \<Longrightarrow>
    real_location node (cs @ take k parts) = Some q \<Longrightarrow> prefix R q"
proof (induction parts arbitrary: cs k)
  case (Cons part parts)
  let ?cs = "cs @ [part]"
  have cl: "clean_seg part" "clean_segs ?cs" using Cons.prems(1,2) by auto
  note j = join_host_path [OF Cons.prems(1) cl(1)]
  have real: "sh_realpath h (host_path ?cs) = map_option host_path (real_location node ?cs)"
    and lst: "sh_lstat h (host_path ?cs) = fs_lstat node ?cs \<or> (\<exists>e. sh_lstat h (host_path ?cs) = StatFails e)"
    using assms(1) cl(2) unfolding serves_def by blast+
  show ?case
  proof (cases k)
    case 0
    with Cons.prems(3,7) show ?thesis by simp
  next
    case (Suc k')
    have loc: "real_location node (?cs @ take k' parts) = Some q" using Cons.prems(7) Suc by simp
    have here: "real_location node ?cs \<noteq> None"
    proof
      assume "real_location node ?cs = None"
      from real_location_None [OF this] loc show False by simp
    qed
    show ?thesis
    proof (cases "sh_lstat h (host_path ?cs)")
      case Missing
      with lst here cl(1) show ?thesis by (auto simp: fs_lstat_snoc real_step_clean split: option.splits fs_node.splits)
    next
      case OtherFile
      with lst have "prefix R q'" if "real_location node ?cs = Some q'" for q'
        using that cl(1) Cons.prems(3) by (auto simp: fs_lstat_snoc real_step_clean prefix_prefix split: option.splits fs_node.splits)
      then show ?thesis
        using Cons.IH [OF cl(2) _ _ _ _ _ loc] Cons.prems(2,4,5,6) OtherFile Suc by (auto simp: j)
    next
      case SymbolicLink
      show ?thesis
      proof (cases "allowFinal \<and> parts = []")
        case True
        with SymbolicLink lst Cons.prems(5,6) Suc show ?thesis by auto
      next
        case False
        obtain t where t: "real_location node ?cs = Some t" using here by auto
        note ft = real_location_final [OF assms(2) cl(2) t]
        have tr: "tryRealpath h (host_path ?cs) = host_path t"
          unfolding tryRealpath_def real t by simp
        have w: "isPathInside h (host_path R) (host_path t)" "walkParts h (host_path R) allowFinal (host_path t) parts = Inr final"
          using Cons.prems(4) SymbolicLink False tr by (auto simp: j Let_def split: if_splits)
        have in': "prefix R t" using isPathInside_prefix [OF w(1)] segs_host_path assms(3) ft by simp
        have same: "real_location node t = real_location node ?cs" using ft t by simp
        have "\<not> (allowFinal \<and> k' = length parts \<and> 0 < k' \<and> fs_lstat node (t @ parts) = SymbolicLink)"
          using Cons.prems(6) Suc False fs_lstat_cong [OF same, of parts] by auto
        then show ?thesis
          using Cons.IH [OF _ _ _ w(2), of k'] ft in' Cons.prems(2,5) Suc loc real_location_cong [OF same, of "take k' parts"] by simp
      qed
    qed (use Cons.prems(4) in \<open>auto simp: j Let_def\<close>)
  qed
qed simp

text \<open>(C19) Sandbox paths stay inside. Let the host answer \<open>lstat\<close> and \<open>realpath\<close> from one file system. A path that is accepted lies,
  segment by segment, at or below the sandbox root, and the relative path returned leads from the root to it. And when that path is
  walked from the root of the system, following every link, every place on the way below the sandbox root, and the place it ends at, lies at or below the real
  location of the sandbox root. Excepted is the very last segment when it is a link and the caller allows that (to unlink it).
  A link that leads nowhere has no real location, so the statement is silent about what is created through it.
\<close>

theorem sandbox_path_contained:
  assumes "serves h node" and "final_links node"
    and "assertSandboxPath h filePath cwd rootDir allowFinal = Inr (resolved, rel)"
  shows "\<exists>rest. segs h resolved = segs h rootDir @ rest \<and> rel = join ''/'' rest \<and>
    (\<forall>k q. k \<le> length rest \<and> \<not> (allowFinal \<and> k = length rest \<and> 0 < k \<and> fs_lstat node (segs h resolved) = SymbolicLink) \<longrightarrow>
       real_location node (segs h rootDir @ take k rest) = Some q \<longrightarrow>
       (\<exists>R. real_location node (segs h rootDir) = Some R \<and> prefix R q))"
proof -
  let ?r = "posix_resolve (sh_cwd h) [rootDir]"
  from assms(3) obtain final where r: "resolveSandboxPath h filePath cwd rootDir = Inr (resolved, rel)"
    and f: "assertNoSymlinkEscape h rel ?r allowFinal = Inr final"
    by (auto simp: assertSandboxPath_def split: sum.splits prod.splits)
  note rel = resolveSandboxPath_Inr [OF r]
  then obtain rest where rest: "segs h resolved = segs h rootDir @ rest" "rel = join ''/'' rest" by (auto simp: prefix_def)
  have cl: "clean_segs (segs h rootDir)" "clean_segs rest" using segs_clean [of h resolved] segs_clean by (auto simp: rest(1))
  have root: "?r = host_path (segs h rootDir)" by (simp add: posix_resolve_def segs_def host_path_def)
  have "\<exists>R. real_location node (segs h rootDir) = Some R \<and> prefix R q"
    if k: "k \<le> length rest" "\<not> (allowFinal \<and> k = length rest \<and> 0 < k \<and> fs_lstat node (segs h resolved) = SymbolicLink)"
      and q: "real_location node (segs h rootDir @ take k rest) = Some q" for k q
  proof -
    obtain R where R: "real_location node (segs h rootDir) = Some R" using real_location_None q by (metis not_None_eq)
    note fR = real_location_final [OF assms(2) cl(1) R]
    have "sh_realpath h ?r = Some (host_path R)" using assms(1) cl(1) R unfolding serves_def root by fastforce
    then have rr: "tryRealpath h ?r = host_path R" by (simp add: tryRealpath_def)
    have "prefix R q"
    proof (cases "rest = []")
      case False
      then have "rel \<noteq> []" using join_clean_facts(1) [OF cl(2)] rest(2) by simp
      then have "walkParts h (host_path R) allowFinal (host_path (segs h rootDir)) rest = Inr final"
        using f rr parts_of_join [OF cl(2)] by (simp add: assertNoSymlinkEscape_def rest(2) root)
      from walk_inside [OF assms(1,2) conjunct1 [OF fR] cl _ this k(1) _ q] R k(2) rest(1) show ?thesis by simp
    qed (use R q in simp)
    with R show ?thesis by blast
  qed
  with rest show ?thesis by blast
qed

text \<open>An example: in \<open>/work\<close> the link \<open>notes\<close> leads to \<open>/work/real\<close>, \<open>evil\<close> to \<open>/etc\<close>, \<open>self\<close> to \<open>/work\<close> and \<open>gone\<close> nowhere (its target does not exist).\<close>

definition ex_node :: "string list \<Rightarrow> fs_node" where
  "ex_node p =
     (if p = [''work'', ''notes''] then Link (Some [''work'', ''real'']) else if p = [''work'', ''evil''] then Link (Some [''etc''])
      else if p = [''work'', ''self''] then Link (Some [''work'']) else if p = [''work'', ''gone''] then Link None
      else if p \<in> set [[''work''], [''etc''], [''etc'', ''passwd''], [''work'', ''real''], [''work'', ''real'', ''a.md'']] then Plain else Absent)"

definition ex_sandbox :: sandbox_host where
  "ex_sandbox = \<lparr>sh_cwd = ''/srv'', sh_homedir = ''/home/me'',
     sh_lstat = \<lambda>p. fs_lstat ex_node (path_segments True p), sh_realpath = \<lambda>p. map_option host_path (real_location ex_node (path_segments True p)),
     sh_fileURLToPath = \<lambda>_. None\<rparr>"

lemma ex_sandbox_answers:
  "assertSandboxPath ex_sandbox ''notes/a.md'' ''/work'' ''/work'' False = Inr (''/work/notes/a.md'', ''notes/a.md'')"
  "assertSandboxPath ex_sandbox ''evil/passwd'' ''/work'' ''/work'' False = Inl (SymlinkEscapes ''/work'' ''/work/evil'')"
  "assertSandboxPath ex_sandbox ''../work2/x'' ''/work'' ''/work'' False = Inl (PathEscapes ''/work'' ''../work2/x'')"
  by code_simp+

lemma ex_sandbox_serves: "serves ex_sandbox ex_node" "final_links ex_node"
proof -
  show "serves ex_sandbox ex_node" by (simp add: serves_def ex_sandbox_def host_path_def path_segments_join)
  have "list_all (\<lambda>t. list_all clean_seg t \<and> real_location ex_node t = Some t) [[''work'', ''real''], [''etc''], [''work'']]" by code_simp
  then show "final_links ex_node" unfolding final_links_def by (auto simp: ex_node_def list_all_iff)
qed

lemma sandbox_path_contained_witness:
  "real_location ex_node [''work'', ''notes'', ''a.md''] = Some [''work'', ''real'', ''a.md''] \<and> prefix [''work''] [''work'', ''real'', ''a.md'']"
proof -
  have s: "segs ex_sandbox ''/work/notes/a.md'' = [''work'', ''notes'', ''a.md'']" "segs ex_sandbox ''/work'' = [''work'']"
    "real_location ex_node [''work''] = Some [''work'']" by code_simp+
  have l: "real_location ex_node [''work'', ''notes'', ''a.md''] = Some [''work'', ''real'', ''a.md'']" by code_simp
  obtain rest where "segs ex_sandbox ''/work/notes/a.md'' = segs ex_sandbox ''/work'' @ rest"
    "\<forall>k q. k \<le> length rest \<and> \<not> (False \<and> k = length rest \<and> 0 < k \<and> fs_lstat ex_node (segs ex_sandbox ''/work/notes/a.md'') = SymbolicLink) \<longrightarrow>
       real_location ex_node (segs ex_sandbox ''/work'' @ take k rest) = Some q \<longrightarrow>
       (\<exists>R. real_location ex_node (segs ex_sandbox ''/work'') = Some R \<and> prefix R q)"
    using sandbox_path_contained [OF ex_sandbox_serves ex_sandbox_answers(1)] by blast
  then have "\<exists>R. real_location ex_node [''work''] = Some R \<and> prefix R [''work'', ''real'', ''a.md'']"
    using s l by (metis (no_types, lifting) append_take_drop_id le_refl take_all)
  with s(3) l show ?thesis by simp
qed

text \<open>A link whose target does not exist is accepted, wherever it leads: its real location cannot be found and its own path is checked instead.\<close>

lemma dangling_link_accepted:
  "assertSandboxPath ex_sandbox ''gone'' ''/work'' ''/work'' False = Inr (''/work/gone'', ''gone'') \<and>
   fs_lstat ex_node [''work'', ''gone''] = SymbolicLink \<and> real_location ex_node [''work'', ''gone''] = None"
  by code_simp

text \<open>An absolute path is checked with its dots resolved but returned as given: through a link to the root it leads outside.\<close>

lemma dots_after_link_escape:
  "assertSandboxPath ex_sandbox ''/work/self/../etc/passwd'' ''/work'' ''/work'' False = Inr (''/work/self/../etc/passwd'', ''etc/passwd'') \<and>
   real_location ex_node (split_on SLASH ''/work/self/../etc/passwd'') = Some [''etc'', ''passwd'']"
  by code_simp

subsection \<open>Mounts\<close>

lemma inside_rest:
  assumes "isPathInside h f t"
  obtains rest where "clean_segs rest" "segs h t = segs h f @ rest" "posix_relative h f t = join ''/'' rest" "posix_relative h f t = [] \<longleftrightarrow> rest = []"
proof -
  have i: "posix_relative h f t = [] \<or> \<not> (starts_with (posix_relative h f t) ''..'' \<or> posix_isAbsolute (posix_relative h f t))"
    using assms by (auto simp: isPathInside_def Let_def split: if_splits)
  obtain rest where r: "segs h t = segs h f @ rest" using inside_prefix(1) [OF i] by (auto simp: prefix_def)
  then have j: "posix_relative h f t = join ''/'' rest" using inside_prefix(2) [OF i] by simp
  have cl: "clean_segs rest" using segs_clean [of h t] by (simp add: r)
  show thesis using join_clean_facts(1) [OF cl] by (intro that [OF cl r j]) (auto simp: j)
qed

lemma join_rest:
  assumes "posix_isAbsolute a" "clean_segs rest" "rest \<noteq> []"
  shows "segs h (posix_join a (join ''/'' rest)) = segs h a @ rest"
  using join_absolute [OF assms(1) join_clean_facts(1) [OF assms(2,3)]] assms
  by (simp add: segs_absolute split_join_clean push_clean_list)

lemma resolve_from_rest:
  assumes "posix_isAbsolute base" "clean_segs rest"
  shows "path_segments True (posix_resolve_from base rest) = path_segments True base @ rest"
  using assms
proof (induction rest arbitrary: base)
  case (Cons s rest)
  have s: "clean_seg s" "s \<noteq> []" "SLASH \<notin> set s" using Cons.prems(2) by (auto simp: clean_seg_def)
  then have "\<not> posix_isAbsolute s" by (cases s) (auto simp: posix_isAbsolute_def starts_with_def)
  moreover have "posix_isAbsolute (base @ ''/'' @ s)" using Cons.prems(1) by (cases base) (auto simp: posix_isAbsolute_def starts_with_def)
  moreover have "path_segments True (base @ ''/'' @ s) = path_segments True base @ [s]"
    using path_segments_append [of base s] s by (simp add: split_on_word push_clean)
  ultimately show ?case using Cons.IH [of "base @ ''/'' @ s"] Cons.prems(2) s(2) by simp
qed simp

lemma resolve_rest:
  assumes "posix_isAbsolute a" "clean_segs rest"
  shows "segs h (posix_resolve (sh_cwd h) (a # rest)) = segs h a @ rest"
proof -
  have "a \<noteq> []" using assms(1) by (auto simp: posix_isAbsolute_def starts_with_def)
  then have "posix_resolve_from (sh_cwd h) (a # rest) = posix_resolve_from a rest" using assms(1) by simp
  then show ?thesis using resolve_from_rest [OF assms] posix_resolve_segs segs_absolute assms(1) by metis
qed

lemma find_longest:
  assumes "find P (sortByLength f ms) = Some m"
  shows "m \<in> set ms" "P m" "\<And>m'. m' \<in> set ms \<Longrightarrow> P m' \<Longrightarrow> length (f m') \<le> length (f m)"
proof -
  let ?ys = "sortByLength f ms"
  obtain i where i: "i < length ?ys" "P (?ys ! i)" "m = ?ys ! i" "\<forall>j<i. \<not> P (?ys ! j)" using assms by (auto simp: find_Some_iff)
  have set: "set ?ys = set ms" by (simp add: sortByLength_def)
  then show "m \<in> set ms" "P m" using i by (auto dest: nth_mem)
  fix m' assume m': "m' \<in> set ms" "P m'"
  then obtain k where k: "k < length ?ys" "m' = ?ys ! k" using set by (metis in_set_conv_nth)
  then have "i \<le> k" using i(4) m'(2) by (meson not_le)
  moreover have "sorted (map (\<lambda>m. - int (length (f m))) ?ys)" by (simp add: sortByLength_def)
  ultimately have "- int (length (f m)) \<le> - int (length (f m'))"
    using k i(3) sorted_nth_mono [of "map (\<lambda>m. - int (length (f m))) ?ys" i k] by simp
  then show "length (f m') \<le> length (f m)" by simp
qed

lemma dedupe_subset: "set (dedupeMounts ms) \<subseteq> set ms"
proof -
  have "set (dedupeMountsFrom seen ms) \<subseteq> set ms" for seen by (induction seen ms rule: dedupeMountsFrom.induct) auto
  then show ?thesis by (simp add: dedupeMounts_def)
qed

lemma container_absolute: "posix_isAbsolute p \<Longrightarrow> posix_isAbsolute (normalizeContainerPath p)"
  using normalize_absolute(1) by (auto simp: normalizeContainerPath_def Let_def posix_isAbsolute_def starts_with_def)

lemma built_mounts:
  assumes "posix_isAbsolute (sc_containerWorkdir sandbox)" "m \<in> set (buildSandboxFsMounts h sandbox)"
  shows "posix_isAbsolute (sm_hostRoot m)" "posix_isAbsolute (sm_containerRoot m)"
    "sm_writable m \<Longrightarrow> sm_source m = MountBind \<or> sc_workspaceAccess sandbox = AccessRw"
proof -
  have bind: "posix_isAbsolute (sm_hostRoot b) \<and> posix_isAbsolute (sm_containerRoot b) \<and> sm_source b = MountBind" if "parseSandboxBindMount h spec = Some b" for spec b
    using that container_absolute posix_resolve_segs(2)
    by (auto simp: parseSandboxBindMount_def Let_def split: if_splits option.splits prod.splits)
  have agent: "posix_isAbsolute SANDBOX_AGENT_WORKSPACE_MOUNT" by (simp add: SANDBOX_AGENT_WORKSPACE_MOUNT_def posix_isAbsolute_def starts_with_def)
  have "m \<in> set (\<lparr>sm_hostRoot = posix_resolve (sh_cwd h) [sc_workspaceDir sandbox], sm_containerRoot = normalizeContainerPath (sc_containerWorkdir sandbox),
        sm_writable = (sc_workspaceAccess sandbox = AccessRw), sm_source = MountWorkspace\<rparr> #
      [\<lparr>sm_hostRoot = posix_resolve (sh_cwd h) [sc_agentWorkspaceDir sandbox], sm_containerRoot = SANDBOX_AGENT_WORKSPACE_MOUNT,
        sm_writable = (sc_workspaceAccess sandbox = AccessRw), sm_source = MountAgent\<rparr>] @ List.map_filter (parseSandboxBindMount h) (nullish (sc_binds sandbox) []))"
    using assms(2) dedupe_subset unfolding buildSandboxFsMounts_def Let_def by (fastforce split: if_splits)
  then show "posix_isAbsolute (sm_hostRoot m)" "posix_isAbsolute (sm_containerRoot m)"
    "sm_writable m \<Longrightarrow> sm_source m = MountBind \<or> sc_workspaceAccess sandbox = AccessRw"
    using bind agent container_absolute [OF assms(1)] posix_resolve_segs(2) by (auto simp: map_filter_def)
qed

text \<open>(C40) A mapped path is one place seen from two sides: when the file tools resolve a path through the mounts of a sandbox, the host path and the container path lie at the
  same segments below the two ends of one mount, and the path is writable only if that mount is, which for anything but an explicit bind requires read-write
  workspace access. When the input is absolute, no mount with a longer container path holds the input. (For a relative path or a path of the host nothing
  of this kind holds: the lemma after the witness shows one whose container path belongs to another bind.)
\<close>

theorem mounted_path_consistent:
  assumes "posix_isAbsolute (sc_containerWorkdir sandbox)"
    and "resolveSandboxFsPathWithMounts h input cwd workspaceRoot containerRoot (buildSandboxFsMounts h sandbox) = Inr r"
  shows "\<exists>m \<in> set (buildSandboxFsMounts h sandbox). \<exists>rest.
    segs h (rp_hostPath r) = segs h (sm_hostRoot m) @ rest \<and> segs h (rp_containerPath r) = segs h (sm_containerRoot m) @ rest \<and>
    rp_writable r = sm_writable m \<and> (rp_writable r \<longrightarrow> sm_source m = MountBind \<or> sc_workspaceAccess sandbox = AccessRw) \<and>
    (posix_isAbsolute (normalizePosixInput input) \<longrightarrow>
       (\<forall>m' \<in> set (buildSandboxFsMounts h sandbox). isPathInside h (sm_containerRoot m') (normalizePosixInput input) \<longrightarrow>
          length (sm_containerRoot m') \<le> length (sm_containerRoot m)))"
proof -
  let ?ms = "buildSandboxFsMounts h sandbox" and ?in = "normalizePosixInput input"
  note built = built_mounts [OF assms(1)]
  have container: "segs h (if join ''/'' rest = [] then sm_containerRoot m else posix_join (sm_containerRoot m) (join ''/'' rest)) = segs h (sm_containerRoot m) @ rest"
    if "m \<in> set ?ms" "clean_segs rest" for m rest
    using join_rest [OF built(2) [OF that(1)] that(2)] join_clean_facts(1) [OF that(2)] by (cases "rest = []") auto
  define byC where "byC = (if posix_isAbsolute ?in then findMount h sm_containerRoot (sortByLength sm_containerRoot ?ms) ?in else None)"
  show ?thesis
  proof (cases byC)
    case (Some m)
    then have abs: "posix_isAbsolute ?in" and fm: "find (\<lambda>m. isPathInside h (sm_containerRoot m) ?in) (sortByLength sm_containerRoot ?ms) = Some m"
      by (auto simp: byC_def findMount_def split: if_splits)
    note m = find_longest [OF fm]
    obtain rest where rest: "clean_segs rest" "posix_relative h (sm_containerRoot m) ?in = join ''/'' rest"
        "posix_relative h (sm_containerRoot m) ?in = [] \<longleftrightarrow> rest = []" using inside_rest [OF m(2)] by metis
    from assms(2) Some have r: "rp_containerPath r = (if join ''/'' rest = [] then sm_containerRoot m else posix_join (sm_containerRoot m) (join ''/'' rest))"
        "rp_hostPath r = (if rest = [] then sm_hostRoot m else posix_resolve (sh_cwd h) (sm_hostRoot m # filter (\<lambda>p. p \<noteq> []) (split_on SLASH (join ''/'' rest))))"
        "rp_writable r = sm_writable m"
      using rest(2,3) by (auto simp: resolveSandboxFsPathWithMounts_def Let_def byC_def [symmetric])
    have host: "segs h (rp_hostPath r) = segs h (sm_hostRoot m) @ rest"
      using resolve_rest [OF built(1) [OF m(1)] rest(1)] parts_of_join [OF rest(1)] by (simp add: r(2))
    show ?thesis using m(1,3) host container [OF m(1) rest(1)] r built(3) [OF m(1)]
      by (intro bexI [OF _ m(1)] exI [of _ rest]) simp
  next
    case None
    have none: "\<not> (posix_isAbsolute ?in \<and> m' \<in> set ?ms \<and> isPathInside h (sm_containerRoot m') ?in)" for m'
      using None by (auto simp: byC_def findMount_def find_None_iff sortByLength_def split: if_splits)
    let ?hr = "resolveSandboxInputPath h input cwd"
    from assms(2) None obtain m where fm: "find (\<lambda>m. isPathInside h (sm_hostRoot m) ?hr) (sortByLength sm_hostRoot ?ms) = Some m"
        and r: "rp_hostPath r = ?hr" "rp_writable r = sm_writable m"
          "rp_containerPath r = (if posix_relative h (sm_hostRoot m) ?hr = [] then sm_containerRoot m
             else posix_join (sm_containerRoot m) (posix_relative h (sm_hostRoot m) ?hr))"
      by (auto simp: resolveSandboxFsPathWithMounts_def Let_def byC_def [symmetric] findMount_def split: option.splits sum.splits)
    note m = find_longest [OF fm]
    obtain rest where rest: "clean_segs rest" "segs h ?hr = segs h (sm_hostRoot m) @ rest" "posix_relative h (sm_hostRoot m) ?hr = join ''/'' rest"
      using inside_rest [OF m(2)] by metis
    show ?thesis using none rest container [OF m(1) rest(1)] r built(3) [OF m(1)]
      by (intro bexI [OF _ m(1)] exI [of _ rest]) auto
  qed
qed

definition ex_context :: SandboxContext where
  "ex_context = \<lparr>sc_workspaceDir = ''/srv/ws'', sc_agentWorkspaceDir = ''/srv/agent'', sc_workspaceAccess = AccessRo, sc_containerWorkdir = ''/workspace'',
     sc_binds = Some [''/data/in:/workspace/in:ro'']\<rparr>"

lemma ex_mounted: "resolveSandboxFsPathWithMounts ex_sandbox ''/workspace/in/../in/a.txt'' ''/srv/ws'' ''/srv/ws'' ''/workspace'' (buildSandboxFsMounts ex_sandbox ex_context) =
    Inr \<lparr>rp_hostPath = ''/data/in/a.txt'', rp_relativePath = ''in/a.txt'', rp_containerPath = ''/workspace/in/a.txt'', rp_writable = False\<rparr>"
  by code_simp

lemma mounted_path_consistent_witness:
  "\<exists>m \<in> set (buildSandboxFsMounts ex_sandbox ex_context). \<exists>rest. segs ex_sandbox ''/data/in/a.txt'' = segs ex_sandbox (sm_hostRoot m) @ rest \<and>
     segs ex_sandbox ''/workspace/in/a.txt'' = segs ex_sandbox (sm_containerRoot m) @ rest \<and> \<not> sm_writable m"
proof -
  have "posix_isAbsolute (sc_containerWorkdir ex_context)" by code_simp
  from mounted_path_consistent [OF this ex_mounted] show ?thesis by auto
qed

text \<open>A relative path is looked up by host path only: the file of the workspace is taken, although in the container a bind covers that path.\<close>

lemma relative_path_shadowed:
  "resolveSandboxFsPathWithMounts ex_sandbox ''in/a.txt'' ''/srv/ws'' ''/srv/ws'' ''/workspace'' (buildSandboxFsMounts ex_sandbox ex_context) =
    Inr \<lparr>rp_hostPath = ''/srv/ws/in/a.txt'', rp_relativePath = ''in/a.txt'', rp_containerPath = ''/workspace/in/a.txt'', rp_writable = False\<rparr>"
  by code_simp

text \<open>A file whose name begins with two dots is taken for an escape.\<close>

lemma dotted_name_refused: "resolveSandboxPath ex_sandbox ''..notes'' ''/work'' ''/work'' = Inl (PathEscapes ''/work'' ''..notes'')"
  by code_simp

end
